(* ===== verification/Snmp_Prelude.thy ===== *)
theory Snmp_Prelude
  imports Main "HOL-Library.Word" "HOL-Library.AList" "HOL-Library.List_Lexorder"
    "HOL-Library.Monad_Syntax"
begin

text \<open>
  Shared vocabulary of the development: the types that stand for Python's octet strings,
  object identifiers and dictionaries, the exceptions the modelled code raises, the error
  monad in which fallible code is written, and the generic lemmas on lists and association
  lists that the component theories use.

  \<^item> \<open>octets\<close> is a Python \<open>bytes\<close> value, a list of 8-bit words;
  \<^item> \<open>oid\<close> is an object identifier, the tuple of its sub-identifiers;
  \<^item> a dictionary whose iteration order is observable is an association list in insertion
    order, updated by \<open>AList.update\<close> (which, like Python, keeps the position of a key that
    is present and appends a new one) and \<open>AList.delete\<close>; any other dictionary is a map;
  \<^item> an exception is a value of type \<open>exn\<close>, and code that may raise returns \<open>exn + 'a\<close>.
\<close>

section \<open>Types\<close>

type_synonym octets = "8 word list"
type_synonym oid = "nat list"
type_synonym ('k, 'v) odict = "('k \<times> 'v) list"

text \<open>The kinds of access that are asked for, the strings \<open>read\<close>, \<open>write\<close> and \<open>notify\<close>.\<close>

datatype view_type = read_view | write_view | notify_view

section \<open>Values and protocol data units\<close>

text \<open>
  A PDU's tag set decides what it is: the five tags SNMPv1 and SNMPv2 share are the same, so
  one \<open>pdu_type\<close> serves both.
\<close>

datatype snmp_value =
    VInteger int
  | VOctetString octets
  | VNull
  | VObjectIdentifier oid
  | VIpAddress octets
  | VCounter32 int
  | VGauge32 int
  | VTimeTicks int
  | VOpaque octets
  | VCounter64 int
  | VNoSuchObject
  | VNoSuchInstance
  | VEndOfMibView
  | VNetworkAddress octets

datatype pdu_type = GetRequest | GetNextRequest | Response | SetRequest | Trap
  | GetBulkRequest | InformRequest | SNMPv2Trap | Report

type_synonym var_bind = "oid \<times> snmp_value"

text \<open>
  Every PDU but the SNMPv1 trap. In a GETBULK request the two middle fields are
  \<open>non-repeaters\<close> and \<open>max-repetitions\<close>.
\<close>

record pdu =
  p_type :: pdu_type
  p_requestID :: int
  p_errorStatus :: int
  p_errorIndex :: int
  p_varBinds :: "var_bind list"

record trap_pdu =
  t_enterprise :: oid
  t_agentAddr :: octets
  t_genericTrap :: int
  t_specificTrap :: int
  t_timeStamp :: int
  t_varBinds :: "var_bind list"

datatype v1_pdu = V1Pdu pdu | V1Trap trap_pdu

text \<open>A PDU and the context it is for, \<open>ScopedPDU\<close> of \<open>pysnmp/proto/mpmod/rfc3412.py\<close>.\<close>

record scoped_pdu =
  sp_contextEngineId :: octets
  sp_contextName :: octets
  sp_pdu :: pdu

section \<open>Error indications and exceptions\<close>

text \<open>
  The error indications of \<open>pysnmp/proto/errind.py\<close>. An indication compares by the name of
  its class only (\<open>ErrorIndication.__eq__\<close>), never by its description, so the description
  is not part of the value.
\<close>

datatype errind =
    serializationError | deserializationError | parseError
  | unsupportedMsgProcessingModel | unknownPDUHandler | unsupportedPDUtype
  | requestTimedOut | transportFailure | emptyResponse | nonReportable
  | dataMismatch | engineIDMismatch | unknownEngineID | tooBig | loopTerminated
  | invalidMsg | unknownCommunityName | noEncryption | encryptionError
  | decryptionError | noAuthentication | authenticationError
  | authenticationFailure | unsupportedAuthProtocol | unsupportedPrivProtocol
  | unknownSecurityName | unsupportedSecurityModel | unsupportedSecurityLevel
  | notInTimeWindow | unknownUserName | wrongDigest | reportPduReceived
  | noSuchView | noAccessEntry | noGroupName | noSuchContext | notInView
  | accessAllowed | otherError | oidNotIncreasing

text \<open>
  The keyword arguments a \<open>StatusInformation\<close> (\<open>pysnmp/proto/error.py\<close>) is raised with:
  a detail that was not given is \<open>None\<close>, so \<open>"oid" in statusInformation\<close> reads
  \<open>si_oid s \<noteq> None\<close>.
\<close>

record status_info =
  si_errorIndication :: "errind option"
  si_oid :: "oid option"
  si_val :: "int option"
  si_idx :: "nat option"
  si_sendPduHandle :: "nat option"
  si_securityStateReference :: "nat option"
  si_securityLevel :: "nat option"
  si_contextEngineId :: "octets option"
  si_contextName :: "octets option"
  si_msgUserName :: "octets option"
  si_maxSizeResponseScopedPDU :: "int option"
  si_scopedPDU :: "scoped_pdu option"

definition no_details :: status_info where
  "no_details = \<lparr>si_errorIndication = None, si_oid = None, si_val = None, si_idx = None,
     si_sendPduHandle = None, si_securityStateReference = None, si_securityLevel = None,
     si_contextEngineId = None, si_contextName = None, si_msgUserName = None,
     si_maxSizeResponseScopedPDU = None, si_scopedPDU = None\<rparr>"

text \<open>
  The errors of \<open>pysnmp/smi/error.py\<close>: the class, and of the keyword arguments the ones some
  code reads back. \<open>syntax\<close> is only ever a row status.
\<close>

datatype smi_class =
    SmiErr | MibOperationErr | TooBigErr | NoSuchNameErr | BadValueErr | ReadOnlyErr | GenErr
  | NoAccessErr | WrongTypeErr | WrongLengthErr | WrongEncodingErr | WrongValueErr
  | NoCreationErr | InconsistentValueErr | ResourceUnavailableErr | CommitFailedErr
  | UndoFailedErr | AuthorizationErr | NotWritableErr | InconsistentNameErr
  | NoSuchObjectErr | NoSuchInstanceErr | EndOfMibViewErr
  | RowCreationWanted | RowDestructionWanted

record smi_details =
  sd_idx :: "nat option"
  sd_syntax :: "int option"
  sd_oid :: "oid option"
  sd_val :: "int option"

definition no_smi :: smi_details where
  "no_smi = \<lparr>sd_idx = None, sd_syntax = None, sd_oid = None, sd_val = None\<rparr>"

text \<open>The exceptions of the language, of pyasn1 and of pysnmp that the modelled code raises.\<close>

datatype exn =
    KeyError | IndexError | TypeError | ValueError | ZeroDivisionError | AttributeError
  | PyAsn1Error
  | PySnmpError
  | SmiError smi_class smi_details
  | ProtocolError
  | StatusInformation status_info

definition smi_at :: "smi_class \<Rightarrow> nat \<Rightarrow> exn" where
  "smi_at c idx = SmiError c (no_smi\<lparr>sd_idx := Some idx\<rparr>)"

definition status :: "errind \<Rightarrow> exn" where
  "status e = StatusInformation (no_details\<lparr>si_errorIndication := Some e\<rparr>)"

text \<open>
  The class hierarchy: \<open>StatusInformation\<close> is a \<open>ProtocolError\<close>, which is both a
  \<open>PySnmpError\<close> and a \<open>PyAsn1Error\<close>, as is every SMI error; the three errors for something
  missing are \<open>NoSuchNameError\<close>s. These decide which \<open>except\<close> clause catches what.
\<close>

fun is_StatusInformation :: "exn \<Rightarrow> bool" where
  "is_StatusInformation (StatusInformation s) = True"
| "is_StatusInformation _ = False"

fun is_ProtocolError :: "exn \<Rightarrow> bool" where
  "is_ProtocolError ProtocolError = True"
| "is_ProtocolError (StatusInformation s) = True"
| "is_ProtocolError _ = False"

fun is_PySnmpError :: "exn \<Rightarrow> bool" where
  "is_PySnmpError PySnmpError = True"
| "is_PySnmpError (SmiError c d) = True"
| "is_PySnmpError e = is_ProtocolError e"

fun is_PyAsn1Error :: "exn \<Rightarrow> bool" where
  "is_PyAsn1Error PyAsn1Error = True"
| "is_PyAsn1Error (SmiError c d) = True"
| "is_PyAsn1Error e = is_ProtocolError e"

fun is_SmiError :: "exn \<Rightarrow> bool" where
  "is_SmiError (SmiError c d) = True"
| "is_SmiError _ = False"

fun is_smi :: "smi_class set \<Rightarrow> exn \<Rightarrow> bool" where
  "is_smi cs (SmiError c d) = (c \<in> cs)"
| "is_smi cs _ = False"

lemma StatusInformation_is_PySnmpError [simp]:
  "is_StatusInformation e \<Longrightarrow> is_PySnmpError e"
  by (cases e) auto

section \<open>The error monad\<close>

type_synonym 'a res = "exn + 'a"

definition rbind :: "'a res \<Rightarrow> ('a \<Rightarrow> 'b res) \<Rightarrow> 'b res" where
  "rbind m f = (case m of Inl e \<Rightarrow> Inl e | Inr x \<Rightarrow> f x)"

definition of_option :: "exn \<Rightarrow> 'a option \<Rightarrow> 'a res" where
  "of_option e x = (case x of None \<Rightarrow> Inl e | Some y \<Rightarrow> Inr y)"

lemma rbind_simps [simp]:
  "rbind (Inl e) f = Inl e"
  "rbind (Inr x) f = f x"
  by (simp_all add: rbind_def)

lemma of_option_simps [simp]:
  "of_option e None = Inl e"
  "of_option e (Some y) = Inr y"
  by (simp_all add: of_option_def)

lemma rbind_eq_Inr_iff:
  "rbind m f = Inr y \<longleftrightarrow> (\<exists>x. m = Inr x \<and> f x = Inr y)"
  by (cases m) auto

lemma of_option_eq_Inr_iff [simp]: "of_option e x = Inr y \<longleftrightarrow> x = Some y"
  by (cases x) auto

lemma of_option_eq_Inl_iff [simp]: "of_option e x = Inl e' \<longleftrightarrow> x = None \<and> e' = e"
  by (cases x) auto

section \<open>State and errors\<close>

text \<open>
  Stateful code that may raise: the state is threaded through, and what was changed before
  the exception stays changed, as it does in Python. \<open>scatch\<close> is a \<open>try\<close> statement whose
  handler sees the exception and the state at the point of the raise.
\<close>

type_synonym ('s, 'a) sm = "'s \<Rightarrow> 'a res \<times> 's"

definition sret :: "'a \<Rightarrow> ('s, 'a) sm" where
  "sret x s = (Inr x, s)"

definition sraise :: "exn \<Rightarrow> ('s, 'a) sm" where
  "sraise e s = (Inl e, s)"

definition sget :: "('s \<Rightarrow> 'a) \<Rightarrow> ('s, 'a) sm" where
  "sget f s = (Inr (f s), s)"

definition smodify :: "('s \<Rightarrow> 's) \<Rightarrow> ('s, unit) sm" where
  "smodify f s = (Inr (), f s)"

definition sbind :: "('s, 'a) sm \<Rightarrow> ('a \<Rightarrow> ('s, 'b) sm) \<Rightarrow> ('s, 'b) sm" where
  "sbind m f s = (case m s of (Inl e, s') \<Rightarrow> (Inl e, s') | (Inr x, s') \<Rightarrow> f x s')"

definition scatch :: "('s, 'a) sm \<Rightarrow> (exn \<Rightarrow> ('s, 'a) sm) \<Rightarrow> ('s, 'a) sm" where
  "scatch m h s = (case m s of (Inl e, s') \<Rightarrow> h e s' | (Inr x, s') \<Rightarrow> (Inr x, s'))"

definition sres :: "'a res \<Rightarrow> ('s, 'a) sm" where
  "sres r s = (r, s)"

lemmas sm_defs = sret_def sraise_def sget_def smodify_def sbind_def scatch_def sres_def

lemma sm_simps [simp]:
  "sbind (sret x) f = f x"
  "sbind (sraise e) g = sraise e"
  "scatch (sret y) h = sret y"
  "scatch (sraise e) h = h e"
  by (simp_all add: sm_defs fun_eq_iff)

lemma sbind_eq_Inr_iff:
  "sbind m f s = (Inr y, t) \<longleftrightarrow> (\<exists>x s'. m s = (Inr x, s') \<and> f x s' = (Inr y, t))"
  by (auto simp: sbind_def split: prod.splits sum.splits)

lemma sbind_eq_Inl_iff:
  "sbind m f s = (Inl e, t) \<longleftrightarrow>
     m s = (Inl e, t) \<or> (\<exists>x s'. m s = (Inr x, s') \<and> f x s' = (Inl e, t))"
  by (auto simp: sbind_def split: prod.splits sum.splits)

lemma sbind_sres:
  "sbind (sres (Inr x)) f = f x"
  "sbind (sres (Inl e)) f = sraise e"
  by (simp_all add: sm_defs fun_eq_iff)

lemma scatch_eq_Inr:
  "scatch m h s = (Inr x, s') \<longleftrightarrow> m s = (Inr x, s') \<or> (\<exists>e s1. m s = (Inl e, s1) \<and> h e s1 = (Inr x, s'))"
  by (auto simp: scatch_def split: prod.splits sum.splits)

text \<open>Code that works on one half of a state.\<close>

definition on_fst :: "('a, 'x) sm \<Rightarrow> ('a \<times> 'b, 'x) sm" where
  "on_fst m s = (case m (fst s) of (r, a) \<Rightarrow> (r, a, snd s))"

definition on_snd :: "('b, 'x) sm \<Rightarrow> ('a \<times> 'b, 'x) sm" where
  "on_snd m s = (case m (snd s) of (r, b) \<Rightarrow> (r, fst s, b))"

lemma on_fst_eq_Inr:
  "on_fst m s = (Inr x, s') \<longleftrightarrow> m (fst s) = (Inr x, fst s') \<and> snd s' = snd s"
  by (cases s'; auto simp: on_fst_def split: prod.splits)

lemma on_snd_eq_Inr:
  "on_snd m s = (Inr x, s') \<longleftrightarrow> m (snd s) = (Inr x, snd s') \<and> fst s' = fst s"
  by (cases s'; auto simp: on_snd_def split: prod.splits)

section \<open>Ordered dictionaries\<close>

named_theorems odict_simps

lemma map_of_odict_update [odict_simps]:
  "map_of (AList.update k v d) = (map_of d)(k \<mapsto> v)"
  by (simp add: update_conv')

lemma map_of_odict_delete [odict_simps]:
  "map_of (AList.delete k d) = (map_of d)(k := None)"
  by (simp add: delete_conv')

lemma keys_odict_delete [odict_simps]:
  "fst ` set (AList.delete k d) = fst ` set d - {k}"
  using AList.delete_keys [of k d] by (metis list.set_map set_removeAll)

lemma keys_odict_update [odict_simps]:
  "fst ` set (AList.update k v d) = insert k (fst ` set d)"
  by (induction d) auto

lemma odict_update_fresh:
  "k \<notin> fst ` set d \<Longrightarrow> AList.update k v d = d @ [(k, v)]"
  by (induction d) auto

lemma dom_odict: "dom (map_of d) = fst ` set d"
  by (rule dom_map_of_conv_image_fst)

lemma domain_None: "dom m = A \<Longrightarrow> k \<notin> A \<longleftrightarrow> m k = None"
  by (auto simp: domIff)

lemma map_upds_nth:
  "distinct ks \<Longrightarrow> length ks = length vs \<Longrightarrow> i < length vs \<Longrightarrow> (m(ks [\<mapsto>] vs)) (ks ! i) = Some (vs ! i)"
proof (induction ks arbitrary: m vs i)
  case (Cons k ks)
  then obtain v vs' where vs: "vs = v # vs'" by (cases vs) auto
  show ?case
  proof (cases i)
    case 0
    have "(m(k \<mapsto> v, ks [\<mapsto>] vs')) k = Some v"
      using Cons.prems(1) by (subst map_upds_apply_nontin) auto
    with 0 vs show ?thesis by simp
  next
    case (Suc j)
    with Cons.prems vs have "(m(k \<mapsto> v, ks [\<mapsto>] vs')) (ks ! j) = Some (vs' ! j)"
      by (intro Cons.IH) auto
    with Suc vs show ?thesis by simp
  qed
qed simp

section \<open>Lists\<close>

text \<open>Python's \<open>xs[i] = v\<close> with a non-negative index: out of range raises.\<close>

definition py_set :: "'a list \<Rightarrow> nat \<Rightarrow> 'a \<Rightarrow> 'a list res" where
  "py_set xs i v = (if i < length xs then Inr (xs[i := v]) else Inl IndexError)"

text \<open>Python's \<open>xs[-n]\<close> for positive \<open>n\<close>.\<close>

definition py_from_end :: "'a list \<Rightarrow> nat \<Rightarrow> 'a res" where
  "py_from_end xs n = (if 0 < n \<and> n \<le> length xs then Inr (xs ! (length xs - n)) else Inl IndexError)"

text \<open>Python's \<open>xs[-n:]\<close> for a count \<open>n\<close>; \<open>xs[-0:]\<close> is the whole list.\<close>

definition py_last :: "nat \<Rightarrow> 'a list \<Rightarrow> 'a list" where
  "py_last n xs = (if n = 0 then xs else drop (length xs - n) xs)"

definition is_prefix :: "'a list \<Rightarrow> 'a list \<Rightarrow> bool" where
  "is_prefix p xs \<longleftrightarrow> take (length p) xs = p"

lemma is_prefix_append [simp]: "is_prefix p (p @ xs)"
  by (simp add: is_prefix_def)

lemma is_prefix_iff: "is_prefix p xs \<longleftrightarrow> (\<exists>ys. xs = p @ ys)"
  by (metis append_take_drop_id is_prefix_append is_prefix_def)

lemma is_prefix_length: "is_prefix p xs \<Longrightarrow> length p \<le> length xs"
  by (auto simp: is_prefix_iff)

end
