(* ===== verification/Usage_Cache.thy ===== *)
theory Usage_Cache
  imports Snmp_Prelude "HOL-Library.Multiset"
begin

text \<open>
  The bounded dictionary of \<open>pysnmp/cache.py\<close>, class \<open>Cache\<close>: reads are counted, and
  storing into a full cache first drops the tenth of the entries that were read least.

  The lemmas show that the bookkeeping stays consistent (the size counter, the usage table
  and the entries describe the same keys), that the bound holds after every operation, that
  a stored value is found again, and that no dropped entry was read more often than one
  that stays.
\<close>

section \<open>Model\<close>

record ('k, 'v) ucache =
  uc_maxSize :: nat
  uc_size :: int
  uc_chopSize :: nat
  uc_cache :: "'k \<rightharpoonup> 'v"
  uc_usage :: "('k, nat) odict"

definition ucache_init :: "nat \<Rightarrow> ('k, 'v) ucache" where
  "ucache_init maxSize = \<lparr>uc_maxSize = maxSize, uc_size = 0,
     uc_chopSize = (if maxSize div 10 = 0 then 1 else maxSize div 10),
     uc_cache = Map.empty, uc_usage = []\<rparr>"

definition ucache_contains :: "('k, 'v) ucache \<Rightarrow> 'k \<Rightarrow> bool" where
  "ucache_contains c k \<longleftrightarrow> uc_cache c k \<noteq> None"

definition ucache_getitem :: "'k \<Rightarrow> (('k, 'v) ucache, 'v) sm" where
  "ucache_getitem k c =
     (case map_of (uc_usage c) k of
        None \<Rightarrow> (Inl KeyError, c)
      | Some n \<Rightarrow>
          let c' = c\<lparr>uc_usage := AList.update k (n + 1) (uc_usage c)\<rparr>
          in (of_option KeyError (uc_cache c' k), c'))"

definition ucache_len :: "('k, 'v) ucache \<Rightarrow> int" where
  "ucache_len c = uc_size c"

text \<open>The loop that drops the entries in \<open>usageKeys[: chopSize]\<close>.\<close>

fun ucache_drop :: "'k list \<Rightarrow> (('k, 'v) ucache, unit) sm" where
  "ucache_drop [] c = (Inr (), c)"
| "ucache_drop (k # ks) c =
     (if uc_cache c k = None then (Inl KeyError, c)
      else let c1 = c\<lparr>uc_cache := (uc_cache c)(k := None)\<rparr> in
        if map_of (uc_usage c1) k = None then (Inl KeyError, c1)
        else ucache_drop ks (c1\<lparr>uc_usage := AList.delete k (uc_usage c1)\<rparr>))"

text \<open>\<open>sorted\<close> is stable: keys read equally often keep the order of the usage table.\<close>

definition usage_keys :: "('k, nat) odict \<Rightarrow> 'k list" where
  "usage_keys u = map fst (sort_key snd u)"

definition ucache_make_room :: "(('k, 'v) ucache, unit) sm" where
  "ucache_make_room c =
     (if int (uc_maxSize c) \<le> uc_size c
      then sbind (ucache_drop (take (uc_chopSize c) (usage_keys (uc_usage c))))
             (\<lambda>_. smodify (\<lambda>c. c\<lparr>uc_size := uc_size c - int (uc_chopSize c)\<rparr>)) c
      else (Inr (), c))"

definition ucache_setitem :: "'k \<Rightarrow> 'v \<Rightarrow> (('k, 'v) ucache, unit) sm" where
  "ucache_setitem k v =
     sbind ucache_make_room (\<lambda>_.
     sbind (smodify (\<lambda>c.
       if uc_cache c k = None
       then c\<lparr>uc_size := uc_size c + 1, uc_usage := AList.update k 0 (uc_usage c)\<rparr>
       else c)) (\<lambda>_.
     smodify (\<lambda>c. c\<lparr>uc_cache := (uc_cache c)(k \<mapsto> v)\<rparr>)))"

definition ucache_delitem :: "'k \<Rightarrow> (('k, 'v) ucache, unit) sm" where
  "ucache_delitem k c =
     sbind (ucache_drop [k]) (\<lambda>_. smodify (\<lambda>c. c\<lparr>uc_size := uc_size c - 1\<rparr>)) c"

section \<open>Invariant\<close>

definition ucache_inv :: "('k, 'v) ucache \<Rightarrow> bool" where
  "ucache_inv c \<longleftrightarrow>
     distinct (map fst (uc_usage c)) \<and>
     dom (uc_cache c) = fst ` set (uc_usage c) \<and>
     uc_size c = int (length (uc_usage c)) \<and>
     0 < uc_chopSize c \<and> uc_chopSize c \<le> uc_maxSize c \<and>
     length (uc_usage c) \<le> uc_maxSize c"

lemma ucache_inv_init: "0 < maxSize \<Longrightarrow> ucache_inv (ucache_init maxSize)"
  by (auto simp: ucache_inv_def ucache_init_def)

text \<open>Dropping a list of distinct cached keys removes exactly those.\<close>

lemma ucache_drop_ok:
  assumes "distinct ks" and "set ks \<subseteq> dom (uc_cache c)"
    and "dom (uc_cache c) = fst ` set (uc_usage c)" and "distinct (map fst (uc_usage c))"
  shows "ucache_drop ks c = (Inr (),
    c\<lparr>uc_cache := (\<lambda>k. if k \<in> set ks then None else uc_cache c k),
      uc_usage := filter (\<lambda>p. fst p \<notin> set ks) (uc_usage c)\<rparr>)"
  using assms
proof (induction ks arbitrary: c)
  case (Cons k ks)
  let ?c = "c\<lparr>uc_cache := (uc_cache c)(k := None), uc_usage := AList.delete k (uc_usage c)\<rparr>"
  from Cons.prems have "k \<in> dom (uc_cache c)" "k \<in> dom (map_of (uc_usage c))"
    by (auto simp: dom_odict)
  then have k: "uc_cache c k \<noteq> None" "map_of (uc_usage c) k \<noteq> None" by auto
  have dom: "dom (uc_cache ?c) = dom (uc_cache c) - {k}" by (auto split: if_splits)
  have "ucache_drop ks ?c = (Inr (), ?c\<lparr>
      uc_cache := (\<lambda>k'. if k' \<in> set ks then None else uc_cache ?c k'),
      uc_usage := filter (\<lambda>p. fst p \<notin> set ks) (uc_usage ?c)\<rparr>)"
  proof (rule Cons.IH)
    show "set ks \<subseteq> dom (uc_cache ?c)" using Cons.prems unfolding dom by auto
    show "dom (uc_cache ?c) = fst ` set (uc_usage ?c)"
      using Cons.prems(3) unfolding dom by (simp add: odict_simps)
  qed (use Cons.prems in \<open>simp_all add: distinct_delete\<close>)
  with k show ?case
    by (auto simp: AList.delete_eq Let_def fun_eq_iff conj_commute intro!: ucache.equality filter_cong)
qed simp

lemma usage_keys_props:
  "distinct (map fst u) \<Longrightarrow> distinct (usage_keys u)"
  "set (usage_keys u) = fst ` set u"
  "length (usage_keys u) = length u"
proof -
  have m: "mset (map fst (sort_key snd u)) = mset (map fst u)" by simp
  show "distinct (map fst u) \<Longrightarrow> distinct (usage_keys u)"
    using m unfolding usage_keys_def by (metis mset_eq_imp_distinct_iff)
  show "set (usage_keys u) = fst ` set u" "length (usage_keys u) = length u"
    unfolding usage_keys_def by simp_all
qed

definition dropped_keys :: "('k, 'v) ucache \<Rightarrow> 'k set" where
  "dropped_keys c = (if int (uc_maxSize c) \<le> uc_size c
     then set (take (uc_chopSize c) (usage_keys (uc_usage c))) else {})"

lemma length_filter_dropped:
  assumes "distinct (map fst u)" and "set ks \<subseteq> fst ` set u" and "distinct ks"
  shows "length (filter (\<lambda>p. fst p \<notin> set ks) u) = length u - length ks"
proof -
  have "length (filter (\<lambda>p. fst p \<in> set ks) u) = card (set ks)"
  proof -
    have "length (filter (\<lambda>p. fst p \<in> set ks) u) = card (fst ` set (filter (\<lambda>p. fst p \<in> set ks) u))"
      using assms(1)
      by (metis distinct_card distinct_map_filter length_map list.set_map)
    also have "fst ` set (filter (\<lambda>p. fst p \<in> set ks) u) = set ks" using assms(2) by force
    finally show ?thesis .
  qed
  with assms(3) show ?thesis
    using sum_length_filter_compl [of "\<lambda>p. fst p \<in> set ks" u] by (simp add: distinct_card)
qed

text \<open>Making room succeeds, leaves room, and removes the dropped keys and nothing else.\<close>

lemma ucache_make_room_ok:
  assumes "ucache_inv c"
  obtains c' where "ucache_make_room c = (Inr (), c')"
    "ucache_inv c'" "length (uc_usage c') < uc_maxSize c"
    "uc_maxSize c' = uc_maxSize c"
    "uc_cache c' = (\<lambda>k. if k \<in> dropped_keys c then None else uc_cache c k)"
    "uc_usage c' = filter (\<lambda>p. fst p \<notin> dropped_keys c) (uc_usage c)"
proof (cases "int (uc_maxSize c) \<le> uc_size c")
  case False
  with assms show thesis
    by (intro that [of c]) (auto simp: ucache_make_room_def ucache_inv_def dropped_keys_def)
next
  case True
  let ?ks = "take (uc_chopSize c) (usage_keys (uc_usage c))"
  from assms have inv: "distinct (map fst (uc_usage c))"
    "dom (uc_cache c) = fst ` set (uc_usage c)" "uc_size c = int (length (uc_usage c))"
    "0 < uc_chopSize c" "uc_chopSize c \<le> uc_maxSize c" "length (uc_usage c) \<le> uc_maxSize c"
    by (auto simp: ucache_inv_def)
  have ks: "distinct ?ks" "set ?ks \<subseteq> fst ` set (uc_usage c)"
    using usage_keys_props(1,2) [of "uc_usage c"] inv(1) by (auto dest: in_set_takeD)
  have len: "length ?ks = uc_chopSize c" "length (uc_usage c) = uc_maxSize c"
    using True inv(3,5,6) usage_keys_props(3) [of "uc_usage c"] by auto
  let ?c1 = "c\<lparr>uc_cache := (\<lambda>k. if k \<in> set ?ks then None else uc_cache c k),
      uc_usage := filter (\<lambda>p. fst p \<notin> set ?ks) (uc_usage c)\<rparr>"
  let ?c2 = "?c1\<lparr>uc_size := uc_size c - int (uc_chopSize c)\<rparr>"
  have drop: "ucache_drop ?ks c = (Inr (), ?c1)"
    using ks inv by (intro ucache_drop_ok) auto
  have lf: "length (uc_usage ?c2) = uc_maxSize c - uc_chopSize c"
    using length_filter_dropped [OF inv(1) ks(2,1)] len by simp
  have dom: "dom (uc_cache ?c2) = fst ` set (uc_usage ?c2)"
    using inv(2) by (force simp: dom_def split: if_splits)
  have "ucache_inv ?c2"
    using lf dom inv len unfolding ucache_inv_def by (auto simp: distinct_map_filter of_nat_diff)
  with True drop lf inv show thesis
    by (intro that [of ?c2])
      (auto simp: ucache_make_room_def sbind_def smodify_def dropped_keys_def)
qed

lemma ucache_setitem_ok:
  assumes "ucache_inv c"
  obtains c' where "ucache_setitem k v c = (Inr (), c')" "ucache_inv c'"
    "uc_maxSize c' = uc_maxSize c"
    "uc_cache c' = (\<lambda>k'. if k' = k then Some v
        else if k' \<in> dropped_keys c then None else uc_cache c k')"
proof -
  obtain c1 where c1: "ucache_make_room c = (Inr (), c1)" "ucache_inv c1"
    "length (uc_usage c1) < uc_maxSize c" "uc_maxSize c1 = uc_maxSize c"
    "uc_cache c1 = (\<lambda>k. if k \<in> dropped_keys c then None else uc_cache c k)"
    by (rule ucache_make_room_ok [OF assms])
  let ?c2 = "if uc_cache c1 k = None
    then c1\<lparr>uc_size := uc_size c1 + 1, uc_usage := AList.update k 0 (uc_usage c1)\<rparr> else c1"
  let ?c3 = "?c2\<lparr>uc_cache := (uc_cache ?c2)(k \<mapsto> v)\<rparr>"
  have set: "ucache_setitem k v c = (Inr (), ?c3)"
    using c1(1) by (simp add: ucache_setitem_def sbind_def smodify_def)
  have "ucache_inv ?c3"
  proof (cases "uc_cache c1 k = None")
    case True
    have k: "k \<notin> fst ` set (uc_usage c1)"
      using True c1(2) domain_None [of "uc_cache c1"] by (simp add: ucache_inv_def)
    then have upd: "AList.update k 0 (uc_usage c1) = uc_usage c1 @ [(k, 0)]"
      by (rule odict_update_fresh)
    show ?thesis using True k c1(2,3,4) by (auto simp: ucache_inv_def upd)
  next
    case False
    then show ?thesis using c1(2) by (auto simp: ucache_inv_def)
  qed
  with set c1 show thesis by (intro that [of ?c3]) (auto simp: fun_eq_iff)
qed

lemma ucache_getitem_ok:
  assumes "ucache_inv c" and "uc_cache c k = Some v"
  shows "\<exists>n. map_of (uc_usage c) k = Some n \<and>
    ucache_getitem k c = (Inr v, c\<lparr>uc_usage := AList.update k (n + 1) (uc_usage c)\<rparr>) \<and>
    ucache_inv (snd (ucache_getitem k c))"
proof -
  from assms have k: "k \<in> fst ` set (uc_usage c)" by (auto simp: ucache_inv_def dom_def)
  then obtain n where n: "map_of (uc_usage c) k = Some n"
    by (metis domD dom_odict)
  have keys: "map fst (AList.update k (n + 1) (uc_usage c)) = map fst (uc_usage c)"
    using k by (simp add: update_keys)
  then have "length (AList.update k (n + 1) (uc_usage c)) = length (uc_usage c)"
    by (metis length_map)
  with n k keys assms show ?thesis
    by (simp add: ucache_getitem_def ucache_inv_def Let_def odict_simps insert_absorb)
qed

lemma ucache_delitem_ok:
  assumes "ucache_inv c" and "uc_cache c k = Some v"
  shows "\<exists>c'. ucache_delitem k c = (Inr (), c') \<and> ucache_inv c' \<and>
    uc_cache c' = (uc_cache c)(k := None)"
proof -
  have inv: "distinct (map fst (uc_usage c))" "dom (uc_cache c) = fst ` set (uc_usage c)"
    using assms(1) by (auto simp: ucache_inv_def)
  have k: "set [k] \<subseteq> fst ` set (uc_usage c)" using assms(2) inv(2) by (auto simp: dom_def)
  let ?c1 = "c\<lparr>uc_cache := (\<lambda>k'. if k' \<in> set [k] then None else uc_cache c k'),
    uc_usage := filter (\<lambda>p. fst p \<notin> set [k]) (uc_usage c)\<rparr>"
  let ?c2 = "?c1\<lparr>uc_size := uc_size c - 1\<rparr>"
  have d: "ucache_drop [k] c = (Inr (), ?c1)"
    using k inv by (intro ucache_drop_ok) auto
  have l: "length (uc_usage ?c2) = length (uc_usage c) - 1" "0 < length (uc_usage c)"
    using length_filter_dropped [OF inv(1) k] k by auto
  then have li: "int (length (uc_usage ?c2)) = int (length (uc_usage c)) - 1" by linarith
  have dom: "dom (uc_cache ?c2) = fst ` set (uc_usage ?c2)"
    using inv(2) by (force simp: dom_def split: if_splits)
  have "ucache_inv ?c2"
    using l(1) li dom assms(1) unfolding ucache_inv_def
    by (simp add: distinct_map_filter del: of_nat_diff)
  moreover have "ucache_delitem k c = (Inr (), ?c2)"
    using d by (simp add: ucache_delitem_def sbind_def smodify_def)
  ultimately show ?thesis by (intro exI [of _ ?c2]) (simp add: fun_eq_iff)
qed

text \<open>Sorting by reads: whatever is cut off the front was read no more than what is left.\<close>

lemma sort_key_take_drop:
  assumes "p \<in> set (take n (sort_key f u))" and "q \<in> set (drop n (sort_key f u))"
  shows "f p \<le> f q"
proof -
  have "sorted (map f (take n (sort_key f u)) @ map f (drop n (sort_key f u)))"
    by (metis append_take_drop_id map_append sorted_sort_key)
  with assms show ?thesis by (force simp: sorted_append)
qed

lemma dropped_least_read:
  assumes "ucache_inv c" and "k \<in> dropped_keys c"
    and "k' \<in> dom (uc_cache c)" and "k' \<notin> dropped_keys c"
  shows "the (map_of (uc_usage c) k) \<le> the (map_of (uc_usage c) k')"
proof -
  let ?s = "sort_key snd (uc_usage c)" and ?n = "uc_chopSize c"
  have inv: "distinct (map fst (uc_usage c))" "dom (uc_cache c) = fst ` set (uc_usage c)"
    using assms(1) by (auto simp: ucache_inv_def)
  have full: "int (uc_maxSize c) \<le> uc_size c"
    using assms(2) by (auto simp: dropped_keys_def split: if_splits)
  then have dk: "dropped_keys c = fst ` set (take ?n ?s)"
    by (simp add: dropped_keys_def usage_keys_def take_map)
  obtain a where a: "(k, a) \<in> set (take ?n ?s)" using assms(2) dk by auto
  obtain b where "(k', b) \<in> set ?s" using assms(3) inv(2) by auto
  then have b: "(k', b) \<in> set (drop ?n ?s)"
    using assms(4) unfolding dk by (metis Un_iff append_take_drop_id fst_conv image_eqI set_append)
  have "map_of (uc_usage c) k = Some a" "map_of (uc_usage c) k' = Some b"
    using a b inv(1) by (auto intro!: map_of_is_SomeI dest!: in_set_takeD in_set_dropD)
  then show ?thesis using sort_key_take_drop [OF a b] by simp
qed

section \<open>Properties\<close>

text \<open>
  Storing into a consistent cache never raises and keeps it consistent and within its
  bound; the value just stored is what a lookup of its key returns; every other entry stays
  unless the cache was full and the entry is among the dropped ones, none of which was read
  more often than an entry that stays.
\<close>

theorem ucache_setitem_spec:
  assumes "ucache_inv c"
  shows "\<exists>c'. ucache_setitem k v c = (Inr (), c') \<and> ucache_inv c' \<and>
    ucache_len c' \<le> int (uc_maxSize c) \<and>
    fst (ucache_getitem k c') = Inr v \<and>
    (\<forall>k'. k' \<noteq> k \<longrightarrow> uc_cache c' k' = (if k' \<in> dropped_keys c then None else uc_cache c k')) \<and>
    (\<forall>j \<in> dropped_keys c. \<forall>j' \<in> dom (uc_cache c) - dropped_keys c.
       the (map_of (uc_usage c) j) \<le> the (map_of (uc_usage c) j'))"
proof -
  obtain c' where c': "ucache_setitem k v c = (Inr (), c')" "ucache_inv c'"
    "uc_maxSize c' = uc_maxSize c"
    "uc_cache c' = (\<lambda>k'. if k' = k then Some v
        else if k' \<in> dropped_keys c then None else uc_cache c k')"
    by (rule ucache_setitem_ok [OF assms])
  have "fst (ucache_getitem k c') = Inr v"
    using ucache_getitem_ok [OF c'(2), of k v] c'(4) by auto
  with c' dropped_least_read [OF assms] show ?thesis
    by (auto simp: ucache_len_def ucache_inv_def)
qed

theorem ucache_setitem_spec_witness:
  "\<exists>c'. ucache_setitem (7::nat) (1::nat) (ucache_init 3) = (Inr (), c') \<and> ucache_inv c' \<and>
    ucache_len c' \<le> 3 \<and> fst (ucache_getitem 7 c') = Inr 1"
  using ucache_setitem_spec [of "ucache_init 3 :: (nat, nat) ucache" 7 1] ucache_inv_init [of 3]
  by (auto simp: ucache_init_def)

end
