(* ===== verification/State_Store.thy ===== *)
theory State_Store
  imports Snmp_Prelude
begin

text \<open>
  The contract shared by the caches that hold state between a request and its response:
  something is stored under a handle, and is given back once, to whoever presents the
  handle. The security models' cache and both indices of the message processing models'
  cache implement it.
\<close>

text \<open>Running an operation over a list of arguments, stopping at the first exception.\<close>

fun run_all :: "('k \<Rightarrow> ('s, 'a) sm) \<Rightarrow> 'k list \<Rightarrow> ('s, 'a list) sm" where
  "run_all f [] = sret []"
| "run_all f (k # ks) = sbind (f k) (\<lambda>x. sbind (run_all f ks) (\<lambda>xs. sret (x # xs)))"

locale one_shot_store =
  fixes put :: "nat \<Rightarrow> 'd \<Rightarrow> ('s, unit) sm"
    and grab :: "nat \<Rightarrow> ('s, 'd) sm"
    and peek :: "'s \<Rightarrow> nat \<Rightarrow> 'd option"
    and admits :: "'s \<Rightarrow> nat \<Rightarrow> 'd \<Rightarrow> bool"
    and inv :: "'s \<Rightarrow> bool"
  assumes put_ok: "inv s \<Longrightarrow> peek s k = None \<Longrightarrow> admits s k d \<Longrightarrow>
      \<exists>s'. put k d s = (Inr (), s') \<and> inv s' \<and> peek s' = (peek s)(k \<mapsto> d)"
    and grab_hit: "inv s \<Longrightarrow> peek s k = Some d \<Longrightarrow>
      \<exists>s'. grab k s = (Inr d, s') \<and> inv s' \<and> peek s' = (peek s)(k := None)"
    and grab_miss: "inv s \<Longrightarrow> peek s k = None \<Longrightarrow> grab k s = (Inl ProtocolError, s)"
begin

text \<open>What was put is what is grabbed, and nothing else changes.\<close>

lemma put_grab:
  assumes "inv s" and "peek s k = None" and "admits s k d"
  shows "\<exists>s'. sbind (put k d) (\<lambda>_. grab k) s = (Inr d, s') \<and> inv s' \<and> peek s' = peek s"
proof -
  obtain s1 where s1: "put k d s = (Inr (), s1)" "inv s1" "peek s1 = (peek s)(k \<mapsto> d)"
    using put_ok [OF assms] by blast
  obtain s2 where "grab k s1 = (Inr d, s2)" "inv s2" "peek s2 = (peek s1)(k := None)"
    using grab_hit [OF s1(2), of k d] s1(3) by auto
  with s1 assms(2) show ?thesis by (simp add: sbind_def fun_upd_idem)
qed

text \<open>A handle is good once.\<close>

lemma grab_once:
  assumes "inv s" and "grab k s = (Inr d, s')"
  shows "inv s' \<and> peek s k = Some d \<and> grab k s' = (Inl ProtocolError, s')"
proof (cases "peek s k")
  case None
  with assms show ?thesis using grab_miss [OF assms(1) None] by simp
next
  case (Some d')
  then obtain s1 where s1: "grab k s = (Inr d', s1)" "inv s1" "peek s1 = (peek s)(k := None)"
    using grab_hit [OF assms(1)] by blast
  then have "grab k s1 = (Inl ProtocolError, s1)" by (intro grab_miss) auto
  with s1 Some assms(2) show ?thesis by simp
qed

text \<open>
  Handles can be redeemed in any order: whichever permutation of outstanding handles is
  presented, each gets its own data.
\<close>

lemma grab_any_order:
  assumes "inv s" and "distinct ks" and "set ks \<subseteq> dom (peek s)"
  shows "\<exists>s'. run_all grab ks s = (Inr (map (\<lambda>k. the (peek s k)) ks), s') \<and> inv s' \<and>
    peek s' = peek s |` (- set ks)"
  using assms
proof (induction ks arbitrary: s)
  case Nil
  then show ?case by (simp add: sret_def)
next
  case (Cons k ks)
  from Cons.prems obtain d where d: "peek s k = Some d" by auto
  then obtain s1 where s1: "grab k s = (Inr d, s1)" "inv s1" "peek s1 = (peek s)(k := None)"
    using grab_hit [OF Cons.prems(1)] by blast
  from s1 Cons.prems have "set ks \<subseteq> dom (peek s1)" by auto
  then obtain s2 where s2: "run_all grab ks s1 = (Inr (map (\<lambda>k. the (peek s1 k)) ks), s2)"
    "inv s2" "peek s2 = peek s1 |` (- set ks)"
    using Cons.IH [OF s1(2)] Cons.prems(2) by auto
  have "map (\<lambda>k. the (peek s1 k)) ks = map (\<lambda>k. the (peek s k)) ks"
    using s1(3) Cons.prems(2) by auto
  moreover have "peek s2 = peek s |` (- set (k # ks))"
    using s2(3) s1(3) by (auto simp: restrict_map_def fun_eq_iff)
  ultimately show ?case using s1 s2 d by (simp add: sbind_def sret_def)
qed

end

end
