(* ===== verification/Next_Id.thy ===== *)
theory Next_Id
  imports Snmp_Prelude
begin

text \<open>
  The identifier generator of \<open>pysnmp/nextid.py\<close>, class \<open>Integer\<close>: message IDs, state
  references, request IDs and PDU handles are drawn from it.

  A generator keeps a \<open>bank\<close> of values still to be issued and refills it by half an
  increment whenever it issues a multiple of its threshold. The lemmas show that the bank
  never runs dry, so a call never raises; that any \<open>maximum + 1\<close> successive draws are
  pairwise different; and that every value drawn stays below \<open>maximum + threshold\<close>, a bound
  that is reached: values above \<open>maximum\<close> are issued.
\<close>

section \<open>Model\<close>

record nextid =
  ni_maximum :: nat
  ni_increment :: nat
  ni_threshold :: nat
  ni_bank :: "nat list"

text \<open>
  \<open>Integer.__init__\<close>. The random draw \<open>secrets.randbelow\<close> is a parameter; it raises
  \<open>ValueError\<close> on a bound that is not positive.
\<close>

definition nextid_init :: "(nat \<Rightarrow> nat) \<Rightarrow> nat \<Rightarrow> nat \<Rightarrow> nextid res" where
  "nextid_init randbelow maximum increment0 =
     (let increment = min maximum increment0 in
      if maximum - increment = 0 then Inl ValueError
      else let e = randbelow (maximum - increment) in
        Inr \<lparr>ni_maximum = maximum, ni_increment = increment, ni_threshold = increment div 2,
             ni_bank = [e..<e + increment]\<rparr>)"

text \<open>
  \<open>Integer.__call__\<close>. The value is popped before anything can go wrong, so the generator
  left behind by a failing call has lost it.
\<close>

definition nextid_call :: "nextid \<Rightarrow> nat res \<times> nextid" where
  "nextid_call g =
     (case ni_bank g of
        [] \<Rightarrow> (Inl IndexError, g)
      | v # bank \<Rightarrow>
          let g' = g\<lparr>ni_bank := bank\<rparr> in
          if ni_threshold g = 0 then (Inl ZeroDivisionError, g')
          else if v mod ni_threshold g \<noteq> 0 then (Inr v, g')
          else if bank = [] then (Inl IndexError, g')
          else let e0 = last bank + 1;
                   e = (if e0 > ni_maximum g then 0 else e0)
               in (Inr v, g\<lparr>ni_bank := bank @ [e..<e + ni_threshold g]\<rparr>))"

text \<open>A sequence of calls, with the values it returns.\<close>

fun nextid_calls :: "nat \<Rightarrow> nextid \<Rightarrow> nat res list \<times> nextid" where
  "nextid_calls 0 g = ([], g)"
| "nextid_calls (Suc n) g =
     (let (r, g') = nextid_call g; (rs, g'') = nextid_calls n g' in (r # rs, g''))"

section \<open>The order in which values are issued\<close>

text \<open>
  Within what was issued and what is banked, a value is followed by its successor, or by
  zero once \<open>maximum\<close> has been reached.
\<close>

definition next_after :: "nat \<Rightarrow> nat \<Rightarrow> nat \<Rightarrow> bool" where
  "next_after m a b \<longleftrightarrow> b = Suc a \<or> (b = 0 \<and> m \<le> a)"

lemma successively_upt: "successively (next_after m) [a..<b]"
proof (induction b)
  case (Suc b)
  then show ?case
    by (cases "a < b") (auto simp: successively_append_iff next_after_def)
qed simp

lemma successively_nth:
  "successively P xs \<Longrightarrow> Suc i < length xs \<Longrightarrow> P (xs ! i) (xs ! Suc i)"
  by (simp add: successively_conv_nth)

text \<open>How far apart two entries are, before and after the wrap.\<close>

lemma next_after_distance:
  assumes "successively (next_after m) xs" and "i + d < length xs"
  shows "xs ! (i + d) = xs ! i + d \<or> xs ! (i + d) + m + 1 \<le> xs ! i + d"
  using assms(2)
proof (induction d)
  case (Suc d)
  have "next_after m (xs ! (i + d)) (xs ! Suc (i + d))"
    using successively_nth [OF assms(1), of "i + d"] Suc.prems by simp
  with Suc show ?case by (auto simp: next_after_def)
qed simp

lemma next_after_distinct:
  assumes "successively (next_after m) xs" and "length xs \<le> m + 1"
  shows "distinct xs"
proof -
  have "xs ! i \<noteq> xs ! j" if "i < j" "j < length xs" for i j
    using next_after_distance [OF assms(1), of i "j - i"] that assms(2) by auto
  then show ?thesis
    by (metis distinct_conv_nth nat_neq_iff)
qed

text \<open>Among any \<open>t\<close> successive entries there is a multiple of \<open>t\<close>.\<close>

lemma multiple_in_run:
  assumes "0 < t" shows "\<exists>i < t. (a + i) mod t = (0::nat)"
proof (cases "a mod t = 0")
  case True
  with assms show ?thesis by (intro exI [of _ 0]) simp
next
  case False
  have "(a + (t - a mod t)) mod t = 0"
    using assms by (metis add.commute le_add_diff_inverse2 mod_add_left_eq mod_less_divisor
        mod_self order_less_imp_le)
  with False assms show ?thesis by (intro exI [of _ "t - a mod t"]) auto
qed

lemma next_after_multiple:
  assumes "successively (next_after m) xs" and "0 < t" and "t \<le> length xs"
  shows "\<exists>i < t. xs ! i mod t = 0"
proof (cases "\<exists>i < t. xs ! i = 0")
  case True
  then show ?thesis by auto
next
  case False
  have "xs ! i = xs ! 0 + i" if "i < t" for i
    using that
  proof (induction i)
    case (Suc i)
    have "next_after m (xs ! i) (xs ! Suc i)"
      using successively_nth [OF assms(1), of i] assms(3) Suc.prems by simp
    with Suc False show ?case by (auto simp: next_after_def)
  qed simp
  moreover obtain i where "i < t" "(xs ! 0 + i) mod t = 0"
    using multiple_in_run [OF assms(2), of "xs ! 0"] by auto
  ultimately show ?thesis by metis
qed

section \<open>Invariant\<close>

definition nextid_inv :: "nextid \<Rightarrow> bool" where
  "nextid_inv g \<longleftrightarrow>
     0 < ni_threshold g \<and>
     successively (next_after (ni_maximum g)) (ni_bank g) \<and>
     (\<forall>v \<in> set (ni_bank g). v < ni_maximum g + ni_threshold g) \<and>
     (\<exists>p < ni_threshold g. p < length (ni_bank g) \<and> ni_bank g ! p mod ni_threshold g = 0 \<and>
        p + ni_threshold g + 1 \<le> length (ni_bank g))"

text \<open>
  The call that the invariant makes possible: it returns the head of the bank and puts
  \<open>ys\<close>, possibly nothing, at the end.
\<close>

lemma nextid_call_cases:
  assumes "nextid_inv g"
  obtains v bank ys where "ni_bank g = v # bank"
    "nextid_call g = (Inr v, g\<lparr>ni_bank := bank @ ys\<rparr>)"
    "successively (next_after (ni_maximum g)) (v # bank @ ys)"
    "\<forall>y \<in> set (v # bank @ ys). y < ni_maximum g + ni_threshold g"
    "nextid_inv (g\<lparr>ni_bank := bank @ ys\<rparr>)"
proof -
  let ?t = "ni_threshold g" and ?m = "ni_maximum g"
  from assms obtain p where t: "0 < ?t" and s: "successively (next_after ?m) (ni_bank g)"
    and b: "\<forall>v \<in> set (ni_bank g). v < ?m + ?t"
    and p: "p < ?t" "ni_bank g ! p mod ?t = 0" "p + ?t + 1 \<le> length (ni_bank g)"
    by (auto simp: nextid_inv_def)
  from p obtain v bank where bank: "ni_bank g = v # bank" by (cases "ni_bank g") auto
  show thesis
  proof (cases "v mod ?t = 0")
    case False
    with p bank obtain q where q: "p = Suc q" by (cases p) auto
    have "q < ?t \<and> q < length bank \<and> bank ! q mod ?t = 0 \<and> q + ?t + 1 \<le> length bank"
      using p bank q by simp
    then have "nextid_inv (g\<lparr>ni_bank := bank\<rparr>)"
      using t s b bank unfolding nextid_inv_def by (auto simp: successively_Cons)
    with False t s b bank show thesis
      by (intro that [of v bank "[]"]) (auto simp: nextid_call_def Let_def)
  next
    case True
    let ?e = "if last bank + 1 > ?m then 0 else last bank + 1"
    let ?ys = "[?e..<?e + ?t]"
    from p bank t have ne: "bank \<noteq> []" "?t \<le> length bank" by auto
    have call: "nextid_call g = (Inr v, g\<lparr>ni_bank := bank @ ?ys\<rparr>)"
      using True t ne bank by (simp add: nextid_call_def Let_def)
    have hd_ys: "hd ?ys = ?e" and ys_ne: "?ys \<noteq> []" using t by simp_all
    have s': "successively (next_after ?m) (v # bank @ ?ys)"
      using s successively_upt [of ?m ?e "?e + ?t"] ne hd_ys ys_ne unfolding bank
      by (auto simp: successively_append_iff successively_Cons next_after_def simp del: upt.simps)
    have b': "\<forall>y \<in> set (v # bank @ ?ys). y < ?m + ?t"
      using b bank by auto
    have s'': "successively (next_after ?m) (bank @ ?ys)"
      using s' ne by (simp add: successively_Cons)
    have len: "?t \<le> length (bank @ ?ys)" "2 * ?t \<le> length (bank @ ?ys)" using ne by simp_all
    obtain i where "i < ?t" "(bank @ ?ys) ! i mod ?t = 0"
      using next_after_multiple [OF s'' t len(1)] by auto
    with len have "\<exists>p < ?t. p < length (bank @ ?ys) \<and> (bank @ ?ys) ! p mod ?t = 0 \<and>
      p + ?t + 1 \<le> length (bank @ ?ys)"
      by (intro exI [of _ i]) linarith
    then have "nextid_inv (g\<lparr>ni_bank := bank @ ?ys\<rparr>)"
      using t s'' b' unfolding nextid_inv_def by simp
    with call s' b' bank show thesis by (intro that)
  qed
qed

lemma nextid_init_inv:
  assumes "nextid_init randbelow maximum increment = Inr g"
    and "2 \<le> increment" and "\<And>n. 0 < n \<Longrightarrow> randbelow n < n"
  shows "nextid_inv g"
proof -
  let ?i = "min maximum increment" and ?t = "min maximum increment div 2"
  from assms(1) have i: "?i < maximum"
    and g: "g = \<lparr>ni_maximum = maximum, ni_increment = ?i, ni_threshold = ?t,
      ni_bank = [randbelow (maximum - ?i)..<randbelow (maximum - ?i) + ?i]\<rparr>"
    by (auto simp: nextid_init_def Let_def split: if_splits)
  from i have inc: "?i = increment" by auto
  with assms(2) have t: "0 < ?t" by simp
  have e: "randbelow (maximum - ?i) < maximum - ?i" using assms(3) i by simp
  obtain j where j: "j < ?t" "(randbelow (maximum - ?i) + j) mod ?t = 0"
    using multiple_in_run [OF t, of "randbelow (maximum - ?i)"] by auto
  have "2 * ?t \<le> ?i" by (rule times_div_less_eq_dividend)
  with t e j have "\<exists>p < ?t. p < ?i \<and> (randbelow (maximum - ?i) + p) mod ?t = 0 \<and> p + ?t + 1 \<le> ?i"
    by (intro exI [of _ j]) linarith
  then show ?thesis
    using t e unfolding nextid_inv_def g inc by (auto simp: successively_upt)
qed

lemma nextid_call_ok:
  assumes "nextid_inv g"
  obtains v g' where "nextid_call g = (Inr v, g')" "nextid_inv g'"
  using nextid_call_cases [OF assms] by metis

section \<open>Sequences of draws\<close>

text \<open>
  What a run of calls under the invariant looks like: every call succeeds, and the values
  with the bank left behind still follow one another.
\<close>

lemma nextid_calls_run:
  assumes "nextid_inv g"
  obtains vs where "fst (nextid_calls n g) = map Inr vs"
    "length vs = n"
    "successively (next_after (ni_maximum g)) vs"
    "\<forall>v \<in> set vs. v < ni_maximum g + ni_threshold g"
    "nextid_inv (snd (nextid_calls n g))"
    "n > 0 \<Longrightarrow> hd vs = hd (ni_bank g)"
  using assms
proof (induction n arbitrary: g thesis)
  case 0
  from "0.prems"(2) show ?case by (intro "0.prems"(1) [of "[]"]) simp_all
next
  case (Suc n)
  obtain v bank ys where c: "ni_bank g = v # bank"
    "nextid_call g = (Inr v, g\<lparr>ni_bank := bank @ ys\<rparr>)"
    "successively (next_after (ni_maximum g)) (v # bank @ ys)"
    "\<forall>y \<in> set (v # bank @ ys). y < ni_maximum g + ni_threshold g"
    "nextid_inv (g\<lparr>ni_bank := bank @ ys\<rparr>)" (is "nextid_inv ?g'")
    using nextid_call_cases [OF Suc.prems(2)] by blast
  from c(5) obtain vs where vs: "fst (nextid_calls n ?g') = map Inr vs" "length vs = n"
    "successively (next_after (ni_maximum g)) vs"
    "\<forall>v \<in> set vs. v < ni_maximum g + ni_threshold g"
    "nextid_inv (snd (nextid_calls n ?g'))" "n > 0 \<Longrightarrow> hd vs = hd (bank @ ys)"
    using Suc.IH [of ?g'] by auto
  have ne: "bank @ ys \<noteq> []" using c(5) by (auto simp: nextid_inv_def)
  have "successively (next_after (ni_maximum g)) (v # vs)"
    using vs c(3) ne by (cases "n = 0") (auto simp: successively_Cons)
  then show ?case
    using vs c by (intro Suc.prems(1) [of "v # vs"]) (auto simp: Let_def case_prod_unfold)
qed

section \<open>Properties\<close>

text \<open>
  A generator made with an increment of at least two never raises, however often it is
  called, and any \<open>maximum + 1\<close> successive values it returns are pairwise different; every
  value is below \<open>maximum + threshold\<close>.
\<close>

theorem nextid_draws_fresh:
  assumes "nextid_init randbelow maximum increment = Inr g"
    and "2 \<le> increment" and "\<And>n. 0 < n \<Longrightarrow> randbelow n < n"
  shows "\<exists>vs. fst (nextid_calls n g) = map Inr vs \<and> length vs = n \<and>
    (\<forall>v \<in> set vs. v < maximum + ni_threshold g) \<and>
    (\<forall>i. distinct (take (maximum + 1) (drop i vs)))"
proof -
  have inv: "nextid_inv g" using assms by (rule nextid_init_inv)
  have m: "ni_maximum g = maximum"
    using assms(1) by (auto simp: nextid_init_def Let_def split: if_splits)
  obtain vs where vs: "fst (nextid_calls n g) = map Inr vs" "length vs = n"
    "successively (next_after maximum) vs" "\<forall>v \<in> set vs. v < maximum + ni_threshold g"
    using nextid_calls_run [OF inv, of n] m by metis
  have "successively (next_after maximum) (take (maximum + 1) (drop i vs))" for i
    using vs(3) by (auto simp: successively_conv_nth)
  then have "distinct (take (maximum + 1) (drop i vs))" for i
    by (intro next_after_distinct [of maximum]) auto
  with vs show ?thesis by blast
qed

theorem nextid_draws_fresh_witness:
  "\<exists>vs. fst (nextid_calls 20 \<lparr>ni_maximum = 10, ni_increment = 4, ni_threshold = 2,
        ni_bank = [0..<4]\<rparr>) = map Inr vs \<and> length vs = 20 \<and>
    (\<forall>v \<in> set vs. v < 12) \<and> (\<forall>i. distinct (take 11 (drop i vs)))"
  using nextid_draws_fresh [of "\<lambda>_. 0" 10 4 "\<lparr>ni_maximum = 10, ni_increment = 4,
    ni_threshold = 2, ni_bank = [0..<4]\<rparr>" 20]
  by (simp add: nextid_init_def)

text \<open>
  Wrapping is decided when the bank is refilled, on the first value of the new run only,
  so the generator does issue values above \<open>maximum\<close>: a generator made for values up to 10
  returns 11 on its twelfth call.
\<close>

theorem nextid_exceeds_maximum:
  "\<exists>g. nextid_init (\<lambda>_. 0) 10 4 = Inr g \<and> ni_maximum g = 10 \<and>
     fst (nextid_calls 12 g) ! 11 = Inr 11"
  by (intro exI [of _ "\<lparr>ni_maximum = 10, ni_increment = 4, ni_threshold = 2,
    ni_bank = [0..<4]\<rparr>"]) (simp add: nextid_init_def, code_simp)

end
