(* ===== verification/Engine_Caches.thy ===== *)
theory Engine_Caches
  imports State_Store Next_Id
begin

text \<open>
  The two small caches of the engine: the security models' cache of
  \<open>pysnmp/proto/secmod/cache.py\<close>, which draws the handle it returns from a generator, and
  the dispatcher's record of requests waiting for an answer, \<open>pysnmp/proto/cache.py\<close>.

  The lemmas show that the security cache is a one-shot store whose handles do not collide
  as long as no more requests are in flight than the generator's range, and what the
  dispatcher's cache returns and keeps.
\<close>

section \<open>The security models' cache\<close>

text \<open>The generator is a class attribute: every security model draws from the same one.\<close>

record 'd sec_cache =
  sc_stateReference :: nextid
  sc_cacheEntries :: "nat \<rightharpoonup> 'd"

definition sec_store :: "nat \<Rightarrow> 'd \<Rightarrow> ('d sec_cache, unit) sm" where
  "sec_store k d = smodify (\<lambda>c. c\<lparr>sc_cacheEntries := (sc_cacheEntries c)(k \<mapsto> d)\<rparr>)"

definition sec_push :: "'d \<Rightarrow> ('d sec_cache, nat) sm" where
  "sec_push d c =
     (case nextid_call (sc_stateReference c) of
        (Inl e, g) \<Rightarrow> (Inl e, c\<lparr>sc_stateReference := g\<rparr>)
      | (Inr k, g) \<Rightarrow> sbind (sec_store k d) (\<lambda>_. sret k) (c\<lparr>sc_stateReference := g\<rparr>))"

definition sec_pop :: "nat \<Rightarrow> ('d sec_cache, 'd) sm" where
  "sec_pop k c =
     (case sc_cacheEntries c k of
        None \<Rightarrow> (Inl ProtocolError, c)
      | Some d \<Rightarrow> (Inr d, c\<lparr>sc_cacheEntries := (sc_cacheEntries c)(k := None)\<rparr>))"

definition sec_inv :: "'d sec_cache \<Rightarrow> bool" where
  "sec_inv c \<longleftrightarrow> nextid_inv (sc_stateReference c)"

interpretation sc: one_shot_store sec_store sec_pop sc_cacheEntries "\<lambda>_ _ _. True" sec_inv
  by unfold_locales (auto simp: sec_store_def sec_pop_def smodify_def sec_inv_def)

lemma sec_push_ok:
  assumes "sec_inv c"
  obtains k c' where "sec_push d c = (Inr k, c')" "sec_inv c'" "sc_cacheEntries c' k = Some d"
proof -
  obtain v bank ys where call: "nextid_call (sc_stateReference c) = (Inr v, (sc_stateReference c)\<lparr>ni_bank := bank @ ys\<rparr>)"
    "nextid_inv ((sc_stateReference c)\<lparr>ni_bank := bank @ ys\<rparr>)"
    using nextid_call_cases [of "sc_stateReference c"] assms unfolding sec_inv_def by metis
  then show thesis
    by (intro that [of v]) (auto simp: sec_push_def sec_store_def sbind_def smodify_def sret_def sec_inv_def)
qed

lemma sec_pop_ok:
  "sc_cacheEntries c k = Some d \<Longrightarrow> sec_inv c \<Longrightarrow>
   \<exists>c'. sec_pop k c = (Inr d, c') \<and> sec_inv c' \<and> sc_cacheEntries c' = (sc_cacheEntries c)(k := None)"
  by (simp add: sec_pop_def sec_inv_def)

text \<open>Pushing a list of entries returns the values a run of the generator returns.\<close>

lemma sec_push_run:
  assumes "sec_inv c"
  shows "\<exists>hs c'. run_all sec_push ds c = (Inr hs, c') \<and> sec_inv c' \<and> length hs = length ds \<and>
    map Inr hs = fst (nextid_calls (length ds) (sc_stateReference c)) \<and>
    sc_cacheEntries c' = (sc_cacheEntries c)(hs [\<mapsto>] ds)"
  using assms
proof (induction ds arbitrary: c)
  case Nil
  then show ?case by (simp add: sret_def)
next
  case (Cons d ds)
  obtain v bank ys where call: "nextid_call (sc_stateReference c) = (Inr v, (sc_stateReference c)\<lparr>ni_bank := bank @ ys\<rparr>)"
    "nextid_inv ((sc_stateReference c)\<lparr>ni_bank := bank @ ys\<rparr>)"
    using nextid_call_cases [of "sc_stateReference c"] Cons.prems unfolding sec_inv_def by metis
  let ?g = "(sc_stateReference c)\<lparr>ni_bank := bank @ ys\<rparr>"
  let ?c1 = "c\<lparr>sc_stateReference := ?g, sc_cacheEntries := (sc_cacheEntries c)(v \<mapsto> d)\<rparr>"
  have push: "sec_push d c = (Inr v, ?c1)"
    by (simp add: sec_push_def call(1) sec_store_def sbind_def smodify_def sret_def)
  have "sec_inv ?c1" using call(2) by (simp add: sec_inv_def)
  from Cons.IH [OF this] obtain hs c' where h: "run_all sec_push ds ?c1 = (Inr hs, c')"
    "sec_inv c'" "length hs = length ds"
    "map Inr hs = fst (nextid_calls (length ds) (sc_stateReference ?c1))"
    "sc_cacheEntries c' = (sc_cacheEntries ?c1)(hs [\<mapsto>] ds)" by blast
  then show ?case
    by (intro exI [of _ "v # hs"] exI [of _ c'])
      (simp add: push sbind_def sret_def call(1) Let_def case_prod_unfold)
qed

lemma nextid_calls_distinct:
  assumes "nextid_inv g" and "n \<le> ni_maximum g + 1" and "map Inr hs = fst (nextid_calls n g)"
  shows "distinct hs"
proof -
  obtain vs where vs: "fst (nextid_calls n g) = map Inr vs" "length vs = n"
    "successively (next_after (ni_maximum g)) vs"
    using nextid_calls_run [OF assms(1), of n] by metis
  have "hs = vs" using vs(1) assms(3) by (metis inj_Inr inj_map_eq_map)
  with vs assms(2) show ?thesis by (intro next_after_distinct [of "ni_maximum g"]) auto
qed

text \<open>
  Up to \<open>maximum + 1\<close> exchanges can be under way in a security model at once without their
  state being mixed up: the handles returned for them are pairwise different, and redeeming
  the handles, in any order, gives back for each what was pushed for it.
\<close>

theorem sec_cache_no_collision:
  assumes "nextid_inv (sc_stateReference c)" and "length ds \<le> ni_maximum (sc_stateReference c) + 1"
  shows "\<exists>hs c'. run_all sec_push ds c = (Inr hs, c') \<and> distinct hs \<and> length hs = length ds \<and>
    (\<forall>is. distinct is \<longrightarrow> set is \<subseteq> {..<length ds} \<longrightarrow>
       fst (run_all sec_pop (map ((!) hs) is) c') = Inr (map ((!) ds) is))"
proof -
  obtain hs c' where h: "run_all sec_push ds c = (Inr hs, c')" "sec_inv c'"
    "length hs = length ds"
    "map Inr hs = fst (nextid_calls (length ds) (sc_stateReference c))"
    "sc_cacheEntries c' = (sc_cacheEntries c)(hs [\<mapsto>] ds)"
    using sec_push_run [of c ds] assms(1) unfolding sec_inv_def by blast
  have d: "distinct hs" using assms h(4) by (intro nextid_calls_distinct)
  have e: "sc_cacheEntries c' (hs ! i) = Some (ds ! i)" if "i < length ds" for i
    using that d h(3,5) by (simp add: map_upds_nth)
  have "fst (run_all sec_pop (map ((!) hs) is) c') = Inr (map ((!) ds) is)"
    if i: "distinct is" "set is \<subseteq> {..<length ds}" for "is"
  proof -
    have "distinct (map ((!) hs) is)"
      using i d h(3) by (auto simp: distinct_map inj_on_def subset_iff nth_eq_iff_index_eq)
    moreover have "set (map ((!) hs) is) \<subseteq> dom (sc_cacheEntries c')" using e i(2) by auto
    ultimately obtain c'' where "run_all sec_pop (map ((!) hs) is) c' =
      (Inr (map (\<lambda>k. the (sc_cacheEntries c' k)) (map ((!) hs) is)), c'')"
      using sc.grab_any_order [OF h(2)] by blast
    moreover have "map (\<lambda>k. the (sc_cacheEntries c' k)) (map ((!) hs) is) = map ((!) ds) is"
      using e i(2) by auto
    ultimately show ?thesis by simp
  qed
  with h d show ?thesis by blast
qed

theorem sec_cache_no_collision_witness:
  "\<exists>hs c'. run_all sec_push [''a'', ''b''] \<lparr>sc_stateReference = \<lparr>ni_maximum = 10,
      ni_increment = 4, ni_threshold = 2, ni_bank = [0..<4]\<rparr>, sc_cacheEntries = Map.empty\<rparr>
      = (Inr hs, c') \<and> distinct hs \<and> length hs = 2 \<and>
    fst (run_all sec_pop (map ((!) hs) [1, 0]) c') = Inr [''b'', ''a'']"
proof -
  let ?g = "\<lparr>ni_maximum = 10, ni_increment = 4, ni_threshold = 2, ni_bank = [0..<4]\<rparr>"
  have g: "nextid_inv ?g"
    by (rule nextid_init_inv [of "\<lambda>_. 0" 10 4]) (simp_all add: nextid_init_def)
  obtain hs c' where h: "run_all sec_push [''a'', ''b''] \<lparr>sc_stateReference = ?g,
      sc_cacheEntries = Map.empty\<rparr> = (Inr hs, c')" "distinct hs" "length hs = 2"
    "\<forall>is. distinct is \<longrightarrow> set is \<subseteq> {..<2} \<longrightarrow>
       fst (run_all sec_pop (map ((!) hs) is) c') = Inr (map ((!) [''a'', ''b'']) is)"
    using sec_cache_no_collision [of "\<lparr>sc_stateReference = ?g, sc_cacheEntries = Map.empty\<rparr>"
        "[''a'', ''b'']"] g by (auto simp: numeral_2_eq_2)
  from h(4) have "fst (run_all sec_pop (map ((!) hs) [1, 0]) c') = Inr (map ((!) [''a'', ''b'']) [1, 0])"
    by (elim allE [of _ "[1, 0]"]) simp
  with h show ?thesis by (intro exI [of _ hs] exI [of _ c']) simp
qed

section \<open>The dispatcher's cache\<close>

type_synonym 'p req_cache = "(nat, 'p) odict"

definition req_add :: "nat \<Rightarrow> 'p \<Rightarrow> 'p req_cache \<Rightarrow> nat \<times> 'p req_cache" where
  "req_add i p c = (i, AList.update i p c)"

definition req_pop :: "nat \<Rightarrow> 'p req_cache \<Rightarrow> 'p option \<times> 'p req_cache" where
  "req_pop i c = (case map_of c i of None \<Rightarrow> (None, c) | Some p \<Rightarrow> (Some p, AList.delete i c))"

definition req_update :: "nat \<Rightarrow> ('p \<Rightarrow> 'p) \<Rightarrow> ('p req_cache, unit) sm" where
  "req_update i f c =
     (case map_of c i of
        None \<Rightarrow> (Inl ProtocolError, c)
      | Some p \<Rightarrow> (Inr (), AList.update i (f p) c))"

text \<open>
  \<open>expire\<close> walks a snapshot of the cache while the callback, which runs application code,
  may change the cache itself; the world is the cache together with whatever else the
  callback touches.
\<close>

fun req_expire_loop :: "(nat \<Rightarrow> 'p \<Rightarrow> ('p req_cache \<times> 'w, bool) sm) \<Rightarrow> (nat \<times> 'p) list \<Rightarrow>
    ('p req_cache \<times> 'w, unit) sm" where
  "req_expire_loop cbFun [] = sret ()"
| "req_expire_loop cbFun ((i, p) # xs) =
     sbind (cbFun i p) (\<lambda>r.
     sbind (if r then smodify (\<lambda>(c, w). (AList.delete i c, w)) else sret ()) (\<lambda>_.
     req_expire_loop cbFun xs))"

definition req_expire :: "(nat \<Rightarrow> 'p \<Rightarrow> ('p req_cache \<times> 'w, bool) sm) option \<Rightarrow>
    ('p req_cache \<times> 'w, unit) sm" where
  "req_expire cbFun s = (case cbFun of None \<Rightarrow> (Inr (), s) | Some cb \<Rightarrow> req_expire_loop cb (fst s) s)"

lemma req_pop_lookup:
  "req_pop i c = (map_of c i, c') \<Longrightarrow> map_of c' = (map_of c)(i := None)"
  by (auto simp: req_pop_def odict_simps fun_upd_idem split: option.splits)

lemma req_pop_twice: "fst (req_pop i (snd (req_pop i c))) = None"
  by (auto simp: req_pop_def odict_simps split: option.splits)

lemma req_add_pop: "fst (req_pop i (snd (req_add i p c))) = Some p"
  by (simp add: req_pop_def req_add_def odict_simps)

end
