(* ===== verification/Vacm.thy ===== *)
theory Vacm
  imports Snmp_Prelude "HOL-Library.Product_Lexorder"
begin

text \<open>
  The View-based Access Control Model, \<open>pysnmp/proto/acmod/rfc3415.py\<close>: the decision whether
  one OID may be read, written or notified on, with the four tables it caches.

  The tables themselves live in the management information base. The model takes them as an
  argument, a \<open>vacm_mib\<close>: the rows in the order in which \<open>getNextNode\<close> walks them, with the
  branch version of each table. Rows are complete, as \<open>RowStatus\<close> creates them.

  The lemmas show that the access entry chosen is the one RFC 3415 asks for, that the cached
  tables are as fresh as the version numbers they are read with, that a view includes exactly the names whose longest
  matching family is included, and the two places where the code departs from this: a view
  that has no family at all does not deny access, and a name shorter than a masked family
  ends in an \<open>IndexError\<close>.
\<close>

section \<open>Nested dictionaries\<close>

text \<open>
  A dictionary of dictionaries, written the way the code does: look the inner one up, put an
  empty one in its place on a \<open>KeyError\<close>, and change it.
\<close>

definition dget :: "('k, 'v list) odict \<Rightarrow> 'k \<Rightarrow> 'v list" where
  "dget d k = (case map_of d k of None \<Rightarrow> [] | Some v \<Rightarrow> v)"

definition dupd :: "'k \<Rightarrow> ('v list \<Rightarrow> 'v list) \<Rightarrow> ('k, 'v list) odict \<Rightarrow> ('k, 'v list) odict" where
  "dupd k f d = AList.update k (f (dget d k)) d"

lemma dget_dupd [odict_simps]: "dget (dupd k f d) k' = (if k' = k then f (dget d k) else dget d k')"
  by (simp add: dget_def dupd_def map_of_odict_update)

lemma dget_Nil [simp]: "dget [] k = []"
  by (simp add: dget_def)

lemma distinct_dupd: "distinct (map fst d) \<Longrightarrow> distinct (map fst (dupd k f d))"
  by (simp add: dupd_def distinct_update)

lemma map_of_dupd: "map_of (dupd k f d) k' = (if k' = k then Some (f (dget d k)) else map_of d k')"
  by (simp add: dupd_def map_of_odict_update)

lemma in_dget_iff:
  assumes "distinct (map fst d)"
  shows "(\<exists>l. (k, l) \<in> set d \<and> x \<in> set l) \<longleftrightarrow> x \<in> set (dget d k)"
  using assms by (auto simp: dget_def split: option.splits dest: map_of_SomeD map_of_is_SomeI)

section \<open>Tables\<close>

type_synonym levels = "(int, octets) odict"
type_synonym models = "(int, levels) odict"
type_synonym contexts = "(octets, models) odict"
type_synonym matches = "(int, contexts) odict"
type_synonym views = "(view_type, matches) odict"
type_synonym access_map = "(octets, views) odict"

record access_row =
  ar_status :: int
  ar_groupName :: octets
  ar_contextPrefix :: octets
  ar_securityModel :: int
  ar_securityLevel :: int
  ar_contextMatch :: int
  ar_readViewName :: octets
  ar_writeViewName :: octets
  ar_notifyViewName :: octets

record view_row =
  vr_viewName :: octets
  vr_subtree :: oid
  vr_mask :: octets
  vr_type :: int

record vacm_mib =
  vm_contextVersion :: int
  vm_contexts :: "octets list"
  vm_groupVersion :: int
  vm_groups :: "((int \<times> octets) \<times> octets) list"
  vm_accessVersion :: int
  vm_access :: "access_row list"
  vm_viewVersion :: int
  vm_views :: "view_row list"

text \<open>A family of view subtrees as the model keeps it: pattern, wildcard positions, included.\<close>

type_synonym view_entry = "oid \<times> nat list \<times> bool"

record vacm =
  va_contextBranchId :: int
  va_groupNameBranchId :: int
  va_accessBranchId :: int
  va_viewTreeBranchId :: int
  va_contextMap :: "octets list"
  va_groupNameMap :: "(int \<times> octets) \<rightharpoonup> octets"
  va_accessMap :: access_map
  va_viewTreeMap :: "(octets, view_entry list) odict"

text \<open>\<open>Vacm.__init__\<close>.\<close>

definition vacm_init :: vacm where
  "vacm_init = \<lparr>va_contextBranchId = -1, va_groupNameBranchId = -1, va_accessBranchId = -1,
     va_viewTreeBranchId = -1, va_contextMap = [], va_groupNameMap = Map.empty,
     va_accessMap = [], va_viewTreeMap = []\<rparr>"

section \<open>The access table\<close>

definition addView :: "access_row \<Rightarrow> view_type \<Rightarrow> octets \<Rightarrow> views \<Rightarrow> views" where
  "addView r viewType viewName =
     dupd viewType (dupd (ar_contextMatch r) (dupd (ar_contextPrefix r)
       (dupd (ar_securityModel r) (AList.update (ar_securityLevel r) viewName))))"

definition addAccessEntry :: "access_row \<Rightarrow> access_map \<Rightarrow> access_map" where
  "addAccessEntry r groups =
     (if ar_groupName r = [] then groups
      else dupd (ar_groupName r)
        (addView r notify_view (ar_notifyViewName r) \<circ>
         addView r write_view (ar_writeViewName r) \<circ>
         addView r read_view (ar_readViewName r)) groups)"

text \<open>The rows that can be chosen, and the order in which they are preferred.\<close>

type_synonym candidate = "bool \<times> bool \<times> nat \<times> int \<times> octets"

definition candidates :: "octets \<Rightarrow> int \<Rightarrow> int \<Rightarrow> matches \<Rightarrow> candidate list" where
  "candidates contextName securityModel securityLevel ms =
     [(securityModel = model, contextName = context, length context, level, viewName).
        (match, names) \<leftarrow> ms,
        (context, modls) \<leftarrow> names,
        \<not> (match = 1 \<and> contextName \<noteq> context),
        \<not> (match = 2 \<and> take (length context) contextName \<noteq> context),
        (model, lvls) \<leftarrow> modls,
        model = securityModel \<or> model = 0,
        (level, viewName) \<leftarrow> lvls,
        \<not> level > securityLevel]"

definition better :: "candidate option \<Rightarrow> candidate \<Rightarrow> candidate option" where
  "better best c = (case best of None \<Rightarrow> Some c | Some b \<Rightarrow> if c > b then Some c else best)"

definition exact_match :: "octets \<Rightarrow> int \<Rightarrow> int \<Rightarrow> matches \<Rightarrow> octets option" where
  "exact_match contextName securityModel securityLevel ms =
     Option.bind (map_of ms 1) (\<lambda>names.
     Option.bind (map_of names contextName) (\<lambda>modls.
     Option.bind (map_of modls securityModel) (\<lambda>lvls. map_of lvls securityLevel)))"

definition getFamilyViewName ::
  "access_map \<Rightarrow> octets \<Rightarrow> octets \<Rightarrow> int \<Rightarrow> int \<Rightarrow> view_type \<Rightarrow> octets res" where
  "getFamilyViewName groups groupName contextName securityModel securityLevel viewType =
     (case map_of groups groupName of
        None \<Rightarrow> Inl (status noGroupName)
      | Some vs \<Rightarrow>
     (case map_of vs viewType of
        None \<Rightarrow> Inl (status noAccessEntry)
      | Some ms \<Rightarrow>
     (case exact_match contextName securityModel securityLevel ms of
        Some viewName \<Rightarrow> Inr viewName
      | None \<Rightarrow>
     (case foldl better None (candidates contextName securityModel securityLevel ms) of
        None \<Rightarrow> Inl (status notInView)
      | Some (_, _, _, _, viewName) \<Rightarrow> Inr viewName))))"

section \<open>The view tree table\<close>

fun zero_at :: "nat list \<Rightarrow> oid \<Rightarrow> oid res" where
  "zero_at [] xs = Inr xs"
| "zero_at (i # is) xs = rbind (py_set xs i 0) (zero_at is)"

definition powerOfTwo :: "8 word list" where
  "powerOfTwo = map (\<lambda>e. 2 ^ e) (rev [0..<8])"

definition ignored_subOids :: "octets \<Rightarrow> oid \<Rightarrow> nat list" where
  "ignored_subOids octs subtree =
     (let maskLength = min (length octs * 8) (length subtree) in
      [i * 8 + j.
        (i, octet) \<leftarrow> List.enumerate 0 octs,
        (j, b) \<leftarrow> List.enumerate 0 powerOfTwo,
        and b octet = 0 \<and> i * 8 + j < maskLength])"

definition view_entry_of :: "view_row \<Rightarrow> view_entry res" where
  "view_entry_of r =
     (let ign = ignored_subOids (vr_mask r) (vr_subtree r) in
      rbind (if ign \<noteq> [] then zero_at ign (vr_subtree r) else Inr (vr_subtree r))
        (\<lambda>subtree. Inr (subtree, ign, vr_type r = 1)))"

fun collect_views :: "view_row list \<Rightarrow> (octets, view_entry list) odict \<Rightarrow>
    (octets, view_entry list) odict res" where
  "collect_views [] d = Inr d"
| "collect_views (r # rs) d =
     rbind (view_entry_of r) (\<lambda>e. collect_views rs (dupd (vr_viewName r) (\<lambda>es. es @ [e]) d))"

definition view_key :: "view_entry \<Rightarrow> nat \<times> oid" where
  "view_key e = (length (fst e), fst e)"

definition build_views :: "view_row list \<Rightarrow> (octets, view_entry list) odict res" where
  "build_views rs = rbind (collect_views rs [])
     (\<lambda>d. Inr (map (\<lambda>(k, es). (k, sort_key view_key es)) d))"

text \<open>The walk over the families of a view; the last one that matches decides.\<close>

fun walk_views :: "oid \<Rightarrow> view_entry list \<Rightarrow> bool \<Rightarrow> bool res" where
  "walk_views variableName [] allowed = Inr allowed"
| "walk_views variableName ((subtree, ign, included) # es) allowed =
     rbind (if ign \<noteq> [] then zero_at ign variableName else Inr variableName)
       (\<lambda>normalizedVariableName. walk_views variableName es
          (if is_prefix subtree normalizedVariableName then included else allowed))"

section \<open>The decision\<close>

definition refresh_contexts :: "vacm_mib \<Rightarrow> vacm \<Rightarrow> vacm" where
  "refresh_contexts mib v =
     (if va_contextBranchId v \<noteq> vm_contextVersion mib
      then v\<lparr>va_contextMap := vm_contexts mib, va_contextBranchId := vm_contextVersion mib\<rparr>
      else v)"

definition refresh_groups :: "vacm_mib \<Rightarrow> vacm \<Rightarrow> vacm" where
  "refresh_groups mib v =
     (if va_groupNameBranchId v \<noteq> vm_groupVersion mib
      then v\<lparr>va_groupNameMap := foldl (\<lambda>m (k, g). m(k \<mapsto> g)) Map.empty (vm_groups mib),
             va_groupNameBranchId := vm_groupVersion mib\<rparr>
      else v)"

definition build_access :: "access_row list \<Rightarrow> access_map" where
  "build_access rows = foldl (\<lambda>m r. if ar_status r \<noteq> 1 then m else addAccessEntry r m) [] rows"

definition refresh_access :: "vacm_mib \<Rightarrow> vacm \<Rightarrow> vacm" where
  "refresh_access mib v =
     (if va_accessBranchId v \<noteq> vm_accessVersion mib
      then v\<lparr>va_accessMap := build_access (vm_access mib), va_accessBranchId := vm_accessVersion mib\<rparr>
      else v)"

definition refresh_views :: "vacm_mib \<Rightarrow> (vacm, unit) sm" where
  "refresh_views mib v =
     (if va_viewTreeBranchId v \<noteq> vm_viewVersion mib
      then (case build_views (vm_views mib) of
              Inl e \<Rightarrow> (Inl e, v\<lparr>va_viewTreeMap := []\<rparr>)
            | Inr d \<Rightarrow> (Inr (), v\<lparr>va_viewTreeMap := d, va_viewTreeBranchId := vm_viewVersion mib\<rparr>))
      else (Inr (), v))"

text \<open>
  \<open>isAccessAllowed\<close>. It returns nothing when access is granted; a view name that no row of the
  view tree carries makes it \<^emph>\<open>return\<close> the status it should raise, which is the \<open>Some\<close> case.
\<close>

definition isAccessAllowed :: "vacm_mib \<Rightarrow> int \<Rightarrow> octets \<Rightarrow> int \<Rightarrow> view_type \<Rightarrow> octets \<Rightarrow> oid \<Rightarrow>
    (vacm, exn option) sm" where
  "isAccessAllowed mib securityModel securityName securityLevel viewType contextName variableName =
     sbind (smodify (refresh_contexts mib)) (\<lambda>_.
     sbind (sget va_contextMap) (\<lambda>contextMap.
     if contextName \<notin> set contextMap then sraise (status noSuchContext) else
     sbind (smodify (refresh_groups mib)) (\<lambda>_.
     sbind (sget va_groupNameMap) (\<lambda>groupNameMap.
     case groupNameMap (securityModel, securityName) of
       None \<Rightarrow> sraise (status noGroupName)
     | Some groupName \<Rightarrow>
     sbind (smodify (refresh_access mib)) (\<lambda>_.
     sbind (sget va_accessMap) (\<lambda>accessMap.
     sbind (sres (getFamilyViewName accessMap groupName contextName securityModel securityLevel
              viewType)) (\<lambda>viewName.
     sbind (refresh_views mib) (\<lambda>_.
     sbind (sget va_viewTreeMap) (\<lambda>viewTreeMap.
     case map_of viewTreeMap viewName of
       None \<Rightarrow> sret (Some (status notInView))
     | Some entries \<Rightarrow>
     sbind (sres (walk_views variableName entries False)) (\<lambda>allowed.
     if \<not> allowed then sraise (status notInView) else sret None))))))))))"

text \<open>The access control model that permits everything, \<open>acmod/void.py\<close>.\<close>

definition void_isAccessAllowed :: "int \<Rightarrow> octets \<Rightarrow> int \<Rightarrow> view_type \<Rightarrow> octets \<Rightarrow> oid \<Rightarrow>
    exn option res" where
  "void_isAccessAllowed securityModel securityName securityLevel viewType contextName variableName =
     Inr (Some (status accessAllowed))"

section \<open>What the access map holds\<close>

fun view_of :: "view_type \<Rightarrow> access_row \<Rightarrow> octets" where
  "view_of read_view r = ar_readViewName r"
| "view_of write_view r = ar_writeViewName r"
| "view_of notify_view r = ar_notifyViewName r"

definition cell :: "access_map \<Rightarrow> octets \<Rightarrow> view_type \<Rightarrow> int \<Rightarrow> octets \<Rightarrow> int \<Rightarrow> levels" where
  "cell m g vt mt cx md = dget (dget (dget (dget (dget m g) vt) mt) cx) md"

definition effective :: "access_row \<Rightarrow> bool" where
  "effective r \<longleftrightarrow> ar_status r = 1 \<and> ar_groupName r \<noteq> []"

definition access_index :: "access_row \<Rightarrow> octets \<times> octets \<times> int \<times> int" where
  "access_index r = (ar_groupName r, ar_contextPrefix r, ar_securityModel r, ar_securityLevel r)"

lemma view_of_unfold: "view_of vt r = (case vt of read_view \<Rightarrow> ar_readViewName r
    | write_view \<Rightarrow> ar_writeViewName r | notify_view \<Rightarrow> ar_notifyViewName r)"
  by (cases vt) simp_all

lemma cell_add:
  "ar_groupName r \<noteq> [] \<Longrightarrow> map_of (cell (addAccessEntry r m) g vt mt cx md) lv =
     (if access_index r = (g, cx, md, lv) \<and> ar_contextMatch r = mt
      then Some (view_of vt r) else map_of (cell m g vt mt cx md) lv)"
  by (cases vt) (auto simp: cell_def addAccessEntry_def addView_def odict_simps access_index_def)

definition dict_ok :: "access_map \<Rightarrow> bool" where
  "dict_ok m \<longleftrightarrow>
     (\<forall>g vt. distinct (map fst (dget (dget m g) vt))) \<and>
     (\<forall>g vt mt. distinct (map fst (dget (dget (dget m g) vt) mt))) \<and>
     (\<forall>g vt mt cx. distinct (map fst (dget (dget (dget (dget m g) vt) mt) cx))) \<and>
     (\<forall>g vt mt cx md. distinct (map fst (cell m g vt mt cx md)))"

lemma dict_ok_add: "dict_ok m \<Longrightarrow> dict_ok (addAccessEntry r m)"
  unfolding dict_ok_def cell_def addAccessEntry_def addView_def
  by (simp add: odict_simps distinct_dupd distinct_update)

lemma dict_ok_build: "dict_ok (build_access rows)"
  by (induction rows rule: rev_induct)
    (simp_all add: build_access_def dict_ok_add, simp add: dict_ok_def cell_def)

lemma build_access_snoc:
  "build_access (rows @ [r]) =
     (if effective r then addAccessEntry r (build_access rows) else build_access rows)"
  by (simp add: build_access_def effective_def addAccessEntry_def)

lemma cell_build:
  assumes "distinct (map access_index (filter effective rows))"
  shows "map_of (cell (build_access rows) g vt mt cx md) lv = Some v \<longleftrightarrow>
    (\<exists>r \<in> set rows. effective r \<and> access_index r = (g, cx, md, lv) \<and> ar_contextMatch r = mt \<and>
       view_of vt r = v)"
  using assms
proof (induction rows rule: rev_induct)
  case Nil
  then show ?case by (simp add: build_access_def cell_def)
next
  case (snoc r rows)
  show ?case
  proof (cases "effective r")
    case True
    then have "ar_groupName r \<noteq> []" by (simp add: effective_def)
    moreover have "\<forall>r' \<in> set rows. effective r' \<longrightarrow> access_index r' \<noteq> access_index r"
      using snoc.prems True by (fastforce simp: image_iff)
    ultimately show ?thesis
      using True snoc by (auto simp: build_access_snoc cell_add)
  next
    case False
    with snoc show ?thesis by (auto simp: build_access_snoc)
  qed
qed

lemma group_present:
  "map_of (build_access rows) g = None \<longleftrightarrow> (\<forall>r \<in> set rows. effective r \<longrightarrow> ar_groupName r \<noteq> g)"
  by (induction rows rule: rev_induct)
    (auto simp: build_access_snoc build_access_def [of "[]"] addAccessEntry_def map_of_dupd
      effective_def)

lemma view_present:
  assumes "map_of (build_access rows) g = Some vs"
  shows "map_of vs vt = Some (dget (dget (build_access rows) g) vt)"
proof -
  have "map_of (build_access rows) g \<noteq> None \<longrightarrow> map_of (dget (build_access rows) g) vt \<noteq> None"
  proof (induction rows rule: rev_induct)
    case (snoc r rows)
    then show ?case
      by (cases vt) (auto simp: build_access_snoc addAccessEntry_def map_of_dupd addView_def odict_simps)
  qed (simp add: build_access_def)
  with assms show ?thesis by (auto simp: dget_def)
qed

lemma foldl_better:
  "foldl better b cs = (case b of None \<Rightarrow> (if cs = [] then None else Some (Max (set cs)))
     | Some x \<Rightarrow> Some (Max (insert x (set cs))))"
proof (induction cs rule: rev_induct)
  case Nil
  then show ?case by (simp split: option.splits)
next
  case (snoc c cs)
  have "better (Some x) c = Some (max c x)" for x by (auto simp: better_def max_def)
  moreover have "better None c = Some c" by (simp add: better_def)
  ultimately show ?case
    using snoc by (cases b; cases "cs = []") (simp_all add: max.left_commute max.commute)
qed

text \<open>When a row applies to a request, and how RFC 3415 ranks the ones that do.\<close>

definition row_applies :: "octets \<Rightarrow> int \<Rightarrow> int \<Rightarrow> access_row \<Rightarrow> bool" where
  "row_applies contextName securityModel securityLevel r \<longleftrightarrow>
     (if ar_contextMatch r = 1 then ar_contextPrefix r = contextName
      else is_prefix (ar_contextPrefix r) contextName) \<and>
     ar_securityModel r \<in> {securityModel, 0} \<and> ar_securityLevel r \<le> securityLevel"

definition row_rank :: "octets \<Rightarrow> int \<Rightarrow> access_row \<Rightarrow> bool \<times> bool \<times> nat \<times> int" where
  "row_rank contextName securityModel r =
     (ar_securityModel r = securityModel, ar_contextPrefix r = contextName,
      length (ar_contextPrefix r), ar_securityLevel r)"

definition candidate_of :: "view_type \<Rightarrow> octets \<Rightarrow> int \<Rightarrow> access_row \<Rightarrow> candidate" where
  "candidate_of vt contextName securityModel r =
     (case row_rank contextName securityModel r of (a, b, c, d) \<Rightarrow> (a, b, c, d, view_of vt r))"

lemma in_concat_pairs:
  "x \<in> set (concat (map (\<lambda>p. case p of (a, b) \<Rightarrow> f a b) ps)) \<longleftrightarrow>
     (\<exists>a b. (a, b) \<in> set ps \<and> x \<in> set (f a b))"
  by auto

lemma in_guarded: "x \<in> set (if P then xs else []) \<longleftrightarrow> P \<and> x \<in> set xs"
  by simp

lemma candidates_iff:
  assumes "dict_ok m"
  shows "c \<in> set (candidates cx md lv (dget (dget m g) vt)) \<longleftrightarrow>
    (\<exists>mt cn model level v. (level, v) \<in> set (cell m g vt mt cn model) \<and>
       \<not> (mt = 1 \<and> cx \<noteq> cn) \<and> \<not> (mt = 2 \<and> take (length cn) cx \<noteq> cn) \<and>
       (model = md \<or> model = 0) \<and> level \<le> lv \<and>
       c = (md = model, cx = cn, length cn, level, v))"
proof -
  have *: "(level, v) \<in> set (cell m g vt mt cn model) \<longleftrightarrow>
    (\<exists>names modls lvls. (mt, names) \<in> set (dget (dget m g) vt) \<and> (cn, modls) \<in> set names \<and>
       (model, lvls) \<in> set modls \<and> (level, v) \<in> set lvls)" for level v mt cn model
    using assms unfolding dict_ok_def cell_def by (simp add: in_dget_iff [symmetric]) blast
  have "c \<in> set (candidates cx md lv ms) \<longleftrightarrow>
    (\<exists>mt names. (mt, names) \<in> set ms \<and> (\<exists>cn modls. (cn, modls) \<in> set names \<and>
       \<not> (mt = 1 \<and> cx \<noteq> cn) \<and> \<not> (mt = 2 \<and> take (length cn) cx \<noteq> cn) \<and>
       (\<exists>model lvls. (model, lvls) \<in> set modls \<and> (model = md \<or> model = 0) \<and>
         (\<exists>level v. (level, v) \<in> set lvls \<and> \<not> level > lv \<and>
            c = (md = model, cx = cn, length cn, level, v)))))" for ms
    unfolding candidates_def in_concat_pairs in_guarded by (simp only: list.set singleton_iff)
  then show ?thesis unfolding * not_less by blast
qed

lemma candidates_rows:
  assumes "distinct (map access_index (filter effective rows))"
    and "\<forall>r \<in> set rows. ar_contextMatch r \<in> {1, 2}"
  shows "set (candidates cx md lv (dget (dget (build_access rows) g) vt)) =
    candidate_of vt cx md ` {r \<in> set rows. effective r \<and> ar_groupName r = g \<and> row_applies cx md lv r}"
    (is "?L = ?R")
proof -
  have mem: "(level, v) \<in> set (cell (build_access rows) g vt mt cn model) \<longleftrightarrow>
    (\<exists>r \<in> set rows. effective r \<and> access_index r = (g, cn, model, level) \<and>
       ar_contextMatch r = mt \<and> view_of vt r = v)" for level v mt cn model
    using cell_build [OF assms(1), of g vt mt cn model level v] dict_ok_build [of rows]
    by (auto simp: dict_ok_def dest: map_of_SomeD map_of_is_SomeI)
  have "c \<in> ?L \<longleftrightarrow> c \<in> ?R" for c
    unfolding candidates_iff [OF dict_ok_build] mem using assms(2)
    by (auto simp: image_iff candidate_of_def row_rank_def row_applies_def access_index_def
        is_prefix_def) blast+
  then show ?thesis by blast
qed

section \<open>The access entry that is chosen\<close>

definition applicable :: "access_row list \<Rightarrow> octets \<Rightarrow> octets \<Rightarrow> int \<Rightarrow> int \<Rightarrow> access_row set" where
  "applicable rows g cx md lv =
     {r \<in> set rows. effective r \<and> ar_groupName r = g \<and> row_applies cx md lv r}"

lemma exact_match_cell:
  "exact_match cx md lv (dget (dget m g) vt) = map_of (cell m g vt 1 cx md) lv"
  unfolding exact_match_def cell_def dget_def
  by (auto split: option.splits simp: bind_eq_None_conv) 

lemma rank_of_candidate:
  "candidate_of vt cx md r' \<le> candidate_of vt cx md r \<Longrightarrow> row_rank cx md r' \<le> row_rank cx md r"
  by (auto simp: candidate_of_def row_rank_def)

lemma rank_unique:
  assumes "distinct (map access_index (filter effective rows))"
    and "r \<in> applicable rows g cx md lv" and "r' \<in> applicable rows g cx md lv"
    and "row_rank cx md r = row_rank cx md r'"
  shows "r = r'"
proof -
  have "ar_securityModel r = ar_securityModel r'"
    using assms by (auto simp: applicable_def row_applies_def row_rank_def)
  moreover have "is_prefix (ar_contextPrefix x) cx" if "x \<in> applicable rows g cx md lv" for x
    using that by (auto simp: applicable_def row_applies_def is_prefix_def split: if_splits)
  then have "ar_contextPrefix r = ar_contextPrefix r'"
    using assms(2-4) unfolding is_prefix_def row_rank_def by (metis prod.inject)
  ultimately have "access_index r = access_index r'"
    using assms(2-4) by (auto simp: applicable_def access_index_def row_rank_def)
  with assms(1-3) show ?thesis
    by (auto simp: applicable_def distinct_map inj_on_def)
qed

lemma exact_row_best:
  assumes "row_applies cx md lv r'"
    and "access_index r = (g, cx, md, lv)"
  shows "row_rank cx md r' \<le> row_rank cx md r"
  using assms by (auto simp: row_applies_def row_rank_def access_index_def is_prefix_def split: if_splits)

lemma family_view_max:
  assumes "distinct (map access_index (filter effective rows))"
    and "\<forall>r \<in> set rows. ar_contextMatch r \<in> {1, 2}"
    and "applicable rows g cx md lv \<noteq> {}"
  shows "\<exists>r \<in> applicable rows g cx md lv.
    getFamilyViewName (build_access rows) g cx md lv vt = Inr (view_of vt r) \<and>
    (\<forall>r' \<in> applicable rows g cx md lv. row_rank cx md r' \<le> row_rank cx md r)"
proof -
  let ?m = "build_access rows" and ?A = "applicable rows g cx md lv"
  have fin: "finite ?A" by (simp add: applicable_def)
  have "map_of ?m g \<noteq> None" using assms(3) unfolding group_present by (auto simp: applicable_def)
  then obtain vs where vs: "map_of ?m g = Some vs" "map_of vs vt = Some (dget (dget ?m g) vt)"
    using view_present by blast
  have cs: "set (candidates cx md lv (dget (dget ?m g) vt)) = candidate_of vt cx md ` ?A"
    using candidates_rows [OF assms(1,2)] by (simp add: applicable_def)
  show ?thesis
  proof (cases "map_of (cell ?m g vt 1 cx md) lv")
    case (Some v)
    then obtain r where r: "r \<in> set rows" "effective r" "access_index r = (g, cx, md, lv)"
      "ar_contextMatch r = 1" "view_of vt r = v"
      using cell_build [OF assms(1), of g vt 1 cx md lv v] by auto
    then have "r \<in> ?A" by (auto simp: applicable_def row_applies_def access_index_def)
    with r Some vs show ?thesis
      by (intro bexI [of _ r])
        (auto simp: getFamilyViewName_def exact_match_cell applicable_def intro: exact_row_best)
  next
    case None
    have "Max (candidate_of vt cx md ` ?A) \<in> candidate_of vt cx md ` ?A"
      using fin assms(3) by (intro Max_in) auto
    then obtain r where r: "r \<in> ?A" "Max (candidate_of vt cx md ` ?A) = candidate_of vt cx md r"
      by auto
    then have "\<forall>r' \<in> ?A. candidate_of vt cx md r' \<le> candidate_of vt cx md r"
      using fin by (metis Max_ge finite_imageI imageI)
    moreover have "candidates cx md lv (dget (dget ?m g) vt) \<noteq> []"
      using cs assms(3) by (metis image_is_empty set_empty)
    then have "foldl better None (candidates cx md lv (dget (dget ?m g) vt)) =
      Some (candidate_of vt cx md r)"
      by (simp add: foldl_better cs r(2))
    then have "getFamilyViewName ?m g cx md lv vt = Inr (view_of vt r)"
      using None vs by (simp add: getFamilyViewName_def exact_match_cell candidate_of_def row_rank_def)
    ultimately show ?thesis using r(1) rank_of_candidate by blast
  qed
qed

lemma family_view_none:
  assumes "distinct (map access_index (filter effective rows))"
    and "\<forall>r \<in> set rows. ar_contextMatch r \<in> {1, 2}"
    and "applicable rows g cx md lv = {}"
  shows "getFamilyViewName (build_access rows) g cx md lv vt =
    Inl (status (if \<exists>r \<in> set rows. effective r \<and> ar_groupName r = g then notInView else noGroupName))"
proof (cases "map_of (build_access rows) g")
  case None
  then show ?thesis using group_present [of rows g] by (auto simp: getFamilyViewName_def)
next
  case (Some vs)
  then have g: "\<exists>r \<in> set rows. effective r \<and> ar_groupName r = g"
    using group_present [of rows g] by auto
  have "candidates cx md lv (dget (dget (build_access rows) g) vt) = []"
    using candidates_rows [OF assms(1,2), of cx md lv g vt] assms(3)
    by (metis applicable_def image_empty set_empty)
  moreover have "map_of (cell (build_access rows) g vt 1 cx md) lv = None"
  proof (rule ccontr)
    assume "map_of (cell (build_access rows) g vt 1 cx md) lv \<noteq> None"
    then obtain r where "r \<in> set rows" "effective r" "access_index r = (g, cx, md, lv)"
      "ar_contextMatch r = 1"
      using cell_build [OF assms(1), of g vt 1 cx md lv] by auto
    then have "r \<in> applicable rows g cx md lv"
      by (auto simp: applicable_def row_applies_def access_index_def)
    with assms(3) show False by simp
  qed
  ultimately show ?thesis
    using g Some view_present [OF Some, of vt]
    by (auto simp: getFamilyViewName_def exact_match_cell)
qed

text \<open>
  (C5) The view chosen for a request is the one RFC 3415 asks for: among the active rows of the
  group that fit the context, the security model and the level, it is the view of the row
  that beats every other one on, in this order, naming the request's own security model
  rather than any, naming the context exactly, the length of the context prefix, and the
  security level. The shortcut for an exact match never changes the choice. When no row
  fits, the error tells an unknown group from a group with no fitting row.
\<close>

theorem family_view_best:
  assumes "distinct (map access_index (filter effective rows))"
    and "\<forall>r \<in> set rows. ar_contextMatch r \<in> {1, 2}"
  shows "(getFamilyViewName (build_access rows) g cx md lv vt = Inr v \<longleftrightarrow>
      (\<exists>r \<in> applicable rows g cx md lv. view_of vt r = v \<and>
        (\<forall>r' \<in> applicable rows g cx md lv. r' \<noteq> r \<longrightarrow> row_rank cx md r' < row_rank cx md r))) \<and>
    (getFamilyViewName (build_access rows) g cx md lv vt = Inl e \<longleftrightarrow>
      applicable rows g cx md lv = {} \<and>
      e = status (if \<exists>r \<in> set rows. effective r \<and> ar_groupName r = g then notInView else noGroupName))"
proof -
  let ?A = "applicable rows g cx md lv"
  have some: "\<exists>r \<in> ?A. getFamilyViewName (build_access rows) g cx md lv vt = Inr (view_of vt r) \<and>
    (\<forall>r' \<in> ?A. r' \<noteq> r \<longrightarrow> row_rank cx md r' < row_rank cx md r)" if "?A \<noteq> {}"
    using family_view_max [OF assms that, of vt] rank_unique [OF assms(1)] order_le_less by metis
  have "getFamilyViewName (build_access rows) g cx md lv vt = Inr v \<longleftrightarrow>
      (\<exists>r \<in> ?A. view_of vt r = v \<and>
        (\<forall>r' \<in> ?A. r' \<noteq> r \<longrightarrow> row_rank cx md r' < row_rank cx md r))"
  proof (cases "?A = {}")
    case True
    then show ?thesis using family_view_none [OF assms True] by simp
  next
    case False
    then show ?thesis using some by (metis less_asym sum.inject(2))
  qed
  moreover have "getFamilyViewName (build_access rows) g cx md lv vt = Inl e \<longleftrightarrow> ?A = {} \<and>
      e = status (if \<exists>r \<in> set rows. effective r \<and> ar_groupName r = g then notInView else noGroupName)"
    using some family_view_none [OF assms] by (cases "?A = {}") auto
  ultimately show ?thesis by blast
qed

theorem family_view_best_witness:
  "let r1 = \<lparr>ar_status = 1, ar_groupName = [1], ar_contextPrefix = [], ar_securityModel = 3,
        ar_securityLevel = 1, ar_contextMatch = 2, ar_readViewName = [10], ar_writeViewName = [11],
        ar_notifyViewName = [12]\<rparr>;
       r2 = \<lparr>ar_status = 1, ar_groupName = [1], ar_contextPrefix = [7], ar_securityModel = 0,
        ar_securityLevel = 2, ar_contextMatch = 1, ar_readViewName = [20], ar_writeViewName = [21],
        ar_notifyViewName = [22]\<rparr>
   in getFamilyViewName (build_access [r1, r2]) [1] [7] 3 2 read_view = Inr [10] \<and>
      getFamilyViewName (build_access [r1, r2]) [1] [8] 1 2 read_view = Inl (status notInView)"
proof -
  let ?r1 = "\<lparr>ar_status = 1, ar_groupName = [1], ar_contextPrefix = [], ar_securityModel = 3,
        ar_securityLevel = 1, ar_contextMatch = 2, ar_readViewName = [10], ar_writeViewName = [11],
        ar_notifyViewName = [12]\<rparr>"
  let ?r2 = "\<lparr>ar_status = 1, ar_groupName = [1], ar_contextPrefix = [7], ar_securityModel = 0,
        ar_securityLevel = 2, ar_contextMatch = 1, ar_readViewName = [20], ar_writeViewName = [21],
        ar_notifyViewName = [22]\<rparr>"
  have a1: "applicable [?r1, ?r2] [1] [7] 3 2 = {?r1, ?r2}"
    by (auto simp: applicable_def effective_def row_applies_def is_prefix_def)
  have a2: "applicable [?r1, ?r2] [1] [8] 1 2 = {}"
    by (auto simp: applicable_def effective_def row_applies_def is_prefix_def)
  have "row_rank [7] 3 ?r2 < row_rank [7] 3 ?r1" by (simp add: row_rank_def)
  then have "getFamilyViewName (build_access [?r1, ?r2]) [1] [7] 3 2 read_view = Inr [10]"
    using a1 by (subst family_view_best [THEN conjunct1]) (auto simp: access_index_def effective_def)
  moreover have "getFamilyViewName (build_access [?r1, ?r2]) [1] [8] 1 2 read_view = Inl (status notInView)"
    using a2 by (subst family_view_best [THEN conjunct2]) (auto simp: access_index_def effective_def)
  ultimately show ?thesis by simp
qed

section \<open>Families of view subtrees\<close>

text \<open>
  Bit \<open>i\<close> of a mask, counted from the most significant bit of its first octet; a mask is
  extended with ones (\<open>vacmViewTreeFamilyMask\<close>).
\<close>

definition mask_bit :: "octets \<Rightarrow> nat \<Rightarrow> bool" where
  "mask_bit m i \<longleftrightarrow> length m * 8 \<le> i \<or> bit (m ! (i div 8)) (7 - i mod 8)"

text \<open>What it means for a name to belong to a family.\<close>

definition in_family :: "oid \<Rightarrow> octets \<Rightarrow> oid \<Rightarrow> bool" where
  "in_family subtree m name \<longleftrightarrow> length subtree \<le> length name \<and>
     (\<forall>i < length subtree. mask_bit m i \<longrightarrow> subtree ! i = name ! i)"

lemma length_powerOfTwo: "length powerOfTwo = 8"
  by (simp add: powerOfTwo_def)

lemma powerOfTwo_nth:
  assumes "j < 8" shows "and (powerOfTwo ! j) w = 0 \<longleftrightarrow> \<not> bit w (7 - j)"
proof -
  have "powerOfTwo ! j = push_bit (7 - j) 1"
    using assms by (simp add: powerOfTwo_def rev_nth push_bit_eq_mult)
  then have "and (powerOfTwo ! j) w = push_bit (7 - j) (of_bool (bit w (7 - j)))"
    by (auto intro!: bit_eqI simp: bit_simps)
  moreover have "bit (push_bit (7 - j) 1 :: 8 word) (7 - j)" using assms by (simp add: bit_simps)
  then have "push_bit (7 - j) 1 \<noteq> (0 :: 8 word)" by (metis bit_0_eq bot_apply bot_bool_def)
  ultimately show ?thesis by (cases "bit w (7 - j)") simp_all
qed

lemma ignored_iff:
  "k \<in> set (ignored_subOids m subtree) \<longleftrightarrow> k < length subtree \<and> \<not> mask_bit m k"
proof -
  have "k \<in> set (ignored_subOids m subtree) \<longleftrightarrow>
    (\<exists>i < length m. \<exists>j < 8. k = i * 8 + j \<and> \<not> bit (m ! i) (7 - j) \<and>
       k < min (length m * 8) (length subtree))"
    unfolding ignored_subOids_def Let_def in_concat_pairs in_guarded in_set_enumerate_eq
    by (auto simp: powerOfTwo_nth length_powerOfTwo)
  also have "\<dots> \<longleftrightarrow> k < length subtree \<and> k < length m * 8 \<and> \<not> bit (m ! (k div 8)) (7 - k mod 8)"
  proof
    assume "k < length subtree \<and> k < length m * 8 \<and> \<not> bit (m ! (k div 8)) (7 - k mod 8)"
    then show "\<exists>i < length m. \<exists>j < 8. k = i * 8 + j \<and> \<not> bit (m ! i) (7 - j) \<and>
       k < min (length m * 8) (length subtree)"
      by (intro exI [of _ "k div 8"] conjI exI [of _ "k mod 8"]) auto
  qed auto
  finally show ?thesis by (auto simp: mask_bit_def)
qed

definition zero_all :: "nat list \<Rightarrow> oid \<Rightarrow> oid" where
  "zero_all is xs = map (\<lambda>i. if i \<in> set is then 0 else xs ! i) [0..<length xs]"

lemma zero_all_simps [simp]:
  "length (zero_all is xs) = length xs"
  "i < length xs \<Longrightarrow> zero_all is xs ! i = (if i \<in> set is then 0 else xs ! i)"
  "zero_all [] xs = xs"
  by (simp_all add: zero_all_def map_nth)

lemma zero_at_eq:
  "zero_at is xs = (if \<forall>i \<in> set is. i < length xs then Inr (zero_all is xs) else Inl IndexError)"
proof (induction "is" arbitrary: xs)
  case Nil
  then show ?case by simp
next
  case (Cons i "is")
  have "zero_all is (xs[i := 0]) = zero_all (i # is) xs" if "i < length xs"
    by (rule nth_equalityI) (auto simp: nth_list_update)
  with Cons show ?case by (auto simp: py_set_def)
qed

lemma zero_at_if: "(if is \<noteq> [] then zero_at is xs else Inr xs) = zero_at is xs"
  by simp

text \<open>Building an entry never fails, and an entry matches exactly the names of its family.\<close>

definition pattern :: "view_row \<Rightarrow> oid" where
  "pattern r = zero_all (ignored_subOids (vr_mask r) (vr_subtree r)) (vr_subtree r)"

definition entry :: "view_row \<Rightarrow> view_entry" where
  "entry r = (pattern r, ignored_subOids (vr_mask r) (vr_subtree r), vr_type r = 1)"

lemma view_entry_of_eq: "view_entry_of r = Inr (entry r)"
  by (auto simp: view_entry_of_def entry_def pattern_def zero_at_if zero_at_eq ignored_iff Let_def)

definition covers :: "oid \<Rightarrow> view_row \<Rightarrow> bool" where
  "covers name r \<longleftrightarrow> in_family (vr_subtree r) (vr_mask r) name"

text \<open>A name reaches every wildcard position of a family.\<close>

definition reaches :: "oid \<Rightarrow> view_row \<Rightarrow> bool" where
  "reaches name r \<longleftrightarrow> (\<forall>i < length (vr_subtree r). \<not> mask_bit (vr_mask r) i \<longrightarrow> i < length name)"

lemma is_prefix_nth:
  "is_prefix p xs \<longleftrightarrow> length p \<le> length xs \<and> (\<forall>i < length p. p ! i = xs ! i)"
  by (auto simp: is_prefix_def list_eq_iff_nth_eq)

lemma normalized_name:
  "zero_at (ignored_subOids (vr_mask r) (vr_subtree r)) name =
     (if reaches name r then Inr (zero_all (ignored_subOids (vr_mask r) (vr_subtree r)) name)
      else Inl IndexError)"
  by (auto simp: zero_at_eq reaches_def ignored_iff)

lemma pattern_prefix:
  "is_prefix (pattern r) (zero_all (ignored_subOids (vr_mask r) (vr_subtree r)) name) \<longleftrightarrow> covers name r"
  by (auto simp: is_prefix_nth pattern_def covers_def in_family_def ignored_iff)

lemma walk_views_entries:
  "walk_views name (map entry rs) b =
     (if \<forall>r \<in> set rs. reaches name r
      then Inr (fold (\<lambda>r acc. if covers name r then vr_type r = 1 else acc) rs b)
      else Inl IndexError)"
  by (induction rs arbitrary: b)
    (auto simp: entry_def zero_at_if normalized_name pattern_prefix)

lemma sorted_map_last_max:
  "sorted (map f xs) \<Longrightarrow> x \<in> set xs \<Longrightarrow> f x \<le> f (last xs)"
  by (induction xs) auto

lemma last_covering:
  "fold (\<lambda>r acc. if covers name r then vr_type r = 1 else acc) rs b =
     (case filter (covers name) rs of [] \<Rightarrow> b | x # xs \<Rightarrow> vr_type (last (x # xs)) = 1)"
  by (induction rs arbitrary: b) (auto split: list.splits)

text \<open>The rows of a view in the order in which they are consulted.\<close>

definition row_key :: "view_row \<Rightarrow> nat \<times> oid" where
  "row_key r = (length (vr_subtree r), pattern r)"

definition view_rows :: "view_row list \<Rightarrow> octets \<Rightarrow> view_row list" where
  "view_rows rs v = sort_key row_key (filter (\<lambda>r. vr_viewName r = v) rs)"

lemma insort_key_map: "insort_key f (g x) (map g ys) = map g (insort_key (\<lambda>x. f (g x)) x ys)"
  by (induction ys) auto

lemma sort_key_map: "sort_key f (map g xs) = map g (sort_key (\<lambda>x. f (g x)) xs)"
  by (induction xs) (simp_all add: insort_key_map)

lemma view_key_entry: "(\<lambda>r. view_key (entry r)) = row_key"
  by (auto simp: view_key_def entry_def row_key_def pattern_def)

lemma collect_views_eq:
  "\<exists>d'. collect_views rs d = Inr d' \<and>
     (\<forall>v. map_of d' v = (if \<exists>r \<in> set rs. vr_viewName r = v
        then Some (dget d v @ map entry (filter (\<lambda>r. vr_viewName r = v) rs)) else map_of d v))"
proof (induction rs arbitrary: d)
  case (Cons r rs)
  obtain d' where "collect_views rs (dupd (vr_viewName r) (\<lambda>es. es @ [entry r]) d) = Inr d'"
    "\<forall>v. map_of d' v = (if \<exists>r \<in> set rs. vr_viewName r = v
       then Some (dget (dupd (vr_viewName r) (\<lambda>es. es @ [entry r]) d) v @
         map entry (filter (\<lambda>r. vr_viewName r = v) rs))
       else map_of (dupd (vr_viewName r) (\<lambda>es. es @ [entry r]) d) v)"
    using Cons.IH by blast
  then show ?case
    by (intro exI [of _ d']) (auto simp: view_entry_of_eq dget_dupd map_of_dupd)
qed simp

lemma build_views_eq:
  "\<exists>d. build_views rs = Inr d \<and>
     (\<forall>v. map_of d v = (if \<exists>r \<in> set rs. vr_viewName r = v then Some (map entry (view_rows rs v)) else None))"
proof -
  obtain d where d: "collect_views rs [] = Inr d"
    "\<forall>v. map_of d v = (if \<exists>r \<in> set rs. vr_viewName r = v
        then Some (map entry (filter (\<lambda>r. vr_viewName r = v) rs)) else None)"
    using collect_views_eq [of rs "[]"] by auto
  then show ?thesis
    by (auto simp: build_views_def map_of_map sort_key_map view_key_entry view_rows_def)
qed

section \<open>The decision without caches\<close>

definition vacm_decide :: "vacm_mib \<Rightarrow> int \<Rightarrow> octets \<Rightarrow> int \<Rightarrow> view_type \<Rightarrow> octets \<Rightarrow> oid \<Rightarrow> exn option res" where
  "vacm_decide mib md sn lv vt cx name =
     (if cx \<notin> set (vm_contexts mib) then Inl (status noSuchContext)
      else case map_of (rev (vm_groups mib)) (md, sn) of
        None \<Rightarrow> Inl (status noGroupName)
      | Some g \<Rightarrow>
     rbind (getFamilyViewName (build_access (vm_access mib)) g cx md lv vt) (\<lambda>v.
       let rs = view_rows (vm_views mib) v in
       if rs = [] then Inr (Some (status notInView))
       else if \<exists>r \<in> set rs. \<not> reaches name r then Inl IndexError
       else case filter (covers name) rs of
         [] \<Rightarrow> Inl (status notInView)
       | c # cs \<Rightarrow> if vr_type (last (c # cs)) = 1 then Inr None else Inl (status notInView)))"

text \<open>
  The tables of a state agree with those of a base: a branch identifier that equals the version
  of a table goes with the contents of that table.
\<close>

definition synced :: "vacm_mib \<Rightarrow> vacm \<Rightarrow> bool" where
  "synced mib v \<longleftrightarrow>
     (va_contextBranchId v = vm_contextVersion mib \<longrightarrow> va_contextMap v = vm_contexts mib) \<and>
     (va_groupNameBranchId v = vm_groupVersion mib \<longrightarrow> va_groupNameMap v = map_of (rev (vm_groups mib))) \<and>
     (va_accessBranchId v = vm_accessVersion mib \<longrightarrow> va_accessMap v = build_access (vm_access mib)) \<and>
     (va_viewTreeBranchId v = vm_viewVersion mib \<longrightarrow> build_views (vm_views mib) = Inr (va_viewTreeMap v))"

lemma foldl_groups: "foldl (\<lambda>m (k, g). m(k \<mapsto> g)) m xs = m ++ map_of (rev xs)"
  by (induction xs arbitrary: m) (auto simp: map_add_def fun_eq_iff split: option.splits)

lemma refresh_synced:
  assumes "synced mib v"
  shows "synced mib (refresh_contexts mib v)" "synced mib (refresh_groups mib v)"
    "synced mib (refresh_access mib v)" "synced mib (snd (refresh_views mib v))"
    "va_contextMap (refresh_contexts mib v) = vm_contexts mib"
    "va_groupNameMap (refresh_groups mib v) = map_of (rev (vm_groups mib))"
    "va_accessMap (refresh_access mib v) = build_access (vm_access mib)"
    "fst (refresh_views mib v) = Inr ()"
    "build_views (vm_views mib) = Inr (va_viewTreeMap (snd (refresh_views mib v)))"
proof -
  obtain d where "build_views (vm_views mib) = Inr d" using build_views_eq by blast
  with assms show "synced mib (refresh_contexts mib v)" "synced mib (refresh_groups mib v)"
    "synced mib (refresh_access mib v)" "synced mib (snd (refresh_views mib v))"
    "va_contextMap (refresh_contexts mib v) = vm_contexts mib"
    "va_groupNameMap (refresh_groups mib v) = map_of (rev (vm_groups mib))"
    "va_accessMap (refresh_access mib v) = build_access (vm_access mib)"
    "fst (refresh_views mib v) = Inr ()"
    "build_views (vm_views mib) = Inr (va_viewTreeMap (snd (refresh_views mib v)))"
    by (auto simp: synced_def refresh_contexts_def refresh_groups_def refresh_access_def refresh_views_def
        foldl_groups)
qed

lemma view_tree_lookup:
  assumes "build_views (vm_views mib) = Inr d"
  shows "(case map_of d v of None \<Rightarrow> sret (Some (status notInView))
     | Some entries \<Rightarrow> sbind (sres (walk_views name entries False)) (\<lambda>allowed.
         if \<not> allowed then sraise (status notInView) else sret None)) w =
    (let rs = view_rows (vm_views mib) v in
       (if rs = [] then Inr (Some (status notInView))
       else if \<exists>r \<in> set rs. \<not> reaches name r then Inl IndexError
       else case filter (covers name) rs of
         [] \<Rightarrow> Inl (status notInView)
       | c # cs \<Rightarrow> if vr_type (last (c # cs)) = 1 then Inr None else Inl (status notInView)), w)"
proof -
  have m: "map_of d v = (if \<exists>r \<in> set (vm_views mib). vr_viewName r = v
      then Some (map entry (view_rows (vm_views mib) v)) else None)"
    using build_views_eq [of "vm_views mib"] assms by auto
  have "view_rows (vm_views mib) v = [] \<longleftrightarrow> \<not> (\<exists>r \<in> set (vm_views mib). vr_viewName r = v)"
    by (simp add: view_rows_def filter_empty_conv flip: set_empty) auto
  then show ?thesis
    by (simp add: m walk_views_entries last_covering Let_def sres_def sbind_def sret_def sraise_def
        split: list.split)
qed

text \<open>The four states that a request goes through, and the one it stops in.\<close>

definition after_groups :: "vacm_mib \<Rightarrow> vacm \<Rightarrow> vacm" where
  "after_groups mib v = refresh_groups mib (refresh_contexts mib v)"

definition after_access :: "vacm_mib \<Rightarrow> vacm \<Rightarrow> vacm" where
  "after_access mib v = refresh_access mib (after_groups mib v)"

definition after_views :: "vacm_mib \<Rightarrow> vacm \<Rightarrow> vacm" where
  "after_views mib v = snd (refresh_views mib (after_access mib v))"

lemma isAccessAllowed_decide:
  assumes "synced mib v"
  shows "fst (isAccessAllowed mib md sn lv vt cx name v) = vacm_decide mib md sn lv vt cx name"
    and "snd (isAccessAllowed mib md sn lv vt cx name v) \<in>
      {refresh_contexts mib v, after_groups mib v, after_access mib v, after_views mib v}"
    and "synced mib (snd (isAccessAllowed mib md sn lv vt cx name v))"
proof -
  note r = refresh_synced
  define v1 where "v1 = refresh_contexts mib v"
  define v2 where "v2 = refresh_groups mib v1"
  define v3 where "v3 = refresh_access mib v2"
  define v4 where "v4 = snd (refresh_views mib v3)"
  have s: "synced mib v1" "synced mib v2" "synced mib v3" "synced mib v4"
    using r(1) [OF assms] r(2) [of mib v1] r(3) [of mib v2] r(4) [of mib v3]
    unfolding v1_def v2_def v3_def v4_def by simp_all
  have m: "va_contextMap v1 = vm_contexts mib" "va_groupNameMap v2 = map_of (rev (vm_groups mib))"
    "va_accessMap v3 = build_access (vm_access mib)" "refresh_views mib v3 = (Inr (), v4)"
    "build_views (vm_views mib) = Inr (va_viewTreeMap v4)"
    using r(5) [OF assms] r(6) [OF s(1)] r(7) [OF s(2)] r(8) [OF s(3)] r(9) [OF s(3)]
    unfolding v1_def v2_def v3_def v4_def by (simp_all add: prod_eq_iff)
  note vt = view_tree_lookup [OF m(5)]
  have *: "isAccessAllowed mib md sn lv vt cx name v =
    (vacm_decide mib md sn lv vt cx name,
     if cx \<notin> set (vm_contexts mib) then v1
     else case map_of (rev (vm_groups mib)) (md, sn) of None \<Rightarrow> v2
     | Some g \<Rightarrow> (case getFamilyViewName (build_access (vm_access mib)) g cx md lv vt of
         Inl e \<Rightarrow> v3 | Inr x \<Rightarrow> v4))"
    unfolding isAccessAllowed_def vacm_decide_def
    by (simp add: sbind_def smodify_def sget_def sraise_def [of _ v1] sraise_def [of _ v2] sres_def
        v1_def [symmetric] v2_def [symmetric] v3_def [symmetric] m(1-4) vt Let_def
        split: option.split sum.split)
  then show "fst (isAccessAllowed mib md sn lv vt cx name v) = vacm_decide mib md sn lv vt cx name"
    and "synced mib (snd (isAccessAllowed mib md sn lv vt cx name v))"
    using s by (auto split: option.splits sum.splits)
  have v: "v1 = refresh_contexts mib v" "v2 = after_groups mib v" "v3 = after_access mib v" "v4 = after_views mib v"
    unfolding v1_def v2_def v3_def v4_def after_groups_def after_access_def after_views_def by (rule refl)+
  show "snd (isAccessAllowed mib md sn lv vt cx name v) \<in>
      {refresh_contexts mib v, after_groups mib v, after_access mib v, after_views mib v}"
    unfolding v [symmetric] * by (simp split: option.split sum.split)
qed

section \<open>What the caches hold\<close>

text \<open>
  Nothing is known of the tables but that a version number is read with them. So a cache holds
  the table of some base that was asked before, and a request is answered from tables that had,
  when they were read, the version they have now. \<open>tables_read H mib b\<close>: each table of \<open>b\<close> is
  the one a base in \<open>H\<close> had at the version that \<open>mib\<close> has of it.
\<close>

definition tables_read :: "vacm_mib set \<Rightarrow> vacm_mib \<Rightarrow> vacm_mib \<Rightarrow> bool" where
  "tables_read H mib b \<longleftrightarrow>
     (\<exists>c \<in> H. vm_contextVersion c = vm_contextVersion mib \<and> vm_contexts b = vm_contexts c) \<and>
     (\<exists>c \<in> H. vm_groupVersion c = vm_groupVersion mib \<and> vm_groups b = vm_groups c) \<and>
     (\<exists>c \<in> H. vm_accessVersion c = vm_accessVersion mib \<and> vm_access b = vm_access c) \<and>
     (\<exists>c \<in> H. vm_viewVersion c = vm_viewVersion mib \<and> vm_views b = vm_views c)"

text \<open>A base of which no table differs from \<open>mib\<close>'s at the same version.\<close>

definition version_tells :: "vacm_mib \<Rightarrow> vacm_mib \<Rightarrow> bool" where
  "version_tells mib c \<longleftrightarrow>
     (vm_contextVersion c = vm_contextVersion mib \<longrightarrow> vm_contexts c = vm_contexts mib) \<and>
     (vm_groupVersion c = vm_groupVersion mib \<longrightarrow> vm_groups c = vm_groups mib) \<and>
     (vm_accessVersion c = vm_accessVersion mib \<longrightarrow> vm_access c = vm_access mib) \<and>
     (vm_viewVersion c = vm_viewVersion mib \<longrightarrow> vm_views c = vm_views mib)"

definition versions_used :: "vacm_mib \<Rightarrow> bool" where
  "versions_used mib \<longleftrightarrow> vm_contextVersion mib \<noteq> -1 \<and> vm_groupVersion mib \<noteq> -1 \<and>
     vm_accessVersion mib \<noteq> -1 \<and> vm_viewVersion mib \<noteq> -1"

definition from_history :: "vacm_mib set \<Rightarrow> vacm \<Rightarrow> bool" where
  "from_history H v \<longleftrightarrow>
     (va_contextBranchId v = -1 \<or> (\<exists>c \<in> H. vm_contextVersion c = va_contextBranchId v \<and>
        va_contextMap v = vm_contexts c)) \<and>
     (va_groupNameBranchId v = -1 \<or> (\<exists>c \<in> H. vm_groupVersion c = va_groupNameBranchId v \<and>
        va_groupNameMap v = map_of (rev (vm_groups c)))) \<and>
     (va_accessBranchId v = -1 \<or> (\<exists>c \<in> H. vm_accessVersion c = va_accessBranchId v \<and>
        va_accessMap v = build_access (vm_access c))) \<and>
     (va_viewTreeBranchId v = -1 \<or> (\<exists>c \<in> H. vm_viewVersion c = va_viewTreeBranchId v \<and>
        build_views (vm_views c) = Inr (va_viewTreeMap v)))"

lemma from_history_init: "from_history H vacm_init"
  by (simp add: from_history_def vacm_init_def)

lemma from_history_refresh:
  assumes "from_history H v"
  shows "from_history (insert mib H) (refresh_contexts mib v)" "from_history (insert mib H) (refresh_groups mib v)"
    "from_history (insert mib H) (refresh_access mib v)" "from_history (insert mib H) (snd (refresh_views mib v))"
proof -
  obtain d where d: "build_views (vm_views mib) = Inr d" using build_views_eq by blast
  show "from_history (insert mib H) (refresh_contexts mib v)" "from_history (insert mib H) (refresh_groups mib v)"
    "from_history (insert mib H) (refresh_access mib v)"
    using assms by (auto simp: from_history_def refresh_contexts_def refresh_groups_def refresh_access_def foldl_groups)
  show "from_history (insert mib H) (snd (refresh_views mib v))"
    using assms d by (auto simp: from_history_def refresh_views_def)
qed

lemma from_history_states:
  assumes "from_history H v"
    and "w \<in> {refresh_contexts mib v, after_groups mib v, after_access mib v, after_views mib v}"
  shows "from_history (insert mib H) w"
proof -
  have "from_history (insert mib H) (refresh_contexts mib v)" by (rule from_history_refresh(1) [OF assms(1)])
  then have 1: "from_history (insert mib H) (refresh_contexts mib v)" "from_history (insert mib H) (after_groups mib v)"
    unfolding after_groups_def using from_history_refresh(2) [of "insert mib H" _ mib] by simp_all
  then have 2: "from_history (insert mib H) (after_access mib v)"
    unfolding after_access_def using from_history_refresh(3) [of "insert mib H" _ mib] by simp
  then have "from_history (insert mib H) (after_views mib v)"
    unfolding after_views_def using from_history_refresh(4) [of "insert mib H" _ mib] by simp
  with 1 2 assms(2) show ?thesis by auto
qed

text \<open>
  A state of that kind is in step with a base made of the tables it holds: asking the real base
  and asking that one are the same, since a table is only read where the versions differ.
\<close>

lemma isAccessAllowed_same_base:
  assumes "vm_contextVersion b = vm_contextVersion mib" "vm_groupVersion b = vm_groupVersion mib"
    and "vm_accessVersion b = vm_accessVersion mib" "vm_viewVersion b = vm_viewVersion mib"
    and "va_contextBranchId v \<noteq> vm_contextVersion mib \<Longrightarrow> vm_contexts b = vm_contexts mib"
    and "va_groupNameBranchId v \<noteq> vm_groupVersion mib \<Longrightarrow> vm_groups b = vm_groups mib"
    and "va_accessBranchId v \<noteq> vm_accessVersion mib \<Longrightarrow> vm_access b = vm_access mib"
    and "va_viewTreeBranchId v \<noteq> vm_viewVersion mib \<Longrightarrow> vm_views b = vm_views mib"
  shows "isAccessAllowed mib md sn lv vt cx name v = isAccessAllowed b md sn lv vt cx name v"
    and "refresh_contexts b v = refresh_contexts mib v" "after_groups b v = after_groups mib v"
    "after_access b v = after_access mib v" "after_views b v = after_views mib v"
proof -
  have c: "refresh_contexts b v = refresh_contexts mib v"
    using assms by (simp add: refresh_contexts_def)
  have ids: "va_groupNameBranchId (refresh_contexts mib v) = va_groupNameBranchId v"
    "va_accessBranchId (after_groups mib v) = va_accessBranchId v"
    "va_viewTreeBranchId (after_access mib v) = va_viewTreeBranchId v"
    by (simp_all add: after_access_def after_groups_def refresh_contexts_def refresh_groups_def refresh_access_def)
  have g: "refresh_groups b (refresh_contexts mib v) = refresh_groups mib (refresh_contexts mib v)"
    using assms ids(1) by (simp add: refresh_groups_def)
  have a: "refresh_access b (after_groups mib v) = refresh_access mib (after_groups mib v)"
    using assms ids(2) by (simp add: refresh_access_def)
  have w: "refresh_views b (after_access mib v) = refresh_views mib (after_access mib v)"
  proof (cases "va_viewTreeBranchId v = vm_viewVersion mib")
    case True
    with assms(4) ids(3) show ?thesis by (simp add: refresh_views_def)
  next
    case False
    from assms(8) [OF False] show ?thesis by (simp add: refresh_views_def assms(4) split: sum.split)
  qed
  show "refresh_contexts b v = refresh_contexts mib v" by (rule c)
  show ag: "after_groups b v = after_groups mib v" by (simp add: after_groups_def c g)
  show aa: "after_access b v = after_access mib v" by (simp add: after_access_def ag a)
  show "after_views b v = after_views mib v" by (simp add: after_views_def aa w)
  show "isAccessAllowed mib md sn lv vt cx name v = isAccessAllowed b md sn lv vt cx name v"
    unfolding isAccessAllowed_def sbind_def smodify_def sget_def
    by (simp add: c g a [unfolded after_groups_def] w [unfolded after_access_def after_groups_def] sres_def
        split: option.split sum.split cong: if_cong)
qed

lemma isAccessAllowed_from_history:
  assumes "versions_used mib" and "from_history H v"
  shows "\<exists>b. tables_read (insert mib H) mib b \<and>
      fst (isAccessAllowed mib md sn lv vt cx name v) = vacm_decide b md sn lv vt cx name"
    and "from_history (insert mib H) (snd (isAccessAllowed mib md sn lv vt cx name v))"
proof -
  have "\<exists>x. (va_contextBranchId v \<noteq> vm_contextVersion mib \<longrightarrow> x = vm_contexts mib) \<and>
      (va_contextBranchId v = vm_contextVersion mib \<longrightarrow> va_contextMap v = x) \<and>
      (\<exists>c \<in> insert mib H. vm_contextVersion c = vm_contextVersion mib \<and> x = vm_contexts c)"
    using assms by (cases "va_contextBranchId v = vm_contextVersion mib") (auto simp: from_history_def versions_used_def)
  then obtain x1 where 1: "va_contextBranchId v \<noteq> vm_contextVersion mib \<Longrightarrow> x1 = vm_contexts mib"
      "va_contextBranchId v = vm_contextVersion mib \<longrightarrow> va_contextMap v = x1"
      "\<exists>c \<in> insert mib H. vm_contextVersion c = vm_contextVersion mib \<and> x1 = vm_contexts c" by blast
  have "\<exists>x. (va_groupNameBranchId v \<noteq> vm_groupVersion mib \<longrightarrow> x = vm_groups mib) \<and>
      (va_groupNameBranchId v = vm_groupVersion mib \<longrightarrow> va_groupNameMap v = map_of (rev x)) \<and>
      (\<exists>c \<in> insert mib H. vm_groupVersion c = vm_groupVersion mib \<and> x = vm_groups c)"
    using assms by (cases "va_groupNameBranchId v = vm_groupVersion mib") (auto simp: from_history_def versions_used_def)
  then obtain x2 where 2: "va_groupNameBranchId v \<noteq> vm_groupVersion mib \<Longrightarrow> x2 = vm_groups mib"
      "va_groupNameBranchId v = vm_groupVersion mib \<longrightarrow> va_groupNameMap v = map_of (rev x2)"
      "\<exists>c \<in> insert mib H. vm_groupVersion c = vm_groupVersion mib \<and> x2 = vm_groups c" by blast
  have "\<exists>x. (va_accessBranchId v \<noteq> vm_accessVersion mib \<longrightarrow> x = vm_access mib) \<and>
      (va_accessBranchId v = vm_accessVersion mib \<longrightarrow> va_accessMap v = build_access x) \<and>
      (\<exists>c \<in> insert mib H. vm_accessVersion c = vm_accessVersion mib \<and> x = vm_access c)"
    using assms by (cases "va_accessBranchId v = vm_accessVersion mib") (auto simp: from_history_def versions_used_def)
  then obtain x3 where 3: "va_accessBranchId v \<noteq> vm_accessVersion mib \<Longrightarrow> x3 = vm_access mib"
      "va_accessBranchId v = vm_accessVersion mib \<longrightarrow> va_accessMap v = build_access x3"
      "\<exists>c \<in> insert mib H. vm_accessVersion c = vm_accessVersion mib \<and> x3 = vm_access c" by blast
  have "\<exists>x. (va_viewTreeBranchId v \<noteq> vm_viewVersion mib \<longrightarrow> x = vm_views mib) \<and>
      (va_viewTreeBranchId v = vm_viewVersion mib \<longrightarrow> build_views x = Inr (va_viewTreeMap v)) \<and>
      (\<exists>c \<in> insert mib H. vm_viewVersion c = vm_viewVersion mib \<and> x = vm_views c)"
    using assms by (cases "va_viewTreeBranchId v = vm_viewVersion mib") (auto simp: from_history_def versions_used_def)
  then obtain x4 where 4: "va_viewTreeBranchId v \<noteq> vm_viewVersion mib \<Longrightarrow> x4 = vm_views mib"
      "va_viewTreeBranchId v = vm_viewVersion mib \<longrightarrow> build_views x4 = Inr (va_viewTreeMap v)"
      "\<exists>c \<in> insert mib H. vm_viewVersion c = vm_viewVersion mib \<and> x4 = vm_views c" by blast
  let ?b = "mib\<lparr>vm_contexts := x1, vm_groups := x2, vm_access := x3, vm_views := x4\<rparr>"
  have s: "synced ?b v" using 1(2) 2(2) 3(2) 4(2) by (simp add: synced_def)
  have same: "isAccessAllowed mib md sn lv vt cx name v = isAccessAllowed ?b md sn lv vt cx name v"
    "refresh_contexts ?b v = refresh_contexts mib v" "after_groups ?b v = after_groups mib v"
    "after_access ?b v = after_access mib v" "after_views ?b v = after_views mib v"
    by (rule isAccessAllowed_same_base; simp add: 1(1) 2(1) 3(1) 4(1))+
  have "tables_read (insert mib H) mib ?b" using 1(3) 2(3) 3(3) 4(3) by (simp add: tables_read_def)
  then show "\<exists>b. tables_read (insert mib H) mib b \<and>
      fst (isAccessAllowed mib md sn lv vt cx name v) = vacm_decide b md sn lv vt cx name"
    unfolding same(1) using isAccessAllowed_decide(1) [OF s] by blast
  have "snd (isAccessAllowed ?b md sn lv vt cx name v) \<in>
      {refresh_contexts mib v, after_groups mib v, after_access mib v, after_views mib v}"
    using isAccessAllowed_decide(2) [OF s] unfolding same(2-5) .
  then show "from_history (insert mib H) (snd (isAccessAllowed mib md sn lv vt cx name v))"
    unfolding same(1) by (rule from_history_states [OF assms(2)])
qed

lemma vacm_decide_tables:
  assumes "tables_read H mib b" and "\<forall>c \<in> H. version_tells mib c"
  shows "vacm_decide b = vacm_decide mib"
proof -
  have "vm_contexts b = vm_contexts mib" "vm_groups b = vm_groups mib" "vm_access b = vm_access mib"
      "vm_views b = vm_views mib"
    using assms unfolding tables_read_def version_tells_def by metis+
  then show ?thesis by (intro ext) (simp only: vacm_decide_def)
qed

section \<open>Properties\<close>

text \<open>A sequence of requests, each asked of the base as it is at that moment.\<close>

record access_request =
  rq_securityModel :: int
  rq_securityName :: octets
  rq_securityLevel :: int
  rq_viewType :: view_type
  rq_contextName :: octets
  rq_variableName :: oid

definition ask :: "(vacm_mib \<Rightarrow> int \<Rightarrow> octets \<Rightarrow> int \<Rightarrow> view_type \<Rightarrow> octets \<Rightarrow> oid \<Rightarrow> 'a) \<Rightarrow>
    vacm_mib \<Rightarrow> access_request \<Rightarrow> 'a" where
  "ask f mib q = f mib (rq_securityModel q) (rq_securityName q) (rq_securityLevel q)
     (rq_viewType q) (rq_contextName q) (rq_variableName q)"

fun ask_all :: "(vacm_mib \<times> access_request) list \<Rightarrow> vacm \<Rightarrow> exn option res list" where
  "ask_all [] v = []"
| "ask_all ((mib, q) # qs) v =
     (case ask isAccessAllowed mib q v of (r, v') \<Rightarrow> r # ask_all qs v')"

lemma synced_init: "versions_used mib \<Longrightarrow> synced mib vacm_init"
  by (auto simp: synced_def versions_used_def vacm_init_def eq_commute [of "-1"])

lemma ask_all_from_history:
  assumes "from_history H v" and "\<forall>mib \<in> fst ` set qs. versions_used mib" and "i < length qs"
  shows "\<exists>b. tables_read (H \<union> fst ` set (take (Suc i) qs)) (fst (qs ! i)) b \<and>
    ask_all qs v ! i = ask vacm_decide b (snd (qs ! i))"
  using assms
proof (induction qs arbitrary: H v i)
  case (Cons p qs)
  obtain mib q where p: "p = (mib, q)" by (cases p)
  obtain r v' where r: "ask isAccessAllowed mib q v = (r, v')" by (meson surj_pair)
  have used: "versions_used mib" using Cons.prems(2) p by simp
  note step = isAccessAllowed_from_history [OF used Cons.prems(1)]
  have r': "fst (ask isAccessAllowed mib q v) = r" and v': "snd (ask isAccessAllowed mib q v) = v'"
    using r by simp_all
  show ?case
  proof (cases i)
    case 0
    obtain b where b: "tables_read (insert mib H) mib b" "r = ask vacm_decide b q"
      using step(1) [of "rq_securityModel q" "rq_securityName q" "rq_securityLevel q" "rq_viewType q"
        "rq_contextName q" "rq_variableName q"] r'
      unfolding ask_def by blast
    with 0 show ?thesis by (auto simp: p r)
  next
    case (Suc j)
    have "from_history (insert mib H) v'" using step(2) v' by (auto simp: ask_def)
    from Cons.IH [OF this, of j] Cons.prems Suc show ?thesis by (simp add: p r)
  qed
qed simp

text \<open>
  (C4) An access decision is as fresh as the version numbers of the tables. Over any sequence of
  requests to a new access control model, with the tables changing in any way in between, the answer
  to each request is the decision of a model without caches on four tables, each of which is the
  table as it was at this or an earlier request of the sequence at which it had the version
  number it has now. So whenever no earlier request met one of the tables with the version it has now and
  other rows, the request is answered from the rows of this moment. (A version number is never
  -1: it starts at 0 and is only ever incremented.) The program does change rows without
  changing the version asked for, see \<open>changed_view_unseen\<close>.
\<close>

theorem vacm_caches_follow_versions:
  assumes "\<forall>mib \<in> fst ` set qs. versions_used mib" and "i < length qs"
  shows "(\<exists>b. tables_read (fst ` set (take (Suc i) qs)) (fst (qs ! i)) b \<and>
      ask_all qs vacm_init ! i = ask vacm_decide b (snd (qs ! i))) \<and>
    ((\<forall>c \<in> fst ` set (take i qs). version_tells (fst (qs ! i)) c) \<longrightarrow>
      ask_all qs vacm_init ! i = ask vacm_decide (fst (qs ! i)) (snd (qs ! i)))"
proof -
  obtain b where b: "tables_read (fst ` set (take (Suc i) qs)) (fst (qs ! i)) b"
      "ask_all qs vacm_init ! i = ask vacm_decide b (snd (qs ! i))"
    using ask_all_from_history [OF from_history_init [of "{}"] assms] by auto
  have "version_tells (fst (qs ! i)) (fst (qs ! i))" by (simp add: version_tells_def)
  then have "\<forall>c \<in> fst ` set (take i qs). version_tells (fst (qs ! i)) c \<Longrightarrow>
      \<forall>c \<in> fst ` set (take (Suc i) qs). version_tells (fst (qs ! i)) c"
    using assms(2) by (auto simp: take_Suc_conv_app_nth)
  then show ?thesis using b vacm_decide_tables [OF b(1)] by (auto simp: ask_def)
qed

text \<open>A group that may read what is under 1.3, a request for 1.3.6, and the same view excluded.\<close>

definition a_vacm_mib :: "int \<Rightarrow> int \<Rightarrow> vacm_mib" where
  "a_vacm_mib version type = \<lparr>vm_contextVersion = 0, vm_contexts = [[]], vm_groupVersion = 0,
     vm_groups = [((3, [5]), [1])], vm_accessVersion = 0,
     vm_access = [\<lparr>ar_status = 1, ar_groupName = [1], ar_contextPrefix = [], ar_securityModel = 3,
       ar_securityLevel = 1, ar_contextMatch = 1, ar_readViewName = [10], ar_writeViewName = [11],
       ar_notifyViewName = [12]\<rparr>],
     vm_viewVersion = version, vm_views = [\<lparr>vr_viewName = [10], vr_subtree = [1, 3], vr_mask = [], vr_type = type\<rparr>]\<rparr>"

definition an_access_request :: access_request where
  "an_access_request = \<lparr>rq_securityModel = 3, rq_securityName = [5], rq_securityLevel = 2,
     rq_viewType = read_view, rq_contextName = [], rq_variableName = [1, 3, 6]\<rparr>"

theorem vacm_caches_follow_versions_witness:
  "let qs = [(a_vacm_mib 0 1, an_access_request), (a_vacm_mib 1 2, an_access_request)]
   in ask_all qs vacm_init ! 1 = ask vacm_decide (a_vacm_mib 1 2) an_access_request"
proof -
  have "versions_used (a_vacm_mib n t)" if "n \<noteq> -1" for n t
    using that by (simp add: versions_used_def a_vacm_mib_def)
  moreover have "version_tells (a_vacm_mib 1 2) (a_vacm_mib 0 1)" by (simp add: version_tells_def a_vacm_mib_def)
  ultimately show ?thesis
    using vacm_caches_follow_versions [of "[(a_vacm_mib 0 1, an_access_request), (a_vacm_mib 1 2, an_access_request)]" 1]
    by (simp add: Let_def)
qed

text \<open>
  A change that does not change the version the code looks at goes unseen: where a family's type is
  set to excluded, and only the version of the column \<open>vacmViewTreeFamilyType\<close> moves, what
  the view no longer includes can still be read.
\<close>

lemma changed_view_unseen:
  "ask_all [(a_vacm_mib 0 1, an_access_request), (a_vacm_mib 0 2, an_access_request)] vacm_init = [Inr None, Inr None] \<and>
   ask vacm_decide (a_vacm_mib 0 2) an_access_request = Inl (status notInView)"
  by (simp add: ask_def isAccessAllowed_def vacm_decide_def an_access_request_def a_vacm_mib_def vacm_init_def sm_defs
      refresh_contexts_def refresh_groups_def refresh_access_def refresh_views_def build_access_def addAccessEntry_def
      addView_def dupd_def dget_def getFamilyViewName_def exact_match_def candidates_def better_def build_views_def
      view_entry_of_def ignored_subOids_def view_key_def view_rows_def covers_def in_family_def reaches_def is_prefix_def)

text \<open>
  (C6) The families of a view decide as RFC 3415 says: building the view tree never fails, and
  for a name that reaches every wildcard position of the view's families, the name is in the
  view exactly when some family contains it and the deciding one is an included one, where
  the deciding family is a longest of those that contain the name and, among equally long
  ones, one whose pattern is lexicographically greatest. A name is in a family when it has
  at least the family's length and agrees with it wherever the mask has a one.
\<close>

theorem view_decision:
  assumes "build_views rs = Inr d" and "map_of d v = Some es"
    and "\<forall>r \<in> set rs. vr_viewName r = v \<longrightarrow> reaches name r"
  shows "\<exists>allowed. walk_views name es False = Inr allowed \<and>
    (if allowed
     then \<exists>r \<in> set rs. vr_viewName r = v \<and> in_family (vr_subtree r) (vr_mask r) name \<and> vr_type r = 1 \<and>
       (\<forall>r' \<in> set rs. vr_viewName r' = v \<and> in_family (vr_subtree r') (vr_mask r') name \<longrightarrow>
          row_key r' \<le> row_key r)
     else (\<forall>r \<in> set rs. vr_viewName r = v \<longrightarrow> \<not> in_family (vr_subtree r) (vr_mask r) name) \<or>
       (\<exists>r \<in> set rs. vr_viewName r = v \<and> in_family (vr_subtree r) (vr_mask r) name \<and> vr_type r \<noteq> 1 \<and>
         (\<forall>r' \<in> set rs. vr_viewName r' = v \<and> in_family (vr_subtree r') (vr_mask r') name \<longrightarrow>
            row_key r' \<le> row_key r)))"
proof -
  let ?R = "view_rows rs v"
  have es: "es = map entry ?R"
    using build_views_eq [of rs] assms(1,2) by (auto split: if_splits)
  have R: "set ?R = {r \<in> set rs. vr_viewName r = v}" by (auto simp: view_rows_def)
  then have walk: "walk_views name es False =
    Inr (case filter (covers name) ?R of [] \<Rightarrow> False | x # xs \<Rightarrow> vr_type (last (x # xs)) = 1)"
    using assms(3) by (simp add: es walk_views_entries last_covering)
  show ?thesis
  proof (cases "filter (covers name) ?R = []")
    case True
    then show ?thesis using R unfolding walk by (auto simp: filter_empty_conv covers_def)
  next
    case False
    let ?F = "filter (covers name) ?R"
    have "last ?F \<in> set ?F" using False by (rule last_in_set)
    moreover have "sorted (map row_key ?F)"
      by (simp add: view_rows_def sorted_filter)
    then have "row_key r' \<le> row_key (last ?F)" if "r' \<in> set ?F" for r'
      using that False sorted_map_last_max by metis
    ultimately have "last ?F \<in> set rs" "vr_viewName (last ?F) = v" "covers name (last ?F)"
      "\<forall>r' \<in> set rs. vr_viewName r' = v \<and> covers name r' \<longrightarrow> row_key r' \<le> row_key (last ?F)"
      using R by auto
    then show ?thesis
      unfolding walk using False by (cases ?F) (auto simp: covers_def)
  qed
qed

theorem view_decision_witness:
  "\<exists>allowed. walk_views [1, 3, 9, 5] [([1, 3], [], False), ([1, 3, 0], [2], True)] False = Inr allowed \<and>
    allowed"
proof -
  let ?r1 = "\<lparr>vr_viewName = [7], vr_subtree = [1, 3, 6], vr_mask = [0xC0], vr_type = 1\<rparr>"
  let ?r2 = "\<lparr>vr_viewName = [7], vr_subtree = [1, 3], vr_mask = [], vr_type = 2\<rparr>"
  have b: "build_views [?r1, ?r2] = Inr [([7], [([1, 3], [], False), ([1, 3, 0], [2], True)])]"
    by code_simp
  have r: "\<forall>r \<in> set [?r1, ?r2]. vr_viewName r = [7] \<longrightarrow> reaches [1, 3, 9, 5] r"
    by (simp add: reaches_def)
  have "\<not> mask_bit [0xC0] 2" "mask_bit [0xC0] 0" "mask_bit [0xC0] 1" by (simp_all add: mask_bit_def)
  then have f: "in_family [1, 3, 6] [0xC0] [1, 3, 9, 5]"
    by (auto simp: in_family_def less_Suc_eq numeral_3_eq_3 numeral_2_eq_2 nth_Cons')
  have k: "\<not> row_key ?r1 \<le> row_key ?r2" by (simp add: row_key_def)
  show ?thesis
    using view_decision [OF b _ r, of "[([1, 3], [], False), ([1, 3, 0], [2], True)]"] f k
    by (auto split: if_splits simp del: walk_views.simps)
qed

text \<open>
  When the access entry names a view that no row of the view tree table carries, the access
  control model does not refuse: it returns a status value instead of raising it, for every
  name, and a caller that only looks for the exception takes access for granted.
\<close>

theorem unknown_view_not_refused:
  assumes "contextName \<in> set (vm_contexts mib)"
    and "map_of (rev (vm_groups mib)) (securityModel, securityName) = Some g"
    and "getFamilyViewName (build_access (vm_access mib)) g contextName securityModel securityLevel
      viewType = Inr viewName"
    and "viewName \<notin> vr_viewName ` set (vm_views mib)"
    and "synced mib v"
  shows "fst (isAccessAllowed mib securityModel securityName securityLevel viewType contextName
      variableName v) = Inr (Some (status notInView))"
proof -
  have "view_rows (vm_views mib) viewName = []"
    using assms(4) by (auto simp: view_rows_def filter_empty_conv simp flip: set_empty)
  then show ?thesis
    using assms by (subst isAccessAllowed_decide(1) [of mib]) (simp_all add: vacm_decide_def)
qed

theorem unknown_view_not_refused_witness:
  "fst (isAccessAllowed \<lparr>vm_contextVersion = 0, vm_contexts = [[]], vm_groupVersion = 0,
      vm_groups = [((3, [5]), [1])], vm_accessVersion = 0,
      vm_access = [\<lparr>ar_status = 1, ar_groupName = [1], ar_contextPrefix = [], ar_securityModel = 3,
        ar_securityLevel = 1, ar_contextMatch = 1, ar_readViewName = [10], ar_writeViewName = [11],
        ar_notifyViewName = [12]\<rparr>],
      vm_viewVersion = 0, vm_views = []\<rparr> 3 [5] 1 write_view [] [1, 3, 6, 1] vacm_init) =
    Inr (Some (status notInView))"
  by (rule unknown_view_not_refused [of _ _ _ _ "[1]" _ _ "[11]"])
    (simp, simp, code_simp, simp, simp add: synced_def vacm_init_def)

text \<open>
  A request for a name that is shorter than a wildcard position of some family of the view
  is not refused with an SNMP error but ends in an \<open>IndexError\<close>, whichever the other
  families of the view are.
\<close>

theorem short_name_raises_IndexError:
  assumes "contextName \<in> set (vm_contexts mib)"
    and "map_of (rev (vm_groups mib)) (securityModel, securityName) = Some g"
    and "getFamilyViewName (build_access (vm_access mib)) g contextName securityModel securityLevel
      viewType = Inr viewName"
    and "r \<in> set (vm_views mib)" and "vr_viewName r = viewName"
    and "i < length (vr_subtree r)" and "\<not> mask_bit (vr_mask r) i" and "length variableName \<le> i"
    and "synced mib v"
  shows "fst (isAccessAllowed mib securityModel securityName securityLevel viewType contextName
      variableName v) = Inl IndexError"
proof -
  have "r \<in> set (view_rows (vm_views mib) viewName)" using assms(4,5) by (auto simp: view_rows_def)
  moreover have "\<not> reaches variableName r" using assms(6-8) by (auto simp: reaches_def)
  ultimately show ?thesis
    using assms(1-3,9) by (subst isAccessAllowed_decide(1) [of mib])
      (auto simp: vacm_decide_def Let_def)
qed

theorem short_name_raises_IndexError_witness:
  "fst (isAccessAllowed \<lparr>vm_contextVersion = 0, vm_contexts = [[]], vm_groupVersion = 0,
      vm_groups = [((3, [5]), [1])], vm_accessVersion = 0,
      vm_access = [\<lparr>ar_status = 1, ar_groupName = [1], ar_contextPrefix = [], ar_securityModel = 3,
        ar_securityLevel = 1, ar_contextMatch = 1, ar_readViewName = [10], ar_writeViewName = [11],
        ar_notifyViewName = [12]\<rparr>],
      vm_viewVersion = 0,
      vm_views = [\<lparr>vr_viewName = [10], vr_subtree = [1, 3, 6], vr_mask = [0xC0], vr_type = 1\<rparr>]\<rparr>
      3 [5] 1 read_view [] [1, 3] vacm_init) = Inl IndexError"
  by (rule short_name_raises_IndexError [of _ _ _ _ "[1]" _ _ "[10]"
        "\<lparr>vr_viewName = [10], vr_subtree = [1, 3, 6], vr_mask = [0xC0], vr_type = 1\<rparr>" 2])
    (simp, simp, code_simp, simp, simp, simp, simp add: mask_bit_def, simp,
      simp add: synced_def vacm_init_def)

end
