(* ===== verification/Pdu.thy ===== *)
theory Pdu
  imports Next_Id
begin

text \<open>
  Values, variable bindings and protocol data units: the SMI types of \<open>pysnmp/proto/rfc1155.py\<close>
  and \<open>rfc1902.py\<close>, the PDUs of \<open>rfc1157.py\<close> and \<open>rfc1905.py\<close>, the PDU classes of
  \<open>rfc3411.py\<close>, and the accessors of \<open>pysnmp/proto/api/v1.py\<close> and \<open>v2c.py\<close>.

  The data types are those of the prelude. A field that the ASN.1 schema constrains is checked
  where the accessor checks it, and the violation is pyasn1's error.

  The lemmas give the round trips of the accessors, the wrap-around of the counter types,
  the packing of named bits, and what the rows of a GETBULK response are.
\<close>

section \<open>Values\<close>

text \<open>The constraints the SNMPv2 classes put on their values, checked on construction.\<close>

definition in_range :: "int \<Rightarrow> int \<Rightarrow> int \<Rightarrow> bool" where
  "in_range lo hi x \<longleftrightarrow> lo \<le> x \<and> x \<le> hi"

fun value_ok :: "snmp_value \<Rightarrow> bool" where
  "value_ok (VInteger i) = in_range (-2147483648) 2147483647 i"
| "value_ok (VOctetString s) = (length s \<le> 65535)"
| "value_ok (VIpAddress s) = (length s = 4)"
| "value_ok (VNetworkAddress s) = (length s = 4)"
| "value_ok (VCounter32 i) = in_range 0 4294967295 i"
| "value_ok (VGauge32 i) = in_range 0 4294967295 i"
| "value_ok (VTimeTicks i) = in_range 0 4294967295 i"
| "value_ok (VCounter64 i) = in_range 0 18446744073709551615 i"
| "value_ok _ = True"

text \<open>
  The constraints of the SNMPv1 classes: integers and octet strings have none, and the
  types SNMPv1 does not have are no SNMPv1 values at all.
\<close>

fun v1_value_ok :: "snmp_value \<Rightarrow> bool" where
  "v1_value_ok (VInteger i) = True"
| "v1_value_ok (VOctetString s) = True"
| "v1_value_ok (VCounter64 i) = False"
| "v1_value_ok VNoSuchObject = False"
| "v1_value_ok VNoSuchInstance = False"
| "v1_value_ok VEndOfMibView = False"
| "v1_value_ok v = value_ok v"

text \<open>
  \<open>_WrappingInteger.__add__\<close>: counters and time ticks wrap at their modulus. Adding to a value
  of another type is left to that type; the result of the modulus always meets the range.
\<close>

fun wrapModulus :: "snmp_value \<Rightarrow> int option" where
  "wrapModulus (VCounter32 _) = Some 4294967296"
| "wrapModulus (VTimeTicks _) = Some 4294967296"
| "wrapModulus (VCounter64 _) = Some 18446744073709551616"
| "wrapModulus _ = None"

fun wrapping_add :: "snmp_value \<Rightarrow> int \<Rightarrow> snmp_value option" where
  "wrapping_add (VCounter32 x) d = Some (VCounter32 ((x + d) mod 4294967296))"
| "wrapping_add (VTimeTicks x) d = Some (VTimeTicks ((x + d) mod 4294967296))"
| "wrapping_add (VCounter64 x) d = Some (VCounter64 ((x + d) mod 18446744073709551616))"
| "wrapping_add _ d = None"

text \<open>
  \<open>rfc1155.IpAddress(value)\<close>. Octets and the other octet-string types are taken as they are,
  an object identifier is read through its dotted form, and any other type has no length.
\<close>

fun v1_IpAddress :: "snmp_value \<Rightarrow> octets res" where
  "v1_IpAddress (VOctetString s) = (if length s = 4 then Inr s else Inl ProtocolError)"
| "v1_IpAddress (VIpAddress s) = (if length s = 4 then Inr s else Inl ProtocolError)"
| "v1_IpAddress (VOpaque s) = (if length s = 4 then Inr s else Inl ProtocolError)"
| "v1_IpAddress (VObjectIdentifier name) =
     (if length name \<noteq> 4 then Inl ProtocolError
      else if \<forall>x \<in> set name. x < 256 then Inr (map of_nat name) else Inl ValueError)"
| "v1_IpAddress _ = Inl TypeError"

section \<open>Named bits\<close>

text \<open>
  \<open>Bits.prettyIn\<close> on a list of bit positions, the named values already looked up: bit 0 is the
  high bit of the first octet, and the string is as long as the highest bit needs.
\<close>

definition set_bit_at :: "octets \<Rightarrow> nat \<Rightarrow> octets" where
  "set_bit_at octs v =
     (let d = v div 8; m = v mod 8;
          octs' = (if d \<ge> length octs then octs @ replicate (d - length octs + 1) 0 else octs)
      in octs'[d := or (octs' ! d) (push_bit (7 - m) 1)])"

definition bits_prettyIn :: "nat list \<Rightarrow> octets" where
  "bits_prettyIn bs = foldl set_bit_at [] bs"

text \<open>\<open>Bits.prettyOut\<close>: the positions of the bits that are set, in order.\<close>

definition bits_prettyOut :: "octets \<Rightarrow> nat list" where
  "bits_prettyOut octs =
     [i * 8 + 7 - j. (i, v) \<leftarrow> List.enumerate 0 octs, j \<leftarrow> rev [0..<8], and v (push_bit j 1) \<noteq> 0]"

section \<open>Protocol data units\<close>

text \<open>A PDU as a clone of its class prototype: no component set yet.\<close>

definition pdu_clone :: "pdu_type \<Rightarrow> pdu" where
  "pdu_clone t = \<lparr>p_type = t, p_requestID = 0, p_errorStatus = 0, p_errorIndex = 0, p_varBinds = []\<rparr>"

definition trap_clone :: trap_pdu where
  "trap_clone = \<lparr>t_enterprise = [], t_agentAddr = [], t_genericTrap = 0, t_specificTrap = 0,
     t_timeStamp = 0, t_varBinds = []\<rparr>"

section \<open>PDU classes\<close>

fun readClass :: "pdu_type \<Rightarrow> bool" where
  "readClass t = (t \<in> {GetRequest, GetNextRequest, GetBulkRequest})"

fun writeClass :: "pdu_type \<Rightarrow> bool" where
  "writeClass t = (t = SetRequest)"

fun responseClass :: "pdu_type \<Rightarrow> bool" where
  "responseClass t = (t \<in> {Response, Report})"

fun notificationClass :: "pdu_type \<Rightarrow> bool" where
  "notificationClass t = (t \<in> {Trap, SNMPv2Trap, InformRequest})"

fun internalClass :: "pdu_type \<Rightarrow> bool" where
  "internalClass t = (t = Report)"

fun confirmedClass :: "pdu_type \<Rightarrow> bool" where
  "confirmedClass t = (t \<in> {GetRequest, GetNextRequest, SetRequest, GetBulkRequest, InformRequest})"

fun unconfirmedClass :: "pdu_type \<Rightarrow> bool" where
  "unconfirmedClass t = (t \<in> {Response, Trap, Report, SNMPv2Trap})"

section \<open>Accessors\<close>

text \<open>
  The request identifier and the error index of an SNMPv2 PDU are constrained; an SNMPv1 PDU
  takes any integer.
\<close>

definition max_bindings :: int where
  "max_bindings = 2147483647"

definition v1_setRequestID :: "int \<Rightarrow> pdu \<Rightarrow> pdu" where
  "v1_setRequestID v p = p\<lparr>p_requestID := v\<rparr>"

definition v2_setRequestID :: "int \<Rightarrow> pdu \<Rightarrow> pdu res" where
  "v2_setRequestID v p =
     (if in_range (-2147483648) 2147483647 v then Inr (p\<lparr>p_requestID := v\<rparr>) else Inl PyAsn1Error)"

definition setErrorStatus :: "int \<Rightarrow> pdu \<Rightarrow> pdu" where
  "setErrorStatus v p = p\<lparr>p_errorStatus := v\<rparr>"

definition v1_setErrorIndex :: "int \<Rightarrow> pdu \<Rightarrow> pdu" where
  "v1_setErrorIndex v p = p\<lparr>p_errorIndex := v\<rparr>"

definition v2_setErrorIndex :: "int \<Rightarrow> pdu \<Rightarrow> pdu res" where
  "v2_setErrorIndex v p =
     (if in_range 0 max_bindings v then Inr (p\<lparr>p_errorIndex := v\<rparr>) else Inl PyAsn1Error)"

definition getErrorIndex :: "bool \<Rightarrow> pdu \<Rightarrow> int res" where
  "getErrorIndex muteErrors p =
     (if p_errorIndex p > int (length (p_varBinds p))
      then if muteErrors then Inr (int (length (p_varBinds p))) else Inl ProtocolError
      else Inr (p_errorIndex p))"

definition setVarBinds :: "(oid \<times> snmp_value option) list \<Rightarrow> pdu \<Rightarrow> pdu" where
  "setVarBinds vbs p =
     p\<lparr>p_varBinds := map (\<lambda>(oid, val). (oid, case val of None \<Rightarrow> VNull | Some v \<Rightarrow> v)) vbs\<rparr>"

text \<open>\<open>PDUAPI.setDefaults\<close> draws the request identifier from the generator all PDUs share.\<close>

definition setDefaults :: "pdu \<Rightarrow> (nextid, pdu) sm" where
  "setDefaults p = sbind nextid_call (\<lambda>reqID.
     sret (p\<lparr>p_requestID := int reqID, p_errorStatus := 0, p_errorIndex := 0, p_varBinds := []\<rparr>))"

text \<open>\<open>BulkPDUAPI.setDefaults\<close> draws a second identifier over the first.\<close>

definition bulk_setDefaults :: "pdu \<Rightarrow> (nextid, pdu) sm" where
  "bulk_setDefaults p = sbind (setDefaults p) (\<lambda>p.
     sbind nextid_call (\<lambda>reqID.
     sret (p\<lparr>p_requestID := int reqID, p_errorStatus := 0, p_errorIndex := 10, p_varBinds := []\<rparr>)))"

definition sysUpTime :: oid where "sysUpTime = [1, 3, 6, 1, 2, 1, 1, 3, 0]"
definition snmpTrapAddress :: oid where "snmpTrapAddress = [1, 3, 6, 1, 6, 3, 18, 1, 3, 0]"
definition snmpTrapCommunity :: oid where "snmpTrapCommunity = [1, 3, 6, 1, 6, 3, 18, 1, 4, 0]"
definition snmpTrapOID :: oid where "snmpTrapOID = [1, 3, 6, 1, 6, 3, 1, 1, 4, 1, 0]"
definition snmpTrapEnterprise :: oid where "snmpTrapEnterprise = [1, 3, 6, 1, 6, 3, 1, 1, 4, 3, 0]"

lemmas trap_oids = sysUpTime_def snmpTrapAddress_def snmpTrapCommunity_def snmpTrapOID_def
  snmpTrapEnterprise_def

definition v2_trap_setDefaults :: "pdu \<Rightarrow> (nextid, pdu) sm" where
  "v2_trap_setDefaults p = sbind (setDefaults p) (\<lambda>p.
     sret (setVarBinds [(sysUpTime, Some (VTimeTicks 0)),
       (snmpTrapOID, Some (VObjectIdentifier [1, 3, 6, 1, 6, 3, 1, 1, 5, 1]))] p))"

text \<open>
  \<open>TrapPDUAPI.setDefaults\<close> of SNMPv1; the host's own address, or the unspecified one when it
  cannot be resolved, is a parameter.
\<close>

definition v1_trap_setDefaults :: "octets \<Rightarrow> trap_pdu \<Rightarrow> trap_pdu" where
  "v1_trap_setDefaults networkAddress t = t\<lparr>t_enterprise := [1, 3, 6, 1, 4, 1, 20408],
     t_agentAddr := networkAddress, t_genericTrap := 0, t_specificTrap := 0, t_timeStamp := 0,
     t_varBinds := []\<rparr>"

definition v1_getResponse :: "pdu \<Rightarrow> (nextid, pdu) sm" where
  "v1_getResponse reqPDU = sbind (setDefaults (pdu_clone Response)) (\<lambda>rspPDU.
     sret (v1_setRequestID (p_requestID reqPDU) rspPDU))"

definition v2_getResponse :: "pdu \<Rightarrow> (nextid, pdu) sm" where
  "v2_getResponse reqPDU = sbind (setDefaults (pdu_clone Response)) (\<lambda>rspPDU.
     sres (v2_setRequestID (p_requestID reqPDU) rspPDU))"

text \<open>How a walk that ran off the end, or met a missing instance, is reported.\<close>

definition v1_setEndOfMibError :: "int \<Rightarrow> pdu \<Rightarrow> pdu" where
  "v1_setEndOfMibError errorIndex p = setErrorStatus 2 (v1_setErrorIndex errorIndex p)"

definition v1_setNoSuchInstanceError :: "int \<Rightarrow> pdu \<Rightarrow> pdu" where
  "v1_setNoSuchInstanceError = v1_setEndOfMibError"

text \<open>
  What pyasn1's sequence does with a position it does not have is a parameter.
\<close>

definition set_value_at :: "(int \<Rightarrow> pdu \<Rightarrow> pdu res) \<Rightarrow> snmp_value \<Rightarrow> int \<Rightarrow> pdu \<Rightarrow> pdu res" where
  "set_value_at out_of_range v errorIndex p =
     (if 0 < errorIndex \<and> errorIndex \<le> int (length (p_varBinds p))
      then let i = nat errorIndex - 1 in
        Inr (p\<lparr>p_varBinds := (p_varBinds p)[i := (fst (p_varBinds p ! i), v)]\<rparr>)
      else out_of_range (errorIndex - 1) p)"

definition v2_setEndOfMibError :: "(int \<Rightarrow> pdu \<Rightarrow> pdu res) \<Rightarrow> int \<Rightarrow> pdu \<Rightarrow> pdu res" where
  "v2_setEndOfMibError out_of_range = set_value_at out_of_range VEndOfMibView"

definition v2_setNoSuchInstanceError :: "(int \<Rightarrow> pdu \<Rightarrow> pdu res) \<Rightarrow> int \<Rightarrow> pdu \<Rightarrow> pdu res" where
  "v2_setNoSuchInstanceError out_of_range = set_value_at out_of_range VNoSuchInstance"

section \<open>Tables of bindings\<close>

definition v1_getVarBindTable :: "pdu \<Rightarrow> pdu \<Rightarrow> var_bind list list" where
  "v1_getVarBindTable reqPDU rspPDU =
     (if p_errorStatus rspPDU = 2 then [map (\<lambda>vb. (fst vb, VNull)) (p_varBinds reqPDU)]
      else [p_varBinds rspPDU])"

definition v2_getVarBindTable :: "pdu \<Rightarrow> pdu \<Rightarrow> var_bind list list" where
  "v2_getVarBindTable reqPDU rspPDU = [p_varBinds rspPDU]"

text \<open>Python's \<open>range(0, stop, step)\<close> for a positive step.\<close>

definition py_range :: "nat \<Rightarrow> nat \<Rightarrow> nat list" where
  "py_range stop step = map (\<lambda>k. k * step) [0..<(stop + step - 1) div step]"

text \<open>\<open>BulkPDUAPI.getVarBindTable\<close>; the schema keeps \<open>non-repeaters\<close> from being negative.\<close>

definition bulk_getVarBindTable :: "pdu \<Rightarrow> pdu \<Rightarrow> var_bind list list" where
  "bulk_getVarBindTable reqPDU rspPDU =
     (let reqVarBinds = p_varBinds reqPDU;
          N = min (nat (p_errorStatus reqPDU)) (length reqVarBinds);
          R = length reqVarBinds - N;
          rspVarBinds = p_varBinds rspPDU
      in if R \<noteq> 0 then
           filter (\<lambda>row. length row = N + R)
             (map (\<lambda>i. take N rspVarBinds @ take R (drop (N + i) rspVarBinds))
                (py_range (length rspVarBinds - N) R))
         else if N \<noteq> 0 then [take N rspVarBinds] else [])"

section \<open>Properties of values\<close>

lemma in_range_mod [simp]:
  "in_range 0 4294967295 (x mod 4294967296)"
  "in_range 0 18446744073709551615 (x mod 18446744073709551616)"
  using pos_mod_bound [of 4294967296 x] pos_mod_bound [of 18446744073709551616 x]
  by (auto simp: in_range_def)

text \<open>
  Counters and time ticks never leave their range and count modulo it: whatever is added,
  in however many steps, the value stays valid for its type and differs from the plain sum
  by a multiple of the modulus.
\<close>

theorem counter_wraps:
  assumes "wrapModulus v = Some m"
  shows "\<exists>w. foldl (\<lambda>x d. Option.bind x (\<lambda>x. wrapping_add x d)) (wrapping_add v d) ds = Some w \<and>
    value_ok w \<and> wrapModulus w = Some m \<and> wrapping_add v (sum_list (d # ds)) = Some w"
proof (induction ds arbitrary: d)
  case Nil
  from assms show ?case by (cases v) auto
next
  case (Cons e ds)
  have "Option.bind (wrapping_add v d) (\<lambda>x. wrapping_add x e) = wrapping_add v (d + e)"
    using assms by (cases v) (auto simp: mod_simps algebra_simps)
  with Cons.IH [of "d + e"] show ?case by (simp add: add.assoc)
qed

theorem counter_wraps_witness:
  "\<exists>w. foldl (\<lambda>x d. Option.bind x (\<lambda>x. wrapping_add x d)) (wrapping_add (VCounter32 4294967290) 5)
        [1, 7] = Some w \<and> value_ok w \<and> w = VCounter32 7"
  using counter_wraps [of "VCounter32 4294967290" 4294967296 5 "[1, 7]"] by auto

text \<open>The bit at a position, counted from the high bit of the first octet.\<close>

definition bit_of :: "octets \<Rightarrow> nat \<Rightarrow> bool" where
  "bit_of octs v \<longleftrightarrow> v div 8 < length octs \<and> bit (octs ! (v div 8)) (7 - v mod 8)"

lemma bit_of_set: "bit_of (set_bit_at octs v) u \<longleftrightarrow> u = v \<or> bit_of octs u"
proof -
  have eq: "u div 8 = v div 8 \<and> 7 - u mod 8 = 7 - v mod 8 \<longleftrightarrow> u = v"
  proof
    assume a: "u div 8 = v div 8 \<and> 7 - u mod 8 = 7 - v mod 8"
    moreover have "u mod 8 < 8" "v mod 8 < 8" by simp_all
    ultimately have "u mod 8 = v mod 8" by linarith
    with a show "u = v" by (metis mult_div_mod_eq)
  qed simp
  define octs' where "octs' = (if v div 8 \<ge> length octs
    then octs @ replicate (v div 8 - length octs + 1) 0 else octs)"
  have len: "v div 8 < length octs'" by (auto simp: octs'_def)
  have ext: "bit_of octs' u \<longleftrightarrow> bit_of octs u" for u
    by (auto simp: bit_of_def octs'_def nth_append simp flip: replicate_Suc)
  have "bit (push_bit (7 - v mod 8) (1 :: 8 word)) (7 - u mod 8) \<longleftrightarrow> 7 - u mod 8 = 7 - v mod 8"
    by (auto simp: bit_simps)
  moreover have "set_bit_at octs v = octs'[v div 8 := or (octs' ! (v div 8)) (push_bit (7 - v mod 8) 1)]"
    by (simp add: set_bit_at_def octs'_def Let_def)
  ultimately have "bit_of (set_bit_at octs v) u \<longleftrightarrow> u = v \<or> bit_of octs' u"
    using eq len by (cases "u div 8 = v div 8") (auto simp: bit_of_def bit_or_iff)
  then show ?thesis by (simp add: ext)
qed

lemma bit_of_foldl: "bit_of (foldl set_bit_at octs vs) u \<longleftrightarrow> u \<in> set vs \<or> bit_of octs u"
  by (induction vs arbitrary: octs) (auto simp: bit_of_set)

lemma concat_guard: "concat (map (\<lambda>x. if P x then [f x] else []) xs) = map f (filter P xs)"
  by (induction xs) simp_all

lemma mod_bit_pos:
  assumes "j < (8 :: nat)"
  shows "(n * 8 + 7 - j) div 8 = n" and "7 - (n * 8 + 7 - j) mod 8 = j"
proof -
  have eq: "n * 8 + 7 - j = (7 - j) + n * 8" using assms by simp
  show "(n * 8 + 7 - j) div 8 = n"
    unfolding eq by (subst div_mult_self1) simp_all
  show "7 - (n * 8 + 7 - j) mod 8 = j"
    unfolding eq mod_mult_self1 using assms by simp
qed

lemma bits_prettyOut_filter: "bits_prettyOut octs = filter (bit_of octs) [0..<8 * length octs]"
proof (induction octs rule: rev_induct)
  case Nil
  then show ?case by (simp add: bits_prettyOut_def)
next
  case (snoc w octs)
  let ?n = "length octs"
  have old: "filter (bit_of (octs @ [w])) [0..<8 * ?n] = filter (bit_of octs) [0..<8 * ?n]"
    by (rule filter_cong) (auto simp: bit_of_def nth_append)
  have b: "and w (push_bit j 1) \<noteq> 0 \<longleftrightarrow> bit w j" for j
    by (rule bit_iff_and_push_bit_not_eq_0 [symmetric])
  have run: "[8 * ?n..<8 * ?n + 8] = map (\<lambda>j. ?n * 8 + 7 - j) (rev [0..<8])"
    by (rule nth_equalityI) (simp_all add: rev_nth)
  have "filter (bit_of (octs @ [w])) [8 * ?n..<8 * ?n + 8] =
    map (\<lambda>j. ?n * 8 + 7 - j) (filter (bit w) (rev [0..<8]))"
    unfolding run filter_map comp_def
    by (intro arg_cong [of _ _ "map _"] filter_cong) (auto simp: bit_of_def mod_bit_pos)
  then have "[i * 8 + 7 - j. (i, v) \<leftarrow> [(?n, w)], j \<leftarrow> rev [0..<8], and v (push_bit j 1) \<noteq> 0] =
    filter (bit_of (octs @ [w])) [8 * ?n..<8 * ?n + 8]"
    by (simp only: b concat_guard list.map case_prod_conv concat.simps append_Nil2)
  moreover have "bits_prettyOut (octs @ [w]) = bits_prettyOut octs @
    [i * 8 + 7 - j. (i, v) \<leftarrow> [(?n, w)], j \<leftarrow> rev [0..<8], and v (push_bit j 1) \<noteq> 0]"
    unfolding bits_prettyOut_def
    by (simp only: enumerate_append_eq map_append concat_append enumerate_simps add_0)
  moreover have "[0..<8 * length (octs @ [w])] = [0..<8 * ?n] @ [8 * ?n..<8 * ?n + 8]"
    using upt_add_eq_append [of 0 "8 * ?n" 8] by (simp add: add.commute)
  ultimately show ?case using snoc old by (simp only: filter_append)
qed

text \<open>
  Named bits survive the round trip through octets: reading back the octets that a
  collection of bits packs into gives exactly those bits, each once and in order.
\<close>

theorem bits_roundtrip: "bits_prettyOut (bits_prettyIn bs) = sorted_list_of_set (set bs)"
proof -
  let ?o = "bits_prettyIn bs"
  have b: "bit_of ?o u \<longleftrightarrow> u \<in> set bs" for u
    by (simp add: bits_prettyIn_def bit_of_foldl) (simp add: bit_of_def)
  then have "set (filter (bit_of ?o) [0..<8 * length ?o]) = set bs"
    unfolding bit_of_def by (auto, metis div_less_iff_less_mult mult.commute zero_less_numeral)
  then show ?thesis
    by (metis bits_prettyOut_filter distinct_filter distinct_upt sorted_wrt_filter sorted_upt
        sorted_list_of_set.idem_if_sorted_distinct)
qed

section \<open>Properties of tables\<close>

lemma drop_concat_rows:
  assumes "\<forall>r \<in> set rows. length r = R"
  shows "k < length rows \<Longrightarrow> take R (drop (k * R) (concat rows @ rest)) = rows ! k"
    and "drop (length rows * R) (concat rows @ rest) = rest"
  using assms
proof (induction rows arbitrary: k)
  case (Cons r rows)
  {
    case 1
    with Cons.IH(1) [of "k - 1"] show ?case by (cases k) auto
  next
    case 2
    with Cons.IH(2) show ?case by simp
  }
qed simp_all

lemma div_ceiling:
  "0 < R \<Longrightarrow> r < R \<Longrightarrow> (k * R + r + R - 1) div R = (if r = 0 then k else Suc k)" for R :: nat
proof (cases "r = 0")
  case True
  assume "0 < R"
  then have "k * R + 0 + R - 1 = (R - 1) + k * R" by simp
  with True \<open>0 < R\<close> show ?thesis by (metis div_less div_mult_self1 add.right_neutral
    diff_less less_numeral_extra(1) less_not_refl add_0)
next
  case False
  assume "0 < R" "r < R"
  then have "k * R + r + R - 1 = (r - 1) + Suc k * R" using False by simp
  moreover have "((r - 1) + Suc k * R) div R = Suc k + (r - 1) div R"
    using \<open>0 < R\<close> by (intro div_mult_self1) simp
  ultimately show ?thesis using False \<open>r < R\<close> by simp
qed

text \<open>
  A GETBULK response is cut into rows the way it was put together: when it consists of the
  non-repeaters, some number of complete repetitions and a remainder shorter than a
  repetition, the table has one row per complete repetition, each the non-repeaters followed
  by that repetition, and the remainder is left out.
\<close>

theorem bulk_table_rows:
  assumes "p_errorStatus reqPDU = int (length nr)"
    and "length (p_varBinds reqPDU) = length nr + R" and "0 < R"
    and "p_varBinds rspPDU = nr @ concat rows @ rest"
    and "\<forall>row \<in> set rows. length row = R" and "length rest < R"
  shows "bulk_getVarBindTable reqPDU rspPDU = map (\<lambda>row. nr @ row) rows"
proof -
  let ?n = "length nr" and ?k = "length rows" and ?vbs = "nr @ concat rows @ rest"
  define row where "row = (\<lambda>i. take ?n ?vbs @ take R (drop (?n + i) ?vbs))"
  have len: "length (concat rows) = ?k * R"
    using assms(5) by (induction rows) auto
  have full: "row (i * R) = nr @ rows ! i" if "i < ?k" for i
    using that drop_concat_rows(1) [OF assms(5)] by (simp add: row_def)
  have part: "row (?k * R) = nr @ rest"
    using assms(6) len by (simp add: row_def)
  have range: "py_range (length ?vbs - ?n) R = map (\<lambda>i. i * R) ([0..<?k] @ (if rest = [] then [] else [?k]))"
    using div_ceiling [OF assms(3,6), of ?k] len by (auto simp: py_range_def add.assoc)
  have "map (\<lambda>i. row (i * R)) [0..<?k] = map (\<lambda>i. nr @ rows ! i) [0..<?k]"
    by (rule map_cong) (simp_all only: refl set_upt atLeastLessThan_iff full)
  also have "\<dots> = map (\<lambda>row. nr @ row) rows"
    by (rule nth_equalityI) simp_all
  finally have "map row (py_range (length ?vbs - ?n) R) =
    map (\<lambda>row. nr @ row) rows @ (if rest = [] then [] else [nr @ rest])"
    unfolding range by (simp add: comp_def part)
  then have "filter (\<lambda>row. length row = ?n + R) (map row (py_range (length ?vbs - ?n) R)) =
    map (\<lambda>row. nr @ row) rows"
    using assms(5,6) by (simp add: filter_map comp_def)
  then show ?thesis
    using assms(1-4) by (simp only: bulk_getVarBindTable_def Let_def row_def) auto
qed

theorem bulk_table_rows_witness:
  "bulk_getVarBindTable
     (pdu_clone GetBulkRequest\<lparr>p_errorStatus := 1, p_varBinds := [([1], VNull), ([2], VNull), ([3], VNull)]\<rparr>)
     (pdu_clone Response\<lparr>p_varBinds := [([1], VInteger 0), ([2], VInteger 1), ([3], VInteger 2),
        ([2], VInteger 3), ([3], VInteger 4), ([2], VInteger 5)]\<rparr>) =
   [[([1], VInteger 0), ([2], VInteger 1), ([3], VInteger 2)],
    [([1], VInteger 0), ([2], VInteger 3), ([3], VInteger 4)]]"
  by (subst bulk_table_rows [of _ "[([1], VInteger 0)]" 2 _ "[[([2], VInteger 1), ([3], VInteger 2)],
        [([2], VInteger 3), ([3], VInteger 4)]]" "[([2], VInteger 5)]"]) simp_all

end
