(* ===== verification/MP_Cache.thy ===== *)
theory MP_Cache
  imports State_Store
begin

text \<open>
  The cache of a message processing model, \<open>pysnmp/proto/mpmod/cache.py\<close>: requests being
  served, by state reference; requests sent, by message ID and by the application's handle;
  and the queue by which both expire, counted in timer ticks.

  The lemmas give the invariant that ties the indices to the expiration queue and show that
  every operation keeps it, so that none of the deletions the code performs can fail; that
  both indices are one-shot stores; and how long an entry lives. The index by handle is the
  one part expiry does not maintain.
\<close>

section \<open>Model\<close>

text \<open>The two kinds of entry of the expiration queue, the keys of its inner dictionaries.\<close>

datatype exp_kind = stateReference_key | msgId_key

type_synonym exp_queue = "nat \<rightharpoonup> (exp_kind \<rightharpoonup> nat list)"

text \<open>\<open>msgInfo\<close> of a request sent: the application's handle, and the rest.\<close>

record 'x msg_info =
  mi_sendPduHandle :: nat
  mi_rest :: 'x

record ('r, 'x) mp_cache =
  mc_msgIdIndex :: "nat \<rightharpoonup> 'x msg_info \<times> nat"
  mc_stateReferenceIndex :: "nat \<rightharpoonup> 'r \<times> nat"
  mc_sendPduHandleIdx :: "nat \<rightharpoonup> nat"
  mc_expirationQueue :: exp_queue
  mc_expirationTimer :: nat

definition mp_cache_init :: "('r, 'x) mp_cache" where
  "mp_cache_init = \<lparr>mc_msgIdIndex = Map.empty, mc_stateReferenceIndex = Map.empty,
     mc_sendPduHandleIdx = Map.empty, mc_expirationQueue = Map.empty, mc_expirationTimer = 0\<rparr>"

text \<open>
  Scheduling and unscheduling an entry. The dictionaries the code creates on demand are
  created here too; a deletion of a missing key is a \<open>KeyError\<close>.
\<close>

definition schedule :: "exp_kind \<Rightarrow> nat \<Rightarrow> nat \<Rightarrow> exp_queue \<Rightarrow> exp_queue" where
  "schedule kd expireAt k q =
     (let d = (case q expireAt of None \<Rightarrow> Map.empty | Some d \<Rightarrow> d);
          ks = (case d kd of None \<Rightarrow> [] | Some ks \<Rightarrow> ks)
      in q(expireAt \<mapsto> d(kd \<mapsto> List.insert k ks)))"

definition unschedule :: "exp_kind \<Rightarrow> nat \<Rightarrow> nat \<Rightarrow> exp_queue \<Rightarrow> exp_queue res" where
  "unschedule kd expireAt k q =
     (case q expireAt of
        None \<Rightarrow> Inl KeyError
      | Some d \<Rightarrow>
          (case d kd of
             None \<Rightarrow> Inl KeyError
           | Some ks \<Rightarrow> if k \<in> set ks then Inr (q(expireAt \<mapsto> d(kd \<mapsto> removeAll k ks)))
                       else Inl KeyError))"

definition mp_pushByStateRef :: "nat \<Rightarrow> 'r \<Rightarrow> (('r, 'x) mp_cache, unit) sm" where
  "mp_pushByStateRef k info c =
     (if mc_stateReferenceIndex c k \<noteq> None then (Inl ProtocolError, c)
      else let expireAt = mc_expirationTimer c + 600 in
        (Inr (), c\<lparr>mc_stateReferenceIndex := (mc_stateReferenceIndex c)(k \<mapsto> (info, expireAt)),
                  mc_expirationQueue :=
                    schedule stateReference_key expireAt k (mc_expirationQueue c)\<rparr>))"

definition mp_popByStateRef :: "nat \<Rightarrow> (('r, 'x) mp_cache, 'r) sm" where
  "mp_popByStateRef k c =
     (case mc_stateReferenceIndex c k of
        None \<Rightarrow> (Inl ProtocolError, c)
      | Some (info, expireAt) \<Rightarrow>
          let c1 = c\<lparr>mc_stateReferenceIndex := (mc_stateReferenceIndex c)(k := None)\<rparr> in
          (case unschedule stateReference_key expireAt k (mc_expirationQueue c1) of
             Inl e \<Rightarrow> (Inl e, c1)
           | Inr q \<Rightarrow> (Inr info, c1\<lparr>mc_expirationQueue := q\<rparr>)))"

definition mp_pushByMsgId :: "nat \<Rightarrow> 'x msg_info \<Rightarrow> (('r, 'x) mp_cache, unit) sm" where
  "mp_pushByMsgId k info c =
     (if mc_msgIdIndex c k \<noteq> None then (Inl ProtocolError, c)
      else let expireAt = mc_expirationTimer c + 600 in
        (Inr (), c\<lparr>mc_msgIdIndex := (mc_msgIdIndex c)(k \<mapsto> (info, expireAt)),
                  mc_sendPduHandleIdx := (mc_sendPduHandleIdx c)(mi_sendPduHandle info \<mapsto> k),
                  mc_expirationQueue := schedule msgId_key expireAt k (mc_expirationQueue c)\<rparr>))"

definition mp_popByMsgId :: "nat \<Rightarrow> (('r, 'x) mp_cache, 'x msg_info) sm" where
  "mp_popByMsgId k c =
     (case mc_msgIdIndex c k of
        None \<Rightarrow> (Inl ProtocolError, c)
      | Some (info, expireAt) \<Rightarrow>
          if mc_sendPduHandleIdx c (mi_sendPduHandle info) = None then (Inl KeyError, c)
          else let c1 = c\<lparr>mc_sendPduHandleIdx :=
                            (mc_sendPduHandleIdx c)(mi_sendPduHandle info := None),
                          mc_msgIdIndex := (mc_msgIdIndex c)(k := None)\<rparr> in
          (case unschedule msgId_key expireAt k (mc_expirationQueue c1) of
             Inl e \<Rightarrow> (Inl e, c1)
           | Inr q \<Rightarrow> (Inr info, c1\<lparr>mc_expirationQueue := q\<rparr>)))"

definition mp_popBySendPduHandle :: "nat \<Rightarrow> (('r, 'x) mp_cache, unit) sm" where
  "mp_popBySendPduHandle h c =
     (case mc_sendPduHandleIdx c h of
        None \<Rightarrow> (Inr (), c)
      | Some k \<Rightarrow> sbind (mp_popByMsgId k) (\<lambda>_. sret ()) c)"

text \<open>\<open>del index[k]\<close> for every \<open>k\<close> of a list.\<close>

fun del_all :: "nat list \<Rightarrow> (nat \<rightharpoonup> 'v) \<Rightarrow> unit res \<times> (nat \<rightharpoonup> 'v)" where
  "del_all [] m = (Inr (), m)"
| "del_all (k # ks) m = (if m k = None then (Inl KeyError, m) else del_all ks (m(k := None)))"

definition due :: "exp_kind \<Rightarrow> ('r, 'x) mp_cache \<Rightarrow> nat list" where
  "due kd c = (case mc_expirationQueue c (mc_expirationTimer c) of
     None \<Rightarrow> [] | Some d \<Rightarrow> (case d kd of None \<Rightarrow> [] | Some ks \<Rightarrow> ks))"

definition mp_expireCaches :: "(('r, 'x) mp_cache, unit) sm" where
  "mp_expireCaches c =
     (case del_all (due stateReference_key c) (mc_stateReferenceIndex c) of
        (Inl e, m) \<Rightarrow> (Inl e, c\<lparr>mc_stateReferenceIndex := m\<rparr>)
      | (Inr _, m) \<Rightarrow>
          let c1 = c\<lparr>mc_stateReferenceIndex := m\<rparr> in
          (case del_all (due msgId_key c1) (mc_msgIdIndex c1) of
             (Inl e, m) \<Rightarrow> (Inl e, c1\<lparr>mc_msgIdIndex := m\<rparr>)
           | (Inr _, m) \<Rightarrow>
               (Inr (), c1\<lparr>mc_msgIdIndex := m,
                  mc_expirationQueue := (mc_expirationQueue c1)(mc_expirationTimer c1 := None),
                  mc_expirationTimer := mc_expirationTimer c1 + 1\<rparr>)))"

text \<open>\<open>AbstractMessageProcessingModel.releaseStateInformation\<close> swallows the miss.\<close>

definition mp_releaseStateInformation :: "nat \<Rightarrow> (('r, 'x) mp_cache, unit) sm" where
  "mp_releaseStateInformation h =
     scatch (mp_popBySendPduHandle h) (\<lambda>e. if is_ProtocolError e then sret () else sraise e)"

section \<open>The expiration queue\<close>

definition scheduled :: "exp_queue \<Rightarrow> exp_kind \<Rightarrow> nat \<Rightarrow> nat set" where
  "scheduled q kd e = (case q e of None \<Rightarrow> {}
     | Some d \<Rightarrow> (case d kd of None \<Rightarrow> {} | Some ks \<Rightarrow> set ks))"

definition queue_distinct :: "exp_queue \<Rightarrow> bool" where
  "queue_distinct q \<longleftrightarrow> (\<forall>e d kd ks. q e = Some d \<longrightarrow> d kd = Some ks \<longrightarrow> distinct ks)"

lemma scheduled_schedule:
  "scheduled (schedule kd e k q) kd' e' =
     (if kd' = kd \<and> e' = e then insert k (scheduled q kd e) else scheduled q kd' e')"
  by (auto simp: scheduled_def schedule_def Let_def split: option.splits)

lemma queue_distinct_schedule: "queue_distinct q \<Longrightarrow> queue_distinct (schedule kd e k q)"
  by (fastforce simp: queue_distinct_def schedule_def Let_def split: option.splits if_splits)

definition only_unscheduled :: "exp_kind \<Rightarrow> nat \<Rightarrow> nat \<Rightarrow> exp_queue \<Rightarrow> exp_queue \<Rightarrow> bool" where
  "only_unscheduled kd e k q q' \<longleftrightarrow> (\<forall>kd' e'. scheduled q' kd' e' =
     (if kd' = kd \<and> e' = e then scheduled q kd e - {k} else scheduled q kd' e'))"

lemma unschedule_ok:
  assumes "k \<in> scheduled q kd e" and "queue_distinct q"
  shows "\<exists>q'. unschedule kd e k q = Inr q' \<and> queue_distinct q' \<and> only_unscheduled kd e k q q'"
proof -
  from assms(1) obtain d ks where q: "q e = Some d" "d kd = Some ks" "k \<in> set ks"
    by (auto simp: scheduled_def split: option.splits)
  let ?q = "q(e \<mapsto> d(kd \<mapsto> removeAll k ks))"
  have "queue_distinct ?q"
    using assms(2) q unfolding queue_distinct_def
    by (auto simp: distinct_removeAll split: if_splits)
  with q show ?thesis by (intro exI [of _ ?q]) (auto simp: unschedule_def scheduled_def only_unscheduled_def)
qed

lemma set_due: "set (due kd c) = scheduled (mc_expirationQueue c) kd (mc_expirationTimer c)"
  by (auto simp: due_def scheduled_def split: option.splits)

lemma distinct_due: "queue_distinct (mc_expirationQueue c) \<Longrightarrow> distinct (due kd c)"
  by (auto simp: due_def queue_distinct_def split: option.splits)

lemma del_all_ok:
  "distinct ks \<Longrightarrow> set ks \<subseteq> dom m \<Longrightarrow> del_all ks m = (Inr (), m |` (- set ks))"
proof (induction ks arbitrary: m)
  case (Cons k ks)
  have "del_all ks (m(k := None)) = (Inr (), (m(k := None)) |` (- set ks))"
    using Cons.prems by (intro Cons.IH) auto
  moreover have "(m(k := None)) |` (- set ks) = m |` (- set (k # ks))"
    by (auto simp: restrict_map_def)
  moreover have "m k \<noteq> None" using Cons.prems by auto
  ultimately show ?case by (simp only: del_all.simps if_False)
qed (simp add: restrict_map_def)

section \<open>Invariant\<close>

definition index_ok :: "exp_kind \<Rightarrow> (nat \<rightharpoonup> 'v \<times> nat) \<Rightarrow> exp_queue \<Rightarrow> nat \<Rightarrow> bool" where
  "index_ok kd m q t \<longleftrightarrow>
     (\<forall>e k. k \<in> scheduled q kd e \<longleftrightarrow> (\<exists>v. m k = Some (v, e))) \<and>
     (\<forall>k v e. m k = Some (v, e) \<longrightarrow> t \<le> e \<and> e \<le> t + 600)"

definition mp_inv :: "('r, 'x) mp_cache \<Rightarrow> bool" where
  "mp_inv c \<longleftrightarrow> queue_distinct (mc_expirationQueue c) \<and>
     index_ok stateReference_key (mc_stateReferenceIndex c) (mc_expirationQueue c) (mc_expirationTimer c) \<and>
     index_ok msgId_key (mc_msgIdIndex c) (mc_expirationQueue c) (mc_expirationTimer c) \<and>
     (\<forall>k info e. mc_msgIdIndex c k = Some (info, e) \<longrightarrow>
        mc_sendPduHandleIdx c (mi_sendPduHandle info) = Some k)"

lemma index_ok_insert:
  "index_ok kd m q t \<Longrightarrow> m k = None \<Longrightarrow>
   index_ok kd (m(k \<mapsto> (v, t + 600))) (schedule kd (t + 600) k q) t"
  by (auto simp: index_ok_def scheduled_schedule)

lemma index_ok_other_schedule:
  "index_ok kd m q t \<Longrightarrow> kd' \<noteq> kd \<Longrightarrow> index_ok kd m (schedule kd' e k q) t"
  by (auto simp: index_ok_def scheduled_schedule)

lemma index_ok_delete:
  assumes "index_ok kd m q t" and "m k = Some (v, e)"
    and "only_unscheduled kd e k q q'"
  shows "index_ok kd (m(k := None)) q' t"
  using assms by (auto simp: index_ok_def only_unscheduled_def)

lemma index_ok_other_unscheduled:
  "index_ok kd m q t \<Longrightarrow> only_unscheduled kd' e k q q' \<Longrightarrow> kd \<noteq> kd' \<Longrightarrow> index_ok kd m q' t"
  by (auto simp: index_ok_def only_unscheduled_def)

lemma index_ok_tick:
  assumes "index_ok kd m q t"
  shows "index_ok kd (m |` (- scheduled q kd t)) (q(t := None)) (t + 1)"
proof -
  have s: "scheduled (q(t := None)) kd e = (if e = t then {} else scheduled q kd e)" for e
    by (simp add: scheduled_def)
  have "t + 1 \<le> e \<and> e \<le> t + 1 + 600" if "m k = Some (v, e)" "e \<noteq> t" for k v e
    using assms that unfolding index_ok_def by fastforce
  then show ?thesis
    using assms unfolding index_ok_def s by (auto simp: restrict_map_def split: if_splits)
qed

lemma mp_inv_init: "mp_inv mp_cache_init"
  by (auto simp: mp_inv_def mp_cache_init_def index_ok_def queue_distinct_def scheduled_def)

section \<open>The operations under the invariant\<close>

lemma mp_miss [simp]:
  "mc_stateReferenceIndex c k = None \<Longrightarrow> mp_popByStateRef k c = (Inl ProtocolError, c)"
  "mc_msgIdIndex c k = None \<Longrightarrow> mp_popByMsgId k c = (Inl ProtocolError, c)"
  by (simp_all add: mp_popByStateRef_def mp_popByMsgId_def)

lemma mp_dup [simp]:
  "mc_stateReferenceIndex c k = Some p \<Longrightarrow> mp_pushByStateRef k i c = (Inl ProtocolError, c)"
  "mc_msgIdIndex c k = Some p' \<Longrightarrow> mp_pushByMsgId k i' c = (Inl ProtocolError, c)"
  by (simp_all add: mp_pushByStateRef_def mp_pushByMsgId_def)

lemma mp_popByMsgId_Inr:
  "mp_popByMsgId k c = (Inr info, c') \<Longrightarrow>
     (\<exists>e. mc_msgIdIndex c k = Some (info, e)) \<and> mc_msgIdIndex c' k = None"
  by (auto simp: mp_popByMsgId_def Let_def split: option.splits prod.splits if_splits sum.splits)

lemma mp_popByStateRef_gone:
  "mp_popByStateRef k c = (r, c') \<Longrightarrow> mc_stateReferenceIndex c' k = None"
  by (auto simp: mp_popByStateRef_def Let_def split: option.splits prod.splits sum.splits)

lemma mp_popByStateRef_Inr:
  "mp_popByStateRef k c = (Inr rq, c') \<Longrightarrow> \<exists>e. mc_stateReferenceIndex c k = Some (rq, e)"
  by (auto simp: mp_popByStateRef_def Let_def split: option.splits prod.splits sum.splits)

lemma mp_pushByMsgId_Inr:
  "mp_pushByMsgId k info c = (Inr (), c') \<Longrightarrow> \<exists>e. mc_msgIdIndex c' k = Some (info, e)"
  by (auto simp: mp_pushByMsgId_def Let_def split: if_splits)

lemma mp_pushByStateRef_ok:
  assumes "mp_inv c" and "mc_stateReferenceIndex c k = None"
  shows "\<exists>c'. mp_pushByStateRef k info c = (Inr (), c') \<and> mp_inv c' \<and>
    mc_stateReferenceIndex c' =
      (mc_stateReferenceIndex c)(k \<mapsto> (info, mc_expirationTimer c + 600)) \<and>
    mc_msgIdIndex c' = mc_msgIdIndex c \<and> mc_sendPduHandleIdx c' = mc_sendPduHandleIdx c \<and>
    mc_expirationTimer c' = mc_expirationTimer c"
  using assms
  by (simp add: mp_pushByStateRef_def Let_def mp_inv_def queue_distinct_schedule
      index_ok_insert index_ok_other_schedule)

lemma mp_popByStateRef_ok:
  assumes "mp_inv c" and "mc_stateReferenceIndex c k = Some (info, e)"
  shows "\<exists>c'. mp_popByStateRef k c = (Inr info, c') \<and> mp_inv c' \<and>
    mc_stateReferenceIndex c' = (mc_stateReferenceIndex c)(k := None) \<and>
    mc_msgIdIndex c' = mc_msgIdIndex c"
proof -
  from assms have q: "queue_distinct (mc_expirationQueue c)"
    and i: "index_ok stateReference_key (mc_stateReferenceIndex c) (mc_expirationQueue c) (mc_expirationTimer c)"
    by (auto simp: mp_inv_def)
  have sch: "k \<in> scheduled (mc_expirationQueue c) stateReference_key e"
    using i assms(2) by (auto simp: index_ok_def)
  obtain q' where q': "unschedule stateReference_key e k (mc_expirationQueue c) = Inr q'"
    "queue_distinct q'"
    "only_unscheduled stateReference_key e k (mc_expirationQueue c) q'"
    using unschedule_ok [OF sch q] by auto
  have "index_ok stateReference_key ((mc_stateReferenceIndex c)(k := None)) q' (mc_expirationTimer c)"
    by (rule index_ok_delete [OF i assms(2) q'(3)])
  moreover have "index_ok msgId_key (mc_msgIdIndex c) q' (mc_expirationTimer c)"
    using assms(1) by (intro index_ok_other_unscheduled [OF _ q'(3)]) (simp_all add: mp_inv_def)
  ultimately show ?thesis
    using assms q' by (auto simp: mp_popByStateRef_def Let_def mp_inv_def)
qed

text \<open>A message ID is pushed with a handle that no request still waiting holds.\<close>

definition handle_free :: "('r, 'x) mp_cache \<Rightarrow> nat \<Rightarrow> bool" where
  "handle_free c h \<longleftrightarrow>
     (\<forall>k info e. mc_msgIdIndex c k = Some (info, e) \<longrightarrow> mi_sendPduHandle info \<noteq> h)"

lemma mp_pushByMsgId_ok:
  assumes "mp_inv c" and "mc_msgIdIndex c k = None" and "handle_free c (mi_sendPduHandle info)"
  shows "\<exists>c'. mp_pushByMsgId k info c = (Inr (), c') \<and> mp_inv c' \<and>
    mc_msgIdIndex c' = (mc_msgIdIndex c)(k \<mapsto> (info, mc_expirationTimer c + 600)) \<and>
    mc_sendPduHandleIdx c' = (mc_sendPduHandleIdx c)(mi_sendPduHandle info \<mapsto> k) \<and>
    mc_stateReferenceIndex c' = mc_stateReferenceIndex c \<and>
    mc_expirationTimer c' = mc_expirationTimer c"
  using assms
  by (simp add: mp_pushByMsgId_def Let_def mp_inv_def queue_distinct_schedule
      index_ok_insert index_ok_other_schedule handle_free_def)

lemma mp_popByMsgId_ok:
  assumes "mp_inv c" and "mc_msgIdIndex c k = Some (info, e)"
  shows "\<exists>c'. mp_popByMsgId k c = (Inr info, c') \<and> mp_inv c' \<and>
    mc_msgIdIndex c' = (mc_msgIdIndex c)(k := None) \<and>
    mc_sendPduHandleIdx c' = (mc_sendPduHandleIdx c)(mi_sendPduHandle info := None) \<and>
    mc_stateReferenceIndex c' = mc_stateReferenceIndex c"
proof -
  from assms have q: "queue_distinct (mc_expirationQueue c)"
    and i: "index_ok msgId_key (mc_msgIdIndex c) (mc_expirationQueue c) (mc_expirationTimer c)"
    and h: "\<And>k info e. mc_msgIdIndex c k = Some (info, e) \<Longrightarrow>
      mc_sendPduHandleIdx c (mi_sendPduHandle info) = Some k"
    by (auto simp: mp_inv_def)
  have sch: "k \<in> scheduled (mc_expirationQueue c) msgId_key e"
    using i assms(2) by (auto simp: index_ok_def)
  obtain q' where q': "unschedule msgId_key e k (mc_expirationQueue c) = Inr q'"
    "queue_distinct q'"
    "only_unscheduled msgId_key e k (mc_expirationQueue c) q'"
    using unschedule_ok [OF sch q] by auto
  have "index_ok msgId_key ((mc_msgIdIndex c)(k := None)) q' (mc_expirationTimer c)"
    by (rule index_ok_delete [OF i assms(2) q'(3)])
  moreover have "index_ok stateReference_key (mc_stateReferenceIndex c) q' (mc_expirationTimer c)"
    using assms(1) by (intro index_ok_other_unscheduled [OF _ q'(3)]) (simp_all add: mp_inv_def)
  moreover have "mi_sendPduHandle info' \<noteq> mi_sendPduHandle info"
    if "mc_msgIdIndex c k' = Some (info', e')" "k' \<noteq> k" for k' info' e'
    using h [OF that(1)] h [OF assms(2)] that(2) by auto
  ultimately show ?thesis
    using q' h [OF assms(2)] assms(2) h
    by (auto simp: mp_popByMsgId_def Let_def mp_inv_def split: if_splits)
qed

lemma mp_expireCaches_ok:
  assumes "mp_inv c"
  shows "mp_expireCaches c = (Inr (), c\<lparr>
    mc_stateReferenceIndex := mc_stateReferenceIndex c
      |` (- scheduled (mc_expirationQueue c) stateReference_key (mc_expirationTimer c)),
    mc_msgIdIndex := mc_msgIdIndex c
      |` (- scheduled (mc_expirationQueue c) msgId_key (mc_expirationTimer c)),
    mc_expirationQueue := (mc_expirationQueue c)(mc_expirationTimer c := None),
    mc_expirationTimer := mc_expirationTimer c + 1\<rparr>) \<and> mp_inv (snd (mp_expireCaches c))"
proof -
  have q: "queue_distinct (mc_expirationQueue c)" using assms by (simp add: mp_inv_def)
  have i: "index_ok stateReference_key (mc_stateReferenceIndex c) (mc_expirationQueue c) (mc_expirationTimer c)"
    "index_ok msgId_key (mc_msgIdIndex c) (mc_expirationQueue c) (mc_expirationTimer c)"
    using assms by (simp_all add: mp_inv_def)
  have sr: "del_all (due stateReference_key c) (mc_stateReferenceIndex c) = (Inr (),
      mc_stateReferenceIndex c |` (- set (due stateReference_key c)))"
    using i(1) distinct_due [OF q] by (intro del_all_ok) (auto simp: index_ok_def set_due)
  have mi: "del_all (due msgId_key c) (mc_msgIdIndex c) = (Inr (),
      mc_msgIdIndex c |` (- set (due msgId_key c)))"
    using i(2) distinct_due [OF q] by (intro del_all_ok) (auto simp: index_ok_def set_due)
  have due: "due msgId_key (c\<lparr>mc_stateReferenceIndex := m\<rparr>) = due msgId_key c" for m
    by (simp add: due_def)
  have eq: "mp_expireCaches c = (Inr (), c\<lparr>
    mc_stateReferenceIndex := mc_stateReferenceIndex c
      |` (- scheduled (mc_expirationQueue c) stateReference_key (mc_expirationTimer c)),
    mc_msgIdIndex := mc_msgIdIndex c
      |` (- scheduled (mc_expirationQueue c) msgId_key (mc_expirationTimer c)),
    mc_expirationQueue := (mc_expirationQueue c)(mc_expirationTimer c := None),
    mc_expirationTimer := mc_expirationTimer c + 1\<rparr>)"
    by (simp add: mp_expireCaches_def sr due mi Let_def set_due)
  moreover have "queue_distinct ((mc_expirationQueue c)(t := None))" for t
    using q by (auto simp: queue_distinct_def)
  ultimately show ?thesis
    using index_ok_tick [OF i(1)] index_ok_tick [OF i(2)] assms
    by (auto simp: mp_inv_def restrict_map_def split: if_splits)
qed

section \<open>Both indices are one-shot stores\<close>

interpretation sr: one_shot_store mp_pushByStateRef mp_popByStateRef
  "\<lambda>c k. map_option fst (mc_stateReferenceIndex c k)" "\<lambda>_ _ _. True" mp_inv
proof unfold_locales
  fix c :: "('r, 'x) mp_cache" and k d
  assume inv: "mp_inv c"
  show "\<exists>c'. mp_pushByStateRef k d c = (Inr (), c') \<and> mp_inv c' \<and>
      (\<lambda>k. map_option fst (mc_stateReferenceIndex c' k)) =
      (\<lambda>k. map_option fst (mc_stateReferenceIndex c k))(k \<mapsto> d)"
    if "map_option fst (mc_stateReferenceIndex c k) = None"
    using mp_pushByStateRef_ok [OF inv, of k d] that by (auto simp: fun_eq_iff)
  show "\<exists>c'. mp_popByStateRef k c = (Inr d, c') \<and> mp_inv c' \<and>
      (\<lambda>k. map_option fst (mc_stateReferenceIndex c' k)) =
      (\<lambda>k. map_option fst (mc_stateReferenceIndex c k))(k := None)"
    if "map_option fst (mc_stateReferenceIndex c k) = Some d"
    using mp_popByStateRef_ok [OF inv, of k d] that by (auto simp: fun_eq_iff)
  show "mp_popByStateRef k c = (Inl ProtocolError, c)"
    if "map_option fst (mc_stateReferenceIndex c k) = None"
    using that by simp
qed

interpretation mi: one_shot_store mp_pushByMsgId mp_popByMsgId
  "\<lambda>c k. map_option fst (mc_msgIdIndex c k)" "\<lambda>c _ d. handle_free c (mi_sendPduHandle d)" mp_inv
proof unfold_locales
  fix c :: "('r, 'x) mp_cache" and k d
  assume inv: "mp_inv c"
  show "\<exists>c'. mp_pushByMsgId k d c = (Inr (), c') \<and> mp_inv c' \<and>
      (\<lambda>k. map_option fst (mc_msgIdIndex c' k)) =
      (\<lambda>k. map_option fst (mc_msgIdIndex c k))(k \<mapsto> d)"
    if "map_option fst (mc_msgIdIndex c k) = None" "handle_free c (mi_sendPduHandle d)"
    using mp_pushByMsgId_ok [OF inv, of k d] that by (auto simp: fun_eq_iff)
  show "\<exists>c'. mp_popByMsgId k c = (Inr d, c') \<and> mp_inv c' \<and>
      (\<lambda>k. map_option fst (mc_msgIdIndex c' k)) =
      (\<lambda>k. map_option fst (mc_msgIdIndex c k))(k := None)"
    if "map_option fst (mc_msgIdIndex c k) = Some d"
    using mp_popByMsgId_ok [OF inv, of k d] that by (auto simp: fun_eq_iff)
  show "mp_popByMsgId k c = (Inl ProtocolError, c)"
    if "map_option fst (mc_msgIdIndex c k) = None"
    using that by simp
qed

section \<open>Time\<close>

fun mp_ticks :: "nat \<Rightarrow> (('r, 'x) mp_cache, unit) sm" where
  "mp_ticks 0 = sret ()"
| "mp_ticks (Suc n) = sbind mp_expireCaches (\<lambda>_. mp_ticks n)"

text \<open>After \<open>n\<close> ticks, an index holds the entries due at or after the new time.\<close>

definition still_due :: "nat \<Rightarrow> (nat \<rightharpoonup> 'v \<times> nat) \<Rightarrow> nat \<rightharpoonup> 'v \<times> nat" where
  "still_due t m k = (case m k of Some (v, e) \<Rightarrow> if t \<le> e then Some (v, e) else None | None \<Rightarrow> None)"

lemma still_due_tick:
  assumes "index_ok kd m q t" and "t < t'"
  shows "still_due t' (m |` (- scheduled q kd t)) = still_due t' m"
proof
  fix k
  have "\<exists>v. m k = Some (v, t)" if "k \<in> scheduled q kd t"
    using assms(1) that by (simp add: index_ok_def)
  with assms(2) show "still_due t' (m |` (- scheduled q kd t)) k = still_due t' m k"
    by (cases "k \<in> scheduled q kd t") (auto simp: still_due_def)
qed

lemma still_due_now: "index_ok kd m q t \<Longrightarrow> still_due t m = m"
  by (fastforce simp: still_due_def index_ok_def fun_eq_iff split: option.splits)

lemma mp_ticks_ok:
  assumes "mp_inv c"
  shows "\<exists>c'. mp_ticks n c = (Inr (), c') \<and> mp_inv c' \<and>
    mc_expirationTimer c' = mc_expirationTimer c + n \<and>
    mc_sendPduHandleIdx c' = mc_sendPduHandleIdx c \<and>
    mc_stateReferenceIndex c' = still_due (mc_expirationTimer c + n) (mc_stateReferenceIndex c) \<and>
    mc_msgIdIndex c' = still_due (mc_expirationTimer c + n) (mc_msgIdIndex c)"
  using assms
proof (induction n arbitrary: c)
  case 0
  then show ?case
    by (auto simp: sret_def mp_inv_def dest: still_due_now)
next
  case (Suc n)
  obtain c1 where e: "mp_expireCaches c = (Inr (), c1)" "mp_inv c1"
    and f: "mc_expirationTimer c1 = mc_expirationTimer c + 1"
      "mc_sendPduHandleIdx c1 = mc_sendPduHandleIdx c"
      "mc_stateReferenceIndex c1 = mc_stateReferenceIndex c
         |` (- scheduled (mc_expirationQueue c) stateReference_key (mc_expirationTimer c))"
      "mc_msgIdIndex c1 = mc_msgIdIndex c
         |` (- scheduled (mc_expirationQueue c) msgId_key (mc_expirationTimer c))"
    using mp_expireCaches_ok [OF Suc.prems] by auto
  have i: "index_ok stateReference_key (mc_stateReferenceIndex c) (mc_expirationQueue c) (mc_expirationTimer c)"
    "index_ok msgId_key (mc_msgIdIndex c) (mc_expirationQueue c) (mc_expirationTimer c)"
    using Suc.prems by (simp_all add: mp_inv_def)
  have t: "mc_expirationTimer c < mc_expirationTimer c + Suc n" by simp
  show ?case
    using Suc.IH [OF e(2)] still_due_tick [OF i(1) t] still_due_tick [OF i(2) t]
    by (simp add: sbind_def e(1) f)
qed

section \<open>Every use of the cache\<close>

datatype ('r, 'x) mp_op =
    PushState nat 'r | PopState nat | PushMsg nat "'x msg_info" | PopMsg nat
  | PopHandle nat | ReleaseHandle nat | Tick

fun mp_exec :: "('r, 'x) mp_op \<Rightarrow> (('r, 'x) mp_cache, unit) sm" where
  "mp_exec (PushState k i) = mp_pushByStateRef k i"
| "mp_exec (PopState k) = sbind (mp_popByStateRef k) (\<lambda>_. sret ())"
| "mp_exec (PushMsg k i) = mp_pushByMsgId k i"
| "mp_exec (PopMsg k) = sbind (mp_popByMsgId k) (\<lambda>_. sret ())"
| "mp_exec (PopHandle h) = mp_popBySendPduHandle h"
| "mp_exec (ReleaseHandle h) = mp_releaseStateInformation h"
| "mp_exec Tick = mp_expireCaches"

text \<open>
  The only discipline asked of the caller: a request is sent under a handle that is not
  waiting already, which is how the dispatcher draws them.
\<close>

fun mp_allowed :: "('r, 'x) mp_cache \<Rightarrow> ('r, 'x) mp_op \<Rightarrow> bool" where
  "mp_allowed c (PushMsg k i) = handle_free c (mi_sendPduHandle i)"
| "mp_allowed c _ = True"

inductive mp_reachable :: "('r, 'x) mp_cache \<Rightarrow> bool" where
  start: "mp_reachable mp_cache_init"
| step: "mp_reachable c \<Longrightarrow> mp_allowed c op \<Longrightarrow> mp_exec op c = (r, c') \<Longrightarrow> mp_reachable c'"

lemma mp_popBySendPduHandle_cases:
  assumes "mp_inv c"
  shows "(\<exists>c'. mp_popBySendPduHandle h c = (Inr (), c') \<and> mp_inv c') \<or>
    mp_popBySendPduHandle h c = (Inl ProtocolError, c)"
proof (cases "mc_sendPduHandleIdx c h")
  case (Some k)
  then show ?thesis
  proof (cases "mc_msgIdIndex c k")
    case None
    with Some show ?thesis by (simp add: mp_popBySendPduHandle_def sbind_def)
  next
    case (Some ie)
    obtain i e where "ie = (i, e)" by fastforce
    with Some \<open>mc_sendPduHandleIdx c h = Some k\<close> mp_popByMsgId_ok [OF assms, of k i e]
    show ?thesis by (auto simp: mp_popBySendPduHandle_def sbind_def sret_def)
  qed
qed (simp add: mp_popBySendPduHandle_def assms)

lemma mp_exec_ok:
  assumes "mp_inv c" and "mp_allowed c op"
  shows "(\<exists>c'. mp_exec op c = (Inr (), c') \<and> mp_inv c') \<or> mp_exec op c = (Inl ProtocolError, c)"
proof (cases op)
  case (PushState k i)
  then show ?thesis
    using mp_pushByStateRef_ok [OF assms(1), of k i]
    by (cases "mc_stateReferenceIndex c k") auto
next
  case (PopState k)
  then show ?thesis
    using mp_popByStateRef_ok [OF assms(1), of k]
    by (cases "mc_stateReferenceIndex c k") (fastforce simp: sbind_def sret_def)+
next
  case (PushMsg k i)
  then show ?thesis
    using mp_pushByMsgId_ok [OF assms(1), of k i] assms(2)
    by (cases "mc_msgIdIndex c k") auto
next
  case (PopMsg k)
  then show ?thesis
    using mp_popByMsgId_ok [OF assms(1), of k]
    by (cases "mc_msgIdIndex c k") (fastforce simp: sbind_def sret_def)+
next
  case (PopHandle h)
  then show ?thesis using mp_popBySendPduHandle_cases [OF assms(1), of h] by simp
next
  case (ReleaseHandle h)
  then show ?thesis
    using mp_popBySendPduHandle_cases [OF assms(1), of h] assms(1)
    by (auto simp: mp_releaseStateInformation_def scatch_def sret_def)
next
  case Tick
  then show ?thesis using mp_expireCaches_ok [OF assms(1)] by auto
qed

lemma mp_reachable_inv: "mp_reachable c \<Longrightarrow> mp_inv c"
proof (induction rule: mp_reachable.induct)
  case start
  show ?case by (rule mp_inv_init)
next
  case (step c op r c')
  then show ?case using mp_exec_ok [of c op] by auto
qed

section \<open>Properties\<close>

text \<open>
  (C39) However a message processing model uses its cache, sending each request under a handle
  that is not already waiting, no operation ever fails on a missing key: it succeeds, or it
  raises the \<open>ProtocolError\<close> its documentation promises and leaves the cache as it was.
\<close>

theorem mp_cache_no_key_error:
  assumes "mp_reachable c" and "mp_allowed c op"
  shows "(\<exists>c'. mp_exec op c = (Inr (), c') \<and> mp_reachable c') \<or> mp_exec op c = (Inl ProtocolError, c)"
  using mp_exec_ok [OF mp_reachable_inv [OF assms(1)] assms(2)] mp_reachable.step [OF assms]
  by blast

theorem mp_cache_no_key_error_witness:
  "(\<exists>c'. mp_exec (PushState 5 ()) (mp_cache_init :: (unit, unit) mp_cache) = (Inr (), c') \<and>
      mp_reachable c') \<or>
   mp_exec (PushState 5 ()) (mp_cache_init :: (unit, unit) mp_cache) = (Inl ProtocolError, mp_cache_init)"
  using mp_cache_no_key_error [OF mp_reachable.start, of "PushState 5 () :: (unit, unit) mp_op"] by simp

text \<open>
  Requests being served can be answered in any order: presenting the outstanding state
  references in whatever order yields, for each, the information pushed under it, and takes
  exactly those entries out.
\<close>

theorem mp_answer_any_order:
  assumes "mp_reachable c" and "distinct ks"
    and "\<forall>k \<in> set ks. \<exists>info e. mc_stateReferenceIndex c k = Some (info, e)"
  shows "\<exists>c'. run_all mp_popByStateRef ks c =
      (Inr (map (\<lambda>k. fst (the (mc_stateReferenceIndex c k))) ks), c') \<and>
    (\<forall>k. k \<in> set ks \<longrightarrow> mp_popByStateRef k c' = (Inl ProtocolError, c'))"
proof -
  let ?p = "\<lambda>c k. map_option fst (mc_stateReferenceIndex c k)"
  have "set ks \<subseteq> dom (?p c)" using assms(3) by auto
  then obtain c' where c': "run_all mp_popByStateRef ks c = (Inr (map (\<lambda>k. the (?p c k)) ks), c')"
    "mp_inv c'" "?p c' = ?p c |` (- set ks)"
    using sr.grab_any_order [OF mp_reachable_inv [OF assms(1)] assms(2)] by auto
  have "map (\<lambda>k. the (?p c k)) ks = map (\<lambda>k. fst (the (mc_stateReferenceIndex c k))) ks"
    using assms(3) by auto
  moreover have "mp_popByStateRef k c' = (Inl ProtocolError, c')" if "k \<in> set ks" for k
    using that fun_cong [OF c'(3), of k] by (intro sr.grab_miss [OF c'(2)]) simp
  ultimately show ?thesis using c'(1) by auto
qed

theorem mp_answer_any_order_witness:
  "\<exists>c'. run_all mp_popByStateRef [2, 1] (snd (mp_pushByStateRef 2 ''b'' (snd (mp_pushByStateRef 1 ''a''
      (mp_cache_init :: (string, unit) mp_cache))))) = (Inr [''b'', ''a''], c') \<and>
    (\<forall>k. k \<in> {2, 1} \<longrightarrow> mp_popByStateRef k c' = (Inl ProtocolError, c'))"
proof -
  let ?c1 = "snd (mp_pushByStateRef 1 ''a'' (mp_cache_init :: (string, unit) mp_cache))"
  let ?c2 = "snd (mp_pushByStateRef 2 ''b'' ?c1)"
  have "mp_reachable ?c1"
    by (rule mp_reachable.step [OF mp_reachable.start, of "PushState 1 ''a''"])
      (simp_all add: mp_pushByStateRef_def mp_cache_init_def)
  then have "mp_reachable ?c2"
    by (rule mp_reachable.step [where op = "PushState 2 ''b''"])
      (simp_all add: mp_pushByStateRef_def mp_cache_init_def Let_def)
  from mp_answer_any_order [OF this, of "[2, 1]"] show ?thesis
    by (simp add: mp_pushByStateRef_def mp_cache_init_def Let_def)
qed

text \<open>
  An unanswered request is remembered for 600 timer ticks and forgotten on the next: ticks
  alone never raise, and after \<open>n\<close> of them the entry pushed is still there exactly when
  \<open>n \<le> 600\<close>.
\<close>

theorem mp_entry_lifetime:
  assumes "mp_reachable c" and "mp_pushByStateRef k info c = (Inr (), c')"
  shows "\<exists>c''. mp_ticks n c' = (Inr (), c'') \<and>
    fst (mp_popByStateRef k c'') = (if n \<le> 600 then Inr info else Inl ProtocolError)"
proof -
  have inv: "mp_inv c" using assms(1) by (rule mp_reachable_inv)
  have "mc_stateReferenceIndex c k = None"
    using assms(2) by (cases "mc_stateReferenceIndex c k") auto
  from mp_pushByStateRef_ok [OF inv this, of info] assms(2)
  have c': "mp_inv c'" "mc_stateReferenceIndex c' k = Some (info, mc_expirationTimer c' + 600)"
    by auto
  obtain c'' where c'': "mp_ticks n c' = (Inr (), c'')" "mp_inv c''"
    "mc_stateReferenceIndex c'' = still_due (mc_expirationTimer c' + n) (mc_stateReferenceIndex c')"
    using mp_ticks_ok [OF c'(1)] by blast
  have "fst (mp_popByStateRef k c'') = (if n \<le> 600 then Inr info else Inl ProtocolError)"
  proof (cases "n \<le> 600")
    case True
    then have "mc_stateReferenceIndex c'' k = Some (info, mc_expirationTimer c' + 600)"
      using c''(3) c'(2) by (simp add: still_due_def)
    with True mp_popByStateRef_ok [OF c''(2)] show ?thesis by fastforce
  next
    case False
    then have "mc_stateReferenceIndex c'' k = None" using c''(3) c'(2) by (simp add: still_due_def)
    with False show ?thesis by simp
  qed
  with c''(1) show ?thesis by blast
qed

theorem mp_entry_lifetime_witness:
  "\<exists>c''. mp_ticks 601 (snd (mp_pushByStateRef 1 ''a'' (mp_cache_init :: (string, unit) mp_cache)))
      = (Inr (), c'') \<and> fst (mp_popByStateRef 1 c'') = Inl ProtocolError"
  using mp_entry_lifetime [OF mp_reachable.start, of 1 "''a''"
    "snd (mp_pushByStateRef 1 ''a'' (mp_cache_init :: (string, unit) mp_cache))" 601]
  by (simp add: mp_pushByStateRef_def mp_cache_init_def)

text \<open>
  Expiry forgets the message ID of a request but not the handle it was sent under. So
  releasing an expired request by its handle raises \<open>ProtocolError\<close>, where releasing one that
  was answered, or never sent, is silent.
\<close>

theorem mp_release_expired_raises:
  assumes "mp_reachable c" and "handle_free c (mi_sendPduHandle info)"
    and "mp_pushByMsgId k info c = (Inr (), c')" and "600 < n"
  shows "\<exists>c''. mp_ticks n c' = (Inr (), c'') \<and>
    mp_popBySendPduHandle (mi_sendPduHandle info) c'' = (Inl ProtocolError, c'') \<and>
    mp_releaseStateInformation (mi_sendPduHandle info) c'' = (Inr (), c'')"
proof -
  have inv: "mp_inv c" using assms(1) by (rule mp_reachable_inv)
  have "mc_msgIdIndex c k = None"
    using assms(3) by (cases "mc_msgIdIndex c k") auto
  from mp_pushByMsgId_ok [OF inv this assms(2)] assms(3)
  have c': "mp_inv c'" "mc_msgIdIndex c' k = Some (info, mc_expirationTimer c' + 600)"
    "mc_sendPduHandleIdx c' (mi_sendPduHandle info) = Some k" by auto
  obtain c'' where c'': "mp_ticks n c' = (Inr (), c'')"
    "mc_sendPduHandleIdx c'' = mc_sendPduHandleIdx c'"
    "mc_msgIdIndex c'' = still_due (mc_expirationTimer c' + n) (mc_msgIdIndex c')"
    using mp_ticks_ok [OF c'(1)] by blast
  have "mc_msgIdIndex c'' k = None" using c''(3) c'(2) assms(4) by (simp add: still_due_def)
  then have "mp_popBySendPduHandle (mi_sendPduHandle info) c'' = (Inl ProtocolError, c'')"
    using c''(2) c'(3) by (simp add: mp_popBySendPduHandle_def sbind_def)
  with c''(1) show ?thesis
    by (auto simp: mp_releaseStateInformation_def scatch_def sret_def)
qed

theorem mp_release_expired_raises_witness:
  "\<exists>c''. mp_ticks 601 (snd (mp_pushByMsgId 1 \<lparr>mi_sendPduHandle = 9, mi_rest = ()\<rparr>
        (mp_cache_init :: (unit, unit) mp_cache))) = (Inr (), c'') \<and>
    mp_popBySendPduHandle 9 c'' = (Inl ProtocolError, c'')"
  using mp_release_expired_raises [OF mp_reachable.start, of "\<lparr>mi_sendPduHandle = 9, mi_rest = ()\<rparr>"
    1 "snd (mp_pushByMsgId 1 \<lparr>mi_sendPduHandle = 9, mi_rest = ()\<rparr>
        (mp_cache_init :: (unit, unit) mp_cache))" 601]
  by (auto simp: mp_pushByMsgId_def mp_cache_init_def handle_free_def)

end
