(* ===== verification/Dispatcher.thy ===== *)
theory Dispatcher
  imports Engine_Caches MP_Cache Pdu
begin

text \<open>
  The message and PDU dispatcher, \<open>pysnmp/proto/rfc3412.py\<close>: registration of applications,
  sending requests and responses, receiving messages, and failing the requests nobody
  answered. The timer callback of \<open>pysnmp/entity/engine.py\<close> is here too.

  The engine is the dispatcher's own state together with everything else, of which the
  dispatcher knows nothing; the message processing models, the transport and the
  applications are functions on the whole engine, since an application's callback may well
  send the next request. An application is referred to by a value of type \<open>'cb\<close>, and an
  environment says what calling it does. Debug output and observers are left out.

  The lemmas show that a request that could not be sent is not remembered, that a response
  is delivered to the application that asked, once, that exactly the overdue requests are
  reported as timed out, and which application gets a PDU.
\<close>

section \<open>State\<close>

text \<open>What a message processing model extracts from a message, and hands on.\<close>

record data_elements =
  de_messageProcessingModel :: int
  de_securityModel :: int
  de_securityName :: octets
  de_securityLevel :: int
  de_contextEngineId :: octets
  de_contextName :: octets
  de_pduVersion :: int
  de_PDU :: v1_pdu
  de_pduType :: pdu_type
  de_sendPduHandle :: "nat option"
  de_maxSizeResponseScopedPDU :: int
  de_statusInformation :: "status_info option"
  de_stateReference :: "nat option"

record ('cb, 'addr) send_request =
  sq_transportDomain :: oid
  sq_transportAddress :: 'addr
  sq_messageProcessingModel :: int
  sq_securityModel :: int
  sq_securityName :: octets
  sq_securityLevel :: int
  sq_contextEngineId :: "octets option"
  sq_contextName :: octets
  sq_pduVersion :: int
  sq_PDU :: v1_pdu
  sq_expectResponse :: bool
  sq_timeout :: int
  sq_cbFun :: 'cb

text \<open>
  What is cached for a request: the handle, the model, the deadline and the callback, and, once
  the message is out, the parameters it was sent with.
\<close>

record ('cb, 'addr) req_params =
  rp_messageProcessingModel :: int
  rp_sendPduHandle :: nat
  rp_timeout :: int
  rp_cbFun :: 'cb
  rp_sent :: "('cb, 'addr) send_request option"

record ('cb, 'addr) dispatcher =
  ds_cache :: "('cb, 'addr) req_params req_cache"
  ds_appsRegistration :: "octets \<times> pdu_type \<rightharpoonup> 'cb"
  ds_sendPduHandle :: nextid
  ds_transportInfo :: "nat \<rightharpoonup> oid \<times> 'addr"
  ds_snmpInPkts :: int
  ds_snmpInASNParseErrs :: int
  ds_snmpInBadVersions :: int
  ds_snmpUnknownPDUHandlers :: int
  ds_snmpSilentDrops :: int

type_synonym ('cb, 'addr, 'w) engine = "('cb, 'addr) dispatcher \<times> 'w"

text \<open>\<open>counter.syntax += 1\<close> on a \<open>Counter32\<close>.\<close>

definition inc32 :: "int \<Rightarrow> int" where
  "inc32 x = (x + 1) mod 4294967296"

section \<open>Environment\<close>

type_synonym 'addr outgoing = "oid \<times> 'addr \<times> octets"

record ('s, 'cb, 'addr) mp_handler =
  mh_prepareOutgoingMessage :: "('cb, 'addr) send_request \<Rightarrow> nat \<Rightarrow> ('s, 'addr outgoing) sm"
  mh_prepareResponseMessage :: "data_elements \<Rightarrow> status_info option \<Rightarrow> ('s, 'addr outgoing) sm"
  mh_prepareDataElements :: "oid \<Rightarrow> 'addr \<Rightarrow> octets \<Rightarrow> ('s, data_elements) sm"
  mh_releaseStateInformation :: "nat \<Rightarrow> ('s, unit) sm"
  mh_receiveTimerTick :: "('s, unit) sm"

record ('s, 'addr) transport =
  tr_sendMessage :: "octets \<Rightarrow> oid \<Rightarrow> 'addr \<Rightarrow> ('s, unit) sm"
  tr_getTimerTicks :: "'s \<Rightarrow> int"
  tr_runDeferred :: "nat option \<Rightarrow> ('s, unit) sm"

text \<open>
  \<open>en_processPdu\<close> serves a request and says whether it was suspended, \<open>en_callback\<close> delivers a
  response (or nothing, and a status); \<open>en_tuple\<close> reads a transport address as a sequence, if
  it is one.
\<close>

record ('s, 'cb, 'addr) denv =
  en_subsystems :: "(int, ('s, 'cb, 'addr) mp_handler) odict"
  en_securityModels :: "('s, unit) sm list"
  en_transport :: "('s, 'addr) transport option"
  en_processPdu :: "'cb \<Rightarrow> data_elements \<Rightarrow> ('s, bool) sm"
  en_callback :: "'cb \<Rightarrow> data_elements option \<Rightarrow> status_info option \<Rightarrow> nat \<Rightarrow> ('s, unit) sm"
  en_decodeMessageVersion :: "octets \<Rightarrow> int res"
  en_snmpEngineMaxMessageSize :: int
  en_snmpUnknownPDUHandlers_name :: oid
  en_snmpEngineID :: octets
  en_tuple :: "'addr \<Rightarrow> octets option"

definition dget_state :: "(('cb, 'addr) dispatcher \<Rightarrow> 'a) \<Rightarrow> (('cb, 'addr, 'w) engine, 'a) sm" where
  "dget_state f = sget (\<lambda>s. f (fst s))"

definition dmodify :: "(('cb, 'addr) dispatcher \<Rightarrow> ('cb, 'addr) dispatcher) \<Rightarrow>
    (('cb, 'addr, 'w) engine, unit) sm" where
  "dmodify f = smodify (\<lambda>s. (f (fst s), snd s))"

definition the_transport :: "('s, 'cb, 'addr) denv \<Rightarrow> ('s, ('s, 'addr) transport) sm" where
  "the_transport env = (case en_transport env of None \<Rightarrow> sraise AttributeError | Some t \<Rightarrow> sret t)"

section \<open>Applications\<close>

fun registerContextEngineId :: "octets \<Rightarrow> pdu_type list \<Rightarrow> 'cb \<Rightarrow> (('cb, 'addr, 'w) engine, unit) sm" where
  "registerContextEngineId contextEngineId [] processPdu = sret ()"
| "registerContextEngineId contextEngineId (t # pduTypes) processPdu =
     sbind (dget_state ds_appsRegistration) (\<lambda>apps.
     if apps (contextEngineId, t) \<noteq> None then sraise ProtocolError
     else sbind (dmodify (\<lambda>d. d\<lparr>ds_appsRegistration := (ds_appsRegistration d)((contextEngineId, t) \<mapsto> processPdu)\<rparr>))
       (\<lambda>_. registerContextEngineId contextEngineId pduTypes processPdu))"

definition unregisterContextEngineId :: "('s, 'cb, 'addr) denv \<Rightarrow> octets option \<Rightarrow> pdu_type list \<Rightarrow>
    (('cb, 'addr, 'w) engine, unit) sm" where
  "unregisterContextEngineId env contextEngineId pduTypes =
     (let e = (case contextEngineId of None \<Rightarrow> en_snmpEngineID env | Some e \<Rightarrow> e) in
      dmodify (\<lambda>d. d\<lparr>ds_appsRegistration :=
        foldl (\<lambda>m t. m((e, t) := None)) (ds_appsRegistration d) pduTypes\<rparr>))"

definition getRegisteredApp :: "octets \<Rightarrow> pdu_type \<Rightarrow> ('cb, 'addr) dispatcher \<Rightarrow> 'cb option" where
  "getRegisteredApp contextEngineId pduType d =
     (case ds_appsRegistration d (contextEngineId, pduType) of
        Some app \<Rightarrow> Some app
      | None \<Rightarrow> ds_appsRegistration d ([], pduType))"

definition getTransportInfo :: "nat \<Rightarrow> (('cb, 'addr, 'w) engine, oid \<times> 'addr) sm" where
  "getTransportInfo stateReference =
     sbind (dget_state ds_transportInfo) (\<lambda>info.
     case info stateReference of None \<Rightarrow> sraise ProtocolError | Some x \<Rightarrow> sret x)"

section \<open>The request cache\<close>

definition cache_add :: "nat \<Rightarrow> ('cb, 'addr) req_params \<Rightarrow> (('cb, 'addr, 'w) engine, unit) sm" where
  "cache_add h p = dmodify (\<lambda>d. d\<lparr>ds_cache := snd (req_add h p (ds_cache d))\<rparr>)"

definition cache_pop :: "nat \<Rightarrow> (('cb, 'addr, 'w) engine, ('cb, 'addr) req_params option) sm" where
  "cache_pop h s = (case req_pop h (ds_cache (fst s)) of
     (r, c) \<Rightarrow> (Inr r, (fst s)\<lparr>ds_cache := c\<rparr>, snd s))"

definition cache_update :: "nat \<Rightarrow> (('cb, 'addr) req_params \<Rightarrow> ('cb, 'addr) req_params) \<Rightarrow>
    (('cb, 'addr, 'w) engine, unit) sm" where
  "cache_update h f s = (case req_update h f (ds_cache (fst s)) of
     (r, c) \<Rightarrow> (r, (fst s)\<lparr>ds_cache := c\<rparr>, snd s))"

definition next_handle :: "(('cb, 'addr, 'w) engine, nat) sm" where
  "next_handle s = (case nextid_call (ds_sendPduHandle (fst s)) of
     (r, g) \<Rightarrow> (r, (fst s)\<lparr>ds_sendPduHandle := g\<rparr>, snd s))"

definition releaseStateInformation :: "(('cb, 'addr, 'w) engine, 'cb, 'addr) denv \<Rightarrow> nat \<Rightarrow> int \<Rightarrow>
    (('cb, 'addr, 'w) engine, unit) sm" where
  "releaseStateInformation env sendPduHandle messageProcessingModel =
     sbind (case map_of (en_subsystems env) messageProcessingModel of
              None \<Rightarrow> sret ()
            | Some mpHandler \<Rightarrow> mh_releaseStateInformation mpHandler sendPduHandle) (\<lambda>_.
     sbind (cache_pop sendPduHandle) (\<lambda>_. sret ()))"

section \<open>Sending\<close>

definition reraise_PySnmpError :: "('s, unit) sm \<Rightarrow> exn \<Rightarrow> ('s, 'a) sm" where
  "reraise_PySnmpError cleanup e = (if is_PySnmpError e then sbind cleanup (\<lambda>_. sraise e) else sraise e)"

definition sendPdu :: "(('cb, 'addr, 'w) engine, 'cb, 'addr) denv \<Rightarrow> ('cb, 'addr) send_request \<Rightarrow>
    (('cb, 'addr, 'w) engine, nat) sm" where
  "sendPdu env rq =
     (case map_of (en_subsystems env) (sq_messageProcessingModel rq) of
        None \<Rightarrow> sraise (status unsupportedMsgProcessingModel)
      | Some mpHandler \<Rightarrow>
     sbind next_handle (\<lambda>sendPduHandle.
     sbind (if sq_expectResponse rq
            then sbind (the_transport env) (\<lambda>t.
              sbind (sget (tr_getTimerTicks t)) (\<lambda>ticks.
              cache_add sendPduHandle
                \<lparr>rp_messageProcessingModel = sq_messageProcessingModel rq,
                 rp_sendPduHandle = sendPduHandle, rp_timeout = sq_timeout rq + ticks,
                 rp_cbFun = sq_cbFun rq, rp_sent = None\<rparr>))
            else sret ()) (\<lambda>_.
     sbind (scatch (mh_prepareOutgoingMessage mpHandler rq sendPduHandle)
              (reraise_PySnmpError
                 (if sq_expectResponse rq
                  then sbind (cache_pop sendPduHandle) (\<lambda>_.
                    releaseStateInformation env sendPduHandle (sq_messageProcessingModel rq))
                  else sret ())))
       (\<lambda>(transportDomain, transportAddress, outgoingMessage).
     sbind (case en_transport env of
              None \<Rightarrow> sbind (if sq_expectResponse rq then sbind (cache_pop sendPduHandle) (\<lambda>_. sret ())
                            else sret ()) (\<lambda>_. sraise PySnmpError)
            | Some t \<Rightarrow>
                scatch (tr_sendMessage t outgoingMessage transportDomain transportAddress)
                  (reraise_PySnmpError
                     (if sq_expectResponse rq then sbind (cache_pop sendPduHandle) (\<lambda>_. sret ())
                      else sret ()))) (\<lambda>_.
     sbind (if sq_expectResponse rq
            then cache_update sendPduHandle (\<lambda>p. p\<lparr>rp_sent := Some rq\<rparr>)
            else sret ()) (\<lambda>_.
     sret sendPduHandle))))))"

definition returnResponsePdu :: "(('cb, 'addr, 'w) engine, 'cb, 'addr) denv \<Rightarrow> data_elements \<Rightarrow>
    status_info option \<Rightarrow> (('cb, 'addr, 'w) engine, unit) sm" where
  "returnResponsePdu env de statusInformation =
     (case map_of (en_subsystems env) (de_messageProcessingModel de) of
        None \<Rightarrow> sraise (status unsupportedMsgProcessingModel)
      | Some mpHandler \<Rightarrow>
     sbind (mh_prepareResponseMessage mpHandler de statusInformation)
       (\<lambda>(transportDomain, transportAddress, outgoingMessage).
     if en_snmpEngineMaxMessageSize env \<noteq> 0 \<and>
        int (length outgoingMessage) > en_snmpEngineMaxMessageSize env
     then sbind (dmodify (\<lambda>d. d\<lparr>ds_snmpSilentDrops := inc32 (ds_snmpSilentDrops d)\<rparr>)) (\<lambda>_.
       sraise (status tooBig))
     else sbind (the_transport env) (\<lambda>t.
       tr_sendMessage t outgoingMessage transportDomain transportAddress)))"

section \<open>Failing requests\<close>

text \<open>
  \<open>__expireRequest\<close>; it says whether the request was failed. Looking up the parameters of a
  request that is no longer cached is Python's subscript of \<open>None\<close>.
\<close>

definition expireRequest :: "(('cb, 'addr, 'w) engine, 'cb, 'addr) denv \<Rightarrow> ('cb, 'addr) req_params option \<Rightarrow>
    status_info option \<Rightarrow> (('cb, 'addr, 'w) engine, bool) sm" where
  "expireRequest env cachedParams statusInformation =
     sbind (the_transport env) (\<lambda>t.
     sbind (sget (tr_getTimerTicks t)) (\<lambda>timeNow.
     case cachedParams of
       None \<Rightarrow> sraise TypeError
     | Some p \<Rightarrow>
         if statusInformation = None \<and> timeNow < rp_timeout p then sret False
         else
           let s = (case statusInformation of
                      None \<Rightarrow> no_details\<lparr>si_errorIndication := Some requestTimedOut\<rparr>
                    | Some s \<Rightarrow> s) in
           sbind (releaseStateInformation env (rp_sendPduHandle p) (rp_messageProcessingModel p)) (\<lambda>_.
           sbind (en_callback env (rp_cbFun p) None (Some s) (rp_sendPduHandle p)) (\<lambda>_.
           sret True))))"

text \<open>The sweep of \<open>cache.Cache.expire\<close> over the requests as they were when it started.\<close>

fun cache_expire :: "(('cb, 'addr) req_params \<Rightarrow> (('cb, 'addr, 'w) engine, bool) sm) \<Rightarrow>
    (nat \<times> ('cb, 'addr) req_params) list \<Rightarrow> (('cb, 'addr, 'w) engine, unit) sm" where
  "cache_expire cbFun [] = sret ()"
| "cache_expire cbFun ((h, p) # xs) =
     sbind (cbFun p) (\<lambda>r.
     sbind (if r then dmodify (\<lambda>d. d\<lparr>ds_cache := AList.delete h (ds_cache d)\<rparr>) else sret ()) (\<lambda>_.
     cache_expire cbFun xs))"

definition receiveTimerTick :: "(('cb, 'addr, 'w) engine, 'cb, 'addr) denv \<Rightarrow>
    (('cb, 'addr, 'w) engine, unit) sm" where
  "receiveTimerTick env = sbind (dget_state ds_cache) (\<lambda>c.
     cache_expire (\<lambda>p. expireRequest env (Some p) None) c)"

definition sameTransportAddress :: "('addr \<Rightarrow> octets option) \<Rightarrow> 'addr option \<Rightarrow> 'addr \<Rightarrow> bool" where
  "sameTransportAddress tuple cachedAddress transportAddress =
     (case cachedAddress of
        None \<Rightarrow> False
      | Some a \<Rightarrow>
          (case (tuple a, tuple transportAddress) of
             (Some x, Some y) \<Rightarrow> x = y
           | _ \<Rightarrow> a = transportAddress))"

definition receiveTransportError :: "(('cb, 'addr, 'w) engine, 'cb, 'addr) denv \<Rightarrow> oid \<Rightarrow> 'addr \<Rightarrow>
    (('cb, 'addr, 'w) engine, unit) sm" where
  "receiveTransportError env transportDomain transportAddress =
     (let s = no_details\<lparr>si_errorIndication := Some transportFailure\<rparr> in
      sbind (dget_state ds_cache) (\<lambda>c.
      cache_expire (\<lambda>p.
        if map_option sq_transportDomain (rp_sent p) \<noteq> Some transportDomain then sret False
        else if \<not> sameTransportAddress (en_tuple env) (map_option sq_transportAddress (rp_sent p))
                  transportAddress then sret False
        else expireRequest env (Some p) (Some s)) c))"

fun run_units :: "('s, unit) sm list \<Rightarrow> ('s, unit) sm" where
  "run_units [] = sret ()"
| "run_units (m # ms) = sbind m (\<lambda>_. run_units ms)"

text \<open>\<open>SnmpEngine.__receiveTimerTickCbFun\<close>.\<close>

definition engine_receiveTimerTick :: "(('cb, 'addr, 'w) engine, 'cb, 'addr) denv \<Rightarrow>
    (('cb, 'addr, 'w) engine, unit) sm" where
  "engine_receiveTimerTick env =
     sbind (receiveTimerTick env) (\<lambda>_.
     sbind (run_units (map (\<lambda>kh. mh_receiveTimerTick (snd kh)) (en_subsystems env))) (\<lambda>_.
     run_units (en_securityModels env)))"

section \<open>Receiving\<close>

text \<open>The transport information kept for the application while it serves a request (legacy).\<close>

definition set_transportInfo :: "nat option \<Rightarrow> oid \<Rightarrow> 'addr \<Rightarrow> (('cb, 'addr, 'w) engine, unit) sm" where
  "set_transportInfo stateReference transportDomain transportAddress =
     (case stateReference of
        None \<Rightarrow> sret ()
      | Some r \<Rightarrow> dmodify (\<lambda>d. d\<lparr>ds_transportInfo :=
          (ds_transportInfo d)(r \<mapsto> (transportDomain, transportAddress))\<rparr>))"

definition del_transportInfo :: "nat option \<Rightarrow> (('cb, 'addr, 'w) engine, unit) sm" where
  "del_transportInfo stateReference =
     (case stateReference of
        None \<Rightarrow> sret ()
      | Some r \<Rightarrow> sbind (dget_state ds_transportInfo) (\<lambda>info.
          if info r = None then sraise KeyError
          else dmodify (\<lambda>d. d\<lparr>ds_transportInfo := (ds_transportInfo d)(r := None)\<rparr>)))"

definition abandonRequest :: "nat option \<Rightarrow> (('cb, 'addr, 'w) engine, unit) sm" where
  "abandonRequest stateReference =
     (case stateReference of
        None \<Rightarrow> sret ()
      | Some r \<Rightarrow> dmodify (\<lambda>d. d\<lparr>ds_transportInfo := (ds_transportInfo d)(r := None)\<rparr>))"

definition deferRequest :: "(('cb, 'addr, 'w) engine, 'cb, 'addr) denv \<Rightarrow> nat option \<Rightarrow>
    (('cb, 'addr, 'w) engine, unit) sm" where
  "deferRequest env stateReference =
     (case en_transport env of
        None \<Rightarrow> sbind (abandonRequest stateReference) (\<lambda>_. sraise PySnmpError)
      | Some t \<Rightarrow> scatch (tr_runDeferred t stateReference)
          (\<lambda>e. sbind (abandonRequest stateReference) (\<lambda>_. sraise e)))"

text \<open>4.2.2.1.2: nobody is registered for the PDU, which is counted and reported.\<close>

definition report_unknown_handler :: "(('cb, 'addr, 'w) engine, 'cb, 'addr) denv \<Rightarrow>
    (('cb, 'addr, 'w) engine, 'cb, 'addr) mp_handler \<Rightarrow> data_elements \<Rightarrow> (('cb, 'addr, 'w) engine, unit) sm" where
  "report_unknown_handler env mpHandler de =
     sbind (dmodify (\<lambda>d. d\<lparr>ds_snmpUnknownPDUHandlers := inc32 (ds_snmpUnknownPDUHandlers d)\<rparr>)) (\<lambda>_.
     sbind (dget_state ds_snmpUnknownPDUHandlers) (\<lambda>val.
     scatch
       (sbind (mh_prepareResponseMessage mpHandler de
                 (Some (no_details\<lparr>si_errorIndication := Some unknownPDUHandler,
                    si_oid := Some (en_snmpUnknownPDUHandlers_name env), si_val := Some val\<rparr>)))
          (\<lambda>(transportDomain, transportAddress, outgoingMessage).
        sbind (the_transport env) (\<lambda>t.
        tr_sendMessage t outgoingMessage transportDomain transportAddress)))
       (\<lambda>e. if is_PySnmpError e then sret () else sraise e)))"

text \<open>4.2.2.1.3: the registered application serves the request.\<close>

definition serve_request :: "(('cb, 'addr, 'w) engine, 'cb, 'addr) denv \<Rightarrow> 'cb \<Rightarrow> oid \<Rightarrow> 'addr \<Rightarrow>
    data_elements \<Rightarrow> (('cb, 'addr, 'w) engine, unit) sm" where
  "serve_request env app transportDomain transportAddress de =
     sbind (set_transportInfo (de_stateReference de) transportDomain transportAddress) (\<lambda>_.
     sbind (scatch (en_processPdu env app de)
              (\<lambda>e. sbind (del_transportInfo (de_stateReference de)) (\<lambda>_. sraise e))) (\<lambda>deferred.
     if deferred then deferRequest env (de_stateReference de)
     else del_transportInfo (de_stateReference de)))"

text \<open>4.2.2.2: a response goes to whoever asked.\<close>

definition deliver_response :: "(('cb, 'addr, 'w) engine, 'cb, 'addr) denv \<Rightarrow> data_elements \<Rightarrow> nat \<Rightarrow>
    (('cb, 'addr, 'w) engine, unit) sm" where
  "deliver_response env de sendPduHandle =
     sbind (cache_pop sendPduHandle) (\<lambda>cachedParams.
     case cachedParams of
       None \<Rightarrow> dmodify (\<lambda>d. d\<lparr>ds_snmpUnknownPDUHandlers := inc32 (ds_snmpUnknownPDUHandlers d)\<rparr>)
     | Some p \<Rightarrow> en_callback env (rp_cbFun p) (Some de) (de_statusInformation de) (rp_sendPduHandle p))"

definition dispatch_pdu :: "(('cb, 'addr, 'w) engine, 'cb, 'addr) denv \<Rightarrow>
    (('cb, 'addr, 'w) engine, 'cb, 'addr) mp_handler \<Rightarrow> oid \<Rightarrow> 'addr \<Rightarrow> data_elements \<Rightarrow>
    (('cb, 'addr, 'w) engine, unit) sm" where
  "dispatch_pdu env mpHandler transportDomain transportAddress de =
     (case de_sendPduHandle de of
        None \<Rightarrow>
          sbind (dget_state (getRegisteredApp (de_contextEngineId de) (de_pduType de))) (\<lambda>processPdu.
          case processPdu of
            None \<Rightarrow> report_unknown_handler env mpHandler de
          | Some app \<Rightarrow> serve_request env app transportDomain transportAddress de)
      | Some h \<Rightarrow> deliver_response env de h)"

text \<open>
  What a failure of the message processing model leads to: a status that names a request fails
  that request at once, so that it is retried; what is malformed is counted.
\<close>

definition mp_failure :: "(('cb, 'addr, 'w) engine, 'cb, 'addr) denv \<Rightarrow> exn \<Rightarrow>
    (('cb, 'addr, 'w) engine, unit) sm" where
  "mp_failure env e =
     (case e of
        StatusInformation s \<Rightarrow>
          (case si_sendPduHandle s of
             None \<Rightarrow> sret ()
           | Some h \<Rightarrow>
               sbind (cache_pop h) (\<lambda>cachedParams.
               sbind (expireRequest env cachedParams (Some s)) (\<lambda>_. sret ())))
      | _ \<Rightarrow>
          if is_PyAsn1Error e
          then dmodify (\<lambda>d. d\<lparr>ds_snmpInASNParseErrs := inc32 (ds_snmpInASNParseErrs d)\<rparr>)
          else sraise e)"

definition receiveMessage :: "(('cb, 'addr, 'w) engine, 'cb, 'addr) denv \<Rightarrow> oid \<Rightarrow> 'addr \<Rightarrow> octets \<Rightarrow>
    (('cb, 'addr, 'w) engine, octets) sm" where
  "receiveMessage env transportDomain transportAddress wholeMsg =
     sbind (dmodify (\<lambda>d. d\<lparr>ds_snmpInPkts := inc32 (ds_snmpInPkts d)\<rparr>)) (\<lambda>_.
     sbind (case en_decodeMessageVersion env wholeMsg of
       Inl e \<Rightarrow>
         if is_ProtocolError e
         then dmodify (\<lambda>d. d\<lparr>ds_snmpInASNParseErrs := inc32 (ds_snmpInASNParseErrs d)\<rparr>)
         else sraise e
     | Inr msgVersion \<Rightarrow>
         (case map_of (en_subsystems env) msgVersion of
            None \<Rightarrow> dmodify (\<lambda>d. d\<lparr>ds_snmpInBadVersions := inc32 (ds_snmpInBadVersions d)\<rparr>)
          | Some mpHandler \<Rightarrow> (\<lambda>s.
              (case mh_prepareDataElements mpHandler transportDomain transportAddress wholeMsg s of
                 (Inl e, s') \<Rightarrow> mp_failure env e s'
               | (Inr de, s') \<Rightarrow> dispatch_pdu env mpHandler transportDomain transportAddress de s'))))
     (\<lambda>_. sret []))"

section \<open>Requests that could not be sent\<close>

text \<open>The models and the transport leave the dispatcher's own cache alone.\<close>

definition quiet :: "(('cb, 'addr, 'w) engine, 'a) sm \<Rightarrow> bool" where
  "quiet m \<longleftrightarrow> (\<forall>s. ds_cache (fst (snd (m s))) = ds_cache (fst s))"

definition quiet_env :: "(('cb, 'addr, 'w) engine, 'cb, 'addr) denv \<Rightarrow> bool" where
  "quiet_env env \<longleftrightarrow>
     (\<forall>(m, h) \<in> set (en_subsystems env).
        (\<forall>rq k. quiet (mh_prepareOutgoingMessage h rq k)) \<and> (\<forall>k. quiet (mh_releaseStateInformation h k))) \<and>
     (\<forall>t. en_transport env = Some t \<longrightarrow> (\<forall>m td a. quiet (tr_sendMessage t m td a)))"

lemma quietD: "quiet m \<Longrightarrow> m s = (r, s') \<Longrightarrow> ds_cache (fst s') = ds_cache (fst s)"
  by (metis quiet_def snd_conv)

lemma cache_pop_eq:
  "cache_pop h s = (Inr (map_of (ds_cache (fst s)) h),
     (fst s)\<lparr>ds_cache := AList.delete h (ds_cache (fst s))\<rparr>, snd s)"
proof (cases "map_of (ds_cache (fst s)) h")
  case None
  then have "AList.delete h (ds_cache (fst s)) = ds_cache (fst s)"
    by (simp add: delete_idem map_of_eq_None_iff)
  with None show ?thesis by (simp add: cache_pop_def req_pop_def)
qed (simp add: cache_pop_def req_pop_def)

lemma releaseStateInformation_cache:
  assumes "quiet_env env" and "releaseStateInformation env h m s = (r, s')"
    and "h \<notin> fst ` set (ds_cache (fst s))"
  shows "ds_cache (fst s') = ds_cache (fst s)"
proof -
  have q: "quiet (case map_of (en_subsystems env) m of None \<Rightarrow> sret ()
      | Some mpHandler \<Rightarrow> mh_releaseStateInformation mpHandler h)"
    using assms(1) by (auto simp: quiet_env_def quiet_def sret_def split: option.splits dest!: map_of_SomeD)
  from assms(2) show ?thesis
    using q assms(3) unfolding releaseStateInformation_def
    by (auto simp: sbind_def cache_pop_eq sret_def delete_idem split: prod.splits sum.splits dest!: quietD)
qed

definition pending :: "('cb, 'addr) send_request \<Rightarrow> nat \<Rightarrow>
    int \<Rightarrow> ('cb, 'addr) send_request option \<Rightarrow> ('cb, 'addr) req_params" where
  "pending rq h ticks sent =
     \<lparr>rp_messageProcessingModel = sq_messageProcessingModel rq, rp_sendPduHandle = h,
      rp_timeout = sq_timeout rq + ticks, rp_cbFun = sq_cbFun rq, rp_sent = sent\<rparr>"

lemma delete_fresh_entry:
  "h \<notin> fst ` set c \<Longrightarrow> AList.delete h (AList.update h p c) = c"
  "h \<notin> fst ` set c \<Longrightarrow> AList.delete h (c @ [(h, p)]) = c"
  "h \<notin> fst ` set c \<Longrightarrow> AList.update h q (c @ [(h, p)]) = c @ [(h, q)]"
  by (induction c) auto

text \<open>The two steps that can fail, on a cache that ends with the request.\<close>

lemma outgoing_failure:
  assumes "quiet_env env" and "map_of (en_subsystems env) m = Some mpHandler"
    and "ds_cache (fst s) = c @ [(h, p)]" and "h \<notin> fst ` set c"
    and "scatch (mh_prepareOutgoingMessage mpHandler rq h)
      (reraise_PySnmpError (sbind (cache_pop h) (\<lambda>_. releaseStateInformation env h m))) s = (r, s')"
  shows "case r of Inl e \<Rightarrow> ds_cache (fst s') = c \<or> \<not> is_PySnmpError e \<and> ds_cache (fst s') = c @ [(h, p)] | Inr _ \<Rightarrow> ds_cache (fst s') = c @ [(h, p)]"
proof -
  obtain r1 s1 where o: "mh_prepareOutgoingMessage mpHandler rq h s = (r1, s1)" by (meson surj_pair)
  have "quiet (mh_prepareOutgoingMessage mpHandler rq h)"
    using assms(1,2) by (auto simp: quiet_env_def dest!: map_of_SomeD)
  with o have s1: "ds_cache (fst s1) = c @ [(h, p)]" using assms(3) by (metis quietD)
  let ?s2 = "((fst s1)\<lparr>ds_cache := c\<rparr>, snd s1)"
  have "ds_cache (fst s3) = c" if "releaseStateInformation env h m ?s2 = (x, s3)" for x s3
    using releaseStateInformation_cache [OF assms(1) that] assms(4) by simp
  then show ?thesis
    using o s1 assms(4,5)
    by (auto simp: scatch_def reraise_PySnmpError_def sbind_def cache_pop_eq delete_fresh_entry sraise_def
        split: sum.splits prod.splits if_splits)
qed

lemma transport_failure:
  assumes "quiet_env env" and "en_transport env = Some t"
    and "ds_cache (fst s) = c @ [(h, p)]" and "h \<notin> fst ` set c"
    and "scatch (tr_sendMessage t msg td a)
      (reraise_PySnmpError (sbind (cache_pop h) (\<lambda>_. sret ()))) s = (r, s')"
  shows "case r of Inl e \<Rightarrow> ds_cache (fst s') = c \<or> \<not> is_PySnmpError e \<and> ds_cache (fst s') = c @ [(h, p)] | Inr _ \<Rightarrow> ds_cache (fst s') = c @ [(h, p)]"
proof -
  obtain r1 s1 where o: "tr_sendMessage t msg td a s = (r1, s1)" by (meson surj_pair)
  have "quiet (tr_sendMessage t msg td a)" using assms(1,2) by (auto simp: quiet_env_def)
  with o have s1: "ds_cache (fst s1) = c @ [(h, p)]" using assms(3) by (metis quietD)
  with o assms(4,5) show ?thesis
    by (auto simp: scatch_def reraise_PySnmpError_def sbind_def cache_pop_eq delete_fresh_entry sraise_def
        sret_def split: sum.splits prod.splits if_splits)
qed

text \<open>
  (C15) A request is remembered when it was sent. When \<open>sendPdu\<close> returns, the request is
  in the cache under the handle returned, with its deadline and callback and what it takes to send it again, and nothing
  else has changed there; when it fails with an SNMP error, because the message could not be
  prepared, there is no transport or the transport refused it, the cache is as it was. Any other exception
  leaves the cache as it was or adds the request itself, with its deadline and callback, but not what it takes to send it again.
\<close>

theorem sendPdu_remembers_iff_sent:
  assumes "quiet_env env" and "sq_expectResponse rq"
    and "nextid_call (ds_sendPduHandle (fst s)) = (Inr h, g)" and "h \<notin> fst ` set (ds_cache (fst s))"
    and "sendPdu env rq s = (r, s')"
  shows "case r of
      Inl e \<Rightarrow> ds_cache (fst s') = ds_cache (fst s) \<or>
        \<not> is_PySnmpError e \<and> (\<exists>ticks. ds_cache (fst s') = ds_cache (fst s) @ [(h, pending rq h ticks None)])
    | Inr h' \<Rightarrow> h' = h \<and> (\<exists>ticks. ds_cache (fst s') = ds_cache (fst s) @ [(h, pending rq h ticks (Some rq))])"
proof (cases "map_of (en_subsystems env) (sq_messageProcessingModel rq)")
  case None
  with assms(5) show ?thesis by (auto simp: sendPdu_def sraise_def)
next
  case (Some mpHandler)
  let ?c = "ds_cache (fst s)" and ?m = "sq_messageProcessingModel rq"
  show ?thesis
  proof (cases "en_transport env")
    case None
    with assms Some show ?thesis
      by (auto simp: sendPdu_def sbind_def next_handle_def the_transport_def sraise_def)
  next
    case t: (Some t)
    let ?s1 = "((fst s)\<lparr>ds_sendPduHandle := g\<rparr>, snd s)"
    let ?p = "pending rq h (tr_getTimerTicks t ?s1)"
    let ?s2 = "((fst ?s1)\<lparr>ds_cache := ?c @ [(h, ?p None)]\<rparr>, snd s)"
    have add: "cache_add h (?p None) ?s1 = (Inr (), ?s2)"
      using assms(4) by (simp add: cache_add_def dmodify_def smodify_def req_add_def odict_update_fresh)
    obtain r3 s3 where out: "scatch (mh_prepareOutgoingMessage mpHandler rq h)
      (reraise_PySnmpError (sbind (cache_pop h) (\<lambda>_. releaseStateInformation env h ?m))) ?s2 = (r3, s3)"
      by (meson surj_pair)
    note o = outgoing_failure [OF assms(1) Some _ assms(4) out, of "?p None"]
    have send: "sendPdu env rq s = (case r3 of Inl e \<Rightarrow> (Inl e, s3)
      | Inr (td, a, msg) \<Rightarrow> sbind (scatch (tr_sendMessage t msg td a)
           (reraise_PySnmpError (sbind (cache_pop h) (\<lambda>_. sret ())))) (\<lambda>_.
           sbind (cache_update h (\<lambda>p. p\<lparr>rp_sent := Some rq\<rparr>)) (\<lambda>_. sret h)) s3)"
      using assms(2,3) Some t add out
      by (simp add: sendPdu_def sbind_def next_handle_def the_transport_def sret_def sget_def
          pending_def split: sum.splits)
    show ?thesis
    proof (cases r3)
      case (Inl e)
      with o send assms(5) show ?thesis by auto
    next
      case (Inr x)
      obtain td a msg where x: "x = (td, a, msg)" using prod_cases3 by blast
      with Inr o have c3: "ds_cache (fst s3) = ?c @ [(h, ?p None)]" by auto
      obtain r4 s4 where tr: "scatch (tr_sendMessage t msg td a)
        (reraise_PySnmpError (sbind (cache_pop h) (\<lambda>_. sret ()))) s3 = (r4, s4)" by (meson surj_pair)
      note f = transport_failure [OF assms(1) t c3 assms(4) tr]
      have upd: "req_update h (\<lambda>p. p\<lparr>rp_sent := Some rq\<rparr>) (?c @ [(h, ?p None)]) =
        (Inr (), ?c @ [(h, ?p (Some rq))])"
        using assms(4) by (force simp: req_update_def delete_fresh_entry pending_def map_add_def
            split: option.splits dest!: map_of_SomeD)
      show ?thesis
      proof (cases r4)
        case (Inl e)
        with f send Inr x tr assms(5) show ?thesis by (auto simp: sbind_def)
      next
        case r4: (Inr u)
        with f have "ds_cache (fst s4) = ?c @ [(h, ?p None)]" by simp
        with send Inr x tr r4 assms(5) upd show ?thesis
          by (auto simp: sbind_def sret_def cache_update_def)
      qed
    qed
  qed
qed

text \<open>An environment with one model and a transport that answers nothing.\<close>

definition sample_mp :: "(('cb, 'addr, 'w) engine, 'cb, 'addr) mp_handler" where
  "sample_mp = \<lparr>mh_prepareOutgoingMessage = (\<lambda>rq h. sret (sq_transportDomain rq, sq_transportAddress rq, [])),
     mh_prepareResponseMessage = (\<lambda>de st. sraise ProtocolError),
     mh_prepareDataElements = (\<lambda>td a m. sraise ProtocolError),
     mh_releaseStateInformation = (\<lambda>h. sret ()), mh_receiveTimerTick = sret ()\<rparr>"

definition sample_env :: "(('cb, nat, 'w) engine, 'cb, nat) denv" where
  "sample_env = \<lparr>en_subsystems = [(3, sample_mp)], en_securityModels = [],
     en_transport = Some \<lparr>tr_sendMessage = (\<lambda>m td a. if a = 0 then sraise PySnmpError else sret ()),
       tr_getTimerTicks = (\<lambda>s. 5), tr_runDeferred = (\<lambda>r. sret ())\<rparr>,
     en_processPdu = (\<lambda>app de. sret False), en_callback = (\<lambda>cb de st h. sret ()),
     en_decodeMessageVersion = (\<lambda>m. Inr 3), en_snmpEngineMaxMessageSize = 65507,
     en_snmpUnknownPDUHandlers_name = [], en_snmpEngineID = [], en_tuple = (\<lambda>a. None)\<rparr>"

definition sample_state :: "(nat, nat, unit) engine" where
  "sample_state = (\<lparr>ds_cache = [], ds_appsRegistration = Map.empty,
     ds_sendPduHandle = \<lparr>ni_maximum = 10, ni_increment = 4, ni_threshold = 2, ni_bank = [1, 2, 3, 4]\<rparr>,
     ds_transportInfo = Map.empty, ds_snmpInPkts = 0, ds_snmpInASNParseErrs = 0,
     ds_snmpInBadVersions = 0, ds_snmpUnknownPDUHandlers = 0, ds_snmpSilentDrops = 0\<rparr>, ())"

definition sample_request :: "nat \<Rightarrow> (nat, nat) send_request" where
  "sample_request a = \<lparr>sq_transportDomain = [1], sq_transportAddress = a, sq_messageProcessingModel = 3,
     sq_securityModel = 3, sq_securityName = [], sq_securityLevel = 1, sq_contextEngineId = None,
     sq_contextName = [], sq_pduVersion = 1, sq_PDU = V1Pdu (pdu_clone GetRequest),
     sq_expectResponse = True, sq_timeout = 10, sq_cbFun = 77\<rparr>"

lemma sample_env_quiet: "quiet_env sample_env"
  by (auto simp: quiet_env_def quiet_def sample_env_def sample_mp_def sret_def sraise_def)

theorem sendPdu_remembers_iff_sent_witness:
  "\<exists>r s' r' s''. sendPdu sample_env (sample_request 9) sample_state = (r, s') \<and>
     (\<exists>ticks. r = Inr 1 \<and> ds_cache (fst s') = [(1, pending (sample_request 9) 1 ticks (Some (sample_request 9)))]) \<and>
     sendPdu sample_env (sample_request 0) sample_state = (r', s'') \<and> r' = Inl PySnmpError \<and> ds_cache (fst s'') = []"
proof -
  have rq: "sq_expectResponse (sample_request a)" for a by (simp add: sample_request_def)
  have n: "nextid_call (ds_sendPduHandle (fst sample_state)) = (Inr 1,
      \<lparr>ni_maximum = 10, ni_increment = 4, ni_threshold = 2, ni_bank = [2, 3, 4]\<rparr>)"
    and f: "1 \<notin> fst ` set (ds_cache (fst sample_state))"
    by (simp_all add: sample_state_def nextid_call_def)
  obtain r s' where s': "sendPdu sample_env (sample_request 9) sample_state = (r, s')" by (meson surj_pair)
  obtain r' s'' where s'': "sendPdu sample_env (sample_request 0) sample_state = (r', s'')" by (meson surj_pair)
  have "fst (sendPdu sample_env (sample_request 9) sample_state) = Inr 1" by code_simp
  then have "r = Inr 1" using s' by simp
  moreover have "fst (sendPdu sample_env (sample_request 0) sample_state) = Inl PySnmpError" by code_simp
  then have "r' = Inl PySnmpError" using s'' by simp
  ultimately show ?thesis
    using s' s'' sendPdu_remembers_iff_sent [OF sample_env_quiet rq n f s']
      sendPdu_remembers_iff_sent [OF sample_env_quiet rq n f s''] by (auto simp: sample_state_def)
qed

text \<open>Such an exception while the message is prepared does leave the request, which is then timed out and reported like one that was sent.\<close>

lemma other_exception_leaves_request:
  assumes "quiet_env env" and "sq_expectResponse rq"
    and "nextid_call (ds_sendPduHandle (fst s)) = (Inr h, g)" and "h \<notin> fst ` set (ds_cache (fst s))"
    and "map_of (en_subsystems env) (sq_messageProcessingModel rq) = Some mpHandler" and "en_transport env = Some t"
    and "\<And>s. fst (mh_prepareOutgoingMessage mpHandler rq h s) = Inl e" and "\<not> is_PySnmpError e"
  shows "\<exists>ticks s'. sendPdu env rq s = (Inl e, s') \<and> ds_cache (fst s') = ds_cache (fst s) @ [(h, pending rq h ticks None)]"
proof -
  let ?s1 = "((fst s)\<lparr>ds_sendPduHandle := g\<rparr>, snd s)"
  let ?p = "pending rq h (tr_getTimerTicks t ?s1) None"
  let ?s2 = "((fst ?s1)\<lparr>ds_cache := ds_cache (fst s) @ [(h, ?p)]\<rparr>, snd s)"
  have add: "cache_add h ?p ?s1 = (Inr (), ?s2)"
    using assms(4) by (simp add: cache_add_def dmodify_def smodify_def req_add_def odict_update_fresh)
  obtain s3 where out: "mh_prepareOutgoingMessage mpHandler rq h ?s2 = (Inl e, s3)" using assms(7) [of ?s2] by (metis prod.collapse)
  have "quiet (mh_prepareOutgoingMessage mpHandler rq h)"
    using assms(1,5) by (auto simp: quiet_env_def dest!: map_of_SomeD)
  then have "ds_cache (fst s3) = ds_cache (fst s) @ [(h, ?p)]" using out by (auto dest: quietD)
  moreover have "sendPdu env rq s = (Inl e, s3)"
    using assms(2,3,5,6,8) add out
    by (simp add: sendPdu_def sbind_def next_handle_def the_transport_def sget_def pending_def scatch_def reraise_PySnmpError_def sraise_def)
  ultimately show ?thesis by blast
qed

section \<open>Responses\<close>

text \<open>
  (C16) A response reaches the application that asked, once. The first response to a request calls
  the request's callback with the response, after taking the request out of the cache; any
  further response under the same handle is only counted, and changes nothing else.
\<close>

theorem response_delivered_once:
  assumes "map_of (ds_cache (fst s)) h = Some p"
    and "de_sendPduHandle de = Some h" and "de_sendPduHandle de' = Some h"
    and "en_callback env (rp_cbFun p) (Some de) (de_statusInformation de) (rp_sendPduHandle p)
      ((fst s)\<lparr>ds_cache := AList.delete h (ds_cache (fst s))\<rparr>, snd s) = (Inr (), s')"
    and "h \<notin> fst ` set (ds_cache (fst s'))"
  shows "dispatch_pdu env mpHandler td a de s = (Inr (), s') \<and>
    dispatch_pdu env mpHandler td a de' s' =
      (Inr (), (fst s')\<lparr>ds_snmpUnknownPDUHandlers := inc32 (ds_snmpUnknownPDUHandlers (fst s'))\<rparr>, snd s')"
proof -
  have "dispatch_pdu env mpHandler td a de s = (Inr (), s')"
    using assms(1,2,4) by (simp add: dispatch_pdu_def deliver_response_def sbind_def cache_pop_eq)
  moreover have "map_of (ds_cache (fst s')) h = None" using assms(5) by (simp add: map_of_eq_None_iff)
  then have "dispatch_pdu env mpHandler td a de' s' =
      (Inr (), (fst s')\<lparr>ds_snmpUnknownPDUHandlers := inc32 (ds_snmpUnknownPDUHandlers (fst s'))\<rparr>, snd s')"
    using assms(3,5) by (simp add: dispatch_pdu_def deliver_response_def sbind_def cache_pop_eq
        dmodify_def smodify_def)
  ultimately show ?thesis by blast
qed

definition sample_data :: "nat option \<Rightarrow> data_elements" where
  "sample_data h = \<lparr>de_messageProcessingModel = 3, de_securityModel = 3, de_securityName = [],
     de_securityLevel = 1, de_contextEngineId = [], de_contextName = [], de_pduVersion = 1,
     de_PDU = V1Pdu (pdu_clone Response), de_pduType = Response, de_sendPduHandle = h,
     de_maxSizeResponseScopedPDU = 0, de_statusInformation = None, de_stateReference = None\<rparr>"

theorem response_delivered_once_witness:
  "let s = ((fst sample_state)\<lparr>ds_cache := [(1, pending (sample_request 9) 1 5 None)]\<rparr>, ()) in
   dispatch_pdu sample_env sample_mp [] 0 (sample_data (Some 1)) s = (Inr (), sample_state) \<and>
   dispatch_pdu sample_env sample_mp [] 0 (sample_data (Some 1)) sample_state =
     (Inr (), (fst sample_state)\<lparr>ds_snmpUnknownPDUHandlers := 1\<rparr>, ())"
proof -
  let ?s = "((fst sample_state)\<lparr>ds_cache := [(1, pending (sample_request 9) 1 5 None)]\<rparr>, ())"
  have 1: "map_of (ds_cache (fst ?s)) 1 = Some (pending (sample_request 9) 1 5 None)" by simp
  have 2: "de_sendPduHandle (sample_data (Some 1)) = Some 1" by (simp add: sample_data_def)
  have 3: "en_callback sample_env (rp_cbFun (pending (sample_request 9) 1 5 None)) (Some (sample_data (Some 1)))
      (de_statusInformation (sample_data (Some 1))) (rp_sendPduHandle (pending (sample_request 9) 1 5 None))
      ((fst ?s)\<lparr>ds_cache := AList.delete 1 (ds_cache (fst ?s))\<rparr>, snd ?s) = (Inr (), sample_state)"
    by (simp add: sample_env_def sret_def sample_state_def)
  have 4: "1 \<notin> fst ` set (ds_cache (fst sample_state))" by (simp add: sample_state_def)
  show ?thesis
    using response_delivered_once [OF 1 2 2 3 4, of sample_mp "[]" 0]
    by (simp add: inc32_def sample_state_def)
qed

section \<open>Timeouts\<close>

definition timed_out :: status_info where
  "timed_out = no_details\<lparr>si_errorIndication := Some requestTimedOut\<rparr>"

lemma odict_delete_append: "AList.delete k (xs @ ys) = AList.delete k xs @ AList.delete k ys"
  by (simp add: AList.delete_eq)

text \<open>
  What the timer relies on. Releasing the state of a request succeeds and leaves the dispatcher
  alone; an application that is told of a failure returns, and may send new requests, which
  come after the ones there are, under handles other than the one that failed. What the
  applications were told is kept in a log.
\<close>

locale timer_env =
  fixes env :: "(('cb, 'addr, 'w) engine, 'cb, 'addr) denv"
    and t :: "(('cb, 'addr, 'w) engine, 'addr) transport"
    and ok :: "'w \<Rightarrow> bool"
    and log :: "'w \<Rightarrow> ('cb \<times> nat \<times> status_info) list"
  assumes transport: "en_transport env = Some t"
    and release: "map_of (en_subsystems env) m = Some mp \<Longrightarrow> ok w \<Longrightarrow>
      \<exists>w'. mh_releaseStateInformation mp h (d, w) = (Inr (), d, w') \<and> ok w' \<and> log w' = log w"
    and callback: "ok w \<Longrightarrow> h \<notin> fst ` set (ds_cache d) \<Longrightarrow>
      \<exists>d' w' new. en_callback env cb None (Some st) h (d, w) = (Inr (), d', w') \<and> ok w' \<and>
        log w' = log w @ [(cb, h, st)] \<and> ds_cache d' = ds_cache d @ new \<and>
        fst ` set new \<inter> insert h (fst ` set (ds_cache d)) = {}"
begin

lemma release_request:
  assumes "ok w"
  shows "\<exists>w'. releaseStateInformation env h m (d, w) =
    (Inr (), d\<lparr>ds_cache := AList.delete h (ds_cache d)\<rparr>, w') \<and> ok w' \<and> log w' = log w"
proof (cases "map_of (en_subsystems env) m")
  case None
  with assms show ?thesis
    by (simp add: releaseStateInformation_def sbind_def sret_def cache_pop_eq)
next
  case (Some mp)
  then obtain w' where "mh_releaseStateInformation mp h (d, w) = (Inr (), d, w')" "ok w'" "log w' = log w"
    using release [OF Some assms] by blast
  with Some show ?thesis
    by (simp add: releaseStateInformation_def sbind_def sret_def cache_pop_eq)
qed

lemma expire_due:
  assumes "ok w" and "rp_timeout p \<le> now" and "\<forall>s. tr_getTimerTicks t s = now"
  shows "\<exists>d' w' new. expireRequest env (Some p) None (d, w) = (Inr True, d', w') \<and> ok w' \<and>
    log w' = log w @ [(rp_cbFun p, rp_sendPduHandle p, timed_out)] \<and>
    ds_cache d' = AList.delete (rp_sendPduHandle p) (ds_cache d) @ new \<and>
    fst ` set new \<inter> insert (rp_sendPduHandle p) (fst ` set (ds_cache d)) = {}"
proof -
  let ?h = "rp_sendPduHandle p"
  obtain w1 where r: "releaseStateInformation env ?h (rp_messageProcessingModel p) (d, w) =
      (Inr (), d\<lparr>ds_cache := AList.delete ?h (ds_cache d)\<rparr>, w1)" "ok w1" "log w1 = log w"
    using release_request [OF assms(1)] by blast
  let ?d1 = "d\<lparr>ds_cache := AList.delete ?h (ds_cache d)\<rparr>"
  have "?h \<notin> fst ` set (ds_cache ?d1)" by (simp add: odict_simps)
  then obtain d' w' new where c: "en_callback env (rp_cbFun p) None (Some timed_out) ?h (?d1, w1) = (Inr (), d', w')"
    "ok w'" "log w' = log w1 @ [(rp_cbFun p, ?h, timed_out)]" "ds_cache d' = ds_cache ?d1 @ new"
    "fst ` set new \<inter> insert ?h (fst ` set (ds_cache ?d1)) = {}"
    using callback [OF r(2), of ?h ?d1 "rp_cbFun p" timed_out] by blast
  have "expireRequest env (Some p) None (d, w) = (Inr True, d', w')"
    using assms(2,3) r(1) c(1) transport
    by (simp add: expireRequest_def the_transport_def sbind_def sget_def sret_def timed_out_def)
  moreover have "fst ` set new \<inter> insert ?h (fst ` set (ds_cache d)) = {}"
    using c(5) by (auto simp: odict_simps)
  ultimately show ?thesis using r c by auto
qed

lemma expire_not_due:
  "now < rp_timeout p \<Longrightarrow> \<forall>s. tr_getTimerTicks t s = now \<Longrightarrow>
    expireRequest env (Some p) None s = (Inr False, s)"
  using transport by (cases s) (simp add: expireRequest_def the_transport_def sbind_def sget_def sret_def)

lemma expire_sweep:
  assumes "\<forall>s. tr_getTimerTicks t s = now" and "ok w" and "distinct (map fst (kept @ xs))"
    and "ds_cache d = kept @ xs @ new" and "\<forall>(h, p) \<in> set xs. rp_sendPduHandle p = h \<and> h \<notin> fst ` set new"
  shows "\<exists>d' w' new'. cache_expire (\<lambda>p. expireRequest env (Some p) None) xs (d, w) = (Inr (), d', w') \<and> ok w' \<and>
    log w' = log w @ map (\<lambda>(h, p). (rp_cbFun p, h, timed_out)) (filter (\<lambda>(h, p). rp_timeout p \<le> now) xs) \<and>
    ds_cache d' = kept @ filter (\<lambda>(h, p). now < rp_timeout p) xs @ new @ new'"
  using assms(2-5)
proof (induction xs arbitrary: kept d w new)
  case Nil
  then show ?case by (auto simp: sret_def)
next
  case (Cons x xs)
  obtain h p where x: "x = (h, p)" by (cases x)
  from Cons.prems(4) x have h: "rp_sendPduHandle p = h" "h \<notin> fst ` set new" by auto
  have h': "h \<notin> fst ` set kept" "h \<notin> fst ` set xs" using Cons.prems(2) x by auto
  show ?case
  proof (cases "rp_timeout p \<le> now")
    case False
    then have "expireRequest env (Some p) None (d, w) = (Inr False, d, w)"
      by (intro expire_not_due [OF _ assms(1)]) simp
    moreover have "ds_cache d = (kept @ [(h, p)]) @ xs @ new" using Cons.prems(3) x by simp
    moreover have "distinct (map fst ((kept @ [(h, p)]) @ xs))" using Cons.prems(2) x by simp
    ultimately show ?thesis
      using Cons.IH [OF Cons.prems(1), of "kept @ [(h, p)]" d new] Cons.prems(4) False x
      by (auto simp: sbind_def)
  next
    case True
    then obtain d1 w1 n where e: "expireRequest env (Some p) None (d, w) = (Inr True, d1, w1)" "ok w1"
      "log w1 = log w @ [(rp_cbFun p, h, timed_out)]" "ds_cache d1 = AList.delete h (ds_cache d) @ n"
      "fst ` set n \<inter> insert h (fst ` set (ds_cache d)) = {}"
      using expire_due [OF Cons.prems(1) True assms(1), of d] h(1) by blast
    let ?d2 = "d1\<lparr>ds_cache := AList.delete h (ds_cache d1)\<rparr>"
    have c: "ds_cache ?d2 = kept @ xs @ (new @ n)"
      using e(4,5) Cons.prems(3) h(2) h' x by (simp add: odict_delete_append)
    have "\<forall>(h, p) \<in> set xs. rp_sendPduHandle p = h \<and> h \<notin> fst ` set (new @ n)"
    proof (clarify)
      fix k q
      assume k: "(k, q) \<in> set xs"
      then have "k \<in> fst ` set (ds_cache d)" using Cons.prems(3) by force
      with e(5) have "k \<notin> fst ` set n" by blast
      with k Cons.prems(4) show "rp_sendPduHandle q = k \<and> k \<notin> fst ` set (new @ n)" by auto
    qed
    moreover have "distinct (map fst (kept @ xs))" using Cons.prems(2) x by simp
    ultimately obtain d' w' new' where
      "cache_expire (\<lambda>p. expireRequest env (Some p) None) xs (?d2, w1) = (Inr (), d', w')" "ok w'"
      "log w' = log w1 @ map (\<lambda>(h, p). (rp_cbFun p, h, timed_out)) (filter (\<lambda>(h, p). rp_timeout p \<le> now) xs)"
      "ds_cache d' = kept @ filter (\<lambda>(h, p). now < rp_timeout p) xs @ (new @ n) @ new'"
      using Cons.IH [OF e(2) _ c] by blast
    then show ?thesis
      using e True x by (auto simp: sbind_def dmodify_def smodify_def)
  qed
qed

end

text \<open>
  The message processing models' own cache meets the demand: whatever state it is in, releasing
  a request returns. The application here keeps a record of what it is told.
\<close>

definition mp_lift :: "(('r, 'x) mp_cache, 'a) sm \<Rightarrow> (('cb, 'addr, ('r, 'x) mp_cache \<times> 'l) engine, 'a) sm" where
  "mp_lift m s = (case m (fst (snd s)) of (r, c) \<Rightarrow> (r, fst s, c, snd (snd s)))"

definition caching_mp :: "(('cb, 'addr, ('r, 'x) mp_cache \<times> 'l) engine, 'cb, 'addr) mp_handler" where
  "caching_mp = \<lparr>mh_prepareOutgoingMessage = (\<lambda>rq h. sraise ProtocolError),
     mh_prepareResponseMessage = (\<lambda>de st. sraise ProtocolError),
     mh_prepareDataElements = (\<lambda>td a m. sraise ProtocolError),
     mh_releaseStateInformation = (\<lambda>h. mp_lift (mp_releaseStateInformation h)),
     mh_receiveTimerTick = mp_lift mp_expireCaches\<rparr>"

definition fixed_clock :: "int \<Rightarrow> ('s, 'addr) transport" where
  "fixed_clock now = \<lparr>tr_sendMessage = (\<lambda>m td a. sret ()), tr_getTimerTicks = (\<lambda>s. now),
     tr_runDeferred = (\<lambda>r. sret ())\<rparr>"

definition caching_env :: "int \<Rightarrow> (('cb, 'addr, ('r, 'x) mp_cache \<times> ('cb \<times> nat \<times> status_info) list) engine,
    'cb, 'addr) denv" where
  "caching_env now = \<lparr>en_subsystems = [(3, caching_mp)], en_securityModels = [],
     en_transport = Some (fixed_clock now), en_processPdu = (\<lambda>app de. sret False),
     en_callback = (\<lambda>cb de st h. smodify (\<lambda>(d, c, l). (d, c, case st of None \<Rightarrow> l | Some x \<Rightarrow> l @ [(cb, h, x)]))),
     en_decodeMessageVersion = (\<lambda>m. Inr 3), en_snmpEngineMaxMessageSize = 65507,
     en_snmpUnknownPDUHandlers_name = [], en_snmpEngineID = [], en_tuple = (\<lambda>a. None)\<rparr>"

lemma mp_release_total:
  assumes "mp_inv c"
  shows "\<exists>c'. mp_releaseStateInformation h c = (Inr (), c') \<and> mp_inv c'"
  using mp_popBySendPduHandle_cases [OF assms, of h] assms
  by (auto simp: mp_releaseStateInformation_def scatch_def sret_def)

lemma caching_mp_release:
  assumes "map_of (en_subsystems (caching_env now)) m = Some mp" and "mp_inv (fst w)"
  shows "\<exists>w'. mh_releaseStateInformation mp h (d, w) = (Inr (), d, w') \<and> mp_inv (fst w') \<and> snd w' = snd w"
proof -
  from assms(1) have "mp = caching_mp" by (auto simp: caching_env_def split: if_splits)
  with mp_release_total [OF assms(2), of h] show ?thesis
    by (auto simp: caching_mp_def mp_lift_def)
qed

interpretation mpt: timer_env "caching_env now" "fixed_clock now" "\<lambda>w. mp_inv (fst w)" snd
  by unfold_locales (simp add: caching_env_def, erule (1) caching_mp_release,
    auto simp: caching_env_def smodify_def)

text \<open>
  (C17) On a timer tick exactly the overdue requests are failed. Every request whose deadline has
  come is taken out of the cache and its application is told, once and in the order in which
  the requests were made, that it timed out; every other request stays as it is; what the
  applications send in response comes after them. This holds whatever the applications do
  otherwise, as long as releasing a request's state returns.
\<close>

theorem timer_reports_overdue:
  assumes "timer_env env t ok log" and "\<forall>s. tr_getTimerTicks t s = now" and "ok w"
    and "distinct (map fst (ds_cache d))" and "\<forall>(h, p) \<in> set (ds_cache d). rp_sendPduHandle p = h"
  shows "\<exists>d' w' new. receiveTimerTick env (d, w) = (Inr (), d', w') \<and> ok w' \<and>
    log w' = log w @ map (\<lambda>(h, p). (rp_cbFun p, h, timed_out))
      (filter (\<lambda>(h, p). rp_timeout p \<le> now) (ds_cache d)) \<and>
    ds_cache d' = filter (\<lambda>(h, p). now < rp_timeout p) (ds_cache d) @ new"
  using timer_env.expire_sweep [OF assms(1-3), of "[]" "ds_cache d" d "[]"] assms(4,5)
  by (simp add: receiveTimerTick_def sbind_def dget_state_def sget_def)

theorem timer_reports_overdue_witness:
  "let p = \<lambda>h timeout. \<lparr>rp_messageProcessingModel = 3, rp_sendPduHandle = h, rp_timeout = timeout,
        rp_cbFun = (7 :: nat), rp_sent = None\<rparr>;
      d = (fst sample_state)\<lparr>ds_cache := [(1, p 1 100), (2, p 2 50), (3, p 3 60)]\<rparr> in
   \<exists>d' w' new. receiveTimerTick (caching_env 60) (d, mp_cache_init, []) = (Inr (), d', w') \<and>
     snd w' = [(7, 2, timed_out), (7, 3, timed_out)] \<and> ds_cache d' = [(1, p 1 100)] @ new"
  using timer_reports_overdue [OF mpt.timer_env_axioms, of 60 60 "(mp_cache_init, [])"
      "(fst sample_state)\<lparr>ds_cache := [(1, \<lparr>rp_messageProcessingModel = 3, rp_sendPduHandle = 1,
        rp_timeout = 100, rp_cbFun = 7, rp_sent = None\<rparr>), (2, \<lparr>rp_messageProcessingModel = 3,
        rp_sendPduHandle = 2, rp_timeout = 50, rp_cbFun = 7, rp_sent = None\<rparr>), (3,
        \<lparr>rp_messageProcessingModel = 3, rp_sendPduHandle = 3, rp_timeout = 60, rp_cbFun = 7, rp_sent = None\<rparr>)]\<rparr>"]
  by (auto simp: fixed_clock_def mp_inv_init Let_def)

end
