(* ===== verification/Usm_Auth.thy ===== *)
theory Usm_Auth
  imports Snmp_Prelude
begin

text \<open>
  Keys and digests of the User-based Security Model: the password-to-key algorithm and key
  localization of \<open>pysnmp/proto/secmod/rfc3414/localkey.py\<close>, and the authentication services of
  \<open>rfc3414/auth/hmacmd5.py\<close>, \<open>hmacsha.py\<close>, \<open>noauth.py\<close> and \<open>rfc7860/auth/hmacsha2.py\<close>.

  The hash functions of \<open>hashlib\<close> and the HMAC of the standard library's \<open>hmac\<close> module are
  parameters: functions on octet strings, where feeding a hash object piece by piece is
  hashing the concatenation.

  The lemmas show that exactly the first megabyte of the endlessly repeated passphrase is
  hashed, that a message authenticated by a service is accepted by the same service with the
  same key, that what is accepted carries the digest of the message with its digest field
  cleared, and that an earlier run of zeros in the message defeats the service.
\<close>

section \<open>Keys\<close>

text \<open>
  The loop of \<open>hashPassphrase\<close>: \<open>n\<close> more blocks of 64 octets, starting at \<open>mark\<close>, and what is
  fed to the hash.
\<close>

fun ring_blocks :: "octets \<Rightarrow> nat \<Rightarrow> nat \<Rightarrow> octets" where
  "ring_blocks ring mark 0 = []"
| "ring_blocks ring mark (Suc n) =
     (let e = mark + 64 in
      if e < length ring then take 64 (drop mark ring) @ ring_blocks ring e n
      else drop mark ring @ take (e - length ring) ring @ ring_blocks ring (e - length ring) n)"

definition hashPassphrase :: "(octets \<Rightarrow> octets) \<Rightarrow> octets \<Rightarrow> octets res" where
  "hashPassphrase hashFunc passphrase =
     (if passphrase = [] then Inl ZeroDivisionError
      else let ring = concat (replicate (64 div length passphrase + 1) passphrase)
        in Inr (hashFunc (ring_blocks ring 0 16384)))"

definition localizeKey :: "(octets \<Rightarrow> octets) \<Rightarrow> octets \<Rightarrow> octets \<Rightarrow> octets" where
  "localizeKey hashFunc passKey snmpEngineId = hashFunc (passKey @ snmpEngineId @ passKey)"

definition passwordToKey :: "(octets \<Rightarrow> octets) \<Rightarrow> octets \<Rightarrow> octets \<Rightarrow> octets res" where
  "passwordToKey hashFunc passphrase snmpEngineId =
     rbind (hashPassphrase hashFunc passphrase) (\<lambda>k. Inr (localizeKey hashFunc k snmpEngineId))"

section \<open>Authentication services\<close>

text \<open>\<open>bytes.find\<close>: where the first occurrence starts.\<close>

fun find_sub :: "octets \<Rightarrow> octets \<Rightarrow> nat option" where
  "find_sub pat [] = (if pat = [] then Some 0 else None)"
| "find_sub pat (x # xs) = (if is_prefix pat (x # xs) then Some 0 else map_option Suc (find_sub pat xs))"

datatype auth_service = HmacMd5 | HmacSha | HmacSha2 sha2_variant | NoAuth
and sha2_variant = Sha224 | Sha256 | Sha384 | Sha512

text \<open>The services by the identifier of their protocol, as the security model registers them.\<close>

definition usmNoAuthProtocol :: oid where
  "usmNoAuthProtocol = [1, 3, 6, 1, 6, 3, 10, 1, 1, 1]"

definition authServices :: "oid \<rightharpoonup> auth_service" where
  "authServices = map_of
     [([1, 3, 6, 1, 6, 3, 10, 1, 1, 2], HmacMd5), ([1, 3, 6, 1, 6, 3, 10, 1, 1, 3], HmacSha),
      ([1, 3, 6, 1, 6, 3, 10, 1, 1, 4], HmacSha2 Sha224), ([1, 3, 6, 1, 6, 3, 10, 1, 1, 5], HmacSha2 Sha256),
      ([1, 3, 6, 1, 6, 3, 10, 1, 1, 6], HmacSha2 Sha384), ([1, 3, 6, 1, 6, 3, 10, 1, 1, 7], HmacSha2 Sha512),
      (usmNoAuthProtocol, NoAuth)]"

text \<open>The functions of the standard library: MD5, SHA-1, and HMAC over a SHA-2 variant.\<close>

record crypto =
  cr_md5 :: "octets \<Rightarrow> octets"
  cr_sha1 :: "octets \<Rightarrow> octets"
  cr_hmac :: "sha2_variant \<Rightarrow> octets \<Rightarrow> octets \<Rightarrow> octets"

fun digestLength :: "auth_service \<Rightarrow> nat" where
  "digestLength HmacMd5 = 12"
| "digestLength HmacSha = 12"
| "digestLength (HmacSha2 Sha224) = 16"
| "digestLength (HmacSha2 Sha256) = 24"
| "digestLength (HmacSha2 Sha384) = 32"
| "digestLength (HmacSha2 Sha512) = 48"
| "digestLength NoAuth = 0"

text \<open>HMAC as the RFC 3414 services spell it out; Python's \<open>map\<close> stops with the shorter list.\<close>

definition hmac96 :: "(octets \<Rightarrow> octets) \<Rightarrow> nat \<Rightarrow> octets \<Rightarrow> octets \<Rightarrow> octets" where
  "hmac96 hash zeros authKey wholeMsg =
     (let extendedAuthKey = authKey @ replicate zeros 0;
          k1 = map2 xor extendedAuthKey (replicate 64 0x36);
          k2 = map2 xor extendedAuthKey (replicate 64 0x5C)
      in take 12 (hash (k2 @ hash (k1 @ wholeMsg))))"

fun mac :: "crypto \<Rightarrow> auth_service \<Rightarrow> octets \<Rightarrow> octets \<Rightarrow> octets" where
  "mac cr HmacMd5 authKey wholeMsg = hmac96 (cr_md5 cr) 48 authKey wholeMsg"
| "mac cr HmacSha authKey wholeMsg = hmac96 (cr_sha1 cr) 44 authKey wholeMsg"
| "mac cr (HmacSha2 v) authKey wholeMsg = take (digestLength (HmacSha2 v)) (cr_hmac cr v authKey wholeMsg)"
| "mac cr NoAuth authKey wholeMsg = []"

definition authenticateOutgoingMsg :: "crypto \<Rightarrow> auth_service \<Rightarrow> octets \<Rightarrow> octets \<Rightarrow> octets res" where
  "authenticateOutgoingMsg cr svc authKey wholeMsg =
     (if svc = NoAuth then Inl (status noAuthentication)
      else case find_sub (replicate (digestLength svc) 0) wholeMsg of
        None \<Rightarrow> Inl ProtocolError
      | Some idx \<Rightarrow>
          Inr (take idx wholeMsg @ mac cr svc authKey wholeMsg @ drop (idx + digestLength svc) wholeMsg))"

definition authenticateIncomingMsg :: "crypto \<Rightarrow> auth_service \<Rightarrow> octets \<Rightarrow> octets \<Rightarrow> octets \<Rightarrow> octets res" where
  "authenticateIncomingMsg cr svc authKey authParameters wholeMsg =
     (if svc = NoAuth then Inl (status noAuthentication)
      else if length authParameters \<noteq> digestLength svc then Inl (status authenticationError)
      else case find_sub authParameters wholeMsg of
        None \<Rightarrow> Inl ProtocolError
      | Some idx \<Rightarrow>
          let authenticatedWholeMsg =
            take idx wholeMsg @ replicate (digestLength svc) 0 @ drop (idx + digestLength svc) wholeMsg
          in if mac cr svc authKey authenticatedWholeMsg \<noteq> authParameters
             then Inl (status authenticationFailure)
             else Inr authenticatedWholeMsg)"

text \<open>\<open>hashPassphrase\<close> and \<open>localizeKey\<close> of a service; without authentication there is no key.\<close>

fun service_hash :: "crypto \<Rightarrow> (sha2_variant \<Rightarrow> octets \<Rightarrow> octets) \<Rightarrow> auth_service \<Rightarrow> (octets \<Rightarrow> octets) option" where
  "service_hash cr sha2 HmacMd5 = Some (cr_md5 cr)"
| "service_hash cr sha2 HmacSha = Some (cr_sha1 cr)"
| "service_hash cr sha2 (HmacSha2 v) = Some (sha2 v)"
| "service_hash cr sha2 NoAuth = None"

definition service_localizeKey :: "crypto \<Rightarrow> (sha2_variant \<Rightarrow> octets \<Rightarrow> octets) \<Rightarrow> auth_service \<Rightarrow>
    octets \<Rightarrow> octets \<Rightarrow> octets option" where
  "service_localizeKey cr sha2 svc authKey snmpEngineID =
     map_option (\<lambda>h. localizeKey h authKey snmpEngineID) (service_hash cr sha2 svc)"

section \<open>The first megabyte of a repeated passphrase\<close>

definition cyclic :: "octets \<Rightarrow> nat \<Rightarrow> nat \<Rightarrow> octets" where
  "cyclic p start n = map (\<lambda>i. p ! ((start + i) mod length p)) [0..<n]"

lemma length_cyclic [simp]: "length (cyclic p start n) = n"
  by (simp add: cyclic_def)

lemma cyclic_append: "cyclic p start (m + n) = cyclic p start m @ cyclic p (start + m) n"
  by (rule nth_equalityI) (auto simp: cyclic_def nth_append add.assoc)

lemma cyclic_mod: "cyclic p (start mod length p) n = cyclic p start n"
  by (simp add: cyclic_def mod_simps)

lemma cyclic_block:
  "mark + n \<le> length p \<Longrightarrow> take n (drop mark p) = cyclic p mark n"
  by (rule nth_equalityI) (auto simp: cyclic_def)

lemma cyclic_replicate:
  assumes "p \<noteq> []" and "0 < k"
  shows "cyclic (concat (replicate k p)) start n = cyclic p start n"
proof -
  have len: "length (concat (replicate k p)) = k * length p"
    by (induction k) auto
  have nth: "concat (replicate k p) ! i = p ! (i mod length p)" if "i < k * length p" for k i
    using that
  proof (induction k arbitrary: i)
    case (Suc k)
    then show ?case
      by (auto simp: nth_append le_mod_geq not_less)
  qed simp
  have "concat (replicate k p) ! ((start + i) mod (k * length p)) = p ! ((start + i) mod length p)" for i
    using assms by (subst nth) (auto simp: mod_mod_cancel)
  then show ?thesis by (simp add: cyclic_def len)
qed

lemma ring_blocks_cyclic:
  assumes "64 \<le> length ring" and "mark < length ring"
  shows "ring_blocks ring mark n = cyclic ring mark (64 * n)"
  using assms(2)
proof (induction n arbitrary: mark)
  case 0
  then show ?case by (simp add: cyclic_def)
next
  case (Suc n)
  have split: "cyclic ring mark (64 * Suc n) = cyclic ring mark 64 @ cyclic ring (mark + 64) (64 * n)"
    using cyclic_append [of ring mark 64 "64 * n"] by simp
  show ?case
  proof (cases "mark + 64 < length ring")
    case True
    then show ?thesis using Suc.IH [OF True] split by (simp add: Let_def cyclic_block)
  next
    case False
    let ?r = "length ring" and ?o = "mark + 64 - length ring"
    have "mark + 64 = (?r - mark) + (?o + mark)" "mark + (?r - mark) = ?r" using False Suc.prems by simp_all
    have "cyclic ring mark 64 = cyclic ring mark (?r - mark) @ cyclic ring ?r ?o"
      using cyclic_append [of ring mark "?r - mark" ?o] False Suc.prems by simp
    moreover have "cyclic ring mark (?r - mark) = drop mark ring"
      using cyclic_block [of mark "?r - mark" ring] Suc.prems by simp
    moreover have "cyclic ring ?r ?o = take ?o ring"
      using cyclic_block [of 0 ?o ring] cyclic_mod [of ring ?r ?o] assms(1) Suc.prems by simp
    moreover have "cyclic ring (mark + 64) (64 * n) = ring_blocks ring ?o n"
      using Suc.IH [of ?o] cyclic_mod [of ring "mark + 64" "64 * n"] False assms(1) Suc.prems
      by (simp add: le_mod_geq cyclic_mod)
    ultimately show ?thesis using False split by (simp add: Let_def)
  qed
qed

text \<open>
  (C36) The key made from a passphrase is the hash of the first 1048576 octets of the passphrase
  repeated without end, as RFC 3414 defines it, whatever the passphrase's length: the ring
  buffer neither drops nor repeats an octet where it wraps.
\<close>

theorem hashPassphrase_megabyte:
  assumes "passphrase \<noteq> []"
  shows "hashPassphrase hashFunc passphrase =
    Inr (hashFunc (map (\<lambda>i. passphrase ! (i mod length passphrase)) [0..<1048576]))"
proof -
  let ?k = "64 div length passphrase + 1"
  have len: "length (concat (replicate ?k passphrase)) = ?k * length passphrase"
    by (simp add: length_concat sum_list_replicate)
  have "64 < ?k * length passphrase"
    using assms by (simp add: dividend_less_div_times)
  then have r: "64 \<le> length (concat (replicate ?k passphrase))" "0 < length (concat (replicate ?k passphrase))"
    unfolding len by linarith+
  have "ring_blocks (concat (replicate ?k passphrase)) 0 16384 = cyclic passphrase 0 (64 * 16384)"
    unfolding ring_blocks_cyclic [OF r] by (rule cyclic_replicate [OF assms]) simp
  then have "hashPassphrase hashFunc passphrase = Inr (hashFunc (cyclic passphrase 0 (64 * 16384)))"
    using assms by (simp only: hashPassphrase_def Let_def if_False)
  moreover have "cyclic passphrase 0 (64 * 16384) =
    map (\<lambda>i. passphrase ! (i mod length passphrase)) [0..<1048576]"
    unfolding cyclic_def add_0 by (rule arg_cong [of "64 * 16384" 1048576]) simp
  ultimately show ?thesis by (simp only:)
qed

theorem hashPassphrase_megabyte_witness:
  "hashPassphrase (take 4) [1, 2, 3] =
     Inr (take 4 (map (\<lambda>i. [1, 2, 3] ! (i mod length [1, 2, 3 :: 8 word])) [0..<1048576]))"
  by (rule hashPassphrase_megabyte) simp

section \<open>Digests\<close>

lemma find_sub_SomeD:
  "find_sub pat xs = Some i \<Longrightarrow> i + length pat \<le> length xs \<and> take (length pat) (drop i xs) = pat"
proof (induction xs arbitrary: i)
  case (Cons x xs)
  show ?case
  proof (cases "is_prefix pat (x # xs)")
    case True
    with Cons.prems is_prefix_length [OF True] show ?thesis by (auto simp: is_prefix_def)
  next
    case False
    with Cons show ?thesis by auto
  qed
qed (auto split: if_splits)

lemma splice_splice:
  assumes "i + n \<le> length xs" and "length m = n" and "length z = n"
  shows "take i (take i xs @ m @ drop (i + n) xs) @ z @ drop (i + n) (take i xs @ m @ drop (i + n) xs) =
    take i xs @ z @ drop (i + n) xs"
  using assms by simp

lemma splice_same:
  "i + n \<le> length xs \<Longrightarrow> take n (drop i xs) = z \<Longrightarrow> take i xs @ z @ drop (i + n) xs = xs"
  by (metis append_take_drop_id drop_drop add.commute)

text \<open>
  What the security model relies on in a service: where the digest goes on the way out, and
  what the way in accepts.
\<close>

locale message_auth =
  fixes n :: nat and tag :: "octets \<Rightarrow> octets \<Rightarrow> octets"
    and out :: "octets \<Rightarrow> octets \<Rightarrow> octets res"
    and inc :: "octets \<Rightarrow> octets \<Rightarrow> octets \<Rightarrow> octets res"
  assumes out_places: "find_sub (replicate n 0) msg = Some i \<Longrightarrow>
      out key msg = Inr (take i msg @ tag key msg @ drop (i + n) msg)"
    and inc_accepts: "length d = n \<Longrightarrow> find_sub d msg = Some i \<Longrightarrow>
      tag key (take i msg @ replicate n 0 @ drop (i + n) msg) = d \<Longrightarrow>
      inc key d msg = Inr (take i msg @ replicate n 0 @ drop (i + n) msg)"
    and inc_checks: "inc key d msg = Inr m \<Longrightarrow> length d = n \<and> tag key m = d \<and>
      (\<exists>i. find_sub d msg = Some i \<and> m = take i msg @ replicate n 0 @ drop (i + n) msg)"
begin

lemma accepts_own:
  assumes "find_sub (replicate n 0) msg = Some i" and "length (tag key msg) = n"
    and "find_sub (tag key msg) (take i msg @ tag key msg @ drop (i + n) msg) = Some i"
  shows "\<exists>m. out key msg = Inr m \<and> inc key (tag key msg) m = Inr msg"
proof -
  let ?m = "take i msg @ tag key msg @ drop (i + n) msg"
  have i: "i + n \<le> length msg" "take n (drop i msg) = replicate n 0"
    using find_sub_SomeD [OF assms(1)] by simp_all
  have bk: "take i ?m @ replicate n 0 @ drop (i + n) ?m = msg"
    using splice_splice [OF i(1) assms(2), of "replicate n 0"] splice_same [OF i] by simp
  then have "inc key (tag key msg) ?m = Inr (take i ?m @ replicate n 0 @ drop (i + n) ?m)"
    using assms(2,3) by (intro inc_accepts) simp_all
  with bk out_places [OF assms(1), of key] show ?thesis by simp
qed

lemma misplaced:
  assumes "find_sub (replicate n 0) msg = Some i" and "i + n \<le> p"
    and "take n (drop p msg) = replicate n 0" and "length (tag key msg) = n"
  shows "\<exists>m. out key msg = Inr m \<and> take n (drop p m) = replicate n 0 \<and> take n (drop i m) = tag key msg"
proof -
  have "i + n \<le> length msg" using find_sub_SomeD [OF assms(1)] by simp
  then have "drop p (take i msg @ tag key msg @ drop (i + n) msg) = drop p msg"
    using assms(2,4) by simp
  with assms \<open>i + n \<le> length msg\<close> out_places [OF assms(1), of key] show ?thesis by simp
qed

end

interpretation md5: message_auth 12 "mac cr HmacMd5" "authenticateOutgoingMsg cr HmacMd5"
    "authenticateIncomingMsg cr HmacMd5"
  by unfold_locales (auto simp: authenticateOutgoingMsg_def authenticateIncomingMsg_def Let_def
      split: if_splits option.splits)

interpretation sha: message_auth 12 "mac cr HmacSha" "authenticateOutgoingMsg cr HmacSha"
    "authenticateIncomingMsg cr HmacSha"
  by unfold_locales (auto simp: authenticateOutgoingMsg_def authenticateIncomingMsg_def Let_def
      split: if_splits option.splits)

interpretation sha2: message_auth "digestLength (HmacSha2 v)" "mac cr (HmacSha2 v)"
    "authenticateOutgoingMsg cr (HmacSha2 v)" "authenticateIncomingMsg cr (HmacSha2 v)"
  by unfold_locales (auto simp: authenticateOutgoingMsg_def authenticateIncomingMsg_def Let_def
      simp del: mac.simps split: if_splits option.splits)

lemma service_auth:
  assumes "svc \<noteq> NoAuth"
  shows "message_auth (digestLength svc) (mac cr svc) (authenticateOutgoingMsg cr svc)
    (authenticateIncomingMsg cr svc)"
proof (cases svc)
  case HmacMd5
  then show ?thesis using md5.message_auth_axioms by simp
next
  case HmacSha
  then show ?thesis using sha.message_auth_axioms by simp
next
  case (HmacSha2 v)
  then show ?thesis using sha2.message_auth_axioms by simp
qed (use assms in simp)

text \<open>
  (C35) A message authenticated by a service is accepted by the same service under the same key,
  and verification recovers the message as it was before the digest was put in, provided the
  digest has the service's length and does not by chance occur in the message before its own
  field. The message must have room for the digest: a run of zeros, the first one.
\<close>

theorem auth_roundtrip:
  assumes "svc \<noteq> NoAuth" and "find_sub (replicate (digestLength svc) 0) msg = Some i"
    and "length (mac cr svc key msg) = digestLength svc"
    and "find_sub (mac cr svc key msg)
      (take i msg @ mac cr svc key msg @ drop (i + digestLength svc) msg) = Some i"
  shows "\<exists>m. authenticateOutgoingMsg cr svc key msg = Inr m \<and>
    authenticateIncomingMsg cr svc key (mac cr svc key msg) m = Inr msg"
  using message_auth.accepts_own [OF service_auth [OF assms(1)] assms(2-4)] .

definition sample_crypto :: crypto where
  "sample_crypto = \<lparr>cr_md5 = (\<lambda>s. replicate 16 (of_nat (length s))),
     cr_sha1 = (\<lambda>s. replicate 20 (of_nat (length s))),
     cr_hmac = (\<lambda>v k s. replicate 28 (of_nat (length s)))\<rparr>"

theorem auth_roundtrip_witness:
  "\<exists>m. authenticateOutgoingMsg sample_crypto (HmacSha2 Sha224) [1, 2] (3 # replicate 16 0 @ [4]) = Inr m \<and>
    authenticateIncomingMsg sample_crypto (HmacSha2 Sha224) [1, 2]
      (mac sample_crypto (HmacSha2 Sha224) [1, 2] (3 # replicate 16 0 @ [4])) m = Inr (3 # replicate 16 0 @ [4])"
  by (rule auth_roundtrip [of _ _ 1]) code_simp+

text \<open>
  Only an authentic message is accepted: when a service accepts a message, the digest it was
  given is the service's digest, under that key, of the message with the digest cleared.
\<close>

theorem auth_accepts_only_authentic:
  assumes "authenticateIncomingMsg cr svc key d msg = Inr m"
  shows "svc \<noteq> NoAuth \<and> length d = digestLength svc \<and> mac cr svc key m = d \<and>
    (\<exists>i. find_sub d msg = Some i \<and>
      m = take i msg @ replicate (digestLength svc) 0 @ drop (i + digestLength svc) msg)"
proof -
  have "svc \<noteq> NoAuth" using assms by (auto simp: authenticateIncomingMsg_def)
  with message_auth.inc_checks [OF service_auth, of svc cr key d msg m] assms show ?thesis by blast
qed

theorem auth_accepts_only_authentic_witness:
  "mac sample_crypto HmacMd5 [1, 2] (replicate 12 0 @ [4]) = replicate 12 66"
proof -
  have "authenticateIncomingMsg sample_crypto HmacMd5 [1, 2] (replicate 12 66) (replicate 12 66 @ [4]) =
    Inr (replicate 12 0 @ [4])" by code_simp
  from auth_accepts_only_authentic [OF this] show ?thesis by simp
qed

text \<open>
  The digest goes into the first run of zeros of the message, which need not be the digest
  field. When something before the field, such as an engine identifier made from an IPv6
  address, holds a run of zeros of that length, it is overwritten with the digest and the
  digest field itself stays empty.
\<close>

theorem auth_digest_misplaced:
  assumes "svc \<noteq> NoAuth" and "find_sub (replicate (digestLength svc) 0) msg = Some i"
    and "i + digestLength svc \<le> field" and "take (digestLength svc) (drop field msg) = replicate (digestLength svc) 0"
    and "length (mac cr svc key msg) = digestLength svc"
  shows "\<exists>m. authenticateOutgoingMsg cr svc key msg = Inr m \<and>
    take (digestLength svc) (drop field m) = replicate (digestLength svc) 0 \<and>
    take (digestLength svc) (drop i m) = mac cr svc key msg"
  using message_auth.misplaced [OF service_auth [OF assms(1)] assms(2-5)] .

theorem auth_digest_misplaced_witness:
  "\<exists>m. authenticateOutgoingMsg sample_crypto HmacSha [1, 2]
      ([0xfe, 0x80] @ replicate 13 0 @ [1, 4, 12] @ replicate 12 0) = Inr m \<and>
    take 12 (drop 18 m) = replicate 12 0 \<and>
    take 12 (drop 2 m) = mac sample_crypto HmacSha [1, 2]
      ([0xfe, 0x80] @ replicate 13 0 @ [1, 4, 12] @ replicate 12 0)"
proof -
  let ?m = "[0xfe, 0x80] @ replicate 13 0 @ [1, 4, 12] @ replicate 12 0"
  have "find_sub (replicate (digestLength HmacSha) 0) ?m = Some 2" by code_simp
  moreover have "2 + digestLength HmacSha \<le> 18" by simp
  moreover have "take (digestLength HmacSha) (drop 18 ?m) = replicate (digestLength HmacSha) (0 :: 8 word)"
    by code_simp
  moreover have "length (mac sample_crypto HmacSha [1, 2] ?m) = digestLength HmacSha" by code_simp
  ultimately show ?thesis
    using auth_digest_misplaced [of HmacSha ?m 2 18 sample_crypto "[1, 2]"]
    by (simp only: digestLength.simps) blast
qed

end
