(* ===== verification/Usm_Priv.thy ===== *)
theory Usm_Priv
  imports Usm_Auth State_Store
begin

text \<open>
  The privacy services of the User-based Security Model: CBC-DES
  (\<open>pysnmp/proto/secmod/rfc3414/priv/des.py\<close>), triple DES (\<open>eso/priv/des3.py\<close>), CFB-AES
  (\<open>rfc3826/priv/aes.py\<close>) with the two ways to stretch a key to 192 or 256 bits
  (\<open>eso/priv/aesbase.py\<close>, \<open>aes192.py\<close>, \<open>aes256.py\<close>), and none (\<open>rfc3414/priv/nopriv.py\<close>).

  The ciphers themselves are parameters, as are the hash functions. A service keeps one counter,
  \<open>_localInt\<close>, from which the salt of each message is made; the state is that counter of every
  service.

  The lemmas show that what a service encrypts it decrypts again under the salt it returned, up
  to the padding of the block ciphers; that the salts of a boot do not repeat until the counter
  has gone all the way round; and that the localized keys have the length the cipher takes, so
  that the loop that stretches them ends.
\<close>

section \<open>Services\<close>

datatype priv_service = NoPriv | Des | Des3 | Aes
  | AesBlumenthal192 | AesBlumenthal256 | Aes192 | Aes256

definition usmNoPrivProtocol :: oid where
  "usmNoPrivProtocol = [1, 3, 6, 1, 6, 3, 10, 1, 2, 1]"

definition privServices :: "oid \<rightharpoonup> priv_service" where
  "privServices = map_of
     [([1, 3, 6, 1, 6, 3, 10, 1, 2, 2], Des), (usmNoPrivProtocol, NoPriv),
      ([1, 3, 6, 1, 6, 3, 10, 1, 2, 3], Des3), ([1, 3, 6, 1, 6, 3, 10, 1, 2, 4], Aes),
      ([1, 3, 6, 1, 4, 1, 9, 12, 6, 1, 1], AesBlumenthal192),
      ([1, 3, 6, 1, 4, 1, 9, 12, 6, 1, 2], AesBlumenthal256),
      ([1, 3, 6, 1, 4, 1, 9, 12, 6, 1, 101], Aes192),
      ([1, 3, 6, 1, 4, 1, 9, 12, 6, 1, 102], Aes256)]"

fun keySize :: "priv_service \<Rightarrow> nat" where
  "keySize NoPriv = 0"
| "keySize Des = 16"
| "keySize Des3 = 32"
| "keySize Aes = 16"
| "keySize AesBlumenthal192 = 24"
| "keySize AesBlumenthal256 = 32"
| "keySize Aes192 = 24"
| "keySize Aes256 = 32"

text \<open>A cipher of the backend, made from a key and an initialization vector.\<close>

record cipher =
  ci_encrypt :: "octets \<Rightarrow> octets \<Rightarrow> octets \<Rightarrow> octets res"
  ci_decrypt :: "octets \<Rightarrow> octets \<Rightarrow> octets \<Rightarrow> octets res"

text \<open>\<open>cipherbackend.getCipher\<close>: a backend need not have every cipher.\<close>

record ciphers =
  cs_DES :: "cipher option"
  cs_DES3 :: "cipher option"
  cs_AES :: "cipher option"

fun getCipher :: "ciphers \<Rightarrow> priv_service \<Rightarrow> cipher option" where
  "getCipher cs NoPriv = None"
| "getCipher cs Des = cs_DES cs"
| "getCipher cs Des3 = cs_DES3 cs"
| "getCipher cs svc = cs_AES cs"

section \<open>Salts and initialization vectors\<close>

text \<open>\<open>[x >> 8 * (n - 1) & 0xFF, ..., x & 0xFF]\<close>.\<close>

definition be_octets :: "nat \<Rightarrow> int \<Rightarrow> octets" where
  "be_octets n x = map (\<lambda>i. word_of_int (drop_bit (8 * i) x)) (rev [0..<n])"

type_synonym priv_state = "priv_service \<Rightarrow> nat"

fun salt_bits :: "priv_service \<Rightarrow> nat" where
  "salt_bits Des = 32"
| "salt_bits Des3 = 32"
| "salt_bits _ = 64"

definition bump_localInt :: "priv_service \<Rightarrow> (priv_state, nat) sm" where
  "bump_localInt svc st =
     (Inr (st svc), st(svc := (if st svc = 2 ^ salt_bits svc - 1 then 0 else st svc + 1)))"

text \<open>The DES key and the pre-IV: 8 and 8 octets, or 24 and 8 for triple DES.\<close>

fun desKey_length :: "priv_service \<Rightarrow> nat" where
  "desKey_length Des3 = 24"
| "desKey_length _ = 8"

definition des_getEncryptionKey :: "priv_service \<Rightarrow> octets \<Rightarrow> int \<Rightarrow>
    (priv_state, octets \<times> octets \<times> octets) sm" where
  "des_getEncryptionKey svc privKey snmpEngineBoots =
     (let n = desKey_length svc; desKey = take n privKey; preIV = take 8 (drop n privKey) in
     sbind (bump_localInt svc) (\<lambda>localInt.
     let salt = be_octets 4 snmpEngineBoots @ be_octets 4 (int localInt) in
     sret (desKey, salt, map2 xor salt preIV)))"

definition des_getDecryptionKey :: "priv_service \<Rightarrow> octets \<Rightarrow> octets \<Rightarrow> octets \<times> octets" where
  "des_getDecryptionKey svc privKey salt =
     (let n = desKey_length svc in (take n privKey, map2 xor salt (take 8 (drop n privKey))))"

definition aes_getDecryptionKey :: "priv_service \<Rightarrow> octets \<Rightarrow> int \<Rightarrow> int \<Rightarrow> octets \<Rightarrow> octets \<times> octets" where
  "aes_getDecryptionKey svc privKey snmpEngineBoots snmpEngineTime salt =
     (take (keySize svc) privKey, be_octets 4 snmpEngineBoots @ be_octets 4 snmpEngineTime @ salt)"

definition aes_getEncryptionKey :: "priv_service \<Rightarrow> octets \<Rightarrow> int \<Rightarrow> int \<Rightarrow>
    (priv_state, octets \<times> octets \<times> octets) sm" where
  "aes_getEncryptionKey svc privKey snmpEngineBoots snmpEngineTime =
     sbind (bump_localInt svc) (\<lambda>localInt.
     let salt = be_octets 8 (int localInt);
         (key, iv) = aes_getDecryptionKey svc privKey snmpEngineBoots snmpEngineTime salt
     in sret (key, iv, salt))"

section \<open>Encryption and decryption\<close>

definition des_encryptData :: "ciphers \<Rightarrow> priv_service \<Rightarrow> octets \<Rightarrow> int \<times> int \<Rightarrow> octets \<Rightarrow>
    (priv_state, octets \<times> octets) sm" where
  "des_encryptData cs svc encryptKey = (\<lambda>(snmpEngineBoots, snmpEngineTime) dataToEncrypt.
     (case getCipher cs svc of
        None \<Rightarrow> sraise (status encryptionError)
      | Some ci \<Rightarrow>
          sbind (des_getEncryptionKey svc encryptKey snmpEngineBoots) (\<lambda>(desKey, salt, iv).
          let plaintext = dataToEncrypt @ replicate (8 - length dataToEncrypt mod 8) 0 in
          sbind (sres (ci_encrypt ci desKey iv plaintext)) (\<lambda>ciphertext.
          sret (ciphertext, salt)))))"

definition des_decryptData :: "ciphers \<Rightarrow> priv_service \<Rightarrow> octets \<Rightarrow> int \<times> int \<times> octets \<Rightarrow> octets \<Rightarrow> octets res" where
  "des_decryptData cs svc decryptKey = (\<lambda>(snmpEngineBoots, snmpEngineTime, salt) encryptedData.
     (case getCipher cs svc of
        None \<Rightarrow> Inl (status decryptionError)
      | Some ci \<Rightarrow>
          if length salt \<noteq> 8 then Inl (status decryptionError)
          else let (desKey, iv) = des_getDecryptionKey svc decryptKey salt in
            if length encryptedData mod 8 \<noteq> 0 then Inl (status decryptionError)
            else ci_decrypt ci desKey iv encryptedData))"

definition aes_encryptData :: "ciphers \<Rightarrow> priv_service \<Rightarrow> octets \<Rightarrow> int \<times> int \<Rightarrow> octets \<Rightarrow>
    (priv_state, octets \<times> octets) sm" where
  "aes_encryptData cs svc encryptKey = (\<lambda>(snmpEngineBoots, snmpEngineTime) dataToEncrypt.
     (case getCipher cs svc of
        None \<Rightarrow> sraise (status encryptionError)
      | Some ci \<Rightarrow>
          sbind (aes_getEncryptionKey svc encryptKey snmpEngineBoots snmpEngineTime) (\<lambda>(aesKey, iv, salt).
          sbind (sres (ci_encrypt ci aesKey iv dataToEncrypt)) (\<lambda>ciphertext.
          sret (ciphertext, salt)))))"

definition aes_decryptData :: "ciphers \<Rightarrow> priv_service \<Rightarrow> octets \<Rightarrow> int \<times> int \<times> octets \<Rightarrow> octets \<Rightarrow> octets res" where
  "aes_decryptData cs svc decryptKey = (\<lambda>(snmpEngineBoots, snmpEngineTime, salt) encryptedData.
     (case getCipher cs svc of
        None \<Rightarrow> Inl (status decryptionError)
      | Some ci \<Rightarrow>
          if length salt \<noteq> 8 then Inl (status decryptionError)
          else let (aesKey, iv) =
              aes_getDecryptionKey svc decryptKey snmpEngineBoots snmpEngineTime salt
            in ci_decrypt ci aesKey iv encryptedData))"

fun encryptData :: "ciphers \<Rightarrow> priv_service \<Rightarrow> octets \<Rightarrow> int \<times> int \<Rightarrow> octets \<Rightarrow>
    (priv_state, octets \<times> octets) sm" where
  "encryptData cs NoPriv = (\<lambda>_ _ _. sraise (status noEncryption))"
| "encryptData cs Des = des_encryptData cs Des"
| "encryptData cs Des3 = des_encryptData cs Des3"
| "encryptData cs svc = aes_encryptData cs svc"

fun decryptData :: "ciphers \<Rightarrow> priv_service \<Rightarrow> octets \<Rightarrow> int \<times> int \<times> octets \<Rightarrow> octets \<Rightarrow> octets res" where
  "decryptData cs NoPriv = (\<lambda>_ _ _. Inl (status noEncryption))"
| "decryptData cs Des = des_decryptData cs Des"
| "decryptData cs Des3 = des_decryptData cs Des3"
| "decryptData cs svc = aes_decryptData cs svc"

section \<open>Keys\<close>

text \<open>The digest of the authentication protocol, which privacy shares.\<close>

definition hashAlgo_of :: "(auth_service \<Rightarrow> (octets \<Rightarrow> octets) option) \<Rightarrow> oid \<Rightarrow> (octets \<Rightarrow> octets) res" where
  "hashAlgo_of hashes authProtocol =
     of_option ProtocolError (Option.bind (authServices authProtocol) hashes)"

definition priv_hashPassphrase :: "(auth_service \<Rightarrow> (octets \<Rightarrow> octets) option) \<Rightarrow> priv_service \<Rightarrow> oid \<Rightarrow>
    octets \<Rightarrow> octets option res" where
  "priv_hashPassphrase hashes svc authProtocol privKey =
     (if svc = NoPriv then Inr None
      else rbind (hashAlgo_of hashes authProtocol) (\<lambda>h. rbind (hashPassphrase h privKey) (\<lambda>k. Inr (Some k))))"

text \<open>Blumenthal: the hash of what there is, appended.\<close>

fun blumenthal_extend :: "(octets \<Rightarrow> octets) \<Rightarrow> nat \<Rightarrow> octets \<Rightarrow> octets" where
  "blumenthal_extend hash 0 k = k"
| "blumenthal_extend hash (Suc n) k = blumenthal_extend hash n (k @ hash k)"

text \<open>Reeder: the password-to-key step on what there is, localized and appended.\<close>

partial_function (option) reeder_extend :: "(octets \<Rightarrow> octets) \<Rightarrow> octets \<Rightarrow> nat \<Rightarrow> octets \<Rightarrow> octets res option" where
  "reeder_extend hash snmpEngineID keySz k =
     (if length k < keySz
      then (case hashPassphrase hash k of
              Inl e \<Rightarrow> Some (Inl e)
            | Inr newKey \<Rightarrow> reeder_extend hash snmpEngineID keySz (k @ localizeKey hash newKey snmpEngineID))
      else Some (Inr k))"

text \<open>
  \<open>localizeKey\<close> of the services; without privacy there is no key. The count of Blumenthal's loop
  divides by the length of the digest. \<open>None\<close> is a loop that does not end.
\<close>

definition priv_localizeKey :: "(auth_service \<Rightarrow> (octets \<Rightarrow> octets) option) \<Rightarrow> priv_service \<Rightarrow> oid \<Rightarrow>
    octets \<Rightarrow> octets \<Rightarrow> octets option res option" where
  "priv_localizeKey hashes svc authProtocol privKey snmpEngineID =
     (if svc = NoPriv then Some (Inr None)
      else case hashAlgo_of hashes authProtocol of
        Inl e \<Rightarrow> Some (Inl e)
      | Inr hash \<Rightarrow>
          let k = localizeKey hash privKey snmpEngineID in
          if svc \<in> {Des, Aes} then Some (Inr (Some (take (keySize svc) k)))
          else if svc \<in> {AesBlumenthal192, AesBlumenthal256} then
            if k = [] then Some (Inl ZeroDivisionError)
            else let n = (keySize svc + length k - 1) div length k - 1 in
              Some (Inr (Some (take (keySize svc) (blumenthal_extend hash n k))))
          else map_option (\<lambda>r. rbind r (\<lambda>k. Inr (Some (take (keySize svc) k))))
                 (reeder_extend hash snmpEngineID (keySize svc) k))"


section \<open>The salt\<close>

lemma length_be_octets [simp]: "length (be_octets n x) = n"
  by (simp add: be_octets_def)

lemma be_octets_Suc: "be_octets (Suc n) x = word_of_int (drop_bit (8 * n) x) # be_octets n x"
  by (simp add: be_octets_def)

lemma be_octets_inject: "be_octets n x = be_octets n y \<longleftrightarrow> take_bit (8 * n) x = take_bit (8 * n) y"
proof (induction n)
  case (Suc n)
  have b: "bit (take_bit (8 * Suc n) z) j \<longleftrightarrow>
      bit (take_bit (8 * n) z) j \<or> (8 * n \<le> j \<and> bit (take_bit 8 (drop_bit (8 * n) z)) (j - 8 * n))" for z :: int and j
    by (auto simp: bit_take_bit_iff bit_drop_bit_eq)
  have "take_bit (8 * Suc n) x = take_bit (8 * Suc n) y \<longleftrightarrow>
      take_bit (8 * n) x = take_bit (8 * n) y \<and>
      take_bit 8 (drop_bit (8 * n) x) = take_bit 8 (drop_bit (8 * n) y)" (is "?l \<longleftrightarrow> ?r")
  proof
    assume ?l
    then have e: "bit x j \<longleftrightarrow> bit y j" if "j < 8 * Suc n" for j
      using that by (metis bit_take_bit_iff)
    then show ?r by (auto simp: bit_eq_iff bit_take_bit_iff bit_drop_bit_eq)
  next
    assume r: ?r
    show ?l by (rule bit_eqI) (use r in \<open>simp only: b\<close>)
  qed
  moreover have "word_of_int u = (word_of_int v :: 8 word) \<longleftrightarrow> take_bit 8 u = take_bit 8 v" for u v
    by (simp add: word_of_int_eq_iff)
  ultimately show ?case using Suc by (auto simp: be_octets_Suc)
qed (simp add: be_octets_def)

text \<open>The salt of a message, made from the counter at that time, and the counter afterwards.\<close>

definition salt_of :: "priv_service \<Rightarrow> int \<Rightarrow> nat \<Rightarrow> octets" where
  "salt_of svc boots n =
     (if salt_bits svc = 32 then be_octets 4 boots @ be_octets 4 (int n) else be_octets 8 (int n))"

lemma length_salt_of [simp]: "length (salt_of svc boots n) = 8"
  by (simp add: salt_of_def)

lemma salt_of_inject:
  "m < 2 ^ salt_bits svc \<Longrightarrow> n < 2 ^ salt_bits svc \<Longrightarrow> salt_of svc boots m = salt_of svc boots n \<longleftrightarrow> m = n"
  by (cases svc) (auto simp: salt_of_def be_octets_inject take_bit_int_eq_self)

lemma encryptData_Inr:
  assumes "encryptData cs svc key (boots, tm) d st = (Inr (ct, salt), st')" and "st svc < 2 ^ salt_bits svc"
  shows "svc \<noteq> NoPriv \<and> salt = salt_of svc boots (st svc) \<and>
    st' = st(svc := (st svc + 1) mod 2 ^ salt_bits svc)"
  using assms
  by (cases svc) (auto simp: des_encryptData_def aes_encryptData_def des_getEncryptionKey_def
      aes_getEncryptionKey_def aes_getDecryptionKey_def bump_localInt_def Let_def sm_defs salt_of_def
      fun_eq_iff split: option.splits sum.splits if_splits)

lemma salts_of_run:
  assumes "run_all (\<lambda>(tm, d). encryptData cs svc key (boots, tm) d) ms st = (Inr rs, st')"
    and "st svc < 2 ^ salt_bits svc"
  shows "map snd rs = map (\<lambda>i. salt_of svc boots ((st svc + i) mod 2 ^ salt_bits svc)) [0..<length ms]"
  using assms
proof (induction ms arbitrary: st rs)
  case (Cons m ms)
  obtain tm d where m: "m = (tm, d)" by (cases m)
  from Cons.prems(1) m obtain ct salt st1 rs' where
    e: "encryptData cs svc key (boots, tm) d st = (Inr (ct, salt), st1)" and
    r: "run_all (\<lambda>(tm, d). encryptData cs svc key (boots, tm) d) ms st1 = (Inr rs', st')" and
    rs: "rs = (ct, salt) # rs'"
    by (auto simp: sbind_eq_Inr_iff sret_def)
  note * = encryptData_Inr [OF e Cons.prems(2)]
  then have "map snd rs' = map (\<lambda>i. salt_of svc boots ((st1 svc + i) mod 2 ^ salt_bits svc)) [0..<length ms]"
    by (intro Cons.IH [OF r]) simp
  also have "\<dots> = map (\<lambda>i. salt_of svc boots ((st svc + Suc i) mod 2 ^ salt_bits svc)) [0..<length ms]"
    using * by (simp add: mod_simps)
  also have "\<dots> = map (\<lambda>i. salt_of svc boots ((st svc + i) mod 2 ^ salt_bits svc)) [1..<Suc (length ms)]"
    unfolding One_nat_def map_Suc_upt [symmetric] by (simp add: comp_def)
  finally have "map snd rs' = map (\<lambda>i. salt_of svc boots ((st svc + i) mod 2 ^ salt_bits svc)) [1..<Suc (length ms)]" .
  moreover have "salt = salt_of svc boots ((st svc + 0) mod 2 ^ salt_bits svc)"
    using * Cons.prems(2) by simp
  moreover have "[0..<length (m # ms)] = 0 # [1..<Suc (length ms)]"
    by (simp add: upt_conv_Cons del: upt_Suc)
  ultimately show ?case unfolding rs by (simp del: upt_Suc)
qed (simp add: sret_def)

text \<open>
  (C34) No two messages a privacy service encrypts within one boot of the engine carry the same
  salt, before its counter has gone all the way round: \<open>2 ^ 32\<close> messages for the two DES services,
  \<open>2 ^ 64\<close> for AES. So no initialization vector is used twice.
\<close>

theorem priv_salts_differ:
  assumes "run_all (\<lambda>(tm, d). encryptData cs svc key (boots, tm) d) ms st = (Inr rs, st')"
    and "st svc < 2 ^ salt_bits svc" and "length ms \<le> 2 ^ salt_bits svc"
  shows "distinct (map snd rs)"
proof -
  let ?M = "2 ^ salt_bits svc :: nat"
  have le: "i = j" if "i < length ms" "j < length ms" "i \<le> j"
    "(st svc + i) mod ?M = (st svc + j) mod ?M" for i j
  proof -
    have "?M dvd (st svc + j) - (st svc + i)"
      using that(3,4) by (subst mod_eq_dvd_iff_nat [symmetric]) simp_all
    then have "?M dvd j - i" by simp
    moreover have "j - i < ?M" using that(2) assms(3) by simp
    ultimately show ?thesis using that(3) by (metis dvd_imp_le diff_is_0_eq le_antisym not_less zero_less_iff_neq_zero)
  qed
  have "i = j" if "i < length ms" "j < length ms" "(st svc + i) mod ?M = (st svc + j) mod ?M" for i j
    using le [of i j] le [of j i] that by (cases "i \<le> j") auto
  then show ?thesis
    unfolding salts_of_run [OF assms(1,2)]
    by (auto simp: distinct_map inj_on_def salt_of_inject)
qed


text \<open>
  A concrete cipher for the examples: the key stream is one octet, made from the initialization
  vector and the key.
\<close>

definition sample_cipher :: cipher where
  "sample_cipher = \<lparr>ci_encrypt = (\<lambda>key iv. Inr \<circ> map (xor (hd key + last iv))),
     ci_decrypt = (\<lambda>key iv. Inr \<circ> map (xor (hd key + last iv)))\<rparr>"

definition sample_ciphers :: ciphers where
  "sample_ciphers = \<lparr>cs_DES = Some sample_cipher, cs_DES3 = Some sample_cipher, cs_AES = Some sample_cipher\<rparr>"


text \<open>What a cipher does: it decrypts what it encrypted, and keeps the length.\<close>

definition cipher_inverts :: "cipher \<Rightarrow> bool" where
  "cipher_inverts ci \<longleftrightarrow> (\<forall>key iv d c. ci_encrypt ci key iv d = Inr c \<longrightarrow>
     ci_decrypt ci key iv c = Inr d \<and> length c = length d)"

fun padding :: "priv_service \<Rightarrow> octets \<Rightarrow> octets" where
  "padding Des d = replicate (8 - length d mod 8) 0"
| "padding Des3 d = replicate (8 - length d mod 8) 0"
| "padding _ d = []"

lemma decrypts_encrypted:
  assumes "encryptData cs svc key (boots, tm) d st = (Inr (c, salt), st')"
    and "st svc < 2 ^ salt_bits svc" and "getCipher cs svc = Some ci" and "cipher_inverts ci"
  shows "decryptData cs svc key (boots, tm, salt) c = Inr (d @ padding svc d)"
proof -
  have salt: "length salt = 8" using encryptData_Inr [OF assms(1,2)] by simp
  have pad: "(length d + (8 - length d mod 8)) mod 8 = 0" by presburger
  show ?thesis
    using assms salt pad
    by (cases svc) (auto simp: des_encryptData_def aes_encryptData_def des_decryptData_def
        aes_decryptData_def des_getEncryptionKey_def des_getDecryptionKey_def
      aes_getEncryptionKey_def aes_getDecryptionKey_def bump_localInt_def Let_def sm_defs
      cipher_inverts_def split: option.splits sum.splits if_splits)
qed

text \<open>
  What a privacy service encrypts it decrypts, given the key, the boots and time and the salt
  that went with the message: AES gives back the data, and the two DES services the data with the
  zeros it was padded with to whole blocks.
\<close>

theorem priv_roundtrip:
  assumes "encryptData cs svc key (boots, tm) d st = (Inr (c, salt), st')"
    and "st svc < 2 ^ salt_bits svc" and "getCipher cs svc = Some ci" and "cipher_inverts ci"
  shows "decryptData cs svc key (boots, tm, salt) c = Inr (d @ padding svc d)"
  by (rule decrypts_encrypted [OF assms])


section \<open>Stretching a key\<close>

lemma localizeKey_def': "localizeKey h k e = h (k @ e @ k)"
  by (simp add: localizeKey_def)

lemma length_blumenthal:
  "(\<And>x. length (h x) = m) \<Longrightarrow> length (blumenthal_extend h n k) = length k + n * m"
  by (induction n arbitrary: k) auto

lemma blumenthal_prefix: "take (length k) (blumenthal_extend h n k) = k"
proof (induction n arbitrary: k)
  case (Suc n)
  have "take (length k) (blumenthal_extend h (Suc n) k) =
      take (length k) (take (length (k @ h k)) (blumenthal_extend h n (k @ h k)))"
    by (simp add: min_absorb1)
  also have "\<dots> = k" using Suc [of "k @ h k"] by simp
  finally show ?case .
qed simp

text \<open>
  Reeder's loop ends: each round appends the hash of something, and no hash is empty.
\<close>

lemma reeder_extend_ends:
  assumes "\<And>x. length (h x) = m" and "0 < m" and "k \<noteq> []"
  shows "\<exists>k'. reeder_extend h e sz k = Some (Inr k') \<and> sz \<le> length k' \<and> take (length k) k' = k"
  using assms(3)
proof (induction "sz - length k" arbitrary: k rule: less_induct)
  case less
  show ?case
  proof (cases "length k < sz")
    case True
    obtain nk where nk: "hashPassphrase h k = Inr nk" using less.prems by (simp add: hashPassphrase_def Let_def)
    let ?k = "k @ localizeKey h nk e"
    have "sz - length ?k < sz - length k" "?k \<noteq> []" using True assms(1,2) less.prems by (simp_all add: localizeKey_def')
    from less.hyps [OF this] obtain k' where k': "reeder_extend h e sz ?k = Some (Inr k')"
      "sz \<le> length k'" "take (length ?k) k' = ?k" by blast
    have "take (length k) k' = take (length k) (take (length ?k) k')" by (simp add: min_absorb1)
    also have "\<dots> = k" unfolding k'(3) by simp
    finally have "take (length k) k' = k" .
    then show ?thesis using True nk k' by (subst reeder_extend.simps) simp
  qed (simp add: reeder_extend.simps)
qed

text \<open>
  With a digest of fixed, positive length (of 16 octets at least where the service does not
  stretch the key), localizing a privacy key ends, raises nothing, and gives a key of exactly the
  length the cipher takes that starts with the localized key: the loops of both ways to stretch a
  key run to their end.
\<close>

theorem priv_localizeKey_ends:
  assumes "hashAlgo_of hashes authProtocol = Inr h" and "\<And>x. length (h x) = n"
    and "if svc \<in> {Des, Aes} then 16 \<le> n else 0 < n" and "svc \<noteq> NoPriv"
  shows "\<exists>k. priv_localizeKey hashes svc authProtocol privKey snmpEngineID = Some (Inr (Some k)) \<and>
    length k = keySize svc \<and> take n k = take (keySize svc) (localizeKey h privKey snmpEngineID)"
proof -
  let ?k = "localizeKey h privKey snmpEngineID"
  have k: "length ?k = n" "?k \<noteq> []" using assms(2,3) by (auto simp: localizeKey_def' split: if_splits simp flip: length_0_conv)
  consider "svc \<in> {Des, Aes}" | "svc \<in> {AesBlumenthal192, AesBlumenthal256}" | "svc \<in> {Des3, Aes192, Aes256}"
    using assms(4) by (cases svc) auto
  then show ?thesis
  proof cases
    case 1
    then show ?thesis using assms(1,3) k by (auto simp: priv_localizeKey_def Let_def)
  next
    case 2
    then have n: "0 < n" using assms(3) by auto
    let ?c = "(keySize svc + n - 1) div n - 1" and ?K = "keySize svc"
    have c: "?K \<le> n + ?c * n"
    proof -
      have "?K + n - 1 < ((?K + n - 1) div n + 1) * n" using n by (metis Suc_eq_plus1 dividend_less_times_div mult.commute mult_Suc_right add.commute)
      moreover have "1 \<le> (?K + n - 1) div n" using n 2 by (subst less_eq_div_iff_mult_less_eq) auto
      ultimately show ?thesis using n by (cases "(?K + n - 1) div n") auto
    qed
    have len: "length (blumenthal_extend h ?c ?k) = n + ?c * n"
      using length_blumenthal [of h n ?c ?k] assms(2) k(1) by simp
    have "take n (take ?K (blumenthal_extend h ?c ?k)) = take ?K (take n (blumenthal_extend h ?c ?k))"
      by (simp add: min.commute)
    also have "take n (blumenthal_extend h ?c ?k) = ?k" using blumenthal_prefix [of ?k h ?c] k(1) by simp
    finally show ?thesis using 2 assms(1) k c len by (auto simp: priv_localizeKey_def Let_def)
  next
    case 3
    then have n: "0 < n" using assms(3) by auto
    obtain k' where k': "reeder_extend h snmpEngineID (keySize svc) ?k = Some (Inr k')"
      "keySize svc \<le> length k'" "take n k' = ?k"
      using reeder_extend_ends [of h n ?k snmpEngineID "keySize svc"] assms(2) n k by auto
    have "take n (take (keySize svc) k') = take (keySize svc) (take n k')" by (simp add: min.commute)
    then show ?thesis using 3 assms(1) k' by (auto simp: priv_localizeKey_def Let_def)
  qed
qed

theorem priv_localizeKey_ends_witness:
  "\<exists>k. priv_localizeKey (\<lambda>_. Some (\<lambda>_. replicate 20 1)) Aes256 [1, 3, 6, 1, 6, 3, 10, 1, 1, 3] [5] [6]
      = Some (Inr (Some k)) \<and> length k = 32 \<and> take 20 k = replicate 20 1"
  using priv_localizeKey_ends [of "\<lambda>_. Some (\<lambda>_. replicate 20 1)" "[1, 3, 6, 1, 6, 3, 10, 1, 1, 3]"
      "\<lambda>_. replicate 20 1" 20 Aes256 "[5]" "[6]"]
  by (simp add: hashAlgo_of_def authServices_def localizeKey_def)

lemmas priv_defs = des_encryptData_def aes_encryptData_def des_decryptData_def aes_decryptData_def
  des_getEncryptionKey_def des_getDecryptionKey_def aes_getEncryptionKey_def aes_getDecryptionKey_def
  bump_localInt_def

theorem priv_salts_differ_witness:
  "\<exists>rs st'. run_all (\<lambda>(tm, d). encryptData sample_ciphers Des (replicate 16 1) (7, tm) d)
     [(0, [9]), (1, [3])] (\<lambda>_. 4294967295) = (Inr rs, st') \<and> distinct (map snd rs)"
proof -
  obtain rs st' where r: "run_all (\<lambda>(tm, d). encryptData sample_ciphers Des (replicate 16 1) (7, tm) d)
     [(0, [9]), (1, [3])] (\<lambda>_. 4294967295) = (Inr rs, st')"
    by (simp add: priv_defs sample_ciphers_def sample_cipher_def sm_defs Let_def)
  then show ?thesis using priv_salts_differ [OF r] by auto
qed

theorem priv_roundtrip_witness:
  "\<exists>c salt st'. encryptData sample_ciphers Des (replicate 16 1) (7, 0) [9, 8] (\<lambda>_. 5) = (Inr (c, salt), st') \<and>
     decryptData sample_ciphers Des (replicate 16 1) (7, 0, salt) c = Inr [9, 8, 0, 0, 0, 0, 0, 0]"
proof -
  obtain c salt st' where r: "encryptData sample_ciphers Des (replicate 16 1) (7, 0) [9, 8] (\<lambda>_. 5) = (Inr (c, salt), st')"
    by (simp add: priv_defs sample_ciphers_def sample_cipher_def sm_defs Let_def)
  have "cipher_inverts sample_cipher"
    by (auto simp: cipher_inverts_def sample_cipher_def comp_def xor.left_commute)
  then have "decryptData sample_ciphers Des (replicate 16 1) (7, 0, salt) c = Inr ([9, 8] @ replicate 6 0)"
    using priv_roundtrip [OF r, of sample_cipher] by (simp add: sample_ciphers_def)
  moreover have "replicate 6 0 = [0, 0, 0, 0, 0, 0 :: 8 word]" by (simp add: numeral_eq_Suc)
  ultimately show ?thesis using r by auto
qed

end
