(* ===== verification/Usm.thy ===== *)
theory Usm
  imports Engine_Caches Usm_Priv
begin

text \<open>
  The User-based Security Model, \<open>pysnmp/proto/secmod/rfc3414/service.py\<close>: what happens to an
  incoming message (\<open>processIncomingMsg\<close>), and how what is known of other engines' clocks is
  kept and expired.

  The decoder, the user table, the clock and the privacy services are an environment; the
  authentication services and the cache of security state are those of the development.
  \<open>processIncomingMsg\<close> is the composition of its numbered steps, in the code's order.

  The lemmas show that an authenticated message that gets through was authenticated with the
  user's key and, where this engine is the authoritative one, was sent in the last moments;
  and that where it is not, the check against replay compares the message with itself.
\<close>

section \<open>State and environment\<close>

record usm_params =
  up_engineId :: octets
  up_engineBoots :: int
  up_engineTime :: int
  up_userName :: octets
  up_authParameters :: octets
  up_privParameters :: octets

record user_info =
  ui_userName :: octets
  ui_securityName :: octets
  ui_authProtocol :: oid
  ui_authKey :: octets
  ui_privProtocol :: oid
  ui_privKey :: octets

text \<open>What is cached for the response: the user name, and the rest once the user is known.\<close>

record usm_data =
  ud_msgUserName :: octets
  ud_user :: "user_info option"

record timeline =
  tl_engineBoots :: int
  tl_engineTime :: int
  tl_latestReceivedEngineTime :: int
  tl_latestUpdateTimestamp :: int

record usm =
  us_cache :: "usm_data sec_cache"
  us_timeline :: "octets \<rightharpoonup> timeline"
  us_timelineExpQueue :: "nat \<rightharpoonup> octets list"
  us_expirationTimer :: nat
  us_unknownEngineIDs :: int
  us_unknownUserNames :: int
  us_unsupportedSecLevels :: int
  us_wrongDigests :: int
  us_notInTimeWindows :: int
  us_decryptionErrors :: int
  us_snmpInGenErrs :: int
  us_localInt :: priv_state
  us_requestID :: nextid
  us_paramsBranchId :: int
  us_securityToUserMap :: "octets \<times> octets \<rightharpoonup> octets"

text \<open>
  Beside the caches of this model and the counters of its MIB, the state has the counters of the
  privacy services and the generator of request identifiers, which other parts draw from too.

  The decoders return \<open>None\<close> for an end-of-octets marker; \<open>ue_time\<close> is the \<open>i\<close>th reading of the
  wall clock while the message is processed; \<open>ue_lifetime\<close> is 300 seconds in timer ticks.
\<close>

record 'm usm_env =
  ue_decodeParameters :: "octets \<Rightarrow> usm_params option res"
  ue_isPlaintext :: "'m \<Rightarrow> bool"
  ue_plaintext :: "'m \<Rightarrow> scoped_pdu option"
  ue_encryptedPDU :: "'m \<Rightarrow> octets option"
  ue_decodeScopedPDU :: "octets \<Rightarrow> scoped_pdu option res"
  ue_getUserInfo :: "octets \<Rightarrow> octets \<Rightarrow> user_info res"
  ue_crypto :: crypto
  ue_decryptData :: "oid \<rightharpoonup> (octets \<Rightarrow> int \<times> int \<times> octets \<Rightarrow> octets \<Rightarrow> octets res)"
  ue_snmpEngineID :: octets
  ue_snmpEngineBoots :: int
  ue_snmpEngineTime :: int
  ue_time :: "nat \<Rightarrow> int"
  ue_lifetime :: nat
  ue_discoverable :: bool

definition wildcardSecurityEngineId :: octets where
  "wildcardSecurityEngineId = [0, 0, 0, 0, 0]"

definition usmStats :: "nat \<Rightarrow> oid" where
  "usmStats n = [1, 3, 6, 1, 6, 3, 15, 1, 1, n, 0]"

definition inc_counter :: "(usm \<Rightarrow> int) \<Rightarrow> ((int \<Rightarrow> int) \<Rightarrow> usm \<Rightarrow> usm) \<Rightarrow> (usm, int) sm" where
  "inc_counter get upd = sbind (smodify (upd (\<lambda>x. (x + 1) mod 4294967296))) (\<lambda>_. sget get)"

text \<open>The security state cache, as part of the model's state.\<close>

definition on_cache :: "(usm_data sec_cache, 'a) sm \<Rightarrow> (usm, 'a) sm" where
  "on_cache m s = (case m (us_cache s) of (r, c) \<Rightarrow> (r, s\<lparr>us_cache := c\<rparr>))"

section \<open>The steps of \<open>processIncomingMsg\<close>\<close>

text \<open>What a report needs to know, apart from the counter.\<close>

record report_ctx =
  rc_stateReference :: nat
  rc_securityLevel :: nat
  rc_contextEngineId :: octets
  rc_contextName :: octets
  rc_userName :: "octets option"
  rc_maxSize :: int
  rc_scopedPDU :: "scoped_pdu option"

definition usm_error :: "errind \<Rightarrow> oid \<Rightarrow> int \<Rightarrow> report_ctx \<Rightarrow> exn" where
  "usm_error e counter val rc = StatusInformation (no_details\<lparr>si_errorIndication := Some e,
     si_oid := Some counter, si_val := Some val, si_securityStateReference := Some (rc_stateReference rc),
     si_securityLevel := Some (rc_securityLevel rc), si_contextEngineId := Some (rc_contextEngineId rc),
     si_contextName := Some (rc_contextName rc), si_msgUserName := rc_userName rc,
     si_maxSizeResponseScopedPDU := Some (rc_maxSize rc), si_scopedPDU := rc_scopedPDU rc\<rparr>)"

text \<open>3.2.3: the authoritative engine is this one, one whose clock is known, or at least a proper one.\<close>

definition check_engine :: "'m usm_env \<Rightarrow> usm_params \<Rightarrow> 'm \<Rightarrow> report_ctx \<Rightarrow> (usm, unit) sm" where
  "check_engine env sp msg rc =
     sbind (sget us_timeline) (\<lambda>tl.
     if up_engineId sp \<noteq> ue_snmpEngineID env \<and> tl (up_engineId sp) = None \<and>
        \<not> (4 < length (up_engineId sp) \<and> length (up_engineId sp) < 33)
     then sbind (inc_counter us_unknownEngineIDs us_unknownEngineIDs_update) (\<lambda>val.
       if ue_discoverable env then
         if \<not> ue_isPlaintext env msg then sraise (status unknownEngineID)
         else (case ue_plaintext env msg of
             None \<Rightarrow> sraise AttributeError
           | Some scopedPdu \<Rightarrow>
               sraise (usm_error unknownEngineID (usmStats 4) val
                 (rc\<lparr>rc_contextEngineId := sp_contextEngineId scopedPdu,
                     rc_contextName := sp_contextName scopedPdu, rc_scopedPDU := Some scopedPdu\<rparr>)))
       else sraise (status unknownEngineID))
     else sret ())"

text \<open>3.2.4: the user, at the authoritative engine or else at any.\<close>

definition blank_user :: user_info where
  "blank_user = \<lparr>ui_userName = [], ui_securityName = [], ui_authProtocol = usmNoAuthProtocol,
     ui_authKey = [], ui_privProtocol = usmNoPrivProtocol, ui_privKey = []\<rparr>"

definition invalid_message :: "(usm, 'a) sm" where
  "invalid_message = sbind (inc_counter us_snmpInGenErrs us_snmpInGenErrs_update) (\<lambda>_. sraise (status invalidMsg))"

definition lookup_user :: "'m usm_env \<Rightarrow> usm_params \<Rightarrow> report_ctx \<Rightarrow> (usm, user_info) sm" where
  "lookup_user env sp rc =
     (if up_userName sp = [] then sret blank_user
      else case ue_getUserInfo env (up_engineId sp) (up_userName sp) of
        Inr u \<Rightarrow> sret u
      | Inl e \<Rightarrow>
          if is_smi {NoSuchInstanceErr} e then
            (case ue_getUserInfo env wildcardSecurityEngineId (up_userName sp) of
               Inr u \<Rightarrow> sret u
             | Inl e \<Rightarrow>
                 if is_smi {NoSuchInstanceErr} e then
                   sbind (inc_counter us_unknownUserNames us_unknownUserNames_update) (\<lambda>val.
                   sraise (usm_error unknownSecurityName (usmStats 3) val
                     (rc\<lparr>rc_userName := Some (up_userName sp)\<rparr>)))
                 else sraise e)
          else if is_PyAsn1Error e then invalid_message
          else sraise e)"

text \<open>3.2.11, moved up: the state for the response, and for authenticated reports.\<close>

definition recache :: "nat \<Rightarrow> usm_params \<Rightarrow> user_info \<Rightarrow> (usm, nat) sm" where
  "recache ref sp u =
     sbind (on_cache (sec_pop ref)) (\<lambda>_.
     on_cache (sec_push \<lparr>ud_msgUserName = up_userName sp, ud_user = Some u\<rparr>))"

text \<open>3.2.5: as the authoritative engine, the message must have the level the user has.\<close>

definition bad_level :: "usm_params \<Rightarrow> user_info \<Rightarrow> nat \<Rightarrow> bool" where
  "bad_level sp u securityLevel =
     (if securityLevel = 3 then
        ui_authProtocol u = usmNoAuthProtocol \<or> ui_privProtocol u = usmNoPrivProtocol
      else if securityLevel = 2 then
        ui_authProtocol u = usmNoAuthProtocol \<or>
        (ui_privProtocol u \<noteq> usmNoPrivProtocol \<and> (up_engineBoots sp \<noteq> 0 \<or> up_engineTime sp \<noteq> 0))
      else if securityLevel = 1 then
        ui_authProtocol u \<noteq> usmNoAuthProtocol \<or> ui_privProtocol u \<noteq> usmNoPrivProtocol
      else False)"

definition check_level :: "'m usm_env \<Rightarrow> usm_params \<Rightarrow> user_info \<Rightarrow> report_ctx \<Rightarrow> (usm, unit) sm" where
  "check_level env sp u rc =
     (if up_engineId sp = ue_snmpEngineID env \<and> bad_level sp u (rc_securityLevel rc)
      then sbind (inc_counter us_unsupportedSecLevels us_unsupportedSecLevels_update) (\<lambda>val.
        sraise (usm_error unsupportedSecurityLevel (usmStats 1) val rc))
      else sret ())"

text \<open>The clock of an engine just heard of, and its entry in the expiration queue.\<close>

definition store_timeline :: "'m usm_env \<Rightarrow> usm_params \<Rightarrow> int \<Rightarrow> (usm, unit) sm" where
  "store_timeline env sp now =
     smodify (\<lambda>s.
       let expireAt = us_expirationTimer s + ue_lifetime env;
           q = (case us_timelineExpQueue s expireAt of None \<Rightarrow> [] | Some q \<Rightarrow> q)
       in s\<lparr>us_timeline := (us_timeline s)(up_engineId sp \<mapsto>
              \<lparr>tl_engineBoots = up_engineBoots sp, tl_engineTime = up_engineTime sp,
               tl_latestReceivedEngineTime = up_engineTime sp, tl_latestUpdateTimestamp = now\<rparr>),
            us_timelineExpQueue := (us_timelineExpQueue s)(expireAt \<mapsto> q @ [up_engineId sp])\<rparr>)"

text \<open>3.2.6: the digest, and with a good one the sender's clock is taken over.\<close>

definition authenticate :: "'m usm_env \<Rightarrow> usm_params \<Rightarrow> user_info \<Rightarrow> octets \<Rightarrow> report_ctx \<Rightarrow> (usm, unit) sm" where
  "authenticate env sp u wholeMsg rc =
     (if rc_securityLevel rc \<notin> {2, 3} then sret ()
      else case authServices (ui_authProtocol u) of
        None \<Rightarrow> sraise (status authenticationFailure)
      | Some svc \<Rightarrow>
          (case authenticateIncomingMsg (ue_crypto env) svc (ui_authKey u) (up_authParameters sp) wholeMsg of
             Inl e \<Rightarrow>
               if is_StatusInformation e then
                 sbind (inc_counter us_wrongDigests us_wrongDigests_update) (\<lambda>val.
                 sraise (usm_error authenticationFailure (usmStats 5) val rc))
               else sraise e
           | Inr _ \<Rightarrow> store_timeline env sp (ue_time env 0)))"

text \<open>3.2.7: the time window.\<close>

definition outside_window :: "int \<Rightarrow> int \<Rightarrow> int \<Rightarrow> usm_params \<Rightarrow> bool" where
  "outside_window boots engineTime idleTime sp \<longleftrightarrow>
     boots = 2147483647 \<or> up_engineBoots sp < boots \<or>
     (up_engineBoots sp = boots \<and> \<bar>idleTime + engineTime - up_engineTime sp\<bar> > 150)"

definition check_time :: "'m usm_env \<Rightarrow> usm_params \<Rightarrow> report_ctx \<Rightarrow> (usm, unit) sm" where
  "check_time env sp rc =
     (if rc_securityLevel rc \<notin> {2, 3} then sret ()
      else if up_engineId sp = ue_snmpEngineID env then
        if ue_snmpEngineBoots env = 2147483647 \<or> ue_snmpEngineBoots env \<noteq> up_engineBoots sp \<or>
           \<bar>ue_snmpEngineTime env - up_engineTime sp\<bar> > 150
        then sbind (inc_counter us_notInTimeWindows us_notInTimeWindows_update) (\<lambda>val.
          sraise (usm_error notInTimeWindow (usmStats 2) val (rc\<lparr>rc_securityLevel := 2\<rparr>)))
        else sret ()
      else sbind (sget us_timeline) (\<lambda>tl.
        case tl (up_engineId sp) of
          None \<Rightarrow> sraise ProtocolError
        | Some x \<Rightarrow>
            let idleTime = ue_time env 1 - tl_latestUpdateTimestamp x in
            sbind (if up_engineBoots sp > tl_engineBoots x \<or>
                      (up_engineBoots sp = tl_engineBoots x \<and>
                       up_engineTime sp > tl_latestReceivedEngineTime x)
                   then store_timeline env sp (ue_time env 2) else sret ()) (\<lambda>_.
            if outside_window (tl_engineBoots x) (tl_engineTime x) idleTime sp
            then sraise (StatusInformation (no_details\<lparr>si_errorIndication := Some notInTimeWindow,
                   si_msgUserName := Some (up_userName sp)\<rparr>))
            else sret ())))"

text \<open>3.2.8: the scoped PDU, deciphered if need be.\<close>

definition decryption_error :: "usm_params \<Rightarrow> exn" where
  "decryption_error sp = StatusInformation (no_details\<lparr>si_errorIndication := Some decryptionError,
     si_msgUserName := Some (up_userName sp)\<rparr>)"

definition scoped_PDU :: "'m usm_env \<Rightarrow> usm_params \<Rightarrow> user_info \<Rightarrow> 'm \<Rightarrow> report_ctx \<Rightarrow> (usm, scoped_pdu) sm" where
  "scoped_PDU env sp u msg rc =
     (if rc_securityLevel rc = 3 then
        (case ue_decryptData env (ui_privProtocol u) of
           None \<Rightarrow> sraise (decryption_error sp)
         | Some decrypt \<Rightarrow>
        (case ue_encryptedPDU env msg of
           None \<Rightarrow> sraise (decryption_error sp)
         | Some encryptedPDU \<Rightarrow>
        (case decrypt (ui_privKey u) (up_engineBoots sp, up_engineTime sp, up_privParameters sp) encryptedPDU of
           Inl e \<Rightarrow>
             if is_StatusInformation e then
               sbind (inc_counter us_decryptionErrors us_decryptionErrors_update) (\<lambda>val.
               sraise (usm_error decryptionError (usmStats 6) val rc))
             else sraise e
         | Inr decryptedData \<Rightarrow>
        (case ue_decodeScopedPDU env decryptedData of
           Inl e \<Rightarrow> if is_PyAsn1Error e then sraise (decryption_error sp) else sraise e
         | Inr None \<Rightarrow> sraise (decryption_error sp)
         | Inr (Some scopedPDU) \<Rightarrow> sret scopedPDU))))
      else case ue_plaintext env msg of
        None \<Rightarrow> sraise (decryption_error sp)
      | Some scopedPDU \<Rightarrow> sret scopedPDU)"

definition processIncomingMsg :: "'m usm_env \<Rightarrow> int \<Rightarrow> octets \<Rightarrow> nat \<Rightarrow> octets \<Rightarrow> 'm \<Rightarrow>
    (usm, octets \<times> octets \<times> scoped_pdu \<times> int \<times> nat) sm" where
  "processIncomingMsg env maxMessageSize securityParameters securityLevel wholeMsg msg =
     (let maxSizeResponseScopedPDU = maxMessageSize - int (length securityParameters) - 48 in
     sbind (sres (ue_decodeParameters env securityParameters)) (\<lambda>decoded.
     case decoded of
       None \<Rightarrow> sraise (status parseError)
     | Some sp \<Rightarrow>
     sbind (on_cache (sec_push \<lparr>ud_msgUserName = up_userName sp, ud_user = None\<rparr>)) (\<lambda>ref.
     let rc = \<lparr>rc_stateReference = ref, rc_securityLevel = securityLevel,
           rc_contextEngineId = ue_snmpEngineID env, rc_contextName = [], rc_userName = None,
           rc_maxSize = maxSizeResponseScopedPDU, rc_scopedPDU = None\<rparr> in
     sbind (check_engine env sp msg rc) (\<lambda>_.
     sbind (lookup_user env sp rc) (\<lambda>u.
     sbind (recache ref sp u) (\<lambda>ref.
     let rc = rc\<lparr>rc_stateReference := ref, rc_userName := Some (up_userName sp)\<rparr> in
     sbind (check_level env sp u rc) (\<lambda>_.
     sbind (authenticate env sp u wholeMsg rc) (\<lambda>_.
     sbind (check_time env sp rc) (\<lambda>_.
     sbind (scoped_PDU env sp u msg rc) (\<lambda>scopedPDU.
     if up_userName sp = [] \<and> up_engineId sp = [] then
       sbind (inc_counter us_unknownUserNames us_unknownUserNames_update) (\<lambda>val.
       sraise (usm_error unknownSecurityName (usmStats 3) val rc))
     else sret (up_engineId sp, ui_securityName u, scopedPDU, maxSizeResponseScopedPDU, ref)))))))))))"

section \<open>Expiration\<close>

definition expireTimelineInfo :: "usm \<Rightarrow> usm" where
  "expireTimelineInfo s =
     (let s1 = (case us_timelineExpQueue s (us_expirationTimer s) of
                  None \<Rightarrow> s
                | Some keys \<Rightarrow> s\<lparr>us_timeline := us_timeline s |` (- set keys),
                    us_timelineExpQueue := (us_timelineExpQueue s)(us_expirationTimer s := None)\<rparr>)
      in s1\<lparr>us_expirationTimer := us_expirationTimer s1 + 1\<rparr>)"

section \<open>What gets through\<close>

lemma raise_never_Inr [simp]:
  "sraise e s \<noteq> (Inr x, s')"
  "sbind m (\<lambda>v. sraise (f v)) s \<noteq> (Inr x, s')"
  by (auto simp: sraise_def sbind_def split: prod.splits sum.splits)

lemma sret_eq [simp]: "sret x s = (Inr y, s') \<longleftrightarrow> y = x \<and> s' = s"
  by (auto simp: sret_def)

lemma sres_eq [simp]: "sres r s = (Inr y, s') \<longleftrightarrow> r = Inr y \<and> s' = s"
  by (auto simp: sres_def)

definition known_user :: "'m usm_env \<Rightarrow> octets \<Rightarrow> octets \<Rightarrow> user_info \<Rightarrow> bool" where
  "known_user env eid name u \<longleftrightarrow> ue_getUserInfo env eid name = Inr u \<or>
     ((\<exists>e. ue_getUserInfo env eid name = Inl e \<and> is_smi {NoSuchInstanceErr} e) \<and>
      ue_getUserInfo env wildcardSecurityEngineId name = Inr u)"

lemma lookup_user_Inr:
  assumes "lookup_user env sp rc s = (Inr u, s')"
  shows "(if up_userName sp = [] then u = blank_user else known_user env (up_engineId sp) (up_userName sp) u)"
  using assms by (auto simp: lookup_user_def known_user_def invalid_message_def split: if_splits sum.splits)

lemma authenticate_Inr:
  assumes "authenticate env sp u wholeMsg rc s = (Inr x, s')" and "rc_securityLevel rc \<in> {2, 3}"
  shows "\<exists>svc m. authServices (ui_authProtocol u) = Some svc \<and>
    authenticateIncomingMsg (ue_crypto env) svc (ui_authKey u) (up_authParameters sp) wholeMsg = Inr m"
  using assms by (auto simp: authenticate_def split: if_splits option.splits sum.splits)

lemma check_time_Inr:
  assumes "check_time env sp rc s = (Inr x, s')" and "rc_securityLevel rc \<in> {2, 3}"
    and "up_engineId sp = ue_snmpEngineID env"
  shows "up_engineBoots sp = ue_snmpEngineBoots env \<and> up_engineBoots sp \<noteq> 2147483647 \<and>
    \<bar>ue_snmpEngineTime env - up_engineTime sp\<bar> \<le> 150"
  using assms by (auto simp: check_time_def split: if_splits)

lemma blank_user_no_auth:
  "authServices (ui_authProtocol blank_user) = Some svc \<Longrightarrow> authenticateIncomingMsg cr svc k d m \<noteq> Inr x"
  by (auto simp: authServices_def blank_user_def usmNoAuthProtocol_def authenticateIncomingMsg_def)

text \<open>
  (C1) A message that gets through with authentication is authentic. When a message is accepted
  at a security level with authentication, the security name handed on is that of a user in
  the table, found under the message's engine or under the wildcard; the user has an
  authentication service, which verified the message's digest under that user's key; and if
  this engine is the authoritative one, the message carries its current boot count, which has
  not run out, and was sent no more than 150 seconds away from its clock.
\<close>

theorem usm_accepts_only_authentic:
  assumes "processIncomingMsg env maxMessageSize params securityLevel wholeMsg msg s =
      (Inr (eid, securityName, scopedPDU, mx, ref), s')"
    and "securityLevel \<in> {2, 3}"
  shows "\<exists>sp u svc m. ue_decodeParameters env params = Inr (Some sp) \<and> eid = up_engineId sp \<and>
    known_user env eid (up_userName sp) u \<and> securityName = ui_securityName u \<and>
    authServices (ui_authProtocol u) = Some svc \<and>
    authenticateIncomingMsg (ue_crypto env) svc (ui_authKey u) (up_authParameters sp) wholeMsg = Inr m \<and>
    (eid = ue_snmpEngineID env \<longrightarrow> up_engineBoots sp = ue_snmpEngineBoots env \<and>
       up_engineBoots sp \<noteq> 2147483647 \<and> \<bar>ue_snmpEngineTime env - up_engineTime sp\<bar> \<le> 150)"
proof -
  obtain sp u rc0 rc s1 s2 s3 s4 s5 s6 where
    dec: "ue_decodeParameters env params = Inr (Some sp)" and
    user: "lookup_user env sp rc0 s1 = (Inr u, s2)" and
    auth: "authenticate env sp u wholeMsg rc s3 = (Inr (), s4)" and
    time: "check_time env sp rc s5 = (Inr (), s6)" and
    lvl: "rc_securityLevel rc = securityLevel" and
    res: "eid = up_engineId sp" "securityName = ui_securityName u"
    using assms(1) unfolding processIncomingMsg_def Let_def
    by (auto simp: sbind_eq_Inr_iff split: option.splits if_splits) 
  obtain svc m where svc: "authServices (ui_authProtocol u) = Some svc"
    "authenticateIncomingMsg (ue_crypto env) svc (ui_authKey u) (up_authParameters sp) wholeMsg = Inr m"
    using authenticate_Inr [OF auth] lvl assms(2) by blast
  have "known_user env eid (up_userName sp) u"
    using lookup_user_Inr [OF user] svc blank_user_no_auth res(1) by (auto split: if_splits)
  with dec svc res check_time_Inr [OF time] lvl assms(2) show ?thesis by blast
qed

text \<open>A user with HMAC-MD5 and no privacy, an engine, and a message that carries the right digest.\<close>

definition sample_user :: user_info where
  "sample_user = \<lparr>ui_userName = [117], ui_securityName = [117],
     ui_authProtocol = [1, 3, 6, 1, 6, 3, 10, 1, 1, 2], ui_authKey = [1, 2],
     ui_privProtocol = usmNoPrivProtocol, ui_privKey = []\<rparr>"

definition sample_params :: "octets \<Rightarrow> int \<Rightarrow> int \<Rightarrow> usm_params" where
  "sample_params eid boots tm = \<lparr>up_engineId = eid, up_engineBoots = boots, up_engineTime = tm,
     up_userName = [117], up_authParameters = replicate 12 66, up_privParameters = []\<rparr>"

definition sample_scoped :: scoped_pdu where
  "sample_scoped = \<lparr>sp_contextEngineId = [], sp_contextName = [],
     sp_pdu = \<lparr>p_type = GetRequest, p_requestID = 0, p_errorStatus = 0, p_errorIndex = 0, p_varBinds = []\<rparr>\<rparr>"

definition sample_usm_env :: "usm_params \<Rightarrow> unit usm_env" where
  "sample_usm_env sp = \<lparr>ue_decodeParameters = (\<lambda>_. Inr (Some sp)), ue_isPlaintext = (\<lambda>_. True),
     ue_plaintext = (\<lambda>_. Some sample_scoped), ue_encryptedPDU = (\<lambda>_. None),
     ue_decodeScopedPDU = (\<lambda>_. Inl PyAsn1Error),
     ue_getUserInfo = (\<lambda>e n. if n = [117] then Inr sample_user else Inl (SmiError NoSuchInstanceErr no_smi)),
     ue_crypto = sample_crypto, ue_decryptData = Map.empty, ue_snmpEngineID = [128, 0, 0, 0, 1],
     ue_snmpEngineBoots = 3, ue_snmpEngineTime = 1000, ue_time = (\<lambda>_. 5000), ue_lifetime = 600,
     ue_discoverable = True\<rparr>"

definition sample_usm :: "(octets \<rightharpoonup> timeline) \<Rightarrow> usm" where
  "sample_usm known = \<lparr>us_cache = \<lparr>sc_stateReference = \<lparr>ni_maximum = 10, ni_increment = 4, ni_threshold = 2,
       ni_bank = [0, 1, 2, 3]\<rparr>, sc_cacheEntries = Map.empty\<rparr>, us_timeline = known,
     us_timelineExpQueue = Map.empty, us_expirationTimer = 0, us_unknownEngineIDs = 0,
     us_unknownUserNames = 0, us_unsupportedSecLevels = 0, us_wrongDigests = 0,
     us_notInTimeWindows = 0, us_decryptionErrors = 0, us_snmpInGenErrs = 0, us_localInt = (\<lambda>_. 0),
     us_requestID = \<lparr>ni_maximum = 10, ni_increment = 4, ni_threshold = 2, ni_bank = [0, 1, 2, 3]\<rparr>,
     us_paramsBranchId = -1, us_securityToUserMap = Map.empty\<rparr>"

theorem usm_accepts_only_authentic_witness:
  "\<exists>u svc m. known_user (sample_usm_env (sample_params [128, 0, 0, 0, 1] 3 900)) [128, 0, 0, 0, 1] [117] u \<and>
    authServices (ui_authProtocol u) = Some svc \<and>
    authenticateIncomingMsg sample_crypto svc (ui_authKey u) (replicate 12 66) (replicate 12 66 @ [4]) = Inr m"
proof -
  let ?sp = "sample_params [128, 0, 0, 0, 1] 3 900"
  have "fst (processIncomingMsg (sample_usm_env ?sp) 1500 [] 2 (replicate 12 66 @ [4]) () (sample_usm Map.empty)) =
    Inr ([128, 0, 0, 0, 1], [117], sample_scoped, 1452, 1)" by code_simp
  then obtain s' where "processIncomingMsg (sample_usm_env ?sp) 1500 [] 2 (replicate 12 66 @ [4]) () (sample_usm Map.empty) =
    (Inr ([128, 0, 0, 0, 1], [117], sample_scoped, 1452, 1), s')" by (metis surjective_pairing)
  then obtain sp u svc m where "ue_decodeParameters (sample_usm_env ?sp) [] = Inr (Some sp)"
    "known_user (sample_usm_env ?sp) [128, 0, 0, 0, 1] (up_userName sp) u"
    "authServices (ui_authProtocol u) = Some svc"
    "authenticateIncomingMsg (ue_crypto (sample_usm_env ?sp)) svc (ui_authKey u) (up_authParameters sp)
       (replicate 12 66 @ [4]) = Inr m"
    using usm_accepts_only_authentic [of "sample_usm_env ?sp" 1500 "[]" 2 "replicate 12 66 @ [4]" "()"
        "sample_usm Map.empty"] by blast
  moreover from this(1) have "sp = ?sp" by (simp add: sample_usm_env_def)
  moreover have "ue_crypto (sample_usm_env ?sp) = sample_crypto" by (simp add: sample_usm_env_def)
  ultimately show ?thesis by (auto simp: sample_params_def simp del: replicate.simps)
qed

section \<open>Replay at a non-authoritative engine\<close>

lemma cache_steps:
  assumes "sec_inv (us_cache s)"
  obtains ref c where "on_cache (sec_push d) s = (Inr ref, s\<lparr>us_cache := c\<rparr>)" "sec_inv c"
    "sc_cacheEntries c ref = Some d"
proof -
  obtain k c where "sec_push d (us_cache s) = (Inr k, c)" "sec_inv c" "sc_cacheEntries c k = Some d"
    using sec_push_ok [OF assms] .
  then show thesis by (intro that [of k c]) (simp_all add: on_cache_def)
qed

lemma recache_ok:
  assumes "sec_inv (us_cache s)" and "sc_cacheEntries (us_cache s) ref = Some d"
  obtains ref' c where "recache ref sp u s = (Inr ref', s\<lparr>us_cache := c\<rparr>)"
proof -
  let ?c1 = "(us_cache s)\<lparr>sc_cacheEntries := (sc_cacheEntries (us_cache s))(ref := None)\<rparr>"
  have "sec_inv (us_cache (s\<lparr>us_cache := ?c1\<rparr>))" using assms(1) by (simp add: sec_inv_def)
  then obtain ref' c where "on_cache (sec_push \<lparr>ud_msgUserName = up_userName sp, ud_user = Some u\<rparr>) (s\<lparr>us_cache := ?c1\<rparr>) =
      (Inr ref', s\<lparr>us_cache := ?c1\<rparr>\<lparr>us_cache := c\<rparr>)"
    by (rule cache_steps)
  then show thesis
    using assms(2) by (intro that [of ref' c])
      (simp add: recache_def sbind_def on_cache_def [of "sec_pop ref"] sec_pop_def)
qed

text \<open>
  (C40) Where this engine is not the authoritative one, an authenticated message is never refused
  for being old. Whatever boot count and time the engine was last heard with, a message with
  a good digest and any other boot count and time passes the time window, because the clock
  it is checked against has just been overwritten with its own; and that is the clock that is
  remembered afterwards, even if it is an earlier one.
\<close>

theorem usm_replay_accepted:
  assumes "ue_decodeParameters env params = Inr (Some sp)"
    and "up_engineId sp \<noteq> ue_snmpEngineID env"
    and "4 < length (up_engineId sp)" and "length (up_engineId sp) < 33"
    and "up_userName sp \<noteq> []" and "ue_getUserInfo env (up_engineId sp) (up_userName sp) = Inr u"
    and "authServices (ui_authProtocol u) = Some svc"
    and "authenticateIncomingMsg (ue_crypto env) svc (ui_authKey u) (up_authParameters sp) wholeMsg = Inr m"
    and "up_engineBoots sp \<noteq> 2147483647" and "\<bar>ue_time env 1 - ue_time env 0\<bar> \<le> 150"
    and "ue_plaintext env msg = Some scopedPDU" and "sec_inv (us_cache s)"
  shows "\<exists>mx ref s'. processIncomingMsg env maxMessageSize params 2 wholeMsg msg s =
      (Inr (up_engineId sp, ui_securityName u, scopedPDU, mx, ref), s') \<and>
    us_timeline s' (up_engineId sp) = Some \<lparr>tl_engineBoots = up_engineBoots sp,
      tl_engineTime = up_engineTime sp, tl_latestReceivedEngineTime = up_engineTime sp,
      tl_latestUpdateTimestamp = ue_time env 0\<rparr>"
proof -
  obtain ref c where push: "on_cache (sec_push \<lparr>ud_msgUserName = up_userName sp, ud_user = None\<rparr>) s =
      (Inr ref, s\<lparr>us_cache := c\<rparr>)" "sec_inv c" "sc_cacheEntries c ref = Some \<lparr>ud_msgUserName = up_userName sp, ud_user = None\<rparr>"
    using cache_steps [OF assms(12)] by blast
  obtain ref' c' where re: "recache ref sp u (s\<lparr>us_cache := c\<rparr>) = (Inr ref', s\<lparr>us_cache := c\<rparr>\<lparr>us_cache := c'\<rparr>)"
    by (rule recache_ok [of "s\<lparr>us_cache := c\<rparr>" ref, OF _ _ that])
      (use push(2,3) in simp_all)
  show ?thesis
    using assms push(1) re
    by (simp add: processIncomingMsg_def Let_def sbind_def sret_def sres_def check_engine_def sget_def
        lookup_user_def check_level_def authenticate_def store_timeline_def smodify_def check_time_def
        outside_window_def scoped_PDU_def)
qed

theorem usm_replay_accepted_witness:
  "\<exists>mx ref s'. processIncomingMsg (sample_usm_env (sample_params [128, 0, 0, 0, 2] 3 5)) 1500 [] 2
      (replicate 12 66 @ [4]) () (sample_usm [[128, 0, 0, 0, 2] \<mapsto> \<lparr>tl_engineBoots = 7, tl_engineTime = 100000,
        tl_latestReceivedEngineTime = 100000, tl_latestUpdateTimestamp = 4990\<rparr>]) =
      (Inr ([128, 0, 0, 0, 2], [117], sample_scoped, mx, ref), s') \<and>
    us_timeline s' [128, 0, 0, 0, 2] = Some \<lparr>tl_engineBoots = 3, tl_engineTime = 5,
      tl_latestReceivedEngineTime = 5, tl_latestUpdateTimestamp = 5000\<rparr>"
proof -
  have a: "authenticateIncomingMsg sample_crypto HmacMd5 [1, 2] (replicate 12 66) (replicate 12 66 @ [4]) =
    Inr (replicate 12 0 @ [4])" by code_simp
  have b: "authServices [1, 3, 6, 1, 6, 3, 10, 1, 1, 2] = Some HmacMd5" by (simp add: authServices_def)
  have "nextid_inv \<lparr>ni_maximum = 10, ni_increment = 4, ni_threshold = 2, ni_bank = [0, 1, 2, 3]\<rparr>"
    by (rule nextid_init_inv [of "\<lambda>_. 0" 10 4]) (simp_all add: nextid_init_def upt_rec)
  then have c: "sec_inv (us_cache (sample_usm x))" for x by (simp add: sample_usm_def sec_inv_def)
  show ?thesis
    using usm_replay_accepted [of "sample_usm_env (sample_params [128, 0, 0, 0, 2] 3 5)" "[]"
        "sample_params [128, 0, 0, 0, 2] 3 5" sample_user HmacMd5 "replicate 12 66 @ [4]" "replicate 12 0 @ [4]" "()"
        sample_scoped "sample_usm [[128, 0, 0, 0, 2] \<mapsto> \<lparr>tl_engineBoots = 7, tl_engineTime = 100000,
          tl_latestReceivedEngineTime = 100000, tl_latestUpdateTimestamp = 4990\<rparr>]" 1500] a b c
    by (simp add: sample_usm_env_def sample_params_def sample_user_def del: replicate.simps)
qed

end
