(* ===== verification/Usm_Send.thy ===== *)
theory Usm_Send
  imports Usm Pdu
begin

text \<open>
  The sending side of the User-based Security Model,
  \<open>pysnmp/proto/secmod/rfc3414/service.py\<close>: \<open>__generateRequestOrResponseMsg\<close>, as the
  composition of its numbered steps in the code's order, and the map from security names to
  users it consults. The message format is that of \<open>pysnmp/proto/mpmod/rfc3412.py\<close>.

  The encoders and the table of users are an environment, as in \<open>Usm\<close>; so is the cloning of a
  user into the table, which is a write to the MIB.

  The lemmas show that a message never leaves with less protection than was asked for, except
  the blank one that asks a peer for its engine identifier; and that what one engine sends
  another accepts, as the same PDU from the same user.
\<close>

section \<open>Messages\<close>

record v3_header =
  hd_msgID :: int
  hd_msgMaxSize :: int
  hd_msgFlags :: "8 word"
  hd_msgSecurityModel :: int

datatype scoped_data = Plaintext scoped_pdu | EncryptedPDU octets

record v3_message =
  ms_msgVersion :: int
  ms_header :: v3_header
  ms_securityParameters :: octets
  ms_data :: scoped_data

section \<open>Environment\<close>

text \<open>
  The encoders; the ciphers; the version of the user table and its rows (engine, user name and
  security name) in the order of their identifiers; the user cloned for an engine; and whether
  users are cloned (\<open>pysnmpUsmDiscovery\<close>).
\<close>

record usm_codec =
  uc_encodeParameters :: "usm_params \<Rightarrow> octets res"
  uc_encodeScopedPDU :: "scoped_pdu \<Rightarrow> octets res"
  uc_encodeMessage :: "v3_message \<Rightarrow> octets res"
  uc_ciphers :: ciphers
  uc_branchVersionId :: int
  uc_userRows :: "(octets \<times> octets \<times> octets) list"
  uc_cloneUserInfo :: "octets \<Rightarrow> octets \<Rightarrow> user_info res"
  uc_discovery :: bool

text \<open>\<open>_run_or_raise_serialization_error\<close>.\<close>

definition serialized :: "'a res \<Rightarrow> 'a res" where
  "serialized r =
     (case r of
        Inl e \<Rightarrow> if is_PyAsn1Error e then Inl (status serializationError) else Inl e
      | Inr x \<Rightarrow> Inr x)"

definition no_such_instance :: exn where
  "no_such_instance = SmiError NoSuchInstanceErr no_smi"

section \<open>From security names to users\<close>

text \<open>\<open>__sec2usr\<close>: the map is rebuilt when the table has changed; the lesser row of a name wins.\<close>

definition build_sec2usr :: "(octets \<times> octets \<times> octets) list \<Rightarrow> octets \<times> octets \<rightharpoonup> octets" where
  "build_sec2usr rows = foldl (\<lambda>m (engineID, userName, securityName).
     if m (engineID, securityName) = None then m((engineID, securityName) \<mapsto> userName) else m)
     Map.empty rows"

definition refresh_sec2usr :: "usm_codec \<Rightarrow> (usm, unit) sm" where
  "refresh_sec2usr co = smodify (\<lambda>s.
     if us_paramsBranchId s \<noteq> uc_branchVersionId co
     then s\<lparr>us_securityToUserMap := build_sec2usr (uc_userRows co),
            us_paramsBranchId := uc_branchVersionId co\<rparr>
     else s)"

definition sec2usr :: "usm_codec \<Rightarrow> octets \<Rightarrow> octets \<Rightarrow> (usm, octets) sm" where
  "sec2usr co securityName securityEngineID =
     sbind (refresh_sec2usr co) (\<lambda>_.
     sbind (sget us_securityToUserMap) (\<lambda>m.
     case m (securityEngineID, securityName) of
       None \<Rightarrow> sraise no_such_instance
     | Some userName \<Rightarrow> sret userName))"

section \<open>3.1.1: the user\<close>

text \<open>3.1.1a: what was cached for the request; only the name while the user was not known.\<close>

definition cached_user :: "nat \<Rightarrow> (usm, user_info) sm" where
  "cached_user securityStateReference =
     sbind (on_cache (sec_pop securityStateReference)) (\<lambda>d.
     sret (case ud_user d of
        None \<Rightarrow> blank_user\<lparr>ui_userName := ud_msgUserName d, ui_securityName := ud_msgUserName d\<rparr>
      | Some u \<Rightarrow> u\<lparr>ui_userName := ud_msgUserName d\<rparr>))"

text \<open>3.1.1b: the user at the peer, or at any engine, or one cloned from this engine's own.\<close>

definition user_at :: "'m usm_env \<Rightarrow> usm_codec \<Rightarrow> octets \<Rightarrow> octets \<Rightarrow> (usm, user_info) sm" where
  "user_at env co securityName securityEngineID =
     sbind (sec2usr co securityName securityEngineID) (\<lambda>userName.
     sres (ue_getUserInfo env securityEngineID userName))"

definition clone_user :: "'m usm_env \<Rightarrow> usm_codec \<Rightarrow> octets \<Rightarrow> octets \<Rightarrow> (usm, user_info) sm" where
  "clone_user env co securityName securityEngineID =
     (if uc_discovery co
      then scatch (sbind (sec2usr co securityName (ue_snmpEngineID env)) (\<lambda>userName.
               sres (uc_cloneUserInfo co securityEngineID userName)))
             (\<lambda>e. if is_smi {NoSuchInstanceErr} e then sraise (status unknownSecurityName) else sraise e)
      else sraise (status unknownSecurityName))"

definition peer_user :: "'m usm_env \<Rightarrow> usm_codec \<Rightarrow> octets \<Rightarrow> octets \<Rightarrow> (usm, user_info) sm" where
  "peer_user env co securityName securityEngineID =
     scatch
       (scatch (user_at env co securityName securityEngineID)
          (\<lambda>e. if is_smi {NoSuchInstanceErr} e then user_at env co securityName wildcardSecurityEngineId
               else sraise e))
       (\<lambda>e. if is_smi {NoSuchInstanceErr} e then clone_user env co securityName securityEngineID
            else if is_PyAsn1Error e then invalid_message
            else sraise e)"

text \<open>
  4: no engine is known yet, so a message that asks for one: no user, no protection, reportable,
  and in place of the PDU a blank one of the same kind.
\<close>

definition on_requestID :: "(nextid, 'a) sm \<Rightarrow> (usm, 'a) sm" where
  "on_requestID m s = (case m (us_requestID s) of (r, g) \<Rightarrow> (r, s\<lparr>us_requestID := g\<rparr>))"

definition discovery_pdu :: "scoped_pdu \<Rightarrow> (usm, scoped_pdu) sm" where
  "discovery_pdu scopedPDU =
     sbind (on_requestID (setDefaults (pdu_clone (p_type (sp_pdu scopedPDU))))) (\<lambda>emptyPdu.
     sret (scopedPDU\<lparr>sp_contextEngineId := [], sp_pdu := emptyPdu\<rparr>))"

text \<open>What the rest of the procedure works with.\<close>

record send_ctx =
  sx_securityEngineID :: octets
  sx_user :: user_info
  sx_securityLevel :: int
  sx_scopedPDU :: scoped_pdu
  sx_header :: v3_header

definition send_context :: "'m usm_env \<Rightarrow> usm_codec \<Rightarrow> v3_header \<Rightarrow> octets option \<Rightarrow> octets \<Rightarrow> int \<Rightarrow>
    scoped_pdu \<Rightarrow> nat option \<Rightarrow> (usm, send_ctx) sm" where
  "send_context env co headerData securityEngineID securityName securityLevel scopedPDU securityStateReference =
     (case securityStateReference of
        Some ref \<Rightarrow> sbind (cached_user ref) (\<lambda>u.
          sret \<lparr>sx_securityEngineID = ue_snmpEngineID env, sx_user = u, sx_securityLevel = securityLevel,
                sx_scopedPDU = scopedPDU, sx_header = headerData\<rparr>)
      | None \<Rightarrow>
          (case securityEngineID of
             Some (x # xs) \<Rightarrow> sbind (peer_user env co securityName (x # xs)) (\<lambda>u.
               sret \<lparr>sx_securityEngineID = x # xs, sx_user = u, sx_securityLevel = securityLevel,
                     sx_scopedPDU = scopedPDU, sx_header = headerData\<rparr>)
           | _ \<Rightarrow> sbind (discovery_pdu scopedPDU) (\<lambda>sp.
               sret \<lparr>sx_securityEngineID = [], sx_user = blank_user, sx_securityLevel = 1,
                     sx_scopedPDU = sp, sx_header = headerData\<lparr>hd_msgFlags := 4\<rparr>\<rparr>)))"

section \<open>The other steps\<close>

text \<open>3.1.2, 3.1.3: the user can do what the level asks for.\<close>

definition check_send_level :: "user_info \<Rightarrow> int \<Rightarrow> (usm, unit) sm" where
  "check_send_level u securityLevel =
     (if securityLevel = 3 \<and>
         (ui_authProtocol u = usmNoAuthProtocol \<or> ui_privProtocol u = usmNoPrivProtocol)
      then sraise (status unsupportedSecurityLevel)
      else if securityLevel \<in> {2, 3} \<and> ui_authProtocol u = usmNoAuthProtocol
      then sraise (status unsupportedSecurityLevel)
      else sret ())"

text \<open>3.1.6: the clock of the authoritative engine, which is this one for what needs no answer.\<close>

definition send_clock :: "'m usm_env \<Rightarrow> send_ctx \<Rightarrow> usm \<Rightarrow> int \<times> int" where
  "send_clock env sx s =
     (if sx_securityLevel sx \<in> {2, 3} then
        if unconfirmedClass (p_type (sp_pdu (sx_scopedPDU sx)))
        then (ue_snmpEngineBoots env, ue_snmpEngineTime env)
        else case us_timeline s (sx_securityEngineID sx) of
          Some x \<Rightarrow> (tl_engineBoots x, tl_engineTime x)
        | None \<Rightarrow> (0, 0)
      else (0, 0))"

definition on_priv :: "(priv_state, 'a) sm \<Rightarrow> (usm, 'a) sm" where
  "on_priv m s = (case m (us_localInt s) of (r, p) \<Rightarrow> (r, s\<lparr>us_localInt := p\<rparr>))"

text \<open>3.1.4: the data of the message, and the privacy parameters.\<close>

definition send_data :: "usm_codec \<Rightarrow> send_ctx \<Rightarrow> int \<times> int \<Rightarrow> (usm, scoped_data \<times> octets) sm" where
  "send_data co sx clock =
     (if sx_securityLevel sx = 3 then
        (case privServices (ui_privProtocol (sx_user sx)) of
           None \<Rightarrow> sraise (status encryptionError)
         | Some privHandler \<Rightarrow>
             sbind (sres (serialized (uc_encodeScopedPDU co (sx_scopedPDU sx)))) (\<lambda>dataToEncrypt.
             sbind (on_priv (encryptData (uc_ciphers co) privHandler (ui_privKey (sx_user sx)) clock dataToEncrypt))
               (\<lambda>(encryptedData, privParameters). sret (EncryptedPDU encryptedData, privParameters))))
      else sret (Plaintext (sx_scopedPDU sx), []))"

text \<open>3.1.5, 3.1.7: the security parameters, but for the digest.\<close>

definition send_params :: "send_ctx \<Rightarrow> int \<times> int \<Rightarrow> octets \<Rightarrow> octets \<Rightarrow> usm_params" where
  "send_params sx clock privParameters authParameters =
     \<lparr>up_engineId = sx_securityEngineID sx, up_engineBoots = fst clock, up_engineTime = snd clock,
      up_userName = ui_userName (sx_user sx), up_authParameters = authParameters,
      up_privParameters = privParameters\<rparr>"

text \<open>Encoding the parameters into the message, and the message.\<close>

definition encode_whole :: "usm_codec \<Rightarrow> int \<Rightarrow> v3_header \<Rightarrow> usm_params \<Rightarrow> scoped_data \<Rightarrow> (octets \<times> octets) res" where
  "encode_whole co msgVersion headerData params dat =
     rbind (serialized (uc_encodeParameters co params)) (\<lambda>securityParameters.
     rbind (serialized (uc_encodeMessage co
         \<lparr>ms_msgVersion = msgVersion, ms_header = headerData,
          ms_securityParameters = securityParameters, ms_data = dat\<rparr>)) (\<lambda>wholeMsg.
     Inr (securityParameters, wholeMsg)))"

text \<open>3.1.8: the digest over the message whose digest field is zero.\<close>

definition send_whole :: "'m usm_env \<Rightarrow> usm_codec \<Rightarrow> int \<Rightarrow> send_ctx \<Rightarrow> int \<times> int \<Rightarrow> scoped_data \<Rightarrow> octets \<Rightarrow>
    (octets \<times> octets) res" where
  "send_whole env co msgVersion sx clock dat privParameters =
     (if sx_securityLevel sx \<in> {2, 3} then
        (case authServices (ui_authProtocol (sx_user sx)) of
           None \<Rightarrow> Inl (status authenticationFailure)
         | Some authHandler \<Rightarrow>
             rbind (encode_whole co msgVersion (sx_header sx)
                 (send_params sx clock privParameters (replicate (digestLength authHandler) 0)) dat)
               (\<lambda>(securityParameters, wholeMsg).
             rbind (authenticateOutgoingMsg (ue_crypto env) authHandler (ui_authKey (sx_user sx)) wholeMsg)
               (\<lambda>authenticatedWholeMsg. Inr (securityParameters, authenticatedWholeMsg))))
      else encode_whole co msgVersion (sx_header sx) (send_params sx clock privParameters []) dat)"

definition generateRequestOrResponseMsg :: "'m usm_env \<Rightarrow> usm_codec \<Rightarrow> int \<Rightarrow> v3_header \<Rightarrow> octets option \<Rightarrow>
    octets \<Rightarrow> int \<Rightarrow> scoped_pdu \<Rightarrow> nat option \<Rightarrow> (usm, octets \<times> octets) sm" where
  "generateRequestOrResponseMsg env co msgVersion headerData securityEngineID securityName securityLevel
       scopedPDU securityStateReference =
     sbind (send_context env co headerData securityEngineID securityName securityLevel scopedPDU
              securityStateReference) (\<lambda>sx.
     sbind (check_send_level (sx_user sx) (sx_securityLevel sx)) (\<lambda>_.
     sbind (sget (send_clock env sx)) (\<lambda>clock.
     sbind (send_data co sx clock) (\<lambda>(dat, privParameters).
     sres (send_whole env co msgVersion sx clock dat privParameters)))))"

definition generateRequestMsg :: "'m usm_env \<Rightarrow> usm_codec \<Rightarrow> int \<Rightarrow> v3_header \<Rightarrow> octets option \<Rightarrow>
    octets \<Rightarrow> int \<Rightarrow> scoped_pdu \<Rightarrow> (usm, octets \<times> octets) sm" where
  "generateRequestMsg env co msgVersion headerData securityEngineID securityName securityLevel scopedPDU =
     generateRequestOrResponseMsg env co msgVersion headerData securityEngineID securityName securityLevel
       scopedPDU None"

definition generateResponseMsg :: "'m usm_env \<Rightarrow> usm_codec \<Rightarrow> int \<Rightarrow> v3_header \<Rightarrow> octets \<Rightarrow>
    octets \<Rightarrow> int \<Rightarrow> scoped_pdu \<Rightarrow> nat \<Rightarrow> (usm, octets \<times> octets) sm" where
  "generateResponseMsg env co msgVersion headerData securityEngineID securityName securityLevel scopedPDU
       securityStateReference =
     generateRequestOrResponseMsg env co msgVersion headerData (Some securityEngineID) securityName
       securityLevel scopedPDU (Some securityStateReference)"


section \<open>What is sent\<close>

lemma generate_steps:
  assumes "generateRequestOrResponseMsg env co v gd eid name lvl sp ref s = (Inr (ps, whole), s')"
  shows "\<exists>sx s1 dat pp. send_context env co gd eid name lvl sp ref s = (Inr sx, s1) \<and>
    check_send_level (sx_user sx) (sx_securityLevel sx) s1 = (Inr (), s1) \<and>
    send_data co sx (send_clock env sx s1) s1 = (Inr (dat, pp), s') \<and>
    send_whole env co v sx (send_clock env sx s1) dat pp = Inr (ps, whole)"
proof -
  obtain sx s1 where sx: "send_context env co gd eid name lvl sp ref s = (Inr sx, s1)"
    and r: "sbind (check_send_level (sx_user sx) (sx_securityLevel sx)) (\<lambda>_.
     sbind (sget (send_clock env sx)) (\<lambda>clock.
     sbind (send_data co sx clock) (\<lambda>(dat, privParameters).
     sres (send_whole env co v sx clock dat privParameters)))) s1 = (Inr (ps, whole), s')"
    using assms unfolding generateRequestOrResponseMsg_def sbind_eq_Inr_iff by blast
  have "check_send_level (sx_user sx) (sx_securityLevel sx) s1 = (Inr (), s1)"
    using r by (auto simp: check_send_level_def sbind_def sraise_def sret_def split: if_splits)
  with r sx show ?thesis
    by (fastforce simp: sbind_eq_Inr_iff sget_def)
qed

lemma check_send_level_Inr:
  "check_send_level u lvl s = (Inr x, s') \<longleftrightarrow> s' = s \<and>
     (lvl \<in> {2, 3} \<longrightarrow> ui_authProtocol u \<noteq> usmNoAuthProtocol) \<and>
     (lvl = 3 \<longrightarrow> ui_privProtocol u \<noteq> usmNoPrivProtocol)"
  by (auto simp: check_send_level_def sraise_def sret_def)

lemma authServices_NoAuth: "authServices p = Some NoAuth \<longleftrightarrow> p = usmNoAuthProtocol"
  by (auto simp: authServices_def usmNoAuthProtocol_def split: if_splits)

lemma privServices_NoPriv: "privServices p = Some NoPriv \<longleftrightarrow> p = usmNoPrivProtocol"
  by (auto simp: privServices_def usmNoPrivProtocol_def split: if_splits)

text \<open>The data of a message as the level asks for it, under the user's key.\<close>

definition data_protected :: "usm_codec \<Rightarrow> user_info \<Rightarrow> int \<Rightarrow> scoped_pdu \<Rightarrow> scoped_data \<Rightarrow> bool" where
  "data_protected co u lvl sp dat \<longleftrightarrow>
     (if lvl = 3 then
        \<exists>svc plain ct clock salt st st'. privServices (ui_privProtocol u) = Some svc \<and> svc \<noteq> NoPriv \<and>
          uc_encodeScopedPDU co sp = Inr plain \<and>
          encryptData (uc_ciphers co) svc (ui_privKey u) clock plain st = (Inr (ct, salt), st') \<and>
          dat = EncryptedPDU ct
      else dat = Plaintext sp)"

text \<open>The digest in a message, likewise.\<close>

definition message_protected :: "'m usm_env \<Rightarrow> user_info \<Rightarrow> int \<Rightarrow> octets \<Rightarrow> octets \<Rightarrow> bool" where
  "message_protected env u lvl m wholeMsg \<longleftrightarrow>
     (if lvl \<in> {2, 3} then
        \<exists>svc. authServices (ui_authProtocol u) = Some svc \<and> svc \<noteq> NoAuth \<and>
          authenticateOutgoingMsg (ue_crypto env) svc (ui_authKey u) m = Inr wholeMsg
      else wholeMsg = m)"

lemma serialized_eq_Inr [simp]: "serialized r = Inr x \<longleftrightarrow> r = Inr x"
  by (auto simp: serialized_def split: sum.splits)

lemma on_priv_eq_Inr:
  "on_priv m s = (Inr x, s') \<longleftrightarrow> (\<exists>p. m (us_localInt s) = (Inr x, p) \<and> s' = s\<lparr>us_localInt := p\<rparr>)"
  by (auto simp: on_priv_def split: prod.splits)

lemma send_data_protected:
  assumes "send_data co sx clock s = (Inr (dat, pp), s')"
    and "check_send_level (sx_user sx) (sx_securityLevel sx) s0 = (Inr (), s0)"
  shows "data_protected co (sx_user sx) (sx_securityLevel sx) (sx_scopedPDU sx) dat"
proof (cases "sx_securityLevel sx = 3")
  case True
  then obtain svc plain st' where svc: "privServices (ui_privProtocol (sx_user sx)) = Some svc"
    and plain: "uc_encodeScopedPDU co (sx_scopedPDU sx) = Inr plain"
    and enc: "\<exists>ct. encryptData (uc_ciphers co) svc (ui_privKey (sx_user sx)) clock plain (us_localInt s) = (Inr (ct, pp), st') \<and>
      dat = EncryptedPDU ct"
    using assms(1) by (auto simp: send_data_def sbind_eq_Inr_iff on_priv_eq_Inr split: option.splits)
  moreover have "svc \<noteq> NoPriv" using svc True assms(2) privServices_NoPriv by (auto simp: check_send_level_Inr)
  ultimately show ?thesis unfolding data_protected_def if_P [OF True] by blast
next
  case False
  then show ?thesis using assms(1) by (auto simp: send_data_def data_protected_def)
qed

lemma send_whole_protected:
  assumes "send_whole env co v sx clock dat pp = Inr (ps, whole)"
    and "check_send_level (sx_user sx) (sx_securityLevel sx) s0 = (Inr (), s0)"
  shows "\<exists>p m. encode_whole co v (sx_header sx) p dat = Inr (ps, m) \<and>
    up_engineId p = sx_securityEngineID sx \<and> up_userName p = ui_userName (sx_user sx) \<and>
    message_protected env (sx_user sx) (sx_securityLevel sx) m whole"
proof (cases "sx_securityLevel sx \<in> {2, 3}")
  case True
  then obtain svc m where svc: "authServices (ui_authProtocol (sx_user sx)) = Some svc"
    and m: "encode_whole co v (sx_header sx) (send_params sx clock pp (replicate (digestLength svc) 0)) dat = Inr (ps, m)"
    and a: "authenticateOutgoingMsg (ue_crypto env) svc (ui_authKey (sx_user sx)) m = Inr whole"
    using assms(1) by (auto simp: send_whole_def rbind_eq_Inr_iff split: option.splits)
  have "svc \<noteq> NoAuth" using svc authServices_NoAuth True assms(2) by (auto simp: check_send_level_Inr)
  with True svc a have "message_protected env (sx_user sx) (sx_securityLevel sx) m whole"
    by (simp add: message_protected_def)
  then show ?thesis using m by (intro exI [of _ "send_params sx clock pp (replicate (digestLength svc) 0)"] exI [of _ m])
      (simp add: send_params_def)
next
  case False
  then show ?thesis using assms(1)
    by (intro exI [of _ "send_params sx clock pp []"] exI [of _ whole])
      (simp add: send_whole_def message_protected_def send_params_def)
qed

text \<open>The user a message is sent for: the one of the request, or the one found for the peer.\<close>

definition sending_user :: "'m usm_env \<Rightarrow> usm_codec \<Rightarrow> octets option \<Rightarrow> octets \<Rightarrow> nat option \<Rightarrow> usm \<Rightarrow> user_info res" where
  "sending_user env co eid name ref s =
     (case ref of
        Some r \<Rightarrow> fst (cached_user r s)
      | None \<Rightarrow> fst (peer_user env co name (case eid of None \<Rightarrow> [] | Some e \<Rightarrow> e) s))"

text \<open>
  (C29) A message never leaves with less protection than was asked for. When a request or a
  response is made, either no engine was named and it is the discovery message, which names no user and
  carries a PDU without bindings; or it is made for the request's or the peer's user, its data are
  in the clear only where the level asks for no privacy and else encrypted by the user's
  privacy service under the user's key, and with authentication the message carries the digest of
  the user's authentication service under that user's key.
\<close>

theorem usm_sends_protected:
  assumes "generateRequestOrResponseMsg env co v gd eid name lvl sp ref s = (Inr (ps, whole), s')"
  shows "(ref = None \<and> eid \<in> {None, Some []} \<and>
      (\<exists>p sp'. encode_whole co v (gd\<lparr>hd_msgFlags := 4\<rparr>) p (Plaintext sp') = Inr (ps, whole) \<and>
         up_userName p = [] \<and> up_engineId p = [] \<and> p_varBinds (sp_pdu sp') = [])) \<or>
    (\<exists>u p dat m. sending_user env co eid name ref s = Inr u \<and>
       data_protected co u lvl sp dat \<and>
       encode_whole co v gd p dat = Inr (ps, m) \<and> up_userName p = ui_userName u \<and>
       message_protected env u lvl m whole)"
proof -
  obtain sx s1 dat pp where sx: "send_context env co gd eid name lvl sp ref s = (Inr sx, s1)"
    and lv: "check_send_level (sx_user sx) (sx_securityLevel sx) s1 = (Inr (), s1)"
    and dat: "send_data co sx (send_clock env sx s1) s1 = (Inr (dat, pp), s')"
    and wh: "send_whole env co v sx (send_clock env sx s1) dat pp = Inr (ps, whole)"
    using generate_steps [OF assms] by blast
  note prot = send_data_protected [OF dat lv] send_whole_protected [OF wh lv]
  consider (cached) r where "ref = Some r" | (peer) x xs where "ref = None" "eid = Some (x # xs)"
    | (discovery) "ref = None" "eid \<in> {None, Some []}"
    by (cases ref; cases eid) (auto, metis list.exhaust)
  then show ?thesis
  proof cases
    case cached
    then obtain u where "cached_user r s = (Inr u, s1)" "sx_user sx = u" "sx_securityLevel sx = lvl"
      "sx_scopedPDU sx = sp" "sx_header sx = gd"
      using sx by (auto simp: send_context_def sbind_eq_Inr_iff)
    then show ?thesis using prot cached by (auto simp: sending_user_def)
  next
    case peer
    then obtain u where "peer_user env co name (x # xs) s = (Inr u, s1)" "sx_user sx = u" "sx_securityLevel sx = lvl"
      "sx_scopedPDU sx = sp" "sx_header sx = gd"
      using sx by (auto simp: send_context_def sbind_eq_Inr_iff)
    then show ?thesis using prot peer by (auto simp: sending_user_def)
  next
    case discovery
    then obtain sp' where sp': "discovery_pdu sp s = (Inr sp', s1)" and
      f: "sx_user sx = blank_user" "sx_securityLevel sx = 1" "sx_scopedPDU sx = sp'" "sx_header sx = gd\<lparr>hd_msgFlags := 4\<rparr>"
        "sx_securityEngineID sx = []"
      using sx by (auto simp: send_context_def sbind_eq_Inr_iff)
    have "p_varBinds (sp_pdu sp') = []"
      using sp' by (auto simp: discovery_pdu_def sbind_eq_Inr_iff on_requestID_def setDefaults_def split: prod.splits)
    moreover have "dat = Plaintext sp'" using prot(1) f by (simp add: data_protected_def)
    ultimately show ?thesis using prot(2) f discovery
      by (auto simp: message_protected_def blank_user_def)
  qed
qed


section \<open>What is sent is accepted\<close>

text \<open>The receiving side, when every check holds.\<close>

lemma process_accepts:
  assumes p: "ue_decodeParameters env ps = Inr (Some p)" and inv: "sec_inv (us_cache s)"
    and eid: "up_engineId p = ue_snmpEngineID env"
    and user: "ue_getUserInfo env (up_engineId p) (up_userName p) = Inr u" "up_userName p \<noteq> []"
    and lvl: "lvl \<in> {2, 3}" "\<not> bad_level p u lvl"
    and auth: "authServices (ui_authProtocol u) = Some svc"
      "authenticateIncomingMsg (ue_crypto env) svc (ui_authKey u) (up_authParameters p) wholeMsg = Inr m0"
    and time: "ue_snmpEngineBoots env = up_engineBoots p" "up_engineBoots p \<noteq> 2147483647"
      "\<bar>ue_snmpEngineTime env - up_engineTime p\<bar> \<le> 150"
    and sp: "\<And>rc s. rc_securityLevel rc = lvl \<Longrightarrow> scoped_PDU env p u msg rc s = (Inr sp, s)"
  shows "\<exists>mx ref s'. processIncomingMsg env maxMessageSize ps lvl wholeMsg msg s =
    (Inr (up_engineId p, ui_securityName u, sp, mx, ref), s')"
proof -
  obtain k c where k: "sec_push \<lparr>ud_msgUserName = up_userName p, ud_user = None\<rparr> (us_cache s) = (Inr k, c)"
    "sec_inv c" "sc_cacheEntries c k = Some \<lparr>ud_msgUserName = up_userName p, ud_user = None\<rparr>"
    using sec_push_ok [OF inv] .
  let ?s = "s\<lparr>us_cache := c\<rparr>"
  obtain ref' c' where r: "recache k p u ?s = (Inr ref', ?s\<lparr>us_cache := c'\<rparr>)"
    using recache_ok [of ?s k _ p u] k by auto
  have eng: "check_engine env p msg rc s0 = (Inr (), s0)" for rc s0
    using eid by (simp add: check_engine_def sm_defs)
  have usr: "lookup_user env p rc s0 = (Inr u, s0)" for rc s0
    using user by (simp add: lookup_user_def sm_defs)
  have lev: "check_level env p u rc s0 = (Inr (), s0)" if "rc_securityLevel rc = lvl" for rc s0
    using lvl(2) that by (simp add: check_level_def sm_defs)
  have aut: "\<exists>s1. authenticate env p u wholeMsg rc s0 = (Inr (), s1)" if "rc_securityLevel rc = lvl" for rc s0
    using auth lvl(1) that by (simp add: authenticate_def store_timeline_def smodify_def)
  have tim: "check_time env p rc s0 = (Inr (), s0)" if "rc_securityLevel rc = lvl" for rc s0
    using time eid by (simp add: check_time_def sm_defs)
  let ?rc = "\<lparr>rc_stateReference = ref', rc_securityLevel = lvl, rc_contextEngineId = ue_snmpEngineID env,
    rc_contextName = [], rc_userName = Some (up_userName p), rc_maxSize = maxMessageSize - int (length ps) - 48,
    rc_scopedPDU = None\<rparr>"
  obtain s1 where s1: "authenticate env p u wholeMsg ?rc (?s\<lparr>us_cache := c'\<rparr>) = (Inr (), s1)"
    using aut [of ?rc] by auto
  show ?thesis
    unfolding processIncomingMsg_def Let_def
    using p k r eng usr lev s1 tim sp user(2)
    by (simp add: sbind_def sres_def on_cache_def sret_def)
qed


text \<open>Finding the user leaves the clocks and the counters of the privacy services alone.\<close>

definition clocks_kept :: "usm \<Rightarrow> usm \<Rightarrow> bool" where
  "clocks_kept s s' \<longleftrightarrow> us_timeline s' = us_timeline s \<and> us_localInt s' = us_localInt s"

lemma user_at_clocks: "user_at env co n e s = (r, s') \<Longrightarrow> clocks_kept s s'"
  by (auto simp: user_at_def sec2usr_def refresh_sec2usr_def clocks_kept_def sm_defs
      split: option.splits sum.splits if_splits)

lemma peer_user_clocks:
  assumes "peer_user env co n e s = (Inr u, s')"
  shows "clocks_kept s s'"
proof -
  have tr: "clocks_kept a b \<Longrightarrow> clocks_kept b c \<Longrightarrow> clocks_kept a c" for a b c
    by (simp add: clocks_kept_def)
  have cl: "clone_user env co n e t = (Inr u, t') \<Longrightarrow> clocks_kept t t'" for t t'
    by (auto simp: clone_user_def sec2usr_def refresh_sec2usr_def clocks_kept_def sm_defs
        split: option.splits sum.splits if_splits)
  have iv: "invalid_message t \<noteq> (Inr u, t')" for t t' by (simp add: invalid_message_def)
  obtain r1 s1 where 1: "user_at env co n e s = (r1, s1)" by fastforce
  obtain r2 s2 where 2: "user_at env co n wildcardSecurityEngineId s1 = (r2, s2)" by fastforce
  note k1 = user_at_clocks [OF 1] and k2 = user_at_clocks [OF 2]
  show ?thesis
    using assms 1 2 k1 k2 tr [OF k1 k2] iv
    by (auto simp: peer_user_def scatch_def sraise_def split: sum.splits if_splits dest!: cl intro: tr)
qed

text \<open>
  The digest field is where the code looks for it: in the message with a digest of zeros, the first
  run of zeros is that field, and the digest does not happen to occur before its place.
\<close>

definition digest_in_place :: "crypto \<Rightarrow> auth_service \<Rightarrow> octets \<Rightarrow> usm_codec \<Rightarrow> int \<Rightarrow> v3_header \<Rightarrow> usm_params \<Rightarrow>
    scoped_data \<Rightarrow> bool" where
  "digest_in_place cr svc key co v gd p dat \<longleftrightarrow>
     (case encode_whole co v gd (p\<lparr>up_authParameters := replicate (digestLength svc) 0\<rparr>) dat of
        Inl e \<Rightarrow> True
      | Inr (ps, w) \<Rightarrow>
          (case find_sub (replicate (digestLength svc) 0) w of
             None \<Rightarrow> False
           | Some i \<Rightarrow>
               let d = mac cr svc key w; w' = take i w @ d @ drop (i + digestLength svc) w in
               length d = digestLength svc \<and> find_sub d w' = Some i \<and>
               (case encode_whole co v gd (p\<lparr>up_authParameters := d\<rparr>) dat of
                  Inl e \<Rightarrow> False | Inr (ps', x) \<Rightarrow> x = w')))"

text \<open>
  The same of the one message that a request makes: its data and its security parameters are those
  that this call computes from the sender's state. Nothing is asked of any other message: an encoder
  whose other messages have twelve zeros before the digest, as BER has for an engine ID or a name
  with such a run (\<open>auth_digest_misplaced\<close>), can still be used for this one.
\<close>

definition sent_digest_in_place :: "'m usm_env \<Rightarrow> usm_codec \<Rightarrow> int \<Rightarrow> v3_header \<Rightarrow> octets \<Rightarrow> octets \<Rightarrow> int \<Rightarrow>
    scoped_pdu \<Rightarrow> usm \<Rightarrow> bool" where
  "sent_digest_in_place env co v gd eid name lvl sp s \<longleftrightarrow>
     (case send_context env co gd (Some eid) name lvl sp None s of
        (Inl e, s1) \<Rightarrow> True
      | (Inr sx, s1) \<Rightarrow>
          (case send_data co sx (send_clock env sx s1) s1 of
             (Inl e, s2) \<Rightarrow> True
           | (Inr (dat, pp), s2) \<Rightarrow>
               (case authServices (ui_authProtocol (sx_user sx)) of
                  None \<Rightarrow> True
                | Some svc \<Rightarrow> digest_in_place (ue_crypto env) svc (ui_authKey (sx_user sx)) co v gd
                    (send_params sx (send_clock env sx s1) pp []) dat)))"

text \<open>
  The receiver reads what the sender writes: its decoders undo the sender's encoders (the one for a
  scoped PDU ignoring what comes after it), it takes a message apart as it was put together, and
  it has the same ciphers.
\<close>

definition reads_what_is_written :: "usm_codec \<Rightarrow> v3_message usm_env \<Rightarrow> (octets \<Rightarrow> v3_message option) \<Rightarrow> bool" where
  "reads_what_is_written co env decodeMessage \<longleftrightarrow>
     (\<forall>p x. uc_encodeParameters co p = Inr x \<longrightarrow> ue_decodeParameters env x = Inr (Some p)) \<and>
     (\<forall>sp x pad. uc_encodeScopedPDU co sp = Inr x \<longrightarrow> ue_decodeScopedPDU env (x @ pad) = Inr (Some sp)) \<and>
     (\<forall>m x. uc_encodeMessage co m = Inr x \<longrightarrow> decodeMessage x = Some m) \<and>
     (\<forall>m. ue_plaintext env m = (case ms_data m of Plaintext sp \<Rightarrow> Some sp | EncryptedPDU c \<Rightarrow> None) \<and>
          ue_encryptedPDU env m = (case ms_data m of Plaintext sp \<Rightarrow> None | EncryptedPDU c \<Rightarrow> Some c)) \<and>
     (\<forall>q. ue_decryptData env q = map_option (decryptData (uc_ciphers co)) (privServices q)) \<and>
     (\<forall>svc ci. getCipher (uc_ciphers co) svc = Some ci \<longrightarrow> cipher_inverts ci)"

lemma encryptData_cipher:
  "encryptData cs svc key clock d st = (Inr x, st') \<Longrightarrow> \<exists>ci. getCipher cs svc = Some ci"
  by (cases svc; cases clock) (auto simp: des_encryptData_def aes_encryptData_def split: option.splits)

lemma scoped_PDU_reads:
  assumes reads: "reads_what_is_written co EB decodeMessage"
    and dat: "send_data co sx clock s = (Inr (dat, pp), s')"
    and lvl: "sx_securityLevel sx = 3 \<or> sx_securityLevel sx = 2"
    and st: "\<And>svc. us_localInt s svc < 2 ^ salt_bits svc"
    and rc: "rc_securityLevel rc = nat (sx_securityLevel sx)" and m: "ms_data m = dat"
    and p: "(up_engineBoots p, up_engineTime p) = clock" "up_privParameters p = pp"
  shows "scoped_PDU EB p (sx_user sx) m rc t = (Inr (sx_scopedPDU sx), t)"
proof (cases "sx_securityLevel sx = 3")
  case True
  then obtain svc plain ct st' where svc: "privServices (ui_privProtocol (sx_user sx)) = Some svc"
    and plain: "uc_encodeScopedPDU co (sx_scopedPDU sx) = Inr plain"
    and enc: "encryptData (uc_ciphers co) svc (ui_privKey (sx_user sx)) clock plain (us_localInt s) = (Inr (ct, pp), st')"
    and d: "dat = EncryptedPDU ct"
    using dat by (auto simp: send_data_def sbind_eq_Inr_iff on_priv_eq_Inr split: option.splits)
  obtain ci where ci: "getCipher (uc_ciphers co) svc = Some ci" "cipher_inverts ci"
    using encryptData_cipher [OF enc] reads unfolding reads_what_is_written_def by blast
  obtain b tm where c: "clock = (b, tm)" by (cases clock)
  have "decryptData (uc_ciphers co) svc (ui_privKey (sx_user sx)) (b, tm, pp) ct = Inr (plain @ padding svc plain)"
    by (rule decrypts_encrypted [OF enc [unfolded c] st ci])
  moreover have "ue_decodeScopedPDU EB (plain @ padding svc plain) = Inr (Some (sx_scopedPDU sx))"
    using reads plain unfolding reads_what_is_written_def by blast
  moreover have "ue_decryptData EB (ui_privProtocol (sx_user sx)) = Some (decryptData (uc_ciphers co) svc)"
    "ue_encryptedPDU EB m = Some ct"
    using reads svc m d unfolding reads_what_is_written_def by auto
  ultimately show ?thesis using True rc p c by (auto simp: scoped_PDU_def sm_defs)
next
  case False
  then have "dat = Plaintext (sx_scopedPDU sx)" using dat by (simp add: send_data_def)
  then have "ue_plaintext EB m = Some (sx_scopedPDU sx)"
    using reads m unfolding reads_what_is_written_def by auto
  then show ?thesis using False lvl rc by (auto simp: scoped_PDU_def sm_defs)
qed


lemma usm_delivers:
  assumes "generateRequestMsg EA co v gd (Some (ue_snmpEngineID EB)) name lvl sp sA = (Inr (ps, whole), sA')"
    and "fst (peer_user EA co name (ue_snmpEngineID EB) sA) = Inr u" and "ue_snmpEngineID EB \<noteq> []"
    and "ue_getUserInfo EB (ue_snmpEngineID EB) (ui_userName u) = Inr u" and "ui_userName u \<noteq> []"
    and "lvl = 3 \<or> lvl = 2 \<and> ui_privProtocol u = usmNoPrivProtocol"
    and "confirmedClass (p_type (sp_pdu sp))" and "us_timeline sA (ue_snmpEngineID EB) = Some clk"
    and "ue_snmpEngineBoots EB = tl_engineBoots clk" and "tl_engineBoots clk \<noteq> 2147483647"
    and "\<bar>ue_snmpEngineTime EB - tl_engineTime clk\<bar> \<le> 150"
    and "ue_crypto EB = ue_crypto EA" and "reads_what_is_written co EB decodeMessage"
    and "sent_digest_in_place EA co v gd (ue_snmpEngineID EB) name lvl sp sA"
    and "\<And>svc. us_localInt sA svc < 2 ^ salt_bits svc" and "sec_inv (us_cache sB)"
  shows "\<exists>m mx ref sB'. decodeMessage whole = Some m \<and> ms_header m = gd \<and> ms_msgVersion m = v \<and>
    processIncomingMsg EB maxMessageSize (ms_securityParameters m) (nat lvl) whole m sB =
      (Inr (ue_snmpEngineID EB, ui_securityName u, sp, mx, ref), sB')"
proof -
  let ?eid = "ue_snmpEngineID EB"
  obtain sx s1 dat pp where sx: "send_context EA co gd (Some ?eid) name lvl sp None sA = (Inr sx, s1)"
    and lv: "check_send_level (sx_user sx) (sx_securityLevel sx) s1 = (Inr (), s1)"
    and dat: "send_data co sx (send_clock EA sx s1) s1 = (Inr (dat, pp), sA')"
    and wh: "send_whole EA co v sx (send_clock EA sx s1) dat pp = Inr (ps, whole)"
    using generate_steps [OF assms(1) [unfolded generateRequestMsg_def]] by blast
  have f: "sx_user sx = u" "sx_securityLevel sx = lvl" "sx_scopedPDU sx = sp" "sx_header sx = gd"
      "sx_securityEngineID sx = ?eid" and u: "peer_user EA co name ?eid sA = (Inr u, s1)"
    using sx assms(2,3) by (auto simp: send_context_def sbind_eq_Inr_iff split: list.splits)
  have l: "lvl \<in> {2, 3}" "nat lvl \<in> {2, 3}" using assms(6) by auto
  have ks: "us_timeline s1 = us_timeline sA" "us_localInt s1 = us_localInt sA"
    using peer_user_clocks [OF u] by (simp_all add: clocks_kept_def)
  let ?clock = "(tl_engineBoots clk, tl_engineTime clk)"
  have clock: "send_clock EA sx s1 = ?clock"
    using f l(1) ks assms(7,8) by (auto simp: send_clock_def)
  let ?p = "\<lambda>d. send_params sx ?clock pp d"
  obtain svc w where svc: "authServices (ui_authProtocol u) = Some svc"
    and w: "encode_whole co v gd (?p (replicate (digestLength svc) 0)) dat = Inr (ps, w)"
    and a: "authenticateOutgoingMsg (ue_crypto EA) svc (ui_authKey u) w = Inr whole"
    using wh f l(1) unfolding clock by (auto simp: send_whole_def rbind_eq_Inr_iff split: option.splits)
  have na: "svc \<noteq> NoAuth" using svc authServices_NoAuth lv f l(1) by (auto simp: check_send_level_Inr)
  have dp: "digest_in_place (ue_crypto EA) svc (ui_authKey u) co v gd (?p []) dat"
    using assms(14) sx dat svc f(1) clock by (simp add: sent_digest_in_place_def)
  let ?d = "mac (ue_crypto EA) svc (ui_authKey u) w"
  obtain i ps' where i: "find_sub (replicate (digestLength svc) 0) w = Some i" "length ?d = digestLength svc"
      "find_sub ?d (take i w @ ?d @ drop (i + digestLength svc) w) = Some i"
    and w': "encode_whole co v gd (?p ?d) dat = Inr (ps', take i w @ ?d @ drop (i + digestLength svc) w)"
    using dp w by (auto simp: digest_in_place_def send_params_def Let_def split: option.splits sum.splits)
  have whole: "whole = take i w @ ?d @ drop (i + digestLength svc) w"
    using a i(1) na by (simp add: authenticateOutgoingMsg_def)
  have auth: "authenticateIncomingMsg (ue_crypto EA) svc (ui_authKey u) ?d whole = Inr w"
    using message_auth.accepts_own [OF service_auth [OF na] i] a by auto
  define m where "m = \<lparr>ms_msgVersion = v, ms_header = gd, ms_securityParameters = ps', ms_data = dat\<rparr>"
  have enc: "uc_encodeParameters co (?p ?d) = Inr ps'" "uc_encodeMessage co m = Inr whole"
    using w' unfolding whole m_def by (auto simp: encode_whole_def rbind_eq_Inr_iff)
  have dec: "ue_decodeParameters EB (ms_securityParameters m) = Inr (Some (?p ?d))" "decodeMessage whole = Some m"
    using assms(13) enc unfolding reads_what_is_written_def by (auto simp: m_def)
  have "\<exists>mx ref s'. processIncomingMsg EB maxMessageSize (ms_securityParameters m) (nat lvl) whole m sB =
      (Inr (up_engineId (?p ?d), ui_securityName u, sp, mx, ref), s')"
  proof (rule process_accepts [OF dec(1) assms(16) _ _ _ l(2) _ svc])
    show "\<not> bad_level (?p ?d) u (nat lvl)"
      using assms(6) lv f by (auto simp: bad_level_def check_send_level_Inr)
    show "scoped_PDU EB (?p ?d) u m rc s = (Inr sp, s)" if "rc_securityLevel rc = nat lvl" for rc s
      using scoped_PDU_reads [OF assms(13) dat, where m = m and p = "?p ?d" and rc = rc and t = s]
        f l(1) that ks assms(15) clock by (auto simp: m_def send_params_def)
  qed (use f assms auth in \<open>simp_all add: send_params_def\<close>)
  then show ?thesis using dec(2) f by (auto simp: send_params_def m_def)
qed

text \<open>
  What one engine sends another accepts. Let a request be made with authentication for a user
  that both engines know with the same keys, towards an engine whose clock is known to within 150
  seconds; let the receiver be that engine and read what the sender writes, with the digest
  where it is looked for. Then the message the receiver decodes passes every check of its security model, digest,
  time window and decryption included, and gives the very PDU and context that were sent, under
  the user's security name.
\<close>

theorem usm_sent_is_accepted:
  assumes "generateRequestMsg EA co v gd (Some (ue_snmpEngineID EB)) name lvl sp sA = (Inr (ps, whole), sA')"
    and "fst (peer_user EA co name (ue_snmpEngineID EB) sA) = Inr u" and "ue_snmpEngineID EB \<noteq> []"
    and "ue_getUserInfo EB (ue_snmpEngineID EB) (ui_userName u) = Inr u" and "ui_userName u \<noteq> []"
    and "lvl = 3 \<or> lvl = 2 \<and> ui_privProtocol u = usmNoPrivProtocol"
    and "confirmedClass (p_type (sp_pdu sp))" and "us_timeline sA (ue_snmpEngineID EB) = Some clk"
    and "ue_snmpEngineBoots EB = tl_engineBoots clk" and "tl_engineBoots clk \<noteq> 2147483647"
    and "\<bar>ue_snmpEngineTime EB - tl_engineTime clk\<bar> \<le> 150"
    and "ue_crypto EB = ue_crypto EA" and "reads_what_is_written co EB decodeMessage"
    and "sent_digest_in_place EA co v gd (ue_snmpEngineID EB) name lvl sp sA"
    and "\<And>svc. us_localInt sA svc < 2 ^ salt_bits svc" and "sec_inv (us_cache sB)"
  shows "\<exists>m mx ref sB'. decodeMessage whole = Some m \<and> ms_header m = gd \<and>
    processIncomingMsg EB maxMessageSize (ms_securityParameters m) (nat lvl) whole m sB =
      (Inr (ue_snmpEngineID EB, ui_securityName u, sp, mx, ref), sB')"
  using usm_delivers [OF assms] by blast

section \<open>A concrete exchange\<close>

text \<open>
  A user with HMAC-MD5 and DES, an engine that knows it, and encoders for the one kind of message
  they exchange: the digest, the salt, and the data.
\<close>

definition des_user :: user_info where
  "des_user = \<lparr>ui_userName = [117], ui_securityName = [83],
     ui_authProtocol = [1, 3, 6, 1, 6, 3, 10, 1, 1, 2], ui_authKey = [1, 2],
     ui_privProtocol = [1, 3, 6, 1, 6, 3, 10, 1, 2, 2], ui_privKey = replicate 16 1\<rparr>"

definition agent_id :: octets where
  "agent_id = [128, 0, 0, 0, 1]"

definition sample_header :: v3_header where
  "sample_header = \<lparr>hd_msgID = 1, hd_msgMaxSize = 1500, hd_msgFlags = 7, hd_msgSecurityModel = 3\<rparr>"

definition wire_params :: "octets \<Rightarrow> octets \<Rightarrow> usm_params" where
  "wire_params digest salt = \<lparr>up_engineId = agent_id, up_engineBoots = 3, up_engineTime = 900,
     up_userName = [117], up_authParameters = digest, up_privParameters = salt\<rparr>"

definition wire_message :: "octets \<Rightarrow> octets \<Rightarrow> v3_message" where
  "wire_message params c = \<lparr>ms_msgVersion = 3, ms_header = sample_header,
     ms_securityParameters = params, ms_data = EncryptedPDU c\<rparr>"

definition sample_codec :: usm_codec where
  "sample_codec = \<lparr>
     uc_encodeParameters = (\<lambda>p. if p = wire_params (up_authParameters p) (up_privParameters p) \<and>
         length (up_authParameters p) = 12 \<and> length (up_privParameters p) = 8
       then Inr (up_authParameters p @ up_privParameters p) else Inl PyAsn1Error),
     uc_encodeScopedPDU = (\<lambda>sp. if sp = sample_scoped then Inr [7] else Inl PyAsn1Error),
     uc_encodeMessage = (\<lambda>m. case ms_data m of
         EncryptedPDU c \<Rightarrow> if m = wire_message (ms_securityParameters m) c \<and> length (ms_securityParameters m) = 20
           then Inr (ms_securityParameters m @ c) else Inl PyAsn1Error
       | Plaintext sp \<Rightarrow> Inl PyAsn1Error),
     uc_ciphers = sample_ciphers, uc_branchVersionId = 1, uc_userRows = [(agent_id, [117], [83])],
     uc_cloneUserInfo = (\<lambda>_ _. Inl no_such_instance), uc_discovery = True\<rparr>"

definition sample_decode :: "octets \<Rightarrow> v3_message option" where
  "sample_decode w = Some (wire_message (take 20 w) (drop 20 w))"

definition agent_env :: "v3_message usm_env" where
  "agent_env = \<lparr>ue_decodeParameters = (\<lambda>x. Inr (Some (wire_params (take 12 x) (drop 12 x)))),
     ue_isPlaintext = (\<lambda>m. case ms_data m of Plaintext sp \<Rightarrow> True | EncryptedPDU c \<Rightarrow> False),
     ue_plaintext = (\<lambda>m. case ms_data m of Plaintext sp \<Rightarrow> Some sp | EncryptedPDU c \<Rightarrow> None),
     ue_encryptedPDU = (\<lambda>m. case ms_data m of Plaintext sp \<Rightarrow> None | EncryptedPDU c \<Rightarrow> Some c),
     ue_decodeScopedPDU = (\<lambda>_. Inr (Some sample_scoped)),
     ue_getUserInfo = (\<lambda>e n. if e = agent_id \<and> n = [117] then Inr des_user else Inl no_such_instance),
     ue_crypto = sample_crypto,
     ue_decryptData = (\<lambda>q. map_option (decryptData sample_ciphers) (privServices q)),
     ue_snmpEngineID = agent_id, ue_snmpEngineBoots = 3, ue_snmpEngineTime = 905,
     ue_time = (\<lambda>_. 0), ue_lifetime = 300, ue_discoverable = True\<rparr>"

definition manager_usm :: usm where
  "manager_usm = sample_usm [agent_id \<mapsto> \<lparr>tl_engineBoots = 3, tl_engineTime = 900,
     tl_latestReceivedEngineTime = 900, tl_latestUpdateTimestamp = 0\<rparr>]"


lemmas exchange_defs = des_user_def agent_id_def sample_header_def wire_params_def wire_message_def
  sample_codec_def agent_env_def manager_usm_def sample_usm_def

lemma manager_finds_user:
  "\<exists>s'. peer_user agent_env sample_codec [83] agent_id manager_usm = (Inr des_user, s')"
  by (simp add: peer_user_def user_at_def sec2usr_def refresh_sec2usr_def build_sec2usr_def exchange_defs sm_defs)

lemma find_sub_prefix: "find_sub pat (pat @ xs) = Some 0"
proof (cases "pat @ xs")
  case (Cons y ys)
  then have "is_prefix pat (y # ys)" using is_prefix_append [of pat xs] by simp
  then show ?thesis unfolding Cons by simp
qed simp

lemma des_user_services:
  "authServices (ui_authProtocol des_user) = Some HmacMd5" "privServices (ui_privProtocol des_user) = Some Des"
  by (simp_all add: des_user_def authServices_def privServices_def usmNoPrivProtocol_def)

lemma manager_encrypts:
  "us_localInt s = (\<lambda>_. 0) \<Longrightarrow> sx_user sx = des_user \<Longrightarrow> sx_securityLevel sx = 3 \<Longrightarrow> sx_scopedPDU sx = sample_scoped \<Longrightarrow>
   \<exists>c salt s'. send_data sample_codec sx (3, 900) s = (Inr (EncryptedPDU c, salt), s') \<and> length salt = 8 \<and> length c < 100"
  by (simp add: send_data_def des_user_services)
    (simp add: sample_codec_def sample_ciphers_def sample_cipher_def serialized_def des_user_def on_priv_def
      priv_defs sm_defs Let_def)

lemma sample_whole:
  "length d = 12 \<Longrightarrow> length salt = 8 \<Longrightarrow> encode_whole sample_codec 3 sample_header (wire_params d salt) (EncryptedPDU c) =
     Inr (d @ salt, d @ salt @ c)"
  by (simp add: encode_whole_def serialized_def sample_codec_def wire_params_def wire_message_def)

lemma manager_sends:
  "\<exists>ps w s'. generateRequestMsg agent_env sample_codec 3 sample_header (Some agent_id) [83] 3 sample_scoped
     manager_usm = (Inr (ps, w), s') \<and> length w < 150"
proof -
  obtain s1 where u: "peer_user agent_env sample_codec [83] agent_id manager_usm = (Inr des_user, s1)"
    using manager_finds_user by blast
  have k: "us_timeline s1 = us_timeline manager_usm" "us_localInt s1 = (\<lambda>_. 0)"
    using peer_user_clocks [OF u] by (simp_all add: clocks_kept_def manager_usm_def sample_usm_def)
  let ?sx = "\<lparr>sx_securityEngineID = agent_id, sx_user = des_user, sx_securityLevel = 3,
    sx_scopedPDU = sample_scoped, sx_header = sample_header\<rparr>"
  have sx: "send_context agent_env sample_codec sample_header (Some agent_id) [83] 3 sample_scoped None manager_usm
      = (Inr ?sx, s1)"
    using u by (simp add: send_context_def agent_id_def sbind_def sret_def)
  have lv: "check_send_level des_user 3 s1 = (Inr (), s1)"
    by (simp add: check_send_level_Inr des_user_def usmNoAuthProtocol_def usmNoPrivProtocol_def)
  have clock: "send_clock agent_env ?sx s1 = (3, 900)"
    using k by (simp add: send_clock_def sample_scoped_def manager_usm_def sample_usm_def)
  obtain c salt s2 where d: "send_data sample_codec ?sx (3, 900) s1 = (Inr (EncryptedPDU c, salt), s2)" "length salt = 8" "length c < 100"
    using manager_encrypts [of s1 ?sx] k by auto
  have p: "send_params ?sx (3, 900) salt x = wire_params x salt" for x
    by (simp add: send_params_def wire_params_def des_user_def)
  have "\<exists>ps w. send_whole agent_env sample_codec 3 ?sx (3, 900) (EncryptedPDU c) salt = Inr (ps, w) \<and> length w < 150"
    using d(2,3)
    by (simp add: send_whole_def des_user_services p sample_whole authenticateOutgoingMsg_def find_sub_prefix
        sample_crypto_def hmac96_def Let_def)
  then show ?thesis using sx lv clock d
    by (auto simp: generateRequestMsg_def generateRequestOrResponseMsg_def sbind_def sget_def sres_def)
qed

lemma sample_reads: "reads_what_is_written sample_codec agent_env sample_decode"
proof -
  have "cipher_inverts sample_cipher"
    by (auto simp: cipher_inverts_def sample_cipher_def comp_def xor.left_commute)
  then have "getCipher sample_ciphers svc = Some ci \<Longrightarrow> cipher_inverts ci" for svc ci
    by (cases svc) (auto simp: sample_ciphers_def)
  then show ?thesis
    by (auto simp: reads_what_is_written_def sample_codec_def agent_env_def sample_decode_def
        wire_params_def split: if_splits scoped_data.splits)
qed

lemma sample_digest_in_place: "digest_in_place sample_crypto svc key sample_codec 3 sample_header p dat"
proof (cases "encode_whole sample_codec 3 sample_header (p\<lparr>up_authParameters := replicate (digestLength svc) 0\<rparr>) dat")
  case (Inr r)
  obtain c where c: "dat = EncryptedPDU c" "digestLength svc = 12" "length (up_privParameters p) = 8"
      "p\<lparr>up_authParameters := replicate 12 0\<rparr> = wire_params (replicate 12 0) (up_privParameters p)"
    using Inr by (auto simp: encode_whole_def rbind_eq_Inr_iff sample_codec_def split: if_splits scoped_data.splits)
  then have p: "p\<lparr>up_authParameters := d\<rparr> = wire_params d (up_privParameters p)" for d
    by (cases p) (simp add: wire_params_def)
  have svc: "svc \<in> {HmacMd5, HmacSha}" using c(2) by (cases svc rule: digestLength.cases) auto
  have len: "length (mac sample_crypto svc key x) = 12" for x
    using svc by (auto simp: sample_crypto_def hmac96_def Let_def)
  show ?thesis
    by (simp add: digest_in_place_def p c sample_whole find_sub_prefix len Let_def)
qed (simp add: digest_in_place_def)

lemma sample_sent_digest_in_place:
  "sent_digest_in_place agent_env sample_codec 3 gd eid name lvl sp s"
proof -
  have "digest_in_place sample_crypto svc key sample_codec 3 gd p dat" for svc key p dat
  proof (cases "gd = sample_header")
    case False
    then have "encode_whole sample_codec 3 gd q dat = Inl (status serializationError)" for q
      by (cases dat) (auto simp: encode_whole_def serialized_def sample_codec_def wire_message_def)
    then show ?thesis by (simp add: digest_in_place_def)
  qed (simp add: sample_digest_in_place)
  then show ?thesis
    by (simp add: sent_digest_in_place_def agent_env_def split: prod.split sum.split option.split)
qed

theorem usm_sent_is_accepted_witness:
  "\<exists>ps w s' m mx ref t. generateRequestMsg agent_env sample_codec 3 sample_header (Some agent_id) [83] 3 sample_scoped
     manager_usm = (Inr (ps, w), s') \<and> sample_decode w = Some m \<and>
     processIncomingMsg agent_env 1500 (ms_securityParameters m) 3 w m (sample_usm Map.empty) =
       (Inr (agent_id, [83], sample_scoped, mx, ref), t)"
proof -
  obtain ps w s' where g: "generateRequestMsg agent_env sample_codec 3 sample_header (Some (ue_snmpEngineID agent_env)) [83] 3
     sample_scoped manager_usm = (Inr (ps, w), s')"
    using manager_sends by (auto simp: agent_env_def)
  have inv: "sec_inv (us_cache (sample_usm Map.empty))"
    by (simp add: sec_inv_def sample_usm_def nextid_inv_def next_after_def) (intro exI [of _ 0], simp)
  from usm_sent_is_accepted [OF g, of des_user "\<lparr>tl_engineBoots = 3, tl_engineTime = 900,
     tl_latestReceivedEngineTime = 900, tl_latestUpdateTimestamp = 0\<rparr>" sample_decode "sample_usm Map.empty" 1500]
  show ?thesis
    using manager_finds_user sample_reads sample_sent_digest_in_place inv g
    by (auto simp: agent_env_def des_user_def agent_id_def sample_scoped_def manager_usm_def sample_usm_def)
qed


theorem usm_sends_protected_witness:
  "\<exists>w s' u p dat m ps. generateRequestMsg agent_env sample_codec 3 sample_header (Some agent_id) [83] 3 sample_scoped
      manager_usm = (Inr (ps, w), s') \<and> data_protected sample_codec u 3 sample_scoped dat \<and>
    encode_whole sample_codec 3 sample_header p dat = Inr (ps, m) \<and> message_protected agent_env u 3 m w"
proof -
  obtain ps w s' where g: "generateRequestMsg agent_env sample_codec 3 sample_header (Some agent_id) [83] 3 sample_scoped
     manager_usm = (Inr (ps, w), s')"
    using manager_sends by blast
  have "agent_id \<noteq> []" by (simp add: agent_id_def)
  with usm_sends_protected [OF g [unfolded generateRequestMsg_def]] g show ?thesis by blast
qed

end
