(* ===== verification/Mp_V3.thy ===== *)
theory Mp_V3
  imports MP_Cache Dispatcher Usm_Send
begin

text \<open>
  Message processing for SNMPv3, \<open>pysnmp/proto/mpmod/rfc3412.py\<close>: making a request
  (\<open>prepareOutgoingMessage\<close>), a response or a report (\<open>prepareResponseMessage\<close>), taking a message
  apart (\<open>prepareDataElements\<close>), and the cache of what discovery learned about peers.

  The security models are an environment: what each does with its own state. So are the decoder
  and what the dispatcher does with a report that was prepared. The state is that of this model
  and the rest of the engine.

  The lemmas show that a response is handed on only if it answers a request, by its own
  parameters; that no message that is itself a report is answered with one; what becomes of a request's state; and how
  long a peer's engine identifier is remembered.
\<close>

section \<open>State\<close>

text \<open>What is cached with a state reference, for the response, and with a message ID.\<close>

record 'addr v3_request =
  vr_msgVersion :: int
  vr_msgID :: int
  vr_contextEngineId :: octets
  vr_contextName :: octets
  vr_securityModel :: int
  vr_securityName :: "octets option"
  vr_securityLevel :: int
  vr_securityStateReference :: nat
  vr_reportableFlag :: bool
  vr_msgMaxSize :: int
  vr_maxSizeResponseScopedPDU :: int
  vr_transportDomain :: oid
  vr_transportAddress :: 'addr

record 'addr v3_sent =
  vs_snmpEngineID :: octets
  vs_securityModel :: int
  vs_securityName :: octets
  vs_securityLevel :: int
  vs_contextEngineId :: octets
  vs_contextName :: octets
  vs_transportDomain :: oid
  vs_transportAddress :: 'addr

record peer_info =
  pi_securityEngineId :: octets
  pi_contextEngineId :: octets
  pi_contextName :: octets

record 'addr v3_mp =
  v3_cache :: "('addr v3_request, 'addr v3_sent) mp_cache"
  v3_msgID :: nextid
  v3_stateReference :: nextid
  v3_engineIdCache :: "oid \<times> 'addr \<rightharpoonup> peer_info"
  v3_engineIdCacheExpQueue :: "nat \<rightharpoonup> (oid \<times> 'addr) list"
  v3_expirationTimer :: nat
  v3_snmpUnknownSecurityModels :: int
  v3_snmpInvalidMsgs :: int

type_synonym ('addr, 'w) v3_state = "'addr v3_mp \<times> 'w"

definition on_mp_cache :: "(('addr v3_request, 'addr v3_sent) mp_cache, 'a) sm \<Rightarrow> ('addr v3_mp, 'a) sm" where
  "on_mp_cache m v = (case m (v3_cache v) of (r, c) \<Rightarrow> (r, v\<lparr>v3_cache := c\<rparr>))"

definition newMsgID :: "('addr v3_mp, nat) sm" where
  "newMsgID v = (case nextid_call (v3_msgID v) of (r, g) \<Rightarrow> (r, v\<lparr>v3_msgID := g\<rparr>))"

definition newStateReference :: "('addr v3_mp, nat) sm" where
  "newStateReference v = (case nextid_call (v3_stateReference v) of (r, g) \<Rightarrow> (r, v\<lparr>v3_stateReference := g\<rparr>))"

section \<open>Environment\<close>

text \<open>
  A security model, on the rest of the engine's state. Making a message takes the largest size this
  engine accepts, the version and the header, the authoritative engine, the security name and
  level, the scoped PDU, and for a response the security state; it returns the security
  parameters and the whole message. Taking one apart returns the authoritative engine, the
  security name, the scoped PDU, the room there is for a response, and the security state.
\<close>

record 'w sec_model =
  sh_generateRequestMsg :: "int \<Rightarrow> int \<Rightarrow> v3_header \<Rightarrow> octets option \<Rightarrow> octets \<Rightarrow> int \<Rightarrow> scoped_pdu \<Rightarrow>
    ('w, octets \<times> octets) sm"
  sh_generateResponseMsg :: "int \<Rightarrow> int \<Rightarrow> v3_header \<Rightarrow> octets \<Rightarrow> octets option \<Rightarrow> int \<Rightarrow> scoped_pdu \<Rightarrow> nat \<Rightarrow>
    ('w, octets \<times> octets) sm"
  sh_processIncomingMsg :: "int \<Rightarrow> octets \<Rightarrow> nat \<Rightarrow> octets \<Rightarrow> v3_message \<Rightarrow>
    ('w, octets \<times> octets \<times> scoped_pdu \<times> int \<times> nat) sm"
  sh_releaseStateInformation :: "nat \<Rightarrow> ('w, unit) sm"

text \<open>\<open>ve_lifetime\<close> is 300 seconds in timer ticks; \<open>ve_transmit\<close> is the rest of \<open>returnResponsePdu\<close>.\<close>

record ('addr, 'w) v3_env =
  ve_decode :: "octets \<Rightarrow> v3_message option res"
  ve_securityModels :: "int \<rightharpoonup> 'w sec_model"
  ve_snmpEngineID :: octets
  ve_snmpEngineMaxMessageSize :: int
  ve_lifetime :: nat
  ve_transmit :: "'addr outgoing \<Rightarrow> ('w, unit) sm"

section \<open>The header\<close>

definition level_flags :: "int \<Rightarrow> 8 word res" where
  "level_flags securityLevel =
     (if securityLevel = 1 then Inr 0
      else if securityLevel = 2 then Inr 1
      else if securityLevel = 3 then Inr 3
      else Inl ProtocolError)"

definition assemble_msg_header :: "('addr, 'w) v3_env \<Rightarrow> int \<Rightarrow> int \<Rightarrow> int \<Rightarrow> pdu \<Rightarrow> v3_header res" where
  "assemble_msg_header env msgID securityLevel securityModel pdu =
     rbind (level_flags securityLevel) (\<lambda>msgFlags.
     Inr \<lparr>hd_msgID = msgID, hd_msgMaxSize = ve_snmpEngineMaxMessageSize env,
          hd_msgFlags = (if confirmedClass (p_type pdu) then or msgFlags 4 else msgFlags),
          hd_msgSecurityModel = securityModel\<rparr>)"

text \<open>The level and the reportable flag of a received message; one combination is invalid.\<close>

definition flags_level :: "8 word \<Rightarrow> nat option" where
  "flags_level msgFlags =
     (if and msgFlags 3 = 0 then Some 1
      else if and msgFlags 3 = 1 then Some 2
      else if and msgFlags 3 = 3 then Some 3
      else None)"

definition reportable :: "8 word \<Rightarrow> bool" where
  "reportable msgFlags \<longleftrightarrow> and msgFlags 4 \<noteq> 0"

section \<open>Requests\<close>

definition getPeerEngineInfo :: "oid \<Rightarrow> 'addr \<Rightarrow> 'addr v3_mp \<Rightarrow> peer_info option" where
  "getPeerEngineInfo transportDomain transportAddress v =
     v3_engineIdCache v (transportDomain, transportAddress)"

text \<open>7.1.4: the context engine, when the application left it open.\<close>

definition context_engine :: "octets \<Rightarrow> peer_info option \<Rightarrow> octets option \<Rightarrow> octets" where
  "context_engine snmpEngineID peer contextEngineId =
     (case contextEngineId of
        Some e \<Rightarrow> e
      | None \<Rightarrow>
          (case peer of
             None \<Rightarrow> snmpEngineID
           | Some x \<Rightarrow> if pi_contextEngineId x = [] then pi_securityEngineId x else pi_contextEngineId x))"

text \<open>7.1.6: a PDU of a type SNMPv3 does not have is refused by the scoped PDU.\<close>

definition v3_pdu :: "v1_pdu \<Rightarrow> pdu res" where
  "v3_pdu p = (case p of V1Pdu p \<Rightarrow> Inr p | V1Trap t \<Rightarrow> Inl PyAsn1Error)"

definition request_state :: "('addr, 'w) v3_env \<Rightarrow> ('cb, 'addr) send_request \<Rightarrow> octets \<Rightarrow> 'addr v3_sent" where
  "request_state env rq contextEngineId =
     \<lparr>vs_snmpEngineID = ve_snmpEngineID env, vs_securityModel = sq_securityModel rq,
      vs_securityName = sq_securityName rq, vs_securityLevel = sq_securityLevel rq,
      vs_contextEngineId = contextEngineId, vs_contextName = sq_contextName rq,
      vs_transportDomain = sq_transportDomain rq, vs_transportAddress = sq_transportAddress rq\<rparr>"

definition v3_prepareOutgoingMessage :: "('addr, 'w) v3_env \<Rightarrow> ('cb, 'addr) send_request \<Rightarrow> nat \<Rightarrow>
    (('addr, 'w) v3_state, 'addr outgoing) sm" where
  "v3_prepareOutgoingMessage env rq sendPduHandle =
     sbind (on_fst newMsgID) (\<lambda>msgID.
     sbind (on_fst (sget (getPeerEngineInfo (sq_transportDomain rq) (sq_transportAddress rq)))) (\<lambda>peer.
     let contextEngineId = context_engine (ve_snmpEngineID env) peer (sq_contextEngineId rq) in
     sbind (sres (v3_pdu (sq_PDU rq))) (\<lambda>pdu.
     sbind (sres (assemble_msg_header env (int msgID) (sq_securityLevel rq) (sq_securityModel rq) pdu)) (\<lambda>gd.
     case ve_securityModels env (sq_securityModel rq) of
       None \<Rightarrow> sraise (status unsupportedSecurityModel)
     | Some smHandler \<Rightarrow>
     let securityEngineId =
       (if unconfirmedClass (p_type pdu) then Some (ve_snmpEngineID env)
        else map_option pi_securityEngineId peer) in
     sbind (on_snd (sh_generateRequestMsg smHandler (ve_snmpEngineMaxMessageSize env) 3 gd securityEngineId
              (sq_securityName rq) (sq_securityLevel rq)
              \<lparr>sp_contextEngineId = contextEngineId, sp_contextName = sq_contextName rq, sp_pdu = pdu\<rparr>))
       (\<lambda>(securityParameters, wholeMsg).
     if int (length wholeMsg) > ve_snmpEngineMaxMessageSize env then sraise (status tooBig)
     else
       sbind (if confirmedClass (p_type pdu)
              then on_fst (on_mp_cache (mp_pushByMsgId msgID
                \<lparr>mi_sendPduHandle = sendPduHandle, mi_rest = request_state env rq contextEngineId\<rparr>))
              else sret ()) (\<lambda>_.
       sret (sq_transportDomain rq, sq_transportAddress rq, wholeMsg)))))))"

section \<open>Responses and reports\<close>

text \<open>What a response is made of: the PDU, the level and the context.\<close>

record rsp_parts =
  rx_pdu :: pdu
  rx_securityLevel :: int
  rx_contextEngineId :: octets
  rx_contextName :: octets

definition reportPDU :: "pdu option \<Rightarrow> oid \<Rightarrow> int \<Rightarrow> pdu" where
  "reportPDU pdu counter val =
     \<lparr>p_type = Report, p_requestID = (case pdu of None \<Rightarrow> 0 | Some p \<Rightarrow> p_requestID p),
      p_errorStatus = 0, p_errorIndex = 0, p_varBinds = [(counter, VCounter32 val)]\<rparr>"

text \<open>7.1.3: a report in place of the PDU, unless that could make the engines report to each other.\<close>

definition response_parts :: "('addr, 'w) v3_env \<Rightarrow> 'addr v3_request \<Rightarrow> pdu option \<Rightarrow> status_info option \<Rightarrow>
    rsp_parts res" where
  "response_parts env rq pdu statusInformation =
     (case (case statusInformation of None \<Rightarrow> None | Some si \<Rightarrow> map_option (Pair si) (si_oid si)) of
        None \<Rightarrow>
          (case pdu of
             None \<Rightarrow> Inl AttributeError
           | Some p \<Rightarrow> Inr \<lparr>rx_pdu = p, rx_securityLevel = vr_securityLevel rq,
               rx_contextEngineId = vr_contextEngineId rq, rx_contextName = vr_contextName rq\<rparr>)
      | Some (si, counter) \<Rightarrow>
          if (case pdu of None \<Rightarrow> \<not> vr_reportableFlag rq | Some p \<Rightarrow> \<not> confirmedClass (p_type p))
          then Inl (status loopTerminated)
          else rbind (of_option KeyError (si_val si)) (\<lambda>val.
            Inr \<lparr>rx_pdu = reportPDU pdu counter val,
              rx_securityLevel = (case si_securityLevel si of None \<Rightarrow> 1 | Some l \<Rightarrow> int l),
              rx_contextEngineId = (case si_contextEngineId si of None \<Rightarrow> ve_snmpEngineID env | Some e \<Rightarrow> e),
              rx_contextName = (case si_contextName si of None \<Rightarrow> [] | Some n \<Rightarrow> n)\<rparr>))"

definition v3_prepareResponseMessage :: "('addr, 'w) v3_env \<Rightarrow> pdu option \<Rightarrow> nat option \<Rightarrow> status_info option \<Rightarrow>
    (('addr, 'w) v3_state, 'addr outgoing) sm" where
  "v3_prepareResponseMessage env pdu stateReference statusInformation =
     (case stateReference of
        None \<Rightarrow> sraise ProtocolError
      | Some ref \<Rightarrow>
     sbind (on_fst (on_mp_cache (mp_popByStateRef ref))) (\<lambda>rq.
     sbind (sres (response_parts env rq pdu statusInformation)) (\<lambda>rx.
     let responseContextEngineId =
       (if rx_contextEngineId rx = [] then ve_snmpEngineID env else rx_contextEngineId rx) in
     sbind (sres (assemble_msg_header env (vr_msgID rq) (rx_securityLevel rx) (vr_securityModel rq) (rx_pdu rx)))
       (\<lambda>gd.
     case ve_securityModels env (vr_securityModel rq) of
       None \<Rightarrow> sraise (status unsupportedSecurityModel)
     | Some smHandler \<Rightarrow>
     sbind (on_snd (sh_generateResponseMsg smHandler (ve_snmpEngineMaxMessageSize env) 3 gd (ve_snmpEngineID env)
              (vr_securityName rq) (rx_securityLevel rx)
              \<lparr>sp_contextEngineId = responseContextEngineId, sp_contextName = rx_contextName rx, sp_pdu = rx_pdu rx\<rparr>
              (vr_securityStateReference rq)))
       (\<lambda>(securityParameters, wholeMsg).
     if int (length wholeMsg) > min (ve_snmpEngineMaxMessageSize env) (vr_msgMaxSize rq) then sraise (status tooBig)
     else sret (vr_transportDomain rq, vr_transportAddress rq, wholeMsg))))))"


section \<open>Incoming messages\<close>

text \<open>What is kept for the answer.\<close>

definition cached_request :: "oid \<Rightarrow> 'addr \<Rightarrow> v3_message \<Rightarrow> nat \<Rightarrow> octets \<Rightarrow> octets \<Rightarrow> octets option \<Rightarrow> nat \<Rightarrow> int \<Rightarrow>
    'addr v3_request" where
  "cached_request transportDomain transportAddress msg securityLevel contextEngineId contextName securityName
       securityStateReference maxSizeResponseScopedPDU =
     \<lparr>vr_msgVersion = ms_msgVersion msg, vr_msgID = hd_msgID (ms_header msg),
      vr_contextEngineId = contextEngineId, vr_contextName = contextName,
      vr_securityModel = hd_msgSecurityModel (ms_header msg), vr_securityName = securityName,
      vr_securityLevel = int securityLevel, vr_securityStateReference = securityStateReference,
      vr_reportableFlag = reportable (hd_msgFlags (ms_header msg)),
      vr_msgMaxSize = hd_msgMaxSize (ms_header msg),
      vr_maxSizeResponseScopedPDU = maxSizeResponseScopedPDU,
      vr_transportDomain = transportDomain, vr_transportAddress = transportAddress\<rparr>"

definition push_request :: "'addr v3_request \<Rightarrow> (('addr, 'w) v3_state, nat) sm" where
  "push_request rq =
     sbind (on_fst newStateReference) (\<lambda>ref.
     sbind (on_fst (on_mp_cache (mp_pushByStateRef ref rq))) (\<lambda>_. sret ref))"

text \<open>
  7.2.6a: the security model refused the message and counted it, so a report is tried; whether it
  could be sent is not looked at.
\<close>

definition report_failure :: "('addr, 'w) v3_env \<Rightarrow> oid \<Rightarrow> 'addr \<Rightarrow> v3_message \<Rightarrow> nat \<Rightarrow> status_info \<Rightarrow>
    (('addr, 'w) v3_state, unit) sm" where
  "report_failure env transportDomain transportAddress msg securityLevel smError =
     (if si_errorIndication smError \<noteq> None \<and> si_oid smError \<noteq> None then
        sbind (sres (of_option KeyError (si_securityStateReference smError))) (\<lambda>securityStateReference.
        sbind (sres (of_option KeyError (si_contextEngineId smError))) (\<lambda>contextEngineId.
        sbind (sres (of_option KeyError (si_contextName smError))) (\<lambda>contextName.
        let pdu = map_option sp_pdu (si_scopedPDU smError) in
        sbind (sres (of_option KeyError (si_maxSizeResponseScopedPDU smError))) (\<lambda>maxSize.
        sbind (push_request (cached_request transportDomain transportAddress msg securityLevel contextEngineId
                 contextName None securityStateReference maxSize)) (\<lambda>stateReference.
        scatch
          (sbind (v3_prepareResponseMessage env pdu (Some stateReference) (Some smError)) (\<lambda>out.
           on_snd (ve_transmit env out)))
          (\<lambda>e. if is_StatusInformation e then sret () else sraise e))))))
      else sret ())"

text \<open>What a report teaches of the engine it comes from, the first time.\<close>

definition learn_peer :: "nat \<Rightarrow> oid \<times> 'addr \<Rightarrow> octets \<Rightarrow> scoped_pdu \<Rightarrow> ('addr v3_mp, unit) sm" where
  "learn_peer lifetime k securityEngineId scopedPDU = smodify (\<lambda>v.
     if v3_engineIdCache v k = None \<and> internalClass (p_type (sp_pdu scopedPDU))
     then let expireAt = v3_expirationTimer v + lifetime;
              ks = (case v3_engineIdCacheExpQueue v expireAt of None \<Rightarrow> [] | Some ks \<Rightarrow> ks)
          in v\<lparr>v3_engineIdCache := (v3_engineIdCache v)(k \<mapsto>
                 \<lparr>pi_securityEngineId = securityEngineId,
                  pi_contextEngineId = sp_contextEngineId scopedPDU,
                  pi_contextName = sp_contextName scopedPDU\<rparr>),
               v3_engineIdCacheExpQueue := (v3_engineIdCacheExpQueue v)(expireAt \<mapsto> ks @ [k])\<rparr>
     else v)"

text \<open>\<open>_snmpErrors\<close>, and the status a report is raised as; of its value only an integer is kept.\<close>

definition snmpErrors :: "oid \<rightharpoonup> errind" where
  "snmpErrors = map_of
     [([1, 3, 6, 1, 6, 3, 15, 1, 1, 1, 0], unsupportedSecurityLevel),
      ([1, 3, 6, 1, 6, 3, 15, 1, 1, 2, 0], notInTimeWindow),
      ([1, 3, 6, 1, 6, 3, 15, 1, 1, 3, 0], unknownUserName),
      ([1, 3, 6, 1, 6, 3, 15, 1, 1, 4, 0], unknownEngineID),
      ([1, 3, 6, 1, 6, 3, 15, 1, 1, 5, 0], wrongDigest),
      ([1, 3, 6, 1, 6, 3, 15, 1, 1, 6, 0], decryptionError)]"

fun value_int :: "snmp_value \<Rightarrow> int option" where
  "value_int (VInteger i) = Some i"
| "value_int (VCounter32 i) = Some i"
| "value_int (VGauge32 i) = Some i"
| "value_int (VTimeTicks i) = Some i"
| "value_int (VCounter64 i) = Some i"
| "value_int _ = None"

definition report_status :: "pdu \<Rightarrow> nat \<Rightarrow> status_info" where
  "report_status pdu sendPduHandle =
     (case p_varBinds pdu of
        [] \<Rightarrow> no_details\<lparr>si_sendPduHandle := Some sendPduHandle\<rparr>
      | (name, val) # vbs \<Rightarrow> no_details\<lparr>
          si_errorIndication := Some (case snmpErrors name of None \<Rightarrow> reportPduReceived | Some e \<Rightarrow> e),
          si_oid := Some name, si_val := value_int val, si_sendPduHandle := Some sendPduHandle\<rparr>)"

definition data_of :: "v3_message \<Rightarrow> octets \<Rightarrow> nat \<Rightarrow> scoped_pdu \<Rightarrow> nat option \<Rightarrow> int \<Rightarrow> nat option \<Rightarrow> data_elements" where
  "data_of msg securityName securityLevel scopedPDU sendPduHandle maxSize stateReference =
     \<lparr>de_messageProcessingModel = ms_msgVersion msg,
      de_securityModel = hd_msgSecurityModel (ms_header msg), de_securityName = securityName,
      de_securityLevel = int securityLevel, de_contextEngineId = sp_contextEngineId scopedPDU,
      de_contextName = sp_contextName scopedPDU, de_pduVersion = 1, de_PDU = V1Pdu (sp_pdu scopedPDU),
      de_pduType = p_type (sp_pdu scopedPDU), de_sendPduHandle = sendPduHandle,
      de_maxSizeResponseScopedPDU = maxSize, de_statusInformation = None,
      de_stateReference = stateReference\<rparr>"

text \<open>7.2.10 to 7.2.12: a response or a report, which has to answer a request of this engine.\<close>

definition accept_response :: "('w sec_model) \<Rightarrow> v3_message \<Rightarrow> octets \<Rightarrow> nat \<Rightarrow> scoped_pdu \<Rightarrow> int \<Rightarrow> nat \<Rightarrow>
    (('addr, 'w) v3_state, data_elements) sm" where
  "accept_response smHandler msg securityName securityLevel scopedPDU maxSize securityStateReference =
     (let release = on_snd (sh_releaseStateInformation smHandler securityStateReference);
          pdu = sp_pdu scopedPDU in
     sbind (scatch (on_fst (on_mp_cache (mp_popByMsgId (nat (hd_msgID (ms_header msg))))))
              (\<lambda>e. if is_ProtocolError e then sbind release (\<lambda>_. sraise (status dataMismatch)) else sraise e))
       (\<lambda>cached.
     let rq = mi_rest cached; sendPduHandle = mi_sendPduHandle cached in
     if internalClass (p_type pdu)
     then sbind release (\<lambda>_. sraise (StatusInformation (report_status pdu sendPduHandle)))
     else if hd_msgSecurityModel (ms_header msg) \<noteq> vs_securityModel rq \<or> securityName \<noteq> vs_securityName rq \<or>
             int securityLevel \<noteq> vs_securityLevel rq \<or> sp_contextEngineId scopedPDU \<noteq> vs_contextEngineId rq \<or>
             sp_contextName scopedPDU \<noteq> vs_contextName rq
     then sbind release (\<lambda>_. sraise (status dataMismatch))
     else sbind release (\<lambda>_.
       sret (data_of msg securityName securityLevel scopedPDU (Some sendPduHandle) maxSize None))))"

text \<open>7.2.13: a request, which has to be meant for this engine.\<close>

definition accept_request :: "('addr, 'w) v3_env \<Rightarrow> 'w sec_model \<Rightarrow> oid \<Rightarrow> 'addr \<Rightarrow> v3_message \<Rightarrow> octets \<Rightarrow> octets \<Rightarrow>
    nat \<Rightarrow> scoped_pdu \<Rightarrow> int \<Rightarrow> nat \<Rightarrow> (('addr, 'w) v3_state, data_elements) sm" where
  "accept_request env smHandler transportDomain transportAddress msg securityEngineId securityName securityLevel
       scopedPDU maxSize securityStateReference =
     (if securityEngineId \<noteq> ve_snmpEngineID env
      then sbind (on_snd (sh_releaseStateInformation smHandler securityStateReference)) (\<lambda>_.
        sraise (status engineIDMismatch))
      else sbind (push_request (cached_request transportDomain transportAddress msg securityLevel
               (sp_contextEngineId scopedPDU) (sp_contextName scopedPDU) (Some securityName)
               securityStateReference maxSize)) (\<lambda>stateReference.
        sret (data_of msg securityName securityLevel scopedPDU None maxSize (Some stateReference))))"

text \<open>7.2.14: a notification; its state reference is drawn but nothing is kept under it.\<close>

definition accept_notification :: "'w sec_model \<Rightarrow> v3_message \<Rightarrow> octets \<Rightarrow> nat \<Rightarrow> scoped_pdu \<Rightarrow> int \<Rightarrow> nat \<Rightarrow>
    (('addr, 'w) v3_state, data_elements) sm" where
  "accept_notification smHandler msg securityName securityLevel scopedPDU maxSize securityStateReference =
     sbind (on_fst newStateReference) (\<lambda>stateReference.
     sbind (on_snd (sh_releaseStateInformation smHandler securityStateReference)) (\<lambda>_.
     sret (data_of msg securityName securityLevel scopedPDU None maxSize (Some stateReference))))"

text \<open>7.2.4, 7.2.5: the security model and the level.\<close>

definition count_unknown_model :: "('addr v3_mp, unit) sm" where
  "count_unknown_model = smodify (\<lambda>v. v\<lparr>v3_snmpUnknownSecurityModels := inc32 (v3_snmpUnknownSecurityModels v)\<rparr>)"

definition count_invalid :: "('addr v3_mp, unit) sm" where
  "count_invalid = smodify (\<lambda>v. v\<lparr>v3_snmpInvalidMsgs := inc32 (v3_snmpInvalidMsgs v)\<rparr>)"

definition v3_prepareDataElements :: "('addr, 'w) v3_env \<Rightarrow> oid \<Rightarrow> 'addr \<Rightarrow> octets \<Rightarrow>
    (('addr, 'w) v3_state, data_elements) sm" where
  "v3_prepareDataElements env transportDomain transportAddress wholeMsg =
     sbind (sres (ve_decode env wholeMsg)) (\<lambda>decoded.
     case decoded of
       None \<Rightarrow> sraise (status parseError)
     | Some msg \<Rightarrow>
     let gd = ms_header msg in
     (case ve_securityModels env (hd_msgSecurityModel gd) of
       None \<Rightarrow> sbind (on_fst count_unknown_model) (\<lambda>_. sraise (status unsupportedSecurityModel))
     | Some smHandler \<Rightarrow>
     (case flags_level (hd_msgFlags gd) of
       None \<Rightarrow> sbind (on_fst count_invalid) (\<lambda>_. sraise (status invalidMsg))
     | Some securityLevel \<Rightarrow>
     sbind (scatch (on_snd (sh_processIncomingMsg smHandler (hd_msgMaxSize gd) (ms_securityParameters msg)
              securityLevel wholeMsg msg))
       (\<lambda>e. case e of
          StatusInformation smError \<Rightarrow>
            sbind (report_failure env transportDomain transportAddress msg securityLevel smError) (\<lambda>_. sraise e)
        | _ \<Rightarrow> sraise e))
       (\<lambda>(securityEngineId, securityName, scopedPDU, maxSize, securityStateReference).
     sbind (on_fst (learn_peer (ve_lifetime env) (transportDomain, transportAddress) securityEngineId scopedPDU)) (\<lambda>_.
     let t = p_type (sp_pdu scopedPDU) in
     if responseClass t \<or> internalClass t then
       accept_response smHandler msg securityName securityLevel scopedPDU maxSize securityStateReference
     else if confirmedClass t then
       accept_request env smHandler transportDomain transportAddress msg securityEngineId securityName
         securityLevel scopedPDU maxSize securityStateReference
     else if unconfirmedClass t then
       accept_notification smHandler msg securityName securityLevel scopedPDU maxSize securityStateReference
     else sbind (on_snd (sh_releaseStateInformation smHandler securityStateReference)) (\<lambda>_.
       sraise (status unsupportedPDUtype)))))))"

section \<open>Time\<close>

text \<open>\<open>del engineIdCache[k]\<close> for every key that is due; a missing one is a \<open>KeyError\<close>.\<close>

fun del_peers :: "(oid \<times> 'addr) list \<Rightarrow> (oid \<times> 'addr \<rightharpoonup> peer_info) \<Rightarrow> unit res \<times> (oid \<times> 'addr \<rightharpoonup> peer_info)" where
  "del_peers [] m = (Inr (), m)"
| "del_peers (k # ks) m = (if m k = None then (Inl KeyError, m) else del_peers ks (m(k := None)))"

definition expireEnginesInfo :: "('addr v3_mp, unit) sm" where
  "expireEnginesInfo v =
     (case v3_engineIdCacheExpQueue v (v3_expirationTimer v) of
        None \<Rightarrow> (Inr (), v\<lparr>v3_expirationTimer := v3_expirationTimer v + 1\<rparr>)
      | Some ks \<Rightarrow>
          (case del_peers ks (v3_engineIdCache v) of
             (Inl e, m) \<Rightarrow> (Inl e, v\<lparr>v3_engineIdCache := m\<rparr>)
           | (Inr _, m) \<Rightarrow> (Inr (), v\<lparr>v3_engineIdCache := m,
               v3_engineIdCacheExpQueue := (v3_engineIdCacheExpQueue v)(v3_expirationTimer v := None),
               v3_expirationTimer := v3_expirationTimer v + 1\<rparr>)))"

definition v3_receiveTimerTick :: "(('addr, 'w) v3_state, unit) sm" where
  "v3_receiveTimerTick =
     sbind (on_fst expireEnginesInfo) (\<lambda>_. on_fst (on_mp_cache mp_expireCaches))"

definition v3_releaseStateInformation :: "nat \<Rightarrow> (('addr, 'w) v3_state, unit) sm" where
  "v3_releaseStateInformation sendPduHandle = on_fst (on_mp_cache (mp_releaseStateInformation sendPduHandle))"


section \<open>What is handed on\<close>

declare sbind_sres [simp]

lemma on_mp_cache_eq_Inr:
  "on_mp_cache m v = (Inr x, v') \<longleftrightarrow> (\<exists>c. m (v3_cache v) = (Inr x, c) \<and> v' = v\<lparr>v3_cache := c\<rparr>)"
  by (auto simp: on_mp_cache_def split: prod.splits)

lemma learn_peer_cache [simp]:
  "learn_peer n k e sp v = (Inr (), v') \<Longrightarrow> v3_cache v' = v3_cache v"
  by (auto simp: learn_peer_def smodify_def Let_def split: if_splits)

text \<open>A message that gets through: what was read, and which of the three ways it took.\<close>

lemma prepareDataElements_Inr:
  assumes "v3_prepareDataElements env td ta wholeMsg (v, w) = (Inr de, s')"
  shows "\<exists>msg sh lvl eid name sp mx ref w1 v1. ve_decode env wholeMsg = Inr (Some msg) \<and>
    ve_securityModels env (hd_msgSecurityModel (ms_header msg)) = Some sh \<and>
    flags_level (hd_msgFlags (ms_header msg)) = Some lvl \<and>
    sh_processIncomingMsg sh (hd_msgMaxSize (ms_header msg)) (ms_securityParameters msg) lvl wholeMsg msg w =
      (Inr (eid, name, sp, mx, ref), w1) \<and> v3_cache v1 = v3_cache v \<and>
    de_pduType de = p_type (sp_pdu sp) \<and>
    (responseClass (p_type (sp_pdu sp)) \<and> accept_response sh msg name lvl sp mx ref (v1, w1) = (Inr de, s') \<or>
     confirmedClass (p_type (sp_pdu sp)) \<and>
       accept_request env sh td ta msg eid name lvl sp mx ref (v1, w1) = (Inr de, s') \<or>
     \<not> responseClass (p_type (sp_pdu sp)) \<and> \<not> confirmedClass (p_type (sp_pdu sp)) \<and>
       accept_notification sh msg name lvl sp mx ref (v1, w1) = (Inr de, s'))"
proof -
  obtain msg where msg: "ve_decode env wholeMsg = Inr (Some msg)"
    using assms by (auto simp: v3_prepareDataElements_def sbind_eq_Inr_iff split: option.splits)
  obtain sh where sh: "ve_securityModels env (hd_msgSecurityModel (ms_header msg)) = Some sh"
    using assms msg by (auto simp: v3_prepareDataElements_def Let_def sbind_eq_Inr_iff split: option.splits)
  obtain lvl where lvl: "flags_level (hd_msgFlags (ms_header msg)) = Some lvl"
    using assms msg sh by (auto simp: v3_prepareDataElements_def Let_def sbind_eq_Inr_iff split: option.splits)
  let ?proc = "sh_processIncomingMsg sh (hd_msgMaxSize (ms_header msg)) (ms_securityParameters msg) lvl wholeMsg msg"
  have no: "(case e of StatusInformation smError \<Rightarrow>
      sbind (report_failure env td ta msg lvl smError) (\<lambda>_. sraise e) | _ \<Rightarrow> sraise e) s \<noteq> (Inr x, s1)" for e s x s1
    by (cases e) auto
  obtain eid name sp mx ref w1 v1 where p: "?proc w = (Inr (eid, name, sp, mx, ref), w1)"
    and l: "learn_peer (ve_lifetime env) (td, ta) eid sp v = (Inr (), v1)"
    and r: "(let t = p_type (sp_pdu sp) in
     if responseClass t \<or> internalClass t then
       accept_response sh msg name lvl sp mx ref
     else if confirmedClass t then
       accept_request env sh td ta msg eid name lvl sp mx ref
     else if unconfirmedClass t then
       accept_notification sh msg name lvl sp mx ref
     else sbind (on_snd (sh_releaseStateInformation sh ref)) (\<lambda>_.
       sraise (status unsupportedPDUtype))) (v1, w1) = (Inr de, s')"
    using assms msg sh lvl no unfolding v3_prepareDataElements_def
    by (fastforce simp: Let_def sbind_eq_Inr_iff scatch_eq_Inr on_snd_eq_Inr on_fst_eq_Inr)
  have ty: "de_pduType de = p_type (sp_pdu sp)"
    using r by (auto simp: Let_def accept_response_def accept_request_def accept_notification_def
        sbind_eq_Inr_iff data_of_def split: if_splits)
  show ?thesis
    using msg sh lvl p learn_peer_cache [OF l] r ty
    by (intro exI [of _ msg] exI [of _ sh] exI [of _ lvl] exI [of _ eid] exI [of _ name] exI [of _ sp]
        exI [of _ mx] exI [of _ ref] exI [of _ w1] exI [of _ v1])
      (cases "p_type (sp_pdu sp)"; simp add: Let_def)
qed

text \<open>
  (C3) A response is handed to the application only when it answers a request: a request with its
  message ID was waiting; the response comes with the security model, name and level and the
  context that request was sent with, and under that request's handle; and the request no longer
  waits, so that no second response is taken for it.
\<close>

theorem v3_response_answers_request:
  assumes "v3_prepareDataElements env td ta wholeMsg s = (Inr de, s')" and "responseClass (de_pduType de)"
  shows "\<exists>msg info e. ve_decode env wholeMsg = Inr (Some msg) \<and>
    mc_msgIdIndex (v3_cache (fst s)) (nat (hd_msgID (ms_header msg))) = Some (info, e) \<and>
    de_sendPduHandle de = Some (mi_sendPduHandle info) \<and>
    de_securityModel de = vs_securityModel (mi_rest info) \<and>
    de_securityName de = vs_securityName (mi_rest info) \<and>
    de_securityLevel de = vs_securityLevel (mi_rest info) \<and>
    de_contextEngineId de = vs_contextEngineId (mi_rest info) \<and>
    de_contextName de = vs_contextName (mi_rest info) \<and>
    mc_msgIdIndex (v3_cache (fst s')) (nat (hd_msgID (ms_header msg))) = None"
proof -
  obtain v w where s: "s = (v, w)" by (cases s)
  from prepareDataElements_Inr [OF assms(1) [unfolded s]] obtain msg sh lvl eid name sp mx ref w1 v1
    where msg: "ve_decode env wholeMsg = Inr (Some msg)" and c: "v3_cache v1 = v3_cache v"
      and ty: "de_pduType de = p_type (sp_pdu sp)"
      and way: "responseClass (p_type (sp_pdu sp)) \<and> accept_response sh msg name lvl sp mx ref (v1, w1) = (Inr de, s') \<or>
     confirmedClass (p_type (sp_pdu sp)) \<or> \<not> responseClass (p_type (sp_pdu sp))"
    by blast
  have "\<not> confirmedClass (p_type (sp_pdu sp))" using assms(2) ty by auto
  with way assms(2) ty have a: "accept_response sh msg name lvl sp mx ref (v1, w1) = (Inr de, s')" by auto
  then obtain info c' where pop: "mp_popByMsgId (nat (hd_msgID (ms_header msg))) (v3_cache v1) = (Inr info, c')"
    and r: "de = data_of msg name lvl sp (Some (mi_sendPduHandle info)) mx None"
    and eq: "hd_msgSecurityModel (ms_header msg) = vs_securityModel (mi_rest info)" "name = vs_securityName (mi_rest info)"
      "int lvl = vs_securityLevel (mi_rest info)" "sp_contextEngineId sp = vs_contextEngineId (mi_rest info)"
      "sp_contextName sp = vs_contextName (mi_rest info)"
    and s': "v3_cache (fst s') = c'"
    by (auto simp: accept_response_def Let_def sbind_eq_Inr_iff scatch_eq_Inr on_fst_eq_Inr on_snd_eq_Inr
        on_mp_cache_eq_Inr split: if_splits)
  from mp_popByMsgId_Inr [OF pop] show ?thesis
    using msg c r eq s' unfolding s by (auto simp: data_of_def)
qed


section \<open>What becomes of a request's state\<close>

lemma push_request_Inr:
  assumes "push_request rq (v, w) = (Inr ref, s')"
  shows "(\<exists>e. mc_stateReferenceIndex (v3_cache (fst s')) ref = Some (rq, e)) \<and> snd s' = w"
proof -
  obtain v1 where "newStateReference v = (Inr ref, v1)"
    and p: "on_fst (on_mp_cache (mp_pushByStateRef ref rq)) (v1, w) = (Inr (), s')"
    using assms by (auto simp: push_request_def sbind_eq_Inr_iff on_fst_eq_Inr)
  then obtain c where c: "mp_pushByStateRef ref rq (v3_cache v1) = (Inr (), c)" "fst s' = v1\<lparr>v3_cache := c\<rparr>" "snd s' = w"
    by (auto simp: on_fst_eq_Inr on_mp_cache_eq_Inr)
  then show ?thesis by (auto simp: mp_pushByStateRef_def Let_def split: if_splits)
qed

text \<open>Whatever comes of an answer, the state it was made from is used up.\<close>

lemma prepareResponse_uses_up:
  assumes "v3_prepareResponseMessage env pdu (Some ref) si (v, w) = (r, v', w')"
  shows "mc_stateReferenceIndex (v3_cache v') ref = None"
proof -
  obtain r0 c where pop: "mp_popByStateRef ref (v3_cache v) = (r0, c)" by fastforce
  note gone = mp_popByStateRef_gone [OF pop]
  have keeps: "fst (snd (on_snd m s)) = fst s" for m :: "('w, 'b) sm" and s :: "('addr, 'w) v3_state"
    by (simp add: on_snd_def split: prod.splits)
  have "v' = v\<lparr>v3_cache := c\<rparr>"
    using assms pop
    by (cases r0) (auto simp: v3_prepareResponseMessage_def Let_def sbind_def on_fst_def on_mp_cache_def on_snd_def
        sres_def sret_def sraise_def split: sum.splits prod.splits option.splits if_splits)
  with gone show ?thesis by simp
qed

lemma prepareResponse_none:
  "mc_stateReferenceIndex (v3_cache v) ref = None \<Longrightarrow>
   v3_prepareResponseMessage env pdu (Some ref) si (v, w) = (Inl ProtocolError, v, w)"
  by (simp add: v3_prepareResponseMessage_def sbind_def on_fst_def on_mp_cache_def)

text \<open>
  (C32) Every request handed up can be answered once, and the answer goes back to where the request
  came from: a response or report made under its state reference is for the transport domain and address
  of the request; and whatever came of the first attempt to make one, any further attempt
  raises a protocol error and changes nothing.
\<close>

theorem v3_answer_goes_back_once:
  assumes "v3_prepareDataElements env td ta wholeMsg s = (Inr de, v, w)" and "confirmedClass (de_pduType de)"
  shows "\<exists>ref. de_stateReference de = Some ref \<and>
    (\<forall>pdu si w1 out s2. v3_prepareResponseMessage env pdu (Some ref) si (v, w1) = (Inr out, s2) \<longrightarrow>
       (\<exists>whole. out = (td, ta, whole))) \<and>
    (\<forall>pdu si w1 r v2 w2 pdu' si'. v3_prepareResponseMessage env pdu (Some ref) si (v, w1) = (r, v2, w2) \<longrightarrow>
       v3_prepareResponseMessage env pdu' (Some ref) si' (v2, w2) = (Inl ProtocolError, v2, w2))"
proof -
  obtain v0 w0 where s: "s = (v0, w0)" by (cases s)
  from prepareDataElements_Inr [OF assms(1) [unfolded s]] obtain msg sh lvl eid name sp mx ref w1 v1
    where ty: "de_pduType de = p_type (sp_pdu sp)"
      and way: "responseClass (p_type (sp_pdu sp)) \<or>
     confirmedClass (p_type (sp_pdu sp)) \<and> accept_request env sh td ta msg eid name lvl sp mx ref (v1, w1) = (Inr de, v, w) \<or>
     \<not> confirmedClass (p_type (sp_pdu sp))"
    by blast
  have "\<not> responseClass (p_type (sp_pdu sp))" using assms(2) ty by auto
  with way assms(2) ty have a: "accept_request env sh td ta msg eid name lvl sp mx ref (v1, w1) = (Inr de, v, w)" by auto
  let ?rq = "cached_request td ta msg lvl (sp_contextEngineId sp) (sp_contextName sp) (Some name) ref mx"
  obtain sr where push: "push_request ?rq (v1, w1) = (Inr sr, v, w)" and de: "de_stateReference de = Some sr"
    using a by (auto simp: accept_request_def sbind_eq_Inr_iff data_of_def split: if_splits)
  from push_request_Inr [OF push] obtain e where ix: "mc_stateReferenceIndex (v3_cache v) sr = Some (?rq, e)" by auto
  have "\<exists>whole. out = (td, ta, whole)"
    if made: "v3_prepareResponseMessage env pdu (Some sr) si (v, w1) = (Inr out, s2)" for pdu si w1 out s2
  proof -
    obtain rq c whole where "mp_popByStateRef sr (v3_cache v) = (Inr rq, c)"
      and out: "out = (vr_transportDomain rq, vr_transportAddress rq, whole)"
      using made by (auto simp: v3_prepareResponseMessage_def Let_def sbind_eq_Inr_iff on_fst_eq_Inr on_mp_cache_eq_Inr
          split: option.splits if_splits)
    then have "rq = ?rq" using mp_popByStateRef_Inr ix by fastforce
    with out show ?thesis by (simp add: cached_request_def)
  qed
  moreover have "v3_prepareResponseMessage env pdu' (Some sr) si' (v2, w2) = (Inl ProtocolError, v2, w2)"
    if "v3_prepareResponseMessage env pdu (Some sr) si (v, w1) = (r, v2, w2)" for pdu si w1 r v2 w2 pdu' si'
    using prepareResponse_uses_up [OF that] by (rule prepareResponse_none)
  ultimately show ?thesis using de by blast
qed

section \<open>No reports about reports\<close>

lemma prepareResponse_transmit [simp]:
  "v3_prepareResponseMessage (env\<lparr>ve_transmit := tr\<rparr>) = v3_prepareResponseMessage env"
proof -
  have "response_parts (env\<lparr>ve_transmit := tr\<rparr>) = response_parts env"
    "assemble_msg_header (env\<lparr>ve_transmit := tr\<rparr>) = assemble_msg_header env"
    by (auto simp: fun_eq_iff response_parts_def assemble_msg_header_def split: option.splits)
  then show ?thesis
    by (intro ext) (simp add: v3_prepareResponseMessage_def cong: option.case_cong if_cong)
qed

text \<open>A report that may not be sent is not made.\<close>

lemma loop_terminated:
  assumes "mc_stateReferenceIndex (v3_cache v) ref = Some (rq, e)" and "si_oid si \<noteq> None"
    and "case pdu of None \<Rightarrow> \<not> vr_reportableFlag rq | Some p \<Rightarrow> \<not> confirmedClass (p_type p)"
  shows "v3_prepareResponseMessage env pdu (Some ref) (Some si) (v, w) \<noteq> (Inr out, s')"
proof
  assume "v3_prepareResponseMessage env pdu (Some ref) (Some si) (v, w) = (Inr out, s')"
  then obtain rq' c rx where pop: "mp_popByStateRef ref (v3_cache v) = (Inr rq', c)"
    and rx: "response_parts env rq' pdu (Some si) = Inr rx"
    by (auto simp: v3_prepareResponseMessage_def sbind_eq_Inr_iff on_fst_eq_Inr on_mp_cache_eq_Inr)
  have "rq' = rq" using mp_popByStateRef_Inr [OF pop] assms(1) by auto
  then show False using rx assms(2,3) by (auto simp: response_parts_def)
qed

lemma level_flags_not_reportable: "level_flags lvl = Inr f \<Longrightarrow> \<not> reportable f"
  by (auto simp: level_flags_def reportable_def split: if_splits)

lemma report_failure_silent:
  assumes "\<not> reportable (hd_msgFlags (ms_header msg))"
    and "\<And>sp. si_scopedPDU si = Some sp \<Longrightarrow> \<not> confirmedClass (p_type (sp_pdu sp))"
  shows "report_failure (env\<lparr>ve_transmit := tr\<rparr>) td ta msg lvl si = report_failure env td ta msg lvl si"
proof -
  have push: "sbind (push_request rq) (\<lambda>ref.
      scatch (sbind (v3_prepareResponseMessage env (map_option sp_pdu (si_scopedPDU si)) (Some ref) (Some si)) f) h) =
    sbind (push_request rq) (\<lambda>ref.
      scatch (sbind (v3_prepareResponseMessage env (map_option sp_pdu (si_scopedPDU si)) (Some ref) (Some si)) g) h)"
    if "\<not> vr_reportableFlag rq" "si_oid si \<noteq> None" for rq :: "'a v3_request" and f g :: "'a outgoing \<Rightarrow> (('a, 'b) v3_state, 'c) sm" and h
  proof
    fix s
    have no: "v3_prepareResponseMessage env (map_option sp_pdu (si_scopedPDU si)) (Some ref) (Some si) s1 \<noteq> (Inr out, s2)"
      if "push_request rq s = (Inr ref, s1)" for ref s1 out s2
    proof -
      obtain v w v1 w1 where s: "s = (v, w)" "s1 = (v1, w1)" by (cases s; cases s1)
      from push_request_Inr [of rq v w ref s1] obtain e where
        "mc_stateReferenceIndex (v3_cache v1) ref = Some (rq, e)" using \<open>push_request rq s = _\<close> s by auto
      then show ?thesis unfolding s
        using \<open>\<not> vr_reportableFlag rq\<close> \<open>si_oid si \<noteq> None\<close> assms(2) by (intro loop_terminated) (auto split: option.splits)
    qed
    obtain r s1 where p: "push_request rq s = (r, s1)" by (cases "push_request rq s")
    show "sbind (push_request rq) (\<lambda>ref.
      scatch (sbind (v3_prepareResponseMessage env (map_option sp_pdu (si_scopedPDU si)) (Some ref) (Some si)) f) h) s =
    sbind (push_request rq) (\<lambda>ref.
      scatch (sbind (v3_prepareResponseMessage env (map_option sp_pdu (si_scopedPDU si)) (Some ref) (Some si)) g) h) s"
    proof (cases r)
      case (Inr ref)
      obtain r2 s2 where q: "v3_prepareResponseMessage env (map_option sp_pdu (si_scopedPDU si)) (Some ref) (Some si) s1 = (r2, s2)"
        by (cases "v3_prepareResponseMessage env (map_option sp_pdu (si_scopedPDU si)) (Some ref) (Some si) s1")
      have "r2 \<noteq> Inr out" for out using no [of ref s1 out s2] p q Inr by simp
      then obtain x where "r2 = Inl x" by (cases r2) (simp, blast)
      then show ?thesis using p q Inr by (simp add: sbind_def scatch_def)
    qed (simp add: sbind_def p)
  qed
  show ?thesis
    using assms(1)
    by (cases "si_securityStateReference si"; cases "si_contextEngineId si"; cases "si_contextName si";
        cases "si_maxSizeResponseScopedPDU si")
      (auto simp: report_failure_def Let_def cached_request_def intro!: push)
qed

text \<open>
  Engines do not report to each other in circles. The header of a report asks for no report; and an
  engine that receives a message with such a header sends nothing about it, whatever its
  security model makes of it, unless that finds a request in it: taking the message apart is the
  same whatever sending would do.
\<close>

theorem v3_reports_unanswered:
  fixes env :: "('addr, 'w) v3_env"
  assumes "assemble_msg_header env0 msgID lvl securityModel p = Inr gd" and "p_type p = Report"
    and "\<And>msg. ve_decode env wholeMsg = Inr (Some msg) \<Longrightarrow> ms_header msg = gd"
    and "\<And>sh n ps l m w si w1 sp. ve_securityModels env securityModel = Some sh \<Longrightarrow>
      sh_processIncomingMsg sh n ps l wholeMsg m w = (Inl (StatusInformation si), w1) \<Longrightarrow>
      si_scopedPDU si = Some sp \<Longrightarrow> \<not> confirmedClass (p_type (sp_pdu sp))"
  shows "v3_prepareDataElements (env\<lparr>ve_transmit := tr\<rparr>) td ta wholeMsg s = v3_prepareDataElements env td ta wholeMsg s"
proof -
  have gd: "\<not> reportable (hd_msgFlags gd)" "hd_msgSecurityModel gd = securityModel"
    using assms(1,2) level_flags_not_reportable
    by (auto simp: assemble_msg_header_def rbind_eq_Inr_iff)
  have same: "scatch (on_snd (sh_processIncomingMsg sh n ps l wholeMsg m))
       (\<lambda>e. case e of
          StatusInformation si \<Rightarrow> sbind (report_failure (env\<lparr>ve_transmit := tr\<rparr>) td ta m l si) (\<lambda>_. sraise e)
        | _ \<Rightarrow> sraise e) =
      scatch (on_snd (sh_processIncomingMsg sh n ps l wholeMsg m))
       (\<lambda>e. case e of
          StatusInformation si \<Rightarrow> sbind (report_failure env td ta m l si) (\<lambda>_. sraise e)
        | _ \<Rightarrow> sraise e)"
    if m: "ve_decode env wholeMsg = Inr (Some m)" and sh: "ve_securityModels env securityModel = Some sh"
    for sh n ps l and m
  proof
    fix s :: "('addr, 'w) v3_state"
    obtain r w1 where r: "sh_processIncomingMsg sh n ps l wholeMsg m (snd s) = (r, w1)"
      by (cases "sh_processIncomingMsg sh n ps l wholeMsg m (snd s)")
    have "report_failure (env\<lparr>ve_transmit := tr\<rparr>) td ta m l si = report_failure env td ta m l si"
      if "r = Inl (StatusInformation si)" for si
      using gd(1) assms(3) [OF m] assms(4) [OF sh, of n ps l m "snd s" si w1] r that
      by (intro report_failure_silent) auto
    then show "scatch (on_snd (sh_processIncomingMsg sh n ps l wholeMsg m))
       (\<lambda>e. case e of
          StatusInformation si \<Rightarrow> sbind (report_failure (env\<lparr>ve_transmit := tr\<rparr>) td ta m l si) (\<lambda>_. sraise e)
        | _ \<Rightarrow> sraise e) s =
      scatch (on_snd (sh_processIncomingMsg sh n ps l wholeMsg m))
       (\<lambda>e. case e of
          StatusInformation si \<Rightarrow> sbind (report_failure env td ta m l si) (\<lambda>_. sraise e)
        | _ \<Rightarrow> sraise e) s"
      using r by (auto simp: scatch_def on_snd_def split: sum.splits exn.splits)
  qed
  have acc: "accept_request (env\<lparr>ve_transmit := tr\<rparr>) = accept_request env"
    by (simp add: fun_eq_iff accept_request_def cong: if_cong)
  show ?thesis
  proof (cases "ve_decode env wholeMsg")
    case (Inr d)
    show ?thesis
    proof (cases d)
      case (Some m)
      then have m: "ve_decode env wholeMsg = Inr (Some m)" using Inr by simp
      note h = assms(3) [OF m]
      show ?thesis
        using m h gd(2) same [OF m]
        by (cases "ve_securityModels env securityModel"; cases "flags_level (hd_msgFlags gd)")
          (simp_all add: v3_prepareDataElements_def Let_def acc cong: if_cong)
    qed (simp add: v3_prepareDataElements_def Inr)
  qed (simp add: v3_prepareDataElements_def)
qed


section \<open>How long a peer is remembered\<close>

text \<open>An operation keeps an invariant whether or not it raises.\<close>

definition keeps :: "('s \<Rightarrow> bool) \<Rightarrow> ('s, 'a) sm \<Rightarrow> bool" where
  "keeps P m \<longleftrightarrow> (\<forall>s. P s \<longrightarrow> P (snd (m s)))"

named_theorems keeps_rules

lemma keeps_basic [keeps_rules]:
  "keeps P (sret x)" "keeps P (sraise e)" "keeps P (sres r)" "keeps P (sget f)"
  by (simp_all add: keeps_def sm_defs)

lemma keeps_sbind [keeps_rules]: "keeps P m \<Longrightarrow> (\<And>x. keeps P (f x)) \<Longrightarrow> keeps P (sbind m f)"
  by (fastforce simp: keeps_def sbind_def split: prod.splits sum.splits)

lemma keeps_scatch [keeps_rules]: "keeps P m \<Longrightarrow> (\<And>e. keeps P (h e)) \<Longrightarrow> keeps P (scatch m h)"
  by (fastforce simp: keeps_def scatch_def split: prod.splits sum.splits)

lemma keeps_cases [keeps_rules]:
  "(b \<Longrightarrow> keeps P m) \<Longrightarrow> (\<not> b \<Longrightarrow> keeps P m') \<Longrightarrow> keeps P (if b then m else m')"
  "keeps P n \<Longrightarrow> (\<And>x. keeps P (f x)) \<Longrightarrow> keeps P (case opt of None \<Rightarrow> n | Some x \<Rightarrow> f x)"
  "(\<And>x y. keeps P (g x y)) \<Longrightarrow> keeps P (case pr of (x, y) \<Rightarrow> g x y)"
  by (auto split: option.splits prod.splits)

text \<open>
  Every peer that is remembered is due at one time, within its lifetime, and what is due is
  remembered.
\<close>

definition due_peers :: "'addr v3_mp \<Rightarrow> nat \<Rightarrow> (oid \<times> 'addr) list" where
  "due_peers v e = (case v3_engineIdCacheExpQueue v e of None \<Rightarrow> [] | Some ks \<Rightarrow> ks)"

definition peers_ok :: "nat \<Rightarrow> 'addr v3_mp \<Rightarrow> bool" where
  "peers_ok lifetime v \<longleftrightarrow>
     (\<forall>e. distinct (due_peers v e)) \<and>
     (\<forall>k. v3_engineIdCache v k \<noteq> None \<longleftrightarrow> (\<exists>e. k \<in> set (due_peers v e))) \<and>
     (\<forall>e e' k. k \<in> set (due_peers v e) \<longrightarrow> k \<in> set (due_peers v e') \<longrightarrow> e = e') \<and>
     (\<forall>e k. k \<in> set (due_peers v e) \<longrightarrow> v3_expirationTimer v \<le> e \<and> e \<le> v3_expirationTimer v + lifetime)"

definition peers_inv :: "nat \<Rightarrow> ('addr, 'w) v3_state \<Rightarrow> bool" where
  "peers_inv lifetime s \<longleftrightarrow> peers_ok lifetime (fst s)"

lemma peers_ok_cong:
  "v3_engineIdCache v' = v3_engineIdCache v \<Longrightarrow> v3_engineIdCacheExpQueue v' = v3_engineIdCacheExpQueue v \<Longrightarrow>
   v3_expirationTimer v' = v3_expirationTimer v \<Longrightarrow> peers_ok n v' \<longleftrightarrow> peers_ok n v"
  by (simp add: peers_ok_def due_peers_def)

lemma keeps_on_snd [keeps_rules]: "keeps (peers_inv n) (on_snd m)"
  by (auto simp: keeps_def peers_inv_def on_snd_def split: prod.splits)

lemma keeps_on_fst: "keeps (peers_ok n) m \<Longrightarrow> keeps (peers_inv n) (on_fst m)"
  by (fastforce simp: keeps_def peers_inv_def on_fst_def split: prod.splits)

lemma keeps_mp_ops:
  "keeps (peers_ok n) (on_mp_cache m)" "keeps (peers_ok n) newMsgID" "keeps (peers_ok n) newStateReference"
  "keeps (peers_ok n) count_unknown_model" "keeps (peers_ok n) count_invalid"
  by (auto simp: keeps_def on_mp_cache_def newMsgID_def newStateReference_def count_unknown_model_def
      count_invalid_def smodify_def split: prod.splits intro: peers_ok_cong [THEN iffD2, rotated -1])

lemma keeps_learn: "keeps (peers_ok n) (learn_peer n k e sp)"
proof -
  have "peers_ok n (snd (learn_peer n k e sp v))" if ok: "peers_ok n v" for v
  proof (cases "v3_engineIdCache v k = None \<and> internalClass (p_type (sp_pdu sp))")
    case True
    let ?v = "snd (learn_peer n k e sp v)"
    have d: "due_peers ?v x = (if x = v3_expirationTimer v + n then due_peers v x @ [k] else due_peers v x)" for x
      using True by (auto simp: learn_peer_def smodify_def due_peers_def Let_def split: option.splits)
    have c: "v3_engineIdCache ?v j \<noteq> None \<longleftrightarrow> j = k \<or> v3_engineIdCache v j \<noteq> None" for j
      using True by (auto simp: learn_peer_def smodify_def Let_def)
    have t: "v3_expirationTimer ?v = v3_expirationTimer v"
      by (simp add: learn_peer_def smodify_def Let_def)
    have new: "k \<notin> set (due_peers v x)" for x using ok True unfolding peers_ok_def by metis
    have mem: "j \<in> set (due_peers ?v x) \<longleftrightarrow> (x = v3_expirationTimer v + n \<and> j = k) \<or> j \<in> set (due_peers v x)" for j x
      by (auto simp: d)
    note ok' = ok [unfolded peers_ok_def]
    have "distinct (due_peers ?v x)" for x using ok' new by (simp add: d)
    moreover have "v3_engineIdCache ?v j \<noteq> None \<longleftrightarrow> (\<exists>e. j \<in> set (due_peers ?v e))" for j
      using ok' unfolding c mem by metis
    moreover have "e = e'" if "j \<in> set (due_peers ?v e)" "j \<in> set (due_peers ?v e')" for e e' j
      using that ok' new unfolding mem by blast
    moreover have "v3_expirationTimer ?v \<le> e \<and> e \<le> v3_expirationTimer ?v + n" if "j \<in> set (due_peers ?v e)" for e j
    proof (cases "j \<in> set (due_peers v e)")
      case True
      then show ?thesis using ok' unfolding t by blast
    next
      case False
      then show ?thesis using that unfolding mem t by simp
    qed
    ultimately show ?thesis unfolding peers_ok_def by blast
  next
    case False
    then have "snd (learn_peer n k e sp v) = v" by (simp only: learn_peer_def smodify_def if_False snd_conv)
    with ok show ?thesis by simp
  qed
  then show ?thesis by (simp add: keeps_def)
qed

lemmas keeps_peers [keeps_rules] = keeps_mp_ops [THEN keeps_on_fst] keeps_learn [THEN keeps_on_fst]
  keeps_basic [THEN keeps_on_fst]

lemma keeps_outgoing: "keeps (peers_inv n) (v3_prepareOutgoingMessage env rq h)"
  unfolding v3_prepareOutgoingMessage_def Let_def by (intro keeps_rules)

lemma keeps_response [keeps_rules]: "keeps (peers_inv n) (v3_prepareResponseMessage env pdu ref si)"
  unfolding v3_prepareResponseMessage_def Let_def by (intro keeps_rules)

lemma keeps_push_request [keeps_rules]: "keeps (peers_inv n) (push_request rq)"
  unfolding push_request_def by (intro keeps_rules)

lemma keeps_report [keeps_rules]: "keeps (peers_inv n) (report_failure env td ta msg lvl si)"
  unfolding report_failure_def Let_def by (intro keeps_rules)

lemma keeps_accept_response [keeps_rules]:
  "keeps (peers_inv n) (accept_response sh msg name lvl sp mx ref)"
  unfolding accept_response_def Let_def by (intro keeps_rules)

lemma keeps_accept_request [keeps_rules]:
  "keeps (peers_inv n) (accept_request env sh td ta msg eid name lvl sp mx ref)"
  unfolding accept_request_def by (intro keeps_rules)

lemma keeps_accept_notification [keeps_rules]:
  "keeps (peers_inv n) (accept_notification sh msg name lvl sp mx ref)"
  unfolding accept_notification_def by (intro keeps_rules)

lemma keeps_incoming: "keeps (peers_inv (ve_lifetime env)) (v3_prepareDataElements env td ta wholeMsg)"
proof -
  have "keeps (peers_inv (ve_lifetime env)) (case e of
      StatusInformation si \<Rightarrow> sbind (report_failure env td ta m l si) (\<lambda>_. sraise e) | _ \<Rightarrow> sraise e)" for e m l
    by (cases e) (simp_all add: keeps_rules)
  then show ?thesis unfolding v3_prepareDataElements_def Let_def by (intro keeps_rules)
qed


lemma del_peers_ok:
  "distinct ks \<Longrightarrow> (\<And>k. k \<in> set ks \<Longrightarrow> m k \<noteq> None) \<Longrightarrow> del_peers ks m = (Inr (), m |` (- set ks))"
proof (induction ks arbitrary: m)
  case (Cons k ks)
  have "del_peers ks (m(k := None)) = (Inr (), (m(k := None)) |` (- set ks))"
    using Cons.prems by (intro Cons.IH) auto
  moreover have "(m(k := None)) |` (- set ks) = m |` (- set (k # ks))"
    by (auto simp: restrict_map_def)
  ultimately show ?case using Cons.prems(2) [of k] by simp
qed (simp add: restrict_map_def)

text \<open>A tick never raises, and forgets exactly the peers that are due.\<close>

lemma expireEnginesInfo_ok:
  assumes "peers_ok n v"
  shows "\<exists>v'. expireEnginesInfo v = (Inr (), v') \<and> peers_ok n v' \<and>
    v3_expirationTimer v' = v3_expirationTimer v + 1 \<and>
    (\<forall>e. due_peers v' e = (if e = v3_expirationTimer v then [] else due_peers v e)) \<and>
    (\<forall>k. v3_engineIdCache v' k = (if k \<in> set (due_peers v (v3_expirationTimer v)) then None else v3_engineIdCache v k))"
proof -
  let ?T = "v3_expirationTimer v"
  let ?v = "v\<lparr>v3_engineIdCache := v3_engineIdCache v |` (- set (due_peers v ?T)),
    v3_engineIdCacheExpQueue := (v3_engineIdCacheExpQueue v)(?T := None), v3_expirationTimer := ?T + 1\<rparr>"
  have due: "due_peers ?v e = (if e = ?T then [] else due_peers v e)" for e
    by (simp add: due_peers_def)
  have c: "v3_engineIdCache ?v k = (if k \<in> set (due_peers v ?T) then None else v3_engineIdCache v k)" for k
    by (simp add: restrict_map_def)
  note ok = assms [unfolded peers_ok_def]
  have D: "distinct (due_peers v e)" for e using ok by blast
  have C: "v3_engineIdCache v k \<noteq> None \<longleftrightarrow> (\<exists>e. k \<in> set (due_peers v e))" for k using ok by blast
  have U: "k \<in> set (due_peers v e) \<Longrightarrow> k \<in> set (due_peers v e') \<Longrightarrow> e = e'" for k e e' using ok by blast
  have R: "k \<in> set (due_peers v e) \<Longrightarrow> ?T \<le> e \<and> e \<le> ?T + n" for k e using ok by blast
  have "del_peers (due_peers v ?T) (v3_engineIdCache v) = (Inr (), v3_engineIdCache v |` (- set (due_peers v ?T)))"
    using D C by (intro del_peers_ok) blast+
  then have run: "expireEnginesInfo v = (Inr (), ?v)"
    by (cases "v3_engineIdCacheExpQueue v ?T")
      (auto simp: expireEnginesInfo_def due_peers_def fun_upd_idem restrict_map_def)
  have mem: "k \<in> set (due_peers ?v e) \<longleftrightarrow> e \<noteq> ?T \<and> k \<in> set (due_peers v e)" for k e
    unfolding due by simp
  have "v3_engineIdCache ?v k \<noteq> None \<longleftrightarrow> (\<exists>e. k \<in> set (due_peers ?v e))" for k
  proof -
    have "v3_engineIdCache ?v k \<noteq> None \<longleftrightarrow> k \<notin> set (due_peers v ?T) \<and> v3_engineIdCache v k \<noteq> None"
      unfolding c by simp
    also have "\<dots> \<longleftrightarrow> (\<exists>e. e \<noteq> ?T \<and> k \<in> set (due_peers v e))" unfolding C using U by metis
    finally show ?thesis unfolding mem .
  qed
  moreover have "distinct (due_peers ?v e)" for e using D unfolding due by simp
  moreover have "e = e'" if "k \<in> set (due_peers ?v e)" "k \<in> set (due_peers ?v e')" for e e' k
    using that U unfolding mem by blast
  moreover have "v3_expirationTimer ?v \<le> e \<and> e \<le> v3_expirationTimer ?v + n" if "k \<in> set (due_peers ?v e)" for e k
    using that R [of k e] unfolding mem by auto
  ultimately have "peers_ok n ?v" unfolding peers_ok_def by blast
  with run due c show ?thesis by (intro exI [of _ ?v]) simp
qed


text \<open>The engine as it runs: any of the operations, and anything the rest of the engine does.\<close>

inductive v3_reachable :: "('addr, 'w) v3_env \<Rightarrow> ('addr, 'w) v3_state \<Rightarrow> bool" for env where
  start: "v3_engineIdCache v = Map.empty \<Longrightarrow> v3_engineIdCacheExpQueue v = Map.empty \<Longrightarrow> v3_reachable env (v, w)"
| outgoing: "v3_reachable env s \<Longrightarrow>
    v3_reachable env (snd (v3_prepareOutgoingMessage env (rq :: (unit, 'addr) send_request) h s))"
| response: "v3_reachable env s \<Longrightarrow> v3_reachable env (snd (v3_prepareResponseMessage env pdu ref si s))"
| incoming: "v3_reachable env s \<Longrightarrow> v3_reachable env (snd (v3_prepareDataElements env td ta wholeMsg s))"
| release: "v3_reachable env s \<Longrightarrow> v3_reachable env (snd (v3_releaseStateInformation h s))"
| tick: "v3_reachable env s \<Longrightarrow> v3_reachable env (snd (v3_receiveTimerTick s))"
| rest: "v3_reachable env (v, w) \<Longrightarrow> v3_reachable env (v, w')"

lemma keepsD: "keeps P m \<Longrightarrow> P s \<Longrightarrow> P (snd (m s))"
  by (simp add: keeps_def)

lemma keeps_tick: "keeps (peers_inv n) v3_receiveTimerTick"
proof -
  have "keeps (peers_ok n) expireEnginesInfo"
    unfolding keeps_def using expireEnginesInfo_ok by (metis snd_conv)
  then show ?thesis unfolding v3_receiveTimerTick_def by (intro keeps_rules keeps_on_fst)
qed

lemma keeps_release: "keeps (peers_inv n) (v3_releaseStateInformation h)"
  unfolding v3_releaseStateInformation_def by (intro keeps_rules)

lemma v3_reachable_peers: "v3_reachable env s \<Longrightarrow> peers_inv (ve_lifetime env) s"
proof (induction rule: v3_reachable.induct)
  case (start v w)
  then show ?case by (simp add: peers_inv_def peers_ok_def due_peers_def)
next
  case (release s h)
  then show ?case by (intro keepsD [OF keeps_release])
next
  case (rest v w w')
  then show ?case by (simp add: peers_inv_def)
next
  case outgoing
  then show ?case by (intro keepsD [OF keeps_outgoing])
next
  case response
  then show ?case by (intro keepsD [OF keeps_response])
next
  case incoming
  then show ?case by (intro keepsD [OF keeps_incoming])
next
  case tick
  then show ?case by (intro keepsD [OF keeps_tick])
qed

text \<open>A tick as a whole: the peers that are due, then the message cache, which may raise.\<close>

lemma tick_peers:
  assumes "peers_ok n (fst s)"
  shows "\<exists>s'. v3_receiveTimerTick s = (fst (mp_expireCaches (v3_cache (fst s))), s') \<and> peers_ok n (fst s') \<and>
    v3_expirationTimer (fst s') = v3_expirationTimer (fst s) + 1 \<and>
    (\<forall>e. due_peers (fst s') e = (if e = v3_expirationTimer (fst s) then [] else due_peers (fst s) e)) \<and>
    (\<forall>k. v3_engineIdCache (fst s') k =
      (if k \<in> set (due_peers (fst s) (v3_expirationTimer (fst s))) then None else v3_engineIdCache (fst s) k))"
proof -
  obtain v' where v': "expireEnginesInfo (fst s) = (Inr (), v')" "peers_ok n v'" "v3_expirationTimer v' = v3_expirationTimer (fst s) + 1"
    "\<forall>e. due_peers v' e = (if e = v3_expirationTimer (fst s) then [] else due_peers (fst s) e)"
    "\<forall>k. v3_engineIdCache v' k = (if k \<in> set (due_peers (fst s) (v3_expirationTimer (fst s))) then None else v3_engineIdCache (fst s) k)"
    using expireEnginesInfo_ok [OF assms] by blast
  have "v3_cache v' = v3_cache (fst s)"
    using v'(1) by (auto simp: expireEnginesInfo_def split: option.splits prod.splits sum.splits)
  then have "v3_receiveTimerTick s = (fst (mp_expireCaches (v3_cache (fst s))),
      v'\<lparr>v3_cache := snd (mp_expireCaches (v3_cache (fst s)))\<rparr>, snd s)"
    using v'(1) by (simp add: v3_receiveTimerTick_def sbind_def on_fst_def on_mp_cache_def split: prod.split)
  moreover have d: "due_peers (v'\<lparr>v3_cache := c\<rparr>) = due_peers v'" for c by (rule ext) (simp add: due_peers_def)
  moreover have "peers_ok n (v'\<lparr>v3_cache := c\<rparr>) = peers_ok n v'" for c unfolding peers_ok_def d by simp
  ultimately show ?thesis using v'(2,3) v'(4,5)
    by (intro exI [of _ "(v'\<lparr>v3_cache := snd (mp_expireCaches (v3_cache (fst s)))\<rparr>, snd s)"]) (simp only: fst_conv, simp)
qed

fun v3_ticks :: "nat \<Rightarrow> ('addr, 'w) v3_state \<Rightarrow> ('addr, 'w) v3_state" where
  "v3_ticks 0 s = s"
| "v3_ticks (Suc n) s = v3_ticks n (snd (v3_receiveTimerTick s))"

lemma v3_ticks_ok:
  assumes "peers_ok n (fst s)" and "k \<in> set (due_peers (fst s) e)"
  shows "v3_engineIdCache (fst (v3_ticks m s)) k =
    (if v3_expirationTimer (fst s) + m \<le> e then v3_engineIdCache (fst s) k else None)"
proof -
  have gone: "v3_engineIdCache (fst (v3_ticks m s)) k = None"
    if "peers_ok n (fst s)" "v3_engineIdCache (fst s) k = None" for m and s :: "('a, 'b) v3_state"
    using that
  proof (induction m arbitrary: s)
    case (Suc m)
    from tick_peers [OF Suc.prems(1)] obtain s' where s': "v3_receiveTimerTick s = (fst (mp_expireCaches (v3_cache (fst s))), s')"
      "peers_ok n (fst s')" "\<forall>j. v3_engineIdCache (fst s') j =
        (if j \<in> set (due_peers (fst s) (v3_expirationTimer (fst s))) then None else v3_engineIdCache (fst s) j)" by blast
    from s'(3) Suc.prems(2) have "v3_engineIdCache (fst s') k = None" by metis
    from Suc.IH [OF s'(2) this] s'(1) show ?case by simp
  qed simp
  from assms show ?thesis
  proof (induction m arbitrary: s)
    case 0
    then have "v3_expirationTimer (fst s) \<le> e" unfolding peers_ok_def by metis
    then show ?case by simp
  next
    case (Suc m)
    let ?T = "v3_expirationTimer (fst s)"
    from tick_peers [OF Suc.prems(1)] obtain s' where s': "v3_receiveTimerTick s = (fst (mp_expireCaches (v3_cache (fst s))), s')"
      "peers_ok n (fst s')" "v3_expirationTimer (fst s') = ?T + 1"
      "\<And>x. due_peers (fst s') x = (if x = ?T then [] else due_peers (fst s) x)"
      "\<And>j. v3_engineIdCache (fst s') j = (if j \<in> set (due_peers (fst s) ?T) then None else v3_engineIdCache (fst s) j)" by blast
    have le: "?T \<le> e" using Suc.prems unfolding peers_ok_def by metis
    show ?case
    proof (cases "e = ?T")
      case True
      then have "v3_engineIdCache (fst s') k = None" using s'(5) Suc.prems(2) by simp
      from gone [OF s'(2) this, of m] s'(1) True show ?thesis by simp
    next
      case False
      have "k \<notin> set (due_peers (fst s) ?T)" using Suc.prems False unfolding peers_ok_def by metis
      then have c: "v3_engineIdCache (fst s') k = v3_engineIdCache (fst s) k" using s'(5) by simp
      have "k \<in> set (due_peers (fst s') e)" using s'(4) False Suc.prems(2) by simp
      from Suc.IH [OF s'(2) this] show ?thesis by (simp add: s'(1,3) c)
    qed
  qed
qed

text \<open>
  (C33) What discovery learned of a peer is forgotten in time, and only then. In every state the
  engine can reach, a peer that is known is remembered for some number of timer ticks, no more than the 300
  an engine identifier lives, and forgotten with the next one. It does not matter what becomes of the
  message cache, which a tick expires after the peers and whose exceptions are the only ones a tick raises.
\<close>

theorem v3_peers_expire:
  assumes "v3_reachable env (v, w)" and "getPeerEngineInfo td ta v = Some x"
  shows "(\<exists>n \<le> ve_lifetime env. \<forall>m. getPeerEngineInfo td ta (fst (v3_ticks m (v, w))) = (if m \<le> n then Some x else None)) \<and>
    fst (v3_receiveTimerTick (v, w)) = fst (mp_expireCaches (v3_cache v))"
proof -
  have ok: "peers_ok (ve_lifetime env) (fst (v, w))" using v3_reachable_peers [OF assms(1)] by (simp add: peers_inv_def)
  then obtain e where e: "(td, ta) \<in> set (due_peers (fst (v, w)) e)"
    using assms(2) unfolding peers_ok_def getPeerEngineInfo_def fst_conv by (metis option.discI)
  then have "v3_expirationTimer v \<le> e \<and> e \<le> v3_expirationTimer v + ve_lifetime env"
    using ok unfolding peers_ok_def fst_conv by blast
  then have n: "e - v3_expirationTimer v \<le> ve_lifetime env"
    "v3_expirationTimer v + m \<le> e \<longleftrightarrow> m \<le> e - v3_expirationTimer v" for m by auto
  have "getPeerEngineInfo td ta (fst (v3_ticks m (v, w))) = (if m \<le> e - v3_expirationTimer v then Some x else None)" for m
    using v3_ticks_ok [OF ok e, of m] assms(2) by (simp add: getPeerEngineInfo_def n(2))
  moreover have "fst (v3_receiveTimerTick (v, w)) = fst (mp_expireCaches (v3_cache v))"
    using tick_peers [OF ok] by fastforce
  ultimately show ?thesis using n(1) by blast
qed


section \<open>Concrete cases\<close>

text \<open>A security model that always says the same, and an engine with nothing but it.\<close>

definition sm_saying :: "(octets \<times> octets \<times> scoped_pdu \<times> int \<times> nat) res \<Rightarrow> unit sec_model" where
  "sm_saying r = \<lparr>sh_generateRequestMsg = (\<lambda>_ _ _ _ _ _ _. sret ([], [1])),
     sh_generateResponseMsg = (\<lambda>_ _ _ _ _ _ _ _. sret ([], [1])),
     sh_processIncomingMsg = (\<lambda>_ _ _ _ _. sres r), sh_releaseStateInformation = (\<lambda>_. sret ())\<rparr>"

definition v3_header_of :: "8 word \<Rightarrow> v3_header" where
  "v3_header_of flags = \<lparr>hd_msgID = 1, hd_msgMaxSize = 1500, hd_msgFlags = flags, hd_msgSecurityModel = 3\<rparr>"

definition sample_v3_env :: "8 word \<Rightarrow> (octets \<times> octets \<times> scoped_pdu \<times> int \<times> nat) res \<Rightarrow> (nat, unit) v3_env" where
  "sample_v3_env flags r = \<lparr>
     ve_decode = (\<lambda>_. Inr (Some \<lparr>ms_msgVersion = 3, ms_header = v3_header_of flags, ms_securityParameters = [],
       ms_data = EncryptedPDU []\<rparr>)),
     ve_securityModels = [3 \<mapsto> sm_saying r], ve_snmpEngineID = [9], ve_snmpEngineMaxMessageSize = 1500,
     ve_lifetime = 2, ve_transmit = (\<lambda>_. sret ())\<rparr>"

definition sample_v3 :: "nat v3_mp" where
  "sample_v3 = \<lparr>v3_cache = snd (mp_pushByMsgId 1 \<lparr>mi_sendPduHandle = 7, mi_rest =
         \<lparr>vs_snmpEngineID = [8], vs_securityModel = 3, vs_securityName = [117], vs_securityLevel = 1,
          vs_contextEngineId = [], vs_contextName = [], vs_transportDomain = [], vs_transportAddress = 0\<rparr>\<rparr>
       mp_cache_init),
     v3_msgID = \<lparr>ni_maximum = 10, ni_increment = 4, ni_threshold = 2, ni_bank = [2, 3, 4]\<rparr>,
     v3_stateReference = \<lparr>ni_maximum = 10, ni_increment = 4, ni_threshold = 2, ni_bank = [0, 1, 2, 3]\<rparr>,
     v3_engineIdCache = Map.empty, v3_engineIdCacheExpQueue = Map.empty, v3_expirationTimer = 0,
     v3_snmpUnknownSecurityModels = 0, v3_snmpInvalidMsgs = 0\<rparr>"

definition sample_sp :: "pdu_type \<Rightarrow> scoped_pdu" where
  "sample_sp t = \<lparr>sp_contextEngineId = [], sp_contextName = [], sp_pdu = pdu_clone t\<rparr>"

definition sample_accepts :: "pdu_type \<Rightarrow> (octets \<times> octets \<times> scoped_pdu \<times> int \<times> nat) res" where
  "sample_accepts t = Inr ([9], [117], sample_sp t, 1000, 0)"

lemma sample_response:
  "map_sum (\<lambda>_. ()) de_pduType
     (fst (v3_prepareDataElements (sample_v3_env 0 (sample_accepts Response)) [] 5 [] (sample_v3, ()))) = Inr Response"
  by code_simp

lemma sample_request:
  "map_sum (\<lambda>_. ()) de_pduType
     (fst (v3_prepareDataElements (sample_v3_env 4 (sample_accepts GetRequest)) [] 5 [] (sample_v3, ()))) = Inr GetRequest"
  by code_simp

lemma sample_report:
  "getPeerEngineInfo [] 5 (fst (snd (v3_prepareDataElements (sample_v3_env 0 (sample_accepts Report)) [] 5 []
     (sample_v3, ())))) = Some \<lparr>pi_securityEngineId = [9], pi_contextEngineId = [], pi_contextName = []\<rparr>"
  by code_simp

lemma map_sum_eq_Inr: "map_sum f g (fst p) = Inr y \<longleftrightarrow> (\<exists>x s. p = (Inr x, s) \<and> g x = y)"
  by (cases p; cases "fst p") auto

theorem v3_response_answers_request_witness:
  "\<exists>de s'. v3_prepareDataElements (sample_v3_env 0 (sample_accepts Response)) [] 5 [] (sample_v3, ()) = (Inr de, s') \<and>
     de_sendPduHandle de = Some 7"
proof -
  obtain de s' where r: "v3_prepareDataElements (sample_v3_env 0 (sample_accepts Response)) [] 5 [] (sample_v3, ())
      = (Inr de, s')" "de_pduType de = Response"
    using sample_response unfolding map_sum_eq_Inr by blast
  then have "responseClass (de_pduType de)" by simp
  from v3_response_answers_request [OF r(1) this] have "de_sendPduHandle de = Some 7"
    by (auto simp: sample_v3_env_def v3_header_of_def sample_v3_def mp_pushByMsgId_def mp_cache_init_def)
  with r(1) show ?thesis by blast
qed

theorem v3_answer_goes_back_once_witness:
  "\<exists>de v w ref r v2 w2. v3_prepareDataElements (sample_v3_env 4 (sample_accepts GetRequest)) [] 5 [] (sample_v3, ())
      = (Inr de, v, w) \<and> de_stateReference de = Some ref \<and>
    v3_prepareResponseMessage (sample_v3_env 4 (sample_accepts GetRequest)) None (Some ref) None (v, w) = (r, v2, w2) \<and>
    v3_prepareResponseMessage (sample_v3_env 4 (sample_accepts GetRequest)) None (Some ref) None (v2, w2)
      = (Inl ProtocolError, v2, w2)"
proof -
  let ?env = "sample_v3_env 4 (sample_accepts GetRequest)"
  obtain de v w where r: "v3_prepareDataElements ?env [] 5 [] (sample_v3, ()) = (Inr de, v, w)" "de_pduType de = GetRequest"
    using sample_request unfolding map_sum_eq_Inr by (metis prod.collapse)
  then have "confirmedClass (de_pduType de)" by simp
  note once = v3_answer_goes_back_once [OF r(1) this]
  then obtain ref where ref: "de_stateReference de = Some ref" by blast
  obtain r' v2 w2 where a: "v3_prepareResponseMessage ?env None (Some ref) None (v, w) = (r', v2, w2)"
    by (cases "v3_prepareResponseMessage ?env None (Some ref) None (v, w)")
  then have "v3_prepareResponseMessage ?env None (Some ref) None (v2, w2) = (Inl ProtocolError, v2, w2)"
    using once ref by auto
  with ref r(1) a show ?thesis by blast
qed

definition sample_refusal :: status_info where
  "sample_refusal = no_details\<lparr>si_errorIndication := Some unknownSecurityName, si_oid := Some [1], si_val := Some 1,
     si_securityStateReference := Some 0, si_contextEngineId := Some [9], si_contextName := Some [],
     si_maxSizeResponseScopedPDU := Some 1000\<rparr>"

theorem v3_reports_unanswered_witness:
  "v3_prepareDataElements ((sample_v3_env 0 (Inl (StatusInformation sample_refusal)))
      \<lparr>ve_transmit := (\<lambda>_. sraise KeyError)\<rparr>) [] 5 [] (sample_v3, ()) =
   v3_prepareDataElements (sample_v3_env 0 (Inl (StatusInformation sample_refusal))) [] 5 [] (sample_v3, ())"
proof (rule v3_reports_unanswered)
  show "assemble_msg_header (sample_v3_env 0 (sample_accepts Report)) 1 1 3 (pdu_clone Report) = Inr (v3_header_of 0)"
    by (simp add: assemble_msg_header_def level_flags_def sample_v3_env_def v3_header_of_def pdu_clone_def)
qed (auto simp: sample_v3_env_def sm_saying_def sample_refusal_def no_details_def pdu_clone_def sm_defs)

theorem v3_peers_expire_witness:
  "getPeerEngineInfo [] 5 (fst (snd (v3_prepareDataElements (sample_v3_env 0 (sample_accepts Report)) [] 5 []
        (sample_v3, ())))) = Some \<lparr>pi_securityEngineId = [9], pi_contextEngineId = [], pi_contextName = []\<rparr> \<and>
    getPeerEngineInfo [] 5 (fst (v3_ticks 3 (snd (v3_prepareDataElements (sample_v3_env 0 (sample_accepts Report)) [] 5 []
        (sample_v3, ()))))) = None"
proof -
  let ?env = "sample_v3_env 0 (sample_accepts Report)"
  let ?s = "snd (v3_prepareDataElements ?env [] 5 [] (sample_v3, ()))"
  have g: "getPeerEngineInfo [] 5 (fst ?s) = Some \<lparr>pi_securityEngineId = [9], pi_contextEngineId = [], pi_contextName = []\<rparr>"
    by (rule sample_report)
  have "v3_reachable ?env (sample_v3, ())" by (rule v3_reachable.start) (simp_all add: sample_v3_def)
  then have "v3_reachable ?env ?s" by (rule v3_reachable.incoming)
  then have "v3_reachable ?env (fst ?s, snd ?s)" by (simp only: prod.collapse)
  from v3_peers_expire [OF this g] obtain n where n: "n \<le> 2" "\<forall>m. getPeerEngineInfo [] 5 (fst (v3_ticks m (fst ?s, snd ?s))) =
    (if m \<le> n then Some \<lparr>pi_securityEngineId = [9], pi_contextEngineId = [], pi_contextName = []\<rparr> else None)"
    by (auto simp: sample_v3_env_def)
  then have "getPeerEngineInfo [] 5 (fst (v3_ticks 3 (fst ?s, snd ?s))) = None"
    using spec [OF n(2), of 3] n(1) by auto
  with g show ?thesis by (simp only: prod.collapse simp_thms)
qed

end
