(* ===== verification/V3_Usm.thy ===== *)
theory V3_Usm
  imports Mp_V3
begin

text \<open>
  SNMPv3 message processing over the User-based Security Model: the composition of \<open>Mp_V3\<close> with
  \<open>Usm\<close> and \<open>Usm_Send\<close>, as \<open>pysnmp/entity/engine.py\<close> registers them with each other.

  The locale \<open>secure_link\<close> is what message processing needs of the security models at the two ends:
  a message one makes, the other takes apart as it was. The lemma proved in it takes a request
  from the application of one engine to that of another; it is met by the USM of the development.
\<close>

section \<open>The security model as message processing sees it\<close>

definition usm_model :: "v3_message usm_env \<Rightarrow> usm_codec \<Rightarrow> usm sec_model" where
  "usm_model env co = \<lparr>
     sh_generateRequestMsg = (\<lambda>maxSize v gd eid name lvl sp. generateRequestMsg env co v gd eid name lvl sp),
     sh_generateResponseMsg = (\<lambda>maxSize v gd eid name lvl sp ref.
       generateResponseMsg env co v gd eid (case name of None \<Rightarrow> [] | Some n \<Rightarrow> n) lvl sp ref),
     sh_processIncomingMsg = processIncomingMsg env,
     sh_releaseStateInformation = (\<lambda>ref. on_cache (sbind (sec_pop ref) (\<lambda>_. sret ())))\<rparr>"

section \<open>The link\<close>

text \<open>
  \<open>gen\<close> makes a message for the engine \<open>eid\<close>, \<open>proc\<close> takes it apart there; \<open>ready\<close> is what they need of
  each other's state, with the name the user has at the far end.
\<close>

text \<open>The data elements of a request are those of the request \<open>rq\<close> with the PDU \<open>p\<close>.\<close>

definition same_request :: "('cb, 'addr) send_request \<Rightarrow> pdu \<Rightarrow> octets \<Rightarrow> octets \<Rightarrow> data_elements \<Rightarrow> bool" where
  "same_request rq p contextEngineId far de \<longleftrightarrow>
     de_messageProcessingModel de = 3 \<and> de_securityModel de = sq_securityModel rq \<and> de_securityName de = far \<and>
     de_securityLevel de = sq_securityLevel rq \<and> de_contextEngineId de = contextEngineId \<and>
     de_contextName de = sq_contextName rq \<and> de_PDU de = V1Pdu p"

locale secure_link =
  fixes gen :: "v3_header \<Rightarrow> octets \<Rightarrow> int \<Rightarrow> scoped_pdu \<Rightarrow> ('a, octets \<times> octets) sm"
    and proc :: "int \<Rightarrow> octets \<Rightarrow> nat \<Rightarrow> octets \<Rightarrow> v3_message \<Rightarrow>
      ('b, octets \<times> octets \<times> scoped_pdu \<times> int \<times> nat) sm"
    and dec :: "octets \<Rightarrow> v3_message option"
    and ready :: "v3_header \<Rightarrow> octets \<Rightarrow> int \<Rightarrow> scoped_pdu \<Rightarrow> 'a \<Rightarrow> 'b \<Rightarrow> octets \<Rightarrow> bool"
    and eid :: octets
  assumes delivers: "gen gd name lvl sp a = (Inr (ps, whole), a') \<Longrightarrow> ready gd name lvl sp a b far \<Longrightarrow>
    \<exists>m mx ref b'. dec whole = Some m \<and> ms_header m = gd \<and> ms_msgVersion m = 3 \<and>
      proc n (ms_securityParameters m) (nat lvl) whole m b = (Inr (eid, far, sp, mx, ref), b')"

lemma flags_roundtrip:
  assumes "level_flags lvl = Inr f"
  shows "flags_level (if c then or f 4 else f) = Some (nat lvl) \<and> reportable (if c then or f 4 else f) = c"
  using assms by (auto simp: level_flags_def flags_level_def reportable_def split: if_splits)

text \<open>A request the sender's application made, and what it leaves there.\<close>

lemma prepareOutgoing_Inr:
  assumes "v3_prepareOutgoingMessage env rq h (v, a) = (Inr (td, ta, whole), s')"
    and "sq_PDU rq = V1Pdu p" and "confirmedClass (p_type p)"
    and "getPeerEngineInfo (sq_transportDomain rq) (sq_transportAddress rq) v = Some x"
    and "ve_securityModels env (sq_securityModel rq) = Some sh"
  shows "\<exists>msgID gd ps a' e. fst (newMsgID v) = Inr msgID \<and> assemble_msg_header env (int msgID) (sq_securityLevel rq) (sq_securityModel rq) p = Inr gd \<and>
    sh_generateRequestMsg sh (ve_snmpEngineMaxMessageSize env) 3 gd (Some (pi_securityEngineId x)) (sq_securityName rq)
      (sq_securityLevel rq) \<lparr>sp_contextEngineId = context_engine (ve_snmpEngineID env) (Some x) (sq_contextEngineId rq),
        sp_contextName = sq_contextName rq, sp_pdu = p\<rparr> a = (Inr (ps, whole), a') \<and>
    mc_msgIdIndex (v3_cache (fst s')) msgID = Some (\<lparr>mi_sendPduHandle = h, mi_rest = request_state env rq
        (context_engine (ve_snmpEngineID env) (Some x) (sq_contextEngineId rq))\<rparr>, e)"
proof -
  let ?ce = "context_engine (ve_snmpEngineID env) (Some x) (sq_contextEngineId rq)"
  obtain msgID v1 where id: "newMsgID v = (Inr msgID, v1)"
    using assms(1) by (auto simp: v3_prepareOutgoingMessage_def sbind_eq_Inr_iff on_fst_eq_Inr)
  have pr: "getPeerEngineInfo (sq_transportDomain rq) (sq_transportAddress rq) v1 = Some x"
    using id assms(4) by (auto simp: newMsgID_def getPeerEngineInfo_def split: prod.splits)
  have nu: "\<not> unconfirmedClass (p_type p)" using assms(3) by auto
  obtain gd ps a' s1 where gd: "assemble_msg_header env (int msgID) (sq_securityLevel rq) (sq_securityModel rq) p = Inr gd"
    and gen: "sh_generateRequestMsg sh (ve_snmpEngineMaxMessageSize env) 3 gd (Some (pi_securityEngineId x)) (sq_securityName rq)
      (sq_securityLevel rq) \<lparr>sp_contextEngineId = ?ce, sp_contextName = sq_contextName rq, sp_pdu = p\<rparr> a = (Inr (ps, whole), a')"
    and push: "mp_pushByMsgId msgID \<lparr>mi_sendPduHandle = h, mi_rest = request_state env rq ?ce\<rparr> (v3_cache v1) = (Inr (), s1)"
      "v3_cache (fst s') = s1"
    using assms(1,2,3,5) id pr nu
    by (auto simp: v3_prepareOutgoingMessage_def Let_def sbind_eq_Inr_iff on_fst_eq_Inr on_snd_eq_Inr on_mp_cache_eq_Inr
        sget_def v3_pdu_def simp del: confirmedClass.simps unconfirmedClass.simps split: if_splits)
  have "\<exists>e. mc_msgIdIndex (v3_cache (fst s')) msgID = Some (\<lparr>mi_sendPduHandle = h, mi_rest = request_state env rq ?ce\<rparr>, e)"
    unfolding push(2) by (rule mp_pushByMsgId_Inr [OF push(1)])
  with gd gen id show ?thesis by fastforce
qed

text \<open>A free state reference for the request, as long as the counter has not come round to one in use.\<close>

definition reference_free :: "'addr v3_mp \<Rightarrow> bool" where
  "reference_free v \<longleftrightarrow> (case nextid_call (v3_stateReference v) of
     (Inl e, g) \<Rightarrow> False | (Inr r, g) \<Rightarrow> mc_stateReferenceIndex (v3_cache v) r = None)"

lemma push_request_ok:
  assumes "reference_free v"
  shows "\<exists>ref v' e. push_request rq (v, w) = (Inr ref, v', w) \<and> mc_stateReferenceIndex (v3_cache v') ref = Some (rq, e)"
proof -
  obtain r g where "nextid_call (v3_stateReference v) = (Inr r, g)" "mc_stateReferenceIndex (v3_cache v) r = None"
    using assms by (auto simp: reference_free_def split: prod.splits sum.splits)
  then show ?thesis
    by (simp add: push_request_def sbind_def on_fst_def newStateReference_def on_mp_cache_def mp_pushByStateRef_def
        Let_def sret_def)
qed

context secure_link begin

text \<open>
  A request made at one end is, at the other, the same request: its data elements, and what is
  kept there for the answer.
\<close>

lemma request_arrives:
  fixes vA :: "'x v3_mp" and vB :: "'y v3_mp"
  assumes sent: "v3_prepareOutgoingMessage envA rq h (vA, a) = (Inr (td, ta, whole), s')"
    and p: "sq_PDU rq = V1Pdu p" "confirmedClass (p_type p)"
    and peer: "getPeerEngineInfo (sq_transportDomain rq) (sq_transportAddress rq) vA = Some x" "pi_securityEngineId x = eid"
    and shA: "ve_securityModels envA (sq_securityModel rq) = Some sA"
      "\<And>n gd name lvl sp. sh_generateRequestMsg sA n 3 gd (Some eid) name lvl sp = gen gd name lvl sp"
    and shB: "ve_securityModels envB (sq_securityModel rq) = Some sB" "sh_processIncomingMsg sB = proc"
    and B: "ve_decode envB whole = Inr (dec whole)" "ve_snmpEngineID envB = eid" "reference_free vB"
    and ready: "\<And>msgID gd. fst (newMsgID vA) = Inr msgID \<Longrightarrow>
      assemble_msg_header envA (int msgID) (sq_securityLevel rq) (sq_securityModel rq) p = Inr gd \<Longrightarrow>
      ready gd (sq_securityName rq) (sq_securityLevel rq)
        \<lparr>sp_contextEngineId = context_engine (ve_snmpEngineID envA) (Some x) (sq_contextEngineId rq),
         sp_contextName = sq_contextName rq, sp_pdu = p\<rparr> a b far"
  shows "\<exists>de t msgID ref kept e waiting e'. v3_prepareDataElements envB td' ta' whole (vB, b) = (Inr de, t) \<and>
    same_request rq p (context_engine (ve_snmpEngineID envA) (Some x) (sq_contextEngineId rq)) far de \<and>
    de_stateReference de = Some ref \<and>
    mc_stateReferenceIndex (v3_cache (fst t)) ref = Some (kept, e) \<and> vr_msgID kept = int msgID \<and>
    vr_transportDomain kept = td' \<and> vr_transportAddress kept = ta' \<and>
    mc_msgIdIndex (v3_cache (fst s')) msgID = Some (waiting, e') \<and> mi_sendPduHandle waiting = h"
proof -
  let ?ce = "context_engine (ve_snmpEngineID envA) (Some x) (sq_contextEngineId rq)"
  let ?sp = "\<lparr>sp_contextEngineId = ?ce, sp_contextName = sq_contextName rq, sp_pdu = p\<rparr>"
  obtain msgID gd ps a' waiting e'
    where id: "fst (newMsgID vA) = Inr msgID"
      and gd: "assemble_msg_header envA (int msgID) (sq_securityLevel rq) (sq_securityModel rq) p = Inr gd"
      and g: "gen gd (sq_securityName rq) (sq_securityLevel rq) ?sp a = (Inr (ps, whole), a')"
      and w: "mc_msgIdIndex (v3_cache (fst s')) msgID = Some (waiting, e')" "mi_sendPduHandle waiting = h"
    using prepareOutgoing_Inr [OF sent p peer(1) shA(1)] shA(2) peer(2) by fastforce
  obtain f where f: "level_flags (sq_securityLevel rq) = Inr f" "hd_msgFlags gd = or f 4"
      "hd_msgSecurityModel gd = sq_securityModel rq" "hd_msgID gd = int msgID"
    using gd p(2) by (auto simp: assemble_msg_header_def rbind_eq_Inr_iff simp del: confirmedClass.simps)
  have lvl: "flags_level (hd_msgFlags gd) = Some (nat (sq_securityLevel rq))" "int (nat (sq_securityLevel rq)) = sq_securityLevel rq"
    using flags_roundtrip [OF f(1), of True] f(1,2) by (auto simp: level_flags_def split: if_splits)
  obtain m mx ref0 b' where m: "dec whole = Some m" "ms_header m = gd" "ms_msgVersion m = 3"
    and pr: "proc (hd_msgMaxSize gd) (ms_securityParameters m) (nat (sq_securityLevel rq)) whole m b =
      (Inr (eid, far, ?sp, mx, ref0), b')"
    using delivers [OF g ready [OF id gd], of "hd_msgMaxSize gd"] by blast
  let ?kept = "cached_request td' ta' m (nat (sq_securityLevel rq)) ?ce (sq_contextName rq) (Some far) ref0 mx"
  obtain ref v' e where k: "push_request ?kept (vB, b') = (Inr ref, v', b')"
      "mc_stateReferenceIndex (v3_cache v') ref = Some (?kept, e)"
    using push_request_ok [OF B(3), of ?kept b'] by blast
  have ty: "\<not> responseClass (p_type p)" "\<not> internalClass (p_type p)" using p(2) by auto
  have l: "learn_peer n kk ee ?sp vB = (Inr (), vB)" for n kk ee
    using ty(2) by (simp add: learn_peer_def smodify_def del: internalClass.simps)
  have "v3_prepareDataElements envB td' ta' whole (vB, b) =
      (Inr (data_of m far (nat (sq_securityLevel rq)) ?sp None mx (Some ref)), v', b')"
    using B(1,2) m f(3) shB lvl(1) pr l k(1) p(2) ty
    by (simp add: v3_prepareDataElements_def Let_def sbind_def scatch_def on_snd_def on_fst_def
        accept_request_def sret_def del: confirmedClass.simps responseClass.simps internalClass.simps)
  then show ?thesis
    using k(2) w m f lvl(2) by (auto simp: data_of_def cached_request_def same_request_def)
qed

end

section \<open>The User-based Security Model as the link\<close>

text \<open>
  What the two ends need: the sender has the user, the receiver the same user with the same keys;
  the sender knows the receiver's clock; the receiver reads what the sender writes; and in the one
  message sent the digest is where it is looked for.
\<close>

definition usm_ready :: "v3_message usm_env \<Rightarrow> usm_codec \<Rightarrow> (octets \<Rightarrow> v3_message option) \<Rightarrow> v3_message usm_env \<Rightarrow>
    v3_header \<Rightarrow> octets \<Rightarrow> int \<Rightarrow> scoped_pdu \<Rightarrow> usm \<Rightarrow> usm \<Rightarrow> octets \<Rightarrow> bool" where
  "usm_ready EA co decodeMessage EB gd name lvl sp a b far \<longleftrightarrow> (\<exists>u clk.
     fst (peer_user EA co name (ue_snmpEngineID EB) a) = Inr u \<and> far = ui_securityName u \<and>
     ue_snmpEngineID EB \<noteq> [] \<and> ue_getUserInfo EB (ue_snmpEngineID EB) (ui_userName u) = Inr u \<and>
     ui_userName u \<noteq> [] \<and> (lvl = 3 \<or> lvl = 2 \<and> ui_privProtocol u = usmNoPrivProtocol) \<and>
     confirmedClass (p_type (sp_pdu sp)) \<and> us_timeline a (ue_snmpEngineID EB) = Some clk \<and>
     ue_snmpEngineBoots EB = tl_engineBoots clk \<and> tl_engineBoots clk \<noteq> 2147483647 \<and>
     \<bar>ue_snmpEngineTime EB - tl_engineTime clk\<bar> \<le> 150 \<and> ue_crypto EB = ue_crypto EA \<and>
     reads_what_is_written co EB decodeMessage \<and>
     sent_digest_in_place EA co 3 gd (ue_snmpEngineID EB) name lvl sp a \<and>
     (\<forall>svc. us_localInt a svc < 2 ^ salt_bits svc) \<and> sec_inv (us_cache b))"

interpretation usm_link: secure_link
  "\<lambda>gd. generateRequestMsg EA co 3 gd (Some (ue_snmpEngineID EB))" "processIncomingMsg EB" decodeMessage
  "usm_ready EA co decodeMessage EB" "ue_snmpEngineID EB"
  for EA EB co decodeMessage
proof
  fix gd name lvl sp a ps whole a' b far n
  assume g: "generateRequestMsg EA co 3 gd (Some (ue_snmpEngineID EB)) name lvl sp a = (Inr (ps, whole), a')"
    and "usm_ready EA co decodeMessage EB gd name lvl sp a b far"
  then show "\<exists>m mx ref b'. decodeMessage whole = Some m \<and> ms_header m = gd \<and> ms_msgVersion m = 3 \<and>
      processIncomingMsg EB n (ms_securityParameters m) (nat lvl) whole m b =
        (Inr (ue_snmpEngineID EB, far, sp, mx, ref), b')"
    unfolding usm_ready_def using usm_delivers [OF g] by (elim exE conjE) (simp only:, blast)
qed


section \<open>A concrete exchange\<close>

definition link_env :: "(nat, usm) v3_env" where
  "link_env = \<lparr>ve_decode = (\<lambda>w. Inr (sample_decode w)), ve_securityModels = [3 \<mapsto> usm_model agent_env sample_codec],
     ve_snmpEngineID = agent_id, ve_snmpEngineMaxMessageSize = 1500, ve_lifetime = 2, ve_transmit = (\<lambda>_. sret ())\<rparr>"

definition link_v3 :: "nat v3_mp" where
  "link_v3 = sample_v3\<lparr>v3_cache := mp_cache_init, v3_msgID := (v3_msgID sample_v3)\<lparr>ni_bank := [1, 2]\<rparr>,
     v3_engineIdCache := [([], 5) \<mapsto>
       \<lparr>pi_securityEngineId = agent_id, pi_contextEngineId = [], pi_contextName = []\<rparr>]\<rparr>"

definition link_request :: "(unit, nat) send_request" where
  "link_request = \<lparr>sq_transportDomain = [], sq_transportAddress = 5, sq_messageProcessingModel = 3, sq_securityModel = 3,
     sq_securityName = [83], sq_securityLevel = 3, sq_contextEngineId = Some [], sq_contextName = [],
     sq_pduVersion = 1, sq_PDU = V1Pdu (sp_pdu sample_scoped), sq_expectResponse = True, sq_timeout = 1, sq_cbFun = ()\<rparr>"

lemmas link_defs = link_env_def link_v3_def link_request_def

lemma link_header:
  "assemble_msg_header link_env 1 3 3 (sp_pdu sample_scoped) = Inr sample_header"
  by (simp add: assemble_msg_header_def level_flags_def link_env_def sample_scoped_def sample_header_def)

lemma link_sends:
  "\<exists>whole s'. v3_prepareOutgoingMessage link_env link_request 7 (link_v3, manager_usm) = (Inr ([], 5, whole), s')"
proof -
  obtain ps w s' where g: "generateRequestMsg agent_env sample_codec 3 sample_header (Some agent_id) [83] 3
      sample_scoped manager_usm = (Inr (ps, w), s')" "length w < 150"
    using manager_sends by blast
  have sp: "\<lparr>sp_contextEngineId = [], sp_contextName = [], sp_pdu = sp_pdu sample_scoped\<rparr> = sample_scoped"
    by (simp add: sample_scoped_def)
  have ty: "confirmedClass (p_type (sp_pdu sample_scoped))" "\<not> unconfirmedClass (p_type (sp_pdu sample_scoped))"
    by (simp_all add: sample_scoped_def)
  have h: "newMsgID link_v3 = (Inr 1, link_v3\<lparr>v3_msgID := (v3_msgID link_v3)\<lparr>ni_bank := [2]\<rparr>\<rparr>)"
    by (simp add: newMsgID_def nextid_call_def link_v3_def sample_v3_def)
  have pe: "getPeerEngineInfo [] 5 (link_v3\<lparr>v3_msgID := y\<rparr>) =
      Some \<lparr>pi_securityEngineId = agent_id, pi_contextEngineId = [], pi_contextName = []\<rparr>" for y
    by (simp add: getPeerEngineInfo_def link_v3_def)
  have m: "ve_securityModels link_env 3 = Some (usm_model agent_env sample_codec)"
      "ve_snmpEngineMaxMessageSize link_env = 1500"
    by (simp_all add: link_env_def)
  have c: "v3_cache (link_v3\<lparr>v3_msgID := y\<rparr>) = mp_cache_init" for y by (simp add: link_v3_def)
  show ?thesis
    unfolding v3_prepareOutgoingMessage_def
    using g h pe m sp ty link_header
    by (simp add: sbind_def on_fst_def on_snd_def sget_def link_request_def context_engine_def v3_pdu_def Let_def
        sres_def sret_def usm_model_def on_mp_cache_def c mp_pushByMsgId_def mp_cache_init_def
        del: confirmedClass.simps unconfirmedClass.simps)
qed

lemma link_ready:
  assumes "assemble_msg_header link_env msgID 3 3 (sp_pdu sample_scoped) = Inr gd"
  shows "usm_ready agent_env sample_codec sample_decode agent_env gd [83] 3 sample_scoped manager_usm (sample_usm Map.empty) [83]"
proof -
  have inv: "sec_inv (us_cache (sample_usm Map.empty))"
    by (simp add: sec_inv_def sample_usm_def nextid_inv_def next_after_def) (intro exI [of _ 0], simp)
  have u: "fst (peer_user agent_env sample_codec [83] agent_id manager_usm) = Inr des_user"
    using manager_finds_user by auto
  show ?thesis
    unfolding usm_ready_def
    by (intro exI [of _ des_user] exI [of _ "\<lparr>tl_engineBoots = 3, tl_engineTime = 900,
     tl_latestReceivedEngineTime = 900, tl_latestUpdateTimestamp = 0\<rparr>"])
      (use u inv sample_sent_digest_in_place sample_reads in \<open>auto simp: agent_env_def des_user_def agent_id_def sample_scoped_def manager_usm_def
         sample_usm_def\<close>)
qed


end
