(* ===== verification/Community_Sm.thy ===== *)
theory Community_Sm
  imports Engine_Caches Dispatcher "HOL-Library.Product_Lexorder"
begin

text \<open>
  The community string as a security model, \<open>pysnmp/proto/secmod/rfc2576.py\<close>, with the socket
  addresses of \<open>smi/mibs/behavior/SNMPv2-TM.py\<close> and \<open>TRANSPORT-ADDRESS-MIB.py\<close>.

  The tables of the MIB are an argument, as lists of rows in the order of their indices, with the
  version of the column whose version the code looks at. The order in which Python goes through a
  set is a parameter, and so is the BER encoder.

  The lemmas show that the name a community stands for is chosen from the rows whose tag the sender's
  address has, in tables as fresh as their versions; and that a request this engine sends can change
  the choice.
\<close>

section \<open>Tables\<close>

record community_row =
  cw_communityName :: octets
  cw_securityName :: octets
  cw_contextEngineID :: octets
  cw_contextName :: octets
  cw_transportTag :: octets

record target_row =
  tw_tDomain :: oid
  tw_tAddress :: octets
  tw_tagList :: octets

record community_mib =
  bm_targetVersion :: int
  bm_targets :: "target_row list"
  bm_paramsVersion :: int
  bm_params :: "(octets \<times> int) list"
  bm_communityVersion :: int
  bm_communities :: "community_row list"
  bm_snmpEngineID :: octets

text \<open>A security name and the context that goes with it.\<close>

type_synonym com_name = "octets \<times> octets \<times> octets"

section \<open>Addresses\<close>

text \<open>
  What a transport address is to Python: a host and a port for IPv4, with flow information and
  scope for IPv6, the path of a local socket, or the octets of anything else. \<open>inet_ntop\<close> is
  one-to-one, so that a host is its octets.
\<close>

datatype address = Inet octets nat | Inet6 octets nat nat nat | LocalPath octets | Uninterpreted octets

definition snmpUDPDomain :: oid where "snmpUDPDomain = [1, 3, 6, 1, 6, 1, 1]"
definition snmpUDP6Domain :: oid where "snmpUDP6Domain = [1, 3, 6, 1, 2, 1, 100, 1, 2]"
definition snmpTCPDomain :: oid where "snmpTCPDomain = [1, 3, 6, 1, 2, 1, 100, 1, 5]"
definition snmpTCP6Domain :: oid where "snmpTCP6Domain = [1, 3, 6, 1, 2, 1, 100, 1, 6]"
definition snmpLocalDomain :: oid where "snmpLocalDomain = [1, 3, 6, 1, 2, 1, 100, 1, 13]"

definition port_at :: "nat \<Rightarrow> octets \<Rightarrow> nat" where
  "port_at i octs = unat (octs ! i) * 256 + unat (octs ! (i + 1))"

text \<open>The types have a fixed size; anything else is refused when the value is made.\<close>

definition inet_address :: "octets \<Rightarrow> address res" where
  "inet_address octs = (if length octs = 6 then Inr (Inet (take 4 octs) (port_at 4 octs)) else Inl PyAsn1Error)"

definition inet6_address :: "octets \<Rightarrow> address res" where
  "inet6_address octs =
     (if length octs = 18 then Inr (Inet6 (take 16 octs) (port_at 16 octs) 0 0) else Inl PyAsn1Error)"

definition socket_address :: "oid \<Rightarrow> octets \<Rightarrow> address res" where
  "socket_address tDomain tAddress =
     (if is_prefix snmpUDPDomain tDomain then inet_address tAddress
      else if is_prefix snmpUDP6Domain tDomain then inet6_address tAddress
      else if is_prefix snmpTCPDomain tDomain then inet_address tAddress
      else if is_prefix snmpTCP6Domain tDomain then inet6_address tAddress
      else if is_prefix snmpLocalDomain tDomain then Inr (LocalPath tAddress)
      else Inr (Uninterpreted tAddress))"

section \<open>State\<close>

record com_sm =
  cs_cache :: "octets sec_cache"
  cs_transportBranchId :: int
  cs_paramsBranchId :: int
  cs_communityBranchId :: int
  cs_securityBranchId :: int
  cs_transportToTagMap :: "oid \<times> address \<rightharpoonup> octets set"
  cs_nameToModelMap :: "octets \<rightharpoonup> int set"
  cs_communityToTagMap :: "octets \<rightharpoonup> octets set"
  cs_tagAndCommunityToSecurityMap :: "octets \<times> octets \<rightharpoonup> com_name set"
  cs_securityMap :: "com_name \<rightharpoonup> octets"
  cs_snmpInBadCommunityNames :: int

text \<open>A message as far as this model looks at it, and what it takes from elsewhere.\<close>

record com_message =
  cm_version :: int
  cm_community :: octets
  cm_pdu :: v1_pdu

record com_env =
  ev_securityModelID :: int
  ev_tagOrder :: "octets set \<Rightarrow> octets list"
  ev_nameOrder :: "com_name set \<Rightarrow> com_name list"
  ev_encode :: "com_message \<Rightarrow> octets res"

section \<open>The caches of the tables\<close>

text \<open>Adding to the set a dictionary has under a key.\<close>

definition add_at :: "'k \<Rightarrow> 'v set \<Rightarrow> ('k \<rightharpoonup> 'v set) \<Rightarrow> ('k \<rightharpoonup> 'v set)" where
  "add_at k xs m = m(k \<mapsto> (case m k of None \<Rightarrow> xs | Some ys \<Rightarrow> ys \<union> xs))"

text \<open>\<open>bytes.split()\<close>.\<close>

definition is_space :: "8 word \<Rightarrow> bool" where
  "is_space x \<longleftrightarrow> x \<in> {9, 10, 11, 12, 13, 32}"

fun split_tags :: "octets \<Rightarrow> octets \<Rightarrow> octets list" where
  "split_tags acc [] = (if acc = [] then [] else [acc])"
| "split_tags acc (x # xs) =
     (if is_space x then (if acc = [] then [] else [acc]) @ split_tags [] xs else split_tags (acc @ [x]) xs)"

definition tags_of :: "octets \<Rightarrow> octets set" where
  "tags_of tagList = (if tagList = [] then {[]} else set (split_tags [] tagList))"

fun add_targets :: "target_row list \<Rightarrow> (oid \<times> address \<rightharpoonup> octets set, unit) sm" where
  "add_targets [] = sret ()"
| "add_targets (r # rs) =
     sbind (sres (socket_address (tw_tDomain r) (tw_tAddress r))) (\<lambda>a.
     sbind (smodify (add_at (tw_tDomain r, a) (tags_of (tw_tagList r)))) (\<lambda>_. add_targets rs))"

definition refresh_transports :: "community_mib \<Rightarrow> (com_sm, unit) sm" where
  "refresh_transports mib s =
     (if cs_transportBranchId s = bm_targetVersion mib then (Inr (), s)
      else case add_targets (bm_targets mib) Map.empty of
        (Inl e, m) \<Rightarrow> (Inl e, s\<lparr>cs_transportToTagMap := m\<rparr>)
      | (Inr _, m) \<Rightarrow> (Inr (), s\<lparr>cs_transportToTagMap := m, cs_transportBranchId := bm_targetVersion mib\<rparr>))"

text \<open>
  The security models of a name. When a message is sent, a row starts its name's set anew: the code
  asks whether the row's model is a key of the dictionary, which a number never is.
\<close>

definition models_incoming :: "(octets \<times> int) list \<Rightarrow> octets \<rightharpoonup> int set" where
  "models_incoming = foldl (\<lambda>m (name, model). add_at name {model} m) Map.empty"

definition models_outgoing :: "(octets \<times> int) list \<Rightarrow> octets \<rightharpoonup> int set" where
  "models_outgoing = foldl (\<lambda>m (name, model). m(name \<mapsto> {model})) Map.empty"

definition refresh_params_incoming :: "community_mib \<Rightarrow> (com_sm, unit) sm" where
  "refresh_params_incoming mib = smodify (\<lambda>s.
     if cs_paramsBranchId s = bm_paramsVersion mib then s
     else s\<lparr>cs_nameToModelMap := models_incoming (bm_params mib), cs_paramsBranchId := bm_paramsVersion mib,
            cs_communityBranchId := -1\<rparr>)"

definition refresh_params_outgoing :: "community_mib \<Rightarrow> (com_sm, unit) sm" where
  "refresh_params_outgoing mib = smodify (\<lambda>s.
     if cs_paramsBranchId s = bm_paramsVersion mib then s
     else s\<lparr>cs_nameToModelMap := models_outgoing (bm_params mib), cs_paramsBranchId := bm_paramsVersion mib,
            cs_securityBranchId := -1\<rparr>)"

definition row_name :: "community_row \<Rightarrow> com_name" where
  "row_name r = (cw_securityName r, cw_contextEngineID r, cw_contextName r)"

definition refresh_communities :: "community_mib \<Rightarrow> (com_sm, unit) sm" where
  "refresh_communities mib = smodify (\<lambda>s.
     if cs_communityBranchId s = bm_communityVersion mib then s
     else s\<lparr>cs_tagAndCommunityToSecurityMap :=
              foldl (\<lambda>m r. add_at (cw_transportTag r, cw_communityName r) {row_name r} m) Map.empty (bm_communities mib),
            cs_communityToTagMap :=
              foldl (\<lambda>m r. add_at (cw_communityName r) {cw_transportTag r} m) Map.empty (bm_communities mib),
            cs_communityBranchId := bm_communityVersion mib\<rparr>)"

definition refresh_securityMap :: "community_mib \<Rightarrow> (com_sm, unit) sm" where
  "refresh_securityMap mib = smodify (\<lambda>s.
     if cs_securityBranchId s = bm_communityVersion mib then s
     else s\<lparr>cs_securityMap := foldl (\<lambda>m r. m(row_name r \<mapsto> cw_communityName r)) Map.empty (bm_communities mib),
            cs_securityBranchId := bm_communityVersion mib\<rparr>)"

section \<open>From names to communities and back\<close>

definition sec2com :: "community_mib \<Rightarrow> com_name \<Rightarrow> (com_sm, octets) sm" where
  "sec2com mib n =
     sbind (refresh_params_outgoing mib) (\<lambda>_.
     sbind (refresh_securityMap mib) (\<lambda>_.
     sbind (sget (\<lambda>s. cs_securityMap s n)) (\<lambda>c.
     case c of None \<Rightarrow> sraise (status unknownCommunityName) | Some community \<Rightarrow> sret community)))"

text \<open>The tags under which a message may come in.\<close>

definition usable_tags :: "com_env \<Rightarrow> octets \<Rightarrow> oid \<times> address \<Rightarrow> com_sm \<Rightarrow> octets list res" where
  "usable_tags env communityName transportInformation s =
     (case cs_communityToTagMap s communityName of
        None \<Rightarrow> Inl (status unknownCommunityName)
      | Some own \<Rightarrow>
          (case cs_transportToTagMap s transportInformation of
             Some tags \<Rightarrow> Inr (ev_tagOrder env (tags \<inter> own))
           | None \<Rightarrow> if [] \<in> own then Inr [[]] else Inl (status unknownCommunityName)))"

fun names_under :: "com_env \<Rightarrow> octets \<Rightarrow> octets list \<Rightarrow> com_sm \<Rightarrow> com_name list res" where
  "names_under env communityName [] s = Inr []"
| "names_under env communityName (t # ts) s =
     (case cs_tagAndCommunityToSecurityMap s (t, communityName) of
        None \<Rightarrow> Inl KeyError
      | Some ns \<Rightarrow> rbind (names_under env communityName ts s) (\<lambda>rest. Inr (ev_nameOrder env ns @ rest)))"

text \<open>5.2.1: the first match, in the order of the security names, those with a target of this model first.\<close>

definition name_key :: "int \<Rightarrow> (octets \<rightharpoonup> int set) \<Rightarrow> com_name \<Rightarrow> bool \<times> octets" where
  "name_key model m x = (\<not> (case m (fst x) of None \<Rightarrow> False | Some models \<Rightarrow> model \<in> models), fst x)"

definition choose_name :: "com_env \<Rightarrow> octets \<Rightarrow> oid \<times> address \<Rightarrow> com_sm \<Rightarrow> com_name res" where
  "choose_name env communityName transportInformation s =
     rbind (usable_tags env communityName transportInformation s) (\<lambda>tags.
     rbind (names_under env communityName tags s) (\<lambda>names.
     case sort_key (name_key (ev_securityModelID env) (cs_nameToModelMap s)) names of
       [] \<Rightarrow> Inl (status unknownCommunityName)
     | chosen # _ \<Rightarrow> Inr chosen))"

definition com2sec :: "com_env \<Rightarrow> community_mib \<Rightarrow> octets \<Rightarrow> oid \<times> address \<Rightarrow> (com_sm, com_name) sm" where
  "com2sec env mib communityName transportInformation =
     sbind (refresh_transports mib) (\<lambda>_.
     sbind (refresh_params_incoming mib) (\<lambda>_.
     sbind (refresh_communities mib) (\<lambda>_.
     sbind (sget (choose_name env communityName transportInformation)) sres)))"

section \<open>Operations\<close>

definition on_com_cache :: "(octets sec_cache, 'a) sm \<Rightarrow> (com_sm, 'a) sm" where
  "on_com_cache m s = (case m (cs_cache s) of (r, c) \<Rightarrow> (r, s\<lparr>cs_cache := c\<rparr>))"

definition com_encode :: "com_env \<Rightarrow> com_message \<Rightarrow> octets res" where
  "com_encode env msg =
     (case ev_encode env msg of
        Inl e \<Rightarrow> if is_PyAsn1Error e then Inl (status serializationError) else Inl e
      | Inr w \<Rightarrow> Inr w)"

definition com_generateRequestMsg :: "com_env \<Rightarrow> community_mib \<Rightarrow> int \<Rightarrow> octets \<Rightarrow> octets \<Rightarrow> octets \<Rightarrow> v1_pdu \<Rightarrow>
    (com_sm, octets \<times> octets) sm" where
  "com_generateRequestMsg env mib version securityName contextEngineId contextName pdu =
     sbind (sec2com mib (securityName, contextEngineId, contextName)) (\<lambda>communityName.
     sbind (sres (com_encode env \<lparr>cm_version = version, cm_community = communityName, cm_pdu = pdu\<rparr>)) (\<lambda>wholeMsg.
     sret (communityName, wholeMsg)))"

definition com_generateResponseMsg :: "com_env \<Rightarrow> int \<Rightarrow> v1_pdu \<Rightarrow> nat \<Rightarrow> (com_sm, octets \<times> octets) sm" where
  "com_generateResponseMsg env version pdu securityStateReference =
     sbind (on_com_cache (sec_pop securityStateReference)) (\<lambda>communityName.
     sbind (sres (com_encode env \<lparr>cm_version = version, cm_community = communityName, cm_pdu = pdu\<rparr>)) (\<lambda>wholeMsg.
     sret (communityName, wholeMsg)))"

definition com_processIncomingMsg :: "com_env \<Rightarrow> community_mib \<Rightarrow> int \<Rightarrow> octets \<Rightarrow> oid \<times> address \<Rightarrow> com_message \<Rightarrow>
    (com_sm, octets \<times> octets \<times> (octets \<times> octets \<times> v1_pdu) \<times> int \<times> nat) sm" where
  "com_processIncomingMsg env mib maxMessageSize communityName transportInformation msg =
     sbind (scatch (com2sec env mib communityName transportInformation)
       (\<lambda>e. if is_StatusInformation e
          then sbind (smodify (\<lambda>s. s\<lparr>cs_snmpInBadCommunityNames := inc32 (cs_snmpInBadCommunityNames s)\<rparr>))
            (\<lambda>_. sraise (status unknownCommunityName))
          else sraise e))
       (\<lambda>(securityName, contextEngineId, contextName).
     sbind (on_com_cache (sec_push communityName)) (\<lambda>stateReference.
     sret (bm_snmpEngineID mib, securityName, (contextEngineId, contextName, cm_pdu msg), maxMessageSize - 128,
       stateReference)))"

definition com_releaseStateInformation :: "nat \<Rightarrow> (com_sm, unit) sm" where
  "com_releaseStateInformation stateReference = on_com_cache (sbind (sec_pop stateReference) (\<lambda>_. sret ()))"

section \<open>The security state\<close>

lemma refresh_cache:
  "refresh_transports mib s = (r, s') \<Longrightarrow> cs_cache s' = cs_cache s"
  "refresh_params_incoming mib s = (r, s') \<Longrightarrow> cs_cache s' = cs_cache s"
  "refresh_params_outgoing mib s = (r, s') \<Longrightarrow> cs_cache s' = cs_cache s"
  "refresh_communities mib s = (r, s') \<Longrightarrow> cs_cache s' = cs_cache s"
  "refresh_securityMap mib s = (r, s') \<Longrightarrow> cs_cache s' = cs_cache s"
  by (auto simp: refresh_transports_def refresh_params_incoming_def refresh_params_outgoing_def
      refresh_communities_def refresh_securityMap_def smodify_def split: if_splits prod.splits sum.splits)

lemma com2sec_cache:
  "com2sec env mib c ti s = (Inr n, s') \<Longrightarrow> cs_cache s' = cs_cache s"
  by (auto simp: com2sec_def sbind_eq_Inr_iff sget_def sres_def dest!: refresh_cache)

lemma sec2com_cache:
  "sec2com mib n s = (Inr c, s') \<Longrightarrow> cs_cache s' = cs_cache s"
  by (auto simp: sec2com_def sbind_eq_Inr_iff sget_def sret_def sraise_def dest!: refresh_cache split: option.splits)

text \<open>An incoming message leaves its community under the reference it is given.\<close>

lemma com_process_ok:
  assumes "com2sec env mib (cm_community msg) ti s = (Inr (name, ce, cn), s1)" and "sec_inv (cs_cache s)"
  obtains ref s' where "com_processIncomingMsg env mib n (cm_community msg) ti msg s =
      (Inr (bm_snmpEngineID mib, name, (ce, cn, cm_pdu msg), n - 128, ref), s')"
    and "sec_inv (cs_cache s')" and "sc_cacheEntries (cs_cache s') ref = Some (cm_community msg)"
proof -
  have "sec_inv (cs_cache s1)" using com2sec_cache [OF assms(1)] assms(2) by simp
  then obtain ref c where "sec_push (cm_community msg) (cs_cache s1) = (Inr ref, c)" "sec_inv c"
    "sc_cacheEntries c ref = Some (cm_community msg)" using sec_push_ok by metis
  then show thesis using assms(1)
    by (intro that [of ref "s1\<lparr>cs_cache := c\<rparr>"])
      (simp_all add: com_processIncomingMsg_def sbind_def scatch_def on_com_cache_def sret_def)
qed

lemma com_encode_eq_Inr: "com_encode env m = Inr w \<longleftrightarrow> ev_encode env m = Inr w"
  by (auto simp: com_encode_def split: sum.splits)

lemma com_generateRequestMsg_eq_Inr:
  "com_generateRequestMsg env mib v name ce cn pdu s = (Inr (c, w), s') \<longleftrightarrow>
     sec2com mib (name, ce, cn) s = (Inr c, s') \<and>
     ev_encode env \<lparr>cm_version = v, cm_community = c, cm_pdu = pdu\<rparr> = Inr w"
  by (auto simp: com_generateRequestMsg_def sbind_eq_Inr_iff sres_def sret_def com_encode_eq_Inr)

lemma com_generateResponseMsg_eq_Inr:
  "com_generateResponseMsg env v pdu ref s = (Inr (c, w), s') \<longleftrightarrow>
     on_com_cache (sec_pop ref) s = (Inr c, s') \<and>
     ev_encode env \<lparr>cm_version = v, cm_community = c, cm_pdu = pdu\<rparr> = Inr w"
  by (auto simp: com_generateResponseMsg_def sbind_eq_Inr_iff sres_def sret_def com_encode_eq_Inr)

section \<open>What a community stands for\<close>

text \<open>
  The tags of the sender's address, if it has a row; and the rows of the community that have one
  of them, or no tag if the address has no row.
\<close>

definition address_rows :: "community_mib \<Rightarrow> oid \<times> address \<Rightarrow> target_row list" where
  "address_rows mib ti =
     [r \<leftarrow> bm_targets mib. tw_tDomain r = fst ti \<and> socket_address (tw_tDomain r) (tw_tAddress r) = Inr (snd ti)]"

definition tags_from :: "community_mib \<Rightarrow> oid \<times> address \<Rightarrow> octets set" where
  "tags_from mib ti =
     (if address_rows mib ti = [] then {[]} else (\<Union>r \<in> set (address_rows mib ti). tags_of (tw_tagList r)))"

definition matching_rows :: "community_mib \<Rightarrow> octets \<Rightarrow> oid \<times> address \<Rightarrow> community_row set" where
  "matching_rows mib communityName ti =
     {r \<in> set (bm_communities mib). cw_communityName r = communityName \<and> cw_transportTag r \<in> tags_from mib ti}"

text \<open>
  The security name given to a community: that of a best matching row, where a name that has a target
  with this security model comes before any other, by the security models \<open>m\<close> that are kept for
  each name.
\<close>

fun stands_for :: "int \<Rightarrow> (octets \<rightharpoonup> int set) \<Rightarrow> community_mib \<Rightarrow> octets \<Rightarrow> oid \<times> address \<Rightarrow> com_name res \<Rightarrow> bool" where
  "stands_for model m mib communityName ti (Inr n) \<longleftrightarrow>
     n \<in> row_name ` matching_rows mib communityName ti \<and>
     (\<forall>r \<in> matching_rows mib communityName ti. name_key model m n \<le> name_key model m (row_name r))"
| "stands_for model m mib communityName ti (Inl e) \<longleftrightarrow>
     e = status unknownCommunityName \<and> matching_rows mib communityName ti = {}"

text \<open>Dictionaries of sets, and the maps the rows give.\<close>

definition at_key :: "'k \<Rightarrow> ('k \<rightharpoonup> 'v set) \<Rightarrow> 'v set" where
  "at_key k m = (case m k of None \<Rightarrow> {} | Some xs \<Rightarrow> xs)"

lemma foldl_add_at:
  "foldl (\<lambda>m r. add_at (f r) (g r) m) m rs k =
     (if m k = None \<and> k \<notin> f ` set rs then None else Some (at_key k m \<union> (\<Union>r \<in> {r \<in> set rs. f r = k}. g r)))"
proof (induction rs arbitrary: m)
  case Nil
  then show ?case by (auto simp: at_key_def split: option.splits)
next
  case (Cons r rs)
  have "at_key k (add_at (f r) (g r) m) = at_key k m \<union> (if f r = k then g r else {})"
    "add_at (f r) (g r) m k = None \<longleftrightarrow> m k = None \<and> f r \<noteq> k"
    by (auto simp: at_key_def add_at_def split: option.splits)
  then show ?case unfolding foldl_Cons Cons.IH by auto
qed

lemma add_targets_eq:
  assumes "\<forall>r \<in> set rs. \<exists>a. socket_address (tw_tDomain r) (tw_tAddress r) = Inr a"
  shows "add_targets rs m = (Inr (), foldl (\<lambda>m r. add_at (tw_tDomain r,
    projr (socket_address (tw_tDomain r) (tw_tAddress r))) (tags_of (tw_tagList r)) m) m rs)"
  using assms by (induction rs arbitrary: m) (auto simp: sm_defs)

definition addresses_ok :: "community_mib \<Rightarrow> bool" where
  "addresses_ok mib \<longleftrightarrow> (\<forall>r \<in> set (bm_targets mib). \<exists>a. socket_address (tw_tDomain r) (tw_tAddress r) = Inr a)"

definition tag_map :: "community_mib \<Rightarrow> oid \<times> address \<rightharpoonup> octets set" where
  "tag_map mib = snd (add_targets (bm_targets mib) Map.empty)"

lemma tag_map_eq:
  assumes "addresses_ok mib"
  shows "tag_map mib ti = (if address_rows mib ti = [] then None else Some (tags_from mib ti))"
proof -
  have "(tw_tDomain r, projr (socket_address (tw_tDomain r) (tw_tAddress r))) = ti \<longleftrightarrow> r \<in> set (address_rows mib ti)"
    if "r \<in> set (bm_targets mib)" for r
  proof -
    from bspec [OF assms [unfolded addresses_ok_def] that]
    obtain a where "socket_address (tw_tDomain r) (tw_tAddress r) = Inr a" ..
    then show ?thesis using that by (cases ti) (auto simp: address_rows_def)
  qed
  moreover have "set (address_rows mib ti) \<subseteq> set (bm_targets mib)" by (auto simp: address_rows_def)
  ultimately have k: "{r \<in> set (bm_targets mib). (tw_tDomain r, projr (socket_address (tw_tDomain r) (tw_tAddress r))) = ti}
      = set (address_rows mib ti)" by blast
  have img: "y \<notin> f ` A \<longleftrightarrow> {x \<in> A. f x = y} = {}" for f :: "target_row \<Rightarrow> oid \<times> address" and y A by auto
  show ?thesis
    unfolding tag_map_def add_targets_eq [OF assms [unfolded addresses_ok_def]] snd_conv foldl_add_at img k set_empty
    by (simp add: tags_from_def at_key_def)
qed

text \<open>
  What the two maps of security models say of a name: for incoming messages whether one of its targets
  has the model, for outgoing ones whether its last target has it.
\<close>

lemma name_key_incoming:
  "name_key model (models_incoming ps) n = ((fst n, model) \<notin> set ps, fst n)"
proof -
  have "models_incoming ps x = (if x \<notin> fst ` set ps then None else Some (snd ` {p \<in> set ps. fst p = x}))" for x
    unfolding models_incoming_def case_prod_unfold foldl_add_at by (auto simp: at_key_def)
  then show ?thesis by (force simp: name_key_def image_iff)
qed

lemma name_key_outgoing:
  "name_key model (models_outgoing ps) n = (map_of (rev ps) (fst n) \<noteq> Some model, fst n)"
proof -
  have "models_outgoing ps x = map_option (\<lambda>p. {p}) (map_of (rev ps) x)" for x
    by (induction ps rule: rev_induct) (auto simp: models_outgoing_def)
  then show ?thesis by (auto simp: name_key_def split: option.splits)
qed

definition tag_community_map :: "community_row list \<Rightarrow> octets \<times> octets \<rightharpoonup> com_name set" where
  "tag_community_map = foldl (\<lambda>m r. add_at (cw_transportTag r, cw_communityName r) {row_name r} m) Map.empty"

definition community_tag_map :: "community_row list \<Rightarrow> octets \<rightharpoonup> octets set" where
  "community_tag_map = foldl (\<lambda>m r. add_at (cw_communityName r) {cw_transportTag r} m) Map.empty"

definition security_map :: "community_row list \<Rightarrow> com_name \<rightharpoonup> octets" where
  "security_map = foldl (\<lambda>m r. m(row_name r \<mapsto> cw_communityName r)) Map.empty"

lemma security_map_eq: "security_map rs n = map_of (rev (map (\<lambda>r. (row_name r, cw_communityName r)) rs)) n"
  by (induction rs rule: rev_induct) (auto simp: security_map_def)

section \<open>What the caches hold\<close>

text \<open>
  Nothing is known of the tables but that a version is read with them. \<open>H\<close> are the bases that
  were asked, and \<open>sent\<close> tells whether a message was sent before: receiving and sending build
  different maps of the security models, and either uses what it finds.
\<close>

definition com_from :: "bool \<Rightarrow> community_mib set \<Rightarrow> com_sm \<Rightarrow> bool" where
  "com_from sent H s \<longleftrightarrow>
     (cs_transportBranchId s = -1 \<or> (\<exists>c \<in> H. bm_targetVersion c = cs_transportBranchId s \<and>
        cs_transportToTagMap s = tag_map c)) \<and>
     (cs_paramsBranchId s = -1 \<or> (\<exists>c \<in> H. bm_paramsVersion c = cs_paramsBranchId s \<and>
        (cs_nameToModelMap s = models_incoming (bm_params c) \<or> sent \<and> cs_nameToModelMap s = models_outgoing (bm_params c)))) \<and>
     (cs_communityBranchId s = -1 \<or> (\<exists>c \<in> H. bm_communityVersion c = cs_communityBranchId s \<and>
        cs_tagAndCommunityToSecurityMap s = tag_community_map (bm_communities c) \<and>
        cs_communityToTagMap s = community_tag_map (bm_communities c))) \<and>
     (cs_securityBranchId s = -1 \<or> (\<exists>c \<in> H. bm_communityVersion c = cs_securityBranchId s \<and>
        cs_securityMap s = security_map (bm_communities c)))"

text \<open>Versions are not the value the identifiers start with, and every address has its type's length.\<close>

definition com_used :: "community_mib \<Rightarrow> bool" where
  "com_used mib \<longleftrightarrow> addresses_ok mib \<and> bm_targetVersion mib \<noteq> -1 \<and> bm_paramsVersion mib \<noteq> -1 \<and>
     bm_communityVersion mib \<noteq> -1"

text \<open>
  \<open>com_read H mib b\<close>: \<open>b\<close> is \<open>mib\<close> but for the tables, each of which is the one a base in \<open>H\<close>
  had at the version that \<open>mib\<close> has of it.
\<close>

definition com_read :: "community_mib set \<Rightarrow> community_mib \<Rightarrow> community_mib \<Rightarrow> bool" where
  "com_read H mib b \<longleftrightarrow>
     b = mib\<lparr>bm_targets := bm_targets b, bm_params := bm_params b, bm_communities := bm_communities b\<rparr> \<and>
     (\<exists>c \<in> H. bm_targetVersion c = bm_targetVersion mib \<and> bm_targets b = bm_targets c) \<and>
     (\<exists>c \<in> H. bm_paramsVersion c = bm_paramsVersion mib \<and> bm_params b = bm_params c) \<and>
     (\<exists>c \<in> H. bm_communityVersion c = bm_communityVersion mib \<and> bm_communities b = bm_communities c)"

definition com_version_tells :: "community_mib \<Rightarrow> community_mib \<Rightarrow> bool" where
  "com_version_tells mib c \<longleftrightarrow>
     (bm_targetVersion c = bm_targetVersion mib \<longrightarrow> bm_targets c = bm_targets mib) \<and>
     (bm_paramsVersion c = bm_paramsVersion mib \<longrightarrow> bm_params c = bm_params mib) \<and>
     (bm_communityVersion c = bm_communityVersion mib \<longrightarrow> bm_communities c = bm_communities mib)"

lemma com_read_current:
  assumes "com_read H mib b" and "\<forall>c \<in> H. com_version_tells mib c"
  shows "b = mib"
proof -
  have "bm_targets b = bm_targets mib" "bm_params b = bm_params mib" "bm_communities b = bm_communities mib"
    using assms unfolding com_read_def com_version_tells_def by metis+
  moreover have "b = mib\<lparr>bm_targets := bm_targets b, bm_params := bm_params b, bm_communities := bm_communities b\<rparr>"
    using assms(1) unfolding com_read_def by blast
  ultimately show ?thesis by simp
qed

lemma tag_map_targets: "bm_targets a = bm_targets b \<Longrightarrow> tag_map a = tag_map b"
  by (simp add: tag_map_def)

lemma refresh_transports_from:
  assumes "com_used mib" and "com_from sent H s" and "\<forall>c \<in> H. addresses_ok c"
  shows "\<exists>s' c. refresh_transports mib s = (Inr (), s') \<and> com_from sent (insert mib H) s' \<and> c \<in> insert mib H \<and>
    bm_targetVersion c = bm_targetVersion mib \<and> cs_transportToTagMap s' = tag_map c"
proof (cases "cs_transportBranchId s = bm_targetVersion mib")
  case True
  have "com_from sent (insert mib H) s" using assms(2) by (auto simp: com_from_def)
  with True assms show ?thesis by (auto simp: refresh_transports_def com_from_def com_used_def)
next
  case False
  have "add_targets (bm_targets mib) Map.empty = (Inr (), tag_map mib)"
    using add_targets_eq [of "bm_targets mib"] assms(1) by (simp add: com_used_def addresses_ok_def tag_map_def)
  with False assms(2) show ?thesis by (auto simp: refresh_transports_def com_from_def)
qed

lemma refresh_params_incoming_from:
  assumes "com_used mib" and "com_from sent H s"
  shows "\<exists>s' c. refresh_params_incoming mib s = (Inr (), s') \<and> com_from sent (insert mib H) s' \<and> c \<in> insert mib H \<and>
    bm_paramsVersion c = bm_paramsVersion mib \<and> cs_transportToTagMap s' = cs_transportToTagMap s \<and>
    (cs_nameToModelMap s' = models_incoming (bm_params c) \<or> sent \<and> cs_nameToModelMap s' = models_outgoing (bm_params c))"
  using assms
  by (cases "cs_paramsBranchId s = bm_paramsVersion mib")
    (auto simp: refresh_params_incoming_def smodify_def com_from_def com_used_def)

lemma refresh_params_outgoing_from:
  assumes "com_used mib" and "com_from sent H s"
  shows "\<exists>s'. refresh_params_outgoing mib s = (Inr (), s') \<and> com_from True (insert mib H) s'"
  using assms
  by (cases "cs_paramsBranchId s = bm_paramsVersion mib")
    (auto simp: refresh_params_outgoing_def smodify_def com_from_def com_used_def)

lemma refresh_communities_from:
  assumes "com_used mib" and "com_from sent H s"
  shows "\<exists>s' c. refresh_communities mib s = (Inr (), s') \<and> com_from sent (insert mib H) s' \<and> c \<in> insert mib H \<and>
    bm_communityVersion c = bm_communityVersion mib \<and> cs_transportToTagMap s' = cs_transportToTagMap s \<and>
    cs_nameToModelMap s' = cs_nameToModelMap s \<and>
    cs_tagAndCommunityToSecurityMap s' = tag_community_map (bm_communities c) \<and>
    cs_communityToTagMap s' = community_tag_map (bm_communities c)"
  using assms
  by (cases "cs_communityBranchId s = bm_communityVersion mib")
    (auto simp: refresh_communities_def smodify_def com_from_def com_used_def tag_community_map_def community_tag_map_def)

lemma refresh_securityMap_from:
  assumes "com_used mib" and "com_from sent H s"
  shows "\<exists>s' c. refresh_securityMap mib s = (Inr (), s') \<and> com_from sent (insert mib H) s' \<and> c \<in> insert mib H \<and>
    bm_communityVersion c = bm_communityVersion mib \<and> cs_securityMap s' = security_map (bm_communities c)"
  using assms
  by (cases "cs_securityBranchId s = bm_communityVersion mib")
    (auto simp: refresh_securityMap_def smodify_def com_from_def com_used_def security_map_def)

lemma com2sec_from:
  assumes "com_used mib" and "com_from sent H s" and "\<forall>c \<in> H. addresses_ok c"
  obtains b s' where "com2sec env mib communityName ti s = (choose_name env communityName ti s', s')"
    and "com_read (insert mib H) mib b" and "addresses_ok b"
    and "com_from sent (insert mib H) s'" and "cs_transportToTagMap s' = tag_map b"
    and "cs_nameToModelMap s' = models_incoming (bm_params b) \<or> sent \<and> cs_nameToModelMap s' = models_outgoing (bm_params b)"
    and "cs_tagAndCommunityToSecurityMap s' = tag_community_map (bm_communities b)"
    and "cs_communityToTagMap s' = community_tag_map (bm_communities b)"
proof -
  let ?H = "insert mib H"
  obtain s1 c1 where 1: "refresh_transports mib s = (Inr (), s1)" "com_from sent ?H s1" "c1 \<in> ?H"
    "bm_targetVersion c1 = bm_targetVersion mib" "cs_transportToTagMap s1 = tag_map c1"
    using refresh_transports_from [OF assms] by blast
  obtain s2 c2 where 2: "refresh_params_incoming mib s1 = (Inr (), s2)" "com_from sent ?H s2" "c2 \<in> ?H"
    "bm_paramsVersion c2 = bm_paramsVersion mib" "cs_transportToTagMap s2 = cs_transportToTagMap s1"
    "cs_nameToModelMap s2 = models_incoming (bm_params c2) \<or> sent \<and> cs_nameToModelMap s2 = models_outgoing (bm_params c2)"
    using refresh_params_incoming_from [OF assms(1) 1(2), unfolded insert_absorb2] by blast
  obtain s3 c3 where 3: "refresh_communities mib s2 = (Inr (), s3)" "com_from sent ?H s3" "c3 \<in> ?H"
    "bm_communityVersion c3 = bm_communityVersion mib" "cs_transportToTagMap s3 = cs_transportToTagMap s2"
    "cs_nameToModelMap s3 = cs_nameToModelMap s2"
    "cs_tagAndCommunityToSecurityMap s3 = tag_community_map (bm_communities c3)"
    "cs_communityToTagMap s3 = community_tag_map (bm_communities c3)"
    using refresh_communities_from [OF assms(1) 2(2), unfolded insert_absorb2] by blast
  let ?b = "mib\<lparr>bm_targets := bm_targets c1, bm_params := bm_params c2, bm_communities := bm_communities c3\<rparr>"
  have "com_read ?H mib ?b" unfolding com_read_def using 1(3,4) 2(3,4) 3(3,4) by auto
  moreover have "addresses_ok ?b" using assms(1,3) 1(3) by (auto simp: addresses_ok_def com_used_def)
  moreover have "tag_map c1 = tag_map ?b" by (rule tag_map_targets) simp
  moreover have "com2sec env mib communityName ti s = (choose_name env communityName ti s3, s3)"
    using 1(1) 2(1) 3(1) by (simp add: com2sec_def sbind_def sget_def sres_def)
  ultimately show thesis using 1(5) 2(5,6) 3 by (intro that [of s3 ?b]) simp_all
qed

definition community_of :: "community_mib \<Rightarrow> com_name \<Rightarrow> octets res" where
  "community_of mib n = of_option (status unknownCommunityName)
     (map_of (rev (map (\<lambda>r. (row_name r, cw_communityName r)) (bm_communities mib))) n)"

lemma sec2com_from:
  assumes "com_used mib" and "com_from sent H s"
  obtains b s' where "sec2com mib n s = (community_of b n, s')" and "com_read (insert mib H) mib b"
    and "com_from True (insert mib H) s'"
proof -
  let ?H = "insert mib H"
  obtain s1 where 1: "refresh_params_outgoing mib s = (Inr (), s1)" "com_from True ?H s1"
    using refresh_params_outgoing_from [OF assms] by blast
  obtain s2 c where 2: "refresh_securityMap mib s1 = (Inr (), s2)" "com_from True ?H s2" "c \<in> ?H"
    "bm_communityVersion c = bm_communityVersion mib" "cs_securityMap s2 = security_map (bm_communities c)"
    using refresh_securityMap_from [OF assms(1) 1(2), unfolded insert_absorb2] by blast
  let ?b = "mib\<lparr>bm_communities := bm_communities c\<rparr>"
  have "com_read ?H mib ?b" unfolding com_read_def using 2(3,4) by auto
  moreover have "sec2com mib n s = (community_of ?b n, s2)"
    using 1(1) 2(1,5)
    by (simp add: sec2com_def sbind_def sget_def sret_def sraise_def community_of_def of_option_def security_map_eq
        split: option.split)
  ultimately show thesis using 2(2) that by blast
qed

definition lists_sets :: "com_env \<Rightarrow> bool" where
  "lists_sets env \<longleftrightarrow> (\<forall>S. finite S \<longrightarrow> set (ev_tagOrder env S) = S) \<and> (\<forall>S. finite S \<longrightarrow> set (ev_nameOrder env S) = S)"

lemma community_tag_map_eq:
  "community_tag_map rs c = (if c \<notin> cw_communityName ` set rs then None
     else Some (cw_transportTag ` {r \<in> set rs. cw_communityName r = c}))"
  unfolding community_tag_map_def foldl_add_at by (auto simp: at_key_def)

lemma tag_community_map_eq:
  "tag_community_map rs (t, c) = (if (t, c) \<notin> (\<lambda>r. (cw_transportTag r, cw_communityName r)) ` set rs then None
     else Some (row_name ` {r \<in> set rs. cw_transportTag r = t \<and> cw_communityName r = c}))"
  unfolding tag_community_map_def foldl_add_at by (auto simp: at_key_def)

lemma names_under_eq:
  assumes "lists_sets env" and "cs_tagAndCommunityToSecurityMap s = tag_community_map rs"
    and "\<forall>t \<in> set ts. \<exists>r \<in> set rs. cw_communityName r = c \<and> cw_transportTag r = t"
  shows "\<exists>names. names_under env c ts s = Inr names \<and>
    set names = row_name ` {r \<in> set rs. cw_communityName r = c \<and> cw_transportTag r \<in> set ts}"
  using assms(3)
proof (induction ts)
  case (Cons t ts)
  then obtain names where n: "names_under env c ts s = Inr names"
    "set names = row_name ` {r \<in> set rs. cw_communityName r = c \<and> cw_transportTag r \<in> set ts}" by auto
  let ?S = "row_name ` {r \<in> set rs. cw_transportTag r = t \<and> cw_communityName r = c}"
  have "(t, c) \<in> (\<lambda>r. (cw_transportTag r, cw_communityName r)) ` set rs" using Cons.prems by force
  then have m: "cs_tagAndCommunityToSecurityMap s (t, c) = Some ?S" by (simp add: assms(2) tag_community_map_eq)
  have o: "set (ev_nameOrder env ?S) = ?S" using assms(1) by (simp add: lists_sets_def)
  show ?case using n o by (auto simp: m)
qed simp

lemma choose_stands_for:
  assumes "lists_sets env" and "addresses_ok mib" and "cs_transportToTagMap s = tag_map mib"
    and "cs_tagAndCommunityToSecurityMap s = tag_community_map (bm_communities mib)"
    and "cs_communityToTagMap s = community_tag_map (bm_communities mib)"
  shows "stands_for (ev_securityModelID env) (cs_nameToModelMap s) mib c ti (choose_name env c ti s)"
proof -
  let ?rows = "{r \<in> set (bm_communities mib). cw_communityName r = c}"
  let ?own = "cw_transportTag ` ?rows"
  let ?key = "name_key (ev_securityModelID env) (cs_nameToModelMap s)"
  show ?thesis
  proof (cases "?rows = {}")
    case True
    then have "c \<notin> cw_communityName ` set (bm_communities mib)" by auto
    moreover have "matching_rows mib c ti = {}" using True by (auto simp: matching_rows_def)
    ultimately show ?thesis by (simp add: choose_name_def usable_tags_def assms(5) community_tag_map_eq)
  next
    case False
    then have own: "cs_communityToTagMap s c = Some ?own" by (auto simp: assms(5) community_tag_map_eq)
    show ?thesis
    proof (cases "address_rows mib ti = [] \<and> [] \<notin> ?own")
      case True
      then have "\<forall>r \<in> ?rows. cw_transportTag r \<noteq> []" by (metis imageI)
      then have "matching_rows mib c ti = {}" using True by (auto simp: matching_rows_def tags_from_def)
      with True own show ?thesis
        by (simp add: choose_name_def usable_tags_def assms(3) tag_map_eq [OF assms(2)])
    next
      case reach: False
      obtain ts where ts: "usable_tags env c ti s = Inr ts" "set ts = tags_from mib ti \<inter> ?own"
      proof (cases "address_rows mib ti = []")
        case True
        then show thesis using reach own
          by (intro that [of "[[]]"])
            (auto simp: usable_tags_def assms(3) tag_map_eq [OF assms(2)] tags_from_def)
      next
        case False
        have "set (ev_tagOrder env (tags_from mib ti \<inter> ?own)) = tags_from mib ti \<inter> ?own"
          using assms(1) by (simp add: lists_sets_def)
        with False show thesis using own
          by (intro that [of "ev_tagOrder env (tags_from mib ti \<inter> ?own)"])
            (simp_all add: usable_tags_def assms(3) tag_map_eq [OF assms(2)])
      qed
      have "\<forall>t \<in> set ts. \<exists>r \<in> set (bm_communities mib). cw_communityName r = c \<and> cw_transportTag r = t"
        unfolding ts(2) by auto
      note nu = names_under_eq [OF assms(1,4) this]
      have "{r \<in> set (bm_communities mib). cw_communityName r = c \<and> cw_transportTag r \<in> set ts} = matching_rows mib c ti"
        unfolding ts(2) matching_rows_def by blast
      with nu obtain names where names: "names_under env c ts s = Inr names"
        "set names = row_name ` matching_rows mib c ti" by metis
      let ?sorted = "sort_key ?key names"
      have st: "set ?sorted = row_name ` matching_rows mib c ti"
        "sorted (map ?key ?sorted)"
        using names(2) by simp_all
      have "choose_name env c ti s = (case ?sorted of [] \<Rightarrow> Inl (status unknownCommunityName) | x # _ \<Rightarrow> Inr x)"
        by (simp add: choose_name_def ts(1) names(1))
      moreover have "n \<in> row_name ` matching_rows mib c ti \<and> (\<forall>r \<in> matching_rows mib c ti.
          ?key n \<le> ?key (row_name r))"
        if "?sorted = n # ns" for n ns
      proof -
        have "\<forall>x \<in> row_name ` matching_rows mib c ti. ?key n \<le> ?key x"
          using st that by (simp flip: st(1))
        moreover have "n \<in> row_name ` matching_rows mib c ti" using that by (simp flip: st(1))
        ultimately show ?thesis by blast
      qed
      moreover have "matching_rows mib c ti = {}" if "?sorted = []" using st(1) that by simp
      ultimately show ?thesis by (cases ?sorted) simp_all
    qed
  qed
qed

text \<open>
  Messages that come in and go out, in any order, each with the tables as they are at that
  moment.
\<close>

datatype com_event = Incoming community_mib octets "oid \<times> address" | Outgoing community_mib com_name

fun base_of :: "com_event \<Rightarrow> community_mib" where
  "base_of (Incoming mib c ti) = mib"
| "base_of (Outgoing mib n) = mib"

fun is_outgoing :: "com_event \<Rightarrow> bool" where
  "is_outgoing (Incoming mib c ti) \<longleftrightarrow> False"
| "is_outgoing (Outgoing mib n) \<longleftrightarrow> True"

fun com_all :: "com_env \<Rightarrow> com_event list \<Rightarrow> com_sm \<Rightarrow> (com_name res + octets res) list" where
  "com_all env [] s = []"
| "com_all env (Incoming mib c ti # es) s = (case com2sec env mib c ti s of (r, s') \<Rightarrow> Inl r # com_all env es s')"
| "com_all env (Outgoing mib n # es) s = (case sec2com mib n s of (r, s') \<Rightarrow> Inr r # com_all env es s')"

text \<open>The right answer on a base: for an incoming message by one of the two maps of security models.\<close>

fun com_right :: "com_env \<Rightarrow> bool \<Rightarrow> community_mib \<Rightarrow> com_event \<Rightarrow> com_name res + octets res \<Rightarrow> bool" where
  "com_right env sent b (Incoming mib c ti) (Inl r) \<longleftrightarrow>
     stands_for (ev_securityModelID env) (models_incoming (bm_params b)) b c ti r \<or>
     sent \<and> stands_for (ev_securityModelID env) (models_outgoing (bm_params b)) b c ti r"
| "com_right env sent b (Outgoing mib n) (Inr r) \<longleftrightarrow> r = community_of b n"
| "com_right env sent b e a \<longleftrightarrow> False"

lemma com_all_from:
  assumes "lists_sets env" and "\<forall>mib \<in> base_of ` set es. com_used mib" and "\<forall>c \<in> H. addresses_ok c"
    and "com_from sent H s" and "i < length es"
  shows "\<exists>b. com_read (H \<union> base_of ` set (take (Suc i) es)) (base_of (es ! i)) b \<and>
    com_right env (sent \<or> (\<exists>e \<in> set (take i es). is_outgoing e)) b (es ! i) (com_all env es s ! i)"
  using assms(2-5)
proof (induction es arbitrary: H sent s i)
  case (Cons e es)
  have used: "com_used (base_of e)" using Cons.prems(1) by simp
  then have ok: "\<forall>c \<in> insert (base_of e) H. addresses_ok c" using Cons.prems(2) by (simp add: com_used_def)
  obtain b s' a where a: "com_all env (e # es) s = a # com_all env es s'" "com_from (sent \<or> is_outgoing e) (insert (base_of e) H) s'"
    "com_read (insert (base_of e) H) (base_of e) b" "com_right env sent b e a"
  proof (cases e)
    case (Incoming mib c ti)
    from com2sec_from [OF used Cons.prems(3,2), of env c ti] obtain b s' where
      s': "com2sec env (base_of e) c ti s = (choose_name env c ti s', s')" "com_read (insert (base_of e) H) (base_of e) b"
        "addresses_ok b" "com_from sent (insert (base_of e) H) s'" "cs_transportToTagMap s' = tag_map b"
      and m: "cs_nameToModelMap s' = models_incoming (bm_params b) \<or> sent \<and> cs_nameToModelMap s' = models_outgoing (bm_params b)"
      and t: "cs_tagAndCommunityToSecurityMap s' = tag_community_map (bm_communities b)"
        "cs_communityToTagMap s' = community_tag_map (bm_communities b)" by blast
    have "stands_for (ev_securityModelID env) (cs_nameToModelMap s') b c ti (choose_name env c ti s')"
      by (rule choose_stands_for [OF assms(1) s'(3,5) t])
    then show thesis using that [of "Inl (choose_name env c ti s')" s' b] s' m Incoming by auto
  next
    case (Outgoing mib n)
    from sec2com_from [OF used Cons.prems(3), of n] obtain b s' where "sec2com (base_of e) n s = (community_of b n, s')"
      "com_read (insert (base_of e) H) (base_of e) b" "com_from True (insert (base_of e) H) s'" by blast
    then show thesis using that [of "Inr (community_of b n)" s' b] Outgoing by simp
  qed
  show ?case
  proof (cases i)
    case 0
    with a show ?thesis by auto
  next
    case (Suc j)
    from Cons.IH [OF _ ok a(2), of j] Cons.prems(1,4) Suc show ?thesis by (simp add: a(1) disj_assoc)
  qed
qed simp

definition com_sm_init :: "nextid \<Rightarrow> com_sm" where
  "com_sm_init stateReference = \<lparr>cs_cache = \<lparr>sc_stateReference = stateReference, sc_cacheEntries = Map.empty\<rparr>,
     cs_transportBranchId = -1, cs_paramsBranchId = -1, cs_communityBranchId = -1, cs_securityBranchId = -1,
     cs_transportToTagMap = Map.empty, cs_nameToModelMap = Map.empty, cs_communityToTagMap = Map.empty,
     cs_tagAndCommunityToSecurityMap = Map.empty, cs_securityMap = Map.empty, cs_snmpInBadCommunityNames = 0\<rparr>"

text \<open>
  (C31) What a community stands for, and a name's community, over any sequence of messages that come in
  and go out, with the tables of the MIB changing in any way in between and all addresses in
  them well-formed. Each answer is right for tables each of which is as it was at this or an
  earlier message at which it had the version it has now; so for the tables of this moment, whenever no
  earlier message met one of them at its present version with other rows. An incoming message is given the
  security name and context of a row for its community whose transport tag is one of the tags of
  the sender's address, or empty for a sender without a row; no row for another community or
  another sender is ever taken, and without such a row the community is unknown. The row is
  a best one: a name with a target of this security model before any other, and then the least in order;
  once messages have gone out, only the last target of each name may count instead
  (\<open>community_name_depends_on_sending\<close>). An outgoing message is given the community of the last row with its name and
  context. (A version is never -1: it starts at 0 and is only ever incremented.)
\<close>

theorem communities_follow_versions:
  assumes "lists_sets env" and "\<forall>mib \<in> base_of ` set es. com_used mib" and "i < length es"
  shows "\<exists>b. com_read (base_of ` set (take (Suc i) es)) (base_of (es ! i)) b \<and>
    com_right env (\<exists>e \<in> set (take i es). is_outgoing e) b (es ! i) (com_all env es (com_sm_init g) ! i) \<and>
    ((\<forall>c \<in> base_of ` set (take i es). com_version_tells (base_of (es ! i)) c) \<longrightarrow> b = base_of (es ! i))"
proof -
  have "com_from False {} (com_sm_init g)" by (simp add: com_from_def com_sm_init_def)
  from com_all_from [OF assms(1,2) _ this assms(3)] obtain b where
    b: "com_read (base_of ` set (take (Suc i) es)) (base_of (es ! i)) b"
      "com_right env (\<exists>e \<in> set (take i es). is_outgoing e) b (es ! i) (com_all env es (com_sm_init g) ! i)" by auto
  have "com_version_tells (base_of (es ! i)) (base_of (es ! i))" by (simp add: com_version_tells_def)
  then have "\<forall>c \<in> base_of ` set (take i es). com_version_tells (base_of (es ! i)) c \<Longrightarrow>
      \<forall>c \<in> base_of ` set (take (Suc i) es). com_version_tells (base_of (es ! i)) c"
    using assms(3) by (auto simp: take_Suc_conv_app_nth)
  then show ?thesis using b com_read_current [OF b(1)] by blast
qed

section \<open>Concrete cases\<close>

definition sample_com_env :: com_env where
  "sample_com_env = \<lparr>ev_securityModelID = 1, ev_tagOrder = sorted_list_of_set, ev_nameOrder = sorted_list_of_set,
     ev_encode = (\<lambda>m. Inr (cm_community m))\<rparr>"

text \<open>Two rows for one community; the second name has a target of model 1 and then one of model 2.\<close>

definition two_names :: community_mib where
  "two_names = \<lparr>bm_targetVersion = 1, bm_targets = [\<lparr>tw_tDomain = snmpUDPDomain, tw_tAddress = [127, 0, 0, 1, 0, 161],
       tw_tagList = [116, 32, 117]\<rparr>],
     bm_paramsVersion = 1, bm_params = [([98], 1), ([98], 2)], bm_communityVersion = 1,
     bm_communities = [\<lparr>cw_communityName = [112], cw_securityName = [97], cw_contextEngineID = [1], cw_contextName = [],
         cw_transportTag = [116]\<rparr>,
       \<lparr>cw_communityName = [112], cw_securityName = [98], cw_contextEngineID = [1], cw_contextName = [],
         cw_transportTag = [117]\<rparr>],
     bm_snmpEngineID = [1]\<rparr>"

definition sample_source :: "oid \<times> address" where
  "sample_source = (snmpUDPDomain, Inet [127, 0, 0, 1] 161)"

definition no_nextid :: nextid where
  "no_nextid = \<lparr>ni_maximum = 10, ni_increment = 4, ni_threshold = 2, ni_bank = [1, 2, 3, 4]\<rparr>"

theorem communities_follow_versions_witness:
  "\<exists>r. com_all sample_com_env [Incoming two_names [112] sample_source] (com_sm_init no_nextid) = [Inl r] \<and>
     stands_for 1 (models_incoming [([98], 1), ([98], 2)]) two_names [112] sample_source r"
proof -
  obtain r s where r: "com2sec sample_com_env two_names [112] sample_source (com_sm_init no_nextid) = (r, s)"
    by (meson surj_pair)
  have "lists_sets sample_com_env" by (simp add: lists_sets_def sample_com_env_def)
  moreover have "com_used two_names"
    by (simp add: com_used_def two_names_def addresses_ok_def socket_address_def inet_address_def is_prefix_def)
  ultimately show ?thesis
    using communities_follow_versions [of sample_com_env "[Incoming two_names [112] sample_source]" 0 no_nextid] r
    by (simp add: sample_com_env_def two_names_def)
qed

text \<open>
  Which security name a community stands for depends on whether this engine has sent
  anything since the table of targets changed. With the same tables, the same message from
  the same sender is first taken for the one name and, after a request was sent, for the other:
  the map of security models that sending builds keeps only the last row of each name, and
  receiving goes on using it.
\<close>

theorem community_name_depends_on_sending:
  "fst (com2sec sample_com_env two_names [112] sample_source (com_sm_init no_nextid)) = Inr ([98], [1], []) \<and>
   fst (com2sec sample_com_env two_names [112] sample_source
     (snd (sec2com two_names ([97], [1], []) (com_sm_init no_nextid)))) = Inr ([97], [1], [])"
  by code_simp

end
