(* ===== verification/Mp_Community.thy ===== *)
theory Mp_Community
  imports MP_Cache Community_Sm
begin

text \<open>
  Message processing for SNMPv1 and SNMPv2c, \<open>pysnmp/proto/mpmod/rfc2576.py\<close>. The messages of
  these versions have no message ID of their own: the model puts a unique identifier in the place
  of the PDU's request ID while the message is under way, and the original one back.

  A PDU is an object of whoever calls: sending writes into it and writes back what was there, so
  that it is part of the state, as the last component. The security models are an environment,
  operations on the rest of the engine's state, as is the BER decoder.

  The lemmas take a request from one application to another and its response back, request IDs
  included.
\<close>

section \<open>State and environment\<close>

record 'addr c_request =
  cq_msgVersion :: int
  cq_msgID :: nat
  cq_reqID :: int
  cq_contextEngineId :: octets
  cq_contextName :: octets
  cq_securityModel :: int
  cq_securityName :: octets
  cq_securityLevel :: int
  cq_securityStateReference :: nat
  cq_msgMaxSize :: int
  cq_maxSizeResponseScopedPDU :: int
  cq_transportDomain :: oid
  cq_transportAddress :: 'addr

record 'addr c_sent =
  ct_reqID :: int
  ct_snmpEngineId :: octets
  ct_securityModel :: int
  ct_securityName :: octets
  ct_securityLevel :: int
  ct_contextEngineId :: octets
  ct_contextName :: octets
  ct_transportDomain :: oid
  ct_transportAddress :: 'addr

text \<open>The two generators are class attributes of the cache; here each model has its own.\<close>

record 'addr c_mp =
  cp_cache :: "('addr c_request, 'addr c_sent) mp_cache"
  cp_msgID :: nextid
  cp_stateReference :: nextid

text \<open>
  A security model: making a request takes the version, the security name, the context and the PDU;
  making a response the version, the PDU and the security state; taking one apart the largest
  size, the community and where it comes from.
\<close>

record ('addr, 'w) c_security =
  ch_generateRequestMsg :: "int \<Rightarrow> octets \<Rightarrow> octets \<Rightarrow> octets \<Rightarrow> v1_pdu \<Rightarrow> ('w, octets \<times> octets) sm"
  ch_generateResponseMsg :: "int \<Rightarrow> v1_pdu \<Rightarrow> nat \<Rightarrow> ('w, octets \<times> octets) sm"
  ch_processIncomingMsg :: "int \<Rightarrow> octets \<Rightarrow> oid \<times> 'addr \<Rightarrow> com_message \<Rightarrow>
    ('w, octets \<times> octets \<times> (octets \<times> octets \<times> v1_pdu) \<times> int \<times> nat) sm"
  ch_releaseStateInformation :: "nat \<Rightarrow> ('w, unit) sm"

record ('addr, 'w) c_env =
  ce_messageProcessingModelID :: int
  ce_decode :: "octets \<Rightarrow> com_message option res"
  ce_securityModels :: "int \<rightharpoonup> ('addr, 'w) c_security"
  ce_snmpEngineID :: octets
  ce_snmpEngineMaxMessageSize :: int

type_synonym ('addr, 'w) c_state = "'addr c_mp \<times> 'w"

definition on_cp_cache :: "(('addr c_request, 'addr c_sent) mp_cache, 'a) sm \<Rightarrow> ('addr c_mp, 'a) sm" where
  "on_cp_cache m v = (case m (cp_cache v) of (r, c) \<Rightarrow> (r, v\<lparr>cp_cache := c\<rparr>))"

definition c_newMsgID :: "('addr c_mp, nat) sm" where
  "c_newMsgID v = (case nextid_call (cp_msgID v) of (r, g) \<Rightarrow> (r, v\<lparr>cp_msgID := g\<rparr>))"

definition c_newStateReference :: "('addr c_mp, nat) sm" where
  "c_newStateReference v = (case nextid_call (cp_stateReference v) of (r, g) \<Rightarrow> (r, v\<lparr>cp_stateReference := g\<rparr>))"

section \<open>The first component of a PDU\<close>

fun v1_pdu_type :: "v1_pdu \<Rightarrow> pdu_type" where
  "v1_pdu_type (V1Pdu p) = p_type p"
| "v1_pdu_type (V1Trap t) = Trap"

text \<open>
  \<open>getComponentByPosition(0)\<close> and \<open>setComponentByPosition(0, i)\<close>: the request ID, or the enterprise of
  an SNMPv1 trap, which takes no number.
\<close>

fun request_id :: "v1_pdu \<Rightarrow> int" where
  "request_id (V1Pdu p) = p_requestID p"
| "request_id (V1Trap t) = 0"

fun with_request_id :: "int \<Rightarrow> v1_pdu \<Rightarrow> v1_pdu res" where
  "with_request_id i (V1Pdu p) = Inr (V1Pdu (p\<lparr>p_requestID := i\<rparr>))"
| "with_request_id i (V1Trap t) = Inl PyAsn1Error"

definition set_request_id :: "int \<Rightarrow> (v1_pdu, unit) sm" where
  "set_request_id i p = (case with_request_id i p of Inl e \<Rightarrow> (Inl e, p) | Inr p' \<Rightarrow> (Inr (), p'))"

definition is_confirmed :: "v1_pdu \<Rightarrow> bool" where
  "is_confirmed p \<longleftrightarrow> confirmedClass (v1_pdu_type p)"

section \<open>Requests\<close>

definition c_sent_of :: "('addr, 'w) c_env \<Rightarrow> ('cb, 'addr) send_request \<Rightarrow> octets \<Rightarrow> int \<Rightarrow> 'addr c_sent" where
  "c_sent_of env rq contextEngineId reqID =
     \<lparr>ct_reqID = reqID, ct_snmpEngineId = ce_snmpEngineID env, ct_securityModel = sq_securityModel rq,
      ct_securityName = sq_securityName rq, ct_securityLevel = sq_securityLevel rq,
      ct_contextEngineId = contextEngineId, ct_contextName = sq_contextName rq,
      ct_transportDomain = sq_transportDomain rq, ct_transportAddress = sq_transportAddress rq\<rparr>"

text \<open>7.1.4: no engine identifiers here, so that an open context engine is this one.\<close>

definition c_context_engine :: "('addr, 'w) c_env \<Rightarrow> octets option \<Rightarrow> octets" where
  "c_context_engine env contextEngineId =
     (case contextEngineId of None \<Rightarrow> ce_snmpEngineID env
      | Some e \<Rightarrow> if e = [] then ce_snmpEngineID env else e)"

definition c_prepareOutgoingMessage :: "('addr, 'w) c_env \<Rightarrow> ('cb, 'addr) send_request \<Rightarrow> nat \<Rightarrow>
    (('addr, 'w) c_state \<times> v1_pdu, 'addr outgoing) sm" where
  "c_prepareOutgoingMessage env rq sendPduHandle =
     sbind (on_snd (sget is_confirmed)) (\<lambda>confirmed.
     sbind (on_snd (sget request_id)) (\<lambda>reqID.
     sbind (if confirmed then on_fst (on_fst c_newMsgID) else sret 0) (\<lambda>msgID.
     let contextEngineId = c_context_engine env (sq_contextEngineId rq) in
     case ce_securityModels env (sq_securityModel rq) of
       None \<Rightarrow> sraise (status unsupportedSecurityModel)
     | Some smHandler \<Rightarrow>
     sbind (if confirmed then on_snd (set_request_id (int msgID)) else sret ()) (\<lambda>_.
     sbind (on_snd (sget (\<lambda>p. p))) (\<lambda>pdu.
     sbind (on_fst (on_snd (ch_generateRequestMsg smHandler (ce_messageProcessingModelID env) (sq_securityName rq)
              contextEngineId (sq_contextName rq) pdu)))
       (\<lambda>(securityParameters, wholeMsg).
     sbind (if confirmed then on_snd (set_request_id reqID) else sret ()) (\<lambda>_.
     sbind (if confirmed
            then on_fst (on_fst (on_cp_cache (mp_pushByMsgId msgID
              \<lparr>mi_sendPduHandle = sendPduHandle, mi_rest = c_sent_of env rq contextEngineId reqID\<rparr>)))
            else sret ()) (\<lambda>_.
     sret (sq_transportDomain rq, sq_transportAddress rq, wholeMsg)))))))))"

section \<open>Responses\<close>

text \<open>
  There are no reports: with a status there is nothing to send. \<open>messageProcessingModel\<close> is the
  version of the request.
\<close>

definition c_prepareResponseMessage :: "('addr, 'w) c_env \<Rightarrow> int \<Rightarrow> nat option \<Rightarrow> status_info option \<Rightarrow>
    (('addr, 'w) c_state \<times> v1_pdu, 'addr outgoing) sm" where
  "c_prepareResponseMessage env messageProcessingModel stateReference statusInformation =
     (case stateReference of
        None \<Rightarrow> sraise (status nonReportable)
      | Some ref \<Rightarrow>
     sbind (on_fst (on_fst (on_cp_cache (mp_popByStateRef ref)))) (\<lambda>rq.
     if statusInformation \<notin> {None, Some no_details} then sraise (status nonReportable)
     else
     (case ce_securityModels env (cq_securityModel rq) of
        None \<Rightarrow> sraise (status unsupportedSecurityModel)
      | Some smHandler \<Rightarrow>
     sbind (on_snd (set_request_id (cq_reqID rq))) (\<lambda>_.
     sbind (on_snd (sget (\<lambda>p. p))) (\<lambda>pdu.
     sbind (on_fst (on_snd (ch_generateResponseMsg smHandler messageProcessingModel pdu (cq_securityStateReference rq))))
       (\<lambda>(securityParameters, wholeMsg).
     sbind (on_snd (set_request_id (int (cq_msgID rq)))) (\<lambda>_.
     sret (cq_transportDomain rq, cq_transportAddress rq, wholeMsg))))))))"

section \<open>Incoming messages\<close>

definition c_data_of :: "com_message \<Rightarrow> octets \<Rightarrow> octets \<Rightarrow> octets \<Rightarrow> v1_pdu \<Rightarrow> nat option \<Rightarrow> int \<Rightarrow> nat option \<Rightarrow>
    data_elements" where
  "c_data_of msg securityName contextEngineId contextName pdu sendPduHandle maxSize stateReference =
     \<lparr>de_messageProcessingModel = cm_version msg, de_securityModel = cm_version msg + 1,
      de_securityName = securityName, de_securityLevel = 1, de_contextEngineId = contextEngineId,
      de_contextName = contextName, de_pduVersion = cm_version msg, de_PDU = pdu,
      de_pduType = v1_pdu_type pdu, de_sendPduHandle = sendPduHandle, de_maxSizeResponseScopedPDU = maxSize,
      de_statusInformation = None, de_stateReference = stateReference\<rparr>"

text \<open>A message ID that is negative is none of ours.\<close>

definition c_popByMsgId :: "int \<Rightarrow> (('addr c_request, 'addr c_sent) mp_cache, 'addr c_sent msg_info) sm" where
  "c_popByMsgId msgID = (if msgID < 0 then sraise ProtocolError else mp_popByMsgId (nat msgID))"

definition c_accept_response :: "('addr, 'w) c_security \<Rightarrow> com_message \<Rightarrow> octets \<Rightarrow> octets \<Rightarrow> octets \<Rightarrow> v1_pdu \<Rightarrow> int \<Rightarrow>
    nat \<Rightarrow> (('addr, 'w) c_state, data_elements) sm" where
  "c_accept_response smHandler msg securityName contextEngineId contextName pdu maxSize securityStateReference =
     (let release = on_snd (ch_releaseStateInformation smHandler securityStateReference) in
     sbind (scatch (on_fst (on_cp_cache (c_popByMsgId (request_id pdu))))
              (\<lambda>e. if is_ProtocolError e then sbind release (\<lambda>_. sraise (status dataMismatch)) else sraise e))
       (\<lambda>cached.
     let rq = mi_rest cached in
     sbind (sres (with_request_id (ct_reqID rq) pdu)) (\<lambda>pdu'.
     if cm_version msg + 1 \<noteq> ct_securityModel rq \<or> securityName \<noteq> ct_securityName rq \<or> 1 \<noteq> ct_securityLevel rq \<or>
        contextEngineId \<noteq> ct_contextEngineId rq \<or> contextName \<noteq> ct_contextName rq
     then sbind release (\<lambda>_. sraise (status dataMismatch))
     else sbind release (\<lambda>_.
       sret (c_data_of msg securityName contextEngineId contextName pdu' (Some (mi_sendPduHandle cached)) maxSize None)))))"

definition c_accept_request :: "('addr, 'w) c_env \<Rightarrow> ('addr, 'w) c_security \<Rightarrow> oid \<Rightarrow> 'addr \<Rightarrow> com_message \<Rightarrow> octets \<Rightarrow>
    octets \<Rightarrow> octets \<Rightarrow> octets \<Rightarrow> v1_pdu \<Rightarrow> int \<Rightarrow> nat \<Rightarrow> (('addr, 'w) c_state, data_elements) sm" where
  "c_accept_request env smHandler transportDomain transportAddress msg securityEngineId securityName contextEngineId
       contextName pdu maxSize securityStateReference =
     (let reqID = request_id pdu in
     sbind (on_fst c_newMsgID) (\<lambda>msgID.
     sbind (sres (with_request_id (int msgID) pdu)) (\<lambda>pdu'.
     if securityEngineId \<noteq> ce_snmpEngineID env
     then sbind (on_snd (ch_releaseStateInformation smHandler securityStateReference)) (\<lambda>_.
       sraise (status engineIDMismatch))
     else
     sbind (on_fst c_newStateReference) (\<lambda>stateReference.
     sbind (on_fst (on_cp_cache (mp_pushByStateRef stateReference
       \<lparr>cq_msgVersion = cm_version msg, cq_msgID = msgID, cq_reqID = reqID, cq_contextEngineId = contextEngineId,
        cq_contextName = contextName, cq_securityModel = cm_version msg + 1, cq_securityName = securityName,
        cq_securityLevel = 1, cq_securityStateReference = securityStateReference,
        cq_msgMaxSize = ce_snmpEngineMaxMessageSize env, cq_maxSizeResponseScopedPDU = maxSize,
        cq_transportDomain = transportDomain, cq_transportAddress = transportAddress\<rparr>))) (\<lambda>_.
     sret (c_data_of msg securityName contextEngineId contextName pdu' None maxSize (Some stateReference)))))))"

definition c_accept_notification :: "('addr, 'w) c_security \<Rightarrow> com_message \<Rightarrow> octets \<Rightarrow> octets \<Rightarrow> octets \<Rightarrow> v1_pdu \<Rightarrow> int \<Rightarrow>
    nat \<Rightarrow> (('addr, 'w) c_state, data_elements) sm" where
  "c_accept_notification smHandler msg securityName contextEngineId contextName pdu maxSize securityStateReference =
     sbind (on_fst c_newStateReference) (\<lambda>stateReference.
     sbind (on_snd (ch_releaseStateInformation smHandler securityStateReference)) (\<lambda>_.
     sret (c_data_of msg securityName contextEngineId contextName pdu None maxSize (Some stateReference))))"

definition c_prepareDataElements :: "('addr, 'w) c_env \<Rightarrow> oid \<Rightarrow> 'addr \<Rightarrow> octets \<Rightarrow>
    (('addr, 'w) c_state, data_elements) sm" where
  "c_prepareDataElements env transportDomain transportAddress wholeMsg =
     sbind (sres (ce_decode env wholeMsg)) (\<lambda>decoded.
     case decoded of
       None \<Rightarrow> sraise (status parseError)
     | Some msg \<Rightarrow>
     (case ce_securityModels env (cm_version msg + 1) of
        None \<Rightarrow> sraise (status unsupportedSecurityModel)
      | Some smHandler \<Rightarrow>
     sbind (on_snd (ch_processIncomingMsg smHandler (ce_snmpEngineMaxMessageSize env) (cm_community msg)
              (transportDomain, transportAddress) msg))
       (\<lambda>(securityEngineId, securityName, (contextEngineId, contextName, pdu), maxSize, securityStateReference).
     let t = v1_pdu_type pdu in
     if responseClass t then
       c_accept_response smHandler msg securityName contextEngineId contextName pdu maxSize securityStateReference
     else if confirmedClass t then
       c_accept_request env smHandler transportDomain transportAddress msg securityEngineId securityName
         contextEngineId contextName pdu maxSize securityStateReference
     else if unconfirmedClass t then
       c_accept_notification smHandler msg securityName contextEngineId contextName pdu maxSize securityStateReference
     else sbind (on_snd (ch_releaseStateInformation smHandler securityStateReference)) (\<lambda>_.
       sraise (status unsupportedPDUtype)))))"

definition c_releaseStateInformation :: "nat \<Rightarrow> (('addr, 'w) c_state, unit) sm" where
  "c_releaseStateInformation sendPduHandle = on_fst (on_cp_cache (mp_releaseStateInformation sendPduHandle))"

definition c_receiveTimerTick :: "(('addr, 'w) c_state, unit) sm" where
  "c_receiveTimerTick = on_fst (on_cp_cache mp_expireCaches)"

section \<open>Over the community-based security model\<close>

definition com_model :: "com_env \<Rightarrow> community_mib \<Rightarrow> (address, com_sm) c_security" where
  "com_model env mib = \<lparr>
     ch_generateRequestMsg = com_generateRequestMsg env mib,
     ch_generateResponseMsg = com_generateResponseMsg env,
     ch_processIncomingMsg = com_processIncomingMsg env mib,
     ch_releaseStateInformation = com_releaseStateInformation\<rparr>"

lemma com_model_simps [simp]:
  "ch_generateRequestMsg (com_model env mib) = com_generateRequestMsg env mib"
  "ch_generateResponseMsg (com_model env mib) = com_generateResponseMsg env"
  "ch_processIncomingMsg (com_model env mib) = com_processIncomingMsg env mib"
  "ch_releaseStateInformation (com_model env mib) = com_releaseStateInformation"
  by (simp_all add: com_model_def)

lemma on_cp_cache_eq_Inr:
  "on_cp_cache m v = (Inr x, v') \<longleftrightarrow> (\<exists>c. m (cp_cache v) = (Inr x, c) \<and> v' = v\<lparr>cp_cache := c\<rparr>)"
  by (auto simp: on_cp_cache_def split: prod.splits)

text \<open>What sending a request does.\<close>

lemma c_prepareOutgoing_Inr:
  assumes sent: "c_prepareOutgoingMessage env rq h ((v, w), V1Pdu p) = (Inr (td, ta, whole), (v', w'), pdu')"
    and p: "confirmedClass (p_type p)" and sh: "ce_securityModels env (sq_securityModel rq) = Some sh"
  obtains msgID ps v1 where "c_newMsgID v = (Inr msgID, v1)"
    "ch_generateRequestMsg sh (ce_messageProcessingModelID env) (sq_securityName rq)
       (c_context_engine env (sq_contextEngineId rq)) (sq_contextName rq) (V1Pdu (p\<lparr>p_requestID := int msgID\<rparr>)) w =
       (Inr (ps, whole), w')"
    "mp_pushByMsgId msgID \<lparr>mi_sendPduHandle = h,
       mi_rest = c_sent_of env rq (c_context_engine env (sq_contextEngineId rq)) (p_requestID p)\<rparr> (cp_cache v) = (Inr (), cp_cache v')"
    "pdu' = V1Pdu p"
proof -
  have c: "is_confirmed (V1Pdu p)" using p by (simp add: is_confirmed_def del: confirmedClass.simps)
  obtain msgID v1 where id: "c_newMsgID v = (Inr msgID, v1)" and same: "cp_cache v1 = cp_cache v"
    using sent c by (auto simp: c_prepareOutgoingMessage_def sbind_eq_Inr_iff on_fst_eq_Inr on_snd_eq_Inr sget_def
        c_newMsgID_def split: prod.splits)
  let ?info = "\<lparr>mi_sendPduHandle = h,
    mi_rest = c_sent_of env rq (c_context_engine env (sq_contextEngineId rq)) (p_requestID p)\<rparr>"
  obtain ps k where "ch_generateRequestMsg sh (ce_messageProcessingModelID env) (sq_securityName rq)
       (c_context_engine env (sq_contextEngineId rq)) (sq_contextName rq) (V1Pdu (p\<lparr>p_requestID := int msgID\<rparr>)) w =
       (Inr (ps, whole), w')" "mp_pushByMsgId msgID ?info (cp_cache v) = (Inr (), k)" "v' = v1\<lparr>cp_cache := k\<rparr>"
    "pdu' = V1Pdu p"
    using sent c sh id same
    by (auto simp: c_prepareOutgoingMessage_def Let_def sbind_eq_Inr_iff on_fst_eq_Inr on_snd_eq_Inr sget_def
        set_request_id_def on_cp_cache_eq_Inr sret_def)
  then show thesis by (intro that [OF id]) simp_all
qed

text \<open>A request arriving.\<close>

definition c_reference_free :: "'addr c_mp \<Rightarrow> bool" where
  "c_reference_free v \<longleftrightarrow> (case nextid_call (cp_stateReference v) of
     (Inl e, g) \<Rightarrow> False | (Inr r, g) \<Rightarrow> mc_stateReferenceIndex (cp_cache v) r = None)"

lemma c_request_taken:
  fixes env :: "(address, com_sm) c_env"
  assumes m: "ce_decode env w = Inr (Some m)" "cm_pdu m = V1Pdu q" "confirmedClass (p_type q)"
    and sh: "ce_securityModels env (cm_version m + 1) = Some (com_model e mib)"
    and com: "com2sec e mib (cm_community m) (td, ta) b = (Inr (name, ce, cn), b1)" "sec_inv (cs_cache b)"
    and eid: "bm_snmpEngineID mib = ce_snmpEngineID env"
    and gens: "nextid_inv (cp_msgID v)" "c_reference_free v"
  obtains ownID ref kept x v' b' where "c_prepareDataElements env td ta w (v, b) =
      (Inr (c_data_of m name ce cn (V1Pdu (q\<lparr>p_requestID := int ownID\<rparr>)) None (ce_snmpEngineMaxMessageSize env - 128) (Some ref)), v', b')"
    "mc_stateReferenceIndex (cp_cache v') ref = Some (kept, x)" "cq_reqID kept = p_requestID q"
    "cq_securityModel kept = cm_version m + 1" "cq_transportDomain kept = td" "cq_transportAddress kept = ta"
    "sc_cacheEntries (cs_cache b') (cq_securityStateReference kept) = Some (cm_community m)"
proof -
  obtain ownID g where id: "nextid_call (cp_msgID v) = (Inr ownID, g)" using nextid_call_ok [OF gens(1)] by metis
  obtain ref g2 where ref: "nextid_call (cp_stateReference v) = (Inr ref, g2)" "mc_stateReferenceIndex (cp_cache v) ref = None"
    using gens(2) by (auto simp: c_reference_free_def split: prod.splits sum.splits)
  obtain sref b' where pr: "com_processIncomingMsg e mib (ce_snmpEngineMaxMessageSize env) (cm_community m) (td, ta) m b =
      (Inr (bm_snmpEngineID mib, name, (ce, cn, cm_pdu m), ce_snmpEngineMaxMessageSize env - 128, sref), b')"
      "sc_cacheEntries (cs_cache b') sref = Some (cm_community m)"
    by (rule com_process_ok [OF com])
  let ?v = "v\<lparr>cp_msgID := g, cp_stateReference := g2\<rparr>"
  let ?kept = "\<lparr>cq_msgVersion = cm_version m, cq_msgID = ownID, cq_reqID = p_requestID q, cq_contextEngineId = ce,
        cq_contextName = cn, cq_securityModel = cm_version m + 1, cq_securityName = name,
        cq_securityLevel = 1, cq_securityStateReference = sref,
        cq_msgMaxSize = ce_snmpEngineMaxMessageSize env, cq_maxSizeResponseScopedPDU = ce_snmpEngineMaxMessageSize env - 128,
        cq_transportDomain = td, cq_transportAddress = ta\<rparr>"
  obtain k x where k: "mp_pushByStateRef ref ?kept (cp_cache v) = (Inr (), k)" "mc_stateReferenceIndex k ref = Some (?kept, x)"
    using ref(2) by (auto simp: mp_pushByStateRef_def Let_def)
  have nr: "\<not> responseClass (p_type q)" using m(3) by auto
  have "c_prepareDataElements env td ta w (v, b) =
      (Inr (c_data_of m name ce cn (V1Pdu (q\<lparr>p_requestID := int ownID\<rparr>)) None (ce_snmpEngineMaxMessageSize env - 128) (Some ref)),
       ?v\<lparr>cp_cache := k\<rparr>, b')"
    using m sh pr(1) nr id ref(1) k(1) eid
    by (simp add: c_prepareDataElements_def Let_def sbind_def sres_def on_snd_def on_fst_def c_accept_request_def
        c_newMsgID_def c_newStateReference_def on_cp_cache_def sret_def del: confirmedClass.simps responseClass.simps)
  from that [OF this, of ?kept x] show thesis using k(2) pr(2) by simp
qed

text \<open>A response made from what was kept.\<close>

lemma c_response_made:
  fixes env :: "(address, com_sm) c_env"
  assumes "c_prepareResponseMessage env ver (Some ref) si ((v, b), V1Pdu r) = (Inr (td, ta, w), (v', b'), r')"
    and "mc_stateReferenceIndex (cp_cache v) ref = Some (kept, x)"
    and "ce_securityModels env (cq_securityModel kept) = Some (com_model e mib)"
    and "sc_cacheEntries (cs_cache b) (cq_securityStateReference kept) = Some c"
  shows "td = cq_transportDomain kept \<and> ta = cq_transportAddress kept \<and>
    ev_encode e \<lparr>cm_version = ver, cm_community = c, cm_pdu = V1Pdu (r\<lparr>p_requestID := cq_reqID kept\<rparr>)\<rparr> = Inr w \<and>
    r' = V1Pdu (r\<lparr>p_requestID := int (cq_msgID kept)\<rparr>)"
proof -
  obtain rq k where pop: "mp_popByStateRef ref (cp_cache v) = (Inr rq, k)"
    using assms(1) by (auto simp: c_prepareResponseMessage_def sbind_eq_Inr_iff on_fst_eq_Inr on_cp_cache_eq_Inr)
  have rq: "rq = kept" using mp_popByStateRef_Inr [OF pop] assms(2) by auto
  show ?thesis
    using assms(1,3,4) pop unfolding rq
    by (auto simp: c_prepareResponseMessage_def sbind_eq_Inr_iff on_fst_eq_Inr on_snd_eq_Inr on_cp_cache_eq_Inr
        sget_def sret_def sraise_def set_request_id_def com_generateResponseMsg_eq_Inr on_com_cache_def sec_pop_def
        split: if_splits prod.splits)
qed

text \<open>A response arriving.\<close>

lemma c_response_taken:
  fixes env :: "(address, com_sm) c_env"
  assumes m: "ce_decode env w = Inr (Some m)" "cm_pdu m = V1Pdu q" "p_type q = Response" "p_requestID q = int msgID"
    and sh: "ce_securityModels env (cm_version m + 1) = Some (com_model e mib)"
    and com: "com2sec e mib (cm_community m) (td, ta) a = (Inr (name, ce, cn), a1)" "sec_inv (cs_cache a)"
    and kept: "mp_inv (cp_cache v)" "mc_msgIdIndex (cp_cache v) msgID = Some (info, x)"
    and same: "ct_securityModel (mi_rest info) = cm_version m + 1" "ct_securityName (mi_rest info) = name"
      "ct_securityLevel (mi_rest info) = 1" "ct_contextEngineId (mi_rest info) = ce" "ct_contextName (mi_rest info) = cn"
  obtains t where "c_prepareDataElements env td ta w (v, a) = (Inr (c_data_of m name ce cn
      (V1Pdu (q\<lparr>p_requestID := ct_reqID (mi_rest info)\<rparr>)) (Some (mi_sendPduHandle info))
      (ce_snmpEngineMaxMessageSize env - 128) None), t)"
    "mc_msgIdIndex (cp_cache (fst t)) msgID = None"
proof -
  obtain sref a' where pr: "com_processIncomingMsg e mib (ce_snmpEngineMaxMessageSize env) (cm_community m) (td, ta) m a =
      (Inr (bm_snmpEngineID mib, name, (ce, cn, cm_pdu m), ce_snmpEngineMaxMessageSize env - 128, sref), a')"
      "sec_inv (cs_cache a')" "sc_cacheEntries (cs_cache a') sref = Some (cm_community m)"
    by (rule com_process_ok [OF com])
  obtain k where k: "mp_popByMsgId msgID (cp_cache v) = (Inr info, k)" "mc_msgIdIndex k msgID = None"
    using mp_popByMsgId_ok [OF kept] by fastforce
  obtain c2 where rel: "sec_pop sref (cs_cache a') = (Inr (cm_community m), c2)"
    using sec_pop_ok [OF pr(3,2)] by blast
  have "c_prepareDataElements env td ta w (v, a) = (Inr (c_data_of m name ce cn
      (V1Pdu (q\<lparr>p_requestID := ct_reqID (mi_rest info)\<rparr>)) (Some (mi_sendPduHandle info))
      (ce_snmpEngineMaxMessageSize env - 128) None), v\<lparr>cp_cache := k\<rparr>, a'\<lparr>cs_cache := c2\<rparr>)"
    using m sh pr(1) k(1) rel same
    by (simp add: c_prepareDataElements_def Let_def sbind_def sres_def on_snd_def on_fst_def c_accept_response_def
        c_popByMsgId_def on_cp_cache_def scatch_def sret_def com_releaseStateInformation_def on_com_cache_def)
  then show thesis by (rule that) (simp add: k(2))
qed

text \<open>
  A request that could not be made is left with the identifier for the wire in place of its own
  request ID: it is only put back after a success.
\<close>

lemma failed_send_renames_request:
  assumes "c_newMsgID v = (Inr msgID, v1)" and "confirmedClass (p_type p)"
    and "ce_securityModels env (sq_securityModel rq) = Some sh"
    and "ch_generateRequestMsg sh (ce_messageProcessingModelID env) (sq_securityName rq)
       (c_context_engine env (sq_contextEngineId rq)) (sq_contextName rq) (V1Pdu (p\<lparr>p_requestID := int msgID\<rparr>)) w = (Inl e, w')"
  shows "c_prepareOutgoingMessage env rq h ((v, w), V1Pdu p) = (Inl e, (v1, w'), V1Pdu (p\<lparr>p_requestID := int msgID\<rparr>))"
  using assms
  by (simp add: c_prepareOutgoingMessage_def Let_def sbind_def on_fst_def on_snd_def sget_def set_request_id_def
      is_confirmed_def del: confirmedClass.simps)

section \<open>There and back\<close>

text \<open>
  (C30) A request and its response, over SNMPv1 or SNMPv2c. Let a request be sent, with the
  sender's tables giving a community for its security name and context, which the receiver's tables
  take for some name of its own, and which the sender's tables take for the request's name
  again when it comes from the receiver; and let each end read what the other writes. Then the
  receiver hands on the PDU with a request ID of its own making, under its own name, and the
  sender's PDU is as it was. A response the receiver's application makes for it goes back to
  where the request came from, and the sender hands it on under the handle of the request and
  with the request's own ID, whatever IDs were on the wire.
\<close>

theorem community_exchange:
  fixes envA envB :: "(address, com_sm) c_env"
  assumes sent: "c_prepareOutgoingMessage envA rq h ((vA, a), V1Pdu p) = (Inr (td, ta, whole), (vA', a'), pdu')"
    and p: "confirmedClass (p_type p)"
    and v: "ce_messageProcessingModelID envA = ver" "sq_securityModel rq = ver + 1" "sq_securityLevel rq = 1"
    and shA: "ce_securityModels envA (ver + 1) = Some (com_model eA mibA)"
    and shB: "ce_securityModels envB (ver + 1) = Some (com_model eB mibB)"
    and wire: "\<And>m w. ev_encode eA m = Inr w \<Longrightarrow> ce_decode envB w = Inr (Some m)"
      "\<And>m w. ev_encode eB m = Inr w \<Longrightarrow> ce_decode envA w = Inr (Some m)"
    and n: "n = (sq_securityName rq, c_context_engine envA (sq_contextEngineId rq), sq_contextName rq)"
    and c: "fst (sec2com mibA n a) = Inr c" "fst (com2sec eB mibB c srcA b) = Inr (nameB, ceB, cnB)"
      "fst (com2sec eA mibA c srcB a') = Inr n"
    and invA: "mp_inv (cp_cache vA)" "handle_free (cp_cache vA) h" "sec_inv (cs_cache a)"
    and invB: "sec_inv (cs_cache b)" "bm_snmpEngineID mibB = ce_snmpEngineID envB" "nextid_inv (cp_msgID vB)"
      "c_reference_free vB"
  shows "\<exists>deB tB ownID ref. c_prepareDataElements envB (fst srcA) (snd srcA) whole (vB, b) = (Inr deB, tB) \<and>
    de_PDU deB = V1Pdu (p\<lparr>p_requestID := int ownID\<rparr>) \<and> de_securityName deB = nameB \<and>
    de_contextEngineId deB = ceB \<and> de_contextName deB = cnB \<and> de_stateReference deB = Some ref \<and> pdu' = V1Pdu p \<and>
    (\<forall>r dst w s r'. p_type r = Response \<longrightarrow>
       c_prepareResponseMessage envB ver (Some ref) None (tB, V1Pdu r) = (Inr (fst dst, snd dst, w), s, r') \<longrightarrow>
       dst = srcA \<and> (\<exists>deA t. c_prepareDataElements envA (fst srcB) (snd srcB) w (vA', a') = (Inr deA, t) \<and>
         de_PDU deA = V1Pdu (r\<lparr>p_requestID := p_requestID p\<rparr>) \<and> de_sendPduHandle deA = Some h))"
proof -
  let ?info = "\<lparr>mi_sendPduHandle = h,
       mi_rest = c_sent_of envA rq (c_context_engine envA (sq_contextEngineId rq)) (p_requestID p)\<rparr>"
  have shA': "ce_securityModels envA (sq_securityModel rq) = Some (com_model eA mibA)" using shA v(2) by simp
  obtain msgID ps v1 where g: "com_generateRequestMsg eA mibA ver (sq_securityName rq)
       (c_context_engine envA (sq_contextEngineId rq)) (sq_contextName rq) (V1Pdu (p\<lparr>p_requestID := int msgID\<rparr>)) a =
       (Inr (ps, whole), a')" and push: "mp_pushByMsgId msgID ?info (cp_cache vA) = (Inr (), cp_cache vA')"
      and pdu': "pdu' = V1Pdu p"
    by (rule c_prepareOutgoing_Inr [OF sent p shA']) (simp add: v(1))
  let ?m = "\<lparr>cm_version = ver, cm_community = c, cm_pdu = V1Pdu (p\<lparr>p_requestID := int msgID\<rparr>)\<rparr>"
  have s2c: "sec2com mibA n a = (Inr c, a')" and enc: "ev_encode eA ?m = Inr whole"
    using g c(1) unfolding n com_generateRequestMsg_eq_Inr by auto
  have free: "mc_msgIdIndex (cp_cache vA) msgID = None"
    using push by (cases "mc_msgIdIndex (cp_cache vA) msgID") (simp_all add: mp_pushByMsgId_def)
  obtain x where kept: "mp_inv (cp_cache vA')" "mc_msgIdIndex (cp_cache vA') msgID = Some (?info, x)"
    using mp_pushByMsgId_ok [OF invA(1) free, of ?info] invA(2) push by auto
  obtain b1 where b1: "com2sec eB mibB (cm_community ?m) (fst srcA, snd srcA) b = (Inr (nameB, ceB, cnB), b1)"
    using c(2) by (cases "com2sec eB mibB c srcA b") simp
  obtain a1 where a1: "com2sec eA mibA c (fst srcB, snd srcB) a' = (Inr n, a1)"
    using c(3) by (cases "com2sec eA mibA c srcB a'") simp
  have m: "ce_decode envB whole = Inr (Some ?m)" "cm_pdu ?m = V1Pdu (p\<lparr>p_requestID := int msgID\<rparr>)"
      "confirmedClass (p_type (p\<lparr>p_requestID := int msgID\<rparr>))"
      "ce_securityModels envB (cm_version ?m + 1) = Some (com_model eB mibB)"
    using wire(1) [OF enc] p shB by (simp_all del: confirmedClass.simps)
  obtain ownID ref rk y vB' b' where B: "c_prepareDataElements envB (fst srcA) (snd srcA) whole (vB, b) =
      (Inr (c_data_of ?m nameB ceB cnB (V1Pdu (p\<lparr>p_requestID := int msgID\<rparr>\<lparr>p_requestID := int ownID\<rparr>)) None
        (ce_snmpEngineMaxMessageSize envB - 128) (Some ref)), vB', b')"
    and rk: "mc_stateReferenceIndex (cp_cache vB') ref = Some (rk, y)"
      "cq_reqID rk = p_requestID (p\<lparr>p_requestID := int msgID\<rparr>)" "cq_securityModel rk = cm_version ?m + 1"
      "cq_transportDomain rk = fst srcA" "cq_transportAddress rk = snd srcA"
      "sc_cacheEntries (cs_cache b') (cq_securityStateReference rk) = Some (cm_community ?m)"
    by (rule c_request_taken [OF m b1 invB])
  have answer: "dst = srcA \<and> (\<exists>deA t. c_prepareDataElements envA (fst srcB) (snd srcB) w (vA', a') = (Inr deA, t) \<and>
       de_PDU deA = V1Pdu (r\<lparr>p_requestID := p_requestID p\<rparr>) \<and> de_sendPduHandle deA = Some h)"
    if r: "p_type r = Response"
      and sent': "c_prepareResponseMessage envB ver (Some ref) None ((vB', b'), V1Pdu r) = (Inr (fst dst, snd dst, w), s, r')"
    for r dst w s r'
  proof -
    obtain s1 s2 where s: "s = (s1, s2)" by (cases s)
    have rs: "ce_securityModels envB (cq_securityModel rk) = Some (com_model eB mibB)" using rk(3) shB by simp
    let ?m2 = "\<lparr>cm_version = ver, cm_community = c, cm_pdu = V1Pdu (r\<lparr>p_requestID := int msgID\<rparr>)\<rparr>"
    have made: "fst dst = fst srcA" "snd dst = snd srcA" "ev_encode eB ?m2 = Inr w"
      using c_response_made [OF sent' [unfolded s] rk(1) rs rk(6)] rk(2,4,5) by simp_all
    have m2: "ce_decode envA w = Inr (Some ?m2)" "cm_pdu ?m2 = V1Pdu (r\<lparr>p_requestID := int msgID\<rparr>)"
        "p_type (r\<lparr>p_requestID := int msgID\<rparr>) = Response" "p_requestID (r\<lparr>p_requestID := int msgID\<rparr>) = int msgID"
        "ce_securityModels envA (cm_version ?m2 + 1) = Some (com_model eA mibA)"
      using wire(2) [OF made(3)] r shA by simp_all
    have a1': "com2sec eA mibA (cm_community ?m2) (fst srcB, snd srcB) a' =
        (Inr (sq_securityName rq, c_context_engine envA (sq_contextEngineId rq), sq_contextName rq), a1)"
      using a1 n by simp
    have inv: "sec_inv (cs_cache a')" using sec2com_cache [OF s2c] invA(3) by simp
    obtain t where "c_prepareDataElements envA (fst srcB) (snd srcB) w (vA', a') = (Inr (c_data_of ?m2 (sq_securityName rq)
        (c_context_engine envA (sq_contextEngineId rq)) (sq_contextName rq)
        (V1Pdu (r\<lparr>p_requestID := int msgID\<rparr>\<lparr>p_requestID := ct_reqID (mi_rest ?info)\<rparr>)) (Some (mi_sendPduHandle ?info))
        (ce_snmpEngineMaxMessageSize envA - 128) None), t)"
      by (rule c_response_taken [OF m2 a1' inv kept]) (simp_all add: c_sent_of_def v)
    then show ?thesis using made(1,2) by (simp add: c_data_of_def c_sent_of_def prod_eq_iff)
  qed
  show ?thesis
    by (rule exI [of _ "c_data_of ?m nameB ceB cnB (V1Pdu (p\<lparr>p_requestID := int msgID\<rparr>\<lparr>p_requestID := int ownID\<rparr>)) None
        (ce_snmpEngineMaxMessageSize envB - 128) (Some ref)"], rule exI [of _ "(vB', b')"], rule exI [of _ ownID],
        rule exI [of _ ref])
      (use B answer pdu' in \<open>simp add: c_data_of_def\<close>)
qed

section \<open>A concrete exchange\<close>

text \<open>One community for one name, and messages written down as their community and request ID.\<close>

definition one_name :: community_mib where
  "one_name = \<lparr>bm_targetVersion = 1, bm_targets = [], bm_paramsVersion = 1, bm_params = [], bm_communityVersion = 1,
     bm_communities = [\<lparr>cw_communityName = [112], cw_securityName = [97], cw_contextEngineID = [1], cw_contextName = [],
         cw_transportTag = []\<rparr>],
     bm_snmpEngineID = [1]\<rparr>"

definition ping :: "pdu_type \<Rightarrow> int \<Rightarrow> pdu" where
  "ping t i = \<lparr>p_type = t, p_requestID = i, p_errorStatus = 0, p_errorIndex = 0, p_varBinds = []\<rparr>"

definition ping_message :: "octets \<Rightarrow> pdu_type \<Rightarrow> octets \<Rightarrow> com_message" where
  "ping_message c t x = \<lparr>cm_version = 1, cm_community = c,
     cm_pdu = V1Pdu (ping t (case x of [] \<Rightarrow> -1 | y # ys \<Rightarrow> uint y))\<rparr>"

definition ping_encode :: "com_message \<Rightarrow> octets res" where
  "ping_encode m = (case cm_pdu m of
     V1Trap t \<Rightarrow> Inl PyAsn1Error
   | V1Pdu p \<Rightarrow>
       let x = [word_of_int (p_requestID p)]; t = (if p_type p = Response then 1 else 0 :: 8 word) in
       if m = ping_message (cm_community m) (if t = 1 then Response else GetRequest) x then Inr (t # x @ cm_community m)
       else Inl PyAsn1Error)"

definition ping_decode :: "octets \<Rightarrow> com_message option res" where
  "ping_decode w = (case w of
     t # y # c \<Rightarrow> Inr (Some (ping_message c (if t = 1 then Response else GetRequest) [y]))
   | _ \<Rightarrow> Inl PyAsn1Error)"

definition ping_com :: com_env where
  "ping_com = \<lparr>ev_securityModelID = 2, ev_tagOrder = sorted_list_of_set, ev_nameOrder = sorted_list_of_set,
     ev_encode = ping_encode\<rparr>"

definition ping_env :: "(address, com_sm) c_env" where
  "ping_env = \<lparr>ce_messageProcessingModelID = 1, ce_decode = ping_decode,
     ce_securityModels = [2 \<mapsto> com_model ping_com one_name], ce_snmpEngineID = [1], ce_snmpEngineMaxMessageSize = 1500\<rparr>"

definition ping_mp :: "address c_mp" where
  "ping_mp = \<lparr>cp_cache = mp_cache_init, cp_msgID = no_nextid, cp_stateReference = no_nextid\<rparr>"

definition ping_request :: "(unit, address) send_request" where
  "ping_request = \<lparr>sq_transportDomain = snmpUDPDomain, sq_transportAddress = Inet [10, 0, 0, 1] 161,
     sq_messageProcessingModel = 1, sq_securityModel = 2, sq_securityName = [97], sq_securityLevel = 1,
     sq_contextEngineId = None, sq_contextName = [], sq_pduVersion = 1, sq_PDU = V1Pdu (ping GetRequest 77),
     sq_expectResponse = True, sq_timeout = 1, sq_cbFun = ()\<rparr>"

lemma ping_wire: "ping_encode m = Inr w \<Longrightarrow> ping_decode w = Inr (Some m)"
  by (auto simp: ping_encode_def ping_decode_def Let_def split: v1_pdu.splits if_splits)

definition ping_outcome :: "(oid \<times> address \<times> octets) res \<times> (address c_mp \<times> com_sm) \<times> v1_pdu" where
  "ping_outcome = c_prepareOutgoingMessage ping_env ping_request 7
     ((ping_mp, com_sm_init no_nextid), V1Pdu (ping GetRequest 77))"

lemma ping_facts:
  "map_sum (\<lambda>_. ()) (snd \<circ> snd) (fst ping_outcome) = Inr [0, 1, 112]"
  "fst (sec2com one_name ([97], [1], []) (com_sm_init no_nextid)) = Inr [112]"
  "fst (com2sec ping_com one_name [112] sample_source (com_sm_init no_nextid)) = Inr ([97], [1], [])"
  "fst (com2sec ping_com one_name [112] sample_source (snd (fst (snd ping_outcome)))) = Inr ([97], [1], [])"
  by code_simp+

lemma no_nextid_inv: "nextid_inv no_nextid"
  by (simp add: nextid_inv_def no_nextid_def next_after_def) (intro exI [of _ 1], simp)

theorem community_exchange_witness:
  "\<exists>w s deB tB ref. c_prepareOutgoingMessage ping_env ping_request 7
      ((ping_mp, com_sm_init no_nextid), V1Pdu (ping GetRequest 77)) = (Inr w, s) \<and>
    c_prepareDataElements ping_env (fst sample_source) (snd sample_source) (snd (snd w)) (ping_mp, com_sm_init no_nextid) =
      (Inr deB, tB) \<and> de_securityName deB = [97] \<and> de_stateReference deB = Some ref"
proof -
  obtain td ta whole vA' a' pdu' where s: "ping_outcome = (Inr (td, ta, whole), (vA', a'), pdu')"
    using ping_facts(1) by (cases ping_outcome; cases "fst ping_outcome") (auto simp: prod_eq_iff)
  have n: "([97], [1], []) = (sq_securityName ping_request, c_context_engine ping_env (sq_contextEngineId ping_request),
      sq_contextName ping_request)"
    by (simp add: ping_request_def c_context_engine_def ping_env_def)
  have inv: "sec_inv (cs_cache (com_sm_init no_nextid))" by (simp add: sec_inv_def com_sm_init_def no_nextid_inv)
  have free: "c_reference_free ping_mp"
    by (simp add: c_reference_free_def ping_mp_def no_nextid_def nextid_call_def mp_cache_init_def)
  have hf: "handle_free (cp_cache ping_mp) 7" by (simp add: handle_free_def ping_mp_def mp_cache_init_def)
  have w: "ev_encode ping_com m = Inr w \<Longrightarrow> ce_decode ping_env w = Inr (Some m)" for m w
    using ping_wire by (simp add: ping_com_def ping_env_def)
  have t: "fst (com2sec ping_com one_name [112] sample_source a') = Inr ([97], [1], [])"
    using ping_facts(4) unfolding s fst_conv snd_conv .
  have f: "confirmedClass (p_type (ping GetRequest 77))" "ce_messageProcessingModelID ping_env = 1"
    "sq_securityModel ping_request = 1 + 1" "sq_securityLevel ping_request = 1"
    "ce_securityModels ping_env (1 + 1) = Some (com_model ping_com one_name)" "bm_snmpEngineID one_name = ce_snmpEngineID ping_env"
    "mp_inv (cp_cache ping_mp)" "nextid_inv (cp_msgID ping_mp)"
    by (simp_all add: ping_def ping_env_def ping_request_def one_name_def ping_mp_def mp_inv_init no_nextid_inv)
  from community_exchange [OF s [unfolded ping_outcome_def] f(1-5) f(5) w w n ping_facts(2,3) t f(7) hf inv inv f(6,8) free]
  obtain deB tB ref where "c_prepareDataElements ping_env (fst sample_source) (snd sample_source) whole
      (ping_mp, com_sm_init no_nextid) = (Inr deB, tB)" "de_securityName deB = [97]" "de_stateReference deB = Some ref"
    by blast
  with s show ?thesis unfolding ping_outcome_def by (intro exI [of _ "(td, ta, whole)"]) auto
qed

end
