(* ===== verification/Oid_Dict.thy ===== *)
theory Oid_Dict
  imports Snmp_Prelude
begin

text \<open>
  The dictionaries of \<open>pysnmp/smi/indices.py\<close>, which keep their keys in the order of object
  identifiers: \<open>OrderedDict\<close> and its subclass \<open>OidOrderedDict\<close> as one record, with the lazily
  sorted list of keys, the list of key lengths and the cache of what a key sorts by. Keys are
  tuples, as the trees of managed objects use them. Shown: the invariant that ties the list
  to the dictionary, correctness and termination of the binary search, and that the
  successor of a key is the least key above it. The locale \<open>oid_index\<close> is what the trees of
  managed objects rely on.
\<close>

section \<open>The dictionary\<close>

record 'v oid_dict =
  od_dict :: "oid \<rightharpoonup> 'v"
  od_keyList :: "oid list"
  od_dirty :: bool
  od_keysLens :: "nat list"
  od_keysCache :: "oid \<rightharpoonup> oid"

definition od_init :: "'v oid_dict" where
  "od_init = \<lparr>od_dict = Map.empty, od_keyList = [], od_dirty = True, od_keysLens = [],
     od_keysCache = Map.empty\<rparr>"

definition od_setitem :: "oid \<Rightarrow> 'v \<Rightarrow> 'v oid_dict \<Rightarrow> 'v oid_dict" where
  "od_setitem k v d =
     (let d1 = (if od_dict d k = None then d\<lparr>od_keyList := od_keyList d @ [k], od_dirty := True\<rparr> else d);
          d2 = d1\<lparr>od_dict := (od_dict d1)(k \<mapsto> v)\<rparr>
      in if od_keysCache d2 k = None then d2\<lparr>od_keysCache := (od_keysCache d2)(k \<mapsto> k)\<rparr> else d2)"

definition od_delitem :: "oid \<Rightarrow> ('v oid_dict, unit) sm" where
  "od_delitem k d =
     (if od_dict d k = None then (Inl KeyError, d)
      else (Inr (), d\<lparr>od_keyList := remove1 k (od_keyList d), od_dirty := True,
        od_dict := (od_dict d)(k := None), od_keysCache := (od_keysCache d)(k := None)\<rparr>))"

definition od_clear :: "'v oid_dict \<Rightarrow> 'v oid_dict" where
  "od_clear d = d\<lparr>od_dict := Map.empty, od_keyList := [], od_dirty := True\<rparr>"

definition od_update :: "(oid \<times> 'v) list \<Rightarrow> 'v oid_dict \<Rightarrow> 'v oid_dict" where
  "od_update kvs d = foldl (\<lambda>d (k, v). od_setitem k v d) d kvs"

definition od_sortingKey :: "'v oid_dict \<Rightarrow> oid \<Rightarrow> oid" where
  "od_sortingKey d k = (case od_keysCache d k of Some k' \<Rightarrow> k' | None \<Rightarrow> k)"

definition od_order :: "'v oid_dict \<Rightarrow> 'v oid_dict" where
  "od_order d =
     (let ks = sort_key (od_sortingKey d) (od_keyList d)
      in d\<lparr>od_keyList := ks, od_keysLens := rev (sort (remdups (map length ks))), od_dirty := False\<rparr>)"

definition od_ordered :: "'v oid_dict \<Rightarrow> 'v oid_dict" where
  "od_ordered d = (if od_dirty d then od_order d else d)"

definition od_keys :: "('v oid_dict, oid list) sm" where
  "od_keys d = (let d' = od_ordered d in (Inr (od_keyList d'), d'))"

fun lookup_each :: "(oid \<rightharpoonup> 'v) \<Rightarrow> oid list \<Rightarrow> (oid \<times> 'v) list res" where
  "lookup_each m [] = Inr []"
| "lookup_each m (k # ks) =
     rbind (of_option KeyError (m k)) (\<lambda>v. rbind (lookup_each m ks) (\<lambda>kvs. Inr ((k, v) # kvs)))"

definition od_items :: "('v oid_dict, (oid \<times> 'v) list) sm" where
  "od_items d = (let d' = od_ordered d in (lookup_each (od_dict d') (od_keyList d'), d'))"

definition od_values :: "('v oid_dict, 'v list) sm" where
  "od_values = sbind od_items (\<lambda>kvs. sret (map snd kvs))"

definition od_getKeysLens :: "('v oid_dict, nat list) sm" where
  "od_getKeysLens d = (let d' = od_ordered d in (Inr (od_keysLens d'), d'))"

text \<open>
  \<open>bisect(keys, x, key=f)\<close> of the standard library: binary search for the first position whose
  element sorts after \<open>x\<close>.
\<close>

function bisect_loop :: "('a \<Rightarrow> 'b :: linorder) \<Rightarrow> 'a list \<Rightarrow> 'b \<Rightarrow> nat \<Rightarrow> nat \<Rightarrow> nat" where
  "bisect_loop f xs x lo hi =
     (if lo < hi then
        let mid = (lo + hi) div 2
        in if x < f (xs ! mid) then bisect_loop f xs x lo mid else bisect_loop f xs x (mid + 1) hi
      else lo)"
  by pat_completeness auto
termination by (relation "measure (\<lambda>(f, xs, x, lo, hi). hi - lo)") auto

declare bisect_loop.simps [simp del]

definition bisect :: "('a \<Rightarrow> 'b :: linorder) \<Rightarrow> 'a list \<Rightarrow> 'b \<Rightarrow> nat" where
  "bisect f xs x = bisect_loop f xs x 0 (length xs)"

definition od_nextKey :: "oid \<Rightarrow> ('v oid_dict, oid) sm" where
  "od_nextKey k d =
     (let d' = od_ordered d;
          keys = od_keyList d';
          nextIdx = bisect (od_sortingKey d') keys (od_sortingKey d' k)
      in (if nextIdx < length keys then Inr (keys ! nextIdx) else Inl KeyError, d'))"

section \<open>Binary search\<close>

lemma bisect_loop_spec:
  assumes "sorted (map f xs)" and "lo \<le> hi" and "hi \<le> length xs"
    and "\<forall>i < lo. f (xs ! i) \<le> x" and "\<forall>i. hi \<le> i \<longrightarrow> i < length xs \<longrightarrow> x < f (xs ! i)"
  shows "bisect_loop f xs x lo hi \<le> length xs \<and> (\<forall>i < bisect_loop f xs x lo hi. f (xs ! i) \<le> x) \<and>
    (\<forall>i. bisect_loop f xs x lo hi \<le> i \<longrightarrow> i < length xs \<longrightarrow> x < f (xs ! i))"
  using assms
proof (induction f xs x lo hi rule: bisect_loop.induct)
  case (1 f xs x lo hi)
  let ?mid = "(lo + hi) div 2"
  show ?case
  proof (cases "lo < hi")
    case False
    with "1.prems" show ?thesis by (subst (1 2 3) bisect_loop.simps) auto
  next
    case lt: True
    then have mid: "lo \<le> ?mid" "?mid < hi" "?mid < length xs" using "1.prems"(3) by auto
    have mono: "f (xs ! i) \<le> f (xs ! j)" if "i \<le> j" "j < length xs" for i j
      using sorted_nth_mono [OF "1.prems"(1), of i j] that by simp
    show ?thesis
    proof (cases "x < f (xs ! ?mid)")
      case True
      then have "\<forall>i. ?mid \<le> i \<longrightarrow> i < length xs \<longrightarrow> x < f (xs ! i)"
        using mono order_less_le_trans by blast
      with "1.IH"(1) [OF lt refl True] "1.prems" mid lt True
      show ?thesis by (simp add: bisect_loop.simps [of f xs x lo hi])
    next
      case False
      then have "\<forall>i < ?mid + 1. f (xs ! i) \<le> x"
        using mono mid(3) by (metis less_Suc_eq_le Suc_eq_plus1 linorder_not_less order_trans)
      with "1.IH"(2) [OF lt refl False] "1.prems" mid lt False
      show ?thesis by (simp add: bisect_loop.simps [of f xs x lo hi])
    qed
  qed
qed

lemma bisect_spec:
  assumes "sorted (map f xs)"
  shows "bisect f xs x \<le> length xs \<and> (\<forall>i < bisect f xs x. f (xs ! i) \<le> x) \<and>
    (\<forall>i. bisect f xs x \<le> i \<longrightarrow> i < length xs \<longrightarrow> x < f (xs ! i))"
  unfolding bisect_def using assms by (intro bisect_loop_spec) auto

section \<open>The invariant\<close>

definition key_lens :: "oid set \<Rightarrow> nat list" where
  "key_lens ks = rev (sorted_list_of_set (length ` ks))"

definition od_inv :: "'v oid_dict \<Rightarrow> bool" where
  "od_inv d \<longleftrightarrow> distinct (od_keyList d) \<and> set (od_keyList d) = dom (od_dict d) \<and>
     (\<forall>k k'. od_keysCache d k = Some k' \<longrightarrow> k' = k) \<and>
     (\<not> od_dirty d \<longrightarrow> sorted (od_keyList d) \<and> od_keysLens d = key_lens (dom (od_dict d)))"

lemma od_sortingKey_id: "od_inv d \<Longrightarrow> od_sortingKey d = id"
  by (fastforce simp: od_inv_def od_sortingKey_def split: option.split)

lemma od_init_inv: "od_inv od_init"
  by (simp add: od_inv_def od_init_def)

lemma od_setitem_inv: "od_inv d \<Longrightarrow> od_inv (od_setitem k v d)"
  by (auto simp: od_inv_def od_setitem_def Let_def domIff insert_absorb split: if_splits)

lemma od_delitem_inv: "od_inv d \<Longrightarrow> od_inv (snd (od_delitem k d))"
  by (auto simp: od_inv_def od_delitem_def split: if_splits)

lemma od_clear_inv: "od_inv d \<Longrightarrow> od_inv (od_clear d)"
  by (auto simp: od_inv_def od_clear_def)

lemma sort_remdups_lens:
  "sort (remdups (map length (ks :: oid list))) = sorted_list_of_set (length ` set ks)"
  by (simp add: sorted_list_of_set_sort_remdups flip: set_map)

lemma od_inv_keys: "od_inv d \<Longrightarrow> finite (dom (od_dict d)) \<and>
    sorted_list_of_set (dom (od_dict d)) = sort (od_keyList d)"
  by (metis List.finite_set distinct_remdups_id od_inv_def sorted_list_of_set_sort_remdups)

lemma od_ordered_eq:
  assumes "od_inv d"
  shows "od_ordered d = d\<lparr>od_keyList := sorted_list_of_set (dom (od_dict d)),
    od_keysLens := key_lens (dom (od_dict d)), od_dirty := False\<rparr>"
proof (cases "od_dirty d")
  case True
  have "set (od_keyList d) = dom (od_dict d)" using assms by (simp add: od_inv_def)
  then have "rev (sort (remdups (map length (sort (od_keyList d))))) = key_lens (dom (od_dict d))"
    by (simp add: sort_remdups_lens key_lens_def)
  with True od_inv_keys [OF assms] od_sortingKey_id [OF assms] show ?thesis
    by (simp add: od_ordered_def od_order_def Let_def id_def)
next
  case False
  then have "sort (od_keyList d) = od_keyList d" "od_keysLens d = key_lens (dom (od_dict d))"
    using assms by (simp_all add: od_inv_def sorted_sort_id)
  with False od_inv_keys [OF assms] show ?thesis by (simp add: od_ordered_def)
qed

lemma od_ordered_inv: "od_inv d \<Longrightarrow> od_inv (od_ordered d)"
  using od_inv_keys [of d] by (auto simp: od_inv_def od_ordered_eq)

lemma lookup_each_dom:
  "set ks \<subseteq> dom m \<Longrightarrow> lookup_each m ks = Inr (map (\<lambda>k. (k, the (m k))) ks)"
  by (induction ks) auto

lemma od_items_eq:
  assumes "od_inv d"
  shows "od_items d = (Inr (map (\<lambda>k. (k, the (od_dict d k))) (sorted_list_of_set (dom (od_dict d)))), od_ordered d)"
proof -
  have "set (sorted_list_of_set (dom (od_dict d))) \<subseteq> dom (od_dict d)"
    using od_inv_keys [OF assms] by (metis set_sorted_list_of_set order_refl)
  then show ?thesis by (simp add: od_items_def od_ordered_eq [OF assms] lookup_each_dom)
qed

section \<open>Successors\<close>

text \<open>The least key above a name, of a finite set of keys.\<close>

definition next_key :: "oid set \<Rightarrow> oid \<Rightarrow> oid option" where
  "next_key ks k = (if {k' \<in> ks. k < k'} = {} then None else Some (Min {k' \<in> ks. k < k'}))"

lemma next_key_Some_iff:
  assumes "finite ks"
  shows "next_key ks k = Some k' \<longleftrightarrow> k' \<in> ks \<and> k < k' \<and> (\<forall>j \<in> ks. k < j \<longrightarrow> k' \<le> j)"
proof (cases "{j \<in> ks. k < j} = {}")
  case False
  have "finite {j \<in> ks. k < j}" using assms by simp
  from Min_eq_iff [OF this False, of k'] False show ?thesis by (auto simp: next_key_def)
qed (auto simp: next_key_def)

lemma next_key_None_iff: "next_key ks k = None \<longleftrightarrow> (\<forall>j \<in> ks. j \<le> k)"
  by (auto simp: next_key_def not_less [symmetric])

lemma od_nextKey_eq:
  assumes "od_inv d"
  shows "od_nextKey k d = (of_option KeyError (next_key (dom (od_dict d)) k), od_ordered d)"
proof -
  let ?ks = "sorted_list_of_set (dom (od_dict d))"
  have fin: "finite (dom (od_dict d))" using od_inv_keys [OF assms] by simp
  define n where "n = bisect id ?ks k"
  have n: "n \<le> length ?ks" "\<forall>i < n. ?ks ! i \<le> k" "\<forall>i. n \<le> i \<longrightarrow> i < length ?ks \<longrightarrow> k < ?ks ! i"
    using bisect_spec [of id ?ks k] by (simp_all add: n_def)
  have set_ks: "set ?ks = dom (od_dict d)" using fin by simp
  have above: "n \<le> i" if "i < length ?ks" "k < ?ks ! i" for i
    using n(2) that by (meson linorder_not_less)
  have "(if n < length ?ks then Inr (?ks ! n) else Inl KeyError) =
      of_option KeyError (next_key (dom (od_dict d)) k)"
  proof (cases "n < length ?ks")
    case True
    have "next_key (dom (od_dict d)) k = Some (?ks ! n)"
      unfolding next_key_Some_iff [OF fin]
      using True n(3) set_ks above sorted_nth_mono [OF sorted_sorted_list_of_set]
      by (metis in_set_conv_nth order_refl)
    with True show ?thesis by simp
  next
    case False
    then have "next_key (dom (od_dict d)) k = None"
      unfolding next_key_None_iff
      using set_ks n(1,2) by (metis in_set_conv_nth linorder_not_less order_less_le_trans)
    with False show ?thesis by simp
  qed
  moreover have "od_nextKey k d =
      ((if n < length ?ks then Inr (?ks ! n) else Inl KeyError), od_ordered d)"
    using od_sortingKey_id [OF od_ordered_inv [OF assms]] od_ordered_eq [OF assms]
    unfolding od_nextKey_def Let_def n_def by simp
  ultimately show ?thesis by simp
qed

section \<open>Sequences of operations\<close>

datatype 'v od_op = SetItem oid 'v | DelItem oid | Clear | NextKey oid | GetKeysLens

fun od_exec :: "'v oid_dict \<Rightarrow> 'v od_op \<Rightarrow> 'v oid_dict" where
  "od_exec d (SetItem k v) = od_setitem k v d"
| "od_exec d (DelItem k) = snd (od_delitem k d)"
| "od_exec d Clear = od_clear d"
| "od_exec d (NextKey k) = snd (od_nextKey k d)"
| "od_exec d GetKeysLens = snd (od_getKeysLens d)"

text \<open>The same sequence on a plain map.\<close>

fun map_exec :: "(oid \<rightharpoonup> 'v) \<Rightarrow> 'v od_op \<Rightarrow> (oid \<rightharpoonup> 'v)" where
  "map_exec m (SetItem k v) = m(k \<mapsto> v)"
| "map_exec m (DelItem k) = m(k := None)"
| "map_exec m Clear = Map.empty"
| "map_exec m _ = m"

lemma od_exec_inv: "od_inv d \<Longrightarrow> od_inv (od_exec d op)"
  by (cases op) (auto simp: od_setitem_inv od_delitem_inv od_clear_inv od_ordered_inv
      od_nextKey_eq od_getKeysLens_def Let_def)

lemma od_exec_dict: "od_inv d \<Longrightarrow> od_dict (od_exec d op) = map_exec (od_dict d) op"
  by (cases op) (auto simp: od_nextKey_eq od_getKeysLens_def od_ordered_eq od_setitem_def
      od_delitem_def od_clear_def Let_def)

lemma od_run:
  "od_inv d \<Longrightarrow> od_inv (foldl od_exec d ops) \<and> od_dict (foldl od_exec d ops) = foldl map_exec (od_dict d) ops"
  by (induction ops arbitrary: d) (simp_all add: od_exec_inv od_exec_dict)

section \<open>The contract of an index\<close>

text \<open>
  \<open>MibTree.getBranch\<close> tries the prefixes of a name that have the length of some key, the
  longest first.
\<close>

fun branch_loop :: "nat list \<Rightarrow> (oid \<rightharpoonup> 'v) \<Rightarrow> oid \<rightharpoonup> 'v" where
  "branch_loop [] m name = None"
| "branch_loop (n # ns) m name =
     (case m (take n name) of Some v \<Rightarrow> Some v | None \<Rightarrow> branch_loop ns m name)"

definition longest_prefix :: "oid set \<Rightarrow> oid \<Rightarrow> oid \<Rightarrow> bool" where
  "longest_prefix ks name k \<longleftrightarrow> k \<in> ks \<and> is_prefix k name \<and>
     (\<forall>j \<in> ks. is_prefix j name \<longrightarrow> length j \<le> length k)"

lemma longest_prefix_unique: "longest_prefix ks name k \<Longrightarrow> longest_prefix ks name j \<Longrightarrow> j = k"
  unfolding longest_prefix_def is_prefix_def by (metis le_antisym)

lemma branch_loop_spec:
  assumes "sorted_wrt (>) ns" and "\<forall>k \<in> dom m. is_prefix k name \<longrightarrow> length k \<in> set ns"
  shows "branch_loop ns m name = Some v \<longleftrightarrow> (\<exists>k. longest_prefix (dom m) name k \<and> m k = Some v)"
  using assms
proof (induction ns)
  case Nil
  then show ?case by (auto simp: longest_prefix_def)
next
  case (Cons n ns)
  show ?case
  proof (cases "m (take n name)")
    case None
    then have "\<forall>k \<in> dom m. is_prefix k name \<longrightarrow> length k \<in> set ns"
      using Cons.prems(2) by (metis domIff is_prefix_def set_ConsD)
    with None Cons.IH Cons.prems(1) show ?thesis by simp
  next
    case (Some w)
    have "length j \<le> length (take n name)" if "j \<in> dom m" "is_prefix j name" for j
      using that Cons.prems is_prefix_length [OF that(2)] by (auto dest: less_imp_le)
    then have "longest_prefix (dom m) name (take n name)"
      using Some by (auto simp: longest_prefix_def is_prefix_def min_def)
    then have "longest_prefix (dom m) name k \<longleftrightarrow> k = take n name" for k
      using longest_prefix_unique by blast
    with Some show ?thesis by simp
  qed
qed

locale oid_index =
  fixes look :: "'d \<Rightarrow> oid \<rightharpoonup> 'v"
    and lens :: "'d \<Rightarrow> nat list"
    and nxt :: "'d \<Rightarrow> oid \<Rightarrow> oid option"
    and ok :: "'d \<Rightarrow> bool"
  assumes look_finite: "ok d \<Longrightarrow> finite (dom (look d))"
    and lens_keys: "ok d \<Longrightarrow> lens d = key_lens (dom (look d))"
    and nxt_least: "ok d \<Longrightarrow> nxt d k = next_key (dom (look d)) k"
begin

text \<open>A name is found in the branch whose key is its longest prefix.\<close>

lemma branch_longest:
  assumes "ok d"
  shows "branch_loop (lens d) (look d) name = Some v \<longleftrightarrow>
    (\<exists>k. longest_prefix (dom (look d)) name k \<and> look d k = Some v)"
  using look_finite [OF assms] lens_keys [OF assms]
  by (intro branch_loop_spec) (auto simp: key_lens_def sorted_wrt_rev)

end

interpretation od: oid_index od_dict "\<lambda>d. od_keysLens (snd (od_getKeysLens d))"
  "\<lambda>d k. case fst (od_nextKey k d) of Inr k' \<Rightarrow> Some k' | Inl e \<Rightarrow> None" od_inv
proof unfold_locales
  fix d :: "'v oid_dict" and k
  assume d: "od_inv d"
  then show "finite (dom (od_dict d))" using od_inv_keys by blast
  show "od_keysLens (snd (od_getKeysLens d)) = key_lens (dom (od_dict d))"
    using d by (simp add: od_getKeysLens_def Let_def od_ordered_eq)
  show "(case fst (od_nextKey k d) of Inr k' \<Rightarrow> Some k' | Inl e \<Rightarrow> None) = next_key (dom (od_dict d)) k"
    using d by (cases "next_key (dom (od_dict d)) k") (simp_all add: od_nextKey_eq)
qed

text \<open>
  (C14) Whatever was inserted, deleted and looked up before, the successor of an object identifier
  is the least key above it in the order of object identifiers, whether or not the identifier
  itself is a key, and \<open>KeyError\<close> is raised exactly when no key is above it; and a name is
  found under the longest key that is a prefix of it. The dictionary holds what a plain one
  would: its keys are listed in order, each once, its items are the keys with their values, and the lengths it gives
  are those of the keys, each once, longest first.
\<close>

theorem oid_dict_order:
  "let d = foldl od_exec od_init ops; m = foldl map_exec Map.empty ops in
    od_dict d = m \<and>
    (\<exists>ks. fst (od_keys d) = Inr ks \<and> sorted ks \<and> distinct ks \<and> set ks = dom m \<and>
       fst (od_items d) = Inr (map (\<lambda>k. (k, the (m k))) ks)) \<and>
    (\<exists>ls. fst (od_getKeysLens d) = Inr ls \<and> set ls = length ` dom m \<and> sorted_wrt (>) ls) \<and>
    (case fst (od_nextKey k d) of
       Inr k' \<Rightarrow> k' \<in> dom m \<and> k < k' \<and> (\<forall>j. j \<in> dom m \<longrightarrow> k < j \<longrightarrow> k' \<le> j)
     | Inl e \<Rightarrow> e = KeyError \<and> (\<forall>j. j \<in> dom m \<longrightarrow> j \<le> k)) \<and>
    (branch_loop (od_keysLens (snd (od_getKeysLens d))) m k = Some v \<longleftrightarrow>
       (\<exists>p. longest_prefix (dom m) k p \<and> m p = Some v))"
proof -
  define d where "d = foldl od_exec od_init ops"
  define m where "m = foldl map_exec Map.empty ops"
  have d: "od_inv d" "od_dict d = m"
    using od_run [OF od_init_inv, of ops] by (simp_all add: d_def m_def od_init_def)
  then have fin: "finite (dom m)" using od.look_finite by blast
  have keys: "\<exists>ks. fst (od_keys d) = Inr ks \<and> sorted ks \<and> distinct ks \<and> set ks = dom m \<and>
      fst (od_items d) = Inr (map (\<lambda>k. (k, the (m k))) ks)"
    using d fin by (simp add: od_keys_def od_items_def od_ordered_eq Let_def lookup_each_dom)
  have lens: "\<exists>ls. fst (od_getKeysLens d) = Inr ls \<and> set ls = length ` dom m \<and> sorted_wrt (>) ls"
    using d fin by (simp add: od_getKeysLens_def od_ordered_eq Let_def key_lens_def sorted_wrt_rev)
  show ?thesis
    unfolding d_def [symmetric] m_def [symmetric] Let_def
    using keys lens od_nextKey_eq [OF d(1), of k] od.branch_longest [OF d(1), of k v] d(2)
      next_key_Some_iff [OF fin, of k] next_key_None_iff [of "dom m" k]
    by (cases "next_key (dom m) k") auto
qed

theorem oid_dict_order_witness:
  "let ops = [SetItem [1, 3, 10] (), SetItem [1, 3, 9] (), SetItem [1, 3] (), DelItem [1, 3, 9]];
       d = foldl od_exec od_init ops; m = foldl map_exec Map.empty ops in
   fst (od_nextKey [1, 3, 9] d) = Inr [1, 3, 10] \<and>
   (\<forall>j. j \<in> dom m \<longrightarrow> [1, 3, 9] < j \<longrightarrow> [1, 3, 10] \<le> j)"
proof -
  let ?ops = "[SetItem [1, 3, 10] (), SetItem [1, 3, 9] (), SetItem [1, 3] (), DelItem [1, 3, 9]]"
  have "fst (od_nextKey [1, 3, 9] (foldl od_exec od_init ?ops)) = Inr [1, 3, 10]" by code_simp
  then show ?thesis
    using oid_dict_order [of ?ops "[1, 3, 9]" "()"] unfolding Let_def by (simp only: sum.case) blast
qed

end
