(* ===== verification/Mib_Syntax.thy ===== *)
theory Mib_Syntax
  imports Pdu
begin

text \<open>
  What a managed object's syntax does with a value written to it: \<open>MibScalarInstance.setValue\<close>
  of \<open>smi/mibs/SNMPv2-SMI.py\<close> and the textual conventions of \<open>smi/mibs/SNMPv2-TC.py\<close> that give
  a write a meaning of its own, \<open>RowStatus\<close> and \<open>TestAndIncr\<close>. The class's own conversion and
  check of a value (\<open>clone(value)\<close> of pyasn1) is part of the syntax, as a function.
\<close>

datatype convention = Plain | RowStatus | TestAndIncr

record mib_syntax =
  sx_convention :: convention
  sx_clone :: "snmp_value \<Rightarrow> snmp_value option"
  sx_value :: "snmp_value option"

text \<open>\<open>syntax.clone(value)\<close>: a value the class refuses raises \<open>PyAsn1Error\<close>.\<close>

definition syntax_clone :: "snmp_value \<Rightarrow> mib_syntax \<Rightarrow> mib_syntax res" where
  "syntax_clone v sx = rbind (of_option PyAsn1Error (sx_clone sx v)) (\<lambda>v'. Inr (sx\<lparr>sx_value := Some v'\<rparr>))"

section \<open>RowStatus\<close>

text \<open>The states, and the transitions from a current state on a requested one.\<close>

definition stNotExists :: int where "stNotExists = 0"
definition stActive :: int where "stActive = 1"
definition stNotInService :: int where "stNotInService = 2"
definition stNotReady :: int where "stNotReady = 3"
definition stCreateAndGo :: int where "stCreateAndGo = 4"
definition stCreateAndWait :: int where "stCreateAndWait = 5"
definition stDestroy :: int where "stDestroy = 6"

lemmas row_states = stNotExists_def stActive_def stNotInService_def stNotReady_def
  stCreateAndGo_def stCreateAndWait_def stDestroy_def

definition stateMatrix :: "int \<times> int \<rightharpoonup> smi_class option \<times> int" where
  "stateMatrix = map_of
     [((stCreateAndGo, stNotExists), (Some RowCreationWanted, stActive)),
      ((stCreateAndGo, stNotReady), (Some InconsistentValueErr, stNotReady)),
      ((stCreateAndGo, stNotInService), (Some InconsistentValueErr, stNotInService)),
      ((stCreateAndGo, stActive), (Some InconsistentValueErr, stActive)),
      ((stCreateAndWait, stNotExists), (Some RowCreationWanted, stActive)),
      ((stCreateAndWait, stNotReady), (Some InconsistentValueErr, stNotReady)),
      ((stCreateAndWait, stNotInService), (Some InconsistentValueErr, stNotInService)),
      ((stCreateAndWait, stActive), (Some InconsistentValueErr, stActive)),
      ((stActive, stNotExists), (Some InconsistentValueErr, stNotExists)),
      ((stActive, stNotReady), (Some InconsistentValueErr, stNotReady)),
      ((stActive, stNotInService), (None, stActive)),
      ((stActive, stActive), (None, stActive)),
      ((stNotInService, stNotExists), (Some InconsistentValueErr, stNotExists)),
      ((stNotInService, stNotReady), (Some InconsistentValueErr, stNotReady)),
      ((stNotInService, stNotInService), (None, stNotInService)),
      ((stNotInService, stActive), (None, stActive)),
      ((stDestroy, stNotExists), (Some RowDestructionWanted, stNotExists)),
      ((stDestroy, stNotReady), (Some RowDestructionWanted, stNotExists)),
      ((stDestroy, stNotInService), (Some RowDestructionWanted, stNotExists)),
      ((stDestroy, stActive), (Some RowDestructionWanted, stNotExists)),
      ((stNotExists, stNotExists), (None, stNotExists))]"

fun status_of :: "snmp_value option \<Rightarrow> int" where
  "status_of (Some (VInteger n)) = n"
| "status_of _ = stNotExists"

text \<open>
  \<open>RowStatus.setValue\<close>. A transition the matrix does not have is an error that keeps the
  current value as its syntax; every other error carries the state of the matrix.
\<close>

definition rowStatus_setValue :: "snmp_value option \<Rightarrow> mib_syntax \<Rightarrow> mib_syntax res" where
  "rowStatus_setValue value sx =
     rbind (case value of None \<Rightarrow> Inr sx | Some v \<Rightarrow> syntax_clone v sx) (\<lambda>new.
       case stateMatrix (status_of (sx_value new), status_of (sx_value sx)) of
         None \<Rightarrow> Inl (SmiError MibOperationErr (no_smi\<lparr>sd_syntax := Some (status_of (sx_value sx))\<rparr>))
       | Some (excValue, newState) \<Rightarrow>
           rbind (syntax_clone (VInteger newState) sx) (\<lambda>sx'.
             case excValue of
               Some c \<Rightarrow> Inl (SmiError c (no_smi\<lparr>sd_syntax := Some newState\<rparr>))
             | None \<Rightarrow> Inr sx'))"

section \<open>TestAndIncr\<close>

fun num_of :: "snmp_value \<Rightarrow> int option" where
  "num_of (VInteger n) = Some n"
| "num_of (VCounter32 n) = Some n"
| "num_of (VGauge32 n) = Some n"
| "num_of (VTimeTicks n) = Some n"
| "num_of (VCounter64 n) = Some n"
| "num_of _ = None"

text \<open>\<open>value + 1\<close>, which wraps for counters and ticks and is checked against the range otherwise.\<close>

fun increment :: "snmp_value \<Rightarrow> snmp_value res" where
  "increment (VInteger n) = (if n + 1 \<le> 2147483647 then Inr (VInteger (n + 1)) else Inl PyAsn1Error)"
| "increment (VGauge32 n) = (if n + 1 \<le> 4294967295 then Inr (VGauge32 (n + 1)) else Inl PyAsn1Error)"
| "increment v = of_option TypeError (wrapping_add v 1)"

definition testAndIncr_setValue :: "snmp_value option \<Rightarrow> mib_syntax \<Rightarrow> mib_syntax res" where
  "testAndIncr_setValue value sx =
     (case value of
        None \<Rightarrow> Inr sx
      | Some v \<Rightarrow>
          (case sx_value sx of
             None \<Rightarrow> Inl PyAsn1Error
           | Some cur \<Rightarrow>
               if num_of v = None \<or> num_of v \<noteq> num_of cur then Inl (SmiError InconsistentValueErr no_smi)
               else rbind (increment v) (\<lambda>v'.
                 syntax_clone (if the (num_of v') > 2147483646 then VInteger 0 else v') sx)))"

section \<open>Setting the value of an instance\<close>

text \<open>
  \<open>MibScalarInstance.setValue\<close>: no value means the default, which is the syntax as it is;
  otherwise an error of the syntax that is not a request for a row becomes \<open>WrongValueError\<close>.
\<close>

definition syntax_setValue :: "snmp_value \<Rightarrow> mib_syntax \<Rightarrow> mib_syntax res" where
  "syntax_setValue v sx =
     (case sx_convention sx of
        Plain \<Rightarrow> syntax_clone v sx
      | RowStatus \<Rightarrow> rowStatus_setValue (Some v) sx
      | TestAndIncr \<Rightarrow> testAndIncr_setValue (Some v) sx)"

definition instance_setValue :: "snmp_value option \<Rightarrow> nat \<Rightarrow> mib_syntax \<Rightarrow> mib_syntax res" where
  "instance_setValue value idx sx =
     (case value of
        None \<Rightarrow> Inr sx
      | Some v \<Rightarrow>
          (case syntax_setValue v sx of
             Inr sx' \<Rightarrow> Inr sx'
           | Inl e \<Rightarrow>
               if is_PyAsn1Error e then
                 if is_smi {RowCreationWanted, RowDestructionWanted} e then Inl e
                 else Inl (smi_at WrongValueErr idx)
               else Inl e))"

text \<open>The pyasn1 classes of the two conventions take integers in their range.\<close>

definition status_clone :: "snmp_value \<Rightarrow> snmp_value option" where
  "status_clone v = (case num_of v of Some n \<Rightarrow> if 0 \<le> n \<and> n \<le> 6 then Some (VInteger n) else None | None \<Rightarrow> None)"

definition incr_clone :: "snmp_value \<Rightarrow> snmp_value option" where
  "incr_clone v = (case num_of v of Some n \<Rightarrow> if 0 \<le> n \<and> n \<le> 2147483647 then Some (VInteger n) else None | None \<Rightarrow> None)"

definition rowStatus :: "int option \<Rightarrow> mib_syntax" where
  "rowStatus st = \<lparr>sx_convention = RowStatus, sx_clone = status_clone, sx_value = map_option VInteger st\<rparr>"

definition testAndIncr :: "int \<Rightarrow> mib_syntax" where
  "testAndIncr n = \<lparr>sx_convention = TestAndIncr, sx_clone = incr_clone, sx_value = Some (VInteger n)\<rparr>"

text \<open>
  A row that is in service cannot be taken out of service. Writing \<open>notInService\<close> to the status
  of an active row succeeds and leaves the row active; and it is made active as well by
  \<open>createAndWait\<close>, which is to leave it out of service. The only request that takes an
  active row out of that state is \<open>destroy\<close>.
\<close>

theorem active_row_stays_active:
  "instance_setValue (Some (VInteger stNotInService)) idx (rowStatus (Some stActive)) =
     Inr (rowStatus (Some stActive)) \<and>
   instance_setValue (Some (VInteger stCreateAndWait)) idx (rowStatus None) =
     Inl (SmiError RowCreationWanted (no_smi\<lparr>sd_syntax := Some stActive\<rparr>)) \<and>
   (case instance_setValue (Some (VInteger n)) idx (rowStatus (Some stActive)) of
      Inr sx \<Rightarrow> sx = rowStatus (Some stActive)
    | Inl e \<Rightarrow> if n = stDestroy then is_smi {RowDestructionWanted} e else e = smi_at WrongValueErr idx)"
proof -
  have "n \<in> {0, 1, 2, 3, 4, 5, 6} \<or> \<not> (0 \<le> n \<and> n \<le> 6)" by auto
  then show ?thesis
    by (auto simp: instance_setValue_def syntax_setValue_def rowStatus_setValue_def rowStatus_def
        syntax_clone_def status_clone_def stateMatrix_def row_states no_smi_def smi_at_def)
qed

text \<open>
  What writing to a \<open>TestAndIncr\<close> object does. A value other than the current one is refused, as
  \<open>wrongValue\<close>. The current value is taken, and the object counts up, but turns to zero one
  step early: 2147483646 is followed by zero, so that 2147483647 is never reached by counting,
  and an object that holds it cannot be written any more.
\<close>

theorem testAndIncr_counts:
  assumes "0 \<le> n" and "n \<le> 2147483647"
  shows "instance_setValue (Some (VInteger v)) idx (testAndIncr n) =
    (if v \<noteq> n \<or> n = 2147483647 then Inl (smi_at WrongValueErr idx)
     else if n = 2147483646 then Inr (testAndIncr 0)
     else Inr (testAndIncr (n + 1)))"
  using assms
  by (auto simp: instance_setValue_def syntax_setValue_def testAndIncr_setValue_def testAndIncr_def
      syntax_clone_def incr_clone_def smi_at_def)

theorem testAndIncr_counts_witness:
  "instance_setValue (Some (VInteger 2147483646)) 0 (testAndIncr 2147483646) = Inr (testAndIncr 0)"
  using testAndIncr_counts [of 2147483646 2147483646 0] by simp

end
