(* ===== verification/Mib_Tree.thy ===== *)
theory Mib_Tree
  imports Oid_Dict Mib_Syntax
begin

text \<open>
  The tree of managed objects an agent serves, as \<open>MibInstrumController.__indexMib\<close> puts it
  together from the classes of \<open>smi/mibs/SNMPv2-SMI.py\<close>: the root holds scalars, table rows
  and tables; a scalar holds its instances; a row holds its columns and a column the
  instances of its cells. This theory has the objects, the search for the branch of a name,
  and the operations that read. The name of an object is the key it is registered under.
  Access control is the parameter \<open>ac\<close>, the \<open>acFun\<close> of the operations' context.
\<close>

section \<open>Objects\<close>

datatype max_access = not_accessible | accessible_for_notify | readonly | readwrite | readcreate

record mib_instance =
  in_syntax :: "mib_syntax option"
  in_oldSyntax :: "mib_syntax option"
  in_newSyntax :: "mib_syntax option option"
  in_branchVersionId :: nat

record 'c mib_node =
  mn_maxAccess :: max_access
  mn_syntax :: "mib_syntax option"
  mn_vars :: "(oid, 'c) odict"
  mn_branchVersionId :: nat

record mib_column = "mib_instance mib_node" +
  mc_createdInstances :: "oid \<rightharpoonup> mib_instance option"
  mc_destroyedInstances :: "oid \<rightharpoonup> mib_instance"
  mc_rowOpWanted :: "oid \<rightharpoonup> exn"
  mc_optional :: bool

text \<open>
  One entry of \<open>indexNames\<close>, with the column it names looked up: the implied flag, the name of
  the column, the kind of its syntax (an octet string may have a fixed length) and the check
  its class makes of a value.
\<close>

datatype index_type = IxInteger | IxIpAddress | IxOctetString "nat option" | IxObjectIdentifier

record index_name =
  ix_implied :: bool
  ix_column :: oid
  ix_type :: index_type
  ix_clone :: "snmp_value \<Rightarrow> snmp_value option"

record mib_row = "mib_column mib_node" +
  mr_indexNames :: "index_name list"
  mr_augmentingRows :: "oid list"

datatype mib_branch =
    Scalar "mib_instance mib_node"
  | Row mib_row
  | Table "unit mib_node"

type_synonym mib_tree = "mib_branch mib_node"

text \<open>
  \<open>acFun(name, syntax, idx, viewType, acCtx)\<close>: true refuses the access, false grants it, and
  it may raise. It can be absent.
\<close>

type_synonym ac_fun = "oid \<Rightarrow> mib_syntax option \<Rightarrow> nat \<Rightarrow> view_type \<Rightarrow> bool res"

section \<open>Finding the branch of a name\<close>

definition vars_lens :: "(oid, 'c) odict \<Rightarrow> nat list" where
  "vars_lens d = rev (sort (remdups (map (length \<circ> fst) d)))"

definition vars_nextKey :: "(oid, 'c) odict \<Rightarrow> oid \<Rightarrow> oid option" where
  "vars_nextKey d name = (case filter (\<lambda>k. name < k) (sort (map fst d)) of [] \<Rightarrow> None | k # ks \<Rightarrow> Some k)"

definition named :: "(oid, 'c) odict \<Rightarrow> oid \<Rightarrow> (oid \<times> 'c) option" where
  "named d k = map_option (Pair k) (map_of d k)"

definition getBranch :: "(oid, 'c) odict \<Rightarrow> oid \<Rightarrow> (oid \<times> 'c) option" where
  "getBranch d name = branch_loop (vars_lens d) (named d) name"

text \<open>\<open>MibTableColumn.getBranch\<close> wants the exact name.\<close>

definition column_getBranch :: "(oid, 'c) odict \<Rightarrow> oid \<Rightarrow> (oid \<times> 'c) option" where
  "column_getBranch d name = named d name"

definition getNextBranch :: "(oid, 'c) odict \<Rightarrow> oid \<Rightarrow> (oid \<times> 'c) option" where
  "getNextBranch d name =
     (case sort (map fst d) of
        [] \<Rightarrow> Option.bind (vars_nextKey d name) (named d)
      | first # ks \<Rightarrow>
          if name < first then named d first else Option.bind (vars_nextKey d name) (named d))"

text \<open>\<open>MibTree.registerSubtrees\<close> and \<open>unregisterSubtrees\<close>, for one subtree.\<close>

definition registerSubtree :: "oid \<Rightarrow> 'c \<Rightarrow> ('c mib_node, unit) sm" where
  "registerSubtree name c n =
     (let n = n\<lparr>mn_branchVersionId := mn_branchVersionId n + 1\<rparr>
      in if map_of (mn_vars n) name \<noteq> None then (Inl (SmiError SmiErr no_smi), n)
         else (Inr (), n\<lparr>mn_vars := AList.update name c (mn_vars n)\<rparr>))"

definition unregisterSubtree :: "oid \<Rightarrow> ('c mib_node, unit) sm" where
  "unregisterSubtree name n =
     (let n = n\<lparr>mn_branchVersionId := mn_branchVersionId n + 1\<rparr>
      in if map_of (mn_vars n) name = None then (Inl (SmiError SmiErr no_smi), n)
         else (Inr (), n\<lparr>mn_vars := AList.delete name (mn_vars n)\<rparr>))"

section \<open>The index laws for the association lists\<close>

lemma vars_lens_keys: "vars_lens d = key_lens (dom (map_of d))"
  by (simp add: vars_lens_def key_lens_def dom_odict image_image comp_def
      flip: sorted_list_of_set_sort_remdups)

lemma vars_nextKey_least: "vars_nextKey d name = next_key (dom (map_of d)) name"
proof (cases "filter (\<lambda>k. name < k) (sort (map fst d))")
  case Nil
  then have "\<forall>k \<in> dom (map_of d). k \<le> name"
    by (auto simp: filter_empty_conv dom_odict not_less)
  with Nil show ?thesis by (simp add: vars_nextKey_def next_key_None_iff [symmetric])
next
  case (Cons k ks)
  let ?f = "filter (\<lambda>k. name < k) (sort (map fst d))"
  have "sorted ?f" by (intro sorted_filter [of id, simplified]) simp
  then have le: "\<forall>j \<in> set ?f. k \<le> j" using Cons by auto
  have mem: "set ?f = {j \<in> dom (map_of d). name < j}" by (auto simp: dom_odict)
  then have "k \<in> {j \<in> dom (map_of d). name < j}" using Cons by (metis list.set_intros(1))
  then have "next_key (dom (map_of d)) name = Some k"
    unfolding next_key_Some_iff [OF finite_dom_map_of] using le unfolding mem by blast
  with Cons show ?thesis by (simp add: vars_nextKey_def)
qed

lemma named_dom [simp]: "dom (named d) = dom (map_of d)"
  by (auto simp: named_def)

interpretation vars: oid_index named vars_lens vars_nextKey "\<lambda>_. True"
  by unfold_locales (simp_all add: finite_dom_map_of vars_lens_keys vars_nextKey_least)

lemma getBranch_eq:
  "getBranch d name = Some (k, c) \<longleftrightarrow> longest_prefix (dom (map_of d)) name k \<and> map_of d k = Some c"
  using vars.branch_longest [of d name "(k, c)"] by (auto simp: getBranch_def named_def)

lemma getNextBranch_eq:
  "getNextBranch d name = Option.bind (next_key (dom (map_of d)) name) (named d)"
proof (cases "sort (map fst d)")
  case (Cons first ks)
  have "\<forall>j \<in> dom (map_of d). first \<le> j"
    using Cons by (metis dom_odict list.set_map set_sort sorted_simps(2) sorted_sort set_ConsD order_refl)
  moreover have "first \<in> dom (map_of d)"
    using Cons by (metis dom_odict list.set_intros(1) list.set_map set_sort)
  ultimately have "name < first \<Longrightarrow> next_key (dom (map_of d)) name = Some first"
    by (subst next_key_Some_iff) (auto simp: finite_dom_map_of)
  then show ?thesis using Cons by (auto simp: getNextBranch_def vars_nextKey_least)
qed (simp add: getNextBranch_def vars_nextKey_least)

lemma getNextBranch_Some_iff:
  "getNextBranch d name = Some (k, c) \<longleftrightarrow> next_key (dom (map_of d)) name = Some k \<and> map_of d k = Some c"
  by (cases "next_key (dom (map_of d)) name") (auto simp: getNextBranch_eq named_def)

lemma getNextBranch_None_iff:
  "getNextBranch d name = None \<longleftrightarrow> next_key (dom (map_of d)) name = None"
proof -
  have "\<exists>c. map_of d k = Some c" if "next_key (dom (map_of d)) name = Some k" for k
    using that by (simp add: next_key_Some_iff finite_dom_map_of) blast
  then show ?thesis by (cases "next_key (dom (map_of d)) name") (auto simp: getNextBranch_eq named_def)
qed

section \<open>Reading\<close>

text \<open>\<open>syntax.isValue\<close>, of a syntax that may be \<open>None\<close>.\<close>

definition isValue :: "mib_syntax option \<Rightarrow> bool res" where
  "isValue sx = (case sx of None \<Rightarrow> Inl AttributeError | Some sx \<Rightarrow> Inr (sx_value sx \<noteq> None))"

definition readable :: "max_access \<Rightarrow> bool" where
  "readable a \<longleftrightarrow> a \<in> {readonly, readwrite, readcreate}"

text \<open>The check the reading operations of scalars and columns make.\<close>

definition read_check :: "ac_fun option \<Rightarrow> nat \<Rightarrow> max_access \<Rightarrow> mib_syntax option \<Rightarrow> oid \<Rightarrow> unit res" where
  "read_check ac idx access sx name =
     (case ac of
        None \<Rightarrow> Inr ()
      | Some acFun \<Rightarrow>
          if \<not> readable access then Inl (smi_at NoAccessErr idx)
          else rbind (acFun name sx idx read_view) (\<lambda>refused.
            if refused then Inl (smi_at NoAccessErr idx) else Inr ()))"

subsection \<open>Instances\<close>

definition instance_readTest :: "nat \<Rightarrow> oid \<Rightarrow> oid \<Rightarrow> mib_instance \<Rightarrow> unit res" where
  "instance_readTest idx name self inst =
     (if name \<noteq> self then Inl (smi_at NoSuchInstanceErr idx)
      else rbind (isValue (in_syntax inst)) (\<lambda>v. if v then Inr () else Inl (smi_at NoSuchInstanceErr idx)))"

definition instance_readGet :: "nat \<Rightarrow> oid \<Rightarrow> oid \<Rightarrow> mib_instance \<Rightarrow> var_bind res" where
  "instance_readGet idx name self inst =
     (if name \<noteq> self then Inl (smi_at NoSuchInstanceErr idx)
      else rbind (isValue (in_syntax inst)) (\<lambda>v.
        if v then Inr (self, the (sx_value (the (in_syntax inst)))) else Inl (smi_at NoSuchInstanceErr idx)))"

definition instance_readTestNext :: "nat \<Rightarrow> oid \<Rightarrow> oid \<Rightarrow> oid \<Rightarrow> mib_instance \<Rightarrow> unit res" where
  "instance_readTestNext idx oName name self inst =
     (if name \<noteq> self \<or> name \<le> oName then Inl (smi_at NoSuchInstanceErr idx)
      else rbind (isValue (in_syntax inst)) (\<lambda>v. if v then Inr () else Inl (smi_at NoSuchInstanceErr idx)))"

definition instance_readGetNext :: "nat \<Rightarrow> oid \<Rightarrow> oid \<Rightarrow> oid \<Rightarrow> mib_instance \<Rightarrow> var_bind res" where
  "instance_readGetNext idx oName name self inst =
     (if name \<noteq> self \<or> \<not> oName < name then Inl (smi_at NoSuchInstanceErr idx)
      else rbind (isValue (in_syntax inst)) (\<lambda>v.
        if v then instance_readGet idx name self inst else Inl (smi_at NoSuchInstanceErr idx)))"

subsection \<open>The walk\<close>

text \<open>The errors on which a walk goes on to the next branch.\<close>

definition walk_on :: "exn \<Rightarrow> bool" where
  "walk_on e \<longleftrightarrow> is_smi {NoAccessErr, NoSuchInstanceErr, NoSuchObjectErr} e"

text \<open>Names to come after the current one: every second turn of the loop leaves one fewer.\<close>

definition names_after :: "(oid, 'c) odict \<Rightarrow> oid \<Rightarrow> nat" where
  "names_after d name = card {k \<in> dom (map_of d). name < k}"

lemma names_after_next:
  assumes "getNextBranch d name = Some (k, c)"
  shows "names_after d k < names_after d name"
proof -
  have k: "k \<in> dom (map_of d)" "name < k"
    using assms by (auto simp: getNextBranch_Some_iff next_key_Some_iff finite_dom_map_of)
  then have "{j \<in> dom (map_of d). k < j} \<subset> {j \<in> dom (map_of d). name < j}" by auto
  then show ?thesis unfolding names_after_def by (simp add: psubset_card_mono finite_dom_map_of)
qed

text \<open>
  The loop of \<open>MibTree.readTestNext\<close> and \<open>readGetNext\<close>. \<open>depth\<close> is the direction; \<open>at_end\<close> is what
  the loop ends with when there is no next branch; \<open>visit\<close> is the operation on the child.
\<close>

function walk_loop :: "(oid \<Rightarrow> (oid \<times> 'c) option) \<Rightarrow> (oid, 'c) odict \<Rightarrow>
  (oid \<Rightarrow> oid \<Rightarrow> 'c \<Rightarrow> 'r res) \<Rightarrow> 'r res \<Rightarrow> bool \<Rightarrow> oid \<Rightarrow> 'r res" where
  "walk_loop branch d visit at_end depth nextName =
     (if depth then
        (case branch nextName of
           None \<Rightarrow> walk_loop branch d visit at_end False nextName
         | Some (k, c) \<Rightarrow>
             (case visit nextName k c of
                Inr r \<Rightarrow> Inr r
              | Inl e \<Rightarrow> if walk_on e then walk_loop branch d visit at_end False nextName else Inl e))
      else
        (case getNextBranch d nextName of
           None \<Rightarrow> at_end
         | Some (k, c) \<Rightarrow>
             (case visit k k c of
                Inr r \<Rightarrow> Inr r
              | Inl e \<Rightarrow> if walk_on e then walk_loop branch d visit at_end True k else Inl e)))"
  by pat_completeness auto
termination
  by (relation "measure (\<lambda>(branch, d, visit, at_end, depth, name).
        2 * names_after d name + (if depth then 1 else 0))")
    (auto dest: names_after_next)

declare walk_loop.simps [simp del]

subsection \<open>Scalars, columns, rows, tables\<close>

definition node_readTest :: "(oid \<Rightarrow> (oid \<times> 'c) option) \<Rightarrow> (oid \<Rightarrow> 'c \<Rightarrow> unit res) \<Rightarrow>
  ac_fun option \<Rightarrow> nat \<Rightarrow> oid \<Rightarrow> oid \<Rightarrow> ('c, 'z) mib_node_scheme \<Rightarrow> unit res" where
  "node_readTest branch visit ac idx name self n =
     (if name = self then read_check ac idx (mn_maxAccess n) (mn_syntax n) name
      else (case branch name of None \<Rightarrow> Inr () | Some (k, c) \<Rightarrow> visit k c))"

definition scalar_readTest :: "(oid \<Rightarrow> (oid \<times> mib_instance) option) \<Rightarrow> ac_fun option \<Rightarrow> nat \<Rightarrow> oid \<Rightarrow> oid \<Rightarrow>
  (mib_instance, 'z) mib_node_scheme \<Rightarrow> unit res" where
  "scalar_readTest branch ac idx name self n =
     (if name = self then Inl (smi_at NoAccessErr idx)
      else rbind (read_check ac idx (mn_maxAccess n) (mn_syntax n) name) (\<lambda>_.
        node_readTest branch (\<lambda>k c. instance_readTest idx name k c) ac idx name self n))"

definition scalar_readGet :: "(oid \<Rightarrow> (oid \<times> mib_instance) option) \<Rightarrow> nat \<Rightarrow> oid \<Rightarrow> var_bind res" where
  "scalar_readGet branch idx name =
     (case branch name of
        None \<Rightarrow> Inr (name, VNoSuchInstance)
      | Some (k, c) \<Rightarrow> instance_readGet idx name k c)"

definition scalar_walk :: "(oid \<Rightarrow> (oid \<times> mib_instance) option) \<Rightarrow>
  (nat \<Rightarrow> oid \<Rightarrow> oid \<Rightarrow> oid \<Rightarrow> mib_instance \<Rightarrow> 'r res) \<Rightarrow> ac_fun option \<Rightarrow> nat \<Rightarrow> oid \<Rightarrow> oid \<Rightarrow>
  (mib_instance, 'z) mib_node_scheme \<Rightarrow> 'r res" where
  "scalar_walk branch read ac idx oName name n =
     rbind (read_check ac idx (mn_maxAccess n) (mn_syntax n) name) (\<lambda>_.
       walk_loop branch (mn_vars n) (read idx oName) (Inl (smi_at NoSuchInstanceErr idx)) True name)"

definition column_readTest :: "ac_fun option \<Rightarrow> nat \<Rightarrow> oid \<Rightarrow> oid \<Rightarrow> mib_column \<Rightarrow> unit res" where
  "column_readTest ac idx name self col = scalar_readTest (column_getBranch (mn_vars col)) ac idx name self col"

definition column_readGet :: "nat \<Rightarrow> oid \<Rightarrow> mib_column \<Rightarrow> var_bind res" where
  "column_readGet idx name col = scalar_readGet (column_getBranch (mn_vars col)) idx name"

definition row_readGet :: "nat \<Rightarrow> oid \<Rightarrow> mib_row \<Rightarrow> var_bind res" where
  "row_readGet idx name row =
     (case getBranch (mn_vars row) name of
        None \<Rightarrow> Inr (name, VNoSuchObject)
      | Some (k, col) \<Rightarrow> column_readGet idx name col)"

fun branch_readTest :: "ac_fun option \<Rightarrow> nat \<Rightarrow> oid \<Rightarrow> oid \<Rightarrow> mib_branch \<Rightarrow> unit res" where
  "branch_readTest ac idx name self (Scalar n) = scalar_readTest (getBranch (mn_vars n)) ac idx name self n"
| "branch_readTest ac idx name self (Row row) =
     node_readTest (getBranch (mn_vars row)) (column_readTest ac idx name) ac idx name self row"
| "branch_readTest ac idx name self (Table t) =
     node_readTest (getBranch (mn_vars t)) (\<lambda>k c. Inr ()) ac idx name self t"

fun branch_readGet :: "nat \<Rightarrow> oid \<Rightarrow> mib_branch \<Rightarrow> var_bind res" where
  "branch_readGet idx name (Scalar n) = scalar_readGet (getBranch (mn_vars n)) idx name"
| "branch_readGet idx name (Row row) = row_readGet idx name row"
| "branch_readGet idx name (Table t) = Inr (name, VNoSuchObject)"

fun branch_walk :: "(nat \<Rightarrow> oid \<Rightarrow> oid \<Rightarrow> oid \<Rightarrow> mib_instance \<Rightarrow> 'r res) \<Rightarrow> ac_fun option \<Rightarrow> nat \<Rightarrow>
  oid \<Rightarrow> oid \<Rightarrow> mib_branch \<Rightarrow> 'r res" where
  "branch_walk read ac idx oName name (Scalar n) = scalar_walk (getBranch (mn_vars n)) read ac idx oName name n"
| "branch_walk read ac idx oName name (Row row) =
     walk_loop (getBranch (mn_vars row)) (mn_vars row)
       (\<lambda>name k col. scalar_walk (column_getBranch (mn_vars col)) read ac idx oName name col)
       (Inl (smi_at NoSuchObjectErr idx)) True name"
| "branch_walk read ac idx oName name (Table t) =
     walk_loop (getBranch (mn_vars t)) (mn_vars t) (\<lambda>name k u. Inl (smi_at NoSuchObjectErr idx))
       (Inl (smi_at NoSuchObjectErr idx)) True name"

subsection \<open>The root\<close>

definition mib_readTest :: "ac_fun option \<Rightarrow> oid \<Rightarrow> nat \<Rightarrow> oid \<Rightarrow> mib_tree \<Rightarrow> unit res" where
  "mib_readTest ac self idx name t =
     node_readTest (getBranch (mn_vars t)) (branch_readTest ac idx name) ac idx name self t"

definition mib_readGet :: "nat \<Rightarrow> oid \<Rightarrow> mib_tree \<Rightarrow> var_bind res" where
  "mib_readGet idx name t =
     (case getBranch (mn_vars t) name of
        None \<Rightarrow> Inr (name, VNoSuchObject)
      | Some (k, b) \<Rightarrow> branch_readGet idx name b)"

definition mib_walk :: "(nat \<Rightarrow> oid \<Rightarrow> oid \<Rightarrow> oid \<Rightarrow> mib_instance \<Rightarrow> 'r res) \<Rightarrow> 'r \<Rightarrow> ac_fun option \<Rightarrow>
  nat \<Rightarrow> oid \<Rightarrow> mib_tree \<Rightarrow> 'r res" where
  "mib_walk read at_end ac idx name t =
     walk_loop (getBranch (mn_vars t)) (mn_vars t) (\<lambda>n k b. branch_walk read ac idx name n b)
       (Inr at_end) True name"

definition mib_readTestNext :: "ac_fun option \<Rightarrow> nat \<Rightarrow> oid \<Rightarrow> mib_tree \<Rightarrow> unit res" where
  "mib_readTestNext = mib_walk instance_readTestNext ()"

definition mib_readGetNext :: "ac_fun option \<Rightarrow> nat \<Rightarrow> oid \<Rightarrow> mib_tree \<Rightarrow> var_bind res" where
  "mib_readGetNext ac idx name = mib_walk instance_readGetNext (name, VEndOfMibView) ac idx name"

end
