(* ===== verification/Mib_Index.thy ===== *)
theory Mib_Index
  imports Mib_Tree Usage_Cache
begin

text \<open>
  Table indices: how \<open>MibTableRow\<close> of \<open>smi/mibs/SNMPv2-SMI.py\<close> writes index values into the
  instance part of a name and reads them back (\<open>setFromName\<close>, \<open>getAsName\<close>,
  \<open>getIndicesFromInstId\<close>, \<open>getInstIdFromIndices\<close>), with the two caches it keeps of the results.
  Index columns have the base types; a syntax that converts itself (\<open>cloneFromName\<close>) and BITS
  are left out, and so are negative integers, which no object identifier can hold. The locale
  \<open>memo\<close> is what the two functions need of a cache, met by \<open>pysnmp/cache.py\<close>.
\<close>

section \<open>One index\<close>

definition ix_value :: "index_name \<Rightarrow> snmp_value \<Rightarrow> snmp_value res" where
  "ix_value ix v = of_option PyAsn1Error (ix_clone ix v)"

text \<open>\<open>obj.clone(tuple(numbers))\<close> of an octet string.\<close>

definition octets_of :: "oid \<Rightarrow> octets res" where
  "octets_of ns = (if \<forall>n \<in> set ns. n < 256 then Inr (map of_nat ns) else Inl ValueError)"

text \<open>The dotted form of some numbers, and \<open>IpAddress.prettyIn\<close> of it: a text of four characters
  is taken for the four octets themselves.\<close>

fun decimal :: "nat \<Rightarrow> octets" where
  "decimal n = (if n < 10 then [of_nat (48 + n)] else decimal (n div 10) @ [of_nat (48 + n mod 10)])"

declare decimal.simps [simp del]

fun dotted :: "oid \<Rightarrow> octets" where
  "dotted [] = []"
| "dotted [n] = decimal n"
| "dotted (n # ns) = decimal n @ [46] @ dotted ns"

definition ipAddress_of :: "oid \<Rightarrow> octets res" where
  "ipAddress_of ns =
     (if length (dotted ns) = 4 then Inr (dotted ns)
      else rbind (octets_of ns) (\<lambda>s. if length s = 4 then Inr s else Inl ProtocolError))"

definition setFromName :: "index_name \<Rightarrow> oid \<Rightarrow> (snmp_value \<times> oid) res" where
  "setFromName ix value =
     (case value of
        [] \<Rightarrow> Inl (SmiError SmiErr no_smi)
      | n # ns \<Rightarrow>
          (case ix_type ix of
             IxInteger \<Rightarrow> rbind (ix_value ix (VInteger (int n))) (\<lambda>v. Inr (v, ns))
           | IxIpAddress \<Rightarrow>
               rbind (ipAddress_of (take 4 value)) (\<lambda>s. rbind (ix_value ix (VIpAddress s)) (\<lambda>v. Inr (v, drop 4 value)))
           | IxOctetString fixedLength \<Rightarrow>
               let (used, rest) =
                 (if ix_implied ix then (value, [])
                  else case fixedLength of
                    Some len \<Rightarrow> (take len value, drop len value)
                  | None \<Rightarrow> (take n ns, drop n ns))
               in rbind (octets_of used) (\<lambda>s. rbind (ix_value ix (VOctetString s)) (\<lambda>v. Inr (v, rest)))
           | IxObjectIdentifier \<Rightarrow>
               let (used, rest) = (if ix_implied ix then (value, []) else (take n ns, drop n ns))
               in rbind (ix_value ix (VObjectIdentifier used)) (\<lambda>v. Inr (v, rest))))"

definition getAsName :: "index_name \<Rightarrow> snmp_value \<Rightarrow> oid res" where
  "getAsName ix obj =
     (case (ix_type ix, obj) of
        (IxInteger, VInteger n) \<Rightarrow> Inr [nat n]
      | (IxIpAddress, VIpAddress s) \<Rightarrow> Inr (map unat s)
      | (IxOctetString fixedLength, VOctetString s) \<Rightarrow>
          Inr ((if ix_implied ix \<or> fixedLength \<noteq> None then [] else [length s]) @ map unat s)
      | (IxObjectIdentifier, VObjectIdentifier name) \<Rightarrow>
          Inr ((if ix_implied ix then [] else [length name]) @ name)
      | _ \<Rightarrow> Inl (SmiError SmiErr no_smi))"

section \<open>All indices of a row\<close>

text \<open>
  What \<open>getIndicesFromInstId\<close> returns: the index values, or, when one of them does not fit, the
  part of the name that was left at that point.
\<close>

datatype index_result = Indices "snmp_value list" | Unresolved oid

fun parse_indices :: "index_name list \<Rightarrow> oid \<Rightarrow> snmp_value list \<Rightarrow> index_result res" where
  "parse_indices [] instId indices =
     (if instId = [] then Inr (Indices indices) else Inl (SmiError SmiErr no_smi))"
| "parse_indices (ix # ixs) instId indices =
     (case setFromName ix instId of
        Inr (v, rest) \<Rightarrow> parse_indices ixs rest (indices @ [v])
      | Inl e \<Rightarrow> if is_PyAsn1Error e then Inr (Unresolved instId) else Inl e)"

fun build_instId :: "index_name list \<Rightarrow> snmp_value list \<Rightarrow> oid res" where
  "build_instId (ix # ixs) (v # vs) =
     rbind (ix_value ix v) (\<lambda>obj. rbind (getAsName ix obj) (\<lambda>name.
     rbind (build_instId ixs vs) (\<lambda>rest. Inr (name @ rest))))"
| "build_instId _ _ = Inr []"

record index_caches =
  ic_idToIdx :: "(oid, snmp_value list) ucache"
  ic_idxToId :: "(snmp_value list, oid) ucache"

definition on_idToIdx :: "((oid, snmp_value list) ucache, 'a) sm \<Rightarrow> (index_caches, 'a) sm" where
  "on_idToIdx m s = (case m (ic_idToIdx s) of (r, c) \<Rightarrow> (r, s\<lparr>ic_idToIdx := c\<rparr>))"

definition on_idxToId :: "((snmp_value list, oid) ucache, 'a) sm \<Rightarrow> (index_caches, 'a) sm" where
  "on_idxToId m s = (case m (ic_idxToId s) of (r, c) \<Rightarrow> (r, s\<lparr>ic_idxToId := c\<rparr>))"

definition getIndicesFromInstId :: "index_name list \<Rightarrow> oid \<Rightarrow> (index_caches, index_result) sm" where
  "getIndicesFromInstId ixs instId s =
     (if ucache_contains (ic_idToIdx s) instId
      then sbind (on_idToIdx (ucache_getitem instId)) (\<lambda>vs. sret (Indices vs)) s
      else (case parse_indices ixs instId [] of
              Inl e \<Rightarrow> (Inl e, s)
            | Inr (Unresolved rest) \<Rightarrow> (Inr (Unresolved rest), s)
            | Inr (Indices vs) \<Rightarrow>
                sbind (on_idToIdx (ucache_setitem instId vs)) (\<lambda>_. sret (Indices vs)) s))"

definition getInstIdFromIndices :: "index_name list \<Rightarrow> snmp_value list \<Rightarrow> (index_caches, oid) sm" where
  "getInstIdFromIndices ixs indices =
     scatch (on_idxToId (ucache_getitem indices))
       (\<lambda>e. if e = KeyError then
              sbind (sres (build_instId ixs indices)) (\<lambda>instId.
              sbind (on_idxToId (ucache_setitem indices instId)) (\<lambda>_. sret instId))
            else sraise e)"

definition getInstName :: "oid \<Rightarrow> nat \<Rightarrow> oid \<Rightarrow> oid" where
  "getInstName self colId instId = self @ [colId] @ instId"

definition getInstNameByIndex :: "index_name list \<Rightarrow> oid \<Rightarrow> nat \<Rightarrow> snmp_value list \<Rightarrow> (index_caches, oid) sm" where
  "getInstNameByIndex ixs self colId indices =
     sbind (getInstIdFromIndices ixs indices) (\<lambda>instId. sret (getInstName self colId instId))"

text \<open>\<open>getCellOid\<close> wants a column of the row and all of its indices.\<close>

definition getCellOid :: "index_name list \<Rightarrow> oid \<Rightarrow> nat list \<Rightarrow> nat \<Rightarrow> snmp_value list \<Rightarrow> (index_caches, oid) sm" where
  "getCellOid ixs self columns colId indices =
     (if colId \<notin> set columns \<or> length indices \<noteq> length ixs then sraise (SmiError SmiErr no_smi)
      else getInstNameByIndex ixs self colId indices)"

section \<open>Round trip of one index\<close>

text \<open>A value that fits an index: of its type and accepted as it is, and written by at least one number.\<close>

definition index_ok :: "index_name \<Rightarrow> snmp_value \<Rightarrow> bool" where
  "index_ok ix v \<longleftrightarrow> ix_clone ix v = Some v \<and>
     (case (ix_type ix, v) of
        (IxInteger, VInteger n) \<Rightarrow> 0 \<le> n
      | (IxIpAddress, VIpAddress s) \<Rightarrow> length s = 4
      | (IxOctetString fixedLength, VOctetString s) \<Rightarrow>
          (case fixedLength of Some len \<Rightarrow> length s = len | None \<Rightarrow> True) \<and>
          (ix_implied ix \<or> fixedLength \<noteq> None \<longrightarrow> s \<noteq> [])
      | (IxObjectIdentifier, VObjectIdentifier name) \<Rightarrow> ix_implied ix \<longrightarrow> name \<noteq> []
      | _ \<Rightarrow> False)"

lemma octets_of_unat [simp]: "octets_of (map unat s) = Inr s"
proof -
  have "unat (w :: 8 word) < 256" for w using unsigned_less [of w, where 'a = nat] by simp
  then show ?thesis by (auto simp: octets_of_def comp_def)
qed

lemma decimal_nonempty: "1 \<le> length (decimal n)"
  by (subst decimal.simps) auto

lemma dotted_length: "ns \<noteq> [] \<Longrightarrow> 2 * length ns \<le> length (dotted ns) + 1"
proof (induction ns rule: dotted.induct)
  case (2 n)
  then show ?case using decimal_nonempty [of n] by simp
next
  case (3 n m ns)
  then show ?case using decimal_nonempty [of n] by simp
qed simp

lemma ipAddress_of_unat:
  assumes "length s = 4"
  shows "ipAddress_of (map unat s) = Inr s"
proof -
  have "length (dotted (map unat s)) \<noteq> 4" using dotted_length [of "map unat s"] assms by fastforce
  then show ?thesis using assms by (simp add: ipAddress_of_def)
qed

lemma index_roundtrip_one:
  assumes "index_ok ix v" and "ix_implied ix \<Longrightarrow> rest = []"
  shows "\<exists>name. getAsName ix v = Inr name \<and> setFromName ix (name @ rest) = Inr (v, rest)"
proof (cases "ix_type ix")
  case IxInteger
  with assms show ?thesis
    by (cases v) (auto simp: index_ok_def getAsName_def setFromName_def ix_value_def)
next
  case IxIpAddress
  then obtain s where s: "v = VIpAddress s" "length s = 4"
    using assms(1) by (cases v) (auto simp: index_ok_def)
  then obtain b s' where "s = b # s'" by (cases s) auto
  with s IxIpAddress assms(1) ipAddress_of_unat [of s] show ?thesis
    by (auto simp: index_ok_def getAsName_def setFromName_def ix_value_def)
next
  case (IxOctetString fixedLength)
  then obtain s where s: "v = VOctetString s" using assms(1) by (cases v) (auto simp: index_ok_def)
  show ?thesis
  proof (cases "ix_implied ix \<or> fixedLength \<noteq> None")
    case True
    then obtain b s' where b: "s = b # s'" using assms(1) s IxOctetString by (cases s) (auto simp: index_ok_def)
    with True s IxOctetString assms octets_of_unat [of s] show ?thesis
      by (cases fixedLength) (auto simp: index_ok_def getAsName_def setFromName_def ix_value_def)
  next
    case False
    with s IxOctetString assms(1) show ?thesis
      by (auto simp: index_ok_def getAsName_def setFromName_def ix_value_def)
  qed
next
  case IxObjectIdentifier
  then obtain name where n: "v = VObjectIdentifier name" using assms(1) by (cases v) (auto simp: index_ok_def)
  with IxObjectIdentifier assms show ?thesis
    by (cases name) (auto simp: index_ok_def getAsName_def setFromName_def ix_value_def)
qed

section \<open>Round trip of all indices\<close>

definition indices_ok :: "index_name list \<Rightarrow> snmp_value list \<Rightarrow> bool" where
  "indices_ok ixs vs \<longleftrightarrow> list_all2 index_ok ixs vs \<and> (\<forall>ix \<in> set (butlast ixs). \<not> ix_implied ix)"

lemma indices_ok_Cons:
  "indices_ok (ix # ixs) vs \<longleftrightarrow> (\<exists>v vs'. vs = v # vs' \<and> index_ok ix v \<and> indices_ok ixs vs' \<and>
    (ix_implied ix \<longrightarrow> ixs = []))"
  by (cases vs) (auto simp: indices_ok_def)

lemma build_parse:
  assumes "indices_ok ixs vs"
  shows "\<exists>instId. build_instId ixs vs = Inr instId \<and>
    parse_indices ixs instId acc = Inr (Indices (acc @ vs))"
  using assms
proof (induction ixs arbitrary: vs acc)
  case Nil
  then show ?case by (simp add: indices_ok_def)
next
  case (Cons ix ixs)
  then obtain v vs' where v: "vs = v # vs'" "index_ok ix v" "indices_ok ixs vs'" "ix_implied ix \<longrightarrow> ixs = []"
    by (auto simp: indices_ok_Cons)
  then obtain rest where rest: "build_instId ixs vs' = Inr rest"
      "parse_indices ixs rest (acc @ [v]) = Inr (Indices ((acc @ [v]) @ vs'))"
    using Cons.IH by blast
  have "ix_implied ix \<Longrightarrow> rest = []" using v(4) rest(1) by auto
  then obtain name where "getAsName ix v = Inr name" "setFromName ix (name @ rest) = Inr (v, rest)"
    using index_roundtrip_one [OF v(2)] by blast
  with v rest show ?case by (auto simp: index_ok_def ix_value_def)
qed

section \<open>Memoisation\<close>

locale memo =
  fixes get :: "'k \<Rightarrow> ('s, 'v) sm"
    and put :: "'k \<Rightarrow> 'v \<Rightarrow> ('s, unit) sm"
    and view :: "'s \<Rightarrow> 'k \<rightharpoonup> 'v"
    and inv :: "'s \<Rightarrow> bool"
  assumes get_hit: "inv s \<Longrightarrow> view s k = Some v \<Longrightarrow>
      \<exists>s'. get k s = (Inr v, s') \<and> inv s' \<and> view s' = view s"
    and get_miss: "inv s \<Longrightarrow> view s k = None \<Longrightarrow> get k s = (Inl KeyError, s)"
    and put_ok: "inv s \<Longrightarrow> \<exists>s'. put k v s = (Inr (), s') \<and> inv s' \<and> view s' \<subseteq>\<^sub>m (view s)(k \<mapsto> v)"
begin

text \<open>A cache is sound for a function when it only holds its results; storing one keeps it so.\<close>

definition sound :: "('k \<Rightarrow> 'v res) \<Rightarrow> 's \<Rightarrow> bool" where
  "sound f s \<longleftrightarrow> inv s \<and> (\<forall>k v. view s k = Some v \<longrightarrow> f k = Inr v)"

lemma sound_get: "sound f s \<Longrightarrow> view s k = Some v \<Longrightarrow> \<exists>s'. get k s = (Inr v, s') \<and> sound f s' \<and> f k = Inr v"
  unfolding sound_def using get_hit by metis

lemma sound_put:
  assumes "sound f s" and "f k = Inr v"
  shows "\<exists>s'. put k v s = (Inr (), s') \<and> sound f s'"
proof -
  obtain s' where s': "put k v s = (Inr (), s')" "inv s'" "view s' \<subseteq>\<^sub>m (view s)(k \<mapsto> v)"
    using put_ok assms(1) unfolding sound_def by blast
  have "f j = Inr w" if "view s' j = Some w" for j w
  proof -
    have "((view s)(k \<mapsto> v)) j = Some w" using s'(3) that by (metis map_le_def domI)
    then show ?thesis using assms by (auto simp: sound_def split: if_splits)
  qed
  with s' show ?thesis by (auto simp: sound_def)
qed

end

interpretation uc: memo ucache_getitem ucache_setitem uc_cache ucache_inv
proof unfold_locales
  fix c :: "('k, 'v) ucache" and k v
  assume c: "ucache_inv c"
  show "\<exists>c'. ucache_getitem k c = (Inr v, c') \<and> ucache_inv c' \<and> uc_cache c' = uc_cache c"
    if "uc_cache c k = Some v"
    using ucache_getitem_ok [OF c that] by auto
  show "ucache_getitem k c = (Inl KeyError, c)" if "uc_cache c k = None"
  proof -
    have "dom (uc_cache c) = fst ` set (uc_usage c)" using c by (simp add: ucache_inv_def)
    then have "map_of (uc_usage c) k = None" using that by (metis domIff map_of_eq_None_iff)
    then show ?thesis by (simp add: ucache_getitem_def)
  qed
  show "\<exists>c'. ucache_setitem k v c = (Inr (), c') \<and> ucache_inv c' \<and> uc_cache c' \<subseteq>\<^sub>m (uc_cache c)(k \<mapsto> v)"
    by (rule ucache_setitem_ok [OF c, of k v]) (auto simp: map_le_def split: if_splits)
qed

text \<open>Both caches of a row hold only what their functions would compute.\<close>

definition parsed :: "index_name list \<Rightarrow> oid \<Rightarrow> snmp_value list res" where
  "parsed ixs instId =
     rbind (parse_indices ixs instId [])
       (\<lambda>r. case r of Indices vs \<Rightarrow> Inr vs | Unresolved rest \<Rightarrow> Inl (SmiError SmiErr no_smi))"

definition caches_ok :: "index_name list \<Rightarrow> index_caches \<Rightarrow> bool" where
  "caches_ok ixs s \<longleftrightarrow> uc.sound (parsed ixs) (ic_idToIdx s) \<and> uc.sound (build_instId ixs) (ic_idxToId s)"

lemma getInstIdFromIndices_ok:
  assumes "caches_ok ixs s" and "build_instId ixs vs = Inr instId"
  shows "\<exists>s'. getInstIdFromIndices ixs vs s = (Inr instId, s') \<and> caches_ok ixs s'"
proof (cases "uc_cache (ic_idxToId s) vs")
  case None
  have g: "ucache_getitem vs (ic_idxToId s) = (Inl KeyError, ic_idxToId s)"
    using uc.get_miss None assms(1) by (auto simp: caches_ok_def uc.sound_def)
  obtain c where "ucache_setitem vs instId (ic_idxToId s) = (Inr (), c)" "uc.sound (build_instId ixs) c"
    using uc.sound_put assms by (metis caches_ok_def)
  with g assms show ?thesis
    by (auto simp: getInstIdFromIndices_def on_idxToId_def scatch_def sbind_def sres_def sret_def caches_ok_def)
next
  case (Some w)
  then obtain c where "ucache_getitem vs (ic_idxToId s) = (Inr w, c)" "uc.sound (build_instId ixs) c"
      "build_instId ixs vs = Inr w"
    using uc.sound_get assms(1) by (metis caches_ok_def)
  with assms show ?thesis
    by (auto simp: getInstIdFromIndices_def on_idxToId_def scatch_def caches_ok_def)
qed

lemma getIndicesFromInstId_ok:
  assumes "caches_ok ixs s" and "parse_indices ixs instId [] = Inr (Indices vs)"
  shows "\<exists>s'. getIndicesFromInstId ixs instId s = (Inr (Indices vs), s') \<and> caches_ok ixs s'"
proof (cases "uc_cache (ic_idToIdx s) instId")
  case None
  have "parsed ixs instId = Inr vs" using assms(2) by (simp add: parsed_def)
  then obtain c where "ucache_setitem instId vs (ic_idToIdx s) = (Inr (), c)" "uc.sound (parsed ixs) c"
    using uc.sound_put assms(1) by (metis caches_ok_def)
  with None assms show ?thesis
    by (auto simp: getIndicesFromInstId_def ucache_contains_def on_idToIdx_def sbind_def sret_def caches_ok_def)
next
  case (Some w)
  then obtain c where "ucache_getitem instId (ic_idToIdx s) = (Inr w, c)" "uc.sound (parsed ixs) c"
      "parsed ixs instId = Inr w"
    using uc.sound_get assms(1) by (metis caches_ok_def)
  with Some assms show ?thesis
    by (auto simp: getIndicesFromInstId_def ucache_contains_def on_idToIdx_def sbind_def sret_def caches_ok_def
        parsed_def)
qed

text \<open>
  (C13) Index values survive the way into an object identifier and back. The instance part of a
  name built from the values of a row's indices is read back as the same values, for any mix of
  integers, addresses, strings of fixed and of variable length and object identifiers, an
  implied length being allowed for the last one; and the caches of both directions never
  change the result.
\<close>

theorem index_roundtrip:
  assumes "caches_ok ixs s" and "indices_ok ixs vs"
  shows "\<exists>instId s' s''. getInstIdFromIndices ixs vs s = (Inr instId, s') \<and>
    getIndicesFromInstId ixs instId s' = (Inr (Indices vs), s'') \<and> caches_ok ixs s''"
proof -
  obtain instId where "build_instId ixs vs = Inr instId" "parse_indices ixs instId [] = Inr (Indices vs)"
    using build_parse [OF assms(2), of "[]"] by auto
  then show ?thesis
    using getInstIdFromIndices_ok [OF assms(1)] getIndicesFromInstId_ok by (metis (full_types))
qed

theorem index_roundtrip_witness:
  "\<exists>instId s' s''.
    getInstIdFromIndices [\<lparr>ix_implied = False, ix_column = [1, 1], ix_type = IxInteger, ix_clone = Some\<rparr>,
        \<lparr>ix_implied = True, ix_column = [1, 2], ix_type = IxOctetString None, ix_clone = Some\<rparr>]
      [VInteger 5, VOctetString [97, 98]] \<lparr>ic_idToIdx = ucache_init 256, ic_idxToId = ucache_init 256\<rparr> =
      (Inr instId, s') \<and>
    getIndicesFromInstId [\<lparr>ix_implied = False, ix_column = [1, 1], ix_type = IxInteger, ix_clone = Some\<rparr>,
        \<lparr>ix_implied = True, ix_column = [1, 2], ix_type = IxOctetString None, ix_clone = Some\<rparr>]
      instId s' = (Inr (Indices [VInteger 5, VOctetString [97, 98]]), s'')"
proof -
  let ?ixs = "[\<lparr>ix_implied = False, ix_column = [1, 1], ix_type = IxInteger, ix_clone = Some\<rparr>,
        \<lparr>ix_implied = True, ix_column = [1, 2], ix_type = IxOctetString None, ix_clone = Some\<rparr>]"
  let ?s = "\<lparr>ic_idToIdx = ucache_init 256, ic_idxToId = ucache_init 256\<rparr>"
  have "caches_ok ?ixs ?s"
    by (simp add: caches_ok_def uc.sound_def ucache_inv_init) (simp add: ucache_init_def)
  moreover have "indices_ok ?ixs [VInteger 5, VOctetString [97, 98]]"
    by (simp add: indices_ok_def index_ok_def)
  ultimately show ?thesis using index_roundtrip by blast
qed

end
