(* ===== verification/Mib_Write.thy ===== *)
theory Mib_Write
  imports Mib_Index
begin

text \<open>
  The operations of \<open>smi/mibs/SNMPv2-SMI.py\<close> that write: the four phases \<open>writeTest\<close>,
  \<open>writeCommit\<close>, \<open>writeCleanup\<close> and \<open>writeUndo\<close> of a SET on instances, scalars, columns and rows,
  and the creation and destruction of table rows that a write to a status column sets off,
  with the rows that augment another one. Each operation changes the object it is called on
  and may raise. A value that is absent is the default the creation of a row asks for.
\<close>

section \<open>Instances\<close>

text \<open>
  The common start of \<open>writeTest\<close>, \<open>createTest\<close> and \<open>destroyTest\<close>: the value is tried, and what it
  makes of the syntax is kept, also when the error that is raised brings a syntax along.
\<close>

definition instance_try :: "nat \<Rightarrow> snmp_value option \<Rightarrow> (mib_instance, unit) sm" where
  "instance_try idx val inst =
     (case in_syntax inst of
        None \<Rightarrow> (Inl AttributeError, inst)
      | Some sx \<Rightarrow>
          (case instance_setValue val idx sx of
             Inr sx' \<Rightarrow> (Inr (), inst\<lparr>in_newSyntax := Some (Some sx')\<rparr>)
           | Inl (SmiError c d) \<Rightarrow>
               (case sd_syntax d of
                  Some n \<Rightarrow> (Inl (SmiError c d), inst\<lparr>in_newSyntax := Some (Some (sx\<lparr>sx_value := Some (VInteger n)\<rparr>))\<rparr>)
                | None \<Rightarrow> (Inl (smi_at WrongValueErr idx), inst))
           | Inl e \<Rightarrow> (Inl e, inst)))"

definition instance_writeTest :: "nat \<Rightarrow> oid \<Rightarrow> oid \<Rightarrow> snmp_value option \<Rightarrow> (mib_instance, unit) sm" where
  "instance_writeTest idx self name val =
     (if name = self then instance_try idx val else sraise (smi_at NoSuchInstanceErr idx))"

fun carries_syntax :: "exn \<Rightarrow> bool" where
  "carries_syntax (SmiError c d) = (sd_syntax d \<noteq> None)"
| "carries_syntax _ = False"

definition instance_createTest :: "nat \<Rightarrow> oid \<Rightarrow> oid \<Rightarrow> snmp_value option \<Rightarrow> (mib_instance, unit) sm" where
  "instance_createTest idx self name val =
     (if name = self
      then scatch (instance_try idx val) (\<lambda>e. if carries_syntax e then sret () else sraise e)
      else sraise (smi_at NoSuchInstanceErr idx))"

definition instance_destroyTest :: "nat \<Rightarrow> oid \<Rightarrow> oid \<Rightarrow> snmp_value option \<Rightarrow> (mib_instance, unit) sm" where
  "instance_destroyTest idx self name val =
     (if name = self
      then scatch (instance_try idx val) (\<lambda>e. if is_SmiError e then sret () else sraise e)
      else sraise (smi_at NoSuchInstanceErr idx))"

definition instance_writeCommit :: "(mib_instance, unit) sm" where
  "instance_writeCommit inst =
     (let inst = (if in_oldSyntax inst = None then inst\<lparr>in_oldSyntax := in_syntax inst\<rparr> else inst)
      in case in_newSyntax inst of
           None \<Rightarrow> (Inl AttributeError, inst)
         | Some sx \<Rightarrow> (Inr (), inst\<lparr>in_syntax := sx\<rparr>))"

definition instance_writeCleanup :: "(mib_instance, unit) sm" where
  "instance_writeCleanup = smodify (\<lambda>inst. inst\<lparr>in_branchVersionId := in_branchVersionId inst + 1,
     in_newSyntax := Some None, in_oldSyntax := None\<rparr>)"

definition instance_writeUndo :: "(mib_instance, unit) sm" where
  "instance_writeUndo = smodify (\<lambda>inst. inst\<lparr>in_syntax := in_oldSyntax inst,
     in_newSyntax := Some None, in_oldSyntax := None\<rparr>)"

definition bump_instance :: "(mib_instance, unit) sm" where
  "bump_instance = smodify (\<lambda>inst. inst\<lparr>in_branchVersionId := in_branchVersionId inst + 1\<rparr>)"

definition instance_createCommit :: "snmp_value option \<Rightarrow> (mib_instance, unit) sm" where
  "instance_createCommit val = (if val \<noteq> None then instance_writeCommit else sret ())"

definition instance_createCleanup :: "snmp_value option \<Rightarrow> (mib_instance, unit) sm" where
  "instance_createCleanup val = sbind bump_instance (\<lambda>_. if val \<noteq> None then instance_writeCleanup else sret ())"

definition instance_createUndo :: "snmp_value option \<Rightarrow> (mib_instance, unit) sm" where
  "instance_createUndo val = (if val \<noteq> None then instance_writeUndo else sret ())"

section \<open>Changing a child in place\<close>

definition bump :: "(('c, 'z) mib_node_scheme, unit) sm" where
  "bump = smodify (\<lambda>n. n\<lparr>mn_branchVersionId := mn_branchVersionId n + 1\<rparr>)"

definition on_child :: "oid \<Rightarrow> ('c, 'a) sm \<Rightarrow> (('c, 'z) mib_node_scheme, 'a) sm" where
  "on_child k m n =
     (case map_of (mn_vars n) k of
        None \<Rightarrow> (Inl KeyError, n)
      | Some c \<Rightarrow> (case m c of (r, c') \<Rightarrow> (r, n\<lparr>mn_vars := AList.update k c' (mn_vars n)\<rparr>)))"

text \<open>\<open>self.getBranch(name, idx).operation(...)\<close>\<close>

definition on_branch :: "((oid, 'c) odict \<Rightarrow> oid \<Rightarrow> (oid \<times> 'c) option) \<Rightarrow> exn \<Rightarrow> oid \<Rightarrow> (oid \<Rightarrow> ('c, 'a) sm) \<Rightarrow>
  (('c, 'z) mib_node_scheme, 'a) sm" where
  "on_branch find_branch missing name m n =
     (case find_branch (mn_vars n) name of
        None \<Rightarrow> (Inl missing, n)
      | Some (k, c) \<Rightarrow> on_child k (m k) n)"

definition write_check :: "ac_fun option \<Rightarrow> nat \<Rightarrow> max_access \<Rightarrow> mib_syntax option \<Rightarrow> oid \<Rightarrow> unit res" where
  "write_check ac idx access sx name =
     (case ac of
        None \<Rightarrow> Inr ()
      | Some acFun \<Rightarrow>
          if access \<notin> {readwrite, readcreate} then Inl (smi_at NotWritableErr idx)
          else rbind (acFun name sx idx write_view) (\<lambda>refused.
            if refused then Inl (smi_at NotWritableErr idx) else Inr ()))"

section \<open>Scalars\<close>

text \<open>\<open>MibScalar.writeTest\<close>, which columns inherit with a search of their own.\<close>

definition scalar_writeTest :: "((oid, mib_instance) odict \<Rightarrow> oid \<Rightarrow> (oid \<times> mib_instance) option) \<Rightarrow>
  ac_fun option \<Rightarrow> nat \<Rightarrow> oid \<Rightarrow> oid \<Rightarrow> snmp_value option \<Rightarrow> ((mib_instance, 'z) mib_node_scheme, unit) sm" where
  "scalar_writeTest find_branch ac idx self name val n =
     (if name = self then (Inl (smi_at NoAccessErr idx), n)
      else sbind (sres (write_check ac idx (mn_maxAccess n) (mn_syntax n) name)) (\<lambda>_.
        on_branch find_branch (smi_at NoSuchInstanceErr idx) name
          (\<lambda>k. instance_writeTest idx k name val)) n)"

datatype phase = Test | Commit | Cleanup | Undo

text \<open>\<open>MibTree.writeCommit\<close>, \<open>writeCleanup\<close> and \<open>writeUndo\<close> on a scalar or a column.\<close>

fun scalar_write :: "((oid, mib_instance) odict \<Rightarrow> oid \<Rightarrow> (oid \<times> mib_instance) option) \<Rightarrow>
  phase \<Rightarrow> ac_fun option \<Rightarrow> nat \<Rightarrow> oid \<Rightarrow> oid \<Rightarrow> snmp_value option \<Rightarrow> ((mib_instance, 'z) mib_node_scheme, unit) sm" where
  "scalar_write find_branch Test ac idx self name val = scalar_writeTest find_branch ac idx self name val"
| "scalar_write find_branch Commit ac idx self name val =
     on_branch find_branch (smi_at NoSuchInstanceErr idx) name (\<lambda>k. instance_writeCommit)"
| "scalar_write find_branch Cleanup ac idx self name val =
     sbind bump (\<lambda>_. on_branch find_branch (smi_at NoSuchInstanceErr idx) name (\<lambda>k. instance_writeCleanup))"
| "scalar_write find_branch Undo ac idx self name val =
     on_branch find_branch (smi_at NoSuchInstanceErr idx) name (\<lambda>k. instance_writeUndo)"

section \<open>Columns\<close>

definition set_created :: "oid \<Rightarrow> mib_instance option option \<Rightarrow> mib_column \<Rightarrow> mib_column" where
  "set_created name x col = col\<lparr>mc_createdInstances := (mc_createdInstances col)(name := x)\<rparr>"

definition set_vars :: "oid \<Rightarrow> mib_instance option \<Rightarrow> mib_column \<Rightarrow> mib_column" where
  "set_vars name x col =
     col\<lparr>mn_vars := (case x of Some inst \<Rightarrow> AList.update name inst (mn_vars col) | None \<Rightarrow> AList.delete name (mn_vars col))\<rparr>"

text \<open>An operation on an instance under creation.\<close>

definition on_created :: "oid \<Rightarrow> (mib_instance, unit) sm \<Rightarrow> (mib_column, unit) sm" where
  "on_created name m col =
     (case mc_createdInstances col name of
        None \<Rightarrow> (Inl KeyError, col)
      | Some None \<Rightarrow> (Inl AttributeError, col)
      | Some (Some inst) \<Rightarrow> (case m inst of (r, inst') \<Rightarrow> (r, set_created name (Some (Some inst')) col)))"

text \<open>The check of \<open>createTest\<close> and \<open>destroyTest\<close>; the error differs.\<close>

definition row_check :: "smi_class \<Rightarrow> ac_fun option \<Rightarrow> nat \<Rightarrow> oid \<Rightarrow> snmp_value option \<Rightarrow> mib_column \<Rightarrow> unit res" where
  "row_check c ac idx name val col =
     (case ac of
        None \<Rightarrow> Inr ()
      | Some acFun \<Rightarrow>
          if val \<noteq> None \<and> mn_maxAccess col \<noteq> readcreate then Inl (smi_at c idx)
          else rbind (acFun name (mn_syntax col) idx write_view) (\<lambda>refused.
            if refused then Inl (smi_at c idx) else Inr ()))"

definition new_instance :: "mib_syntax \<Rightarrow> mib_instance" where
  "new_instance sx = \<lparr>in_syntax = Some sx, in_oldSyntax = None, in_newSyntax = None, in_branchVersionId = 0\<rparr>"

definition column_createTest :: "ac_fun option \<Rightarrow> nat \<Rightarrow> oid \<Rightarrow> oid \<Rightarrow> snmp_value option \<Rightarrow> (mib_column, unit) sm" where
  "column_createTest ac idx self name val col =
     (if name = self then (Inl (smi_at NoAccessErr idx), col)
      else (case row_check NoCreationErr ac idx name val col of
              Inl e \<Rightarrow> (Inl e, col)
            | Inr _ \<Rightarrow>
                if val = None \<and> mc_createdInstances col name \<noteq> None then (Inr (), col)
                else (case mn_syntax col of
                        None \<Rightarrow> (Inl AttributeError, col)
                      | Some sx \<Rightarrow>
                          on_created name (instance_createTest idx name name val)
                            (set_created name (Some (Some (new_instance sx))) col))))"

definition column_createCommit :: "oid \<Rightarrow> snmp_value option \<Rightarrow> (mib_column, unit) sm" where
  "column_createCommit name val col =
     (if map_of (mn_vars col) name \<noteq> None then
        (if mc_createdInstances col name \<noteq> None then on_child name (instance_createCommit val) col
         else (Inr (), col))
      else sbind (on_created name (instance_createCommit val)) (\<lambda>_ col.
        (Inr (), set_created name (Some None)
           (set_vars name (the (mc_createdInstances col name)) col))) col)"

definition column_createCleanup :: "oid \<Rightarrow> snmp_value option \<Rightarrow> (mib_column, unit) sm" where
  "column_createCleanup name val = sbind bump (\<lambda>_ col.
     case mc_createdInstances col name of
       Some None \<Rightarrow> (Inr (), set_created name None col)
     | Some (Some inst) \<Rightarrow>
         sbind (on_created name (instance_createCleanup val)) (\<lambda>_. smodify (set_created name None)) col
     | None \<Rightarrow>
         if map_of (mn_vars col) name \<noteq> None then on_child name (instance_createCleanup val) col else (Inr (), col))"

text \<open>The probe for a half-created instance is a comparison, which fails without a value.\<close>

definition column_createUndo :: "oid \<Rightarrow> snmp_value option \<Rightarrow> (mib_column, unit) sm" where
  "column_createUndo name val col =
     (case mc_createdInstances col name of
        None \<Rightarrow> (Inr (), col)
      | Some None \<Rightarrow> (Inr (), set_vars name None (set_created name None col))
      | Some (Some inst) \<Rightarrow>
          let col = set_vars name (Some inst) (set_created name None col)
          in if (case in_syntax inst of Some sx \<Rightarrow> sx_value sx = None | None \<Rightarrow> False) then (Inr (), set_vars name None col)
             else on_child name (instance_createUndo val) col)"

definition column_destroyTest :: "ac_fun option \<Rightarrow> nat \<Rightarrow> oid \<Rightarrow> oid \<Rightarrow> snmp_value option \<Rightarrow> (mib_column, unit) sm" where
  "column_destroyTest ac idx self name val col =
     (if name = self then (Inl (smi_at NoAccessErr idx), col)
      else if map_of (mn_vars col) name = None then (Inr (), col)
      else (case row_check NoAccessErr ac idx name val col of
              Inl e \<Rightarrow> (Inl e, col)
            | Inr _ \<Rightarrow> on_child name (instance_destroyTest idx name name val) col))"

definition column_destroyCommit :: "oid \<Rightarrow> (mib_column, unit) sm" where
  "column_destroyCommit name col =
     (case map_of (mn_vars col) name of
        None \<Rightarrow> (Inr (), col)
      | Some inst \<Rightarrow>
          (Inr (), set_vars name None (col\<lparr>mc_destroyedInstances := (mc_destroyedInstances col)(name \<mapsto> inst)\<rparr>)))"

text \<open>The instance that goes is counted up as well, which nothing can see.\<close>

definition column_destroyCleanup :: "oid \<Rightarrow> (mib_column, unit) sm" where
  "column_destroyCleanup name = sbind bump (\<lambda>_. smodify (\<lambda>col.
     col\<lparr>mc_destroyedInstances := (mc_destroyedInstances col)(name := None)\<rparr>))"

definition column_destroyUndo :: "oid \<Rightarrow> (mib_column, unit) sm" where
  "column_destroyUndo name col =
     (case mc_destroyedInstances col name of
        None \<Rightarrow> (Inr (), col)
      | Some inst \<Rightarrow>
          (Inr (), (set_vars name (Some inst) col)\<lparr>mc_destroyedInstances := (mc_destroyedInstances col)(name := None)\<rparr>))"

fun column_create :: "phase \<Rightarrow> ac_fun option \<Rightarrow> nat \<Rightarrow> oid \<Rightarrow> oid \<Rightarrow> snmp_value option \<Rightarrow> (mib_column, unit) sm" where
  "column_create Test ac idx self name val = column_createTest ac idx self name val"
| "column_create Commit ac idx self name val = column_createCommit name val"
| "column_create Cleanup ac idx self name val = column_createCleanup name val"
| "column_create Undo ac idx self name val = column_createUndo name val"

fun column_destroy :: "phase \<Rightarrow> ac_fun option \<Rightarrow> nat \<Rightarrow> oid \<Rightarrow> oid \<Rightarrow> snmp_value option \<Rightarrow> (mib_column, unit) sm" where
  "column_destroy Test ac idx self name val = column_destroyTest ac idx self name val"
| "column_destroy Commit ac idx self name val = column_destroyCommit name"
| "column_destroy Cleanup ac idx self name val = column_destroyCleanup name"
| "column_destroy Undo ac idx self name val = column_destroyUndo name"

definition want :: "oid \<Rightarrow> exn option \<Rightarrow> (mib_column, unit) sm" where
  "want name e = smodify (\<lambda>col. col\<lparr>mc_rowOpWanted := (mc_rowOpWanted col)(name := e)\<rparr>)"

definition raise_wanted :: "oid \<Rightarrow> (mib_column, unit) sm" where
  "raise_wanted name col =
     (case mc_rowOpWanted col name of None \<Rightarrow> (Inr (), col) | Some e \<Rightarrow> (Inl e, col))"

definition drop_wanted :: "oid \<Rightarrow> (mib_column, unit) sm" where
  "drop_wanted name col =
     (case mc_rowOpWanted col name of
        None \<Rightarrow> (Inr (), col)
      | Some e \<Rightarrow> (Inl e, col\<lparr>mc_rowOpWanted := (mc_rowOpWanted col)(name := None)\<rparr>))"

definition column_writeTest :: "ac_fun option \<Rightarrow> nat \<Rightarrow> oid \<Rightarrow> oid \<Rightarrow> snmp_value option \<Rightarrow> (mib_column, unit) sm" where
  "column_writeTest ac idx self name val =
     sbind (scatch (scalar_writeTest column_getBranch ac idx self name val)
       (\<lambda>e. if is_smi {NoSuchInstanceErr, RowCreationWanted} e then
              sbind (want name (Some (if is_smi {RowCreationWanted} e then e else SmiError RowCreationWanted no_smi)))
                (\<lambda>_. column_createTest ac idx self name val)
            else if is_smi {RowDestructionWanted} e then
              sbind (want name (Some (SmiError RowDestructionWanted no_smi)))
                (\<lambda>_. column_destroyTest ac idx self name val)
            else sraise e))
     (\<lambda>_. raise_wanted name)"

text \<open>\<open>__delegateWrite\<close>\<close>

definition delegateWrite :: "phase \<Rightarrow> ac_fun option \<Rightarrow> nat \<Rightarrow> oid \<Rightarrow> oid \<Rightarrow> snmp_value option \<Rightarrow> (mib_column, unit) sm" where
  "delegateWrite ph ac idx self name val col =
     (case mc_rowOpWanted col name of
        None \<Rightarrow> scalar_write column_getBranch ph ac idx self name val col
      | Some e \<Rightarrow>
          if is_smi {RowCreationWanted} e then column_create ph ac idx self name val col
          else if is_smi {RowDestructionWanted} e then column_destroy ph ac idx self name val col
          else (Inr (), col))"

fun column_write :: "phase \<Rightarrow> ac_fun option \<Rightarrow> nat \<Rightarrow> oid \<Rightarrow> oid \<Rightarrow> snmp_value option \<Rightarrow> (mib_column, unit) sm" where
  "column_write Test ac idx self name val = column_writeTest ac idx self name val"
| "column_write Commit ac idx self name val =
     sbind (delegateWrite Commit ac idx self name val) (\<lambda>_. raise_wanted name)"
| "column_write Cleanup ac idx self name val =
     sbind bump (\<lambda>_. sbind (delegateWrite Cleanup ac idx self name val) (\<lambda>_. drop_wanted name))"
| "column_write Undo ac idx self name val =
     sbind (\<lambda>col. if mc_rowOpWanted col name \<noteq> None
                  then want name (Some (SmiError RowDestructionWanted no_smi)) col else (Inr (), col))
       (\<lambda>_. sbind (delegateWrite Undo ac idx self name val) (\<lambda>_. drop_wanted name))"

section \<open>Rows\<close>

text \<open>The values of the index columns that an instance part of a name stands for.\<close>

fun index_vals :: "index_name list \<Rightarrow> oid \<Rightarrow> ((oid \<times> snmp_value) list \<times> oid) res" where
  "index_vals [] instId = Inr ([], instId)"
| "index_vals (ix # ixs) instId =
     rbind (setFromName ix instId) (\<lambda>(v, rest).
     rbind (index_vals ixs rest) (\<lambda>(vs, rest'). Inr ((ix_column ix, v) # vs, rest')))"

text \<open>Creation and destruction of a column's instance, the actions of \<open>__manageColumns\<close>.\<close>

datatype row_op = Create | Destroy

fun column_action :: "row_op \<Rightarrow> phase \<Rightarrow> ac_fun option \<Rightarrow> nat \<Rightarrow> oid \<Rightarrow> oid \<Rightarrow> snmp_value option \<Rightarrow> (mib_column, unit) sm" where
  "column_action Create = column_create"
| "column_action Destroy = column_destroy"

fun each_column :: "(oid \<Rightarrow> (mib_column, unit) sm) \<Rightarrow> oid list \<Rightarrow> (mib_row, unit) sm" where
  "each_column m [] = sret ()"
| "each_column m (k # ks) = sbind (on_child k (m k)) (\<lambda>_. each_column m ks)"

definition manageColumns :: "row_op \<Rightarrow> phase \<Rightarrow> ac_fun option \<Rightarrow> nat \<Rightarrow> oid \<Rightarrow> oid \<Rightarrow> (mib_row, unit) sm" where
  "manageColumns op ph ac idx excludeName nameSuffix row =
     (case index_vals (mr_indexNames row) nameSuffix of
        Inl e \<Rightarrow> (Inl e, row)
      | Inr (ivs, rest) \<Rightarrow>
          each_column (\<lambda>k.
            case map_of (rev ivs) k of
              Some v \<Rightarrow> column_action op ph None idx k (k @ nameSuffix) (Some v)
            | None \<Rightarrow> column_action op ph ac idx k (k @ nameSuffix) None)
            (filter (\<lambda>k. k \<noteq> excludeName) (sort (map fst (mn_vars row)))) row)"

text \<open>
  \<open>announceManagementEvent\<close>: the indices that are columns of this row, which the rows that augment
  it are to hear about; and \<open>receiveManagementEvent\<close>, what such a row does.
\<close>

definition announced :: "oid \<Rightarrow> oid \<Rightarrow> mib_row \<Rightarrow> (oid \<times> snmp_value) list res" where
  "announced self name row =
     rbind (index_vals (mr_indexNames row) (drop (length self + 1) name)) (\<lambda>(ivs, rest).
       if rest \<noteq> [] then Inl (SmiError SmiErr no_smi)
       else Inr (filter (\<lambda>(c, v). butlast c = self) ivs))"

fun event_suffix :: "(index_name \<times> snmp_value) list \<Rightarrow> oid res" where
  "event_suffix [] = Inr []"
| "event_suffix ((ix, v) # ivs) =
     rbind (getAsName ix v) (\<lambda>n. rbind (event_suffix ivs) (\<lambda>ns. Inr (n @ ns)))"

definition receiveManagementEvent :: "row_op \<Rightarrow> phase \<Rightarrow> ac_fun option \<Rightarrow> nat \<Rightarrow> (oid \<times> snmp_value) list \<Rightarrow>
  (mib_row, unit) sm" where
  "receiveManagementEvent op ph ac idx baseIndices row =
     (case event_suffix [(ix, v). ix \<leftarrow> mr_indexNames row, (c, v) \<leftarrow> baseIndices, c = ix_column ix] of
        Inl e \<Rightarrow> (Inl e, row)
      | Inr [] \<Rightarrow> (Inr (), row)
      | Inr (n # ns) \<Rightarrow> manageColumns op ph ac idx [] (n # ns) row)"

text \<open>
  The part of \<open>__delegate\<close> that concerns the row itself: the write to the column, and the columns
  of the row when the column asks for a row to be created or destroyed. The result says
  whether the row is to become active, and what is to be announced to which rows.
\<close>

type_synonym row_event = "(row_op \<times> oid list \<times> (oid \<times> snmp_value) list) option"

fun wants :: "exn \<Rightarrow> row_op option" where
  "wants (SmiError RowCreationWanted d) = Some Create"
| "wants (SmiError RowDestructionWanted d) = Some Destroy"
| "wants _ = None"

fun makes_active :: "exn \<Rightarrow> bool" where
  "makes_active (SmiError RowCreationWanted d) = (sd_syntax d = Some stActive)"
| "makes_active _ = False"

definition row_delegate :: "phase \<Rightarrow> ac_fun option \<Rightarrow> nat \<Rightarrow> oid \<Rightarrow> oid \<Rightarrow> snmp_value option \<Rightarrow>
  (mib_row, bool \<times> row_event) sm" where
  "row_delegate ph ac idx self name val =
     scatch (sbind (on_branch getBranch (smi_at NoSuchObjectErr idx) name
               (\<lambda>k. column_write ph ac idx k name val)) (\<lambda>_. sret (False, None)))
       (\<lambda>e. case wants e of
          None \<Rightarrow> sraise e
        | Some op \<Rightarrow>
            sbind (manageColumns op ph ac idx (take (length self + 1) name) (drop (length self + 1) name)) (\<lambda>_.
            sbind (\<lambda>row. (announced self name row, row)) (\<lambda>base.
            sbind (sget mr_augmentingRows) (\<lambda>rows. sret (makes_active e, Some (op, rows, base))))))"

text \<open>The check of \<open>MibTableRow.writeCommit\<close> on a row that is to become active.\<close>

fun check_cells :: "oid \<Rightarrow> (oid \<times> mib_column) list \<Rightarrow> unit res" where
  "check_cells suffix [] = Inr ()"
| "check_cells suffix ((k, col) # cols) =
     (if mc_optional col then check_cells suffix cols
      else (case map_of (mn_vars col) (k @ suffix) of
              None \<Rightarrow> Inl (SmiError NoSuchInstanceErr no_smi)
            | Some inst \<Rightarrow>
                rbind (isValue (in_syntax inst)) (\<lambda>v.
                  if v then check_cells suffix cols else Inl (SmiError InconsistentValueErr no_smi))))"

definition row_check_active :: "oid \<Rightarrow> oid \<Rightarrow> mib_row \<Rightarrow> unit res" where
  "row_check_active self name row =
     check_cells (drop (length self + 1) name) (sort_key fst (mn_vars row))"

section \<open>The tree\<close>

definition on_row :: "oid \<Rightarrow> (mib_row, 'a) sm \<Rightarrow> (mib_tree, 'a) sm" where
  "on_row r m = on_child r (\<lambda>b. case b of
     Row row \<Rightarrow> (case m row of (x, row') \<Rightarrow> (x, Row row'))
   | _ \<Rightarrow> (Inl AttributeError, b))"

fun announce_to :: "row_op \<Rightarrow> phase \<Rightarrow> ac_fun option \<Rightarrow> nat \<Rightarrow> (oid \<times> snmp_value) list \<Rightarrow> oid list \<Rightarrow>
  (mib_tree, unit) sm" where
  "announce_to op ph ac idx base [] = sret ()"
| "announce_to op ph ac idx base (r # rs) =
     sbind (on_row r (receiveManagementEvent op ph ac idx base)) (\<lambda>_. announce_to op ph ac idx base rs)"

definition row_write :: "phase \<Rightarrow> ac_fun option \<Rightarrow> nat \<Rightarrow> oid \<Rightarrow> oid \<Rightarrow> snmp_value option \<Rightarrow> (mib_tree, unit) sm" where
  "row_write ph ac idx self name val =
     sbind (if ph = Cleanup then on_row self bump else sret ()) (\<lambda>_.
     sbind (on_row self (row_delegate ph ac idx self name val)) (\<lambda>(active, event).
     sbind (case event of
              None \<Rightarrow> sret ()
            | Some (op, rows, base) \<Rightarrow>
                if base = [] then sret () else announce_to op ph ac idx base rows) (\<lambda>_.
     if ph = Commit \<and> active then on_row self (\<lambda>row. (row_check_active self name row, row)) else sret ())))"

definition scalar_on_tree :: "phase \<Rightarrow> ac_fun option \<Rightarrow> nat \<Rightarrow> oid \<Rightarrow> oid \<Rightarrow> snmp_value option \<Rightarrow> (mib_tree, unit) sm" where
  "scalar_on_tree ph ac idx self name val = on_child self (\<lambda>b. case b of
     Scalar n \<Rightarrow> (case scalar_write getBranch ph ac idx self name val n of (x, n') \<Rightarrow> (x, Scalar n'))
   | _ \<Rightarrow> (Inl AttributeError, b))"

text \<open>A table has no children: its own name is checked, any other is not there.\<close>

definition table_write :: "phase \<Rightarrow> ac_fun option \<Rightarrow> nat \<Rightarrow> oid \<Rightarrow> oid \<Rightarrow> (mib_tree, unit) sm" where
  "table_write ph ac idx self name = on_child self (\<lambda>b. case b of
     Table t \<Rightarrow>
       (let t' = (if ph = Cleanup then t\<lparr>mn_branchVersionId := mn_branchVersionId t + 1\<rparr> else t)
        in (if ph = Test \<and> name = self then write_check ac idx (mn_maxAccess t) (mn_syntax t) name
            else Inl (smi_at NoSuchObjectErr idx), Table t'))
   | _ \<Rightarrow> (Inl AttributeError, b))"

definition branch_write :: "phase \<Rightarrow> ac_fun option \<Rightarrow> nat \<Rightarrow> oid \<Rightarrow> snmp_value option \<Rightarrow> (mib_tree, unit) sm" where
  "branch_write ph ac idx name val t =
     (case getBranch (mn_vars t) name of
        None \<Rightarrow> (Inl (smi_at NoSuchObjectErr idx), t)
      | Some (k, Scalar n) \<Rightarrow> scalar_on_tree ph ac idx k name val t
      | Some (k, Row row) \<Rightarrow> row_write ph ac idx k name val t
      | Some (k, Table u) \<Rightarrow> table_write ph ac idx k name t)"

definition mib_write :: "phase \<Rightarrow> ac_fun option \<Rightarrow> oid \<Rightarrow> nat \<Rightarrow> oid \<Rightarrow> snmp_value option \<Rightarrow> (mib_tree, unit) sm" where
  "mib_write ph ac self idx name val t =
     (if ph = Test \<and> name = self then (write_check ac idx (mn_maxAccess t) (mn_syntax t) name, t)
      else sbind (if ph = Cleanup then bump else sret ()) (\<lambda>_. branch_write ph ac idx name val) t)"

end
