(* ===== verification/Instrum.thy ===== *)
theory Instrum
  imports Mib_Write
begin

text \<open>
  \<open>pysnmp/smi/instrum.py\<close>: \<open>MibInstrumController\<close> runs every request as a state machine over all
  of its variable bindings, \<open>flipFlopFsm\<close>, with a table of transitions for reading, for reading
  the next variable and for writing. The operations of a state are those of the tree of
  managed objects. The loop is a partial function, so that it returns has to be shown: the
  machine of each table ends, whatever the objects do. Shown further: what a SET of scalars
  does to their values.
\<close>

section \<open>The state machine\<close>

datatype fsm_state = Start | ReadTest | ReadGet | ReadTestNext | ReadGetNext
  | WriteTest | WriteCommit | WriteCleanup | WriteUndo | Stop

datatype fsm_status = Ok | Err

text \<open>A table; the state \<open>*\<close> is \<open>None\<close>.\<close>

type_synonym fsm_table = "fsm_state option \<times> fsm_status \<rightharpoonup> fsm_state"

definition fsmReadVar :: fsm_table where
  "fsmReadVar = map_of
     [((Some Start, Ok), ReadTest), ((Some ReadTest, Ok), ReadGet), ((Some ReadGet, Ok), Stop),
      ((None, Err), Stop)]"

definition fsmReadNextVar :: fsm_table where
  "fsmReadNextVar = map_of
     [((Some Start, Ok), ReadTestNext), ((Some ReadTestNext, Ok), ReadGetNext),
      ((Some ReadGetNext, Ok), Stop), ((None, Err), Stop)]"

definition fsmWriteVar :: fsm_table where
  "fsmWriteVar = map_of
     [((Some Start, Ok), WriteTest), ((Some WriteTest, Ok), WriteCommit),
      ((Some WriteCommit, Ok), WriteCleanup), ((Some WriteCleanup, Ok), ReadTest),
      ((Some ReadTest, Ok), ReadGet), ((Some ReadGet, Ok), Stop),
      ((Some WriteTest, Err), WriteCleanup), ((Some WriteCommit, Err), WriteUndo),
      ((Some WriteUndo, Ok), ReadTest), ((Some ReadTest, Err), Stop), ((Some ReadGet, Err), Stop),
      ((None, Err), Stop)]"

lemmas fsm_tables = fsmReadVar_def fsmReadNextVar_def fsmWriteVar_def

definition fsm_next :: "fsm_table \<Rightarrow> fsm_state \<Rightarrow> fsm_status \<Rightarrow> fsm_state option" where
  "fsm_next table st stat =
     (case table (Some st, stat) of Some st' \<Rightarrow> Some st' | None \<Rightarrow> table (None, stat))"

type_synonym binding = "oid \<times> snmp_value option"

text \<open>The operation of a state on one binding, which may give a binding for the response.\<close>

type_synonym 's handler = "nat \<Rightarrow> oid \<Rightarrow> snmp_value option \<Rightarrow> ('s, var_bind option) sm"

text \<open>The inner loop: one state over all bindings, up to the first exception.\<close>

fun fsm_pass :: "'s handler \<Rightarrow> nat \<Rightarrow> binding list \<Rightarrow> var_bind list \<Rightarrow> 's \<Rightarrow> unit res \<times> var_bind list \<times> 's" where
  "fsm_pass f idx [] out s = (Inr (), out, s)"
| "fsm_pass f idx ((name, val) # vbs) out s =
     (case f idx name val s of
        (Inl e, s') \<Rightarrow> (Inl e, out, s')
      | (Inr None, s') \<Rightarrow> fsm_pass f (idx + 1) vbs out s'
      | (Inr (Some vb), s') \<Rightarrow> fsm_pass f (idx + 1) vbs (out @ [vb]) s')"

text \<open>
  The outer loop. A state that has no operation is an error as soon as there is a binding to
  run it on. Of the errors of the managed objects the first is kept to be raised at the end;
  any other exception leaves the loop at once.
\<close>

partial_function (option) fsm_loop :: "fsm_table \<Rightarrow> (fsm_state \<Rightarrow> 's handler option) \<Rightarrow> binding list \<Rightarrow>
  fsm_state \<Rightarrow> fsm_status \<Rightarrow> var_bind list \<Rightarrow> exn option \<Rightarrow> 's \<Rightarrow> (var_bind list res \<times> 's) option" where
  [code]: "fsm_loop table h vbs st stat out origExc s =
     (case fsm_next table st stat of
        None \<Rightarrow> Some (Inl (SmiError SmiErr no_smi), s)
      | Some st' \<Rightarrow>
          if st' = Stop then Some (case origExc of Some e \<Rightarrow> Inl e | None \<Rightarrow> Inr out, s)
          else (case h st' of
             None \<Rightarrow>
               if vbs = [] then fsm_loop table h vbs st' Ok out origExc s
               else Some (Inl (SmiError SmiErr no_smi), s)
           | Some f \<Rightarrow>
               (case fsm_pass f 0 vbs out s of
                  (Inr u, out', s') \<Rightarrow> fsm_loop table h vbs st' Ok out' origExc s'
                | (Inl e, out', s') \<Rightarrow>
                    if is_SmiError e
                    then fsm_loop table h vbs st' Err out' (if origExc = None then Some e else origExc) s'
                    else Some (Inl e, s'))))"

definition flipFlopFsm :: "fsm_table \<Rightarrow> (fsm_state \<Rightarrow> 's handler option) \<Rightarrow> binding list \<Rightarrow> 's \<Rightarrow>
  (var_bind list res \<times> 's) option" where
  "flipFlopFsm table h vbs s = fsm_loop table h vbs Start Ok [] None s"

section \<open>The operations on the tree of managed objects\<close>

text \<open>The root of the tree, \<open>iso\<close>, has the name \<open>(1)\<close>.\<close>

definition iso :: oid where "iso = [1]"

definition silent :: "('s, unit) sm \<Rightarrow> ('s, var_bind option) sm" where
  "silent m = sbind m (\<lambda>_. sret None)"

definition pure_read :: "('s \<Rightarrow> 'a res) \<Rightarrow> ('s, 'a) sm" where
  "pure_read f s = (f s, s)"

fun mib_handler :: "ac_fun option \<Rightarrow> fsm_state \<Rightarrow> mib_tree handler option" where
  "mib_handler ac ReadTest = Some (\<lambda>idx name val. silent (pure_read (mib_readTest ac iso idx name)))"
| "mib_handler ac ReadGet = Some (\<lambda>idx name val. sbind (pure_read (mib_readGet idx name)) (\<lambda>vb. sret (Some vb)))"
| "mib_handler ac ReadTestNext = Some (\<lambda>idx name val. silent (pure_read (mib_readTestNext ac idx name)))"
| "mib_handler ac ReadGetNext = Some (\<lambda>idx name val. sbind (pure_read (mib_readGetNext ac idx name)) (\<lambda>vb. sret (Some vb)))"
| "mib_handler ac WriteTest = Some (\<lambda>idx name val. silent (mib_write Test ac iso idx name val))"
| "mib_handler ac WriteCommit = Some (\<lambda>idx name val. silent (mib_write Commit ac iso idx name val))"
| "mib_handler ac WriteCleanup = Some (\<lambda>idx name val. silent (mib_write Cleanup ac iso idx name val))"
| "mib_handler ac WriteUndo = Some (\<lambda>idx name val. silent (mib_write Undo ac iso idx name val))"
| "mib_handler ac _ = None"

definition readVars :: "ac_fun option \<Rightarrow> binding list \<Rightarrow> mib_tree \<Rightarrow> (var_bind list res \<times> mib_tree) option" where
  "readVars ac = flipFlopFsm fsmReadVar (mib_handler ac)"

definition readNextVars :: "ac_fun option \<Rightarrow> binding list \<Rightarrow> mib_tree \<Rightarrow> (var_bind list res \<times> mib_tree) option" where
  "readNextVars ac = flipFlopFsm fsmReadNextVar (mib_handler ac)"

definition writeVars :: "ac_fun option \<Rightarrow> binding list \<Rightarrow> mib_tree \<Rightarrow> (var_bind list res \<times> mib_tree) option" where
  "writeVars ac = flipFlopFsm fsmWriteVar (mib_handler ac)"

section \<open>The machine ends\<close>

text \<open>A table ends when its transitions go down in some rank of the states.\<close>

definition descends :: "(fsm_state \<Rightarrow> nat) \<Rightarrow> fsm_table \<Rightarrow> bool" where
  "descends rank table \<longleftrightarrow>
     (\<forall>st stat st'. fsm_next table st stat = Some st' \<longrightarrow> st' \<noteq> Stop \<longrightarrow> rank st' < rank st)"

lemma fsm_loop_ends:
  assumes "descends rank table"
  shows "\<exists>r. fsm_loop table h vbs st stat out origExc s = Some r"
proof (induction "rank st" arbitrary: st stat out origExc s rule: less_induct)
  case less
  have IH: "\<exists>r. fsm_loop table h vbs st' stat' out' orig' s' = Some r"
    if "fsm_next table st stat = Some st'" "st' \<noteq> Stop" for st' stat' out' orig' s'
    using less assms that unfolding descends_def by blast
  show ?case
    using IH by (subst fsm_loop.simps) (auto split: option.splits sum.splits prod.splits)
qed

fun fsm_rank :: "fsm_state \<Rightarrow> nat" where
  "fsm_rank Start = 6"
| "fsm_rank WriteTest = 5"
| "fsm_rank WriteCommit = 4"
| "fsm_rank WriteCleanup = 3"
| "fsm_rank WriteUndo = 3"
| "fsm_rank ReadTest = 2"
| "fsm_rank ReadTestNext = 2"
| "fsm_rank ReadGet = 1"
| "fsm_rank ReadGetNext = 1"
| "fsm_rank Stop = 0"

lemma tables_descend:
  "descends fsm_rank fsmReadVar" "descends fsm_rank fsmReadNextVar" "descends fsm_rank fsmWriteVar"
proof -
  have "fsm_rank st' < fsm_rank st"
    if "fsm_next table st stat = Some st'" "st' \<noteq> Stop" "table \<in> {fsmReadVar, fsmReadNextVar, fsmWriteVar}"
    for table st stat st'
    using that by (cases st; cases stat) (auto simp: fsm_next_def fsm_tables split: if_splits)
  then show "descends fsm_rank fsmReadVar" "descends fsm_rank fsmReadNextVar" "descends fsm_rank fsmWriteVar"
    unfolding descends_def by blast+
qed

text \<open>
  (C12) Every request comes to an end. For each of the three tables, whatever the operations of the
  managed objects do to their state and whatever they raise, and whatever the bindings, the
  state machine stops with a result.
\<close>

theorem flipFlopFsm_terminates:
  assumes "table \<in> {fsmReadVar, fsmReadNextVar, fsmWriteVar}"
  shows "\<exists>r. flipFlopFsm table h vbs s = Some r"
proof -
  have "descends fsm_rank table" using assms tables_descend by blast
  then show ?thesis unfolding flipFlopFsm_def by (rule fsm_loop_ends)
qed

theorem flipFlopFsm_terminates_witness:
  "\<exists>r. flipFlopFsm fsmWriteVar (\<lambda>st. Some (\<lambda>idx name val s. (Inl (smi_at CommitFailedErr idx), s)))
     [([1, 1, 0], Some (VInteger 1))] () = Some r"
  by (rule flipFlopFsm_terminates) simp

section \<open>Writing to instances\<close>

declare fsm_pass.simps(2) [simp del]

lemma not_isl: "\<not> isl r \<Longrightarrow> (\<And>x. r = Inr x \<Longrightarrow> P) \<Longrightarrow> P"
  by (cases r) simp_all

text \<open>The syntaxes, which is what reading shows; and that no request is under way.\<close>

definition syntaxes_of :: "('p \<rightharpoonup> mib_instance) \<Rightarrow> 'p \<rightharpoonup> mib_syntax option" where
  "syntaxes_of insts p = map_option in_syntax (insts p)"

definition settled_insts :: "('p \<rightharpoonup> mib_instance) \<Rightarrow> bool" where
  "settled_insts insts \<longleftrightarrow> (\<forall>p inst. insts p = Some inst \<longrightarrow> in_oldSyntax inst = None)"

text \<open>
  That the bindings of a request all pass their tests, each on the syntax its name leads to, and
  the syntaxes they ask for, the last one for a name that is given twice.
\<close>

fun all_tests_pass :: "(oid \<rightharpoonup> 'p) \<Rightarrow> (nat \<Rightarrow> oid \<Rightarrow> snmp_value option \<Rightarrow> mib_syntax option \<Rightarrow> mib_syntax res) \<Rightarrow>
  ('p \<rightharpoonup> mib_syntax option) \<Rightarrow> nat \<Rightarrow> binding list \<Rightarrow> bool" where
  "all_tests_pass path tested cur idx [] = True"
| "all_tests_pass path tested cur idx ((name, val) # vbs) =
     (case path name of
        None \<Rightarrow> False
      | Some p \<Rightarrow> \<not> isl (tested idx name val (the (cur p))) \<and> all_tests_pass path tested cur (idx + 1) vbs)"

fun set_targets :: "(oid \<rightharpoonup> 'p) \<Rightarrow> (nat \<Rightarrow> oid \<Rightarrow> snmp_value option \<Rightarrow> mib_syntax option \<Rightarrow> mib_syntax res) \<Rightarrow>
  ('p \<rightharpoonup> mib_syntax option) \<Rightarrow> nat \<Rightarrow> binding list \<Rightarrow> 'p \<rightharpoonup> mib_syntax" where
  "set_targets path tested cur idx [] = Map.empty"
| "set_targets path tested cur idx ((name, val) # vbs) =
     (case path name of
        None \<Rightarrow> Map.empty
      | Some p \<Rightarrow>
          (case tested idx name val (the (cur p)) of
             Inl e \<Rightarrow> Map.empty
           | Inr sx \<Rightarrow> [p \<mapsto> sx] ++ set_targets path tested cur (idx + 1) vbs))"

definition updated :: "('p \<rightharpoonup> mib_syntax) \<Rightarrow> ('p \<rightharpoonup> mib_syntax option) \<Rightarrow> 'p \<rightharpoonup> mib_syntax option" where
  "updated new cur p = (case new p of Some sx \<Rightarrow> Some (Some sx) | None \<Rightarrow> cur p)"

text \<open>
  What the writing states rely on: a name leads to an instance or is refused; a test tries the
  value on the instance's current syntax and keeps the outcome aside; the other phases do to
  the instance what \<open>MibScalarInstance\<close> does, and leave the others alone.
\<close>

locale instance_store =
  fixes step :: "phase \<Rightarrow> nat \<Rightarrow> oid \<Rightarrow> snmp_value option \<Rightarrow> ('s, unit) sm"
    and insts :: "'s \<Rightarrow> 'p \<rightharpoonup> mib_instance"
    and path :: "oid \<rightharpoonup> 'p"
    and tested :: "nat \<Rightarrow> oid \<Rightarrow> snmp_value option \<Rightarrow> mib_syntax option \<Rightarrow> mib_syntax res"
    and scope :: "oid \<Rightarrow> bool"
    and wf :: "'s \<Rightarrow> bool"
  assumes present: "wf s \<Longrightarrow> path name = Some p \<Longrightarrow> insts s p \<noteq> None"
    and missing: "wf s \<Longrightarrow> scope name \<Longrightarrow> path name = None \<Longrightarrow>
      \<exists>e s'. step ph idx name val s = (Inl e, s') \<and> (ph \<noteq> Test \<longrightarrow> is_SmiError e) \<and> insts s' = insts s \<and> wf s'"
    and test: "wf s \<Longrightarrow> path name = Some p \<Longrightarrow> insts s p = Some inst \<Longrightarrow>
      \<exists>s' new. step Test idx name val s = (map_sum id (\<lambda>_. ()) (tested idx name val (in_syntax inst)), s') \<and>
        wf s' \<and> insts s' = (insts s)(p \<mapsto> inst\<lparr>in_newSyntax := new\<rparr>) \<and>
        (\<forall>sx. tested idx name val (in_syntax inst) = Inr sx \<longrightarrow> new = Some (Some sx))"
    and commit: "wf s \<Longrightarrow> path name = Some p \<Longrightarrow> insts s p = Some inst \<Longrightarrow>
      \<exists>s'. step Commit idx name val s = (fst (instance_writeCommit inst), s') \<and> wf s' \<and>
        insts s' = (insts s)(p \<mapsto> snd (instance_writeCommit inst))"
    and cleanup: "wf s \<Longrightarrow> path name = Some p \<Longrightarrow> insts s p = Some inst \<Longrightarrow>
      \<exists>s'. step Cleanup idx name val s = (Inr (), s') \<and> wf s' \<and>
        insts s' = (insts s)(p \<mapsto> snd (instance_writeCleanup inst))"
begin

abbreviation op :: "phase \<Rightarrow> 's handler" where
  "op ph idx name val \<equiv> silent (step ph idx name val)"

abbreviation syntaxes :: "'s \<Rightarrow> 'p \<rightharpoonup> mib_syntax option" where
  "syntaxes s \<equiv> syntaxes_of (insts s)"

abbreviation settled :: "'s \<Rightarrow> bool" where
  "settled s \<equiv> settled_insts (insts s)"

abbreviation all_pass :: "('p \<rightharpoonup> mib_syntax option) \<Rightarrow> nat \<Rightarrow> binding list \<Rightarrow> bool" where
  "all_pass \<equiv> all_tests_pass path tested"

abbreviation targets :: "('p \<rightharpoonup> mib_syntax option) \<Rightarrow> nat \<Rightarrow> binding list \<Rightarrow> 'p \<rightharpoonup> mib_syntax" where
  "targets \<equiv> set_targets path tested"

lemma pass_silent:
  "fsm_pass (op ph) idx ((name, val) # vbs) out s =
    (case step ph idx name val s of (Inl e, s') \<Rightarrow> (Inl e, out, s')
     | (Inr u, s') \<Rightarrow> fsm_pass (op ph) (idx + 1) vbs out s')"
  by (simp add: fsm_pass.simps(2) silent_def sbind_def sret_def split: sum.splits prod.splits)

text \<open>Testing leaves every syntax as it is, and sets the new ones aside.\<close>

lemma test_pass:
  assumes "wf s" and "\<forall>b \<in> set vbs. scope (fst b)"
  shows "\<exists>r s'. fsm_pass (op Test) idx vbs out s = (r, out, s') \<and> wf s' \<and>
    syntaxes s' = syntaxes s \<and> (settled s \<longrightarrow> settled s') \<and>
    ((\<exists>u. r = Inr u) \<longleftrightarrow> all_pass (syntaxes s) idx vbs) \<and>
    (all_pass (syntaxes s) idx vbs \<longrightarrow>
       (\<forall>p inst. insts s' p = Some inst \<longrightarrow>
          in_newSyntax inst = (case targets (syntaxes s) idx vbs p of Some sx \<Rightarrow> Some (Some sx)
            | None \<Rightarrow> in_newSyntax (the (insts s p)))))"
  using assms
proof (induction vbs arbitrary: s idx)
  case Nil
  then show ?case by auto
next
  case (Cons b vbs)
  obtain name val where b: "b = (name, val)" by (meson surj_pair)
  have sc: "scope name" using Cons.prems(2) b by auto
  show ?case
  proof (cases "path name")
    case None
    obtain e s' where e: "step Test idx name val s = (Inl e, s')" "insts s' = insts s" "wf s'"
      using missing [OF Cons.prems(1) sc None] by blast
    then show ?thesis using None b
      by (intro exI [of _ "Inl e"] exI [of _ s'])
        (simp add: pass_silent syntaxes_of_def settled_insts_def fun_eq_iff)
  next
    case (Some p)
    then obtain inst where inst: "insts s p = Some inst" using present [OF Cons.prems(1)] by blast
    obtain s1 new where s1: "wf s1" "insts s1 = (insts s)(p \<mapsto> inst\<lparr>in_newSyntax := new\<rparr>)"
      "step Test idx name val s = (map_sum id (\<lambda>_. ()) (tested idx name val (in_syntax inst)), s1)"
      "\<forall>sx. tested idx name val (in_syntax inst) = Inr sx \<longrightarrow> new = Some (Some sx)"
      using test [OF Cons.prems(1) Some inst] by blast
    have syn: "syntaxes s1 = syntaxes s" using s1(2) inst by (auto simp: syntaxes_of_def fun_eq_iff)
    have set: "settled s \<Longrightarrow> settled s1" using s1(2) inst by (auto simp: settled_insts_def)
    have cur: "the (syntaxes s p) = in_syntax inst" using inst by (simp add: syntaxes_of_def)
    show ?thesis
    proof (cases "tested idx name val (in_syntax inst)")
      case (Inl e)
      then show ?thesis using b Some s1(1,3) syn set cur
        by (intro exI [of _ "Inl e"] exI [of _ s1]) (simp add: pass_silent)
    next
      case (Inr sx)
      obtain r s' where r: "fsm_pass (op Test) (idx + 1) vbs out s1 = (r, out, s')" "wf s'"
        "syntaxes s' = syntaxes s1" "settled s1 \<longrightarrow> settled s'"
        "(\<exists>u. r = Inr u) \<longleftrightarrow> all_pass (syntaxes s1) (idx + 1) vbs"
        "all_pass (syntaxes s1) (idx + 1) vbs \<longrightarrow>
           (\<forall>p inst. insts s' p = Some inst \<longrightarrow>
              in_newSyntax inst = (case targets (syntaxes s1) (idx + 1) vbs p of Some sx \<Rightarrow> Some (Some sx)
                | None \<Rightarrow> in_newSyntax (the (insts s1 p))))"
        using Cons.IH [OF s1(1), of "idx + 1"] Cons.prems(2) b by auto
      have ap: "all_pass (syntaxes s) idx (b # vbs) \<longleftrightarrow> all_pass (syntaxes s) (idx + 1) vbs"
        using b Some cur Inr by (simp)
      have tg: "targets (syntaxes s) idx (b # vbs) = [p \<mapsto> sx] ++ targets (syntaxes s) (idx + 1) vbs"
        using b Some cur Inr by simp
      have new: "in_newSyntax (the (insts s1 q)) = (if q = p then Some (Some sx) else in_newSyntax (the (insts s q)))" for q
        using s1(2,4) Inr by simp
      have "in_newSyntax inst' = (case targets (syntaxes s) idx (b # vbs) q of Some sx \<Rightarrow> Some (Some sx)
          | None \<Rightarrow> in_newSyntax (the (insts s q)))"
        if "all_pass (syntaxes s) (idx + 1) vbs" "insts s' q = Some inst'" for q inst'
        using r(6) that unfolding syn tg new
        by (cases "targets (syntaxes s) (idx + 1) vbs q") (auto simp: map_add_def)
      moreover have "fsm_pass (op Test) idx (b # vbs) out s = (r, out, s')"
        using r(1) b s1(3) Inr by (simp add: pass_silent)
      ultimately show ?thesis using r(2-5) syn set ap by (intro exI [of _ r] exI [of _ s']) auto
    qed
  qed
qed

definition touched :: "binding list \<Rightarrow> 'p set" where
  "touched vbs = {p. \<exists>(name, val) \<in> set vbs. path name = Some p}"

lemma touched_Cons: "path name = Some p \<Longrightarrow> touched ((name, val) # vbs) = insert p (touched vbs)"
  by (auto simp: touched_def)

lemma all_pass_touched:
  "all_pass cur idx vbs \<Longrightarrow> dom (targets cur idx vbs) = touched vbs \<and> (\<forall>(name, val) \<in> set vbs. path name \<noteq> None)"
proof (induction vbs arbitrary: idx)
  case Nil
  then show ?case by (simp add: touched_def)
next
  case (Cons b vbs)
  obtain name val where b: "b = (name, val)" by (meson surj_pair)
  with Cons.prems obtain p where p: "path name = Some p" by (auto split: option.splits)
  with b Cons.prems obtain sx where sx: "tested idx name val (the (cur p)) = Inr sx" "all_pass cur (idx + 1) vbs"
    by (auto elim: not_isl)
  with Cons.IH [OF sx(2)] b p show ?case by (simp add: touched_Cons Un_commute)
qed

lemma commit_pass:
  assumes "wf s" and "\<forall>(name, val) \<in> set vbs. path name \<noteq> None"
    and "\<forall>p \<in> touched vbs. \<exists>inst sx. insts s p = Some inst \<and> in_newSyntax inst = Some sx"
  shows "\<exists>s'. fsm_pass (op Commit) idx vbs out s = (Inr (), out, s') \<and> wf s' \<and>
    (\<forall>p. p \<notin> touched vbs \<longrightarrow> insts s' p = insts s p) \<and>
    (\<forall>p inst. p \<in> touched vbs \<longrightarrow> insts s p = Some inst \<longrightarrow>
       (\<exists>inst'. insts s' p = Some inst' \<and> in_newSyntax inst' = in_newSyntax inst \<and>
          Some (in_syntax inst') = in_newSyntax inst))"
  using assms
proof (induction vbs arbitrary: s idx)
  case Nil
  then show ?case by (auto simp: touched_def)
next
  case (Cons b vbs)
  obtain name val where b: "b = (name, val)" by (meson surj_pair)
  with Cons.prems obtain p where p: "path name = Some p" by auto
  then have t: "touched (b # vbs) = insert p (touched vbs)" using b by (simp add: touched_Cons)
  obtain inst sx where inst: "insts s p = Some inst" "in_newSyntax inst = Some sx"
    using Cons.prems(3) t by auto
  obtain s1 where s1: "step Commit idx name val s = (fst (instance_writeCommit inst), s1)" "wf s1"
      "insts s1 = (insts s)(p \<mapsto> snd (instance_writeCommit inst))"
    using commit [OF Cons.prems(1) p inst(1)] by blast
  have c: "fst (instance_writeCommit inst) = Inr ()"
      "in_newSyntax (snd (instance_writeCommit inst)) = Some sx" "in_syntax (snd (instance_writeCommit inst)) = sx"
    using inst(2) by (auto simp: instance_writeCommit_def)
  have "\<forall>q \<in> touched vbs. \<exists>inst sx. insts s1 q = Some inst \<and> in_newSyntax inst = Some sx"
    using Cons.prems(3) t s1(3) c(2) by auto
  then obtain s' where s': "fsm_pass (op Commit) (idx + 1) vbs out s1 = (Inr (), out, s')" "wf s'"
    "\<forall>q. q \<notin> touched vbs \<longrightarrow> insts s' q = insts s1 q"
    "\<forall>q inst. q \<in> touched vbs \<longrightarrow> insts s1 q = Some inst \<longrightarrow>
       (\<exists>inst'. insts s' q = Some inst' \<and> in_newSyntax inst' = in_newSyntax inst \<and>
          Some (in_syntax inst') = in_newSyntax inst)"
    using Cons.IH [OF s1(2), of "idx + 1"] Cons.prems(2) b by auto
  have "\<exists>inst'. insts s' q = Some inst' \<and> in_newSyntax inst' = in_newSyntax i \<and> Some (in_syntax inst') = in_newSyntax i"
    if "q \<in> insert p (touched vbs)" "insts s q = Some i" for q i
  proof (cases "q = p")
    case True
    then have "insts s1 q = Some (snd (instance_writeCommit inst))" using s1(3) by simp
    then show ?thesis using True that inst c s'(3,4) by (cases "p \<in> touched vbs") auto
  next
    case False
    then show ?thesis using that s1(3) s'(4) by simp
  qed
  moreover have "fsm_pass (op Commit) idx (b # vbs) out s = (Inr (), out, s')"
    using b s1(1) c(1) s'(1) by (simp add: pass_silent)
  ultimately show ?case using s'(2,3) s1(3) t by (intro exI [of _ s']) auto
qed

lemma cleanup_pass:
  assumes "wf s" and "\<forall>b \<in> set vbs. scope (fst b)"
  shows "\<exists>r s'. fsm_pass (op Cleanup) idx vbs out s = (r, out, s') \<and> wf s' \<and> syntaxes s' = syntaxes s \<and>
    (\<forall>e. r = Inl e \<longrightarrow> is_SmiError e) \<and>
    (\<forall>p inst'. insts s' p = Some inst' \<longrightarrow>
       in_oldSyntax inst' = None \<or> in_oldSyntax inst' = in_oldSyntax (the (insts s p))) \<and>
    ((\<forall>(name, val) \<in> set vbs. path name \<noteq> None) \<longrightarrow> r = Inr () \<and>
       (\<forall>p inst'. p \<in> touched vbs \<longrightarrow> insts s' p = Some inst' \<longrightarrow> in_oldSyntax inst' = None))"
  using assms
proof (induction vbs arbitrary: s idx)
  case Nil
  then show ?case by (auto simp: touched_def)
next
  case (Cons b vbs)
  obtain name val where b: "b = (name, val)" by (meson surj_pair)
  have sc: "scope name" using Cons.prems(2) b by auto
  show ?case
  proof (cases "path name")
    case None
    obtain e s' where e: "step Cleanup idx name val s = (Inl e, s')" "insts s' = insts s" "wf s'" "is_SmiError e"
      using missing [OF Cons.prems(1) sc None] by blast
    then show ?thesis using None b
      by (intro exI [of _ "Inl e"] exI [of _ s']) (auto simp: pass_silent syntaxes_of_def)
  next
    case (Some p)
    then obtain inst where inst: "insts s p = Some inst" using present [OF Cons.prems(1)] by blast
    obtain s1 where s1: "step Cleanup idx name val s = (Inr (), s1)" "wf s1"
        "insts s1 = (insts s)(p \<mapsto> snd (instance_writeCleanup inst))"
      using cleanup [OF Cons.prems(1) Some inst] by blast
    have c: "in_syntax (snd (instance_writeCleanup inst)) = in_syntax inst"
        "in_oldSyntax (snd (instance_writeCleanup inst)) = None"
      by (simp_all add: instance_writeCleanup_def smodify_def)
    have syn: "syntaxes s1 = syntaxes s" using s1(3) inst c(1) by (auto simp: syntaxes_of_def fun_eq_iff)
    obtain r s' where r: "fsm_pass (op Cleanup) (idx + 1) vbs out s1 = (r, out, s')" "wf s'"
      "syntaxes s' = syntaxes s1" "\<forall>e. r = Inl e \<longrightarrow> is_SmiError e"
      "\<forall>p inst'. insts s' p = Some inst' \<longrightarrow>
         in_oldSyntax inst' = None \<or> in_oldSyntax inst' = in_oldSyntax (the (insts s1 p))"
      "(\<forall>(name, val) \<in> set vbs. path name \<noteq> None) \<longrightarrow> r = Inr () \<and>
         (\<forall>p inst'. p \<in> touched vbs \<longrightarrow> insts s' p = Some inst' \<longrightarrow> in_oldSyntax inst' = None)"
      using Cons.IH [OF s1(2), of "idx + 1"] Cons.prems(2) b by (simp del: split_paired_All) blast
    have old: "in_oldSyntax (the (insts s1 q)) = (if q = p then None else in_oldSyntax (the (insts s q)))" for q
      using s1(3) c(2) by simp
    have t: "touched (b # vbs) = insert p (touched vbs)" using b Some by (simp add: touched_Cons)
    have "fsm_pass (op Cleanup) idx (b # vbs) out s = (r, out, s')"
      using b s1(1) r(1) by (simp add: pass_silent)
    moreover have "in_oldSyntax i = None \<or> in_oldSyntax i = in_oldSyntax (the (insts s q))"
      if "insts s' q = Some i" for q i
      using r(5) [rule_format, OF that] old [of q] by (cases "q = p") simp_all
    moreover have "in_oldSyntax i = None" if "insts s' p = Some i" for i
      using r(5) [rule_format, OF that] old [of p] by simp
    ultimately show ?thesis
      using r(2-4,6) syn b unfolding t by (intro exI [of _ r] exI [of _ s']) auto
  qed
qed

text \<open>The states after the writing ones only read.\<close>

lemma pass_reads:
  assumes "\<And>idx name val s. snd (f idx name val s) = s"
  shows "\<exists>r out'. fsm_pass f idx vbs out s = (r, out', s)"
proof (induction vbs arbitrary: idx out)
  case (Cons b vbs)
  obtain name val where b: "b = (name, val)" by (meson surj_pair)
  obtain r where "f idx name val s = (r, s)" using assms [of idx name val s] by (metis prod.collapse)
  with Cons.IH b show ?case
    by (cases r) (auto simp: fsm_pass.simps(2) split: option.splits)
qed simp

lemma read_tail:
  assumes "h ReadTest = Some rt" and "\<And>idx name val s. snd (rt idx name val s) = s"
    and "h ReadGet = Some rg" and "\<And>idx name val s. snd (rg idx name val s) = s"
    and "st \<in> {WriteCleanup, WriteUndo}"
  shows "\<exists>r. fsm_loop fsmWriteVar h vbs st Ok out orig s = Some (r, s) \<and> (orig \<noteq> None \<longrightarrow> (\<exists>e. r = Inl e))"
proof -
  have stop: "\<exists>r. fsm_loop fsmWriteVar h vbs st' Err out orig s = Some (r, s) \<and> (orig \<noteq> None \<longrightarrow> (\<exists>e. r = Inl e))"
    if "st' \<in> {ReadTest, ReadGet}" for st' out orig
    using that by (subst fsm_loop.simps) (auto simp: fsm_next_def fsmWriteVar_def split: option.splits)
  have get: "\<exists>r. fsm_loop fsmWriteVar h vbs ReadGet Ok out orig s = Some (r, s) \<and> (orig \<noteq> None \<longrightarrow> (\<exists>e. r = Inl e))"
    for out orig by (subst fsm_loop.simps) (auto simp: fsm_next_def fsmWriteVar_def split: option.splits)
  have test: "\<exists>r. fsm_loop fsmWriteVar h vbs ReadTest Ok out orig s = Some (r, s) \<and> (orig \<noteq> None \<longrightarrow> (\<exists>e. r = Inl e))"
    for out orig
  proof -
    obtain r out' where "fsm_pass rg 0 vbs out s = (r, out', s)" using pass_reads [of rg, OF assms(4)] by blast
    then show ?thesis
      using get [of out' orig] stop [of ReadGet out' "if orig = None then (case r of Inl e \<Rightarrow> Some e | Inr u \<Rightarrow> None) else orig"] assms(3)
      by (subst fsm_loop.simps) (cases r; auto simp: fsm_next_def fsmWriteVar_def split: if_splits)
  qed
  obtain r out' where "fsm_pass rt 0 vbs out s = (r, out', s)" using pass_reads [of rt, OF assms(2)] by blast
  then show ?thesis
    using test [of out' orig] stop [of ReadTest out' "if orig = None then (case r of Inl e \<Rightarrow> Some e | Inr u \<Rightarrow> None) else orig"] assms(1,5)
    by (subst fsm_loop.simps) (cases r; auto simp: fsm_next_def fsmWriteVar_def split: if_splits)
qed

text \<open>One turn of the outer loop.\<close>

lemma loop_turn:
  assumes "fsm_next table st stat = Some st'" and "st' \<noteq> Stop" and "h st' = Some f"
    and "fsm_pass f 0 vbs out s = (r, out', s')"
  shows "fsm_loop table h vbs st stat out orig s =
    (case r of Inr u \<Rightarrow> fsm_loop table h vbs st' Ok out' orig s'
     | Inl e \<Rightarrow> if is_SmiError e then fsm_loop table h vbs st' Err out' (if orig = None then Some e else orig) s'
               else Some (Inl e, s'))"
  using assms by (subst fsm_loop.simps) (simp split: sum.splits)

text \<open>The handlers of a SET.\<close>

definition handles :: "(fsm_state \<Rightarrow> 's handler option) \<Rightarrow> bool" where
  "handles h \<longleftrightarrow> h WriteTest = Some (op Test) \<and> h WriteCommit = Some (op Commit) \<and> h WriteCleanup = Some (op Cleanup) \<and>
     (\<forall>st \<in> {ReadTest, ReadGet}. \<exists>f. h st = Some f \<and> (\<forall>idx name val s. snd (f idx name val s) = s))"

text \<open>A request that was tested ends in the cleaning up and the reading back.\<close>

lemma cleanup_tail:
  assumes "handles h" and "wf s" and "\<forall>b \<in> set vbs. scope (fst b)" and "fsm_next fsmWriteVar st stat = Some WriteCleanup"
    and "settled s \<or> (\<forall>(name, val) \<in> set vbs. path name \<noteq> None) \<and>
      (\<forall>p inst. p \<notin> touched vbs \<longrightarrow> insts s p = Some inst \<longrightarrow> in_oldSyntax inst = None)"
  shows "\<exists>r s'. fsm_loop fsmWriteVar h vbs st stat out orig s = Some (r, s') \<and> wf s' \<and> settled s' \<and>
    syntaxes s' = syntaxes s \<and> (orig \<noteq> None \<longrightarrow> (\<exists>e. r = Inl e))"
proof -
  obtain r s' where r: "fsm_pass (op Cleanup) 0 vbs out s = (r, out, s')" "wf s'" "syntaxes s' = syntaxes s"
    "\<forall>e. r = Inl e \<longrightarrow> is_SmiError e"
    "\<forall>p inst'. insts s' p = Some inst' \<longrightarrow>
       in_oldSyntax inst' = None \<or> in_oldSyntax inst' = in_oldSyntax (the (insts s p))"
    "(\<forall>(name, val) \<in> set vbs. path name \<noteq> None) \<longrightarrow> r = Inr () \<and>
       (\<forall>p inst'. p \<in> touched vbs \<longrightarrow> insts s' p = Some inst' \<longrightarrow> in_oldSyntax inst' = None)"
    using cleanup_pass [OF assms(2,3), of 0 out] by blast
  have same: "insts s p \<noteq> None" if "insts s' p \<noteq> None" for p
    using that fun_cong [OF r(3), of p] by (cases "insts s p") (auto simp: syntaxes_of_def)
  have settled: "settled s'"
  proof (unfold settled_insts_def, intro allI impI)
    fix p inst'
    assume p: "insts s' p = Some inst'"
    then obtain inst where inst: "insts s p = Some inst" using same by auto
    from r(5) p have old: "in_oldSyntax inst' = None \<or> in_oldSyntax inst' = in_oldSyntax inst"
      using inst by (metis option.sel)
    show "in_oldSyntax inst' = None"
    proof (cases "settled s")
      case True
      then show ?thesis using old inst by (auto simp: settled_insts_def)
    next
      case False
      then show ?thesis using assms(5) old inst r(6) p by (cases "p \<in> touched vbs") auto
    qed
  qed
  have h: "h WriteCleanup = Some (op Cleanup)" using assms(1) by (simp add: handles_def)
  have turn: "fsm_loop fsmWriteVar h vbs st stat out orig s =
    (case r of Inr u \<Rightarrow> fsm_loop fsmWriteVar h vbs WriteCleanup Ok out orig s'
     | Inl e \<Rightarrow> if is_SmiError e then fsm_loop fsmWriteVar h vbs WriteCleanup Err out (if orig = None then Some e else orig) s'
               else Some (Inl e, s'))"
    by (rule loop_turn [where h = h, OF assms(4) _ h r(1)]) simp
  obtain rt rg where reads: "h ReadTest = Some rt" "\<And>idx name val s. snd (rt idx name val s) = s"
      "h ReadGet = Some rg" "\<And>idx name val s. snd (rg idx name val s) = s"
    using assms(1) by (auto simp: handles_def)
  show ?thesis
  proof (cases r)
    case (Inl e)
    have "fsm_loop fsmWriteVar h vbs WriteCleanup Err out (Some e') s' = Some (Inl e', s')" for e'
      by (subst fsm_loop.simps) (simp add: fsm_next_def fsmWriteVar_def)
    then show ?thesis using turn Inl r(2-4) settled by auto
  next
    case (Inr u)
    then show ?thesis
      using turn r(2,3) settled read_tail [OF reads, of WriteCleanup vbs out orig s'] by auto
  qed
qed

text \<open>After the tests, the objects can be committed, and then have the values asked for.\<close>

lemma touched_present: "wf s \<Longrightarrow> p \<in> touched vbs \<Longrightarrow> insts s p \<noteq> None"
  using present by (auto simp: touched_def)

lemma committable:
  assumes "wf s1" and "all_pass cur 0 vbs"
    and "all_pass cur 0 vbs \<longrightarrow> (\<forall>p inst. insts s1 p = Some inst \<longrightarrow>
      in_newSyntax inst = (case targets cur 0 vbs p of Some sx \<Rightarrow> Some (Some sx) | None \<Rightarrow> f p))"
  shows "\<forall>p \<in> touched vbs. \<exists>inst sx. insts s1 p = Some inst \<and> in_newSyntax inst = Some sx"
proof
  fix p
  assume p: "p \<in> touched vbs"
  then obtain inst where inst: "insts s1 p = Some inst" using touched_present [OF assms(1)] by blast
  from p obtain sx where "targets cur 0 vbs p = Some sx" using all_pass_touched [OF assms(2)] by blast
  then have "in_newSyntax inst = Some (Some sx)" using assms(2,3) inst by fastforce
  then show "\<exists>inst sx. insts s1 p = Some inst \<and> in_newSyntax inst = Some sx" using inst by blast
qed

lemma committed:
  assumes "wf s1" and "all_pass cur 0 vbs"
    and "all_pass cur 0 vbs \<longrightarrow> (\<forall>p inst. insts s1 p = Some inst \<longrightarrow>
      in_newSyntax inst = (case targets cur 0 vbs p of Some sx \<Rightarrow> Some (Some sx) | None \<Rightarrow> f p))"
    and "\<forall>p. p \<notin> touched vbs \<longrightarrow> insts s2 p = insts s1 p"
    and "\<forall>p inst. p \<in> touched vbs \<longrightarrow> insts s1 p = Some inst \<longrightarrow>
      (\<exists>inst'. insts s2 p = Some inst' \<and> in_newSyntax inst' = in_newSyntax inst \<and> Some (in_syntax inst') = in_newSyntax inst)"
  shows "syntaxes s2 = updated (targets cur 0 vbs) (syntaxes s1)"
proof
  fix p
  show "syntaxes s2 p = updated (targets cur 0 vbs) (syntaxes s1) p"
  proof (cases "p \<in> touched vbs")
    case True
    then obtain inst where inst: "insts s1 p = Some inst" using touched_present [OF assms(1)] by blast
    from True obtain sx where sx: "targets cur 0 vbs p = Some sx" using all_pass_touched [OF assms(2)] by blast
    then have "in_newSyntax inst = Some (Some sx)" using assms(2,3) inst by fastforce
    then show ?thesis using assms(5) True inst sx by (fastforce simp: syntaxes_of_def updated_def)
  next
    case False
    then have "targets cur 0 vbs p = None" using all_pass_touched [OF assms(2)] by blast
    then show ?thesis using assms(4) False by (simp add: syntaxes_of_def updated_def)
  qed
qed

text \<open>
  A SET is done as a whole or not at all: when every binding passes its test, each object takes
  the value of the last binding that names it, and when one fails, no object changes and the
  request is answered with an error.
\<close>

theorem set_all_or_nothing:
  assumes "handles h" and "wf s" and "settled s" and "\<forall>b \<in> set vbs. scope (fst b)"
  shows "\<exists>r s'. flipFlopFsm fsmWriteVar h vbs s = Some (r, s') \<and> wf s' \<and> settled s' \<and>
    (if all_pass (syntaxes s) 0 vbs
     then syntaxes s' = updated (targets (syntaxes s) 0 vbs) (syntaxes s)
     else syntaxes s' = syntaxes s \<and> (\<exists>e. r = Inl e))"
proof -
  have h: "h WriteTest = Some (op Test)" "h WriteCommit = Some (op Commit)" using assms(1) by (auto simp: handles_def)
  obtain r s1 where r: "fsm_pass (op Test) 0 vbs [] s = (r, [], s1)" "wf s1" "syntaxes s1 = syntaxes s" "settled s1"
    "(\<exists>u. r = Inr u) \<longleftrightarrow> all_pass (syntaxes s) 0 vbs"
    "all_pass (syntaxes s) 0 vbs \<longrightarrow>
       (\<forall>p inst. insts s1 p = Some inst \<longrightarrow>
          in_newSyntax inst = (case targets (syntaxes s) 0 vbs p of Some sx \<Rightarrow> Some (Some sx)
            | None \<Rightarrow> in_newSyntax (the (insts s p))))"
    using test_pass [OF assms(2,4), of "0" "[]"] assms(3) by blast
  have turn: "flipFlopFsm fsmWriteVar h vbs s =
    (case r of Inr u \<Rightarrow> fsm_loop fsmWriteVar h vbs WriteTest Ok [] None s1
     | Inl e \<Rightarrow> if is_SmiError e then fsm_loop fsmWriteVar h vbs WriteTest Err [] (Some e) s1 else Some (Inl e, s1))"
    unfolding flipFlopFsm_def
    by (subst loop_turn [where h = h and st' = WriteTest and f = "op Test", OF _ _ h(1) r(1)])
      (simp_all add: fsm_next_def fsmWriteVar_def split: sum.splits)
  show ?thesis
  proof (cases r)
    case (Inl e)
    then have no: "\<not> all_pass (syntaxes s) 0 vbs" using r(5) by simp
    show ?thesis
    proof (cases "is_SmiError e")
      case True
      then show ?thesis
        using turn Inl no r(2-4) cleanup_tail [OF assms(1) r(2) assms(4), of WriteTest Err "[]" "Some e"]
        by (simp add: fsm_next_def fsmWriteVar_def)
    next
      case False
      then show ?thesis using turn Inl no r(2-4) by auto
    qed
  next
    case (Inr u)
    then have yes: "all_pass (syntaxes s) 0 vbs" using r(5) by blast
    note tt = all_pass_touched [OF yes]
    obtain s2 where s2: "fsm_pass (op Commit) 0 vbs [] s1 = (Inr (), [], s2)" "wf s2"
      "\<forall>p. p \<notin> touched vbs \<longrightarrow> insts s2 p = insts s1 p"
      "\<forall>p inst. p \<in> touched vbs \<longrightarrow> insts s1 p = Some inst \<longrightarrow>
         (\<exists>inst'. insts s2 p = Some inst' \<and> in_newSyntax inst' = in_newSyntax inst \<and> Some (in_syntax inst') = in_newSyntax inst)"
      using commit_pass [OF r(2), of vbs 0 "[]"] committable [OF r(2) yes r(6)] tt by blast
    have syn: "syntaxes s2 = updated (targets (syntaxes s) 0 vbs) (syntaxes s)"
      using committed [OF r(2) yes r(6) s2(3,4)] r(3) by simp
    have "fsm_loop fsmWriteVar h vbs WriteTest Ok [] None s1 = fsm_loop fsmWriteVar h vbs WriteCommit Ok [] None s2"
      by (subst loop_turn [where h = h and st' = WriteCommit and f = "op Commit", OF _ _ h(2) s2(1)]) (simp_all add: fsm_next_def fsmWriteVar_def)
    moreover have "\<forall>p inst. p \<notin> touched vbs \<longrightarrow> insts s2 p = Some inst \<longrightarrow> in_oldSyntax inst = None"
      using s2(3) r(4) by (auto simp: settled_insts_def)
    ultimately show ?thesis
      using turn Inr yes syn tt cleanup_tail [OF assms(1) s2(2) assms(4), of WriteCommit Ok "[]" None]
      by (simp add: fsm_next_def fsmWriteVar_def)
  qed
qed

end

end
