(* ===== verification/Mib_Walk.thy ===== *)
theory Mib_Walk
  imports Mib_Tree
begin

text \<open>
  Correctness of the walk over the tree of managed objects (\<open>MibTree.readGetNext\<close> and its
  overrides in \<open>smi/mibs/SNMPv2-SMI.py\<close>): what GETNEXT returns is the first instance after the
  given name, in the order of object identifiers, among those it may serve. The loop is
  treated once, for a dictionary of children that each answer for their own part.
\<close>

section \<open>The order of object identifiers and prefixes\<close>

lemma prefix_le: "is_prefix (k :: oid) l \<Longrightarrow> k \<le> l"
proof -
  have "k \<le> k @ ys" for ys :: oid by (induction k) auto
  then show "is_prefix k l \<Longrightarrow> k \<le> l" by (auto simp: is_prefix_iff)
qed

lemma before_all_extensions:
  "(k :: oid) < name \<Longrightarrow> \<not> is_prefix k name \<Longrightarrow> is_prefix k l \<Longrightarrow> l < name"
proof (induction k arbitrary: name l)
  case Nil
  then show ?case by (simp add: is_prefix_def)
next
  case (Cons x k)
  then show ?case by (cases name; cases l) (auto simp: is_prefix_def)
qed

lemma extensions_in_order:
  "(k :: oid) < k' \<Longrightarrow> \<not> is_prefix k k' \<Longrightarrow> is_prefix k l \<Longrightarrow> l < k'"
  by (rule before_all_extensions)

section \<open>The first of the answers in a set of names\<close>

definition first_in :: "(oid \<rightharpoonup> 'r) \<Rightarrow> oid set \<Rightarrow> 'r res \<Rightarrow> 'r res" where
  "first_in A S e = (if dom A \<inter> S = {} then e else Inr (the (A (Min (dom A \<inter> S)))))"

lemma first_in_none: "dom A \<inter> S = {} \<Longrightarrow> first_in A S e = e"
  by (simp add: first_in_def)

lemma first_in_cong: "dom A \<inter> S = dom A \<inter> T \<Longrightarrow> first_in A S e = first_in A T e"
  by (simp add: first_in_def)

lemma first_in_part:
  assumes fin: "finite (dom A)" and ne: "dom B \<inter> S \<noteq> {}"
    and sub: "dom B \<inter> S \<subseteq> dom A \<inter> T" and eq: "\<And>l. l \<in> dom B \<Longrightarrow> A l = B l"
    and le: "\<And>l l'. l \<in> dom B \<inter> S \<Longrightarrow> l' \<in> dom A \<inter> T \<Longrightarrow> l' \<notin> dom B \<inter> S \<Longrightarrow> l < l'"
  shows "first_in A T e = first_in B S e'"
proof -
  have finB: "finite (dom B \<inter> S)" using fin sub by (meson finite_Int finite_subset)
  let ?m = "Min (dom B \<inter> S)"
  have m: "?m \<in> dom B \<inter> S" using Min_in [OF finB ne] .
  have "Min (dom A \<inter> T) = ?m"
  proof (rule Min_eqI)
    show "finite (dom A \<inter> T)" using fin by simp
    show "?m \<in> dom A \<inter> T" using m sub by blast
    fix l assume l: "l \<in> dom A \<inter> T"
    show "?m \<le> l"
    proof (cases "l \<in> dom B \<inter> S")
      case True
      then show ?thesis using finB by simp
    next
      case False
      then show ?thesis using le [OF m l] by simp
    qed
  qed
  with m sub ne eq [of ?m] show ?thesis by (auto simp: first_in_def)
qed

section \<open>The loop\<close>

text \<open>
  A kind of node whose children divide the names between them: child \<open>c\<close> under key \<open>k\<close> answers
  for the names \<open>part k c\<close>, all of them extensions of \<open>k\<close> and before the next key, and visiting it
  finds the first of them from a name on and after the name the walk started from.
\<close>

locale walked =
  fixes vars :: "'n \<Rightarrow> (oid, 'c) odict"
    and branch :: "'n \<Rightarrow> oid \<Rightarrow> (oid \<times> 'c) option"
    and visit :: "oid \<Rightarrow> oid \<Rightarrow> oid \<Rightarrow> 'c \<Rightarrow> 'r res"
    and part :: "oid \<Rightarrow> 'c \<Rightarrow> oid \<rightharpoonup> 'r"
    and answers :: "'n \<Rightarrow> oid \<rightharpoonup> 'r"
    and wf :: "'n \<Rightarrow> bool"
  assumes finite_answers: "wf n \<Longrightarrow> finite (dom (answers n))"
    and parts: "wf n \<Longrightarrow> answers n l = Some r \<longleftrightarrow> (\<exists>k c. map_of (vars n) k = Some c \<and> part k c l = Some r)"
    and under: "wf n \<Longrightarrow> map_of (vars n) k = Some c \<Longrightarrow> l \<in> dom (part k c) \<Longrightarrow> is_prefix k l"
    and apart: "wf n \<Longrightarrow> map_of (vars n) k = Some c \<Longrightarrow> l \<in> dom (part k c) \<Longrightarrow>
      k' \<in> dom (map_of (vars n)) \<Longrightarrow> k < k' \<Longrightarrow> l < k'"
    and visits: "wf n \<Longrightarrow> map_of (vars n) k = Some c \<Longrightarrow> is_prefix k name \<Longrightarrow> start \<le> name \<Longrightarrow>
      \<exists>e. walk_on e \<and> visit start name k c = first_in (part k c) {l. start < l \<and> name \<le> l} (Inl e)"
    and branch_sound: "wf n \<Longrightarrow> branch n name = Some (k, c) \<Longrightarrow> map_of (vars n) k = Some c \<and> is_prefix k name"
    and branch_complete: "wf n \<Longrightarrow> map_of (vars n) k = Some c \<Longrightarrow> is_prefix k name \<Longrightarrow>
      l \<in> dom (part k c) \<Longrightarrow> name \<le> l \<Longrightarrow> branch n name = Some (k, c)"
begin

lemma answer_of: "wf n \<Longrightarrow> l \<in> dom (answers n) \<Longrightarrow> \<exists>k c. map_of (vars n) k = Some c \<and> l \<in> dom (part k c)"
  using parts by (meson domD domI)

lemma child_in:
  "wf n \<Longrightarrow> map_of (vars n) k = Some c \<Longrightarrow> l \<in> dom (part k c) \<Longrightarrow>
    answers n l = part k c l \<and> l \<in> dom (answers n)"
  using parts by (metis domD domI)

lemma key_after:
  assumes "wf n" and k: "map_of (vars n) k = Some c" "l \<in> dom (part k c)" and "name \<le> l"
  shows "name < k \<or> branch n name = Some (k, c)"
proof (cases "is_prefix k name")
  case True
  then show ?thesis using branch_complete [OF assms(1) k(1) True k(2) assms(4)] by simp
next
  case False
  have "k \<noteq> name" using False by (auto simp: is_prefix_def)
  moreover have "\<not> k < name"
    using before_all_extensions [of k name l] False under [OF assms(1) k] assms(4) by auto
  ultimately show ?thesis by auto
qed

definition later :: "'n \<Rightarrow> oid \<Rightarrow> oid set" where
  "later n name = {l. \<exists>k \<in> dom (map_of (vars n)). name < k \<and> is_prefix k l}"

lemma later_after: "l \<in> later n name \<Longrightarrow> start \<le> name \<Longrightarrow> start < l \<and> name \<le> l"
  unfolding later_def using prefix_le by (fastforce dest: order_less_le_trans)

text \<open>When the branch of a name has nothing to offer, what is left are the later keys.\<close>

lemma nothing_here:
  assumes wf: "wf n" and "start \<le> name"
    and no: "\<And>k c. branch n name = Some (k, c) \<Longrightarrow> dom (part k c) \<inter> {l. start < l \<and> name \<le> l} = {}"
  shows "dom (answers n) \<inter> {l. start < l \<and> name \<le> l} = dom (answers n) \<inter> later n name"
proof -
  have "l \<in> later n name" if l: "l \<in> dom (answers n)" "start < l" "name \<le> l" for l
  proof -
    obtain k c where k: "map_of (vars n) k = Some c" "l \<in> dom (part k c)"
      using answer_of [OF wf l(1)] by blast
    then have "name < k" using key_after [OF wf k l(3)] l no by blast
    then show ?thesis using k under [OF wf k] by (auto simp: later_def)
  qed
  then show ?thesis using later_after [OF _ assms(2)] by blast
qed

text \<open>The answer of the branch of a name comes before those of all other keys.\<close>

lemma branch_first:
  assumes wf: "wf n" and "start \<le> name" and br: "branch n name = Some (k, c)"
    and ne: "dom (part k c) \<inter> {l. start < l \<and> name \<le> l} \<noteq> {}"
  shows "first_in (answers n) {l. start < l \<and> name \<le> l} e =
    first_in (part k c) {l. start < l \<and> name \<le> l} e'"
proof (rule first_in_part [OF finite_answers [OF wf] ne])
  have k: "map_of (vars n) k = Some c" "is_prefix k name" using branch_sound [OF wf br] by auto
  show "answers n l = part k c l" if "l \<in> dom (part k c)" for l using child_in [OF wf k(1) that] by simp
  show "dom (part k c) \<inter> {l. start < l \<and> name \<le> l} \<subseteq> dom (answers n) \<inter> {l. start < l \<and> name \<le> l}"
    using child_in [OF wf k(1)] by blast
  fix l l'
  assume l: "l \<in> dom (part k c) \<inter> {l. start < l \<and> name \<le> l}"
    and l': "l' \<in> dom (answers n) \<inter> {l. start < l \<and> name \<le> l}"
      "l' \<notin> dom (part k c) \<inter> {l. start < l \<and> name \<le> l}"
  obtain k' c' where k': "map_of (vars n) k' = Some c'" "l' \<in> dom (part k' c')"
    using answer_of [OF wf] l'(1) by blast
  have "k' \<noteq> k" using k k' l' by auto
  moreover have "\<not> k' < k" using apart [OF wf k'] k l' prefix_le [OF k(2)] by fastforce
  ultimately have "k < k'" by (simp add: not_less_iff_gr_or_eq)
  then have "l < k'" using apart [OF wf k(1), of l k'] l k'(1) by auto
  also have "k' \<le> l'" using under [OF wf k'] by (rule prefix_le)
  finally show "l < l'" .
qed

text \<open>The next key's answers come before those of the keys after it.\<close>

lemma next_first:
  assumes wf: "wf n" and "start \<le> name" and nb: "getNextBranch (vars n) name = Some (k, c)"
    and ne: "dom (part k c) \<inter> {l. start < l \<and> k \<le> l} \<noteq> {}"
  shows "first_in (answers n) (later n name) e = first_in (part k c) {l. start < l \<and> k \<le> l} e'"
proof (rule first_in_part [OF finite_answers [OF wf] ne])
  have k: "map_of (vars n) k = Some c" "k \<in> dom (map_of (vars n))" "name < k"
      "\<And>j. j \<in> dom (map_of (vars n)) \<Longrightarrow> name < j \<Longrightarrow> k \<le> j"
    using nb by (auto simp: getNextBranch_Some_iff next_key_Some_iff finite_dom_map_of)
  show "answers n l = part k c l" if "l \<in> dom (part k c)" for l using child_in [OF wf k(1) that] by simp
  show "dom (part k c) \<inter> {l. start < l \<and> k \<le> l} \<subseteq> dom (answers n) \<inter> later n name"
    using child_in [OF wf k(1)] under [OF wf k(1)] k(2,3) by (fastforce simp: later_def)
  fix l l'
  assume l: "l \<in> dom (part k c) \<inter> {l. start < l \<and> k \<le> l}"
    and l': "l' \<in> dom (answers n) \<inter> later n name" "l' \<notin> dom (part k c) \<inter> {l. start < l \<and> k \<le> l}"
  obtain k' c' where k': "map_of (vars n) k' = Some c'" "l' \<in> dom (part k' c')"
    using answer_of [OF wf] l'(1) by blast
  obtain j where j: "j \<in> dom (map_of (vars n))" "name < j" "is_prefix j l'"
    using l'(1) by (auto simp: later_def)
  have kl': "k \<le> l'" using k(4) [OF j(1,2)] prefix_le [OF j(3)] by simp
  have "k' \<noteq> k" using k k' l' kl' assms(2) by auto
  moreover have "\<not> k' < k" using apart [OF wf k' k(2)] kl' by auto
  ultimately have "k < k'" by (simp add: not_less_iff_gr_or_eq)
  then have "l < k'" using apart [OF wf k(1), of l k'] l k'(1) by auto
  also have "k' \<le> l'" using under [OF wf k'] by (rule prefix_le)
  finally show "l < l'" .
qed

lemma nothing_next:
  assumes wf: "wf n" and "start \<le> name" and nb: "getNextBranch (vars n) name = Some (k, c)"
  shows "dom (answers n) \<inter> {l. start < l \<and> k \<le> l} = dom (answers n) \<inter> later n name"
proof -
  have k: "k \<in> dom (map_of (vars n))" "name < k"
      "\<And>j. j \<in> dom (map_of (vars n)) \<Longrightarrow> name < j \<Longrightarrow> k \<le> j"
    using nb by (auto simp: getNextBranch_Some_iff next_key_Some_iff finite_dom_map_of)
  have "l \<in> later n name" if l: "l \<in> dom (answers n)" "k \<le> l" for l
  proof -
    obtain k' c' where k': "map_of (vars n) k' = Some c'" "l \<in> dom (part k' c')"
      using answer_of [OF wf l(1)] by blast
    have "\<not> k' < k" using apart [OF wf k' k(1)] l(2) by auto
    then have "name < k'" using k(2) by (simp add: not_less)
    then show ?thesis using k' under [OF wf k'] by (auto simp: later_def)
  qed
  moreover have "start < l \<and> k \<le> l" if "l \<in> later n name" for l
    using that k(2,3) assms(2) prefix_le by (fastforce simp: later_def)
  ultimately show ?thesis by blast
qed

theorem walk_loop_first:
  assumes wf: "wf n" and "start \<le> name"
  shows "walk_loop (branch n) (vars n) (visit start) at_end depth name =
    first_in (answers n) (if depth then {l. start < l \<and> name \<le> l} else later n name) at_end"
  using assms(2)
proof (induction "branch n" "vars n" "visit start" at_end depth name rule: walk_loop.induct)
  case (1 at_end depth name)
  show ?case
  proof (cases depth)
    case depth: True
    show ?thesis
    proof (cases "branch n name")
      case None
      then have "first_in (answers n) {l. start < l \<and> name \<le> l} at_end =
        first_in (answers n) (later n name) at_end"
        using nothing_here [OF wf "1.prems"] by (intro first_in_cong) auto
      then show ?thesis
        using "1.hyps"(1) [OF depth None "1.prems"] depth None by (subst walk_loop.simps) simp
    next
      case (Some kc)
      obtain k c where kc: "kc = (k, c)" by (meson surj_pair)
      have k: "map_of (vars n) k = Some c" "is_prefix k name" using branch_sound [OF wf] Some kc by auto
      obtain e where e: "walk_on e"
        "visit start name k c = first_in (part k c) {l. start < l \<and> name \<le> l} (Inl e)"
        using visits [OF wf k "1.prems"] by blast
      show ?thesis
      proof (cases "dom (part k c) \<inter> {l. start < l \<and> name \<le> l} = {}")
        case True
        then have v: "visit start name k c = Inl e" using e(2) by (simp add: first_in_none)
        have "first_in (answers n) (later n name) at_end =
          first_in (answers n) {l. start < l \<and> name \<le> l} at_end"
          using nothing_here [OF wf "1.prems"] Some kc True by (intro first_in_cong) auto
        then show ?thesis
          using "1.hyps"(2) [OF depth Some kc [symmetric] v e(1) "1.prems"] depth Some kc v e(1)
          by (subst walk_loop.simps) simp
      next
        case False
        have "visit start name k c = first_in (answers n) {l. start < l \<and> name \<le> l} at_end"
          using branch_first [OF wf "1.prems" Some [unfolded kc] False, of at_end "Inl e"] e(2) by simp
        moreover obtain r where r: "visit start name k c = Inr r"
          using False e(2) by (simp add: first_in_def)
        ultimately have "first_in (answers n) {l. start < l \<and> name \<le> l} at_end = Inr r" by simp
        with r show ?thesis
          using depth Some kc by (subst walk_loop.simps) simp
      qed
    qed
  next
    case depth: False
    show ?thesis
    proof (cases "getNextBranch (vars n) name")
      case None
      then have "later n name = {}"
        unfolding getNextBranch_None_iff next_key_None_iff later_def using leD by blast
      with None depth show ?thesis
        by (subst walk_loop.simps) (simp add: first_in_none)
    next
      case (Some kc)
      obtain k c where kc: "kc = (k, c)" by (meson surj_pair)
      have k: "map_of (vars n) k = Some c" "name < k"
        using Some kc by (auto simp: getNextBranch_Some_iff next_key_Some_iff finite_dom_map_of)
      then have sk: "start \<le> k" "is_prefix k k" using "1.prems" by (auto simp: is_prefix_def)
      obtain e where e: "walk_on e"
        "visit start k k c = first_in (part k c) {l. start < l \<and> k \<le> l} (Inl e)"
        using visits [OF wf k(1) sk(2,1)] by blast
      show ?thesis
      proof (cases "dom (part k c) \<inter> {l. start < l \<and> k \<le> l} = {}")
        case True
        then have v: "visit start k k c = Inl e" using e(2) by (simp add: first_in_none)
        have "first_in (answers n) {l. start < l \<and> k \<le> l} at_end = first_in (answers n) (later n name) at_end"
          using nothing_next [OF wf "1.prems"] Some kc by (intro first_in_cong) auto
        then show ?thesis
          using "1.hyps"(3) [OF depth Some kc [symmetric] v e(1) sk(1)] depth Some kc v e(1)
          by (subst walk_loop.simps) simp
      next
        case False
        have "visit start k k c = first_in (answers n) (later n name) at_end"
          using next_first [OF wf "1.prems" Some [unfolded kc] False, of at_end "Inl e"] e(2) by simp
        moreover obtain r where r: "visit start k k c = Inr r"
          using False e(2) by (simp add: first_in_def)
        ultimately have "first_in (answers n) (later n name) at_end = Inr r" by simp
        with r show ?thesis
          using depth Some kc by (subst walk_loop.simps) simp
      qed
    qed
  qed
qed

end

section \<open>What a node answers for\<close>

definition instance_value :: "mib_instance \<Rightarrow> snmp_value option" where
  "instance_value inst = Option.bind (in_syntax inst) sx_value"

definition leaf :: "oid \<Rightarrow> mib_instance \<Rightarrow> oid \<rightharpoonup> var_bind" where
  "leaf k inst = (case instance_value inst of None \<Rightarrow> Map.empty | Some v \<Rightarrow> [k \<mapsto> (k, v)])"

definition cells :: "(oid, mib_instance) odict \<Rightarrow> oid \<rightharpoonup> var_bind" where
  "cells d l = map_option (Pair l) (Option.bind (map_of d l) instance_value)"

definition healthy :: "(oid, mib_instance) odict \<Rightarrow> bool" where
  "healthy d \<longleftrightarrow> (\<forall>k inst. map_of d k = Some inst \<longrightarrow> in_syntax inst \<noteq> None)"

text \<open>A scalar or a column answers for its cells if it may be read at all.\<close>

definition object_part :: "ac_fun option \<Rightarrow> nat \<Rightarrow> oid \<Rightarrow> (mib_instance, 'z) mib_node_scheme \<Rightarrow> oid \<rightharpoonup> var_bind" where
  "object_part ac idx k n =
     (if read_check ac idx (mn_maxAccess n) (mn_syntax n) k = Inr () then cells (mn_vars n) else Map.empty)"

text \<open>Access is decided object by object: the answer is the same for all names under one.\<close>

definition decided_at :: "ac_fun option \<Rightarrow> nat \<Rightarrow> oid \<Rightarrow> (mib_instance, 'z) mib_node_scheme \<Rightarrow> bool" where
  "decided_at ac idx k n \<longleftrightarrow>
     (\<forall>name. is_prefix k name \<longrightarrow> read_check ac idx (mn_maxAccess n) (mn_syntax n) name =
        read_check ac idx (mn_maxAccess n) (mn_syntax n) k) \<and>
     (case read_check ac idx (mn_maxAccess n) (mn_syntax n) k of Inr _ \<Rightarrow> True | Inl e \<Rightarrow> walk_on e)"

text \<open>The answers of the children together.\<close>

definition all_parts :: "(oid \<Rightarrow> 'c \<Rightarrow> oid \<rightharpoonup> 'r) \<Rightarrow> (oid, 'c) odict \<Rightarrow> oid \<rightharpoonup> 'r" where
  "all_parts part d l =
     Option.bind (find (\<lambda>k. part k (the (map_of d k)) l \<noteq> None) (map fst d)) (\<lambda>k. part k (the (map_of d k)) l)"

definition dividing :: "(oid \<Rightarrow> 'c \<Rightarrow> oid \<rightharpoonup> 'r) \<Rightarrow> (oid, 'c) odict \<Rightarrow> bool" where
  "dividing part d \<longleftrightarrow>
     (\<forall>k c l. map_of d k = Some c \<longrightarrow> l \<in> dom (part k c) \<longrightarrow>
        is_prefix k l \<and> (\<forall>k' \<in> dom (map_of d). k < k' \<longrightarrow> l < k'))"

lemma dividing_unique:
  assumes "dividing part d" and "map_of d k = Some c" and "l \<in> dom (part k c)"
    and "map_of d k' = Some c'" and "l \<in> dom (part k' c')"
  shows "k' = k"
proof (rule ccontr)
  assume "k' \<noteq> k"
  then consider "k < k'" | "k' < k" by (meson neqE)
  then show False
  proof cases
    case 1
    then have "l < k'" "is_prefix k' l" using assms unfolding dividing_def by blast+
    then show False using prefix_le [of k' l] by simp
  next
    case 2
    then have "l < k" "is_prefix k l" using assms unfolding dividing_def by blast+
    then show False using prefix_le [of k l] by simp
  qed
qed

lemma all_parts_iff:
  assumes "dividing part d"
  shows "all_parts part d l = Some r \<longleftrightarrow> (\<exists>k c. map_of d k = Some c \<and> part k c l = Some r)"
proof -
  let ?P = "\<lambda>k. part k (the (map_of d k)) l \<noteq> None"
  have key: "\<exists>c. map_of d k = Some c" if "k \<in> set (map fst d)" for k
    using that by (metis dom_odict domD list.set_map)
  have mem: "k \<in> set (map fst d)" if "map_of d k = Some c" for k c
    using that by (metis domI dom_odict list.set_map)
  show ?thesis
  proof (cases "find ?P (map fst d)")
    case None
    then have "\<not> (\<exists>k c. map_of d k = Some c \<and> part k c l = Some r)"
      using mem by (fastforce simp: find_None_iff)
    with None show ?thesis by (simp add: all_parts_def)
  next
    case (Some k)
    then have k: "?P k" "k \<in> set (map fst d)" by (auto simp: find_Some_iff)
    then obtain c where c: "map_of d k = Some c" using key by blast
    then have "l \<in> dom (part k c)" using k(1) by auto
    then have "\<And>k' c'. map_of d k' = Some c' \<Longrightarrow> part k' c' l = Some r \<Longrightarrow> k' = k"
      using dividing_unique [OF assms c] by blast
    with Some c show ?thesis by (auto simp: all_parts_def)
  qed
qed

lemma all_parts_finite:
  assumes "dividing part d" and "\<And>k c. map_of d k = Some c \<Longrightarrow> finite (dom (part k c))"
  shows "finite (dom (all_parts part d))"
proof -
  have "dom (all_parts part d) \<subseteq> (\<Union>k \<in> dom (map_of d). dom (part k (the (map_of d k))))"
    using all_parts_iff [OF assms(1)] by fastforce
  moreover have "finite (\<Union>k \<in> dom (map_of d). dom (part k (the (map_of d k))))"
    using assms(2) by (intro finite_UN_I) (auto simp: finite_dom_map_of)
  ultimately show ?thesis by (rule finite_subset)
qed

section \<open>Instances under a scalar or a column\<close>

lemma leaf_iff: "leaf k inst l = Some r \<longleftrightarrow> l = k \<and> (\<exists>v. instance_value inst = Some v \<and> r = (k, v))"
  by (auto simp: leaf_def split: option.splits if_splits)

lemma leaf_dom: "dom (leaf k inst) = (if instance_value inst = None then {} else {k})"
  by (auto simp: leaf_def split: option.splits)

lemma cells_iff:
  "cells d l = Some r \<longleftrightarrow> (\<exists>inst v. map_of d l = Some inst \<and> instance_value inst = Some v \<and> r = (l, v))"
  by (auto simp: cells_def bind_eq_Some_conv)

lemma cells_parts: "cells d l = Some r \<longleftrightarrow> (\<exists>k c. map_of d k = Some c \<and> leaf k c l = Some r)"
  by (auto simp: cells_iff leaf_iff)

lemma cells_finite: "finite (dom (cells d))"
proof (rule finite_subset)
  show "dom (cells d) \<subseteq> dom (map_of d)" by (auto simp: cells_iff)
qed (rule finite_dom_map_of)

lemma instance_visit:
  assumes "in_syntax inst \<noteq> None" and "is_prefix k name" and "start \<le> name"
  shows "\<exists>e. walk_on e \<and> instance_readGetNext idx start name k inst =
    first_in (leaf k inst) {l. start < l \<and> name \<le> l} (Inl e)"
proof -
  have w: "walk_on (smi_at NoSuchInstanceErr idx)" by (simp add: walk_on_def smi_at_def)
  obtain sx where sx: "in_syntax inst = Some sx" using assms(1) by auto
  show ?thesis
  proof (cases "name = k \<and> start < name \<and> sx_value sx \<noteq> None")
    case True
    then have "dom (leaf k inst) \<inter> {l. start < l \<and> name \<le> l} = {k}"
      using sx True by (simp add: leaf_dom instance_value_def)
    then show ?thesis using True sx w
      by (auto simp: instance_readGetNext_def instance_readGet_def isValue_def first_in_def leaf_def
          instance_value_def)
  next
    case False
    have "name \<le> k \<Longrightarrow> name = k" using prefix_le [OF assms(2)] by simp
    then have "dom (leaf k inst) \<inter> {l. start < l \<and> name \<le> l} = {}"
      using False sx by (auto simp add: leaf_dom instance_value_def split: if_splits)
    then show ?thesis using False sx w
      by (auto simp: instance_readGetNext_def isValue_def first_in_none)
  qed
qed

interpretation scalar: walked "\<lambda>d. d" getBranch "instance_readGetNext idx" leaf cells healthy
proof unfold_locales
  show "\<And>n. finite (dom (cells n))" by (rule cells_finite)
  show "cells n l = Some r \<longleftrightarrow> (\<exists>k c. map_of n k = Some c \<and> leaf k c l = Some r)" for n l r
    by (rule cells_parts)
  show "\<exists>e. walk_on e \<and> instance_readGetNext idx start name k c =
      first_in (leaf k c) {l. start < l \<and> name \<le> l} (Inl e)"
    if "healthy n" "map_of n k = Some c" "is_prefix k name" "start \<le> name" for n k c name start
    using that instance_visit by (simp add: healthy_def)
  show "map_of n k = Some c \<and> is_prefix k name" if "getBranch n name = Some (k, c)" for n name k c
    using that by (simp add: getBranch_eq longest_prefix_def)
  show "getBranch n name = Some (k, c)"
    if "map_of n k = Some c" "is_prefix k name" "l \<in> dom (leaf k c)" "name \<le> l" for n k c name l
  proof -
    have "name = k" using that(3,4) prefix_le [OF that(2)] by (auto simp: leaf_dom split: if_splits)
    then show ?thesis
      using that(1,2) is_prefix_length by (auto simp: getBranch_eq longest_prefix_def)
  qed
qed (simp_all add: leaf_dom is_prefix_def split: if_splits)

interpretation column: walked "\<lambda>d. d" column_getBranch "instance_readGetNext idx" leaf cells healthy
proof unfold_locales
  show "\<exists>e. walk_on e \<and> instance_readGetNext idx start name k c =
      first_in (leaf k c) {l. start < l \<and> name \<le> l} (Inl e)"
    if "healthy n" "map_of n k = Some c" "is_prefix k name" "start \<le> name" for n k c name start
    using that instance_visit by (simp add: healthy_def)
  show "map_of n k = Some c \<and> is_prefix k name" if "column_getBranch n name = Some (k, c)" for n name k c
    using that by (auto simp: column_getBranch_def named_def is_prefix_def)
  show "column_getBranch n name = Some (k, c)"
    if "map_of n k = Some c" "is_prefix k name" "l \<in> dom (leaf k c)" "name \<le> l" for n k c name l
    using that prefix_le [of k name] by (auto simp: column_getBranch_def named_def leaf_dom split: if_splits)
qed (simp_all add: leaf_dom is_prefix_def cells_finite cells_parts split: if_splits)

section \<open>Scalars and columns under a row or the root\<close>

lemma object_part_finite: "finite (dom (object_part ac idx k n))"
  by (simp add: object_part_def cells_finite)

lemma object_visit:
  assumes "decided_at ac idx k n" and "is_prefix k name"
    and loop: "walk_loop branch (mn_vars n) (instance_readGetNext idx start)
      (Inl (smi_at NoSuchInstanceErr idx)) True name =
      first_in (cells (mn_vars n)) {l. start < l \<and> name \<le> l} (Inl (smi_at NoSuchInstanceErr idx))"
  shows "\<exists>e. walk_on e \<and> scalar_walk branch instance_readGetNext ac idx start name n =
    first_in (object_part ac idx k n) {l. start < l \<and> name \<le> l} (Inl e)"
proof -
  let ?check = "read_check ac idx (mn_maxAccess n) (mn_syntax n)"
  have same: "?check name = ?check k" using assms(1,2) by (simp add: decided_at_def)
  show ?thesis
  proof (cases "?check k")
    case (Inl e)
    then have "walk_on e" using assms(1) by (simp add: decided_at_def)
    with Inl same show ?thesis by (auto simp: scalar_walk_def object_part_def first_in_none)
  next
    case (Inr u)
    have "walk_on (smi_at NoSuchInstanceErr idx)" by (simp add: walk_on_def smi_at_def)
    with Inr same loop show ?thesis by (auto simp: scalar_walk_def object_part_def)
  qed
qed

definition object_wf :: "ac_fun option \<Rightarrow> nat \<Rightarrow> oid \<Rightarrow> (mib_instance, 'z) mib_node_scheme \<Rightarrow> bool" where
  "object_wf ac idx k n \<longleftrightarrow> healthy (mn_vars n) \<and> decided_at ac idx k n \<and>
     (\<forall>l \<in> dom (map_of (mn_vars n)). is_prefix k l)"

definition alone :: "(oid, 'c) odict \<Rightarrow> oid \<Rightarrow> bool" where
  "alone d k \<longleftrightarrow> (\<forall>k' \<in> dom (map_of d). is_prefix k k' \<longrightarrow> k' = k)"

definition row_wf :: "ac_fun option \<Rightarrow> nat \<Rightarrow> (oid, mib_column) odict \<Rightarrow> bool" where
  "row_wf ac idx d \<longleftrightarrow> (\<forall>c col. map_of d c = Some col \<longrightarrow> object_wf ac idx c col \<and> alone d c)"

lemma object_part_under: "object_wf ac idx k n \<Longrightarrow> l \<in> dom (object_part ac idx k n) \<Longrightarrow> is_prefix k l"
proof -
  assume "object_wf ac idx k n" and "l \<in> dom (object_part ac idx k n)"
  then have "l \<in> dom (cells (mn_vars n))" by (simp add: object_part_def split: if_splits)
  then have "l \<in> dom (map_of (mn_vars n))" by (auto simp: cells_iff)
  with \<open>object_wf ac idx k n\<close> show "is_prefix k l" by (simp add: object_wf_def)
qed

lemma prefixes_comparable:
  assumes "is_prefix a x" and "is_prefix b x" and "length a \<le> length b"
  shows "is_prefix a b"
proof -
  have "take (length a) b = take (length a) (take (length b) x)" using assms(2) by (simp add: is_prefix_def)
  also have "\<dots> = a" using assms(1,3) by (simp add: is_prefix_def min.absorb1)
  finally show ?thesis by (simp add: is_prefix_def)
qed

lemma alone_apart:
  assumes "alone d k" and "is_prefix k l" and "k' \<in> dom (map_of d)" and "k < k'"
  shows "l < k'"
  using assms extensions_in_order [OF assms(4)] by (auto simp: alone_def)

lemma branch_alone:
  assumes "map_of d k = Some c" and "is_prefix k name" and "alone d k"
  shows "getBranch d name = Some (k, c)"
proof -
  have "length j \<le> length k" if "j \<in> dom (map_of d)" "is_prefix j name" for j
  proof (rule ccontr)
    assume "\<not> length j \<le> length k"
    then have "is_prefix k j" using prefixes_comparable [OF assms(2) that(2)] by simp
    then show False using assms(3) that(1) \<open>\<not> length j \<le> length k\<close> by (auto simp: alone_def)
  qed
  then show ?thesis using assms(1,2) by (auto simp: getBranch_eq longest_prefix_def)
qed

lemma row_dividing: "row_wf ac idx d \<Longrightarrow> dividing (object_part ac idx) d"
  unfolding dividing_def row_wf_def using object_part_under alone_apart by blast

interpretation row: walked "\<lambda>d. d" getBranch
  "\<lambda>start name k col. scalar_walk (column_getBranch (mn_vars col)) instance_readGetNext ac idx start name col"
  "object_part ac idx" "all_parts (object_part ac idx)" "row_wf ac idx"
proof unfold_locales
  fix n :: "(oid, mib_column) odict"
  assume n: "row_wf ac idx n"
  note div = row_dividing [OF n]
  show "finite (dom (all_parts (object_part ac idx) n))"
    using div object_part_finite by (rule all_parts_finite)
  show "all_parts (object_part ac idx) n l = Some r \<longleftrightarrow>
      (\<exists>k c. map_of n k = Some c \<and> object_part ac idx k c l = Some r)" for l r
    using div by (rule all_parts_iff)
  show "is_prefix k l" if "map_of n k = Some c" "l \<in> dom (object_part ac idx k c)" for k c l
    using div that by (simp add: dividing_def)
  show "l < k'" if "map_of n k = Some c" "l \<in> dom (object_part ac idx k c)" "k' \<in> dom (map_of n)" "k < k'"
    for k c l k' using div that by (simp add: dividing_def)
  show "\<exists>e. walk_on e \<and> scalar_walk (column_getBranch (mn_vars c)) instance_readGetNext ac idx start name c =
      first_in (object_part ac idx k c) {l. start < l \<and> name \<le> l} (Inl e)"
    if "map_of n k = Some c" "is_prefix k name" "start \<le> name" for k c name start
    using n that column.walk_loop_first [of "mn_vars c" start name idx "Inl (smi_at NoSuchInstanceErr idx)" True]
    by (intro object_visit) (auto simp: row_wf_def object_wf_def)
  show "map_of n k = Some c \<and> is_prefix k name" if "getBranch n name = Some (k, c)" for name k c
    using that by (simp add: getBranch_eq longest_prefix_def)
  show "getBranch n name = Some (k, c)" if "map_of n k = Some c" "is_prefix k name" for k c name
    using branch_alone [OF that] n that(1) by (auto simp: row_wf_def)
qed

section \<open>The root\<close>

fun branch_part :: "ac_fun option \<Rightarrow> nat \<Rightarrow> oid \<Rightarrow> mib_branch \<Rightarrow> oid \<rightharpoonup> var_bind" where
  "branch_part ac idx k (Scalar n) = object_part ac idx k n"
| "branch_part ac idx k (Row row) = all_parts (object_part ac idx) (mn_vars row)"
| "branch_part ac idx k (Table t) = Map.empty"

fun branch_wf :: "ac_fun option \<Rightarrow> nat \<Rightarrow> (oid, mib_branch) odict \<Rightarrow> oid \<Rightarrow> mib_branch \<Rightarrow> bool" where
  "branch_wf ac idx d k (Scalar n) = (object_wf ac idx k n \<and> alone d k)"
| "branch_wf ac idx d k (Row row) =
     (row_wf ac idx (mn_vars row) \<and> (\<forall>c \<in> dom (map_of (mn_vars row)). is_prefix k c) \<and> alone d k)"
| "branch_wf ac idx d k (Table t) = (mn_vars t = [])"

definition tree_wf :: "ac_fun option \<Rightarrow> nat \<Rightarrow> (oid, mib_branch) odict \<Rightarrow> bool" where
  "tree_wf ac idx d \<longleftrightarrow> (\<forall>k b. map_of d k = Some b \<longrightarrow> branch_wf ac idx d k b)"

lemma is_prefix_trans: "is_prefix a b \<Longrightarrow> is_prefix b c \<Longrightarrow> is_prefix a c"
  by (auto simp: is_prefix_iff)

lemma branch_part_under:
  assumes "branch_wf ac idx d k b" and "l \<in> dom (branch_part ac idx k b)"
  shows "is_prefix k l \<and> alone d k"
proof (cases b)
  case (Scalar n)
  with assms show ?thesis using object_part_under by fastforce
next
  case (Row row)
  with assms(2) obtain r where "all_parts (object_part ac idx) (mn_vars row) l = Some r" by auto
  moreover have wf: "row_wf ac idx (mn_vars row)" "alone d k"
      "\<forall>c \<in> dom (map_of (mn_vars row)). is_prefix k c"
    using Row assms(1) by auto
  ultimately obtain c col where c: "map_of (mn_vars row) c = Some col" "object_part ac idx c col l = Some r"
    using row.parts by blast
  then have "object_wf ac idx c col" using wf(1) by (simp add: row_wf_def)
  then have "is_prefix c l" using c(2) object_part_under by blast
  with wf c(1) show ?thesis using is_prefix_trans by blast
qed (use assms in simp)

lemma branch_part_finite: "branch_wf ac idx d k b \<Longrightarrow> finite (dom (branch_part ac idx k b))"
  by (cases b) (simp_all add: object_part_finite row.finite_answers)

lemma tree_dividing: "tree_wf ac idx d \<Longrightarrow> dividing (branch_part ac idx) d"
  unfolding dividing_def tree_wf_def using branch_part_under alone_apart by blast

lemma branch_visit:
  assumes "branch_wf ac idx d k b" and "is_prefix k name" and "start \<le> name"
  shows "\<exists>e. walk_on e \<and> branch_walk instance_readGetNext ac idx start name b =
    first_in (branch_part ac idx k b) {l. start < l \<and> name \<le> l} (Inl e)"
proof (cases b)
  case (Scalar n)
  then show ?thesis
    using assms scalar.walk_loop_first [of "mn_vars n" start name idx "Inl (smi_at NoSuchInstanceErr idx)" True]
    by (simp, intro object_visit) (auto simp: object_wf_def)
next
  case (Row row)
  have "walk_on (smi_at NoSuchObjectErr idx)" by (simp add: walk_on_def smi_at_def)
  with Row assms row.walk_loop_first [of ac idx "mn_vars row" start name "Inl (smi_at NoSuchObjectErr idx)" True]
  show ?thesis by auto
next
  case (Table t)
  have "walk_on (smi_at NoSuchObjectErr idx)" by (simp add: walk_on_def smi_at_def)
  moreover have "getBranch ([] :: (oid, unit) odict) name = None"
    "getNextBranch ([] :: (oid, unit) odict) name = None"
    by (simp_all add: getBranch_def vars_lens_def getNextBranch_eq next_key_def)
  then have "branch_walk instance_readGetNext ac idx start name b = Inl (smi_at NoSuchObjectErr idx)"
    using Table assms(1) by (simp add: walk_loop.simps)
  ultimately show ?thesis using Table by (auto simp: first_in_none)
qed

interpretation tree: walked "\<lambda>d. d" getBranch
  "\<lambda>start name k b. branch_walk instance_readGetNext ac idx start name b"
  "branch_part ac idx" "all_parts (branch_part ac idx)" "tree_wf ac idx"
proof unfold_locales
  fix n :: "(oid, mib_branch) odict"
  assume n: "tree_wf ac idx n"
  note div = tree_dividing [OF n]
  have wf: "branch_wf ac idx n k b" if "map_of n k = Some b" for k b
    using n that by (simp add: tree_wf_def)
  show "finite (dom (all_parts (branch_part ac idx) n))"
    using div branch_part_finite [OF wf] by (rule all_parts_finite)
  show "all_parts (branch_part ac idx) n l = Some r \<longleftrightarrow>
      (\<exists>k c. map_of n k = Some c \<and> branch_part ac idx k c l = Some r)" for l r
    using div by (rule all_parts_iff)
  show "is_prefix k l" if "map_of n k = Some c" "l \<in> dom (branch_part ac idx k c)" for k c l
    using div that by (simp add: dividing_def)
  show "l < k'" if "map_of n k = Some c" "l \<in> dom (branch_part ac idx k c)" "k' \<in> dom (map_of n)" "k < k'"
    for k c l k' using div that by (simp add: dividing_def)
  show "\<exists>e. walk_on e \<and> branch_walk instance_readGetNext ac idx start name c =
      first_in (branch_part ac idx k c) {l. start < l \<and> name \<le> l} (Inl e)"
    if "map_of n k = Some c" "is_prefix k name" "start \<le> name" for k c name start
    using branch_visit [OF wf] that by blast
  show "map_of n k = Some c \<and> is_prefix k name" if "getBranch n name = Some (k, c)" for name k c
    using that by (simp add: getBranch_eq longest_prefix_def)
  show "getBranch n name = Some (k, c)"
    if "map_of n k = Some c" "is_prefix k name" "l \<in> dom (branch_part ac idx k c)" for k c name l
    using branch_alone [OF that(1,2)] branch_part_under [OF wf [OF that(1)] that(3)] by blast
qed

section \<open>GETNEXT\<close>

text \<open>The objects of a tree: its scalars and the columns of its rows.\<close>

definition is_object :: "mib_tree \<Rightarrow> oid \<Rightarrow> mib_instance mib_node \<Rightarrow> bool" where
  "is_object t k n \<longleftrightarrow> map_of (mn_vars t) k = Some (Scalar n) \<or>
     (\<exists>r row col. map_of (mn_vars t) r = Some (Row row) \<and> map_of (mn_vars row) k = Some col \<and>
        n = mib_node.truncate col)"

definition served :: "ac_fun option \<Rightarrow> nat \<Rightarrow> mib_tree \<Rightarrow> oid \<Rightarrow> snmp_value \<Rightarrow> bool" where
  "served ac idx t l v \<longleftrightarrow> (\<exists>k n inst. is_object t k n \<and>
     read_check ac idx (mn_maxAccess n) (mn_syntax n) k = Inr () \<and>
     map_of (mn_vars n) l = Some inst \<and> instance_value inst = Some v)"

lemma object_part_truncate [simp]:
  "object_part ac idx k (mib_node.truncate n) = object_part ac idx k n"
  by (simp add: object_part_def mib_node.truncate_def)

lemma object_part_iff:
  "object_part ac idx k n l = Some r \<longleftrightarrow> read_check ac idx (mn_maxAccess n) (mn_syntax n) k = Inr () \<and>
    (\<exists>inst v. map_of (mn_vars n) l = Some inst \<and> instance_value inst = Some v \<and> r = (l, v))"
  by (auto simp: object_part_def cells_iff)

lemma served_objects: "served ac idx t l v \<longleftrightarrow> (\<exists>k n. is_object t k n \<and> object_part ac idx k n l = Some (l, v))"
  by (auto simp: served_def object_part_iff)

lemma answers_objects:
  assumes "tree_wf ac idx (mn_vars t)"
  shows "all_parts (branch_part ac idx) (mn_vars t) l = Some r \<longleftrightarrow>
    (\<exists>k n. is_object t k n \<and> object_part ac idx k n l = Some r)"
proof -
  have row: "all_parts (object_part ac idx) (mn_vars row) l = Some r \<longleftrightarrow>
      (\<exists>c col. map_of (mn_vars row) c = Some col \<and> object_part ac idx c col l = Some r)"
    if "map_of (mn_vars t) k = Some (Row row)" for k row
    using assms that by (intro row.parts) (fastforce simp: tree_wf_def)
  have "(\<exists>k b. map_of (mn_vars t) k = Some b \<and> branch_part ac idx k b l = Some r) \<longleftrightarrow>
      (\<exists>k n. is_object t k n \<and> object_part ac idx k n l = Some r)" (is "?L \<longleftrightarrow> ?R")
  proof
    assume ?L
    then obtain k b where b: "map_of (mn_vars t) k = Some b" "branch_part ac idx k b l = Some r" by blast
    then show ?R
    proof (cases b)
      case (Row rw)
      with b row obtain c col where "map_of (mn_vars rw) c = Some col" "object_part ac idx c col l = Some r"
        by auto
      with b(1) Row show ?R unfolding is_object_def by (metis object_part_truncate)
    qed (auto simp: is_object_def)
  next
    assume ?R
    then show ?L unfolding is_object_def using row
      by (metis branch_part.simps(1,2) object_part_truncate)
  qed
  then show ?thesis using tree.parts [OF assms] by blast
qed

lemma getnext_first:
  assumes "tree_wf ac idx (mn_vars t)"
  shows "mib_readGetNext ac idx name t =
    first_in (all_parts (branch_part ac idx) (mn_vars t)) {l. name < l} (Inr (name, VEndOfMibView))"
proof -
  have "{l. name < l \<and> name \<le> l} = {l. name < l}" by auto
  then show ?thesis
    using tree.walk_loop_first [OF assms order_refl [of name], where depth = True]
    by (simp add: mib_readGetNext_def mib_walk_def)
qed

text \<open>What a tree serves, as one map from names to answers.\<close>

lemma served_map:
  assumes "tree_wf ac idx (mn_vars t)"
  defines "A \<equiv> all_parts (branch_part ac idx) (mn_vars t)"
  shows "served ac idx t l v \<longleftrightarrow> A l = Some (l, v)" and "l \<in> dom A \<Longrightarrow> \<exists>v. A l = Some (l, v)" and "finite (dom A)"
    and "mib_readGetNext ac idx name t = first_in A {l. name < l} (Inr (name, VEndOfMibView))"
proof -
  show "served ac idx t l v \<longleftrightarrow> A l = Some (l, v)"
    unfolding A_def served_objects answers_objects [OF assms(1)] ..
  show "\<exists>v. A l = Some (l, v)" if "l \<in> dom A"
  proof -
    from that obtain r where r: "A l = Some r" by blast
    then obtain k and n :: "mib_instance mib_node" where "object_part ac idx k n l = Some r"
      unfolding A_def answers_objects [OF assms(1)] by blast
    then obtain v where "r = (l, v)" unfolding object_part_iff by blast
    with r show ?thesis by simp
  qed
  show "finite (dom A)" using tree.finite_answers [OF assms(1)] by (simp add: A_def)
  show "mib_readGetNext ac idx name t = first_in A {l. name < l} (Inr (name, VEndOfMibView))"
    using getnext_first [OF assms(1)] by (simp add: A_def)
qed

text \<open>
  (C9) GETNEXT returns the next variable. On a tree in which no object lies under another, no
  syntax is lost and access is decided object by object, it returns, for any name, the first
  instance after that name that has a value and belongs to an object that may be read, with
  its value; and when there is none it answers \<open>endOfMibView\<close> for the name itself. The walk,
  which tries branches depth first and goes on to the next one on a refusal, never misses an
  instance and always ends.
\<close>

theorem getnext_successor:
  assumes "tree_wf ac idx (mn_vars t)"
  shows "if \<exists>l v. name < l \<and> served ac idx t l v
    then \<exists>l v. mib_readGetNext ac idx name t = Inr (l, v) \<and> name < l \<and> served ac idx t l v \<and>
      (\<forall>l' v'. name < l' \<longrightarrow> served ac idx t l' v' \<longrightarrow> l \<le> l')
    else mib_readGetNext ac idx name t = Inr (name, VEndOfMibView)"
proof -
  define A where "A = all_parts (branch_part ac idx) (mn_vars t)"
  note A = served_map [OF assms, folded A_def]
  note served = A(1) and nxt = A(4)
  have fin: "finite (dom A \<inter> {l. name < l})" using A(3) by simp
  show ?thesis
  proof (cases "dom A \<inter> {l. name < l} = {}")
    case True
    then have "\<not> (\<exists>l v. name < l \<and> served ac idx t l v)" by (auto simp: served)
    with True nxt show ?thesis by (simp add: first_in_none)
  next
    case False
    let ?l = "Min (dom A \<inter> {l. name < l})"
    have l: "?l \<in> dom A" "name < ?l" using Min_in [OF fin False] by auto
    obtain v where v: "A ?l = Some (?l, v)" using A(2) [OF l(1)] by blast
    have "?l \<le> l'" if "name < l'" "served ac idx t l' v'" for l' v'
      using that fin by (intro Min_le) (auto simp: served)
    moreover have "mib_readGetNext ac idx name t = Inr (?l, v)" using nxt False v by (simp add: first_in_def)
    ultimately show ?thesis using l v served by (auto simp: served)
  qed
qed

text \<open>A scalar with one instance and a table with one column and two rows.\<close>

definition plain :: "int \<Rightarrow> mib_syntax" where
  "plain n = \<lparr>sx_convention = Plain, sx_clone = Some, sx_value = Some (VInteger n)\<rparr>"

definition cell :: "int \<Rightarrow> mib_instance" where
  "cell n = \<lparr>in_syntax = Some (plain n), in_oldSyntax = None, in_newSyntax = None, in_branchVersionId = 0\<rparr>"

definition sample_scalar :: "mib_instance mib_node" where
  "sample_scalar = \<lparr>mn_maxAccess = readwrite, mn_syntax = Some (plain 0),
     mn_vars = [([1, 1, 0], cell 7)], mn_branchVersionId = 0\<rparr>"

definition sample_column :: mib_column where
  "sample_column = \<lparr>mn_maxAccess = readwrite, mn_syntax = Some (plain 0),
     mn_vars = [([1, 2, 1, 2, 5], cell 50), ([1, 2, 1, 2, 4], cell 40)], mn_branchVersionId = 0,
     mc_createdInstances = Map.empty, mc_destroyedInstances = Map.empty, mc_rowOpWanted = Map.empty,
     mc_optional = False\<rparr>"

definition sample_row :: mib_row where
  "sample_row = \<lparr>mn_maxAccess = not_accessible, mn_syntax = None, mn_vars = [([1, 2, 1, 2], sample_column)],
     mn_branchVersionId = 0, mr_indexNames = [], mr_augmentingRows = []\<rparr>"

definition sample_tree :: mib_tree where
  "sample_tree = \<lparr>mn_maxAccess = not_accessible, mn_syntax = None,
     mn_vars = [([1, 2, 1], Row sample_row),
       ([1, 2], Table \<lparr>mn_maxAccess = not_accessible, mn_syntax = None, mn_vars = [], mn_branchVersionId = 0\<rparr>),
       ([1, 1], Scalar sample_scalar)],
     mn_branchVersionId = 0\<rparr>"

lemmas sample_defs = sample_tree_def sample_row_def sample_column_def sample_scalar_def cell_def plain_def

lemma decided_without_control: "decided_at None idx k n"
  by (simp add: decided_at_def read_check_def)

lemma sample_tree_wf: "tree_wf None idx (mn_vars sample_tree)"
  by (auto simp: tree_wf_def sample_defs object_wf_def row_wf_def healthy_def alone_def is_prefix_def
      decided_without_control split: if_splits)

theorem getnext_successor_witness:
  "mib_readGetNext None 0 [1, 2, 0, 9] sample_tree = Inr ([1, 2, 1, 2, 4], VInteger 40) \<and>
   (\<nexists>l v. [1, 2, 0, 9] < l \<and> served None 0 sample_tree l v \<and> l < [1, 2, 1, 2, 4])"
proof -
  have r: "mib_readGetNext None 0 [1, 2, 0, 9] sample_tree = Inr ([1, 2, 1, 2, 4], VInteger 40)" by code_simp
  then show ?thesis
    using getnext_successor [OF sample_tree_wf, of "[1, 2, 0, 9]" 0] by (auto simp: not_less split: if_splits)
qed

text \<open>
  What may not be seen can be reached by GETNEXT. Access is asked for the name the walk comes
  from and never for the instance it arrives at: where only the instance
  \<open>1.2.1.2.4\<close> is out of the view, a GETNEXT from the table returns it all the same, and a
  GETNEXT from that instance skips the rest of the column, whose other instance is in the
  view.
\<close>

theorem getnext_ignores_instance_view:
  "let ac = (\<lambda>name sx idx vt. Inr (name = [1, 2, 1, 2, 4])) in
   mib_readGetNext (Some ac) 0 [1, 2] sample_tree = Inr ([1, 2, 1, 2, 4], VInteger 40) \<and>
   mib_readGetNext (Some ac) 0 [1, 2, 1, 2, 4] sample_tree = Inr ([1, 2, 1, 2, 4], VEndOfMibView) \<and>
   served (Some ac) 0 sample_tree [1, 2, 1, 2, 5] (VInteger 50)"
proof -
  let ?ac = "\<lambda>name (sx :: mib_syntax option) (idx :: nat) (vt :: view_type). Inr (name = [1, 2, 1, 2, 4]) :: bool res"
  have "mib_readGetNext (Some ?ac) 0 [1, 2] sample_tree = Inr ([1, 2, 1, 2, 4], VInteger 40)" by code_simp
  moreover have "mib_readGetNext (Some ?ac) 0 [1, 2, 1, 2, 4] sample_tree = Inr ([1, 2, 1, 2, 4], VEndOfMibView)"
    by code_simp
  note walks = calculation this
  have "is_object sample_tree [1, 2, 1, 2] (mib_node.truncate sample_column)"
    unfolding is_object_def
    by (rule disjI2, rule exI [of _ "[1, 2, 1]"], rule exI [of _ sample_row], rule exI [of _ sample_column])
      (simp add: sample_tree_def sample_row_def)
  moreover have "object_part (Some ?ac) 0 [1, 2, 1, 2] (mib_node.truncate sample_column) [1, 2, 1, 2, 5] =
      Some ([1, 2, 1, 2, 5], VInteger 50)"
    unfolding object_part_truncate
    by (simp add: object_part_def cells_def read_check_def readable_def sample_defs instance_value_def)
  ultimately have "served (Some ?ac) 0 sample_tree [1, 2, 1, 2, 5] (VInteger 50)"
    unfolding served_objects by blast
  with walks show ?thesis unfolding Let_def by blast
qed

end
