(* ===== verification/Set_Scalars.thy ===== *)
theory Set_Scalars
  imports Instrum Mib_Walk
begin

text \<open>
  What a SET does to the scalars of an agent: the instances of \<open>instance_store\<close> are those of the
  scalars in the tree of managed objects, and its laws hold for \<open>MibTree.writeTest\<close> and the
  operations of the later states. The rows of tables, and how rows come and go, follow other
  rules, shown on examples.
\<close>

section \<open>Setting scalars\<close>

text \<open>The instances of the scalars of a tree, by the names of scalar and instance.\<close>

definition scalar_at :: "mib_tree \<Rightarrow> oid \<Rightarrow> mib_instance mib_node option" where
  "scalar_at t k = (case map_of (mn_vars t) k of Some (Scalar n) \<Rightarrow> Some n | _ \<Rightarrow> None)"

fun scalar_insts :: "mib_tree \<Rightarrow> oid \<times> oid \<rightharpoonup> mib_instance" where
  "scalar_insts t (k, k') = Option.bind (scalar_at t k) (\<lambda>n. map_of (mn_vars n) k')"

definition scalar_path :: "mib_tree \<Rightarrow> oid \<Rightarrow> (oid \<times> oid) option" where
  "scalar_path t name =
     (if name = iso then None
      else (case getBranch (mn_vars t) name of
              Some (k, Scalar n) \<Rightarrow> map_option (\<lambda>(k', inst). (k, k')) (getBranch (mn_vars n) name)
            | _ \<Rightarrow> None))"

text \<open>What the test of a binding comes to, for the scalar \<open>k\<close> and its instance \<open>k'\<close>.\<close>

definition instance_tested :: "nat \<Rightarrow> snmp_value option \<Rightarrow> mib_syntax option \<Rightarrow> mib_syntax res" where
  "instance_tested idx val cur =
     (case cur of
        None \<Rightarrow> Inl AttributeError
      | Some sx \<Rightarrow>
          (case instance_setValue val idx sx of
             Inl (SmiError c d) \<Rightarrow> Inl (if sd_syntax d = None then smi_at WrongValueErr idx else SmiError c d)
           | r \<Rightarrow> r))"

definition scalar_outcome :: "ac_fun option \<Rightarrow> ('c, 'z) mib_node_scheme \<Rightarrow> oid \<Rightarrow> oid \<Rightarrow> nat \<Rightarrow> oid \<Rightarrow>
  snmp_value option \<Rightarrow> mib_syntax option \<Rightarrow> mib_syntax res" where
  "scalar_outcome ac n k k' idx name val cur =
     (if name = k then Inl (smi_at NoAccessErr idx)
      else rbind (write_check ac idx (mn_maxAccess n) (mn_syntax n) name) (\<lambda>_.
        if name = k' then instance_tested idx val cur else Inl (smi_at NoSuchInstanceErr idx)))"

definition scalar_tested :: "ac_fun option \<Rightarrow> mib_tree \<Rightarrow> nat \<Rightarrow> oid \<Rightarrow> snmp_value option \<Rightarrow> mib_syntax option \<Rightarrow> mib_syntax res" where
  "scalar_tested ac t idx name val cur =
     (case scalar_path t name of
        None \<Rightarrow> Inl (smi_at NoSuchInstanceErr idx)
      | Some (k, k') \<Rightarrow> scalar_outcome ac (the (scalar_at t k)) k k' idx name val cur)"

text \<open>Everything of a tree but the instances of its scalars and the counters.\<close>

fun branch_frame :: "mib_branch \<Rightarrow> mib_branch" where
  "branch_frame (Scalar n) = Scalar (n\<lparr>mn_vars := map (\<lambda>(k, i). (k, i\<lparr>in_syntax := None, in_oldSyntax := None,
     in_newSyntax := None, in_branchVersionId := 0\<rparr>)) (mn_vars n), mn_branchVersionId := 0\<rparr>)"
| "branch_frame b = b"

definition tree_frame :: "mib_tree \<Rightarrow> mib_tree" where
  "tree_frame t = t\<lparr>mn_vars := map (\<lambda>(k, b). (k, branch_frame b)) (mn_vars t), mn_branchVersionId := 0\<rparr>"

text \<open>Names of a scalar, or of nothing the tree has.\<close>

definition scalar_scope :: "mib_tree \<Rightarrow> oid \<Rightarrow> bool" where
  "scalar_scope t name \<longleftrightarrow> name \<noteq> iso \<and>
     (case getBranch (mn_vars t) name of Some (k, Row row) \<Rightarrow> False | Some (k, Table u) \<Rightarrow> False | _ \<Rightarrow> True)"

lemma update_same: "map_of al k = Some v \<Longrightarrow> AList.update k v al = al"
  by (induction al) (auto split: if_splits)

lemma map_update: "map (\<lambda>(k, v). (k, f v)) (AList.update k v al) = AList.update k (f v) (map (\<lambda>(k, v). (k, f v)) al)"
  by (induction al) auto

lemma map_of_snd: "map_of (map (\<lambda>(k, v). (k, f v)) al) k = map_option f (map_of al k)"
  by (induction al) auto

lemma frame_update:
  "map_of al k = Some v \<Longrightarrow> f v' = f v \<Longrightarrow>
    map (\<lambda>(k, v). (k, f v)) (AList.update k v' al) = map (\<lambda>(k, v). (k, f v)) al"
  by (simp add: map_update update_same map_of_snd)

text \<open>Trees of the same frame lead names to the same objects.\<close>

lemma frame_branch:
  assumes "tree_frame t = tree_frame t0"
  shows "map_option branch_frame (map_of (mn_vars t) k) = map_option branch_frame (map_of (mn_vars t0) k)"
proof -
  have "map (\<lambda>(k, b). (k, branch_frame b)) (mn_vars t) = map (\<lambda>(k, b). (k, branch_frame b)) (mn_vars t0)"
    using arg_cong [OF assms, of mn_vars] by (simp add: tree_frame_def)
  then show ?thesis by (metis map_of_snd)
qed

lemma getBranch_key: "map_option fst (getBranch d name) = Some k \<longleftrightarrow> longest_prefix (dom (map_of d)) name k"
  by (force simp: getBranch_eq longest_prefix_def)

lemma option_eqI: "(\<And>k. x = Some k \<longleftrightarrow> y = Some k) \<Longrightarrow> x = y"
  by (cases x; cases y) auto

lemma getBranch_keys:
  assumes "dom (map_of d) = dom (map_of d')"
  shows "map_option fst (getBranch d name) = map_option fst (getBranch d' name)"
  by (rule option_eqI) (simp only: getBranch_key assms)


lemma dom_map_option_eq:
  assumes "\<And>k. map_option f (m k) = map_option f (m' k)"
  shows "dom m = dom m'"
proof (rule set_eqI)
  fix k
  show "k \<in> dom m \<longleftrightarrow> k \<in> dom m'" using assms [of k] by (cases "m k"; cases "m' k") auto
qed

lemma frame_dom: "tree_frame t = tree_frame t0 \<Longrightarrow> dom (map_of (mn_vars t)) = dom (map_of (mn_vars t0))"
  by (rule dom_map_option_eq) (rule frame_branch)

lemma frame_scalar:
  assumes "branch_frame b = branch_frame (Scalar n0)"
  shows "\<exists>n. b = Scalar n \<and> mn_maxAccess n = mn_maxAccess n0 \<and> mn_syntax n = mn_syntax n0 \<and>
    dom (map_of (mn_vars n)) = dom (map_of (mn_vars n0))"
proof (cases b)
  case (Scalar n)
  let ?f = "\<lambda>i::mib_instance. i\<lparr>in_syntax := None, in_oldSyntax := None, in_newSyntax := None, in_branchVersionId := 0\<rparr>"
  let ?g = "\<lambda>n::mib_instance mib_node. n\<lparr>mn_vars := map (\<lambda>(k, i). (k, ?f i)) (mn_vars n), mn_branchVersionId := 0\<rparr>"
  have eq: "?g n = ?g n0" using assms Scalar by simp
  have "map_option ?f (map_of (mn_vars n) k) = map_option ?f (map_of (mn_vars n0) k)" for k
    using arg_cong [OF eq, of "\<lambda>n. map_of (mn_vars n) k"] by (simp add: map_of_snd)
  then have "dom (map_of (mn_vars n)) = dom (map_of (mn_vars n0))"
    by (rule dom_map_option_eq)
  moreover have "mn_maxAccess n = mn_maxAccess n0" "mn_syntax n = mn_syntax n0"
    using arg_cong [OF eq, of mn_maxAccess] arg_cong [OF eq, of mn_syntax] by simp_all
  ultimately show ?thesis using Scalar by simp
qed (use assms in simp_all)

lemma frame_getBranch:
  assumes "tree_frame t = tree_frame t0" and "getBranch (mn_vars t0) name = Some (k, b0)"
  shows "\<exists>b. getBranch (mn_vars t) name = Some (k, b) \<and> branch_frame b = branch_frame b0"
proof -
  have "map_option fst (getBranch (mn_vars t) name) = Some k"
    using getBranch_keys [OF frame_dom [OF assms(1)], of name] assms(2) by simp
  then obtain b where b: "getBranch (mn_vars t) name = Some (k, b)" by auto
  then show ?thesis
    using frame_branch [OF assms(1), of k] assms(2) by (auto simp: getBranch_eq)
qed

text \<open>Writing to an instance of a scalar in place.\<close>

lemma put_instance:
  assumes "map_of (mn_vars t) k = Some (Scalar n)" and "map_of (mn_vars n) k' = Some inst"
    and "t' = t\<lparr>mn_branchVersionId := w, mn_vars := AList.update k (Scalar (n\<lparr>mn_branchVersionId := v,
      mn_vars := AList.update k' inst' (mn_vars n)\<rparr>)) (mn_vars t)\<rparr>"
  shows "tree_frame t' = tree_frame t \<and> scalar_insts t' = (scalar_insts t)((k, k') \<mapsto> inst')"
proof
  have "branch_frame (Scalar (n\<lparr>mn_branchVersionId := v, mn_vars := AList.update k' inst' (mn_vars n)\<rparr>)) = branch_frame (Scalar n)"
    using assms(2) by (simp add: frame_update)
  then show "tree_frame t' = tree_frame t"
    using assms(1) unfolding assms(3) by (simp add: tree_frame_def frame_update)
  show "scalar_insts t' = (scalar_insts t)((k, k') \<mapsto> inst')"
    using assms(1,2) by (auto simp: fun_eq_iff assms(3) scalar_at_def update_conv' split: option.splits mib_branch.splits)
qed

lemma put_version:
  assumes "map_of (mn_vars t) k = Some (Scalar n)"
    and "t' = t\<lparr>mn_branchVersionId := w, mn_vars := AList.update k (Scalar (n\<lparr>mn_branchVersionId := v\<rparr>)) (mn_vars t)\<rparr>"
  shows "tree_frame t' = tree_frame t \<and> scalar_insts t' = scalar_insts t"
proof
  show "tree_frame t' = tree_frame t"
    using assms(1) unfolding assms(2) by (simp add: tree_frame_def frame_update)
  show "scalar_insts t' = scalar_insts t"
    using assms(1) by (auto simp: fun_eq_iff assms(2) scalar_at_def update_conv' split: option.splits mib_branch.splits)
qed


lemma scalar_route:
  assumes "tree_frame t = tree_frame t0" and "scalar_path t0 name = Some (k, k')"
  obtains n inst n0 where "name \<noteq> iso" "getBranch (mn_vars t) name = Some (k, Scalar n)"
    "map_of (mn_vars t) k = Some (Scalar n)"
    "getBranch (mn_vars n) name = Some (k', inst)" "map_of (mn_vars n) k' = Some inst"
    "scalar_insts t (k, k') = Some inst" "scalar_at t0 k = Some n0"
    "mn_maxAccess n = mn_maxAccess n0" "mn_syntax n = mn_syntax n0"
proof -
  obtain n0 inst0 where n0: "getBranch (mn_vars t0) name = Some (k, Scalar n0)" "name \<noteq> iso"
      "getBranch (mn_vars n0) name = Some (k', inst0)"
    using assms(2) by (auto simp: scalar_path_def split: if_splits option.splits mib_branch.splits)
  obtain b where b: "getBranch (mn_vars t) name = Some (k, b)" "branch_frame b = branch_frame (Scalar n0)"
    using frame_getBranch [OF assms(1) n0(1)] by blast
  obtain n where n: "b = Scalar n" "mn_maxAccess n = mn_maxAccess n0" "mn_syntax n = mn_syntax n0"
      "dom (map_of (mn_vars n)) = dom (map_of (mn_vars n0))"
    using frame_scalar [OF b(2)] by blast
  have "map_option fst (getBranch (mn_vars n) name) = Some k'"
    using getBranch_keys [OF n(4), of name] n0(3) by simp
  then obtain inst where inst: "getBranch (mn_vars n) name = Some (k', inst)" by auto
  show thesis
    using that [of n inst n0] b(1) n inst n0 by (auto simp: getBranch_eq scalar_at_def)
qed

lemma scalar_route_at:
  assumes "tree_frame t = tree_frame t0" and "scalar_path t0 name = Some (k, k')" and "scalar_insts t (k, k') = Some inst"
  shows "\<exists>n n0. name \<noteq> iso \<and> getBranch (mn_vars t) name = Some (k, Scalar n) \<and> map_of (mn_vars t) k = Some (Scalar n) \<and>
    getBranch (mn_vars n) name = Some (k', inst) \<and> map_of (mn_vars n) k' = Some inst \<and>
    scalar_at t0 k = Some n0 \<and> mn_maxAccess n = mn_maxAccess n0 \<and> mn_syntax n = mn_syntax n0"
proof (rule scalar_route [OF assms(1,2)], goal_cases)
  case (1 n inst' n0)
  then show ?case using assms(3) by (intro exI [of _ n] exI [of _ n0]) simp
qed

lemma instance_try_tested:
  "\<exists>new. instance_try idx val inst = (map_sum id (\<lambda>_. ()) (instance_tested idx val (in_syntax inst)), inst\<lparr>in_newSyntax := new\<rparr>) \<and>
    (\<forall>sx. instance_tested idx val (in_syntax inst) = Inr sx \<longrightarrow> new = Some (Some sx))"
proof (cases "in_syntax inst")
  case None
  then show ?thesis
    by (intro exI [of _ "in_newSyntax inst"]) (simp add: instance_try_def instance_tested_def)
next
  case (Some sx)
  show ?thesis
  proof (cases "instance_setValue val idx sx")
    case (Inl e)
    show ?thesis
    proof (cases "carries_syntax e")
      case True
      then obtain c d m where "e = SmiError c d" "sd_syntax d = Some m" by (cases e) auto
      with Some Inl show ?thesis by (auto simp: instance_try_def instance_tested_def)
    next
      case False
      with Some Inl show ?thesis
        by (intro exI [of _ "in_newSyntax inst"]) (cases e; simp add: instance_try_def instance_tested_def)
    qed
  next
    case (Inr sx')
    with Some show ?thesis by (auto simp: instance_try_def instance_tested_def)
  qed
qed

lemma scalar_writeTest_outcome:
  assumes "getBranch (mn_vars n) name = Some (k', inst)" and "map_of (mn_vars n) k' = Some inst"
  shows "\<exists>new. scalar_writeTest getBranch ac idx k name val n =
      (map_sum id (\<lambda>_. ()) (scalar_outcome ac n k k' idx name val (in_syntax inst)),
       n\<lparr>mn_vars := AList.update k' (inst\<lparr>in_newSyntax := new\<rparr>) (mn_vars n)\<rparr>) \<and>
    (\<forall>sx. scalar_outcome ac n k k' idx name val (in_syntax inst) = Inr sx \<longrightarrow> new = Some (Some sx))"
proof (cases "name = k' \<and> name \<noteq> k \<and> \<not> isl (write_check ac idx (mn_maxAccess n) (mn_syntax n) name)")
  case True
  obtain new where "instance_try idx val inst = (map_sum id (\<lambda>_. ()) (instance_tested idx val (in_syntax inst)), inst\<lparr>in_newSyntax := new\<rparr>)"
      "\<forall>sx. instance_tested idx val (in_syntax inst) = Inr sx \<longrightarrow> new = Some (Some sx)"
    using instance_try_tested by blast
  moreover obtain u where "write_check ac idx (mn_maxAccess n) (mn_syntax n) name = Inr u" using True by (auto elim: not_isl)
  moreover have "k' \<noteq> k" "name = k'" using True by auto
  ultimately show ?thesis using assms
    by (intro exI [of _ new])
      (simp add: scalar_writeTest_def scalar_outcome_def sbind_def sres_def on_branch_def on_child_def instance_writeTest_def)
next
  case False
  have "n\<lparr>mn_vars := AList.update k' (inst\<lparr>in_newSyntax := in_newSyntax inst\<rparr>) (mn_vars n)\<rparr> = n"
    using assms(2) by (simp add: update_same)
  with False assms show ?thesis
    by (intro exI [of _ "in_newSyntax inst"])
      (auto simp: scalar_writeTest_def scalar_outcome_def sbind_def sres_def sraise_def on_branch_def on_child_def
        instance_writeTest_def elim: not_isl split: sum.splits)
qed

lemma scalar_test:
  assumes "tree_frame t = tree_frame t0" and "scalar_path t0 name = Some p" and "scalar_insts t p = Some inst"
  shows "\<exists>t' new. mib_write Test ac iso idx name val t = (map_sum id (\<lambda>_. ()) (scalar_tested ac t0 idx name val (in_syntax inst)), t') \<and>
    tree_frame t' = tree_frame t0 \<and> scalar_insts t' = (scalar_insts t)(p \<mapsto> inst\<lparr>in_newSyntax := new\<rparr>) \<and>
    (\<forall>sx. scalar_tested ac t0 idx name val (in_syntax inst) = Inr sx \<longrightarrow> new = Some (Some sx))"
proof -
  obtain k k' where p: "p = (k, k')" by (meson surj_pair)
  obtain n n0 where r: "name \<noteq> iso" "getBranch (mn_vars t) name = Some (k, Scalar n)"
    "map_of (mn_vars t) k = Some (Scalar n)"
    "getBranch (mn_vars n) name = Some (k', inst)" "map_of (mn_vars n) k' = Some inst"
    "scalar_at t0 k = Some n0" "mn_maxAccess n = mn_maxAccess n0" "mn_syntax n = mn_syntax n0"
    using scalar_route_at [OF assms(1) assms(2,3) [unfolded p]] by (elim exE conjE) (rule that; assumption)
  have t0: "scalar_tested ac t0 idx name val (in_syntax inst) = scalar_outcome ac n k k' idx name val (in_syntax inst)"
    using assms(2) p r(6-8) by (simp add: scalar_tested_def scalar_outcome_def)
  obtain new where new: "scalar_writeTest getBranch ac idx k name val n =
      (map_sum id (\<lambda>_. ()) (scalar_outcome ac n k k' idx name val (in_syntax inst)),
       n\<lparr>mn_vars := AList.update k' (inst\<lparr>in_newSyntax := new\<rparr>) (mn_vars n)\<rparr>)"
    "\<forall>sx. scalar_outcome ac n k k' idx name val (in_syntax inst) = Inr sx \<longrightarrow> new = Some (Some sx)"
    using scalar_writeTest_outcome [OF r(4,5), of ac idx k val] by (elim exE conjE) (rule that)
  have "mib_write Test ac iso idx name val t = (map_sum id (\<lambda>_. ()) (scalar_outcome ac n k k' idx name val (in_syntax inst)),
      t\<lparr>mn_vars := AList.update k (Scalar (n\<lparr>mn_vars := AList.update k' (inst\<lparr>in_newSyntax := new\<rparr>) (mn_vars n)\<rparr>)) (mn_vars t)\<rparr>)"
    using r(1-3) new(1) by (simp add: mib_write_def branch_write_def scalar_on_tree_def on_child_def sbind_def sret_def)
  moreover have "tree_frame (t\<lparr>mn_vars := AList.update k (Scalar (n\<lparr>mn_vars := AList.update k' inst' (mn_vars n)\<rparr>)) (mn_vars t)\<rparr>) = tree_frame t0 \<and>
      scalar_insts (t\<lparr>mn_vars := AList.update k (Scalar (n\<lparr>mn_vars := AList.update k' inst' (mn_vars n)\<rparr>)) (mn_vars t)\<rparr>) = (scalar_insts t)(p \<mapsto> inst')" for inst'
    using put_instance [OF r(3,5) refl, where inst' = inst' and v = "mn_branchVersionId n" and w = "mn_branchVersionId t"] assms(1) p by simp
  ultimately show ?thesis using new(2) t0 by auto
qed


lemma scalar_commit:
  assumes "tree_frame t = tree_frame t0" and "scalar_path t0 name = Some p" and "scalar_insts t p = Some inst"
  shows "\<exists>t'. mib_write Commit ac iso idx name val t = (fst (instance_writeCommit inst), t') \<and>
    tree_frame t' = tree_frame t0 \<and> scalar_insts t' = (scalar_insts t)(p \<mapsto> snd (instance_writeCommit inst))"
proof -
  obtain k k' where p: "p = (k, k')" by (meson surj_pair)
  obtain n n0 where r: "name \<noteq> iso" "getBranch (mn_vars t) name = Some (k, Scalar n)"
    "map_of (mn_vars t) k = Some (Scalar n)"
    "getBranch (mn_vars n) name = Some (k', inst)" "map_of (mn_vars n) k' = Some inst"
    using scalar_route_at [OF assms(1) assms(2,3) [unfolded p]] by (elim exE conjE) (rule that; assumption)
  have "mib_write Commit ac iso idx name val t = (fst (instance_writeCommit inst),
      t\<lparr>mn_vars := AList.update k (Scalar (n\<lparr>mn_vars := AList.update k' (snd (instance_writeCommit inst)) (mn_vars n)\<rparr>)) (mn_vars t)\<rparr>)"
    using r by (simp add: mib_write_def branch_write_def scalar_on_tree_def on_child_def on_branch_def sbind_def sret_def
        split: prod.splits)
  with put_instance [OF r(3,5) refl, where inst' = "snd (instance_writeCommit inst)" and v = "mn_branchVersionId n" and w = "mn_branchVersionId t"] assms(1) p
  show ?thesis by simp
qed

lemma scalar_cleanup:
  assumes "tree_frame t = tree_frame t0" and "scalar_path t0 name = Some p" and "scalar_insts t p = Some inst"
  shows "\<exists>t'. mib_write Cleanup ac iso idx name val t = (Inr (), t') \<and>
    tree_frame t' = tree_frame t0 \<and> scalar_insts t' = (scalar_insts t)(p \<mapsto> snd (instance_writeCleanup inst))"
proof -
  obtain k k' where p: "p = (k, k')" by (meson surj_pair)
  obtain n n0 where r: "name \<noteq> iso" "getBranch (mn_vars t) name = Some (k, Scalar n)"
    "map_of (mn_vars t) k = Some (Scalar n)"
    "getBranch (mn_vars n) name = Some (k', inst)" "map_of (mn_vars n) k' = Some inst"
    using scalar_route_at [OF assms(1) assms(2,3) [unfolded p]] by (elim exE conjE) (rule that; assumption)
  have "mib_write Cleanup ac iso idx name val t = (Inr (),
      t\<lparr>mn_branchVersionId := mn_branchVersionId t + 1, mn_vars := AList.update k (Scalar (n\<lparr>mn_branchVersionId := mn_branchVersionId n + 1,
          mn_vars := AList.update k' (snd (instance_writeCleanup inst)) (mn_vars n)\<rparr>)) (mn_vars t)\<rparr>)"
    using r by (simp add: mib_write_def branch_write_def scalar_on_tree_def on_child_def on_branch_def bump_def
        instance_writeCleanup_def smodify_def sbind_def sret_def)
  with put_instance [OF r(3,5) refl, where inst' = "snd (instance_writeCleanup inst)" and v = "mn_branchVersionId n + 1" and w = "mn_branchVersionId t + 1"] assms(1) p
  show ?thesis by simp
qed

lemma scalar_missing:
  assumes "tree_frame t = tree_frame t0" and "scalar_scope t0 name" and "scalar_path t0 name = None"
  shows "\<exists>e t'. mib_write ph ac iso idx name val t = (Inl e, t') \<and> (ph \<noteq> Test \<longrightarrow> is_SmiError e) \<and>
    scalar_insts t' = scalar_insts t \<and> tree_frame t' = tree_frame t0"
proof (cases "getBranch (mn_vars t0) name")
  case None
  then have "getBranch (mn_vars t) name = None"
    using getBranch_keys [OF frame_dom [OF assms(1)], of name] by simp
  moreover have "name \<noteq> iso" using assms(2) by (simp add: scalar_scope_def)
  ultimately show ?thesis using assms(1)
    by (simp add: mib_write_def branch_write_def bump_def smodify_def sbind_def sret_def tree_frame_def
        fun_eq_iff scalar_at_def smi_at_def)
next
  case (Some kb)
  then obtain k n0 where n0: "getBranch (mn_vars t0) name = Some (k, Scalar n0)" "name \<noteq> iso"
    using assms(2) by (cases kb) (auto simp: scalar_scope_def split: mib_branch.splits)
  obtain n where n: "getBranch (mn_vars t) name = Some (k, Scalar n)" "dom (map_of (mn_vars n)) = dom (map_of (mn_vars n0))"
    using frame_getBranch [OF assms(1) n0(1)] frame_scalar by blast
  have "getBranch (mn_vars n) name = None"
    using getBranch_keys [OF n(2), of name] assms(3) n0 by (simp add: scalar_path_def)
  moreover have k: "map_of (mn_vars t) k = Some (Scalar n)" using n(1) by (simp add: getBranch_eq)
  ultimately show ?thesis
    using n0(2) n(1) put_version [OF k refl, where v = "mn_branchVersionId n" and w = "mn_branchVersionId t"]
      put_version [OF k refl, where v = "mn_branchVersionId n + 1" and w = "mn_branchVersionId t + 1"] assms(1)
    by (cases ph) (auto simp: mib_write_def branch_write_def scalar_on_tree_def on_child_def on_branch_def bump_def
        smodify_def sbind_def sret_def sres_def scalar_writeTest_def smi_at_def split: sum.splits)
qed

interpretation scalars: instance_store "\<lambda>ph. mib_write ph ac iso" scalar_insts "scalar_path t0" "scalar_tested ac t0"
  "scalar_scope t0" "\<lambda>t. tree_frame t = tree_frame t0" for ac t0
proof unfold_locales
  show "scalar_insts t p \<noteq> None" if "tree_frame t = tree_frame t0" "scalar_path t0 name = Some p" for t name p
  proof (cases p)
    case (Pair k k')
    show ?thesis by (rule scalar_route [OF that [unfolded Pair]]) (simp add: Pair)
  qed
qed (rule scalar_missing scalar_test scalar_commit scalar_cleanup; assumption)+


lemma tree_handles: "scalars.handles ac (mib_handler ac)"
  by (simp add: scalars.handles_def silent_def pure_read_def sbind_def sret_def split: sum.splits)

text \<open>
  (C8) A SET of scalars is done as a whole or not at all. A request that names only scalars, or
  objects that are not there, always comes to an end. When every binding passes the tests of
  its object, each object named holds afterwards the value that the last binding for it asks
  for; otherwise every object holds what it held and an error is the answer. Nothing else in
  the tree changes, and no object is left in the middle of a change.
\<close>

theorem set_scalars_all_or_nothing:
  assumes "\<forall>b \<in> set vbs. scalar_scope t (fst b)" and "settled_insts (scalar_insts t)"
  shows "\<exists>r t'. writeVars ac vbs t = Some (r, t') \<and> tree_frame t' = tree_frame t \<and> settled_insts (scalar_insts t') \<and>
    (if all_tests_pass (scalar_path t) (scalar_tested ac t) (syntaxes_of (scalar_insts t)) 0 vbs
     then syntaxes_of (scalar_insts t') =
       updated (set_targets (scalar_path t) (scalar_tested ac t) (syntaxes_of (scalar_insts t)) 0 vbs) (syntaxes_of (scalar_insts t))
     else syntaxes_of (scalar_insts t') = syntaxes_of (scalar_insts t) \<and> (\<exists>e. r = Inl e))"
  using scalars.set_all_or_nothing [OF tree_handles refl assms(2,1)] unfolding writeVars_def by blast

theorem set_scalars_all_or_nothing_witness:
  "(\<exists>t'. map_option snd (writeVars None [([1, 1, 0], Some (VInteger 9)), ([1, 1, 0], Some (VInteger 8))] sample_tree) = Some t' \<and>
      syntaxes_of (scalar_insts t') ([1, 1], [1, 1, 0]) = Some (Some (plain 8))) \<and>
   (\<exists>t'. map_option snd (writeVars None [([1, 1, 0], Some (VInteger 9)), ([1, 1, 1], Some (VInteger 8))] sample_tree) = Some t' \<and>
      syntaxes_of (scalar_insts t') ([1, 1], [1, 1, 0]) = Some (Some (plain 7)))"
proof -
  let ?yes = "[([1, 1, 0], Some (VInteger 9)), ([1, 1, 0], Some (VInteger 8))]"
  let ?no = "[([1, 1, 0], Some (VInteger 9)), ([1, 1, 1], Some (VInteger 8))]"
  let ?cur = "syntaxes_of (scalar_insts sample_tree)"
  have settled: "settled_insts (scalar_insts sample_tree)"
    by (auto simp: settled_insts_def scalar_at_def sample_defs split: if_splits)
  have scope: "\<forall>b \<in> set ?yes. scalar_scope sample_tree (fst b)" "\<forall>b \<in> set ?no. scalar_scope sample_tree (fst b)"
    by code_simp+
  have tests: "all_tests_pass (scalar_path sample_tree) (scalar_tested None sample_tree) ?cur 0 ?yes"
      "\<not> all_tests_pass (scalar_path sample_tree) (scalar_tested None sample_tree) ?cur 0 ?no"
    by code_simp+
  have path: "scalar_path sample_tree [1, 1, 0] = Some ([1, 1], [1, 1, 0])" by code_simp
  have cur: "?cur ([1, 1], [1, 1, 0]) = Some (Some (plain 7))"
    by (simp add: syntaxes_of_def scalar_at_def sample_defs)
  have tested: "scalar_tested None sample_tree i [1, 1, 0] (Some (VInteger n)) (Some (plain 7)) = Inr (plain n)" for i n
    by (simp add: scalar_tested_def path scalar_outcome_def write_check_def instance_tested_def instance_setValue_def
        syntax_setValue_def syntax_clone_def plain_def del: One_nat_def)
  have target: "updated (set_targets (scalar_path sample_tree) (scalar_tested None sample_tree) ?cur 0 ?yes) ?cur ([1, 1], [1, 1, 0])
      = Some (Some (plain 8))"
    by (simp add: updated_def path cur tested del: One_nat_def)
  show ?thesis
    using set_scalars_all_or_nothing [OF scope(1) settled, of None] set_scalars_all_or_nothing [OF scope(2) settled, of None]
      tests target cur by auto
qed

section \<open>Creating rows\<close>

text \<open>
  A row with an index, a column that has no default, and a status column; and the same with an
  instance of the status already there, in the state \<open>notExists\<close>.
\<close>

definition row_column :: "max_access \<Rightarrow> mib_syntax \<Rightarrow> mib_column" where
  "row_column acc sx = \<lparr>mn_maxAccess = acc, mn_syntax = Some sx, mn_vars = [], mn_branchVersionId = 0,
     mc_createdInstances = Map.empty, mc_destroyedInstances = Map.empty, mc_rowOpWanted = Map.empty, mc_optional = False\<rparr>"

definition unset :: mib_syntax where
  "unset = \<lparr>sx_convention = Plain, sx_clone = Some, sx_value = None\<rparr>"

definition creation_tree :: mib_tree where
  "creation_tree = \<lparr>mn_maxAccess = not_accessible, mn_syntax = None,
     mn_vars = [([1, 1], Scalar sample_scalar),
       ([1, 2, 1], Row \<lparr>mn_maxAccess = not_accessible, mn_syntax = None,
          mn_vars = [([1, 2, 1, 1], row_column not_accessible unset),
            ([1, 2, 1, 2], row_column readcreate unset),
            ([1, 2, 1, 3], row_column readcreate (rowStatus (Some stNotExists)))],
          mn_branchVersionId = 0,
          mr_indexNames = [\<lparr>ix_implied = False, ix_column = [1, 2, 1, 1], ix_type = IxInteger, ix_clone = Some\<rparr>],
          mr_augmentingRows = []\<rparr>)],
     mn_branchVersionId = 0\<rparr>"

definition reset_tree :: mib_tree where
  "reset_tree = creation_tree\<lparr>mn_vars :=
     map (\<lambda>(k, b). (k, case b of
       Row row \<Rightarrow> Row (row\<lparr>mn_vars := AList.update [1, 2, 1, 3]
         ((row_column readcreate (rowStatus (Some stNotExists)))
            \<lparr>mn_vars := [([1, 2, 1, 3, 5], new_instance (rowStatus (Some stNotExists)))]\<rparr>) (mn_vars row)\<rparr>)
     | _ \<Rightarrow> b)) (mn_vars creation_tree)\<rparr>"

text \<open>Access control that decides, or fails, but asks for no row.\<close>

definition asks_no_row :: "ac_fun option \<Rightarrow> bool" where
  "asks_no_row ac \<longleftrightarrow> (\<forall>acFun name sx idx vt e. ac = Some acFun \<longrightarrow> acFun name sx idx vt = Inl e \<longrightarrow> wants e = None)"

lemma wanted_kept [simp]:
  "mc_rowOpWanted (set_created name i col) = mc_rowOpWanted col"
  "mc_rowOpWanted (set_vars name j col) = mc_rowOpWanted col"
  by (auto simp: set_created_def set_vars_def split: option.splits)

lemma createTest_wanted: "mc_rowOpWanted (snd (column_createTest ac idx self name val col)) = mc_rowOpWanted col"
  by (auto simp: column_createTest_def on_created_def split: sum.splits option.splits prod.splits)

lemma writeCommit_raises: "instance_writeCommit inst = (Inl e, inst') \<Longrightarrow> e = AttributeError"
  by (auto simp: instance_writeCommit_def Let_def split: option.splits if_splits)

lemma createCommit_raises:
  "column_createCommit name val col = (Inl e, col') \<Longrightarrow> e \<in> {AttributeError, KeyError}"
  by (auto simp: column_createCommit_def on_child_def on_created_def instance_createCommit_def sbind_def sret_def
      dest: writeCommit_raises split: sum.splits option.splits prod.splits if_splits)

lemma createCommit_wanted:
  "mc_rowOpWanted (snd (column_createCommit name val col)) = mc_rowOpWanted col"
  by (auto simp: column_createCommit_def on_child_def on_created_def sbind_def split: sum.splits option.splits prod.splits if_splits)

lemma missing_test:
  assumes "map_of (mn_vars col) name = None" and "asks_no_row ac"
    and "scalar_writeTest column_getBranch ac idx self name val col = (r, col')"
  shows "col' = col \<and> (\<exists>e. r = Inl e \<and> wants e = None)"
  using assms by (auto simp: scalar_writeTest_def sbind_def sres_def on_branch_def column_getBranch_def named_def
      write_check_def rbind_def smi_at_def asks_no_row_def split: if_splits option.splits sum.splits)

lemma column_writeTest_missing:
  assumes "scalar_writeTest column_getBranch ac idx self name val col = (Inl e, col)" and "wants e = None"
  shows "column_writeTest ac idx self name val col =
    (if is_smi {NoSuchInstanceErr} e
     then sbind (sbind (want name (Some (SmiError RowCreationWanted no_smi))) (\<lambda>_. column_createTest ac idx self name val))
            (\<lambda>_. raise_wanted name) col
     else (Inl e, col))"
proof (cases e)
  case (SmiError c d)
  then show ?thesis using assms
    by (cases c) (simp_all add: column_writeTest_def sbind_def scatch_def sraise_def)
qed (use assms in \<open>simp_all add: column_writeTest_def sbind_def scatch_def sraise_def\<close>)

text \<open>
  The check that a row which becomes active has all of its values is not made for a row that is
  created. When the status column has no instance of the name yet, whatever the commit of the
  write raises does not say that the row becomes active, which is what the check waits for.
\<close>

theorem created_row_not_checked:
  assumes "map_of (mn_vars col) name = None" and "mc_rowOpWanted col name = None" and "asks_no_row ac"
    and "column_write Test ac idx self name val col = (r, col')"
    and "column_write Commit ac idx self name val col' = (Inl e, col'')"
  shows "\<not> makes_active e"
proof -
  let ?wanted = "SmiError RowCreationWanted no_smi"
  obtain e0 where e0: "scalar_writeTest column_getBranch ac idx self name val col = (Inl e0, col)" "wants e0 = None"
    using missing_test [OF assms(1,3)] by (metis surj_pair)
  note test = column_writeTest_missing [OF e0]
  show ?thesis
  proof (cases "is_smi {NoSuchInstanceErr} e0")
    case True
    then have "col' = snd (column_createTest ac idx self name val
        (col\<lparr>mc_rowOpWanted := (mc_rowOpWanted col)(name \<mapsto> ?wanted)\<rparr>))"
      using assms(4) test
      by (simp add: sbind_def want_def smodify_def raise_wanted_def split: sum.splits prod.splits option.splits)
    then have "mc_rowOpWanted col' name = Some ?wanted" by (simp add: createTest_wanted)
    then have c: "sbind (column_createCommit name val) (\<lambda>_. raise_wanted name) col' = (Inl e, col'')"
      using assms(5) by (simp add: delegateWrite_def sbind_def)
    show ?thesis
    proof (cases "fst (column_createCommit name val col')")
      case (Inl e')
      then have "e' = e" "e' \<in> {AttributeError, KeyError}"
        using c createCommit_raises by (auto simp: sbind_def split: prod.splits)
      then show ?thesis by auto
    next
      case (Inr u)
      then have "e = ?wanted"
        using c createCommit_wanted [of name val col'] \<open>mc_rowOpWanted col' name = Some ?wanted\<close>
        by (auto simp: sbind_def raise_wanted_def split: prod.splits)
      then show ?thesis by (simp add: no_smi_def)
    qed
  next
    case False
    then have "col' = col" using assms(4) test by simp
    then show ?thesis using assms(1,2,5)
      by (auto simp: delegateWrite_def sbind_def on_branch_def column_getBranch_def named_def smi_at_def)
  qed
qed

theorem created_row_not_checked_witness:
  "\<not> makes_active (SmiError RowCreationWanted no_smi) \<and>
   (case writeVars None [([1, 2, 1, 3, 5], Some (VInteger stCreateAndGo))] creation_tree of
      None \<Rightarrow> False
    | Some (r, t) \<Rightarrow> r = Inr [([1, 2, 1, 3, 5], VInteger stActive)] \<and>
        mib_readGet 0 [1, 2, 1, 2, 5] t = Inl (smi_at NoSuchInstanceErr 0))"
proof
  let ?col = "row_column readcreate (rowStatus (Some stNotExists))" and ?name = "[1, 2, 1, 3, 5]"
  let ?val = "Some (VInteger stCreateAndGo)"
  obtain r col' where test: "column_write Test None 0 [1, 2, 1, 3] ?name ?val ?col = (r, col')" by (meson surj_pair)
  obtain r' col'' where commit: "column_write Commit None 0 [1, 2, 1, 3] ?name ?val col' = (r', col'')" by (meson surj_pair)
  have "fst (column_write Commit None 0 [1, 2, 1, 3] ?name ?val (snd (column_write Test None 0 [1, 2, 1, 3] ?name ?val ?col)))
      = Inl (SmiError RowCreationWanted no_smi)" by code_simp
  then have "r' = Inl (SmiError RowCreationWanted no_smi)" using test commit by simp
  then show "\<not> makes_active (SmiError RowCreationWanted no_smi)"
    using created_row_not_checked [OF _ _ _ test] commit by (simp add: row_column_def asks_no_row_def)
qed code_simp

text \<open>
  A SET that fails in its second phase is not undone. Here the commit of a status finds a value
  of the row missing; then the undoing of all bindings leaves the row active with its cells in
  place, and takes away the value of a scalar that had not been written yet, so that the
  request and every later reading of that scalar end in an \<open>AttributeError\<close>.
\<close>

theorem failed_set_not_undone:
  "case writeVars None [([1, 2, 1, 3, 5], Some (VInteger stCreateAndGo)), ([1, 1, 0], Some (VInteger 9))] reset_tree of
     None \<Rightarrow> False
   | Some (r, t) \<Rightarrow> r = Inl AttributeError \<and>
       mib_readGet 0 [1, 2, 1, 3, 5] reset_tree = Inr ([1, 2, 1, 3, 5], VInteger stNotExists) \<and>
       mib_readGet 0 [1, 2, 1, 3, 5] t = Inr ([1, 2, 1, 3, 5], VInteger stActive) \<and>
       mib_readGet 0 [1, 1, 0] reset_tree = Inr ([1, 1, 0], VInteger 7) \<and>
       mib_readGet 0 [1, 1, 0] t = Inl AttributeError"
  by code_simp

end
