(* ===== verification/Instrum_Read.thy ===== *)
theory Instrum_Read
  imports Instrum Mib_Walk Proxy
begin

text \<open>
  What the reading requests of \<open>smi/instrum.py\<close> come to: a request of either kind leaves the tree
  as it is, and when it succeeds it has tested and read each binding in turn. With what the
  objects test, a value is only read under a name that access control has granted.
\<close>

section \<open>Two passes over the bindings\<close>

lemma silent_read:
  "silent (pure_read m) s = (case m s of Inl e \<Rightarrow> (Inl e, s) | Inr u \<Rightarrow> (Inr None, s))"
  "sbind (pure_read g) (\<lambda>vb. sret (Some vb)) s = (case g s of Inl e \<Rightarrow> (Inl e, s) | Inr vb \<Rightarrow> (Inr (Some vb), s))"
  by (simp_all add: silent_def pure_read_def sbind_def sret_def split: sum.splits)

lemma test_pass_reads:
  assumes h: "\<And>idx name val. h idx name val s = silent (pure_read (f idx name)) s"
    and pass: "fsm_pass h idx vbs out s = (r, out', s')"
  shows "s' = s \<and> out' = out \<and> (r = Inr () \<longrightarrow> (\<forall>j < length vbs. f (idx + j) (fst (vbs ! j)) s = Inr ()))"
  using pass
proof (induction vbs arbitrary: idx)
  case (Cons b vbs)
  obtain name val where b: "b = (name, val)" by (meson surj_pair)
  show ?case
  proof (cases "f idx name s")
    case (Inl e)
    then show ?thesis using Cons.prems b
      by (auto simp: fsm_pass.simps(2) h silent_read)
  next
    case (Inr u)
    then have "fsm_pass h (idx + 1) vbs out s = (r, out', s')"
      using Cons.prems b by (simp add: fsm_pass.simps(2) h silent_read)
    from Cons.IH [OF this] show ?thesis
      using Inr b by (auto simp: nth_Cons split: nat.splits)
  qed
qed simp

lemma get_pass_reads:
  assumes h: "\<And>idx name val. h idx name val s = sbind (pure_read (g idx name)) (\<lambda>vb. sret (Some vb)) s"
    and pass: "fsm_pass h idx vbs out s = (r, out', s')"
  shows "s' = s \<and> (r = Inr () \<longrightarrow> (\<exists>rs. out' = out @ rs \<and> length rs = length vbs \<and>
    (\<forall>j < length vbs. g (idx + j) (fst (vbs ! j)) s = Inr (rs ! j))))"
  using pass
proof (induction vbs arbitrary: idx out)
  case (Cons b vbs)
  obtain name val where b: "b = (name, val)" by (meson surj_pair)
  show ?case
  proof (cases "g idx name s")
    case (Inl e)
    then show ?thesis using Cons.prems b
      by (auto simp: fsm_pass.simps(2) h silent_read)
  next
    case (Inr vb)
    then have step: "fsm_pass h (idx + 1) vbs (out @ [vb]) s = (r, out', s')"
      using Cons.prems b by (simp add: fsm_pass.simps(2) h silent_read)
    show ?thesis
    proof (intro conjI impI)
      show "s' = s" using Cons.IH [OF step] by simp
      assume "r = Inr ()"
      then obtain rs where rs: "out' = (out @ [vb]) @ rs" "length rs = length vbs"
          "\<forall>j < length vbs. g (idx + 1 + j) (fst (vbs ! j)) s = Inr (rs ! j)"
        using Cons.IH [OF step] by blast
      then show "\<exists>rs. out' = out @ rs \<and> length rs = length (b # vbs) \<and>
          (\<forall>j < length (b # vbs). g (idx + j) (fst ((b # vbs) ! j)) s = Inr (rs ! j))"
        using Inr b by (intro exI [of _ "vb # rs"]) (auto simp: nth_Cons split: nat.splits)
    qed
  qed
qed simp

text \<open>A table that runs a testing state and then a reading one.\<close>

lemma two_passes:
  assumes "fsm_next table Start Ok = Some st" "fsm_next table st Ok = Some st'" "fsm_next table st' Ok = Some Stop"
    and "fsm_next table st Err = Some Stop" "fsm_next table st' Err = Some Stop" "st \<noteq> Stop" "st' \<noteq> Stop"
    and "h st = Some (\<lambda>idx name val. silent (pure_read (f idx name)))"
    and "h st' = Some (\<lambda>idx name val. sbind (pure_read (g idx name)) (\<lambda>vb. sret (Some vb)))"
    and "flipFlopFsm table h vbs s = Some (r, s')"
  shows "s' = s \<and> (\<forall>out. r = Inr out \<longrightarrow> length out = length vbs \<and>
    (\<forall>j < length vbs. f j (fst (vbs ! j)) s = Inr () \<and> g j (fst (vbs ! j)) s = Inr (out ! j)))"
proof -
  have stop: "fsm_loop table h vbs q stat out orig t = Some (case orig of Some e \<Rightarrow> Inl e | None \<Rightarrow> Inr out, t)"
    if "fsm_next table q stat = Some Stop" for q stat out orig t
    using that by (subst fsm_loop.simps) simp
  obtain r1 out1 s1 where p1: "fsm_pass (\<lambda>idx name val. silent (pure_read (f idx name))) 0 vbs [] s = (r1, out1, s1)"
    using prod_cases3 by blast
  note t1 = test_pass_reads [OF refl p1]
  have l1: "flipFlopFsm table h vbs s = (case r1 of Inr u \<Rightarrow> fsm_loop table h vbs st Ok [] None s
      | Inl e \<Rightarrow> if is_SmiError e then Some (Inl e, s) else Some (Inl e, s))"
    unfolding flipFlopFsm_def using p1 t1 stop assms(1,4,6,8)
    by (subst fsm_loop.simps) (simp split: sum.splits)
  show ?thesis
  proof (cases r1)
    case (Inl e)
    then show ?thesis using l1 assms(10) by auto
  next
    case (Inr u)
    obtain r2 out2 s2 where p2: "fsm_pass (\<lambda>idx name val. sbind (pure_read (g idx name)) (\<lambda>vb. sret (Some vb))) 0 vbs [] s = (r2, out2, s2)"
      using prod_cases3 by blast
    note t2 = get_pass_reads [OF refl p2]
    have l2: "fsm_loop table h vbs st Ok [] None s = (case r2 of Inr u \<Rightarrow> Some (Inr out2, s)
        | Inl e \<Rightarrow> Some (Inl e, s))"
      using p2 t2 stop assms(2,3,5,7,9)
      by (subst fsm_loop.simps) (simp split: sum.splits)
    show ?thesis
    proof (cases r2)
      case (Inl e)
      then show ?thesis using l1 l2 Inr assms(10) by auto
    next
      case (Inr u2)
      then have "r = Inr out2" "s' = s" using l1 l2 \<open>r1 = Inr u\<close> assms(10) by auto
      then show ?thesis using t1 t2 Inr \<open>r1 = Inr u\<close> by auto
    qed
  qed
qed

lemma readVars_reads:
  assumes "readVars ac vbs t = Some (r, t')"
  shows "t' = t \<and> (\<forall>out. r = Inr out \<longrightarrow> length out = length vbs \<and>
    (\<forall>j < length vbs. mib_readTest ac iso j (fst (vbs ! j)) t = Inr () \<and> mib_readGet j (fst (vbs ! j)) t = Inr (out ! j)))"
  by (rule two_passes [where st = ReadTest and st' = ReadGet, OF _ _ _ _ _ _ _ _ _ assms [unfolded readVars_def]])
    (simp_all add: fsm_next_def fsmReadVar_def)

lemma readNextVars_reads:
  assumes "readNextVars ac vbs t = Some (r, t')"
  shows "t' = t \<and> (\<forall>out. r = Inr out \<longrightarrow> length out = length vbs \<and>
    (\<forall>j < length vbs. mib_readTestNext ac j (fst (vbs ! j)) t = Inr () \<and> mib_readGetNext ac j (fst (vbs ! j)) t = Inr (out ! j)))"
  by (rule two_passes [where st = ReadTestNext and st' = ReadGetNext, OF _ _ _ _ _ _ _ _ _ assms [unfolded readNextVars_def]])
    (simp_all add: fsm_next_def fsmReadNextVar_def)

section \<open>What is read has been granted\<close>

lemma read_check_granted:
  "read_check (Some acFun) idx access sx name = Inr () \<Longrightarrow> acFun name sx idx read_view = Inr False"
  by (auto simp: read_check_def rbind_eq_Inr_iff split: if_splits)

lemma scalar_granted:
  assumes "scalar_readTest branch (Some acFun) idx name self n = Inr ()"
  shows "\<exists>sx. acFun name sx idx read_view = Inr False"
  using assms by (auto simp: scalar_readTest_def rbind_eq_Inr_iff dest!: read_check_granted split: if_splits)

lemma scalar_readGet_name: "scalar_readGet branch idx name = Inr (n, v) \<Longrightarrow> n = name"
  by (auto simp: scalar_readGet_def instance_readGet_def rbind_eq_Inr_iff split: option.splits if_splits)

lemma branch_granted:
  assumes "branch_readTest (Some acFun) idx name self b = Inr ()" and "branch_readGet idx name b = Inr (n, v)"
  shows "is_exception v \<or> (\<exists>sx. acFun name sx idx read_view = Inr False)"
proof (cases b)
  case (Scalar m)
  then show ?thesis using assms scalar_granted by fastforce
next
  case (Row row)
  then show ?thesis using assms
    by (auto simp: node_readTest_def row_readGet_def column_readTest_def is_exception_def [of VNoSuchObject]
        dest: read_check_granted dest!: scalar_granted split: if_splits option.splits)
next
  case (Table u)
  then show ?thesis using assms by (simp add: is_exception_def)
qed

lemma branch_readGet_name: "branch_readGet idx name b = Inr (n, v) \<Longrightarrow> n = name"
  by (cases b) (auto simp: row_readGet_def column_readGet_def dest: scalar_readGet_name split: option.splits)

lemma read_granted:
  assumes "mib_readTest (Some acFun) self idx name t = Inr ()" and "mib_readGet idx name t = Inr (n, v)"
  shows "n = name \<and> (is_exception v \<or> (\<exists>sx. acFun name sx idx read_view = Inr False))"
proof
  show "n = name"
    using assms(2) by (auto simp: mib_readGet_def dest: branch_readGet_name split: option.splits)
  show "is_exception v \<or> (\<exists>sx. acFun name sx idx read_view = Inr False)"
  proof (cases "name = self")
    case True
    then show ?thesis using assms(1) by (auto simp: mib_readTest_def node_readTest_def dest: read_check_granted)
  next
    case False
    then show ?thesis using assms
      by (auto simp: mib_readTest_def mib_readGet_def node_readTest_def is_exception_def [of VNoSuchObject]
          dest: branch_granted split: option.splits)
  qed
qed

end
