(* ===== verification/Cmdrsp.thy ===== *)
theory Cmdrsp
  imports Set_Scalars Instrum_Read Dispatcher
begin

text \<open>
  \<open>pysnmp/entity/rfc3413/cmdrsp.py\<close> and \<open>context.py\<close>: the command responder, which takes a
  request from the dispatcher, runs it on the instrumentation of its context under access
  control, and answers; and the mapping of what goes wrong to the error status of the
  response. The instrumentation is that of \<open>Instrum\<close>. The access control model, the sending of
  a response and the type test for \<open>Counter64\<close> are fields of the record \<open>rsp_env\<close>. An
  instrumentation that has to be awaited, which an agent may supply, is left out.
\<close>

section \<open>State\<close>

text \<open>
  \<open>SnmpContext.contextNames\<close> maps a name to an instrumentation; several names may share one, so
  the map goes to the index of a tree. The report on an unknown context has the name of
  \<open>snmpUnknownContexts\<close> and its value after the step.
\<close>

record pending_req =
  pr_message :: data_elements
  pr_rspPDU :: pdu
  pr_origPdu :: "v1_pdu option"
  pr_statusInformation :: status_info

record 'w responder =
  cr_pendingReqs :: "nat \<rightharpoonup> pending_req"
  cr_contextNames :: "octets \<rightharpoonup> nat"
  cr_instrums :: "nat \<Rightarrow> mib_tree"
  cr_requestIDs :: nextid
  cr_snmpSilentDrops :: int
  cr_world :: 'w

record 'w rsp_env =
  rs_isAccessAllowed :: "int \<Rightarrow> octets \<Rightarrow> int \<Rightarrow> view_type \<Rightarrow> octets \<Rightarrow> oid \<Rightarrow> unit res"
  rs_isCounter64 :: "mib_syntax \<Rightarrow> bool"
  rs_snmpUnknownContexts :: "oid \<times> int"
  rs_returnResponsePdu :: "data_elements \<Rightarrow> status_info \<Rightarrow> ('w, unit) sm"

section \<open>Contexts\<close>

definition registerContextName :: "octets \<Rightarrow> nat option \<Rightarrow> ('w responder, unit) sm" where
  "registerContextName contextName mibInstrum s =
     (if cr_contextNames s contextName \<noteq> None then (Inl PySnmpError, s)
      else (case mibInstrum of
              Some i \<Rightarrow> (Inr (), s\<lparr>cr_contextNames := (cr_contextNames s)(contextName \<mapsto> i)\<rparr>)
            | None \<Rightarrow>
                (case cr_contextNames s [] of
                   None \<Rightarrow> (Inl KeyError, s)
                 | Some i \<Rightarrow> (Inr (), s\<lparr>cr_contextNames := (cr_contextNames s)(contextName \<mapsto> i)\<rparr>))))"

definition unregisterContextName :: "octets \<Rightarrow> ('w responder, unit) sm" where
  "unregisterContextName contextName = smodify (\<lambda>s. s\<lparr>cr_contextNames := (cr_contextNames s)(contextName := None)\<rparr>)"

definition getMibInstrum :: "octets \<Rightarrow> 'w responder \<Rightarrow> nat res" where
  "getMibInstrum contextName s = of_option PySnmpError (cr_contextNames s contextName)"

section \<open>Access\<close>

fun pdu_tag :: "v1_pdu \<Rightarrow> pdu_type" where
  "pdu_tag (V1Pdu p) = p_type p"
| "pdu_tag (V1Trap t) = Trap"

text \<open>\<open>__verifyAccess\<close>, the \<open>acFun\<close> of the instrumentation: true refuses.\<close>

definition verifyAccess :: "'w rsp_env \<Rightarrow> data_elements \<Rightarrow> ac_fun" where
  "verifyAccess env de name sx idx viewType =
     (case rs_isAccessAllowed env (de_securityModel de) (de_securityName de) (de_securityLevel de)
             viewType (de_contextName de) name of
        Inl (StatusInformation si) \<Rightarrow>
          (case si_errorIndication si of
             None \<Rightarrow> Inl KeyError
           | Some e \<Rightarrow>
               if e \<in> {noSuchView, noAccessEntry, noGroupName} then Inl (smi_at AuthorizationErr idx)
               else if e = otherError then Inl (smi_at GenErr idx)
               else if e = noSuchContext then
                 Inl (SmiError GenErr (no_smi\<lparr>sd_idx := Some idx, sd_oid := Some (fst (rs_snmpUnknownContexts env)),
                   sd_val := Some (snd (rs_snmpUnknownContexts env))\<rparr>))
               else if e = notInView then Inr True
               else Inl ProtocolError)
      | Inl e \<Rightarrow> Inl e
      | Inr _ \<Rightarrow>
          if de_securityModel de = 1 \<and> (case sx of None \<Rightarrow> False | Some sx \<Rightarrow> rs_isCounter64 env sx) \<and>
             pdu_tag (de_PDU de) = GetNextRequest
          then Inl (smi_at NoAccessErr idx) else Inr False)"

section \<open>Answering\<close>

definition releaseStateInformation_rsp :: "nat \<Rightarrow> ('w responder, unit) sm" where
  "releaseStateInformation_rsp stateReference =
     smodify (\<lambda>s. s\<lparr>cr_pendingReqs := (cr_pendingReqs s)(stateReference := None)\<rparr>)"

definition on_world :: "('w, 'a) sm \<Rightarrow> ('w responder, 'a) sm" where
  "on_world m s = (case m (cr_world s) of (r, w) \<Rightarrow> (r, s\<lparr>cr_world := w\<rparr>))"

definition pending_of :: "nat \<Rightarrow> ('w responder, pending_req) sm" where
  "pending_of stateReference s = (of_option KeyError (cr_pendingReqs s stateReference), s)"

definition sendPdu_rsp :: "'w rsp_env \<Rightarrow> nat \<Rightarrow> pdu \<Rightarrow> ('w responder, unit) sm" where
  "sendPdu_rsp env stateReference PDU =
     sbind (pending_of stateReference) (\<lambda>req.
     sbind (sres (if de_messageProcessingModel (pr_message req) = 0 then v2ToV1 PDU (pr_origPdu req)
                  else Inr (V1Pdu PDU))) (\<lambda>out.
     scatch (on_world (rs_returnResponsePdu env
               ((pr_message req)\<lparr>de_PDU := out, de_stateReference := Some stateReference\<rparr>) (pr_statusInformation req)))
       (\<lambda>e. if is_StatusInformation e
            then smodify (\<lambda>s. s\<lparr>cr_snmpSilentDrops := inc32 (cr_snmpSilentDrops s)\<rparr>)
            else sraise e)))"

text \<open>The response is built in place, in what is kept for the request.\<close>

definition put_rspPDU :: "nat \<Rightarrow> pdu \<Rightarrow> ('w responder, unit) sm" where
  "put_rspPDU stateReference p s =
     (case cr_pendingReqs s stateReference of
        None \<Rightarrow> (Inr (), s)
      | Some req \<Rightarrow> (Inr (), s\<lparr>cr_pendingReqs := (cr_pendingReqs s)(stateReference \<mapsto> req\<lparr>pr_rspPDU := p\<rparr>)\<rparr>))"

definition sendVarBinds :: "'w rsp_env \<Rightarrow> nat \<Rightarrow> int \<Rightarrow> int \<Rightarrow> var_bind list \<Rightarrow> ('w responder, unit) sm" where
  "sendVarBinds env stateReference errorStatus errorIndex varBinds =
     sbind (pending_of stateReference) (\<lambda>req.
     let p = setErrorStatus errorStatus (pr_rspPDU req) in
     sbind (put_rspPDU stateReference p) (\<lambda>_.
     sbind (sres (v2_setErrorIndex errorIndex p)) (\<lambda>p.
     let p = setVarBinds (map (\<lambda>(n, v). (n, Some v)) varBinds) p in
     sbind (put_rspPDU stateReference p) (\<lambda>_.
     sendPdu_rsp env stateReference p))))"

section \<open>The operations\<close>

text \<open>
  \<open>handleMgmtOperation\<close> of the four responders. An operation of the instrumentation is a partial
  function, and so is everything that calls it.
\<close>

type_synonym ('s, 'a) pm = "'s \<Rightarrow> ('a res \<times> 's) option"

definition plift :: "('s, 'a) sm \<Rightarrow> ('s, 'a) pm" where
  "plift m s = Some (m s)"

definition pbind :: "('s, 'a) pm \<Rightarrow> ('a \<Rightarrow> ('s, 'b) pm) \<Rightarrow> ('s, 'b) pm" where
  "pbind m f s =
     (case m s of None \<Rightarrow> None | Some (Inl e, s') \<Rightarrow> Some (Inl e, s') | Some (Inr x, s') \<Rightarrow> f x s')"

definition pcatch :: "('s, 'a) pm \<Rightarrow> (exn \<Rightarrow> ('s, 'a) pm) \<Rightarrow> ('s, 'a) pm" where
  "pcatch m h s =
     (case m s of None \<Rightarrow> None | Some (Inl e, s') \<Rightarrow> h e s' | Some (Inr x, s') \<Rightarrow> Some (Inr x, s'))"

lemmas pm_defs = plift_def pbind_def pcatch_def

definition on_instrum :: "nat \<Rightarrow> (mib_tree \<Rightarrow> (var_bind list res \<times> mib_tree) option) \<Rightarrow> ('w responder, var_bind list) pm" where
  "on_instrum i f s = (case f (cr_instrums s i) of
     None \<Rightarrow> None | Some (r, t) \<Rightarrow> Some (r, s\<lparr>cr_instrums := (cr_instrums s)(i := t)\<rparr>))"

definition given :: "var_bind list \<Rightarrow> binding list" where
  "given vbs = map (\<lambda>(n, v). (n, Some v)) vbs"

definition answer :: "'w rsp_env \<Rightarrow> nat \<Rightarrow> var_bind list \<Rightarrow> ('w responder, unit) sm" where
  "answer env stateReference vbs =
     sbind (sendVarBinds env stateReference 0 0 vbs) (\<lambda>_. releaseStateInformation_rsp stateReference)"

definition handle_get :: "'w rsp_env \<Rightarrow> data_elements \<Rightarrow> nat \<Rightarrow> pdu \<Rightarrow> ('w responder, unit) pm" where
  "handle_get env de stateReference PDU =
     pbind (\<lambda>s. Some (getMibInstrum (de_contextName de) s, s)) (\<lambda>i.
     pbind (on_instrum i (readVars (Some (verifyAccess env de)) (given (p_varBinds PDU)))) (\<lambda>rspVarBinds.
     plift (answer env stateReference rspVarBinds)))"

fun exn_idx :: "exn \<Rightarrow> nat option" where
  "exn_idx (StatusInformation si) = si_idx si"
| "exn_idx _ = None"

text \<open>
  GETNEXT: a \<open>Counter64\<close> that cannot be told to an SNMPv1 manager is stepped over, by asking again
  from its name. \<open>e["idx"]\<close> is there when the translation raises.
\<close>

partial_function (option) next_loop :: "'w rsp_env \<Rightarrow> data_elements \<Rightarrow> nat \<Rightarrow> nat \<Rightarrow> binding list \<Rightarrow>
  'w responder \<Rightarrow> (unit res \<times> 'w responder) option" where
  [code]: "next_loop env de stateReference i varBinds s =
     (case on_instrum i (readNextVars (Some (verifyAccess env de)) varBinds) s of
        None \<Rightarrow> None
      | Some (Inl e, s') \<Rightarrow> Some (Inl e, s')
      | Some (Inr rspVarBinds, s') \<Rightarrow>
          (case sendVarBinds env stateReference 0 0 rspVarBinds s' of
             (Inr u, s'') \<Rightarrow> Some (releaseStateInformation_rsp stateReference s'')
           | (Inl e, s'') \<Rightarrow>
               if is_StatusInformation e then
                 (case exn_idx e of
                    None \<Rightarrow> Some (Inl KeyError, s'')
                  | Some idx \<Rightarrow>
                      if idx < length rspVarBinds \<and> idx < length varBinds
                      then next_loop env de stateReference i
                        (varBinds[idx := (fst (rspVarBinds ! idx), snd (varBinds ! idx))]) s''
                      else Some (Inl IndexError, s''))
               else Some (Inl e, s'')))"

definition handle_next :: "'w rsp_env \<Rightarrow> data_elements \<Rightarrow> nat \<Rightarrow> pdu \<Rightarrow> ('w responder, unit) pm" where
  "handle_next env de stateReference PDU =
     pbind (\<lambda>s. Some (getMibInstrum (de_contextName de) s, s)) (\<lambda>i.
       next_loop env de stateReference i (given (p_varBinds PDU)))"

text \<open>GETBULK: \<open>rspVarBinds[-R:]\<close>, and all of the list when \<open>R\<close> is zero.\<close>

definition last_of :: "nat \<Rightarrow> 'a list \<Rightarrow> 'a list" where
  "last_of R xs = (if R = 0 then xs else drop (length xs - R) xs)"

fun bulk_loop :: "(binding list \<Rightarrow> ('w responder, var_bind list) pm) \<Rightarrow> nat \<Rightarrow> nat \<Rightarrow> binding list \<Rightarrow>
  var_bind list \<Rightarrow> ('w responder, var_bind list) pm" where
  "bulk_loop mgmtFun R 0 varBinds rsp = plift (sret rsp)"
| "bulk_loop mgmtFun R (Suc M) varBinds rsp =
     (if R = 0 then plift (sret rsp)
      else pbind (mgmtFun varBinds) (\<lambda>repetition.
        let rsp = rsp @ repetition in bulk_loop mgmtFun R M (given (last_of R rsp)) rsp))"

definition maxVarBinds :: nat where "maxVarBinds = 64"

definition handle_bulk :: "'w rsp_env \<Rightarrow> data_elements \<Rightarrow> nat \<Rightarrow> pdu \<Rightarrow> ('w responder, unit) pm" where
  "handle_bulk env de stateReference PDU =
     (let reqVarBinds = given (p_varBinds PDU);
          N = min (nat (p_errorStatus PDU)) (length reqVarBinds);
          R = length reqVarBinds - N;
          M = (if R \<noteq> 0 then min (nat (p_errorIndex PDU)) (maxVarBinds div R) else nat (p_errorIndex PDU))
      in pbind (\<lambda>s. Some (getMibInstrum (de_contextName de) s, s)) (\<lambda>i.
         let mgmtFun = (\<lambda>vbs. on_instrum i (readNextVars (Some (verifyAccess env de)) vbs))
         in pbind (if N \<noteq> 0 then mgmtFun (take N reqVarBinds) else plift (sret [])) (\<lambda>rsp.
            pbind (bulk_loop mgmtFun R M (last_of R reqVarBinds) rsp) (\<lambda>rsp.
            if rsp \<noteq> [] then plift (answer env stateReference rsp)
            else plift (sraise (SmiError SmiErr no_smi))))))"

definition handle_set :: "'w rsp_env \<Rightarrow> data_elements \<Rightarrow> nat \<Rightarrow> pdu \<Rightarrow> ('w responder, unit) pm" where
  "handle_set env de stateReference PDU =
     pbind (\<lambda>s. Some (getMibInstrum (de_contextName de) s, s)) (\<lambda>i.
     pcatch (pbind (on_instrum i (writeVars (Some (verifyAccess env de)) (given (p_varBinds PDU)))) (\<lambda>rspVarBinds.
             plift (answer env stateReference rspVarBinds)))
       (\<lambda>e. case e of
          SmiError c d \<Rightarrow>
            if c \<in> {NoSuchObjectErr, NoSuchInstanceErr} then plift (sraise (SmiError NotWritableErr d))
            else plift (sraise e)
        | _ \<Rightarrow> plift (sraise e)))"

datatype responder_kind = GetResponder | NextResponder | BulkResponder | SetResponder

fun handleMgmtOperation :: "responder_kind \<Rightarrow> 'w rsp_env \<Rightarrow> data_elements \<Rightarrow> nat \<Rightarrow> pdu \<Rightarrow> ('w responder, unit) pm" where
  "handleMgmtOperation GetResponder = handle_get"
| "handleMgmtOperation NextResponder = handle_next"
| "handleMgmtOperation BulkResponder = handle_bulk"
| "handleMgmtOperation SetResponder = handle_set"

section \<open>Failures\<close>

text \<open>The names of \<open>errorStatus\<close>, with the class that is answered by each; \<open>e["idx"]\<close> has to be there.\<close>

fun error_code :: "smi_class \<Rightarrow> int option" where
  "error_code NoSuchNameErr = Some 2"
| "error_code NoSuchObjectErr = Some 2"
| "error_code NoSuchInstanceErr = Some 2"
| "error_code EndOfMibViewErr = Some 2"
| "error_code BadValueErr = Some 3"
| "error_code ReadOnlyErr = Some 4"
| "error_code NoAccessErr = Some 6"
| "error_code WrongTypeErr = Some 7"
| "error_code WrongLengthErr = Some 8"
| "error_code WrongEncodingErr = Some 9"
| "error_code WrongValueErr = Some 10"
| "error_code NoCreationErr = Some 11"
| "error_code InconsistentValueErr = Some 12"
| "error_code ResourceUnavailableErr = Some 13"
| "error_code CommitFailedErr = Some 14"
| "error_code UndoFailedErr = Some 15"
| "error_code AuthorizationErr = Some 16"
| "error_code NotWritableErr = Some 17"
| "error_code InconsistentNameErr = Some 18"
| "error_code _ = None"

text \<open>The status, the index and the bindings of the answer to an SMI error that is no report.\<close>

definition error_answer :: "smi_class \<Rightarrow> smi_details \<Rightarrow> var_bind list \<Rightarrow> (int \<times> int \<times> var_bind list) res" where
  "error_answer c d varBinds =
     (if c = GenErr then Inr (5, case sd_idx d of Some i \<Rightarrow> int i + 1 | None \<Rightarrow> 0, varBinds)
      else if c = TooBigErr then Inr (1, 0, [])
      else (case error_code c of
              Some code \<Rightarrow> rbind (of_option KeyError (sd_idx d)) (\<lambda>i. Inr (code, int i + 1, varBinds))
            | None \<Rightarrow> Inr (5, if varBinds = [] then 0 else 1, varBinds)))"

definition put_status :: "nat \<Rightarrow> oid \<Rightarrow> int option \<Rightarrow> ('w responder, unit) sm" where
  "put_status stateReference name val = smodify (\<lambda>s. s\<lparr>cr_pendingReqs :=
     (cr_pendingReqs s)(stateReference := map_option (\<lambda>req. req\<lparr>pr_statusInformation :=
        (pr_statusInformation req)\<lparr>si_oid := Some name, si_val := val\<rparr>\<rparr>) (cr_pendingReqs s stateReference))\<rparr>)"

definition failedMgmtOperation :: "'w rsp_env \<Rightarrow> nat \<Rightarrow> var_bind list \<Rightarrow> exn \<Rightarrow> ('w responder, unit) sm" where
  "failedMgmtOperation env stateReference varBinds exc =
     (case exc of
        SmiError c d \<Rightarrow>
          (case (c = GenErr, sd_oid d) of
             (True, Some name) \<Rightarrow>
               sbind (put_status stateReference name (sd_val d)) (\<lambda>_.
               sbind (sres (of_option KeyError (sd_val d))) (\<lambda>_.
               sbind (sendVarBinds env stateReference 0 0 varBinds) (\<lambda>_.
               releaseStateInformation_rsp stateReference)))
           | _ \<Rightarrow>
               sbind (sres (error_answer c d varBinds)) (\<lambda>(errorStatus, errorIndex, varBinds).
               sbind (sendVarBinds env stateReference errorStatus errorIndex varBinds) (\<lambda>_.
               releaseStateInformation_rsp stateReference)))
      | e \<Rightarrow> if is_PySnmpError e then releaseStateInformation_rsp stateReference else sraise e)"

section \<open>Requests\<close>

definition on_ids :: "(nextid, 'a) sm \<Rightarrow> ('w responder, 'a) sm" where
  "on_ids m s = (case m (cr_requestIDs s) of (r, g) \<Rightarrow> (r, s\<lparr>cr_requestIDs := g\<rparr>))"

definition the_pdu :: "v1_pdu \<Rightarrow> pdu res" where
  "the_pdu x = (case x of V1Pdu p \<Rightarrow> Inr p | V1Trap t \<Rightarrow> Inl ProtocolError)"

definition processPdu :: "responder_kind \<Rightarrow> 'w rsp_env \<Rightarrow> data_elements \<Rightarrow> nat \<Rightarrow> ('w responder, unit) pm" where
  "processPdu kind env de stateReference =
     pbind (plift (if de_messageProcessingModel de = 0 then on_ids (v1ToV2 (de_PDU de) None [])
                   else sres (the_pdu (de_PDU de)))) (\<lambda>PDU.
     if \<not> readClass (p_type PDU) \<and> \<not> writeClass (p_type PDU) then plift (sraise ProtocolError)
     else pbind (plift (on_ids (v2_getResponse PDU))) (\<lambda>rspPDU.
     pbind (plift (smodify (\<lambda>s. s\<lparr>cr_pendingReqs := (cr_pendingReqs s)(stateReference \<mapsto>
        \<lparr>pr_message = de, pr_rspPDU = rspPDU,
         pr_origPdu = (if de_messageProcessingModel de = 0 then Some (de_PDU de) else None),
         pr_statusInformation = no_details\<rparr>)\<rparr>))) (\<lambda>_.
     pcatch (handleMgmtOperation kind env de stateReference PDU)
       (\<lambda>exc. plift (failedMgmtOperation env stateReference (p_varBinds PDU) exc)))))"

section \<open>What is sent\<close>

text \<open>
  An observation of the responses that have been sent, and what the sending of a response adds
  to it at most.
\<close>

definition observes :: "('w \<Rightarrow> (data_elements \<times> status_info) set) \<Rightarrow> 'w rsp_env \<Rightarrow> bool" where
  "observes sent env \<longleftrightarrow>
     (\<forall>de st w. sent (snd (rs_returnResponsePdu env de st w)) \<subseteq> insert (de, st) (sent w))"

text \<open>
  What a step sends satisfies a condition on its error status, the status information that goes with it and its
  bindings, and the request stays pending if it fails.
\<close>

definition sends :: "('w \<Rightarrow> (data_elements \<times> status_info) set) \<Rightarrow> (int \<Rightarrow> status_info \<Rightarrow> var_bind list \<Rightarrow> bool) \<Rightarrow>
    'w responder \<Rightarrow> 'w responder \<Rightarrow> bool" where
  "sends sent P s s' \<longleftrightarrow>
     (\<forall>x \<in> sent (cr_world s') - sent (cr_world s). \<exists>p. de_PDU (fst x) = V1Pdu p \<and> P (p_errorStatus p) (snd x) (p_varBinds p))"

definition still_pending :: "nat \<Rightarrow> data_elements \<Rightarrow> 'w responder \<Rightarrow> bool" where
  "still_pending ref de s \<longleftrightarrow> (\<exists>req. cr_pendingReqs s ref = Some req \<and> pr_message req = de)"

lemma sendPdu_adds:
  assumes "observes sent env" and "sendPdu_rsp env ref p s = (r, s')" and "cr_pendingReqs s ref = Some req"
    and "de_messageProcessingModel (pr_message req) \<noteq> 0"
  shows "cr_pendingReqs s' = cr_pendingReqs s \<and>
    sent (cr_world s') \<subseteq> insert ((pr_message req)\<lparr>de_PDU := V1Pdu p, de_stateReference := Some ref\<rparr>, pr_statusInformation req)
      (sent (cr_world s))"
proof -
  let ?de = "(pr_message req)\<lparr>de_PDU := V1Pdu p, de_stateReference := Some ref\<rparr>"
  have "cr_pendingReqs s' = cr_pendingReqs s \<and>
      cr_world s' = snd (rs_returnResponsePdu env ?de (pr_statusInformation req) (cr_world s))"
    using assms(2-4) by (auto simp: sendPdu_rsp_def pending_of_def on_world_def sm_defs split: prod.splits sum.splits if_splits)
  then show ?thesis using assms(1) by (simp add: observes_def)
qed

lemma sendPdu_raises:
  assumes "sendPdu_rsp env ref p s = (r, s')" and "cr_pendingReqs s ref = Some req"
    and "de_messageProcessingModel (pr_message req) \<noteq> 0" and "r \<noteq> Inr ()"
  shows "\<exists>de st w e. fst (rs_returnResponsePdu env de st w) = Inl e"
proof -
  let ?de = "(pr_message req)\<lparr>de_PDU := V1Pdu p, de_stateReference := Some ref\<rparr>"
  obtain e where "fst (rs_returnResponsePdu env ?de (pr_statusInformation req) (cr_world s)) = Inl e"
    using assms by (cases "rs_returnResponsePdu env ?de (pr_statusInformation req) (cr_world s)")
      (auto simp: sendPdu_rsp_def pending_of_def on_world_def sm_defs split: sum.splits if_splits)
  then show ?thesis by blast
qed

lemma sendVarBinds_adds:
  assumes "observes sent env" and "sendVarBinds env ref es ei vbs s = (r, s')" and "cr_pendingReqs s ref = Some req"
    and "de_messageProcessingModel (pr_message req) \<noteq> 0"
  shows "(\<exists>req'. cr_pendingReqs s' ref = Some req' \<and> pr_message req' = pr_message req) \<and>
    sends sent (\<lambda>n st v. n = es \<and> st = pr_statusInformation req \<and> v = vbs) s s' \<and>
    (r \<noteq> Inr () \<longrightarrow> ei \<noteq> 0 \<or> (\<exists>de st w e. fst (rs_returnResponsePdu env de st w) = Inl e))"
proof (cases "v2_setErrorIndex ei (setErrorStatus es (pr_rspPDU req))")
  case (Inl e)
  then have "ei \<noteq> 0" by (auto simp: v2_setErrorIndex_def in_range_def max_bindings_def split: if_splits)
  with Inl show ?thesis using assms by (auto simp: sendVarBinds_def sends_def pending_of_def put_rspPDU_def sm_defs Let_def)
next
  case (Inr q)
  define p where "p = setVarBinds (map (\<lambda>(n, v). (n, Some v)) vbs) q"
  have vbs: "p_varBinds p = vbs" "p_errorStatus p = es"
    using Inr by (auto simp: p_def setVarBinds_def comp_def case_prod_beta setErrorStatus_def v2_setErrorIndex_def split: if_splits)
  let ?s = "s\<lparr>cr_pendingReqs := (cr_pendingReqs s)(ref \<mapsto> req\<lparr>pr_rspPDU := p\<rparr>)\<rparr>"
  have send: "sendPdu_rsp env ref p ?s = (r, s')"
    using assms(2,3) Inr p_def by (simp add: sendVarBinds_def pending_of_def put_rspPDU_def sm_defs Let_def)
  from sendPdu_adds [OF assms(1) send] assms(4) vbs
  have "(\<exists>req'. cr_pendingReqs s' ref = Some req' \<and> pr_message req' = pr_message req) \<and>
    sends sent (\<lambda>n st v. n = es \<and> st = pr_statusInformation req \<and> v = vbs) s s'" by (auto simp: sends_def)
  moreover have "r \<noteq> Inr () \<longrightarrow> (\<exists>de st w e. fst (rs_returnResponsePdu env de st w) = Inl e)"
    using sendPdu_raises [OF send] assms(4) by simp
  ultimately show ?thesis by blast
qed

lemma sends_refl [simp]: "sends sent P s s" by (simp add: sends_def)

lemma sends_trans: "sends sent P s s' \<Longrightarrow> sends sent P s' s'' \<Longrightarrow> sends sent P s s''"
  by (fastforce simp: sends_def)

lemma sends_world: "cr_world s' = cr_world s \<Longrightarrow> sends sent P s s'"
  by (simp add: sends_def)

lemma sends_mono: "sends sent P s s' \<Longrightarrow> (\<And>n st v. P n st v \<Longrightarrow> Q n st v) \<Longrightarrow> sends sent Q s s'"
  by (fastforce simp: sends_def)

lemma respond_sends:
  assumes "observes sent env"
    and "sbind (sendVarBinds env ref es ei vbs) (\<lambda>_. releaseStateInformation_rsp ref) s = (r, s')"
    and "still_pending ref de s" and "de_messageProcessingModel de \<noteq> 0"
    and "\<And>req. cr_pendingReqs s ref = Some req \<Longrightarrow> P es (pr_statusInformation req) vbs"
  shows "sends sent P s s' \<and> (\<forall>e. r = Inl e \<longrightarrow> still_pending ref de s' \<and>
    (ei \<noteq> 0 \<or> (\<exists>de st w e. fst (rs_returnResponsePdu env de st w) = Inl e)))"
proof -
  obtain r1 s1 where s1: "sendVarBinds env ref es ei vbs s = (r1, s1)" by (meson surj_pair)
  obtain req where req: "cr_pendingReqs s ref = Some req" "pr_message req = de"
    using assms(3) by (auto simp: still_pending_def)
  have "sends sent (\<lambda>n st v. n = es \<and> st = pr_statusInformation req \<and> v = vbs) s s1" and p: "still_pending ref de s1"
    and raised: "r1 \<noteq> Inr () \<longrightarrow> ei \<noteq> 0 \<or> (\<exists>de st w e. fst (rs_returnResponsePdu env de st w) = Inl e)"
    using sendVarBinds_adds [OF assms(1) s1 req(1)] req(2) assms(4) by (auto simp: still_pending_def)
  then have "sends sent P s s1" using assms(5) [OF req(1)] sends_mono by blast
  moreover have "cr_world s' = cr_world s1 \<and> (\<forall>e. r = Inl e \<longrightarrow> s' = s1 \<and> r1 = Inl e)"
    using assms(2) s1 by (cases r1) (auto simp: releaseStateInformation_rsp_def sm_defs)
  ultimately show ?thesis using p raised by (auto simp: sends_def)
qed

text \<open>
  The answers that say that an operation failed: an error status with the bindings of the request, or none if
  it is \<open>tooBig\<close>; or what asks for a report, which the status information names.
\<close>

definition failure_answer :: "var_bind list \<Rightarrow> int \<Rightarrow> status_info \<Rightarrow> var_bind list \<Rightarrow> bool" where
  "failure_answer reqVarBinds errorStatus st vbs \<longleftrightarrow>
     (errorStatus \<noteq> 0 \<and> (vbs = reqVarBinds \<or> errorStatus = 1 \<and> vbs = [])) \<or>
     (errorStatus = 0 \<and> si_oid st \<noteq> None \<and> vbs = reqVarBinds)"

lemma error_code_nonzero: "error_code c \<noteq> Some 0"
  by (cases c) simp_all

lemma failed_sends:
  assumes "observes sent env" and "failedMgmtOperation env ref vbs exc s = (r, s')"
    and "still_pending ref de s" and "de_messageProcessingModel de \<noteq> 0" and "\<And>n st v. failure_answer vbs n st v \<Longrightarrow> P n st v"
  shows "sends sent P s s'"
proof (cases "is_SmiError exc")
  case False
  then have "cr_world s' = cr_world s"
    using assms(2) by (cases exc) (auto simp: failedMgmtOperation_def releaseStateInformation_rsp_def sm_defs split: if_splits)
  then show ?thesis by (rule sends_world)
next
  case True
  then obtain c d where exc: "exc = SmiError c d" by (cases exc) auto
  show ?thesis
  proof (cases "c = GenErr \<and> sd_oid d \<noteq> None")
    case True
    then obtain name where name: "sd_oid d = Some name" by blast
    let ?s = "snd (put_status ref name (sd_val d) s)"
    have s: "sends sent P s ?s" "still_pending ref de ?s"
      using assms(3) by (auto simp: put_status_def smodify_def still_pending_def intro: sends_world)
    show ?thesis
    proof (cases "sd_val d")
      case None
      then show ?thesis using assms(2) exc True name s
        by (auto simp: failedMgmtOperation_def sbind_def sres_def put_status_def smodify_def)
    next
      case (Some v)
      then have "sbind (sendVarBinds env ref 0 0 vbs) (\<lambda>_. releaseStateInformation_rsp ref) ?s = (r, s')"
        using assms(2) exc True name by (simp add: failedMgmtOperation_def sbind_def sres_def put_status_def smodify_def)
      moreover have "P 0 (pr_statusInformation req) vbs" if "cr_pendingReqs ?s ref = Some req" for req
        using that assms(3) by (intro assms(5)) (auto simp: failure_answer_def put_status_def smodify_def still_pending_def)
      ultimately have "sends sent P ?s s'" using respond_sends [where P = P, OF assms(1) _ s(2) assms(4)] by blast
      with s(1) show ?thesis using sends_trans by blast
    qed
  next
    case False
    then have fail: "sbind (sres (error_answer c d vbs)) (\<lambda>(es, ei, vbs).
        sbind (sendVarBinds env ref es ei vbs) (\<lambda>_. releaseStateInformation_rsp ref)) s = (r, s')"
      using assms(2) exc by (auto simp: failedMgmtOperation_def split: option.splits bool.splits)
    show ?thesis
    proof (cases "error_answer c d vbs")
      case (Inl e)
      then show ?thesis using fail by (auto simp: sbind_def sres_def intro: sends_world)
    next
      case (Inr x)
      obtain es ei vbs' where x: "x = (es, ei, vbs')" by (metis prod_cases3)
      have "es \<noteq> 0 \<and> (vbs' = vbs \<or> es = 1 \<and> vbs' = [])"
        using Inr x error_code_nonzero by (auto simp: error_answer_def rbind_eq_Inr_iff split: if_splits option.splits)
      then have "\<And>st. P es st vbs'" by (intro assms(5)) (simp add: failure_answer_def)
      moreover have "sbind (sendVarBinds env ref es ei vbs') (\<lambda>_. releaseStateInformation_rsp ref) s = (r, s')"
        using fail Inr x by (simp add: sbind_def sres_def)
      ultimately show ?thesis using respond_sends [OF assms(1) _ assms(3,4)] by blast
    qed
  qed
qed


lemma get_sends:
  assumes "observes sent env" and "handle_get env de ref PDU s = Some (r, s')"
    and "still_pending ref de s" and "de_messageProcessingModel de \<noteq> 0"
    and "\<And>out. \<forall>vb \<in> set out. is_exception (snd vb) \<or> (\<exists>sx idx. verifyAccess env de (fst vb) sx idx read_view = Inr False) \<Longrightarrow>
      (\<And>st. P 0 st out)"
  shows "sends sent P s s' \<and> (\<forall>e. r = Inl e \<longrightarrow> still_pending ref de s')"
proof (cases "getMibInstrum (de_contextName de) s")
  case (Inl e)
  then show ?thesis using assms(2,3) by (auto simp: handle_get_def pm_defs)
next
  case (Inr i)
  let ?vbs = "given (p_varBinds PDU)"
  obtain r1 s1 where s1: "on_instrum i (readVars (Some (verifyAccess env de)) ?vbs) s = Some (r1, s1)"
    using assms(2) Inr by (auto simp: handle_get_def pm_defs split: option.splits)
  then obtain t' where t': "readVars (Some (verifyAccess env de)) ?vbs (cr_instrums s i) = Some (r1, t')"
      and w: "cr_world s1 = cr_world s" "cr_pendingReqs s1 = cr_pendingReqs s"
    by (auto simp: on_instrum_def split: option.splits)
  have pend: "still_pending ref de s1" using assms(3) w(2) by (simp add: still_pending_def)
  show ?thesis
  proof (cases r1)
    case (Inl e)
    then show ?thesis using assms(2) \<open>getMibInstrum _ s = Inr i\<close> s1 w pend
      by (auto simp: handle_get_def pm_defs intro: sends_world)
  next
    case (Inr out)
    have read: "length out = length ?vbs" "\<forall>j < length ?vbs. mib_readTest (Some (verifyAccess env de)) iso j (fst (?vbs ! j)) (cr_instrums s i) = Inr () \<and>
        mib_readGet j (fst (?vbs ! j)) (cr_instrums s i) = Inr (out ! j)"
      using readVars_reads [OF t'] Inr by auto
    have "is_exception (snd vb) \<or> (\<exists>sx idx. verifyAccess env de (fst vb) sx idx read_view = Inr False)"
      if vb: "vb \<in> set out" for vb
    proof -
      obtain j where j: "j < length out" "out ! j = vb" using vb by (auto simp: in_set_conv_nth)
      then show ?thesis using read read_granted by (metis prod.collapse)
    qed
    then have "\<And>st. P 0 st out" using assms(5) by blast
    moreover have "sbind (sendVarBinds env ref 0 0 out) (\<lambda>_. releaseStateInformation_rsp ref) s1 = (r, s')"
      using assms(2) \<open>getMibInstrum _ s = Inr i\<close> s1 Inr by (simp add: handle_get_def pm_defs answer_def)
    ultimately show ?thesis
      using respond_sends [where P = P, OF assms(1) _ pend assms(4)] w(1) by (auto simp: sends_def)
  qed
qed

lemma verifyAccess_granted:
  "verifyAccess env de name sx idx vt = Inr False \<Longrightarrow>
    rs_isAccessAllowed env (de_securityModel de) (de_securityName de) (de_securityLevel de) vt (de_contextName de) name = Inr ()"
  by (auto simp: verifyAccess_def split: sum.splits exn.splits option.splits if_splits)

lemma processPdu_sends:
  assumes "observes sent env" and "de_messageProcessingModel de \<noteq> 0" and "de_PDU de = V1Pdu q"
    and "processPdu kind env de ref s = Some (r, s')"
    and "\<And>n st v. F \<Longrightarrow> failure_answer (p_varBinds q) n st v \<Longrightarrow> P n st v"
    and handler: "\<And>s1 r2 s2. handleMgmtOperation kind env de ref q s1 = Some (r2, s2) \<Longrightarrow> still_pending ref de s1 \<Longrightarrow>
      cr_instrums s1 = cr_instrums s \<Longrightarrow> cr_contextNames s1 = cr_contextNames s \<Longrightarrow>
      sends sent P s1 s2 \<and> (\<forall>e. r2 = Inl e \<longrightarrow> still_pending ref de s2 \<and> F)"
  shows "sends sent P s s'"
proof (cases "\<not> readClass (p_type q) \<and> \<not> writeClass (p_type q)")
  case True
  then show ?thesis using assms(2-4) by (auto simp: processPdu_def pm_defs sm_defs the_pdu_def)
next
  case False
  obtain r0 s0 where s0: "on_ids (v2_getResponse q) s = (r0, s0)" by (meson surj_pair)
  then have w0: "cr_world s0 = cr_world s" "cr_instrums s0 = cr_instrums s" "cr_contextNames s0 = cr_contextNames s" by (auto simp: on_ids_def split: prod.splits)
  show ?thesis
  proof (cases r0)
    case (Inl e)
    then show ?thesis using False assms(2-4) s0 w0
      by (auto simp: processPdu_def pm_defs sm_defs the_pdu_def intro: sends_world)
  next
    case (Inr rsp)
    define s1 where "s1 = s0\<lparr>cr_pendingReqs := (cr_pendingReqs s0)(ref \<mapsto> \<lparr>pr_message = de, pr_rspPDU = rsp,
      pr_origPdu = None, pr_statusInformation = no_details\<rparr>)\<rparr>"
    have run: "pcatch (handleMgmtOperation kind env de ref q)
        (\<lambda>exc. plift (failedMgmtOperation env ref (p_varBinds q) exc)) s1 = Some (r, s')"
      using False assms(2-4) s0 Inr by (auto simp: processPdu_def pbind_def plift_def sm_defs the_pdu_def s1_def)
    have s1: "sends sent P s s1" "still_pending ref de s1"
      using w0 by (auto simp: s1_def still_pending_def intro: sends_world)
    obtain r2 s2 where s2: "handleMgmtOperation kind env de ref q s1 = Some (r2, s2)"
      using run by (auto simp: pcatch_def split: option.splits)
    have get: "sends sent P s1 s2 \<and> (\<forall>e. r2 = Inl e \<longrightarrow> still_pending ref de s2 \<and> F)"
      using handler [OF s2 s1(2)] w0 by (simp add: s1_def)
    show ?thesis
    proof (cases r2)
      case (Inl e)
      then have "failedMgmtOperation env ref (p_varBinds q) e s2 = (r, s')" using run s2 by (simp add: pcatch_def plift_def)
      then have "sends sent P s2 s'"
        using failed_sends [where P = P, OF assms(1) _ _ assms(2) assms(5)] get Inl by simp
      then show ?thesis using s1(1) get sends_trans by blast
    next
      case (Inr u)
      then show ?thesis using run s2 s1(1) get sends_trans by (auto simp: pcatch_def)
    qed
  qed
qed

text \<open>
  (C7) GET discloses only what the requester may read. Whatever the responder sends in answer to an
  SNMPv2c or SNMPv3 GET, every binding in it is one of the request's own, or says that there
  is nothing, or has a name for which the access control model allows reading to the
  requester in the context asked for.
\<close>

theorem get_discloses_only_granted:
  assumes "observes sent env" and "de_messageProcessingModel de \<noteq> 0" and "de_PDU de = V1Pdu q"
    and "processPdu GetResponder env de ref s = Some (r, s')"
    and "(de', st) \<in> sent (cr_world s')" and "(de', st) \<notin> sent (cr_world s)"
  shows "\<exists>p. de_PDU de' = V1Pdu p \<and> (\<forall>vb \<in> set (p_varBinds p). vb \<in> set (p_varBinds q) \<or> is_exception (snd vb) \<or>
    rs_isAccessAllowed env (de_securityModel de) (de_securityName de) (de_securityLevel de) read_view (de_contextName de) (fst vb) = Inr ())"
proof -
  define P where "P n st vbs \<longleftrightarrow> (\<forall>vb \<in> set vbs. vb \<in> set (p_varBinds q) \<or> is_exception (snd vb) \<or>
    rs_isAccessAllowed env (de_securityModel de) (de_securityName de) (de_securityLevel de) read_view (de_contextName de) (fst vb) = Inr ())" for n :: int and st :: status_info and vbs
  have granted: "\<And>st. P 0 st out" if "\<forall>vb \<in> set out. is_exception (snd vb) \<or> (\<exists>sx idx. verifyAccess env de (fst vb) sx idx read_view = Inr False)" for out
    using that verifyAccess_granted unfolding P_def by blast
  have "sends sent P s s'"
  proof (rule processPdu_sends [where F = True, OF assms(1-4)])
    show "sends sent P s1 s2 \<and> (\<forall>e. r2 = Inl e \<longrightarrow> still_pending ref de s2 \<and> True)"
      if "handleMgmtOperation GetResponder env de ref q s1 = Some (r2, s2)" "still_pending ref de s1" for s1 r2 s2
      using get_sends [where P = P, OF assms(1) _ that(2) assms(2) granted] that(1) by simp
  qed (auto simp: P_def failure_answer_def)
  then show ?thesis using assms(5,6) by (force simp: sends_def P_def)
qed

text \<open>An agent that keeps what it sends, and lets everyone read below \<open>1.1\<close> and write everywhere.\<close>

definition agent_env :: "(data_elements \<times> status_info) list rsp_env" where
  "agent_env = \<lparr>rs_isAccessAllowed = (\<lambda>sm sn sl vt cn name.
       if vt = write_view \<or> is_prefix [1, 1] name then Inr () else Inl (status notInView)),
     rs_isCounter64 = (\<lambda>sx. False), rs_snmpUnknownContexts = ([1, 9], 1),
     rs_returnResponsePdu = (\<lambda>de st. smodify (\<lambda>log. log @ [(de, st)]))\<rparr>"

definition agent :: "mib_tree \<Rightarrow> (data_elements \<times> status_info) list responder" where
  "agent t = \<lparr>cr_pendingReqs = Map.empty, cr_contextNames = [[] \<mapsto> 0], cr_instrums = (\<lambda>i. t),
     cr_requestIDs = \<lparr>ni_maximum = 10, ni_increment = 4, ni_threshold = 2, ni_bank = [1, 2, 3, 4]\<rparr>,
     cr_snmpSilentDrops = 0, cr_world = []\<rparr>"

definition agent_request :: "pdu_type \<Rightarrow> int \<Rightarrow> int \<Rightarrow> var_bind list \<Rightarrow> data_elements" where
  "agent_request ty n m vbs = \<lparr>de_messageProcessingModel = 3, de_securityModel = 3, de_securityName = [],
     de_securityLevel = 1, de_contextEngineId = [], de_contextName = [], de_pduVersion = 1,
     de_PDU = V1Pdu \<lparr>p_type = ty, p_requestID = 5, p_errorStatus = n, p_errorIndex = m, p_varBinds = vbs\<rparr>,
     de_pduType = ty, de_sendPduHandle = None, de_maxSizeResponseScopedPDU = 65507,
     de_statusInformation = None, de_stateReference = Some 1\<rparr>"

lemma agent_observes: "observes set agent_env"
  by (simp add: observes_def agent_env_def smodify_def)

definition agent_response :: "data_elements \<Rightarrow> int \<Rightarrow> int \<Rightarrow> var_bind list \<Rightarrow> data_elements" where
  "agent_response de n m vbs = de\<lparr>de_PDU := V1Pdu \<lparr>p_type = Response, p_requestID = 5, p_errorStatus = n,
     p_errorIndex = m, p_varBinds = vbs\<rparr>\<rparr>"

theorem get_discloses_only_granted_witness:
  "rs_isAccessAllowed agent_env 3 [] 1 read_view [] [1, 1, 0] = Inr () \<and>
   map_option (\<lambda>(r, s). cr_world s)
     (processPdu GetResponder agent_env (agent_request GetRequest 0 0 [([1, 1, 0], VNull)]) 1 (agent sample_tree)) =
   Some [(agent_response (agent_request GetRequest 0 0 [([1, 1, 0], VNull)]) 0 0 [([1, 1, 0], VInteger 7)], no_details)]"
proof
  let ?de = "agent_request GetRequest 0 0 [([1, 1, 0], VNull)]" and ?s = "agent sample_tree"
  let ?rsp = "agent_response ?de 0 0 [([1, 1, 0], VInteger 7)]"
  show run: "map_option (\<lambda>(r, s). cr_world s) (processPdu GetResponder agent_env ?de 1 ?s) = Some [(?rsp, no_details)]"
    by code_simp
  then obtain r s' where s': "processPdu GetResponder agent_env ?de 1 ?s = Some (r, s')" "cr_world s' = [(?rsp, no_details)]"
    by (auto simp: map_option_case split: option.splits)
  have "\<exists>p. de_PDU ?rsp = V1Pdu p \<and> (\<forall>vb \<in> set (p_varBinds p). vb \<in> set [([1, 1, 0], VNull)] \<or> is_exception (snd vb) \<or>
      rs_isAccessAllowed agent_env (de_securityModel ?de) (de_securityName ?de) (de_securityLevel ?de) read_view (de_contextName ?de) (fst vb) = Inr ())"
    using get_discloses_only_granted [OF agent_observes _ _ s'(1), where de' = ?rsp and st = no_details and
        q = "\<lparr>p_type = GetRequest, p_requestID = 5, p_errorStatus = 0, p_errorIndex = 0, p_varBinds = [([1, 1, 0], VNull)]\<rparr>"] s'(2)
    by (simp add: agent_request_def agent_def)
  then show "rs_isAccessAllowed agent_env 3 [] 1 read_view [] [1, 1, 0] = Inr ()"
    by (simp add: agent_response_def agent_request_def is_exception_def)
qed

section \<open>GETBULK\<close>

text \<open>Repetitions: each row is what comes next after the one before.\<close>

definition repetitions :: "ac_fun option \<Rightarrow> mib_tree \<Rightarrow> var_bind list \<Rightarrow> var_bind list list \<Rightarrow> bool" where
  "repetitions ac t start rows \<longleftrightarrow> (\<forall>k < length rows. length (rows ! k) = length start \<and>
     readNextVars ac (given ((start # rows) ! k)) t = Some (Inr (rows ! k), t))"

lemma on_instrum_next:
  assumes "on_instrum i (readNextVars ac vbs) s = Some (r, s')"
  shows "s' = s \<and> (\<forall>out. r = Inr out \<longrightarrow> length out = length vbs \<and> readNextVars ac vbs (cr_instrums s i) = Some (Inr out, cr_instrums s i))"
proof -
  obtain t' where t': "readNextVars ac vbs (cr_instrums s i) = Some (r, t')" "s' = s\<lparr>cr_instrums := (cr_instrums s)(i := t')\<rparr>"
    using assms by (auto simp: on_instrum_def split: option.splits)
  with readNextVars_reads [OF t'(1)] show ?thesis by auto
qed

lemma readNext_on_instrum:
  "on_instrum i (readNextVars ac vbs) s = Some (r, s') \<Longrightarrow> \<exists>t. readNextVars ac vbs (cr_instrums s i) = Some (r, t)"
  by (auto simp: on_instrum_def split: option.splits)

lemma repetitions_Cons:
  "repetitions ac t start (row # rows) \<longleftrightarrow>
     length row = length start \<and> readNextVars ac (given start) t = Some (Inr row, t) \<and> repetitions ac t row rows"
proof
  assume r: "repetitions ac t start (row # rows)"
  have "length (rows ! k) = length row \<and> readNextVars ac (given ((row # rows) ! k)) t = Some (Inr (rows ! k), t)" if "k < length rows" for k
    using r [unfolded repetitions_def, rule_format, of "Suc k"] r [unfolded repetitions_def, rule_format, of 0] that by simp
  then show "length row = length start \<and> readNextVars ac (given start) t = Some (Inr row, t) \<and> repetitions ac t row rows"
    using r [unfolded repetitions_def, rule_format, of 0] by (simp add: repetitions_def)
qed (auto simp: repetitions_def nth_Cons split: nat.splits)

lemma last_of_append: "length ys = R \<Longrightarrow> R \<noteq> 0 \<Longrightarrow> last_of R (xs @ ys) = ys"
  by (simp add: last_of_def)

lemma bulk_loop_rows:
  assumes "bulk_loop (\<lambda>vbs. on_instrum i (readNextVars ac vbs)) R M (given start) rsp s = Some (r, s')"
    and "length start = R" and "R \<noteq> 0"
  shows "s' = s \<and> (\<forall>out. r = Inr out \<longrightarrow> (\<exists>rows. length rows = M \<and> out = rsp @ concat rows \<and>
    repetitions ac (cr_instrums s i) start rows)) \<and>
    (\<forall>e rows. r = Inl e \<longrightarrow> length rows = M \<longrightarrow> \<not> repetitions ac (cr_instrums s i) start rows)"
  using assms
proof (induction M arbitrary: start rsp)
  case 0
  then show ?case by (auto simp: plift_def sret_def repetitions_def)
next
  case (Suc M)
  obtain r1 s1 where s1: "on_instrum i (readNextVars ac (given start)) s = Some (r1, s1)"
    using Suc.prems by (auto simp: pbind_def split: option.splits)
  note n = on_instrum_next [OF s1]
  show ?case
  proof (cases r1)
    case (Inl e)
    then have "\<not> repetitions ac (cr_instrums s i) start rows" if "length rows = Suc M" for rows
      using that readNext_on_instrum [OF s1] by (auto simp: repetitions_def dest: spec [of _ 0])
    then show ?thesis using Inl Suc.prems s1 n by (auto simp: pbind_def)
  next
    case (Inr row)
    then have row: "length row = R" "readNextVars ac (given start) (cr_instrums s i) = Some (Inr row, cr_instrums s i)"
      using n Suc.prems(2) by (auto simp: given_def)
    have "bulk_loop (\<lambda>vbs. on_instrum i (readNextVars ac vbs)) R M (given row) (rsp @ row) s = Some (r, s')"
      using Suc.prems s1 n Inr row(1) by (simp add: pbind_def Let_def last_of_append)
    from Suc.IH [OF this row(1) Suc.prems(3)]
    have IH: "s' = s" "\<forall>out. r = Inr out \<longrightarrow> (\<exists>rows. length rows = M \<and> out = (rsp @ row) @ concat rows \<and>
      repetitions ac (cr_instrums s i) row rows)"
      "\<forall>e rows. r = Inl e \<longrightarrow> length rows = M \<longrightarrow> \<not> repetitions ac (cr_instrums s i) row rows" by auto
    show ?thesis
    proof (intro conjI allI impI)
      fix e and rows :: "var_bind list list"
      assume "r = Inl e" "length rows = Suc M"
      then obtain row' rows' where rows: "rows = row' # rows'" "length rows' = M" by (auto simp: length_Suc_conv)
      then show "\<not> repetitions ac (cr_instrums s i) start rows"
        using IH(3) \<open>r = Inl e\<close> row(2) by (auto simp: repetitions_Cons)
    next
      show "s' = s" by (rule IH(1))
      fix out
      assume "r = Inr out"
      then obtain rows where rows: "length rows = M" "out = (rsp @ row) @ concat rows" "repetitions ac (cr_instrums s i) row rows"
        using IH(2) by blast
      have "repetitions ac (cr_instrums s i) start (row # rows)"
        using rows(3) row Suc.prems(2) by (auto simp: repetitions_def nth_Cons split: nat.splits)
      then show "\<exists>rows. length rows = Suc M \<and> out = rsp @ concat rows \<and> repetitions ac (cr_instrums s i) start rows"
        using rows(1,2) by (intro exI [of _ "row # rows"]) simp
    qed
  qed
qed


lemma maxVarBinds_rows: "R * (maxVarBinds div R) \<le> 64"
  by (simp add: maxVarBinds_def)

definition bulk_rows :: "ac_fun option \<Rightarrow> mib_tree \<Rightarrow> nat \<Rightarrow> nat \<Rightarrow> var_bind list \<Rightarrow> var_bind list \<Rightarrow> bool" where
  "bulk_rows ac t N M reqVarBinds out \<longleftrightarrow> (\<exists>heads rows. out = heads @ concat rows \<and> length heads = N \<and>
     (N \<noteq> 0 \<longrightarrow> readNextVars ac (given (take N reqVarBinds)) t = Some (Inr heads, t)) \<and>
     length rows = (if N = length reqVarBinds then 0 else M) \<and>
     repetitions ac t (drop N reqVarBinds) rows)"

lemma bulk_rows_length:
  assumes "bulk_rows ac t N M vbs out"
  shows "length out = N + (if N = length vbs then 0 else M * (length vbs - N))"
proof -
  have "length (concat rows) = length rows * length start" if "repetitions ac t start rows" for start rows
    using that
  proof (induction rows arbitrary: start)
    case (Cons row rows)
    then show ?case using Cons.IH [of row] by (simp add: repetitions_Cons)
  qed simp
  note rows = this
  obtain heads rows where "out = heads @ concat rows" "length heads = N" "length rows = (if N = length vbs then 0 else M)"
    "repetitions ac t (drop N vbs) rows" using assms unfolding bulk_rows_def by blast
  with rows [OF this(4)] show ?thesis by simp
qed

lemma bulk_rows_Nil: "bulk_rows ac t N M vbs [] \<Longrightarrow> bulk_rows ac t N M vbs out \<Longrightarrow> out = []"
  using bulk_rows_length [of ac t N M vbs "[]"] bulk_rows_length [of ac t N M vbs out] by (metis length_0_conv)

text \<open>The reads of a GETBULK do not all succeed or give nothing, or the sending of a response raises.\<close>

definition bulk_fails :: "'w rsp_env \<Rightarrow> ac_fun option \<Rightarrow> mib_tree \<Rightarrow> nat \<Rightarrow> nat \<Rightarrow> var_bind list \<Rightarrow> bool" where
  "bulk_fails env ac t N M vbs \<longleftrightarrow>
     \<not> (\<exists>out. out \<noteq> [] \<and> bulk_rows ac t N M vbs out) \<or> (\<exists>de st w e. fst (rs_returnResponsePdu env de st w) = Inl e)"

lemma given_simps: "length (given vbs) = length vbs" "take n (given vbs) = given (take n vbs)"
  by (simp_all add: given_def take_map)

lemmas length_given = given_simps(1)
lemmas take_given = given_simps(2)

lemma pbind_instrum:
  "getMibInstrum c s = Inr i \<Longrightarrow> pbind (\<lambda>s. Some (getMibInstrum c s, s)) f s = f i s"
  by (simp add: pbind_def)

lemma handle_bulk_rows:
  assumes "observes sent env" and "handle_bulk env de ref q s = Some (r, s')"
    and "still_pending ref de s" and "de_messageProcessingModel de \<noteq> 0"
    and "getMibInstrum (de_contextName de) s = Inr i"
    and N: "N = min (nat (p_errorStatus q)) (length (p_varBinds q))"
    and M: "M = min (nat (p_errorIndex q)) (maxVarBinds div (length (p_varBinds q) - N))"
    and P: "\<And>out. bulk_rows (Some (verifyAccess env de)) (cr_instrums s i) N M (p_varBinds q) out \<Longrightarrow>
      (\<And>st. P 0 st out)"
  shows "sends sent P s s' \<and> (\<forall>e. r = Inl e \<longrightarrow> still_pending ref de s' \<and>
    bulk_fails env (Some (verifyAccess env de)) (cr_instrums s i) N M (p_varBinds q))"
proof -
  let ?ac = "Some (verifyAccess env de)" and ?R = "length (p_varBinds q) - N"
  let ?f = "\<lambda>vbs. on_instrum i (readNextVars ?ac vbs)"
  let ?M = "if ?R \<noteq> 0 then M else nat (p_errorIndex q)"
  let ?first = "if N \<noteq> 0 then ?f (given (take N (p_varBinds q))) else plift (sret [])"
  have start: "last_of ?R (given (p_varBinds q)) = given (if ?R = 0 then p_varBinds q else drop N (p_varBinds q))"
    using N by (auto simp: last_of_def given_def drop_map)
  have run: "pbind ?first (\<lambda>rsp. pbind (bulk_loop ?f ?R ?M (last_of ?R (given (p_varBinds q))) rsp) (\<lambda>rsp.
      if rsp \<noteq> [] then plift (answer env ref rsp) else plift (sraise (SmiError SmiErr no_smi)))) s = Some (r, s')"
    using assms(2) unfolding handle_bulk_def Let_def length_given take_given N [symmetric] M [symmetric] pbind_instrum [OF assms(5)] .
  obtain r1 s1 where s1: "?first s = Some (r1, s1)" using run by (auto simp: pbind_def split: option.splits)
  have "s1 = s \<and> (\<forall>heads. r1 = Inr heads \<longrightarrow> length heads = N \<and>
      (N \<noteq> 0 \<longrightarrow> readNextVars ?ac (given (take N (p_varBinds q))) (cr_instrums s i) = Some (Inr heads, cr_instrums s i))) \<and>
      (\<forall>e. r1 = Inl e \<longrightarrow> N \<noteq> 0 \<and> (\<exists>t. readNextVars ?ac (given (take N (p_varBinds q))) (cr_instrums s i) = Some (Inl e, t)))"
  proof (cases "N = 0")
    case True
    then show ?thesis using s1 by (auto simp: plift_def sret_def)
  next
    case False
    then have "?f (given (take N (p_varBinds q))) s = Some (r1, s1)" using s1 by simp
    from on_instrum_next [OF this] readNext_on_instrum [OF this] N False show ?thesis by (auto simp: length_given)
  qed
  then have first: "s1 = s" "\<forall>heads. r1 = Inr heads \<longrightarrow> length heads = N \<and>
      (N \<noteq> 0 \<longrightarrow> readNextVars ?ac (given (take N (p_varBinds q))) (cr_instrums s i) = Some (Inr heads, cr_instrums s i))"
    "\<forall>e. r1 = Inl e \<longrightarrow> N \<noteq> 0 \<and> (\<exists>t. readNextVars ?ac (given (take N (p_varBinds q))) (cr_instrums s i) = Some (Inl e, t))" by blast+
  show ?thesis
  proof (cases r1)
    case (Inl e)
    then have "bulk_fails env ?ac (cr_instrums s i) N M (p_varBinds q)" using first(3) by (auto simp: bulk_fails_def bulk_rows_def)
    then show ?thesis using Inl run s1 first(1) assms(3) by (auto simp: pbind_def)
  next
    case (Inr heads)
    obtain r2 s2 where s2: "bulk_loop ?f ?R ?M (last_of ?R (given (p_varBinds q))) heads s = Some (r2, s2)"
      using run s1 first(1) Inr by (auto simp: pbind_def split: option.splits)
    have rows: "s2 = s \<and> (\<forall>out. r2 = Inr out \<longrightarrow> bulk_rows ?ac (cr_instrums s i) N M (p_varBinds q) out) \<and>
        (\<forall>e. r2 = Inl e \<longrightarrow> bulk_fails env ?ac (cr_instrums s i) N M (p_varBinds q))"
    proof (cases "?R = 0")
      case True
      then have "r2 = Inr heads" "s2 = s" "N = length (p_varBinds q)"
        using s2 N by (cases ?M; simp add: plift_def sret_def)+
      then show ?thesis using first Inr by (auto simp: bulk_rows_def repetitions_def intro!: exI [of _ heads] exI [of _ "[]"])
    next
      case False
      then have "bulk_loop ?f ?R M (given (drop N (p_varBinds q))) heads s = Some (r2, s2)" using s2 start by simp
      from bulk_loop_rows [OF this _ False]
      have rows: "s2 = s" "\<forall>out. r2 = Inr out \<longrightarrow> (\<exists>rows. length rows = M \<and> out = heads @ concat rows \<and>
          repetitions ?ac (cr_instrums s i) (drop N (p_varBinds q)) rows)"
        "\<forall>e rows. r2 = Inl e \<longrightarrow> length rows = M \<longrightarrow> \<not> repetitions ?ac (cr_instrums s i) (drop N (p_varBinds q)) rows" by auto
      have "bulk_fails env ?ac (cr_instrums s i) N M (p_varBinds q)" if "r2 = Inl e" for e
        using that rows(3) False unfolding bulk_fails_def bulk_rows_def by auto
      then show ?thesis using rows(1,2) first Inr False by (fastforce simp: bulk_rows_def)
    qed
    show ?thesis
    proof (cases r2)
      case (Inl e)
      then show ?thesis using run s1 first(1) Inr s2 rows assms(3) \<open>r1 = Inr heads\<close> by (auto simp: pbind_def)
    next
      case (Inr out)
      then have "\<And>st. P 0 st out" using rows P by blast
      moreover have "bulk_fails env ?ac (cr_instrums s i) N M (p_varBinds q)" if "out = []"
      proof -
        have "bulk_rows ?ac (cr_instrums s i) N M (p_varBinds q) []" using rows Inr that by simp
        then show ?thesis unfolding bulk_fails_def using bulk_rows_Nil by blast
      qed
      moreover have "(if out \<noteq> [] then plift (answer env ref out) else plift (sraise (SmiError SmiErr no_smi))) s = Some (r, s')"
        using run s1 first(1) s2 rows \<open>r1 = Inr heads\<close> Inr by (simp add: pbind_def)
      ultimately show ?thesis
        using respond_sends [where P = P, OF assms(1) _ assms(3,4)] assms(3)
        by (auto simp: plift_def answer_def sraise_def bulk_fails_def split: if_splits)
    qed
  qed
qed


text \<open>
  (C10) What a GETBULK is answered with. Whatever is sent for an SNMPv2c or SNMPv3 GETBULK has no error
  status and the successors of the first \<open>non-repeaters\<close> bindings, followed by rows for the remaining ones,
  each row the successors of the one before; there are as many rows as asked for, but no more than make
  64 bindings. Or it is the answer to a failure: an error status with the bindings of the request,
  or with none if it is \<open>tooBig\<close>, or what asks for a report. That is only sent when some of these
  successors cannot be read, or there are none to send, or the sending of a response raised.
\<close>

theorem bulk_answer_rows:
  assumes "observes sent env" and "de_messageProcessingModel de \<noteq> 0" and "de_PDU de = V1Pdu q"
    and "getMibInstrum (de_contextName de) s = Inr i"
    and "processPdu BulkResponder env de ref s = Some (r, s')"
    and "(de', st) \<in> sent (cr_world s')" and "(de', st) \<notin> sent (cr_world s)"
    and "N = min (nat (p_errorStatus q)) (length (p_varBinds q))"
    and "R = length (p_varBinds q) - N" and "M = min (nat (p_errorIndex q)) (64 div R)"
  shows "\<exists>p. de_PDU de' = V1Pdu p \<and>
    ((failure_answer (p_varBinds q) (p_errorStatus p) st (p_varBinds p) \<and>
        bulk_fails env (Some (verifyAccess env de)) (cr_instrums s i) N M (p_varBinds q)) \<or>
     (p_errorStatus p = 0 \<and> (\<exists>heads rows. p_varBinds p = heads @ concat rows \<and> length heads = N \<and> length rows * R \<le> 64 \<and>
       length rows = (if R = 0 then 0 else M) \<and>
       (N \<noteq> 0 \<longrightarrow> readNextVars (Some (verifyAccess env de)) (given (take N (p_varBinds q))) (cr_instrums s i) =
          Some (Inr heads, cr_instrums s i)) \<and>
       repetitions (Some (verifyAccess env de)) (cr_instrums s i) (drop N (p_varBinds q)) rows)))"
proof -
  let ?t = "cr_instrums s i" and ?ac = "Some (verifyAccess env de)"
  let ?F = "bulk_fails env ?ac ?t N M (p_varBinds q)"
  define P where "P n st vbs \<longleftrightarrow> (failure_answer (p_varBinds q) n st vbs \<and> ?F) \<or> (n = 0 \<and> bulk_rows ?ac ?t N M (p_varBinds q) vbs)"
    for n st vbs
  have M: "M = min (nat (p_errorIndex q)) (maxVarBinds div (length (p_varBinds q) - N))"
    using assms(9,10) by (simp add: maxVarBinds_def)
  have "sends sent P s s'"
  proof (rule processPdu_sends [where F = ?F, OF assms(1-3,5)])
    show "sends sent P s1 s2 \<and> (\<forall>e. r2 = Inl e \<longrightarrow> still_pending ref de s2 \<and> ?F)"
      if h: "handleMgmtOperation BulkResponder env de ref q s1 = Some (r2, s2)" "still_pending ref de s1"
        "cr_instrums s1 = cr_instrums s" "cr_contextNames s1 = cr_contextNames s" for s1 r2 s2
      unfolding h(3) [symmetric]
    proof (rule handle_bulk_rows [OF assms(1) _ h(2) assms(2) _ assms(8) M])
      show "handle_bulk env de ref q s1 = Some (r2, s2)" using h(1) by simp
      show "getMibInstrum (de_contextName de) s1 = Inr i" using assms(4) h(4) by (simp add: getMibInstrum_def)
      show "P 0 st out" if "bulk_rows ?ac (cr_instrums s1 i) N M (p_varBinds q) out" for st out
        using that h(3) by (simp add: P_def)
    qed
  qed (simp_all add: P_def)
  then obtain p where p: "de_PDU de' = V1Pdu p" "P (p_errorStatus p) st (p_varBinds p)" using assms(6,7) by (force simp: sends_def)
  show ?thesis
  proof (cases "failure_answer (p_varBinds q) (p_errorStatus p) st (p_varBinds p) \<and> ?F")
    case True
    with p(1) show ?thesis by blast
  next
    case False
    then obtain heads rows where rows: "p_varBinds p = heads @ concat rows" "length heads = N"
      "N \<noteq> 0 \<longrightarrow> readNextVars ?ac (given (take N (p_varBinds q))) ?t = Some (Inr heads, ?t)"
      "length rows = (if N = length (p_varBinds q) then 0 else M)" "repetitions ?ac ?t (drop N (p_varBinds q)) rows"
      "p_errorStatus p = 0"
      using p(2) unfolding P_def bulk_rows_def by blast
    have n: "length rows = (if R = 0 then 0 else M)" using rows(4) assms(8,9) by auto
    then have "length rows * R \<le> (64 div R) * R" using assms(10) by auto
    also have "\<dots> \<le> 64" by simp
    finally show ?thesis using p(1) rows(1-3,5,6) n by blast
  qed
qed

theorem bulk_answer_rows_witness:
  "map_option (\<lambda>(r, s). cr_world s)
     (processPdu BulkResponder agent_env (agent_request GetBulkRequest 1 2 [([1], VNull), ([1, 1], VNull)]) 1 (agent sample_tree)) =
   Some [(agent_response (agent_request GetBulkRequest 1 2 [([1], VNull), ([1, 1], VNull)]) 0 0
     [([1, 1, 0], VInteger 7), ([1, 1, 0], VInteger 7), ([1, 1, 0], VEndOfMibView)], no_details)] \<and>
   (\<exists>(heads :: var_bind list) rows. [([1, 1, 0], VInteger 7), ([1, 1, 0], VInteger 7), ([1, 1, 0], VEndOfMibView)] = heads @ concat rows \<and>
     length heads = 1 \<and> length rows = 2)"
proof
  let ?vbs = "[([1], VNull), ([1, 1], VNull)] :: var_bind list" and ?out = "[([1, 1, 0], VInteger 7), ([1, 1, 0], VInteger 7), ([1, 1, 0], VEndOfMibView)] :: var_bind list"
  let ?de = "agent_request GetBulkRequest 1 2 ?vbs" and ?s = "agent sample_tree"
  let ?rsp = "agent_response ?de 0 0 ?out"
  let ?q = "\<lparr>p_type = GetBulkRequest, p_requestID = 5, p_errorStatus = 1, p_errorIndex = 2, p_varBinds = ?vbs\<rparr>"
  show run: "map_option (\<lambda>(r, s). cr_world s) (processPdu BulkResponder agent_env ?de 1 ?s) = Some [(?rsp, no_details)]"
    by code_simp
  then obtain r s' where s': "processPdu BulkResponder agent_env ?de 1 ?s = Some (r, s')" "cr_world s' = [(?rsp, no_details)]"
    by (auto simp: map_option_case split: option.splits)
  have f: "de_messageProcessingModel ?de \<noteq> 0" "de_PDU ?de = V1Pdu ?q" "getMibInstrum (de_contextName ?de) ?s = Inr 0"
      "(?rsp, no_details) \<in> set (cr_world s')" "(?rsp, no_details) \<notin> set (cr_world ?s)"
      "1 = min (nat (p_errorStatus ?q)) (length (p_varBinds ?q))" "1 = length (p_varBinds ?q) - 1"
      "2 = min (nat (p_errorIndex ?q)) (64 div 1)"
    using s'(2) by (simp_all add: agent_request_def agent_def agent_response_def getMibInstrum_def)
  obtain p where p: "de_PDU ?rsp = V1Pdu p" "failure_answer (p_varBinds ?q) (p_errorStatus p) no_details (p_varBinds p) \<or>
      (\<exists>heads rows. p_varBinds p = heads @ concat rows \<and> length heads = 1 \<and> length rows = 2)"
    using bulk_answer_rows [OF agent_observes f(1-3) s'(1) f(4-8)] unfolding if_not_P [OF one_neq_zero] by blast
  have "p_varBinds p = ?out" "p_errorStatus p = 0" using p(1) by (auto simp: agent_response_def)
  moreover from this have "\<not> failure_answer (p_varBinds ?q) (p_errorStatus p) no_details (p_varBinds p)"
    by (simp add: failure_answer_def)
  ultimately show "\<exists>(heads :: var_bind list) rows. ?out = heads @ concat rows \<and> length heads = 1 \<and> length rows = 2"
    using p(2) by simp
qed

section \<open>Requests do not pile up\<close>

text \<open>An operation that touches only the request it serves, and one that has released it when it returns.\<close>

definition own_request :: "nat \<Rightarrow> ('w responder, 'a) sm \<Rightarrow> bool" where
  "own_request ref m \<longleftrightarrow> (\<forall>s x. x \<noteq> ref \<longrightarrow> cr_pendingReqs (snd (m s)) x = cr_pendingReqs s x)"

definition own_request_p :: "nat \<Rightarrow> ('w responder, 'a) pm \<Rightarrow> bool" where
  "own_request_p ref m \<longleftrightarrow> (\<forall>s r s' x. m s = Some (r, s') \<longrightarrow> x \<noteq> ref \<longrightarrow> cr_pendingReqs s' x = cr_pendingReqs s x)"

definition releases :: "nat \<Rightarrow> ('w responder, 'a) pm \<Rightarrow> bool" where
  "releases ref m \<longleftrightarrow> (\<forall>s u s'. m s = Some (Inr u, s') \<longrightarrow> cr_pendingReqs s' ref = None)"

named_theorems own

lemma own_basic [own]:
  "own_request ref (sret x)" "own_request ref (sraise e)" "own_request ref (sres r)" "own_request ref (pending_of ref)"
  "own_request ref (put_rspPDU ref p)" "own_request ref (releaseStateInformation_rsp ref)" "own_request ref (put_status ref n v)"
  "own_request ref (on_world m)" "own_request ref (on_ids g)"
  "own_request ref (smodify (\<lambda>s. s\<lparr>cr_snmpSilentDrops := f s\<rparr>))"
  "own_request ref (smodify (\<lambda>s. s\<lparr>cr_pendingReqs := (cr_pendingReqs s)(ref := req)\<rparr>))"
  by (auto simp: own_request_def pending_of_def put_rspPDU_def releaseStateInformation_rsp_def put_status_def on_world_def
      on_ids_def sm_defs split: prod.splits option.splits)

lemma own_sbind [own]: "own_request ref m \<Longrightarrow> (\<And>x. own_request ref (f x)) \<Longrightarrow> own_request ref (sbind m f)"
  unfolding own_request_def sbind_def by (auto split: prod.splits sum.splits) (metis snd_conv)+

lemma own_scatch [own]: "own_request ref m \<Longrightarrow> (\<And>e. own_request ref (h e)) \<Longrightarrow> own_request ref (scatch m h)"
  unfolding own_request_def scatch_def by (auto split: prod.splits sum.splits) (metis snd_conv)+

lemma own_if [own]: "own_request ref m \<Longrightarrow> own_request ref m' \<Longrightarrow> own_request ref (if b then m else m')"
  by simp

lemma own_sendVarBinds [own]: "own_request ref (sendVarBinds env ref es ei vbs)"
  unfolding sendVarBinds_def sendPdu_rsp_def Let_def by (intro own)

lemma own_failed [own]: "own_request ref (failedMgmtOperation env ref vbs exc)"
  unfolding failedMgmtOperation_def
  by (cases exc) (auto intro!: own split: option.splits bool.splits prod.splits)

lemma own_answer [own]: "own_request ref (answer env ref vbs)"
  unfolding answer_def by (intro own)

lemma own_plift [own]: "own_request ref m \<Longrightarrow> own_request_p ref (plift m)"
  unfolding own_request_def own_request_p_def plift_def by (auto simp: prod_eq_iff)

lemma own_pbind [own]: "own_request_p ref m \<Longrightarrow> (\<And>x. own_request_p ref (f x)) \<Longrightarrow> own_request_p ref (pbind m f)"
  unfolding own_request_p_def pbind_def by (fastforce split: option.splits prod.splits sum.splits)

lemma own_pcatch [own]: "own_request_p ref m \<Longrightarrow> (\<And>e. own_request_p ref (h e)) \<Longrightarrow> own_request_p ref (pcatch m h)"
  unfolding own_request_p_def pcatch_def by (fastforce split: option.splits prod.splits sum.splits)

lemma own_instrum [own]: "own_request_p ref (on_instrum i f)" "own_request_p ref (\<lambda>s. Some (getMibInstrum c s, s))"
  by (auto simp: own_request_p_def on_instrum_def split: option.splits)


definition served_only :: "nat \<Rightarrow> 'w responder \<Rightarrow> unit res \<times> 'w responder \<Rightarrow> bool" where
  "served_only ref s y \<longleftrightarrow> (\<forall>x. x \<noteq> ref \<longrightarrow> cr_pendingReqs (snd y) x = cr_pendingReqs s x) \<and>
     (fst y = Inr () \<longrightarrow> cr_pendingReqs (snd y) ref = None)"

lemma next_loop_requests: "next_loop env de ref i vbs s = Some y \<Longrightarrow> served_only ref s y"
proof (erule next_loop.raw_induct [rotated, where P = "\<lambda>env de ref i vbs s y. served_only ref s y"])
  fix rec :: "'w rsp_env \<Rightarrow> data_elements \<Rightarrow> nat \<Rightarrow> nat \<Rightarrow> binding list \<Rightarrow> 'w responder \<Rightarrow> (unit res \<times> 'w responder) option"
  fix env :: "'w rsp_env" and de ref i vbs s y
  assume IH: "\<And>env de ref i vbs s y. rec env de ref i vbs s = Some y \<Longrightarrow> served_only ref s y"
  assume run: "(case on_instrum i (readNextVars (Some (verifyAccess env de)) vbs) s of
        None \<Rightarrow> None
      | Some (Inl e, s') \<Rightarrow> Some (Inl e, s')
      | Some (Inr rsp, s') \<Rightarrow>
          (case sendVarBinds env ref 0 0 rsp s' of
             (Inr u, s'') \<Rightarrow> Some (releaseStateInformation_rsp ref s'')
           | (Inl e, s'') \<Rightarrow>
               if is_StatusInformation e then
                 (case exn_idx e of
                    None \<Rightarrow> Some (Inl KeyError, s'')
                  | Some idx \<Rightarrow>
                      if idx < length rsp \<and> idx < length vbs
                      then rec env de ref i (vbs[idx := (fst (rsp ! idx), snd (vbs ! idx))]) s''
                      else Some (Inl IndexError, s''))
               else Some (Inl e, s''))) = Some y"
  obtain r1 s1 where s1: "on_instrum i (readNextVars (Some (verifyAccess env de)) vbs) s = Some (r1, s1)"
    using run by (auto split: option.splits)
  have p1: "cr_pendingReqs s1 = cr_pendingReqs s"
    using s1 by (auto simp: on_instrum_def split: option.splits)
  show "served_only ref s y"
  proof (cases r1)
    case (Inl e)
    then show ?thesis using run s1 p1 by (auto simp: served_only_def)
  next
    case (Inr rsp)
    obtain r2 s2 where s2: "sendVarBinds env ref 0 0 rsp s1 = (r2, s2)" by (meson surj_pair)
    have p2: "x \<noteq> ref \<Longrightarrow> cr_pendingReqs s2 x = cr_pendingReqs s x" for x
      using own_sendVarBinds [of ref env 0 0 rsp] s2 p1 unfolding own_request_def by (metis snd_conv)
    show ?thesis
    proof (cases r2)
      case (Inl e)
      then have "(if is_StatusInformation e then
           (case exn_idx e of None \<Rightarrow> Some (Inl KeyError, s2)
            | Some idx \<Rightarrow> if idx < length rsp \<and> idx < length vbs
                then rec env de ref i (vbs[idx := (fst (rsp ! idx), snd (vbs ! idx))]) s2
                else Some (Inl IndexError, s2))
         else Some (Inl e, s2)) = Some y"
        using run s1 \<open>r1 = Inr rsp\<close> s2 by simp
      then consider e' where "y = (Inl e', s2)" | vbs' where "rec env de ref i vbs' s2 = Some y"
        by (auto split: option.splits if_splits)
      then show ?thesis
      proof cases
        case 1
        then show ?thesis using p2 by (simp add: served_only_def)
      next
        case 2
        from IH [OF this] p2 show ?thesis by (simp add: served_only_def)
      qed
    next
      case (Inr u)
      then show ?thesis using run s1 \<open>r1 = Inr rsp\<close> s2 p2
        by (auto simp: served_only_def releaseStateInformation_rsp_def smodify_def)
    qed
  qed
qed

lemma next_loop_own:
  "own_request_p ref (next_loop env de ref i vbs)" "releases ref (next_loop env de ref i vbs)"
  using next_loop_requests [of env de ref i vbs] unfolding own_request_p_def releases_def served_only_def by fastforce+

lemmas [own] = next_loop_own

lemma own_bulk_loop [own]: "(\<And>vbs. own_request_p ref (f vbs)) \<Longrightarrow> own_request_p ref (bulk_loop f R M vbs rsp)"
  by (induction M arbitrary: vbs rsp) (auto intro!: own simp: Let_def)

lemma releases_basic [own]:
  "releases ref (plift (releaseStateInformation_rsp ref))" "releases ref (plift (sraise e))"
  by (simp_all add: releases_def plift_def releaseStateInformation_rsp_def sm_defs)

lemma releases_sbind [own]:
  "(\<And>x. releases ref (plift (f x))) \<Longrightarrow> releases ref (plift (sbind m f))"
  unfolding releases_def plift_def sbind_def by (fastforce split: prod.splits sum.splits)

lemma releases_pbind [own]: "(\<And>x. releases ref (f x)) \<Longrightarrow> releases ref (pbind m f)"
  unfolding releases_def pbind_def by (fastforce split: option.splits prod.splits sum.splits)

lemma releases_pcatch [own]:
  "releases ref m \<Longrightarrow> (\<And>e. releases ref (h e)) \<Longrightarrow> releases ref (pcatch m h)"
  unfolding releases_def pcatch_def by (fastforce split: option.splits prod.splits sum.splits)

lemma releases_answer [own]: "releases ref (plift (answer env ref vbs))"
  unfolding answer_def by (intro own)

lemma releases_failed [own]: "releases ref (plift (failedMgmtOperation env ref vbs exc))"
  unfolding failedMgmtOperation_def
  by (cases exc) (auto intro!: own split: option.splits bool.splits prod.splits)


lemma own_handler [own]: "own_request_p ref (handleMgmtOperation kind env de ref PDU)"
  by (cases kind) (auto simp: handle_get_def handle_next_def handle_bulk_def handle_set_def Let_def intro!: own split: exn.splits)

lemma releases_handler [own]: "releases ref (handleMgmtOperation kind env de ref PDU)"
  by (cases kind) (auto simp: handle_get_def handle_next_def handle_bulk_def handle_set_def Let_def intro!: own split: exn.splits)

text \<open>
  (C11) Nothing is kept of a request that was served. When the responder returns from a request, the
  request is no longer pending, on every path: answered, answered with an error or a report,
  or dropped; and the other requests are as they were.
\<close>

theorem served_request_released:
  assumes "processPdu kind env de ref s = Some (Inr (), s')"
  shows "cr_pendingReqs s' = (cr_pendingReqs s)(ref := None)"
proof -
  have "releases ref (processPdu kind env de ref)"
    unfolding processPdu_def by (auto intro!: own)
  moreover have "own_request_p ref (processPdu kind env de ref)"
    unfolding processPdu_def by (auto intro!: own)
  ultimately show ?thesis using assms unfolding releases_def own_request_p_def by (auto simp: fun_eq_iff)
qed


theorem served_request_released_witness:
  "map_option (\<lambda>(r, s). (r, cr_pendingReqs s 1, cr_pendingReqs s 2 = None))
     (processPdu GetResponder agent_env (agent_request GetRequest 0 0 [([1, 1, 0], VNull)]) 1 (agent sample_tree)) =
   Some (Inr (), None, True)"
proof -
  let ?run = "processPdu GetResponder agent_env (agent_request GetRequest 0 0 [([1, 1, 0], VNull)]) 1 (agent sample_tree)"
  have "map_option fst ?run = Some (Inr ())" by code_simp
  then obtain s' where s': "?run = Some (Inr (), s')" by auto
  from served_request_released [OF s'] show ?thesis using s' by (simp add: agent_def)
qed

text \<open>
  A SET that fails the consistency check of a row is never answered. The error that check raises
  does not say which binding it is about; the mapping to an error status asks for it, and the
  \<open>KeyError\<close> of that leaves the responder: nothing is sent, and the request stays pending.
\<close>

theorem inconsistent_row_unanswered:
  "case processPdu SetResponder agent_env
     (agent_request SetRequest 0 0 [([1, 1, 0], VInteger 9), ([1, 2, 1, 3, 5], VInteger stCreateAndGo)]) 1 (agent reset_tree) of
     None \<Rightarrow> False
   | Some (r, s) \<Rightarrow> r = Inl KeyError \<and> cr_world s = [] \<and> cr_pendingReqs s 1 \<noteq> None"
  by code_simp

end
