(* ===== verification/Cmdgen.thy ===== *)
theory Cmdgen
  imports Proxy Dispatcher
begin

text \<open>
  The command generator, \<open>pysnmp/entity/rfc3413/cmdgen.py\<close>: sending requests to configured
  targets, matching, retrying and reporting, and the walks with GETNEXT and GETBULK that turn
  each response into the next request.

  The generator's own state stands between that of the dispatcher and the rest of the engine,
  since an application's callback may send the next request. The dispatcher, the look-up of
  targets and the applications are fields of the record \<open>cg_env\<close>; the dispatcher of
  \<open>Dispatcher\<close> is put in for the first in \<open>Cmdgen_Dispatch\<close>. The conversion of a time-out
  to ticks, which is in floating point, is a parameter, too.

  The lemmas show what becomes of a failed request, when a walk goes on and with which names,
  and that a walk with GETBULK need not end.
\<close>

section \<open>State\<close>

record 'addr target_info =
  ti_transportDomain :: oid
  ti_transportAddress :: 'addr
  ti_timeout :: int
  ti_retryCount :: int
  ti_messageProcessingModel :: int
  ti_securityModel :: int
  ti_securityName :: octets
  ti_securityLevel :: int

record 'addr pending_command =
  gp_transportDomain :: oid
  gp_transportAddress :: 'addr
  gp_messageProcessingModel :: int
  gp_securityModel :: int
  gp_securityName :: octets
  gp_securityLevel :: int
  gp_contextEngineId :: "octets option"
  gp_contextName :: octets
  gp_pduVersion :: int
  gp_PDU :: pdu
  gp_timeout :: int
  gp_retryCount :: int
  gp_retries :: int
  gp_discoveryRetries :: int

text \<open>
  \<open>cg_jobs\<close> is the transport dispatcher's count for this generator, absent at zero. The two
  generators of numbers are those of the module and of \<open>proto/api/v1.py\<close>.
\<close>

record 'addr cmdgen =
  cg_pendingReqs :: "nat \<rightharpoonup> 'addr pending_command"
  cg_jobs :: nat
  cg_handles :: nextid
  cg_requestIDs :: nextid

type_synonym ('d, 'addr, 'w) cg_state = "'d \<times> 'addr cmdgen \<times> 'w"

text \<open>
  What a request is to be continued with: a method of one of the generators, its context, and
  the application's own callback \<open>'k\<close>.
\<close>

record walk_ctx =
  wc_targetName :: octets
  wc_contextEngineId :: "octets option"
  wc_contextName :: octets
  wc_reqPDU :: pdu

datatype 'k gen_cb =
    GetSet 'k
  | NextSingle walk_ctx 'k
  | NextWalk walk_ctx 'k
  | BulkSingle int int walk_ctx 'k
  | BulkWalk int int walk_ctx 'k

type_synonym 'k gen_call = "nat \<times> 'k gen_cb"

text \<open>What an application is called with.\<close>

datatype gen_error = Indication errind | BadResponse

datatype rows = Flat "var_bind list" | Rows "var_bind list list"

record answer =
  an_sendRequestHandle :: nat
  an_errorIndication :: "gen_error option"
  an_errorStatus :: int
  an_errorIndex :: int
  an_varBinds :: rows

record ('k, 'addr, 'd, 'w) cg_env =
  ge_getTargetInfo :: "octets \<Rightarrow> (('d, 'addr, 'w) cg_state, 'addr target_info) sm"
  ge_sendPdu :: "('k gen_call, 'addr) send_request \<Rightarrow> (('d, 'addr, 'w) cg_state, nat) sm"
  ge_app :: "'k \<Rightarrow> answer \<Rightarrow> (('d, 'addr, 'w) cg_state, bool) sm"
  ge_discoveryRetries :: int
  ge_ticks :: "int \<Rightarrow> int"

definition on_gen :: "('addr cmdgen, 'a) sm \<Rightarrow> (('d, 'addr, 'w) cg_state, 'a) sm" where
  "on_gen m = on_snd (on_fst m)"

definition gen_modify :: "('addr cmdgen \<Rightarrow> 'addr cmdgen) \<Rightarrow> (('d, 'addr, 'w) cg_state, unit) sm" where
  "gen_modify f = on_gen (smodify f)"

section \<open>The next request of a walk\<close>

text \<open>
  \<open>getNextVarBinds\<close>, whose loop runs from the last binding to the first; \<open>n\<close> is \<open>idx\<close> before the
  step. An index beyond the original bindings is Python's \<open>IndexError\<close>.
\<close>

definition is_finished :: "snmp_value \<Rightarrow> bool" where
  "is_finished v \<longleftrightarrow> v \<in> {VNoSuchObject, VNoSuchInstance, VEndOfMibView}"

fun scan_next :: "var_bind list \<Rightarrow> var_bind list option \<Rightarrow> nat \<Rightarrow> errind option \<Rightarrow> nat \<Rightarrow>
    (oid \<times> snmp_value option) list \<Rightarrow> (errind option \<times> nat \<times> (oid \<times> snmp_value option) list) res" where
  "scan_next varBinds origVarBinds 0 err nonNulls rsp = Inr (err, nonNulls, rsp)"
| "scan_next varBinds origVarBinds (Suc idx) err nonNulls rsp =
     (let (name, val) = varBinds ! idx; rsp' = (name, None) # rsp in
      if is_finished val then scan_next varBinds origVarBinds idx err (nonNulls - 1) rsp'
      else case origVarBinds of
        None \<Rightarrow> scan_next varBinds origVarBinds idx err nonNulls rsp'
      | Some orig \<Rightarrow>
          if idx \<ge> length orig then Inl IndexError
          else scan_next varBinds origVarBinds idx
            (if name \<le> fst (orig ! idx) then Some oidNotIncreasing else err) nonNulls rsp')"

definition getNextVarBinds :: "var_bind list \<Rightarrow> var_bind list option \<Rightarrow>
    (errind option \<times> (oid \<times> snmp_value option) list) res" where
  "getNextVarBinds varBinds origVarBinds =
     rbind (scan_next varBinds origVarBinds (length varBinds) None (length varBinds) [])
       (\<lambda>(err, nonNulls, rsp). Inr (err, if nonNulls = 0 then [] else rsp))"

section \<open>Sending to a target\<close>

definition jobStarted :: "(('d, 'addr, 'w) cg_state, unit) sm" where
  "jobStarted = gen_modify (\<lambda>g. g\<lparr>cg_jobs := cg_jobs g + 1\<rparr>)"

definition jobFinished :: "(('d, 'addr, 'w) cg_state, unit) sm" where
  "jobFinished = on_gen (\<lambda>g. if cg_jobs g = 0 then (Inl KeyError, g) else (Inr (), g\<lparr>cg_jobs := cg_jobs g - 1\<rparr>))"

definition remember :: "nat \<Rightarrow> 'addr pending_command \<Rightarrow> (('d, 'addr, 'w) cg_state, unit) sm" where
  "remember h p = gen_modify (\<lambda>g. g\<lparr>cg_pendingReqs := (cg_pendingReqs g)(h \<mapsto> p)\<rparr>)"

definition draw :: "('addr cmdgen \<Rightarrow> nextid) \<Rightarrow> (nextid \<Rightarrow> 'addr cmdgen \<Rightarrow> 'addr cmdgen) \<Rightarrow> ('addr cmdgen, nat) sm" where
  "draw get put g = (case nextid_call (get g) of (r, n) \<Rightarrow> (r, put n g))"

definition getNextHandle :: "(('d, 'addr, 'w) cg_state, nat) sm" where
  "getNextHandle = on_gen (draw cg_handles (\<lambda>n g. g\<lparr>cg_handles := n\<rparr>))"

definition on_requestIDs :: "(nextid, 'a) sm \<Rightarrow> (('d, 'addr, 'w) cg_state, 'a) sm" where
  "on_requestIDs m = on_gen (\<lambda>g. case m (cg_requestIDs g) of (r, n) \<Rightarrow> (r, g\<lparr>cg_requestIDs := n\<rparr>))"

text \<open>The constraints of \<open>SnmpEngineID\<close> and \<open>SnmpAdminString\<close>; no engine is given by nothing or by an empty string.\<close>

definition SnmpEngineID :: "octets option \<Rightarrow> octets option res" where
  "SnmpEngineID e = (case e of None \<Rightarrow> Inr None
     | Some x \<Rightarrow> if x = [] \<or> 5 \<le> length x \<and> length x \<le> 32 then Inr e else Inl PyAsn1Error)"

definition SnmpAdminString :: "octets \<Rightarrow> octets res" where
  "SnmpAdminString x = (if length x \<le> 255 then Inr x else Inl PyAsn1Error)"

text \<open>The request as the dispatcher takes it, from what is kept of it.\<close>

definition dispatched :: "'addr pending_command \<Rightarrow> v1_pdu \<Rightarrow> 'k gen_call \<Rightarrow> ('k gen_call, 'addr) send_request" where
  "dispatched p reqPDU c = \<lparr>sq_transportDomain = gp_transportDomain p, sq_transportAddress = gp_transportAddress p,
     sq_messageProcessingModel = gp_messageProcessingModel p, sq_securityModel = gp_securityModel p,
     sq_securityName = gp_securityName p, sq_securityLevel = gp_securityLevel p,
     sq_contextEngineId = gp_contextEngineId p, sq_contextName = gp_contextName p,
     sq_pduVersion = (if gp_messageProcessingModel p = 0 then 0 else 1), sq_PDU = reqPDU,
     sq_expectResponse = True, sq_timeout = gp_timeout p, sq_cbFun = c\<rparr>"

definition versioned_PDU :: "int \<Rightarrow> pdu \<Rightarrow> v1_pdu res" where
  "versioned_PDU messageProcessingModel PDU =
     (if messageProcessingModel = 0 then v2ToV1 PDU None else Inr (V1Pdu PDU))"

text \<open>The steps both \<open>sendPdu\<close> and a retry take.\<close>

definition dispatch_command :: "('k, 'addr, 'd, 'w) cg_env \<Rightarrow> 'addr pending_command \<Rightarrow> v1_pdu \<Rightarrow> 'k gen_call \<Rightarrow>
    (('d, 'addr, 'w) cg_state, unit) sm" where
  "dispatch_command env p reqPDU c =
     sbind (ge_sendPdu env (dispatched p reqPDU c)) (\<lambda>sendPduHandle.
     sbind jobStarted (\<lambda>_. remember sendPduHandle p))"

definition new_command :: "('k, 'addr, 'd, 'w) cg_env \<Rightarrow> 'addr target_info \<Rightarrow> octets option \<Rightarrow> octets \<Rightarrow> pdu \<Rightarrow>
    'addr pending_command" where
  "new_command env ti contextEngineId contextName PDU =
     \<lparr>gp_transportDomain = ti_transportDomain ti, gp_transportAddress = ti_transportAddress ti,
      gp_messageProcessingModel = ti_messageProcessingModel ti, gp_securityModel = ti_securityModel ti,
      gp_securityName = ti_securityName ti, gp_securityLevel = ti_securityLevel ti,
      gp_contextEngineId = contextEngineId, gp_contextName = contextName,
      gp_pduVersion = (if ti_messageProcessingModel ti = 0 then 0 else 1), gp_PDU = PDU,
      gp_timeout = ge_ticks env (ti_timeout ti), gp_retryCount = ti_retryCount ti,
      gp_retries = 0, gp_discoveryRetries = 0\<rparr>"

definition sendCommand :: "('k, 'addr, 'd, 'w) cg_env \<Rightarrow> octets \<Rightarrow> octets option \<Rightarrow> octets \<Rightarrow> pdu \<Rightarrow> 'k gen_cb \<Rightarrow>
    (('d, 'addr, 'w) cg_state, nat) sm" where
  "sendCommand env targetName contextEngineId contextName PDU cb =
     sbind (ge_getTargetInfo env targetName) (\<lambda>ti.
     sbind (sres (SnmpEngineID contextEngineId)) (\<lambda>contextEngineId.
     sbind (sres (SnmpAdminString contextName)) (\<lambda>contextName.
     sbind (sres (versioned_PDU (ti_messageProcessingModel ti) PDU)) (\<lambda>reqPDU.
     sbind getNextHandle (\<lambda>sendRequestHandle.
     sbind (dispatch_command env (new_command env ti contextEngineId contextName PDU) reqPDU (sendRequestHandle, cb)) (\<lambda>_.
     sret sendRequestHandle))))))"

section \<open>Requests\<close>

definition get_sendVarBinds :: "('k, 'addr, 'd, 'w) cg_env \<Rightarrow> octets \<Rightarrow> octets option \<Rightarrow> octets \<Rightarrow>
    (oid \<times> snmp_value option) list \<Rightarrow> 'k \<Rightarrow> (('d, 'addr, 'w) cg_state, nat) sm" where
  "get_sendVarBinds env targetName contextEngineId contextName varBinds k =
     sbind (on_requestIDs (setDefaults (pdu_clone GetRequest))) (\<lambda>reqPDU.
     sendCommand env targetName contextEngineId contextName (setVarBinds varBinds reqPDU) (GetSet k))"

definition set_sendVarBinds :: "('k, 'addr, 'd, 'w) cg_env \<Rightarrow> octets \<Rightarrow> octets option \<Rightarrow> octets \<Rightarrow>
    (oid \<times> snmp_value option) list \<Rightarrow> 'k \<Rightarrow> (('d, 'addr, 'w) cg_state, nat) sm" where
  "set_sendVarBinds env targetName contextEngineId contextName varBinds k =
     sbind (on_requestIDs (setDefaults (pdu_clone SetRequest))) (\<lambda>reqPDU.
     sendCommand env targetName contextEngineId contextName (setVarBinds varBinds reqPDU) (GetSet k))"

text \<open>The walking generators inherit this from those that run once; \<open>walk\<close> says which of the two it is.\<close>

definition next_sendVarBinds :: "('k, 'addr, 'd, 'w) cg_env \<Rightarrow> bool \<Rightarrow> octets \<Rightarrow> octets option \<Rightarrow> octets \<Rightarrow>
    (oid \<times> snmp_value option) list \<Rightarrow> 'k \<Rightarrow> (('d, 'addr, 'w) cg_state, nat) sm" where
  "next_sendVarBinds env walk targetName contextEngineId contextName varBinds k =
     sbind (on_requestIDs (setDefaults (pdu_clone GetNextRequest))) (\<lambda>reqPDU.
     let reqPDU = setVarBinds varBinds reqPDU;
         ctx = \<lparr>wc_targetName = targetName, wc_contextEngineId = contextEngineId, wc_contextName = contextName,
           wc_reqPDU = reqPDU\<rparr> in
     sendCommand env targetName contextEngineId contextName reqPDU
       (if walk then NextWalk ctx k else NextSingle ctx k))"

definition setBulk :: "int \<Rightarrow> int \<Rightarrow> pdu \<Rightarrow> pdu res" where
  "setBulk nonRepeaters maxRepetitions p =
     (if in_range 0 max_bindings nonRepeaters \<and> in_range 0 max_bindings maxRepetitions
      then Inr (p\<lparr>p_errorStatus := nonRepeaters, p_errorIndex := maxRepetitions\<rparr>) else Inl PyAsn1Error)"

definition bulk_sendVarBinds :: "('k, 'addr, 'd, 'w) cg_env \<Rightarrow> bool \<Rightarrow> octets \<Rightarrow> octets option \<Rightarrow> octets \<Rightarrow> int \<Rightarrow> int \<Rightarrow>
    (oid \<times> snmp_value option) list \<Rightarrow> 'k \<Rightarrow> (('d, 'addr, 'w) cg_state, nat) sm" where
  "bulk_sendVarBinds env walk targetName contextEngineId contextName nonRepeaters maxRepetitions varBinds k =
     sbind (on_requestIDs (bulk_setDefaults (pdu_clone GetBulkRequest))) (\<lambda>reqPDU.
     sbind (sres (setBulk nonRepeaters maxRepetitions reqPDU)) (\<lambda>reqPDU.
     let reqPDU = setVarBinds varBinds reqPDU;
         ctx = \<lparr>wc_targetName = targetName, wc_contextEngineId = contextEngineId, wc_contextName = contextName,
           wc_reqPDU = reqPDU\<rparr> in
     sendCommand env targetName contextEngineId contextName reqPDU
       (if walk then BulkWalk nonRepeaters maxRepetitions ctx k else BulkSingle nonRepeaters maxRepetitions ctx k)))"

section \<open>Responses\<close>

text \<open>A single run hands over what came and is done.\<close>

definition hand_over :: "('k, 'addr, 'd, 'w) cg_env \<Rightarrow> nat \<Rightarrow> gen_error option \<Rightarrow> pdu option \<Rightarrow> 'k \<Rightarrow>
    (('d, 'addr, 'w) cg_state, unit) sm" where
  "hand_over env sendRequestHandle errorIndication PDU k =
     sbind (sres (case PDU of None \<Rightarrow> Inr 0 | Some p \<Rightarrow> getErrorIndex True p)) (\<lambda>errorIndex.
     sbind (ge_app env k \<lparr>an_sendRequestHandle = sendRequestHandle, an_errorIndication = errorIndication,
       an_errorStatus = (case PDU of None \<Rightarrow> 0 | Some p \<Rightarrow> p_errorStatus p), an_errorIndex = errorIndex,
       an_varBinds = Flat (case PDU of None \<Rightarrow> [] | Some p \<Rightarrow> p_varBinds p)\<rparr>) (\<lambda>_. sret ()))"

definition tell :: "('k, 'addr, 'd, 'w) cg_env \<Rightarrow> nat \<Rightarrow> gen_error \<Rightarrow> 'k \<Rightarrow> (('d, 'addr, 'w) cg_state, unit) sm" where
  "tell env sendRequestHandle e k =
     sbind (ge_app env k \<lparr>an_sendRequestHandle = sendRequestHandle, an_errorIndication = Some e,
       an_errorStatus = 0, an_errorIndex = 0, an_varBinds = Flat []\<rparr>) (\<lambda>_. sret ())"

text \<open>Which bindings a walk asks for next, and what is wrong with the response.\<close>

definition next_request :: "pdu \<Rightarrow> pdu \<Rightarrow> var_bind list list \<Rightarrow>
    (errind option \<times> (oid \<times> snmp_value option) list) res" where
  "next_request reqPDU PDU varBindTable =
     (if p_errorStatus PDU \<noteq> 0 then Inr (None, [])
      else if varBindTable = [] then Inr (Some emptyResponse, [])
      else getNextVarBinds (last varBindTable) (Some (p_varBinds reqPDU)))"

definition next_bulk_request :: "pdu \<Rightarrow> pdu \<Rightarrow> var_bind list list \<Rightarrow>
    (errind option \<times> (oid \<times> snmp_value option) list) res" where
  "next_bulk_request reqPDU PDU varBindTable =
     rbind (next_request reqPDU PDU varBindTable) (\<lambda>(e, varBinds).
     let nonRepeaters = nat (p_errorStatus reqPDU) in
     Inr (e, if p_errorStatus PDU = 0 \<and> varBindTable \<noteq> [] \<and> p_errorStatus reqPDU \<noteq> 0
             then map (\<lambda>(n, v). (n, Some v)) (take nonRepeaters (p_varBinds reqPDU)) @ drop nonRepeaters varBinds
             else varBinds))"

text \<open>
  What both walks do with a response: the application is told first; if it wants more and there is
  more, the request is changed in place and sent again.
\<close>

definition continue_walk :: "('k, 'addr, 'd, 'w) cg_env \<Rightarrow> walk_ctx \<Rightarrow> (walk_ctx \<Rightarrow> 'k gen_cb) \<Rightarrow> 'k \<Rightarrow> nat \<Rightarrow> pdu \<Rightarrow>
    var_bind list list \<Rightarrow> (errind option \<times> (oid \<times> snmp_value option) list) res \<Rightarrow> (('d, 'addr, 'w) cg_state, unit) sm" where
  "continue_walk env ctx cb k sendRequestHandle PDU varBindTable nxt =
     sbind (sres nxt) (\<lambda>(errorIndication, varBinds).
     sbind (sres (getErrorIndex True PDU)) (\<lambda>errorIndex.
     sbind (ge_app env k \<lparr>an_sendRequestHandle = sendRequestHandle,
         an_errorIndication = map_option Indication errorIndication, an_errorStatus = p_errorStatus PDU,
         an_errorIndex = errorIndex, an_varBinds = Rows varBindTable\<rparr>) (\<lambda>more.
     if \<not> more then sret ()
     else if varBinds = [] then sret ()
     else sbind (on_requestIDs nextid_call) (\<lambda>requestID.
       sbind (sres (v2_setRequestID (int requestID) (wc_reqPDU ctx))) (\<lambda>reqPDU.
       let reqPDU = setVarBinds varBinds reqPDU; ctx = ctx\<lparr>wc_reqPDU := reqPDU\<rparr> in
       scatch (sbind (sendCommand env (wc_targetName ctx) (wc_contextEngineId ctx) (wc_contextName ctx) reqPDU (cb ctx))
                (\<lambda>_. sret ()))
         (\<lambda>e. case e of
            StatusInformation si \<Rightarrow>
              (case si_errorIndication si of None \<Rightarrow> sraise KeyError | Some i \<Rightarrow> tell env sendRequestHandle (Indication i) k)
          | _ \<Rightarrow> sraise e))))))"

definition no_PDU :: "('s, 'a) sm" where
  "no_PDU = sraise AttributeError"

definition processResponseVarBinds :: "('k, 'addr, 'd, 'w) cg_env \<Rightarrow> nat \<Rightarrow> gen_error option \<Rightarrow> pdu option \<Rightarrow> 'k gen_cb \<Rightarrow>
    (('d, 'addr, 'w) cg_state, unit) sm" where
  "processResponseVarBinds env sendRequestHandle errorIndication PDU cb =
     (case cb of
        GetSet k \<Rightarrow> hand_over env sendRequestHandle errorIndication PDU k
      | NextSingle ctx k \<Rightarrow> hand_over env sendRequestHandle errorIndication PDU k
      | BulkSingle n m ctx k \<Rightarrow> hand_over env sendRequestHandle errorIndication PDU k
      | NextWalk ctx k \<Rightarrow>
          (case (errorIndication, PDU) of
             (Some e, _) \<Rightarrow> tell env sendRequestHandle e k
           | (None, None) \<Rightarrow> no_PDU
           | (None, Some p) \<Rightarrow>
               let table = v2_getVarBindTable (wc_reqPDU ctx) p in
               continue_walk env ctx (\<lambda>c. NextWalk c k) k sendRequestHandle p table (next_request (wc_reqPDU ctx) p table))
      | BulkWalk n m ctx k \<Rightarrow>
          (case (errorIndication, PDU) of
             (Some e, _) \<Rightarrow> tell env sendRequestHandle e k
           | (None, None) \<Rightarrow> no_PDU
           | (None, Some p) \<Rightarrow>
               let table = bulk_getVarBindTable (wc_reqPDU ctx) p in
               continue_walk env ctx (\<lambda>c. BulkWalk (p_errorStatus (wc_reqPDU ctx)) m c k) k sendRequestHandle p table
                 (next_bulk_request (wc_reqPDU ctx) p table)))"

section \<open>Retries\<close>

definition is_discovery :: "errind \<Rightarrow> bool" where
  "is_discovery e \<longleftrightarrow> e \<in> {notInTimeWindow, unknownEngineID}"

definition spend_retry :: "errind \<Rightarrow> 'addr pending_command \<Rightarrow> 'addr pending_command" where
  "spend_retry e p =
     (if is_discovery e then p\<lparr>gp_discoveryRetries := gp_discoveryRetries p + 1, gp_retries := 0\<rparr>
      else p\<lparr>gp_discoveryRetries := 0, gp_retries := gp_retries p + 1\<rparr>)"

definition out_of_retries :: "('k, 'addr, 'd, 'w) cg_env \<Rightarrow> 'addr pending_command \<Rightarrow> bool" where
  "out_of_retries env p \<longleftrightarrow> gp_retries p > gp_retryCount p \<or> gp_discoveryRetries p > ge_discoveryRetries env"

definition request_failed :: "('k, 'addr, 'd, 'w) cg_env \<Rightarrow> 'addr pending_command \<Rightarrow> status_info \<Rightarrow> 'k gen_call \<Rightarrow>
    (('d, 'addr, 'w) cg_state, unit) sm" where
  "request_failed env p statusInformation c =
     (case si_errorIndication statusInformation of
        None \<Rightarrow> sraise KeyError
      | Some errorIndication \<Rightarrow>
          let p = spend_retry errorIndication p in
          if out_of_retries env p
          then processResponseVarBinds env (fst c) (Some (Indication errorIndication)) None (snd c)
          else sbind (sres (versioned_PDU (gp_messageProcessingModel p) (gp_PDU p))) (\<lambda>reqPDU.
            scatch (dispatch_command env p reqPDU c)
              (\<lambda>e. case e of
                 StatusInformation si \<Rightarrow>
                   (case si_errorIndication si of None \<Rightarrow> sraise KeyError
                    | Some i \<Rightarrow> processResponseVarBinds env (fst c) (Some (Indication i)) None (snd c))
               | _ \<Rightarrow> sraise e)))"

definition mismatched :: "'addr pending_command \<Rightarrow> data_elements \<Rightarrow> bool" where
  "mismatched p de \<longleftrightarrow>
     gp_messageProcessingModel p \<noteq> de_messageProcessingModel de \<or> gp_securityModel p \<noteq> de_securityModel de \<or>
     gp_securityName p \<noteq> de_securityName de \<or>
     (case gp_contextEngineId p of None \<Rightarrow> False | Some e \<Rightarrow> e \<noteq> [] \<and> e \<noteq> de_contextEngineId de) \<or>
     (gp_contextName p \<noteq> [] \<and> gp_contextName p \<noteq> de_contextName de) \<or>
     gp_pduVersion p \<noteq> de_pduVersion de"

text \<open>
  The response as an SNMPv2 PDU. A trap is never a response (\<open>Mp_V3\<close>, \<open>Mp_Community\<close>); it has no
  error status to compare.
\<close>

definition response_PDU :: "'addr pending_command \<Rightarrow> data_elements \<Rightarrow> (('d, 'addr, 'w) cg_state, pdu) sm" where
  "response_PDU p de =
     (if de_messageProcessingModel de = 0 then on_requestIDs (v1ToV2 (de_PDU de) (Some (gp_PDU p)) [])
      else case de_PDU de of V1Pdu q \<Rightarrow> sret q | V1Trap t \<Rightarrow> sraise PyAsn1Error)"

definition response_arrived :: "('k, 'addr, 'd, 'w) cg_env \<Rightarrow> 'addr pending_command \<Rightarrow> data_elements \<Rightarrow> 'k gen_call \<Rightarrow>
    (('d, 'addr, 'w) cg_state, unit) sm" where
  "response_arrived env p de c =
     (if mismatched p de then processResponseVarBinds env (fst c) (Some BadResponse) None (snd c)
      else sbind (response_PDU p de) (\<lambda>PDU.
        if p_requestID PDU \<noteq> p_requestID (gp_PDU p)
        then processResponseVarBinds env (fst c) (Some BadResponse) None (snd c)
        else processResponseVarBinds env (fst c) None (Some PDU) (snd c)))"

text \<open>The dispatcher gives either a response or the status it failed with.\<close>

definition take_command :: "nat \<Rightarrow> (('d, 'addr, 'w) cg_state, 'addr pending_command) sm" where
  "take_command sendPduHandle = on_gen (\<lambda>g.
     case cg_pendingReqs g sendPduHandle of
       None \<Rightarrow> (Inl PySnmpError, g)
     | Some p \<Rightarrow> (Inr p, g\<lparr>cg_pendingReqs := (cg_pendingReqs g)(sendPduHandle := None)\<rparr>))"

definition processResponsePdu :: "('k, 'addr, 'd, 'w) cg_env \<Rightarrow> 'k gen_call \<Rightarrow> data_elements option \<Rightarrow>
    status_info option \<Rightarrow> nat \<Rightarrow> (('d, 'addr, 'w) cg_state, unit) sm" where
  "processResponsePdu env c response statusInformation sendPduHandle =
     sbind (take_command sendPduHandle) (\<lambda>p.
     sbind jobFinished (\<lambda>_.
     case (statusInformation, response) of
       (Some st, _) \<Rightarrow> request_failed env p st c
     | (None, Some de) \<Rightarrow> response_arrived env p de c
     | (None, None) \<Rightarrow> no_PDU))"

section \<open>Failed requests\<close>

lemma on_gen_simps [simp]:
  "gen_modify f (d, g, w) = (Inr (), d, f g, w)"
  "on_gen m (d, g, w) = (fst (m g), d, snd (m g), w)"
  by (simp_all add: gen_modify_def on_gen_def on_fst_def on_snd_def smodify_def split: prod.splits)

lemma jobs_simps [simp]:
  "jobStarted (d, g, w) = (Inr (), d, g\<lparr>cg_jobs := cg_jobs g + 1\<rparr>, w)"
  "cg_jobs g \<noteq> 0 \<Longrightarrow> jobFinished (d, g, w) = (Inr (), d, g\<lparr>cg_jobs := cg_jobs g - 1\<rparr>, w)"
  "remember h p (d, g, w) = (Inr (), d, g\<lparr>cg_pendingReqs := (cg_pendingReqs g)(h \<mapsto> p)\<rparr>, w)"
  "cg_pendingReqs g h = Some p \<Longrightarrow>
     take_command h (d, g, w) = (Inr p, d, g\<lparr>cg_pendingReqs := (cg_pendingReqs g)(h := None)\<rparr>, w)"
  by (simp_all add: jobStarted_def jobFinished_def remember_def take_command_def)

lemma dispatched_spend [simp]: "dispatched (spend_retry e p) r c = dispatched p r c"
  by (simp add: dispatched_def spend_retry_def)

lemma spend_retry_PDU [simp]: "gp_PDU (spend_retry e p) = gp_PDU p"
  "gp_messageProcessingModel (spend_retry e p) = gp_messageProcessingModel p"
  "gp_retryCount (spend_retry e p) = gp_retryCount p"
  by (simp_all add: spend_retry_def)

text \<open>
  Failures delivered one after the other, each under the handle \<open>current\<close> that the dispatcher
  gave last; and how many more a request survives of its kind.
\<close>

fun failures :: "('k, 'addr, 'd, 'w) cg_env \<Rightarrow> 'k gen_call \<Rightarrow> ('d \<Rightarrow> nat) \<Rightarrow> status_info list \<Rightarrow>
    (('d, 'addr, 'w) cg_state, unit) sm" where
  "failures env c current [] = sret ()"
| "failures env c current (st # sts) =
     sbind (sget (\<lambda>s. current (fst s))) (\<lambda>h.
     sbind (processResponsePdu env c None (Some st) h) (\<lambda>_. failures env c current sts))"

definition retries_left :: "('k, 'addr, 'd, 'w) cg_env \<Rightarrow> bool \<Rightarrow> 'addr pending_command \<Rightarrow> nat" where
  "retries_left env discovery p =
     (if discovery then nat (ge_discoveryRetries env - gp_discoveryRetries p) else nat (gp_retryCount p - gp_retries p))"

definition fails_with :: "(errind \<Rightarrow> bool) \<Rightarrow> status_info \<Rightarrow> bool" where
  "fails_with P st \<longleftrightarrow> (\<exists>e. si_errorIndication st = Some e \<and> P e)"

text \<open>A dispatcher that takes every request and touches nothing but its own state.\<close>

definition sends_all :: "('k, 'addr, 'd, 'w) cg_env \<Rightarrow> (('k gen_call, 'addr) send_request \<Rightarrow> 'd \<Rightarrow> 'd) \<Rightarrow> ('d \<Rightarrow> nat) \<Rightarrow> bool" where
  "sends_all env snt current \<longleftrightarrow>
     (\<forall>rq d g w. ge_sendPdu env rq (d, g, w) = (Inr (current (snt rq d)), snt rq d, g, w))"

lemma failure_resent:
  assumes "sends_all env snt current" and "versioned_PDU (gp_messageProcessingModel p) (gp_PDU p) = Inr reqPDU"
    and "cg_pendingReqs g (current d) = Some p" and "cg_jobs g \<noteq> 0"
    and "si_errorIndication st = Some e" and "\<not> out_of_retries env (spend_retry e p)"
  shows "processResponsePdu env c None (Some st) (current d) (d, g, w) =
    (Inr (), snt (dispatched p reqPDU c) d,
     g\<lparr>cg_pendingReqs := (cg_pendingReqs g)(current d := None,
         current (snt (dispatched p reqPDU c) d) \<mapsto> spend_retry e p)\<rparr>, w)"
  using assms
  by (simp add: processResponsePdu_def request_failed_def sbind_def sres_def scatch_def dispatch_command_def sends_all_def)

lemma failure_reported:
  assumes "cg_pendingReqs g (current d) = Some p" and "cg_jobs g \<noteq> 0"
    and "si_errorIndication st = Some e" and "out_of_retries env (spend_retry e p)"
  shows "processResponsePdu env c None (Some st) (current d) (d, g, w) =
    processResponseVarBinds env (fst c) (Some (Indication e)) None (snd c)
      (d, g\<lparr>cg_pendingReqs := (cg_pendingReqs g)(current d := None), cg_jobs := cg_jobs g - 1\<rparr>, w)"
  using assms by (simp add: processResponsePdu_def request_failed_def sbind_def)

lemma retries_left_spend:
  assumes "0 \<le> gp_retryCount p" and "0 \<le> ge_discoveryRetries env"
  shows "out_of_retries env (spend_retry e p) \<longleftrightarrow> retries_left env (is_discovery e) p = 0"
    and "retries_left env (is_discovery e) (spend_retry e p) = retries_left env (is_discovery e) p - 1"
  using assms by (auto simp: out_of_retries_def spend_retry_def retries_left_def)

lemma failures_run:
  assumes env: "sends_all env snt current" and "0 \<le> ge_discoveryRetries env"
    and "\<forall>st \<in> set sts. fails_with (\<lambda>e. is_discovery e = b) st"
    and "versioned_PDU (gp_messageProcessingModel p) (gp_PDU p) = Inr reqPDU" and "0 \<le> gp_retryCount p"
    and "cg_pendingReqs g (current d) = Some p" and "cg_jobs g \<noteq> 0"
    and "length sts \<le> retries_left env b p"
  shows "\<exists>g' p'. failures env c current sts (d, g, w) =
      (Inr (), (snt (dispatched p reqPDU c) ^^ length sts) d, g', w) \<and>
    cg_pendingReqs g' (current ((snt (dispatched p reqPDU c) ^^ length sts) d)) = Some p' \<and>
    (\<forall>h. h \<noteq> current ((snt (dispatched p reqPDU c) ^^ length sts) d) \<longrightarrow>
       cg_pendingReqs g' h \<in> {None, if h = current d then None else cg_pendingReqs g h}) \<and>
    cg_jobs g' = cg_jobs g \<and> retries_left env b p' = retries_left env b p - length sts \<and> gp_retryCount p' = gp_retryCount p"
  using assms(3-)
proof (induction sts arbitrary: d g p)
  case Nil
  then show ?case by (auto simp: sret_def)
next
  case (Cons st sts)
  obtain e where e: "si_errorIndication st = Some e" "is_discovery e = b"
    using Cons.prems(1) by (auto simp: fails_with_def)
  have more: "\<not> out_of_retries env (spend_retry e p)"
    using retries_left_spend(1) [of p env e] Cons.prems(3,6) assms(2) e(2) by simp
  have left: "retries_left env b (spend_retry e p) = retries_left env b p - 1"
    using retries_left_spend(2) [of p env e] Cons.prems(3) assms(2) e(2) by simp
  note step = failure_resent [OF env Cons.prems(2,4,5) e(1) more, of c w]
  let ?rq = "dispatched p reqPDU c"
  let ?g = "g\<lparr>cg_pendingReqs := (cg_pendingReqs g)(current d := None, current (snt ?rq d) \<mapsto> spend_retry e p)\<rparr>"
  have *: "failures env c current (st # sts) (d, g, w) = failures env c current sts (snt ?rq d, ?g, w)"
    by (simp add: sbind_def sget_def step)
  have swap: "(snt ?rq ^^ length sts) (snt ?rq d) = (snt ?rq ^^ length (st # sts)) d" by (simp add: funpow_swap1)
  let ?D = "(snt ?rq ^^ length (st # sts)) d"
  have "\<exists>g' p'. failures env c current sts (snt ?rq d, ?g, w) = (Inr (), ?D, g', w) \<and>
    cg_pendingReqs g' (current ?D) = Some p' \<and>
    (\<forall>h. h \<noteq> current ?D \<longrightarrow>
       cg_pendingReqs g' h \<in> {None, if h = current (snt ?rq d) then None else cg_pendingReqs ?g h}) \<and>
    cg_jobs g' = cg_jobs ?g \<and> retries_left env b p' = retries_left env b (spend_retry e p) - length sts \<and>
    gp_retryCount p' = gp_retryCount (spend_retry e p)"
    by (rule Cons.IH [of "spend_retry e p" ?g "snt ?rq d", unfolded dispatched_spend swap])
      (use Cons.prems left in simp_all)
  then obtain g' p' where g': "failures env c current sts (snt ?rq d, ?g, w) = (Inr (), ?D, g', w)"
    "cg_pendingReqs g' (current ?D) = Some p'"
    "\<And>h. h \<noteq> current ?D \<Longrightarrow> cg_pendingReqs g' h \<in> {None, if h = current (snt ?rq d) then None else cg_pendingReqs ?g h}"
    "cg_jobs g' = cg_jobs ?g" "retries_left env b p' = retries_left env b (spend_retry e p) - length sts"
    "gp_retryCount p' = gp_retryCount (spend_retry e p)"
    by (elim exE conjE) (rule that, assumption, assumption, erule (1) allE [THEN mp], assumption+)
  have "\<forall>h. h \<noteq> current ?D \<longrightarrow> cg_pendingReqs g' h \<in> {None, if h = current d then None else cg_pendingReqs g h}"
    (is "\<forall>h. ?P h")
  proof
    fix h
    show "?P h" using g'(3) [of h] by (auto split: if_splits)
  qed
  then show ?case unfolding * using g'(1,2,4-6) left
    by (intro exI [of _ g'] exI [of _ p'] conjI) (simp_all del: funpow.simps)
qed

text \<open>
  (C26) A request nobody answers is sent again as often as it is configured and then reported, once.
  Let every failure of a request be of one kind, an ordinary one or one of discovery, and let
  the dispatcher take what it is given. After as many failures as the request has retries of
  that kind left, the same request has been sent that many times more, the application has been
  told nothing and the request is still pending; the next failure makes the one call of its
  callback, with the indication of that failure, and nothing is left pending.
\<close>

theorem unanswered_request_reported:
  assumes "sends_all env snt current" and "0 \<le> ge_discoveryRetries env" and "0 \<le> gp_retryCount p"
    and "\<forall>st \<in> set sts. fails_with (\<lambda>e. is_discovery e = b) st" and "si_errorIndication st = Some e" and "is_discovery e = b"
    and "versioned_PDU (gp_messageProcessingModel p) (gp_PDU p) = Inr reqPDU"
    and "cg_pendingReqs g (current d) = Some p" and "cg_jobs g \<noteq> 0" and "length sts = retries_left env b p"
  shows "\<exists>g' g''. failures env c current sts (d, g, w) = (Inr (), (snt (dispatched p reqPDU c) ^^ length sts) d, g', w) \<and>
    failures env c current (sts @ [st]) (d, g, w) =
      processResponseVarBinds env (fst c) (Some (Indication e)) None (snd c)
        ((snt (dispatched p reqPDU c) ^^ length sts) d, g'', w) \<and>
    dom (cg_pendingReqs g'') \<subseteq> dom (cg_pendingReqs g) - {current d} \<and> cg_jobs g'' + 1 = cg_jobs g"
proof -
  let ?d = "(snt (dispatched p reqPDU c) ^^ length sts) d"
  obtain g' p' where g': "failures env c current sts (d, g, w) = (Inr (), ?d, g', w)"
    "cg_pendingReqs g' (current ?d) = Some p'"
    "\<And>h. h \<noteq> current ?d \<Longrightarrow> cg_pendingReqs g' h \<in> {None, if h = current d then None else cg_pendingReqs g h}"
    "cg_jobs g' = cg_jobs g" "retries_left env b p' = 0" "gp_retryCount p' = gp_retryCount p"
    using failures_run [OF assms(1,2,4,7,3,8,9), of c w] assms(10) by auto
  have app: "failures env c current (xs @ ys) s = sbind (failures env c current xs) (\<lambda>_. failures env c current ys) s" for xs ys s
    by (induction xs arbitrary: s) (auto simp: sbind_def sret_def sget_def split: prod.splits sum.splits)
  let ?g = "g'\<lparr>cg_pendingReqs := (cg_pendingReqs g')(current ?d := None), cg_jobs := cg_jobs g' - 1\<rparr>"
  have "out_of_retries env (spend_retry e p')"
    using retries_left_spend(1) [of p' env e] g'(5,6) assms(2,3,6) by simp
  then have "failures env c current (sts @ [st]) (d, g, w) =
      processResponseVarBinds env (fst c) (Some (Indication e)) None (snd c) (?d, ?g, w)"
    using g' assms(5,9) by (simp add: app sbind_def sget_def failure_reported sret_def split: prod.splits sum.splits)
  moreover have "dom (cg_pendingReqs ?g) \<subseteq> dom (cg_pendingReqs g) - {current d}"
    using g'(3) by (fastforce split: if_splits)
  moreover have "cg_jobs ?g + 1 = cg_jobs g" using g'(4) assms(9) by simp
  ultimately show ?thesis using g'(1) by blast
qed

text \<open>A wire that keeps the last request, an application that logs what it is told, and a fixed target.\<close>

type_synonym 'addr wire = "nat \<times> (unit gen_call, 'addr) send_request option"

definition wire_put :: "(unit gen_call, 'addr) send_request \<Rightarrow> 'addr wire \<Rightarrow> 'addr wire" where
  "wire_put rq d = (Suc (fst d), Some rq)"

definition wire_env :: "'addr target_info \<Rightarrow> (unit, 'addr, 'addr wire, answer list) cg_env" where
  "wire_env ti = \<lparr>ge_getTargetInfo = (\<lambda>_. sret ti),
     ge_sendPdu = (\<lambda>rq (d, g, w). (Inr (fst (wire_put rq d)), wire_put rq d, g, w)),
     ge_app = (\<lambda>k a (d, g, w). (Inr True, d, g, w @ [a])), ge_discoveryRetries = 4, ge_ticks = id\<rparr>"

definition sample_target :: "nat target_info" where
  "sample_target = \<lparr>ti_transportDomain = [1], ti_transportAddress = 9, ti_timeout = 100, ti_retryCount = 2,
     ti_messageProcessingModel = 1, ti_securityModel = 2, ti_securityName = [112], ti_securityLevel = 1\<rparr>"

definition sample_cmdgen :: "nat cmdgen" where
  "sample_cmdgen = \<lparr>cg_pendingReqs = Map.empty, cg_jobs = 0,
     cg_handles = \<lparr>ni_maximum = 100, ni_increment = 10, ni_threshold = 5, ni_bank = [10..<20]\<rparr>,
     cg_requestIDs = \<lparr>ni_maximum = 100, ni_increment = 10, ni_threshold = 5, ni_bank = [10..<20]\<rparr>\<rparr>"

lemma wire_sends_all: "sends_all (wire_env ti) wire_put fst"
  by (simp add: sends_all_def wire_env_def)

definition sample_command :: "nat pending_command" where
  "sample_command = \<lparr>gp_transportDomain = [1], gp_transportAddress = 9, gp_messageProcessingModel = 1,
     gp_securityModel = 2, gp_securityName = [112], gp_securityLevel = 1, gp_contextEngineId = None,
     gp_contextName = [], gp_pduVersion = 1, gp_PDU = pdu_clone GetRequest, gp_timeout = 100, gp_retryCount = 1,
     gp_retries = 0, gp_discoveryRetries = 0\<rparr>"

theorem unanswered_request_reported_witness:
  "\<exists>g''. failures (wire_env sample_target) (7, GetSet ()) fst [timed_out, timed_out]
      ((3, None), sample_cmdgen\<lparr>cg_pendingReqs := [3 \<mapsto> sample_command], cg_jobs := 1\<rparr>, []) =
    (Inr (), (4, Some (dispatched sample_command (V1Pdu (pdu_clone GetRequest)) (7, GetSet ()))), g'',
     [\<lparr>an_sendRequestHandle = 7, an_errorIndication = Some (Indication requestTimedOut), an_errorStatus = 0,
       an_errorIndex = 0, an_varBinds = Flat []\<rparr>]) \<and> cg_pendingReqs g'' = Map.empty"
proof -
  let ?g = "sample_cmdgen\<lparr>cg_pendingReqs := [3 \<mapsto> sample_command], cg_jobs := 1\<rparr>"
  define c :: "unit gen_call" where "c = (7, GetSet ())"
  let ?rq = "dispatched sample_command (V1Pdu (pdu_clone GetRequest)) c"
  have "\<exists>g' g''. failures (wire_env sample_target) c fst [timed_out] ((3, None), ?g, []) =
      (Inr (), (wire_put ?rq ^^ length [timed_out]) (3, None), g', []) \<and>
    failures (wire_env sample_target) c fst ([timed_out] @ [timed_out]) ((3, None), ?g, []) =
      processResponseVarBinds (wire_env sample_target) (fst c) (Some (Indication requestTimedOut)) None (snd c)
        ((wire_put ?rq ^^ length [timed_out]) (3, None), g'', []) \<and>
    dom (cg_pendingReqs g'') \<subseteq> dom (cg_pendingReqs ?g) - {fst (3 :: nat, None :: (unit gen_call, nat) send_request option)} \<and>
    cg_jobs g'' + 1 = cg_jobs ?g"
    by (rule unanswered_request_reported [OF wire_sends_all, where b = False and p = sample_command])
      (simp_all add: wire_env_def sample_command_def fails_with_def timed_out_def is_discovery_def versioned_PDU_def
        retries_left_def no_details_def)
  then show ?thesis
    by (auto simp: c_def processResponseVarBinds_def hand_over_def sbind_def sres_def wire_env_def sret_def wire_put_def)
qed

text \<open>
  When failures of the two kinds alternate, each resets the count of the other, and the request is
  sent again without end.
\<close>

lemma alternating_failures_unbounded:
  assumes "sends_all env snt current" and "1 \<le> gp_retryCount p" and "1 \<le> ge_discoveryRetries env"
    and "versioned_PDU (gp_messageProcessingModel p) (gp_PDU p) = Inr reqPDU"
    and "si_errorIndication so = Some e" "\<not> is_discovery e" "si_errorIndication st = Some e'" "is_discovery e'"
    and "cg_pendingReqs g (current d) = Some p" and "cg_jobs g \<noteq> 0" and "gp_retries p = 0"
  shows "\<exists>g'. failures env c current (concat (replicate n [so, st])) (d, g, w) =
    (Inr (), (snt (dispatched p reqPDU c) ^^ (2 * n)) d, g', w)"
  using assms(2-)
proof (induction n arbitrary: d g p)
  case 0
  then show ?case by (simp add: sret_def)
next
  case (Suc n)
  let ?rq = "dispatched p reqPDU c" and ?p1 = "spend_retry e p"
  have 1: "\<not> out_of_retries env ?p1" "\<not> out_of_retries env (spend_retry e' ?p1)"
    using Suc.prems by (simp_all add: out_of_retries_def spend_retry_def)
  let ?g1 = "g\<lparr>cg_pendingReqs := (cg_pendingReqs g)(current d := None, current (snt ?rq d) \<mapsto> ?p1)\<rparr>"
  note s1 = failure_resent [OF assms(1) Suc.prems(3,8,9,4) 1(1), of c w]
  have v: "versioned_PDU (gp_messageProcessingModel ?p1) (gp_PDU ?p1) = Inr reqPDU" using Suc.prems(3) by simp
  note s2 = failure_resent [OF assms(1) v _ _ Suc.prems(6) 1(2), of ?g1 "snt ?rq d" c w, unfolded dispatched_spend]
  let ?d2 = "snt ?rq (snt ?rq d)" and ?p2 = "spend_retry e' ?p1"
  obtain g2 where g2: "failures env c current (concat (replicate (Suc n) [so, st])) (d, g, w) =
      failures env c current (concat (replicate n [so, st])) (?d2, g2, w)"
    "cg_pendingReqs g2 (current ?d2) = Some ?p2" "cg_jobs g2 \<noteq> 0"
    using s1 s2 Suc.prems(9) by (simp add: sbind_def sget_def)
  have "gp_retries ?p2 = 0" using Suc.prems(7) by (simp add: spend_retry_def)
  then obtain g' where "failures env c current (concat (replicate n [so, st])) (?d2, g2, w) =
      (Inr (), (snt ?rq ^^ (2 * n)) ?d2, g', w)"
    using Suc.IH [of ?p2 g2 ?d2] g2(2,3) Suc.prems v by auto
  moreover have "(snt ?rq ^^ (2 * n)) ?d2 = (snt ?rq ^^ (2 * Suc n)) d" by (simp add: funpow_swap1)
  ultimately show ?case using g2(1) by simp
qed

section \<open>Walks\<close>

lemma scan_next_spec:
  assumes "n \<le> length vbs"
  shows "scan_next vbs (Some orig) n err k rsp =
    (if \<exists>i<n. \<not> is_finished (snd (vbs ! i)) \<and> length orig \<le> i then Inl IndexError
     else Inr (if \<exists>i<n. \<not> is_finished (snd (vbs ! i)) \<and> fst (vbs ! i) \<le> fst (orig ! i) then Some oidNotIncreasing else err,
       k - length (filter (\<lambda>vb. is_finished (snd vb)) (take n vbs)), map (\<lambda>vb. (fst vb, None)) (take n vbs) @ rsp))"
  using assms
proof (induction n arbitrary: err k rsp)
  case (Suc n)
  then have t: "take (Suc n) vbs = take n vbs @ [vbs ! n]" by (simp add: take_Suc_conv_app_nth)
  obtain name val where nv: "vbs ! n = (name, val)" by fastforce
  have ex: "(\<exists>i < Suc n. P i) \<longleftrightarrow> P n \<or> (\<exists>i < n. P i)" for P by (auto simp: less_Suc_eq)
  have n: "n \<le> length vbs" using Suc.prems by simp
  show ?case
  proof (cases "is_finished val")
    case True
    then show ?thesis by (simp add: nv ex t Suc.IH [OF n])
  next
    case False
    then show ?thesis by (simp add: nv ex t Suc.IH [OF n]) blast
  qed
qed simp

lemma getNextVarBinds_spec:
  "getNextVarBinds vbs (Some orig) =
    (if \<exists>i < length vbs. \<not> is_finished (snd (vbs ! i)) \<and> length orig \<le> i then Inl IndexError
     else Inr (if \<exists>i < length vbs. \<not> is_finished (snd (vbs ! i)) \<and> fst (vbs ! i) \<le> fst (orig ! i)
                 then Some oidNotIncreasing else None,
               if \<forall>vb \<in> set vbs. is_finished (snd vb) then [] else map (\<lambda>vb. (fst vb, None)) vbs))"
proof -
  have "length vbs - length (filter (\<lambda>vb. is_finished (snd vb)) vbs) = 0 \<longleftrightarrow> (\<forall>vb \<in> set vbs. is_finished (snd vb))"
    by (metis (mono_tags, lifting) diff_is_0_eq filter_True length_filter_less not_less order_refl)
  then show ?thesis by (simp add: getNextVarBinds_def scan_next_spec)
qed

text \<open>
  (C27) A response with more bindings than were asked for ends a walk without a word. If such a
  response to a GETNEXT of a walk is otherwise in order, and its last binding is no exception
  value, comparing it with the request raises \<open>IndexError\<close>, which leaves the generator: the
  request is forgotten, and the application is told nothing and not called again.
\<close>

theorem long_response_ends_walk:
  assumes "cg_pendingReqs g h = Some p" and "cg_jobs g \<noteq> 0" and "\<not> mismatched p de"
    and "de_messageProcessingModel de \<noteq> 0" and "de_PDU de = V1Pdu rsp" and "p_requestID rsp = p_requestID (gp_PDU p)"
    and "p_errorStatus rsp = 0" and "length (p_varBinds (wc_reqPDU ctx)) < length (p_varBinds rsp)"
    and "\<not> is_finished (snd (last (p_varBinds rsp)))"
  shows "processResponsePdu env (sh, NextWalk ctx k) (Some de) None h (d, g, w) =
    (Inl IndexError, d, g\<lparr>cg_pendingReqs := (cg_pendingReqs g)(h := None), cg_jobs := cg_jobs g - 1\<rparr>, w)"
proof -
  let ?n = "length (p_varBinds rsp) - 1"
  have ne: "p_varBinds rsp \<noteq> []" using assms(8) by auto
  have "\<exists>i < length (p_varBinds rsp). \<not> is_finished (snd (p_varBinds rsp ! i)) \<and> length (p_varBinds (wc_reqPDU ctx)) \<le> i"
    using assms(8,9) last_conv_nth [OF ne] by (intro exI [of _ ?n]) auto
  then have "next_request (wc_reqPDU ctx) rsp (v2_getVarBindTable (wc_reqPDU ctx) rsp) = Inl IndexError"
    using assms(7) by (simp add: next_request_def v2_getVarBindTable_def getNextVarBinds_spec)
  then show ?thesis
    using assms by (simp add: processResponsePdu_def sbind_def response_arrived_def response_PDU_def sret_def
        processResponseVarBinds_def continue_walk_def Let_def sres_def)
qed

definition sample_walk :: "var_bind list \<Rightarrow> walk_ctx" where
  "sample_walk vbs = \<lparr>wc_targetName = [116], wc_contextEngineId = None, wc_contextName = [],
     wc_reqPDU = (pdu_clone GetNextRequest)\<lparr>p_varBinds := vbs\<rparr>\<rparr>"

definition sample_answer :: "var_bind list \<Rightarrow> data_elements" where
  "sample_answer vbs = \<lparr>de_messageProcessingModel = 1, de_securityModel = 2, de_securityName = [112],
     de_securityLevel = 1, de_contextEngineId = [], de_contextName = [], de_pduVersion = 1,
     de_PDU = V1Pdu ((pdu_clone Response)\<lparr>p_varBinds := vbs\<rparr>), de_pduType = Response, de_sendPduHandle = Some 3,
     de_maxSizeResponseScopedPDU = 0, de_statusInformation = None, de_stateReference = None\<rparr>"

theorem long_response_ends_walk_witness:
  "fst (processResponsePdu (wire_env sample_target) (7, NextWalk (sample_walk [([1, 3], VNull)]) ())
      (Some (sample_answer [([1, 3, 1], VInteger 1), ([1, 3, 2], VInteger 2)])) None 3
      ((3, None), sample_cmdgen\<lparr>cg_pendingReqs := [3 \<mapsto> sample_command], cg_jobs := 1\<rparr>, [])) = Inl IndexError"
  by (subst long_response_ends_walk [where p = sample_command and rsp = "(pdu_clone Response)\<lparr>p_varBinds :=
        [([1, 3, 1], VInteger 1), ([1, 3, 2], VInteger 2)]\<rparr>"])
    (simp_all add: pdu_clone_def sample_cmdgen_def mismatched_def sample_command_def sample_answer_def sample_walk_def is_finished_def)

text \<open>Numbers drawn for requests that fit the type of a request ID.\<close>

definition ids_ok :: "nextid \<Rightarrow> bool" where
  "ids_ok g \<longleftrightarrow> nextid_inv g \<and> ni_maximum g + ni_threshold g \<le> 2147483648"

lemma ids_ok_call:
  assumes "ids_ok g"
  obtains v g' where "nextid_call g = (Inr v, g')" "ids_ok g'" "v \<le> 2147483647"
proof -
  from assms have "nextid_inv g" and b: "ni_maximum g + ni_threshold g \<le> 2147483648" by (auto simp: ids_ok_def)
  then obtain v bank ys where *: "nextid_call g = (Inr v, g\<lparr>ni_bank := bank @ ys\<rparr>)"
    "\<forall>y \<in> set (v # bank @ ys). y < ni_maximum g + ni_threshold g" "nextid_inv (g\<lparr>ni_bank := bank @ ys\<rparr>)"
    using nextid_call_cases [OF \<open>nextid_inv g\<close>] by metis
  then show ?thesis using that b by (simp add: ids_ok_def)
qed

text \<open>A target that is configured, and what sending to it does.\<close>

definition configured :: "('k, 'addr, 'd, 'w) cg_env \<Rightarrow> octets \<Rightarrow> octets option \<Rightarrow> octets \<Rightarrow> 'addr target_info \<Rightarrow> bool" where
  "configured env targetName contextEngineId contextName ti \<longleftrightarrow>
     (\<forall>s. ge_getTargetInfo env targetName s = (Inr ti, s)) \<and> ti_messageProcessingModel ti \<noteq> 0 \<and>
     SnmpEngineID contextEngineId = Inr contextEngineId \<and> length contextName \<le> 255"

definition request_of :: "('k, 'addr, 'd, 'w) cg_env \<Rightarrow> 'addr target_info \<Rightarrow> octets option \<Rightarrow> octets \<Rightarrow> pdu \<Rightarrow>
    'k gen_call \<Rightarrow> ('k gen_call, 'addr) send_request" where
  "request_of env ti contextEngineId contextName PDU c =
     dispatched (new_command env ti contextEngineId contextName PDU) (V1Pdu PDU) c"

lemma sendCommand_sent:
  assumes "sends_all env snt current" and "configured env targetName contextEngineId contextName ti"
    and "nextid_inv (cg_handles g)"
  obtains sh n where "nextid_inv n"
    "\<And>PDU cb. sendCommand env targetName contextEngineId contextName PDU cb (d, g, w) =
      (let rq = request_of env ti contextEngineId contextName PDU (sh, cb) in
       (Inr sh, snt rq d, g\<lparr>cg_handles := n, cg_jobs := cg_jobs g + 1,
          cg_pendingReqs := (cg_pendingReqs g)(current (snt rq d) \<mapsto> new_command env ti contextEngineId contextName PDU)\<rparr>, w))"
proof -
  obtain sh n where n: "nextid_call (cg_handles g) = (Inr sh, n)" "nextid_inv n"
    using nextid_call_ok [OF assms(3)] by blast
  have "sendCommand env targetName contextEngineId contextName PDU cb (d, g, w) =
      (let rq = request_of env ti contextEngineId contextName PDU (sh, cb) in
       (Inr sh, snt rq d, g\<lparr>cg_handles := n, cg_jobs := cg_jobs g + 1,
          cg_pendingReqs := (cg_pendingReqs g)(current (snt rq d) \<mapsto> new_command env ti contextEngineId contextName PDU)\<rparr>, w))"
    for PDU cb
    using assms(1,2) n(1)
    by (simp add: sendCommand_def configured_def sbind_def sres_def SnmpAdminString_def versioned_PDU_def getNextHandle_def
        draw_def dispatch_command_def sends_all_def sret_def request_of_def Let_def)
  with n(2) show ?thesis using that by blast
qed

text \<open>An application that always asks for more.\<close>

definition insatiable :: "('k, 'addr, 'd, 'w) cg_env \<Rightarrow> 'k \<Rightarrow> (answer \<Rightarrow> 'w \<Rightarrow> 'w) \<Rightarrow> bool" where
  "insatiable env k log \<longleftrightarrow> (\<forall>a d g w. ge_app env k a (d, g, w) = (Inr True, d, g, log a w))"

lemma continue_walk_sends:
  assumes "sends_all env snt current" and "configured env (wc_targetName ctx) (wc_contextEngineId ctx) (wc_contextName ctx) ti"
    and "insatiable env k log" and "nextid_inv (cg_handles g)" and "ids_ok (cg_requestIDs g)"
    and "nxt = Inr (e, varBinds)" and "varBinds \<noteq> []"
  obtains sh n i m PDU' rq where "nextid_inv n" "ids_ok m" "PDU' = setVarBinds varBinds ((wc_reqPDU ctx)\<lparr>p_requestID := i\<rparr>)"
    "rq = request_of env ti (wc_contextEngineId ctx) (wc_contextName ctx) PDU' (sh, cb (ctx\<lparr>wc_reqPDU := PDU'\<rparr>))"
    "continue_walk env ctx cb k sendRequestHandle PDU table nxt (d, g, w) =
       (Inr (), snt rq d, g\<lparr>cg_handles := n, cg_requestIDs := m, cg_jobs := cg_jobs g + 1,
          cg_pendingReqs := (cg_pendingReqs g)(current (snt rq d) \<mapsto>
            new_command env ti (wc_contextEngineId ctx) (wc_contextName ctx) PDU')\<rparr>,
        log \<lparr>an_sendRequestHandle = sendRequestHandle, an_errorIndication = map_option Indication e,
          an_errorStatus = p_errorStatus PDU,
          an_errorIndex = (if p_errorIndex PDU > int (length (p_varBinds PDU)) then int (length (p_varBinds PDU))
                           else p_errorIndex PDU), an_varBinds = Rows table\<rparr> w)"
proof -
  obtain i m where i: "nextid_call (cg_requestIDs g) = (Inr i, m)" "ids_ok m" "i \<le> 2147483647"
    using ids_ok_call [OF assms(5)] by blast
  let ?g = "g\<lparr>cg_requestIDs := m\<rparr>"
  define ei where "ei = (if p_errorIndex PDU > int (length (p_varBinds PDU)) then int (length (p_varBinds PDU))
    else p_errorIndex PDU)"
  let ?w = "log \<lparr>an_sendRequestHandle = sendRequestHandle, an_errorIndication = map_option Indication e,
          an_errorStatus = p_errorStatus PDU, an_errorIndex = ei, an_varBinds = Rows table\<rparr> w"
  have "nextid_inv (cg_handles ?g)" using assms(4) by simp
  obtain sh n where n: "nextid_inv n"
    "\<And>PDU cb. sendCommand env (wc_targetName ctx) (wc_contextEngineId ctx) (wc_contextName ctx) PDU cb (d, ?g, ?w) =
      (let rq = request_of env ti (wc_contextEngineId ctx) (wc_contextName ctx) PDU (sh, cb) in
       (Inr sh, snt rq d, ?g\<lparr>cg_handles := n, cg_jobs := cg_jobs ?g + 1,
          cg_pendingReqs := (cg_pendingReqs ?g)(current (snt rq d) \<mapsto>
            new_command env ti (wc_contextEngineId ctx) (wc_contextName ctx) PDU)\<rparr>, ?w))"
    by (rule sendCommand_sent [OF assms(1,2) \<open>nextid_inv (cg_handles ?g)\<close>, of d ?w]) (rule that)
  define PDU' where "PDU' = setVarBinds varBinds ((wc_reqPDU ctx)\<lparr>p_requestID := int i\<rparr>)"
  let ?rq = "request_of env ti (wc_contextEngineId ctx) (wc_contextName ctx) PDU' (sh, cb (ctx\<lparr>wc_reqPDU := PDU'\<rparr>))"
  have id: "v2_setRequestID (int i) (wc_reqPDU ctx) = Inr ((wc_reqPDU ctx)\<lparr>p_requestID := int i\<rparr>)"
    using i(3) by (simp add: v2_setRequestID_def in_range_def)
  have app: "ge_app env k a (d, g, w) = (Inr True, d, g, log a w)" for a using assms(3) by (simp add: insatiable_def)
  have draw: "on_requestIDs nextid_call (d, g, w) = (Inr i, d, ?g, w)" for w
    using i(1) by (simp add: on_requestIDs_def)
  have err: "getErrorIndex True PDU = Inr ei" by (simp add: getErrorIndex_def ei_def)
  note sent = n(2) [of PDU' "cb (ctx\<lparr>wc_reqPDU := PDU'\<rparr>)", unfolded Let_def]
  have "continue_walk env ctx cb k sendRequestHandle PDU table nxt (d, g, w) =
      (Inr (), snt ?rq d, g\<lparr>cg_handles := n, cg_requestIDs := m, cg_jobs := cg_jobs g + 1,
          cg_pendingReqs := (cg_pendingReqs g)(current (snt ?rq d) \<mapsto>
            new_command env ti (wc_contextEngineId ctx) (wc_contextName ctx) PDU')\<rparr>, ?w)"
    using assms(7)
    unfolding continue_walk_def assms(6) sbind_def sres_def err sum.case prod.case app draw id Let_def
    by (simp add: draw id sent [unfolded PDU'_def] scatch_def sret_def PDU'_def)
  then show ?thesis unfolding ei_def by (rule that [OF n(1) i(2) PDU'_def refl])
qed

lemma bulk_rows_complete:
  "row \<in> set (bulk_getVarBindTable reqPDU rspPDU) \<Longrightarrow> length row \<le> length (p_varBinds reqPDU)"
  by (auto simp: bulk_getVarBindTable_def Let_def split: if_splits)


definition sample_bulk :: walk_ctx where
  "sample_bulk = \<lparr>wc_targetName = [116], wc_contextEngineId = None, wc_contextName = [],
     wc_reqPDU = (pdu_clone GetBulkRequest)\<lparr>p_errorStatus := 1, p_errorIndex := 5,
       p_varBinds := [([1, 3, 1], VNull), ([1, 3, 7], VNull)]\<rparr>\<rparr>"

lemma sample_ids: "nextid_inv (cg_handles sample_cmdgen)" "ids_ok (cg_requestIDs sample_cmdgen)"
  by (auto simp: sample_cmdgen_def ids_ok_def nextid_inv_def next_after_def intro!: exI [of _ 0])

lemma sample_configured: "ti_messageProcessingModel ti \<noteq> 0 \<Longrightarrow> configured (wire_env ti) t None [] ti"
  by (simp add: configured_def wire_env_def sret_def SnmpEngineID_def)

lemma wire_insatiable: "insatiable (wire_env ti) () (\<lambda>a w. w @ [a])"
  by (simp add: insatiable_def wire_env_def)


end
