(* ===== verification/Cmdgen_Walk.thy ===== *)
theory Cmdgen_Walk
  imports Cmdgen Mib_Walk
begin

text \<open>
  A walk with GETNEXT from end to end: the generator of \<open>Cmdgen\<close>, which turns every response
  into the next request, against an agent that answers each name with the next one it serves.
  The locale \<open>getnext_agent\<close> says what is asked of the agent; it is interpreted on the tree of
  managed objects of \<open>Mib_Tree\<close>. The wire between the two holds one request and loses nothing.
\<close>

section \<open>Exchanges\<close>

text \<open>An agent answers binding by binding, in a response with the parameters of the request.\<close>

definition reply :: "(oid \<Rightarrow> var_bind) \<Rightarrow> (unit gen_call, 'addr) send_request \<Rightarrow> nat \<Rightarrow> data_elements" where
  "reply answer rq h = \<lparr>de_messageProcessingModel = sq_messageProcessingModel rq, de_securityModel = sq_securityModel rq,
     de_securityName = sq_securityName rq, de_securityLevel = sq_securityLevel rq,
     de_contextEngineId = (case sq_contextEngineId rq of None \<Rightarrow> [] | Some e \<Rightarrow> e),
     de_contextName = sq_contextName rq, de_pduVersion = sq_pduVersion rq,
     de_PDU = (case sq_PDU rq of
        V1Pdu p \<Rightarrow> V1Pdu \<lparr>p_type = Response, p_requestID = p_requestID p, p_errorStatus = 0, p_errorIndex = 0,
          p_varBinds = map (\<lambda>vb. answer (fst vb)) (p_varBinds p)\<rparr>
      | t \<Rightarrow> t),
     de_pduType = Response, de_sendPduHandle = Some h, de_maxSizeResponseScopedPDU = 65507,
     de_statusInformation = None, de_stateReference = None\<rparr>"

definition exchange :: "(oid \<Rightarrow> var_bind) \<Rightarrow> 'addr target_info \<Rightarrow> (('addr wire, 'addr, answer list) cg_state, unit) sm" where
  "exchange answer ti = (\<lambda>(d, g, w).
     case snd d of None \<Rightarrow> (Inr (), d, g, w)
     | Some rq \<Rightarrow> processResponsePdu (wire_env ti) (sq_cbFun rq) (Some (reply answer rq (fst d))) None (fst d)
         ((fst d, None), g, w))"

fun exchanges :: "(oid \<Rightarrow> var_bind) \<Rightarrow> 'addr target_info \<Rightarrow> nat \<Rightarrow> (('addr wire, 'addr, answer list) cg_state, unit) sm" where
  "exchanges answer ti 0 = sret ()"
| "exchanges answer ti (Suc n) = sbind (exchange answer ti) (\<lambda>_. exchanges answer ti n)"

text \<open>The answers of an agent from a name on, to the end.\<close>

fun follows :: "(oid \<Rightarrow> var_bind) \<Rightarrow> oid \<Rightarrow> var_bind list \<Rightarrow> bool" where
  "follows answer n [] \<longleftrightarrow> answer n = (n, VEndOfMibView)"
| "follows answer n (vb # vbs) \<longleftrightarrow> answer n = vb \<and> \<not> is_finished (snd vb) \<and> n < fst vb \<and> follows answer (fst vb) vbs"

definition summary :: "answer \<Rightarrow> gen_error option \<times> int \<times> rows" where
  "summary a = (an_errorIndication a, an_errorStatus a, an_varBinds a)"

text \<open>A walk that waits for the answer to one name.\<close>

definition walk_waits :: "'addr target_info \<Rightarrow> octets \<Rightarrow> octets option \<Rightarrow> octets \<Rightarrow> oid \<Rightarrow> 'addr wire \<Rightarrow> 'addr cmdgen \<Rightarrow> bool" where
  "walk_waits ti targetName contextEngineId contextName n d g \<longleftrightarrow>
     (\<exists>PDU sh v. p_varBinds PDU = [(n, v)] \<and>
        snd d = Some (request_of (wire_env ti) ti contextEngineId contextName PDU
          (sh, NextWalk \<lparr>wc_targetName = targetName, wc_contextEngineId = contextEngineId, wc_contextName = contextName,
             wc_reqPDU = PDU\<rparr> ())) \<and>
        cg_pendingReqs g (fst d) = Some (new_command (wire_env ti) ti contextEngineId contextName PDU) \<and>
        cg_jobs g \<noteq> 0 \<and> nextid_inv (cg_handles g) \<and> ids_ok (cg_requestIDs g))"

lemma reply_taken:
  assumes "ti_messageProcessingModel ti \<noteq> 0" and "snd d = Some (request_of (wire_env ti) ti ce cn PDU (sh, cb))"
    and "cg_pendingReqs g (fst d) = Some (new_command (wire_env ti) ti ce cn PDU)" and "cg_jobs g \<noteq> 0"
  shows "exchange answer ti (d, g, w) =
    processResponseVarBinds (wire_env ti) sh None (Some \<lparr>p_type = Response, p_requestID = p_requestID PDU, p_errorStatus = 0,
      p_errorIndex = 0, p_varBinds = map (\<lambda>vb. answer (fst vb)) (p_varBinds PDU)\<rparr>) cb
      ((fst d, None), g\<lparr>cg_pendingReqs := (cg_pendingReqs g)(fst d := None), cg_jobs := cg_jobs g - 1\<rparr>, w)"
  using assms
  by (simp add: exchange_def processResponsePdu_def sbind_def response_arrived_def mismatched_def reply_def
      request_of_def dispatched_def new_command_def response_PDU_def sret_def split: option.split)

lemma walk_next:
  assumes "configured (wire_env ti) targetName ce cn ti" and "walk_waits ti targetName ce cn n d g"
    and "answer n = (m, v)" and "\<not> is_finished v" and "n < m"
  obtains d' g' a where "exchange answer ti (d, g, w) = (Inr (), d', g', w @ [a])"
    "walk_waits ti targetName ce cn m d' g'" "summary a = (None, 0, Rows [[(m, v)]])"
proof -
  obtain PDU sh x where w: "p_varBinds PDU = [(n, x)]"
    "snd d = Some (request_of (wire_env ti) ti ce cn PDU
      (sh, NextWalk \<lparr>wc_targetName = targetName, wc_contextEngineId = ce, wc_contextName = cn, wc_reqPDU = PDU\<rparr> ()))"
    "cg_pendingReqs g (fst d) = Some (new_command (wire_env ti) ti ce cn PDU)" "cg_jobs g \<noteq> 0"
    and ids: "nextid_inv (cg_handles g)" "ids_ok (cg_requestIDs g)"
    using assms(2) by (auto simp: walk_waits_def)
  let ?ctx = "\<lparr>wc_targetName = targetName, wc_contextEngineId = ce, wc_contextName = cn, wc_reqPDU = PDU\<rparr>"
  let ?rsp = "\<lparr>p_type = Response, p_requestID = p_requestID PDU, p_errorStatus = 0, p_errorIndex = 0, p_varBinds = [(m, v)]\<rparr>"
  let ?g = "g\<lparr>cg_pendingReqs := (cg_pendingReqs g)(fst d := None), cg_jobs := cg_jobs g - 1\<rparr>"
  have mpm: "ti_messageProcessingModel ti \<noteq> 0" using assms(1) by (simp add: configured_def)
  have nxt: "next_request PDU ?rsp [[(m, v)]] = Inr (None, [(m, None)])"
    using assms(4,5) w(1) by (simp add: next_request_def getNextVarBinds_spec)
  have conf: "configured (wire_env ti) (wc_targetName ?ctx) (wc_contextEngineId ?ctx) (wc_contextName ?ctx) ti"
    using assms(1) by simp
  have ids': "nextid_inv (cg_handles ?g)" "ids_ok (cg_requestIDs ?g)" using ids by simp_all
  obtain sh' n' i m' PDU' rq where on: "nextid_inv n'" "ids_ok m'"
    "PDU' = setVarBinds [(m, None)] ((wc_reqPDU ?ctx)\<lparr>p_requestID := i\<rparr>)"
    "rq = request_of (wire_env ti) ti (wc_contextEngineId ?ctx) (wc_contextName ?ctx) PDU' (sh', NextWalk (?ctx\<lparr>wc_reqPDU := PDU'\<rparr>) ())"
    "continue_walk (wire_env ti) ?ctx (\<lambda>c. NextWalk c ()) () sh ?rsp [[(m, v)]] (next_request PDU ?rsp [[(m, v)]]) ((fst d, None), ?g, w) =
      (Inr (), wire_put rq (fst d, None), ?g\<lparr>cg_handles := n', cg_requestIDs := m', cg_jobs := cg_jobs ?g + 1,
          cg_pendingReqs := (cg_pendingReqs ?g)(fst (wire_put rq (fst d, None)) \<mapsto>
            new_command (wire_env ti) ti (wc_contextEngineId ?ctx) (wc_contextName ?ctx) PDU')\<rparr>,
        w @ [\<lparr>an_sendRequestHandle = sh, an_errorIndication = map_option Indication None, an_errorStatus = p_errorStatus ?rsp,
          an_errorIndex = (if p_errorIndex ?rsp > int (length (p_varBinds ?rsp)) then int (length (p_varBinds ?rsp))
                           else p_errorIndex ?rsp), an_varBinds = Rows [[(m, v)]]\<rparr>])"
    by (rule continue_walk_sends [OF wire_sends_all conf wire_insatiable ids' nxt]) (simp, rule that)
  have ex: "exchange answer ti (d, g, w) =
      continue_walk (wire_env ti) ?ctx (\<lambda>c. NextWalk c ()) () sh ?rsp [[(m, v)]] (next_request PDU ?rsp [[(m, v)]]) ((fst d, None), ?g, w)"
    using reply_taken [OF mpm w(2-4)] w(1) assms(3)
    by (simp add: processResponseVarBinds_def v2_getVarBindTable_def Let_def)
  have bs: "p_varBinds PDU' = [(m, VNull)]" by (simp add: on(3) setVarBinds_def)
  show ?thesis
  proof (rule that)
    show "exchange answer ti (d, g, w) = (Inr (), wire_put rq (fst d, None), ?g\<lparr>cg_handles := n', cg_requestIDs := m',
        cg_jobs := cg_jobs ?g + 1, cg_pendingReqs := (cg_pendingReqs ?g)(fst (wire_put rq (fst d, None)) \<mapsto>
            new_command (wire_env ti) ti ce cn PDU')\<rparr>,
        w @ [\<lparr>an_sendRequestHandle = sh, an_errorIndication = None, an_errorStatus = 0, an_errorIndex = 0,
          an_varBinds = Rows [[(m, v)]]\<rparr>])"
      unfolding ex on(5) by simp
    show "walk_waits ti targetName ce cn m (wire_put rq (fst d, None)) (?g\<lparr>cg_handles := n', cg_requestIDs := m',
        cg_jobs := cg_jobs ?g + 1, cg_pendingReqs := (cg_pendingReqs ?g)(fst (wire_put rq (fst d, None)) \<mapsto>
            new_command (wire_env ti) ti ce cn PDU')\<rparr>)"
      unfolding walk_waits_def
      by (rule exI [of _ PDU'], rule exI [of _ sh'], rule exI [of _ VNull])
        (use bs on(1,2,4) w(4) in \<open>simp add: wire_put_def\<close>)
  qed (simp add: summary_def)
qed

lemma walk_ends:
  assumes "ti_messageProcessingModel ti \<noteq> 0" and "walk_waits ti targetName ce cn n d g" and "answer n = (n, VEndOfMibView)"
  obtains g' a where "exchange answer ti (d, g, w) = (Inr (), (fst d, None), g', w @ [a])"
    "summary a = (None, 0, Rows [[(n, VEndOfMibView)]])" "cg_pendingReqs g' = (cg_pendingReqs g)(fst d := None)"
proof -
  obtain PDU sh x where w: "p_varBinds PDU = [(n, x)]"
    "snd d = Some (request_of (wire_env ti) ti ce cn PDU
      (sh, NextWalk \<lparr>wc_targetName = targetName, wc_contextEngineId = ce, wc_contextName = cn, wc_reqPDU = PDU\<rparr> ()))"
    "cg_pendingReqs g (fst d) = Some (new_command (wire_env ti) ti ce cn PDU)" "cg_jobs g \<noteq> 0"
    using assms(2) by (auto simp: walk_waits_def)
  let ?rsp = "\<lparr>p_type = Response, p_requestID = p_requestID PDU, p_errorStatus = 0, p_errorIndex = 0,
    p_varBinds = [(n, VEndOfMibView)]\<rparr>"
  have "next_request PDU ?rsp [[(n, VEndOfMibView)]] = Inr (None, [])"
    by (simp add: next_request_def getNextVarBinds_spec is_finished_def)
  then have "exchange answer ti (d, g, w) = (Inr (), (fst d, None),
      g\<lparr>cg_pendingReqs := (cg_pendingReqs g)(fst d := None), cg_jobs := cg_jobs g - 1\<rparr>,
      w @ [\<lparr>an_sendRequestHandle = sh, an_errorIndication = None, an_errorStatus = 0, an_errorIndex = 0,
        an_varBinds = Rows [[(n, VEndOfMibView)]]\<rparr>])"
    using reply_taken [OF assms(1) w(2-4)] w(1) assms(3)
    by (simp add: processResponseVarBinds_def v2_getVarBindTable_def Let_def continue_walk_def sbind_def sres_def
        getErrorIndex_def wire_env_def sret_def)
  then show ?thesis by (rule that) (simp_all add: summary_def)
qed

lemma walk_run:
  assumes "configured (wire_env ti) targetName ce cn ti" and "walk_waits ti targetName ce cn n d g" and "follows answer n vbs"
  shows "\<exists>d' g' log. exchanges answer ti (length vbs + 1) (d, g, w) = (Inr (), (d', None), g', w @ log) \<and>
    map summary log = map (\<lambda>vb. (None, 0, Rows [[vb]])) vbs @ [(None, 0, Rows [[(last (n # map fst vbs), VEndOfMibView)]])]"
  using assms(2,3)
proof (induction vbs arbitrary: n d g w)
  case Nil
  then have e: "answer n = (n, VEndOfMibView)" by simp
  have mpm: "ti_messageProcessingModel ti \<noteq> 0" using assms(1) by (simp add: configured_def)
  obtain g' a where "exchange answer ti (d, g, w) = (Inr (), (fst d, None), g', w @ [a])"
    "summary a = (None, 0, Rows [[(n, VEndOfMibView)]])"
    by (rule walk_ends [where answer = answer and n = n, OF mpm Nil.prems(1) e])
  then show ?case by (auto simp: sbind_def sret_def)
next
  case (Cons vb vbs)
  obtain m v where vb: "vb = (m, v)" by fastforce
  with Cons.prems(2) have step: "answer n = (m, v)" "\<not> is_finished v" "n < m" and rest: "follows answer m vbs" by auto
  obtain d1 g1 a where 1: "exchange answer ti (d, g, w) = (Inr (), d1, g1, w @ [a])"
    "walk_waits ti targetName ce cn m d1 g1" "summary a = (None, 0, Rows [[(m, v)]])"
    by (rule walk_next [where answer = answer and n = n, OF assms(1) Cons.prems(1) step])
  obtain d' g' log where "exchanges answer ti (length vbs + 1) (d1, g1, w @ [a]) = (Inr (), (d', None), g', (w @ [a]) @ log)"
    "map summary log = map (\<lambda>vb. (None, 0, Rows [[vb]])) vbs @ [(None, 0, Rows [[(last (m # map fst vbs), VEndOfMibView)]])]"
    using Cons.IH [OF 1(2) rest] by blast
  then show ?case
    using 1(1,3) by (intro exI [of _ d'] exI [of _ g'] exI [of _ "a # log"]) (auto simp: sbind_def vb)
qed

section \<open>The agent\<close>

locale getnext_agent =
  fixes wf :: "'t \<Rightarrow> bool" and answer :: "'t \<Rightarrow> oid \<Rightarrow> var_bind" and serves :: "'t \<Rightarrow> oid \<Rightarrow> snmp_value \<Rightarrow> bool"
  assumes finite_served: "wf t \<Longrightarrow> finite {l. \<exists>v. serves t l v}"
    and one_value: "wf t \<Longrightarrow> serves t l v \<Longrightarrow> serves t l v' \<Longrightarrow> v = v'"
    and plain_value: "wf t \<Longrightarrow> serves t l v \<Longrightarrow> \<not> is_finished v"
    and next_served: "wf t \<Longrightarrow> n < l \<Longrightarrow> serves t l v \<Longrightarrow>
      n < fst (answer t n) \<and> serves t (fst (answer t n)) (snd (answer t n)) \<and> fst (answer t n) \<le> l"
    and none_served: "wf t \<Longrightarrow> \<nexists>l v. n < l \<and> serves t l v \<Longrightarrow> answer t n = (n, VEndOfMibView)"
begin

lemma walked_list:
  assumes "wf t"
  shows "\<exists>vbs. follows (answer t) n vbs \<and> sorted_wrt (<) (map fst vbs) \<and> set vbs = {(l, v). n < l \<and> serves t l v}"
proof (induction "card {l. n < l \<and> (\<exists>v. serves t l v)}" arbitrary: n rule: less_induct)
  case less
  have fin: "finite {l. n < l \<and> (\<exists>v. serves t l v)}" for n by (rule finite_subset [OF _ finite_served [OF assms]]) auto
  show ?case
  proof (cases "\<exists>l v. n < l \<and> serves t l v")
    case False
    then have "follows (answer t) n []" using none_served [OF assms] by simp
    moreover have "set [] = {(l, v). n < l \<and> serves t l v}" using False by auto
    ultimately show ?thesis by (intro exI [of _ "[]"]) simp
  next
    case True
    obtain m v where a: "answer t n = (m, v)" by fastforce
    have m: "n < m" "serves t m v" "\<And>l v. n < l \<Longrightarrow> serves t l v \<Longrightarrow> m \<le> l"
      using True next_served [OF assms] a by fastforce+
    have "{l. m < l \<and> (\<exists>v. serves t l v)} \<subset> {l. n < l \<and> (\<exists>v. serves t l v)}" using m by force
    then have "card {l. m < l \<and> (\<exists>v. serves t l v)} < card {l. n < l \<and> (\<exists>v. serves t l v)}"
      by (rule psubset_card_mono [OF fin])
    from less [OF this] obtain vbs where vbs: "follows (answer t) m vbs" "sorted_wrt (<) (map fst vbs)"
      "set vbs = {(l, v). m < l \<and> serves t l v}" by blast
    have "(l, u) \<in> set ((m, v) # vbs) \<longleftrightarrow> n < l \<and> serves t l u" for l u
    proof (cases "l = m")
      case True
      then show ?thesis using vbs(3) m one_value [OF assms m(2), of u] by auto
    next
      case False
      then show ?thesis using vbs(3) m(1) m(3) [of l u] by auto
    qed
    then have "set ((m, v) # vbs) = {(l, v). n < l \<and> serves t l v}" by auto
    moreover have "sorted_wrt (<) (map fst ((m, v) # vbs))" using vbs(2,3) by auto
    moreover have "follows (answer t) n ((m, v) # vbs)" using vbs(1) a m(1,2) plain_value [OF assms] by simp
    ultimately show ?thesis by blast
  qed
qed

end

text \<open>The tree of managed objects, as a GETNEXT of one name sees it.\<close>

definition tree_answer :: "ac_fun option \<Rightarrow> mib_tree \<Rightarrow> oid \<Rightarrow> var_bind" where
  "tree_answer ac t n = (case mib_readGetNext ac 0 n t of Inr vb \<Rightarrow> vb | Inl e \<Rightarrow> (n, VEndOfMibView))"

definition tree_serves :: "ac_fun option \<Rightarrow> mib_tree \<Rightarrow> bool" where
  "tree_serves ac t \<longleftrightarrow> tree_wf ac 0 (mn_vars t) \<and> (\<forall>l v. served ac 0 t l v \<longrightarrow> \<not> is_finished v)"

interpretation tree_agent: getnext_agent "tree_serves ac" "tree_answer ac" "served ac 0" for ac
proof
  fix t :: mib_tree and n l v v'
  assume "tree_serves ac t"
  then have wf: "tree_wf ac 0 (mn_vars t)" and plain: "\<And>l v. served ac 0 t l v \<Longrightarrow> \<not> is_finished v"
    by (auto simp: tree_serves_def)
  define A where "A = all_parts (branch_part ac 0) (mn_vars t)"
  note A = served_map [OF wf, folded A_def]
  let ?S = "dom A \<inter> {l. n < l}"
  have ans: "tree_answer ac t n = (if ?S = {} then (n, VEndOfMibView) else the (A (Min ?S)))"
    by (simp add: tree_answer_def A(4) first_in_def)
  show "finite {l. \<exists>v. served ac 0 t l v}" by (rule finite_subset [OF _ A(3)]) (auto simp: A(1))
  show "served ac 0 t l v \<Longrightarrow> served ac 0 t l v' \<Longrightarrow> v = v'" by (simp add: A(1))
  show "served ac 0 t l v \<Longrightarrow> \<not> is_finished v" by (rule plain)
  show "n < fst (tree_answer ac t n) \<and> served ac 0 t (fst (tree_answer ac t n)) (snd (tree_answer ac t n)) \<and>
      fst (tree_answer ac t n) \<le> l" if "n < l" "served ac 0 t l v"
  proof -
    have S: "finite ?S" "l \<in> ?S" "?S \<noteq> {}" using A(3) that by (auto simp: A(1))
    have m: "Min ?S \<in> ?S" "Min ?S \<le> l" using Min_in [OF S(1,3)] Min_le [OF S(1,2)] .
    obtain u where "A (Min ?S) = Some (Min ?S, u)" using A(2) [of "Min ?S"] m(1) by blast
    with S(3) m show ?thesis by (simp add: ans A(1))
  qed
  show "\<nexists>l v. n < l \<and> served ac 0 t l v \<Longrightarrow> tree_answer ac t n = (n, VEndOfMibView)"
  proof -
    assume "\<nexists>l v. n < l \<and> served ac 0 t l v"
    then have "?S = {}" using A(1,2) by blast
    then show ?thesis by (simp add: ans)
  qed
qed

section \<open>The walk\<close>

text \<open>
  (C18) A GETNEXT walk lists everything the agent serves after the name it starts from, once and in order.
  Started on one name, over a version of the protocol with exception values, against a
  well-formed tree of managed objects, and with an application that goes on, the walk ends after
  one exchange for each instance served and one more: the application has been given a row with
  each instance and its value, in the order of their names, and then one row with the end of the
  view, without an error; nothing is under way after that.
\<close>

theorem walk_lists_instances:
  assumes "tree_serves ac t" and "configured (wire_env ti) targetName ce cn ti"
    and "nextid_inv (cg_handles g)" and "ids_ok (cg_requestIDs g)"
  shows "\<exists>vbs d' g' log. sorted_wrt (<) (map fst vbs) \<and> set vbs = {(l, v). start < l \<and> served ac 0 t l v} \<and>
    sbind (next_sendVarBinds (wire_env ti) True targetName ce cn [(start, None)] ())
      (\<lambda>_. exchanges (tree_answer ac t) ti (length vbs + 1)) ((h, None), g, []) = (Inr (), (d', None), g', log) \<and>
    map summary log = map (\<lambda>vb. (None, 0, Rows [[vb]])) vbs @ [(None, 0, Rows [[(last (start # map fst vbs), VEndOfMibView)]])]"
proof -
  obtain vbs where vbs: "follows (tree_answer ac t) start vbs" "sorted_wrt (<) (map fst vbs)"
    "set vbs = {(l, v). start < l \<and> served ac 0 t l v}"
    using tree_agent.walked_list [OF assms(1)] by blast
  obtain i m where i: "nextid_call (cg_requestIDs g) = (Inr i, m)" "ids_ok m" "i \<le> 2147483647"
    using ids_ok_call [OF assms(4)] by blast
  let ?g = "g\<lparr>cg_requestIDs := m\<rparr>"
  have "nextid_inv (cg_handles ?g)" using assms(3) by simp
  then obtain sh n where n: "nextid_inv n"
    "\<And>PDU cb. sendCommand (wire_env ti) targetName ce cn PDU cb ((h, None), ?g, []) =
      (let rq = request_of (wire_env ti) ti ce cn PDU (sh, cb) in
       (Inr sh, wire_put rq (h, None), ?g\<lparr>cg_handles := n, cg_jobs := cg_jobs ?g + 1,
          cg_pendingReqs := (cg_pendingReqs ?g)(fst (wire_put rq (h, None)) \<mapsto> new_command (wire_env ti) ti ce cn PDU)\<rparr>, []))"
    by (rule sendCommand_sent [OF wire_sends_all assms(2), of ?g "(h, None)" "[]"]) (rule that)
  define PDU where "PDU = setVarBinds [(start, None)]
    ((pdu_clone GetNextRequest)\<lparr>p_requestID := int i, p_errorStatus := 0, p_errorIndex := 0, p_varBinds := []\<rparr>)"
  have b: "p_varBinds PDU = [(start, VNull)]" by (simp add: PDU_def setVarBinds_def)
  let ?cb = "NextWalk \<lparr>wc_targetName = targetName, wc_contextEngineId = ce, wc_contextName = cn, wc_reqPDU = PDU\<rparr> ()"
  let ?rq = "request_of (wire_env ti) ti ce cn PDU (sh, ?cb)"
  let ?g1 = "?g\<lparr>cg_handles := n, cg_jobs := cg_jobs ?g + 1,
    cg_pendingReqs := (cg_pendingReqs ?g)(fst (wire_put ?rq (h, None)) \<mapsto> new_command (wire_env ti) ti ce cn PDU)\<rparr>"
  have ids: "on_requestIDs (setDefaults (pdu_clone GetNextRequest)) ((h, None), g, []) =
      (Inr ((pdu_clone GetNextRequest)\<lparr>p_requestID := int i, p_errorStatus := 0, p_errorIndex := 0, p_varBinds := []\<rparr>),
       (h, None), ?g, [])"
    using i(1) by (simp add: on_requestIDs_def setDefaults_def sbind_def sret_def)
  have sent: "next_sendVarBinds (wire_env ti) True targetName ce cn [(start, None)] () ((h, None), g, []) =
      (Inr sh, wire_put ?rq (h, None), ?g1, [])"
    unfolding next_sendVarBinds_def sbind_def ids
    using n(2) [of PDU ?cb] by (simp add: Let_def PDU_def)
  have "walk_waits ti targetName ce cn start (wire_put ?rq (h, None)) ?g1"
    unfolding walk_waits_def
    by (rule exI [of _ PDU], rule exI [of _ sh], rule exI [of _ VNull])
      (use b n(1) i(2) in \<open>simp add: wire_put_def\<close>)
  from walk_run [OF assms(2) this vbs(1), of "[]"] obtain d' g' log where
    "exchanges (tree_answer ac t) ti (length vbs + 1) (wire_put ?rq (h, None), ?g1, []) = (Inr (), (d', None), g', log)"
    "map summary log = map (\<lambda>vb. (None, 0, Rows [[vb]])) vbs @ [(None, 0, Rows [[(last (start # map fst vbs), VEndOfMibView)]])]"
    by auto
  then have "sbind (next_sendVarBinds (wire_env ti) True targetName ce cn [(start, None)] ())
      (\<lambda>_. exchanges (tree_answer ac t) ti (length vbs + 1)) ((h, None), g, []) = (Inr (), (d', None), g', log)"
    unfolding sbind_def sent by simp
  with vbs(2,3) \<open>map summary log = _\<close> show ?thesis by blast
qed

lemma sample_tree_serves: "tree_serves None sample_tree"
  unfolding tree_serves_def
proof (intro conjI allI impI)
  show "tree_wf None 0 (mn_vars sample_tree)" by (rule sample_tree_wf)
  fix l v
  assume "served None 0 sample_tree l v"
  then obtain k n inst where "is_object sample_tree k n" "map_of (mn_vars n) l = Some inst" "instance_value inst = Some v"
    by (auto simp: served_def)
  then show "\<not> is_finished v"
    by (auto simp: is_object_def sample_defs instance_value_def is_finished_def mib_node.truncate_def split: if_splits)
qed

theorem walk_lists_instances_witness:
  "\<exists>vbs d' g' log. set vbs = {(l, v). [1, 2] < l \<and> served None 0 sample_tree l v} \<and>
    sbind (next_sendVarBinds (wire_env sample_target) True [116] None [] [([1, 2], None)] ())
      (\<lambda>_. exchanges (tree_answer None sample_tree) sample_target (length vbs + 1)) ((3, None), sample_cmdgen, []) =
        (Inr (), (d', None), g', log)"
proof -
  have "configured (wire_env sample_target) [116] None [] sample_target"
    by (rule sample_configured) (simp add: sample_target_def)
  from walk_lists_instances [OF sample_tree_serves this sample_ids, of "[1, 2]" 3] show ?thesis by blast
qed

end
