(* ===== verification/Cmdgen_Dispatch.thy ===== *)
theory Cmdgen_Dispatch
  imports Cmdgen
begin

text \<open>
  The command generator on the dispatcher: \<open>Cmdgen\<close> with the \<open>sendPdu\<close> of \<open>Dispatcher\<close>, and the
  dispatcher with the generator's \<open>processResponsePdu\<close> for a callback. Each keeps a table of
  requests of its own, under the same handles; the lemmas show that they stay in step over
  anything that happens to the engine, so that the dispatcher never hands the generator a
  response, a time-out or a failure that the generator does not know.
\<close>

section \<open>The two tables\<close>

type_synonym ('k, 'addr, 'w) gen_engine = "('k gen_call, 'addr, 'addr cmdgen \<times> 'w) engine"

text \<open>What the dispatcher waits for, and what the generator does.\<close>

abbreviation waiting :: "('k, 'addr, 'w) gen_engine \<Rightarrow> (nat \<times> ('k gen_call, 'addr) req_params) list" where
  "waiting s \<equiv> ds_cache (fst s)"

abbreviation known :: "('k, 'addr, 'w) gen_engine \<Rightarrow> nat set" where
  "known s \<equiv> dom (cg_pendingReqs (fst (snd s)))"

definition in_step :: "('k, 'addr, 'w) gen_engine \<Rightarrow> bool" where
  "in_step s \<longleftrightarrow> distinct (map fst (waiting s)) \<and>
     (\<forall>(h, p) \<in> set (waiting s). rp_sendPduHandle p = h \<and> h \<in> known s)"

text \<open>Operations that touch neither table, and operations that only add requests.\<close>

definition aside :: "(('k, 'addr, 'w) gen_engine, 'a) sm \<Rightarrow> bool" where
  "aside m \<longleftrightarrow> (\<forall>s. waiting (snd (m s)) = waiting s \<and> fst (snd (snd (m s))) = fst (snd s))"

definition adds :: "(('k, 'addr, 'w) gen_engine, 'a) sm \<Rightarrow> bool" where
  "adds m \<longleftrightarrow> (\<forall>s. in_step s \<longrightarrow> in_step (snd (m s)) \<and> known s \<subseteq> known (snd (m s)))"

lemma asideD: "aside m \<Longrightarrow> m s = (r, s') \<Longrightarrow> waiting s' = waiting s \<and> fst (snd s') = fst (snd s)"
  by (metis aside_def snd_conv)

lemma addsD: "adds m \<Longrightarrow> in_step s \<Longrightarrow> m s = (r, s') \<Longrightarrow> in_step s' \<and> known s \<subseteq> known s'"
  by (metis adds_def snd_conv)

lemma aside_adds: "aside m \<Longrightarrow> adds m"
  by (simp add: aside_def adds_def in_step_def)

lemma adds_basic [simp]: "adds (sret x)" "adds (sraise e)" "adds (sres r)" "adds (sget f)"
  by (simp_all add: adds_def sret_def sraise_def sres_def sget_def)

lemma addsI:
  "(\<And>s r s'. in_step s \<Longrightarrow> m s = (r, s') \<Longrightarrow> in_step s' \<and> known s \<subseteq> known s') \<Longrightarrow> adds m"
  unfolding adds_def by (metis surj_pair snd_conv)

lemma adds_sbind:
  assumes "adds m" and "\<And>x. adds (f x)"
  shows "adds (sbind m f)"
proof (rule addsI)
  fix s r s'
  assume J: "in_step s" and run: "sbind m f s = (r, s')"
  obtain r1 s1 where m: "m s = (r1, s1)" by (meson surj_pair)
  note 1 = addsD [OF assms(1) J m]
  show "in_step s' \<and> known s \<subseteq> known s'"
  proof (cases r1)
    case (Inl e)
    with run m have "s' = s1" by (simp add: sbind_def)
    with 1 show ?thesis by simp
  next
    case (Inr x)
    with run m have "f x s1 = (r, s')" by (simp add: sbind_def)
    from addsD [OF assms(2) _ this] 1 show ?thesis by blast
  qed
qed

lemma adds_scatch:
  assumes "adds m" and "\<And>e. adds (h e)"
  shows "adds (scatch m h)"
proof (rule addsI)
  fix s r s'
  assume J: "in_step s" and run: "scatch m h s = (r, s')"
  obtain r1 s1 where m: "m s = (r1, s1)" by (meson surj_pair)
  note 1 = addsD [OF assms(1) J m]
  show "in_step s' \<and> known s \<subseteq> known s'"
  proof (cases r1)
    case (Inl e)
    with run m have "h e s1 = (r, s')" by (simp add: scatch_def)
    from addsD [OF assms(2) _ this] 1 show ?thesis by blast
  next
    case (Inr x)
    with run m have "s' = s1" by (simp add: scatch_def)
    with 1 show ?thesis by simp
  qed
qed

lemma in_step_cong: "waiting s' = waiting s \<Longrightarrow> known s' = known s \<Longrightarrow> in_step s' \<longleftrightarrow> in_step s"
  by (simp add: in_step_def)

lemma adds_on_gen:
  fixes m :: "('addr cmdgen, 'a) sm"
  assumes "\<And>g. cg_pendingReqs (snd (m g)) = cg_pendingReqs g"
  shows "adds (on_gen m :: (('k, 'addr, 'w) gen_engine, 'a) sm)"
  unfolding adds_def
proof (intro allI impI)
  fix s :: "('k, 'addr, 'w) gen_engine"
  assume "in_step s"
  then show "in_step (snd (on_gen m s)) \<and> known s \<subseteq> known (snd (on_gen m s))"
    by (cases s) (auto simp: assms in_step_def)
qed

lemma adds_dmodify:
  assumes "\<And>d. ds_cache (f d) = ds_cache d"
  shows "adds (dmodify f)"
  by (simp add: adds_def dmodify_def smodify_def in_step_def assms)

lemma adds_dget [simp]: "adds (dget_state f)"
  by (simp add: dget_state_def)

section \<open>Sending\<close>

text \<open>What is around the two: it leaves the tables alone and fails with SNMP errors only.\<close>

definition polite :: "('s, 'a) sm \<Rightarrow> bool" where
  "polite m \<longleftrightarrow> (\<forall>s e s'. m s = (Inl e, s') \<longrightarrow> is_PySnmpError e)"

definition apart :: "(('k, 'addr, 'w) gen_engine, 'k gen_call, 'addr) denv \<Rightarrow> bool" where
  "apart denv \<longleftrightarrow>
     (\<forall>(m, h) \<in> set (en_subsystems denv).
        (\<forall>rq k. aside (mh_prepareOutgoingMessage h rq k) \<and> polite (mh_prepareOutgoingMessage h rq k)) \<and>
        (\<forall>k. aside (mh_releaseStateInformation h k)) \<and>
        (\<forall>de st. aside (mh_prepareResponseMessage h de st)) \<and> (\<forall>td a w. aside (mh_prepareDataElements h td a w))) \<and>
     (\<forall>t. en_transport denv = Some t \<longrightarrow>
        (\<forall>m td a. aside (tr_sendMessage t m td a) \<and> polite (tr_sendMessage t m td a)) \<and> (\<forall>r. aside (tr_runDeferred t r))) \<and>
     (\<forall>app de. adds (en_processPdu denv app de))"

text \<open>What the cache looks like after \<open>sendPdu\<close>.\<close>

definition handles_kept :: "('k, 'addr, 'w) gen_engine \<Rightarrow> bool" where
  "handles_kept s \<longleftrightarrow> distinct (map fst (waiting s)) \<and> (\<forall>(h, p) \<in> set (waiting s). rp_sendPduHandle p = h)"

definition sent_step :: "('k, 'addr, 'w) gen_engine \<Rightarrow> nat res \<Rightarrow> ('k, 'addr, 'w) gen_engine \<Rightarrow> bool" where
  "sent_step s r s' \<longleftrightarrow> fst (snd s') = fst (snd s) \<and> handles_kept s' \<and>
     fst ` set (waiting s') \<subseteq> fst ` set (waiting s) \<union> {h. r = Inr h}"

lemma subsystem_apart:
  assumes "apart denv" and "map_of (en_subsystems denv) m = Some h"
  shows "aside (mh_prepareOutgoingMessage h rq k)" "polite (mh_prepareOutgoingMessage h rq k)"
    "aside (mh_releaseStateInformation h k)" "aside (mh_prepareResponseMessage h de st)"
    "aside (mh_prepareDataElements h td a w)"
proof -
  have "(m, h) \<in> set (en_subsystems denv)" using assms(2) by (rule map_of_SomeD)
  with assms(1) show "aside (mh_prepareOutgoingMessage h rq k)" "polite (mh_prepareOutgoingMessage h rq k)"
    "aside (mh_releaseStateInformation h k)" "aside (mh_prepareResponseMessage h de st)"
    "aside (mh_prepareDataElements h td a w)"
    unfolding apart_def by blast+
qed

lemma set_delete: "set (AList.delete h c) = {x \<in> set c. fst x \<noteq> h}"
  by (auto simp: AList.delete_eq)

lemma distinct_delete: "distinct (map fst c) \<Longrightarrow> distinct (map fst (AList.delete h c))"
  by (rule AList.distinct_delete)

lemma update_handles:
  "\<forall>(k, q) \<in> set c. f q = k \<Longrightarrow> f p = h \<Longrightarrow> \<forall>(k, q) \<in> set (AList.update h p c). f q = k"
  by (induction c) (auto split: if_splits)

lemma release_step:
  assumes "apart denv" and "releaseStateInformation denv h m s = (r, s')"
  shows "fst (snd s') = fst (snd s) \<and> set (waiting s') \<subseteq> set (waiting s) \<and>
    (distinct (map fst (waiting s)) \<longrightarrow> distinct (map fst (waiting s'))) \<and>
    (r = Inr () \<longrightarrow> h \<notin> fst ` set (waiting s'))"
proof -
  have a: "aside (case map_of (en_subsystems denv) m of None \<Rightarrow> sret ()
      | Some mpHandler \<Rightarrow> mh_releaseStateInformation mpHandler h)"
    using subsystem_apart(3) [OF assms(1)] by (auto simp: aside_def sret_def split: option.split)
  from assms(2) show ?thesis
    using a unfolding releaseStateInformation_def
    by (auto simp: sbind_def cache_pop_eq sret_def set_delete distinct_delete split: prod.splits sum.splits dest!: asideD)
qed

lemma sent_step_aside:
  "waiting s3 = waiting s2 \<Longrightarrow> fst (snd s3) = fst (snd s2) \<Longrightarrow> sent_step s r s3 \<longleftrightarrow> sent_step s r s2"
  by (simp add: sent_step_def handles_kept_def)

lemma sent_step_start:
  "handles_kept s \<Longrightarrow> waiting s' = waiting s \<Longrightarrow> fst (snd s') = fst (snd s) \<Longrightarrow> sent_step s (Inl e) s'"
  by (simp add: sent_step_def handles_kept_def)

lemma sent_step_gone:
  assumes "sent_step s (Inr h) s2" and "fst (snd s3) = fst (snd s2)" and "set (waiting s3) \<subseteq> set (waiting s2)"
    and "distinct (map fst (waiting s2)) \<longrightarrow> distinct (map fst (waiting s3))" and "h \<notin> fst ` set (waiting s3)"
  shows "sent_step s (Inl e) s3"
proof -
  have "fst ` set (waiting s3) \<subseteq> fst ` set (waiting s2)" using assms(3) by auto
  with assms(1,5) have "fst ` set (waiting s3) \<subseteq> fst ` set (waiting s)" unfolding sent_step_def by blast
  then show ?thesis using assms(1-4) unfolding sent_step_def handles_kept_def by auto
qed

lemma pop_gone:
  assumes "sent_step s (Inr h) s2" and "cache_pop h s2 = (r3, s3)"
  shows "sent_step s (Inl e) s3 \<and> h \<notin> fst ` set (waiting s3)"
proof -
  from assms(2) have s3: "waiting s3 = AList.delete h (waiting s2)" "snd s3 = snd s2" by (auto simp: cache_pop_eq)
  then have gone: "h \<notin> fst ` set (waiting s3)" by (auto simp: set_delete)
  have "sent_step s (Inl e) s3"
    by (rule sent_step_gone [OF assms(1) _ _ _ gone]) (auto simp: s3 set_delete distinct_delete)
  with gone show ?thesis by simp
qed

lemma pop_unit_gone:
  assumes "sent_step s (Inr h) s2" and "sbind (cache_pop h) (\<lambda>_. sret ()) s2 = (r3, s3)"
  shows "sent_step s (Inl e) s3"
  using pop_gone [OF assms(1)] assms(2) by (auto simp: sbind_def cache_pop_eq sret_def)

lemma pop_release_gone:
  assumes "apart denv" and "sent_step s (Inr h) s2"
    and "sbind (cache_pop h) (\<lambda>_. releaseStateInformation denv h m) s2 = (r3, s3)"
  shows "sent_step s (Inl e) s3"
proof -
  obtain s' where s': "cache_pop h s2 = (Inr (map_of (waiting s2) h), s')" by (simp add: cache_pop_eq)
  with assms(3) have rel: "releaseStateInformation denv h m s' = (r3, s3)" by (simp add: sbind_def)
  have s2: "sent_step s (Inl e) s'" "h \<notin> fst ` set (waiting s')" using pop_gone [OF assms(2) s'] by auto
  then have "sent_step s (Inr h) s'" by (auto simp: sent_step_def)
  from sent_step_gone [OF this, of s3] release_step [OF assms(1) rel] s2(2) show ?thesis by blast
qed

lemma guarded_step:
  assumes "aside m" and "polite m" and "sent_step s (Inr h) s2"
    and "\<And>s2 r3 s3. sent_step s (Inr h) s2 \<Longrightarrow> cleanup s2 = (r3, s3) \<Longrightarrow> sent_step s (Inl KeyError) s3"
    and "scatch m (reraise_PySnmpError cleanup) s2 = (r3, s3)"
  shows "case r3 of Inl e \<Rightarrow> sent_step s (Inl KeyError) s3 | Inr x \<Rightarrow> sent_step s (Inr h) s3"
proof -
  obtain r1 s1 where m: "m s2 = (r1, s1)" by (meson surj_pair)
  have s1: "sent_step s (Inr h) s1" using asideD [OF assms(1) m] assms(3) sent_step_aside [of s1 s2 s] by blast
  show ?thesis
  proof (cases r1)
    case (Inr x)
    with m s1 assms(5) show ?thesis by (auto simp: scatch_def)
  next
    case (Inl e)
    with m assms(2) have e: "is_PySnmpError e" unfolding polite_def by blast
    obtain r4 s4 where c: "cleanup s1 = (r4, s4)" by (meson surj_pair)
    have "s3 = s4 \<and> isl r3"
      using assms(5) Inl m e c by (cases r4) (auto simp: scatch_def reraise_PySnmpError_def sbind_def sraise_def)
    then show ?thesis using assms(4) [OF s1 c] by (cases r3) auto
  qed
qed

lemma sendPdu_step:
  fixes rq :: "('k gen_call, 'addr) send_request" and s :: "('k, 'addr, 'w) gen_engine"
  assumes ok: "apart denv" and start: "handles_kept s" and "sq_expectResponse rq" and "sendPdu denv rq s = (r, s')"
  shows "sent_step s r s'"
proof (cases "map_of (en_subsystems denv) (sq_messageProcessingModel rq)")
  case None
  with assms show ?thesis by (auto simp: sendPdu_def sraise_def intro: sent_step_start)
next
  case sub: (Some mpHandler)
  have any: "sent_step s (Inl e) t" if "sent_step s (Inl KeyError) t" for e t using that by (simp add: sent_step_def)
  obtain r1 s1 where n: "next_handle s = (r1, s1)" by (meson surj_pair)
  have n': "waiting s1 = waiting s" "snd s1 = snd s" using n by (auto simp: next_handle_def split: prod.splits)
  show ?thesis
  proof (cases r1)
    case (Inl e)
    with start assms(4) sub n n' show ?thesis by (auto simp: sendPdu_def sbind_def intro: sent_step_start)
  next
    case h: (Inr h)
    show ?thesis
    proof (cases "en_transport denv")
      case None
      with start assms(3,4) sub n n' h show ?thesis
        by (auto simp: sendPdu_def sbind_def the_transport_def sraise_def intro: sent_step_start)
    next
      case t: (Some t)
      define p :: "('k gen_call, 'addr) req_params" where "p = \<lparr>rp_messageProcessingModel = sq_messageProcessingModel rq, rp_sendPduHandle = h,
        rp_timeout = sq_timeout rq + tr_getTimerTicks t s1, rp_cbFun = sq_cbFun rq, rp_sent = None\<rparr>"
      obtain s2 where add: "cache_add h p s1 = (Inr (), s2)" and w2: "waiting s2 = AList.update h p (waiting s1)" "snd s2 = snd s1"
        by (simp add: cache_add_def dmodify_def smodify_def req_add_def)
      have s2: "sent_step s (Inr h) s2"
        using start w2 n' update_handles [of "waiting s" rp_sendPduHandle p h] AList.distinct_update [of "waiting s" h p]
        by (auto simp: sent_step_def handles_kept_def AList.dom_update p_def)
      let ?prep = "scatch (mh_prepareOutgoingMessage mpHandler rq h)
        (reraise_PySnmpError (sbind (cache_pop h) (\<lambda>_. releaseStateInformation denv h (sq_messageProcessingModel rq))))"
      obtain r3 s3 where prep: "?prep s2 = (r3, s3)" by (meson surj_pair)
      note s3 = guarded_step [OF subsystem_apart(1,2) [OF ok sub] s2 pop_release_gone [OF ok] prep]
      have send: "sendPdu denv rq s = (case r3 of Inl e \<Rightarrow> (Inl e, s3)
        | Inr (td, a, msg) \<Rightarrow> sbind (scatch (tr_sendMessage t msg td a)
             (reraise_PySnmpError (sbind (cache_pop h) (\<lambda>_. sret ())))) (\<lambda>_.
             sbind (cache_update h (\<lambda>p. p\<lparr>rp_sent := Some rq\<rparr>)) (\<lambda>_. sret h)) s3)"
        using assms(3) sub t n h add prep
        by (simp add: sendPdu_def sbind_def the_transport_def sret_def sget_def flip: p_def split: sum.splits)
      show ?thesis
      proof (cases r3)
        case (Inl e)
        with s3 send assms(4) show ?thesis by (auto intro: any)
      next
        case (Inr x)
        obtain td a msg where x: "x = (td, a, msg)" using prod_cases3 by blast
        have s3: "sent_step s (Inr h) s3" using s3 Inr by simp
        have tr: "aside (tr_sendMessage t msg td a)" "polite (tr_sendMessage t msg td a)"
          using ok t by (auto simp: apart_def)
        obtain r4 s4 where snd_: "scatch (tr_sendMessage t msg td a)
          (reraise_PySnmpError (sbind (cache_pop h) (\<lambda>_. sret ()))) s3 = (r4, s4)" by (meson surj_pair)
        note s4 = guarded_step [OF tr s3 pop_unit_gone snd_]
        show ?thesis
        proof (cases r4)
          case (Inl e)
          with s4 send Inr x snd_ assms(4) show ?thesis by (auto simp: sbind_def intro: any)
        next
          case r4: (Inr u)
          then have s4: "sent_step s (Inr h) s4" using s4 by simp
          show ?thesis
          proof (cases "map_of (waiting s4) h")
            case None
            then have "h \<notin> fst ` set (waiting s4)" by (simp add: map_of_eq_None_iff)
            then have "sent_step s (Inl ProtocolError) s4" using s4 by (auto simp: sent_step_def)
            moreover have "r = Inl ProtocolError" "waiting s' = waiting s4" "snd s' = snd s4"
              using None send Inr x snd_ r4 assms(4)
              by (auto simp: sbind_def cache_update_def req_update_def)
            ultimately show ?thesis using sent_step_aside [of s' s4 s] by simp
          next
            case (Some q)
            let ?q = "q\<lparr>rp_sent := Some rq\<rparr>"
            have s': "r = Inr h" "waiting s' = AList.update h ?q (waiting s4)" "snd s' = snd s4"
              using Some send Inr x snd_ r4 assms(4)
              by (auto simp: sbind_def cache_update_def req_update_def sret_def)
            have "rp_sendPduHandle ?q = h" using s4 map_of_SomeD [OF Some] by (auto simp: sent_step_def handles_kept_def)
            then show ?thesis
              using s4 s' update_handles [of "waiting s4" rp_sendPduHandle ?q h] AList.distinct_update [of "waiting s4" h ?q]
              by (auto simp: sent_step_def handles_kept_def AList.dom_update)
          qed
        qed
      qed
    qed
  qed
qed

section \<open>The generator\<close>

text \<open>The generator's environment on a dispatcher, and the dispatcher's with the generator.\<close>

definition on_dispatcher :: "(('k, 'addr, 'w) gen_engine, 'k gen_call, 'addr) denv \<Rightarrow>
    ('k, 'addr, ('k gen_call, 'addr) dispatcher, 'w) cg_env \<Rightarrow> bool" where
  "on_dispatcher denv env \<longleftrightarrow> apart denv \<and> ge_sendPdu env = sendPdu denv \<and>
     (\<forall>t. aside (ge_getTargetInfo env t)) \<and> (\<forall>k a. adds (ge_app env k a))"

definition with_generator :: "(('k, 'addr, 'w) gen_engine, 'k gen_call, 'addr) denv \<Rightarrow>
    ('k, 'addr, ('k gen_call, 'addr) dispatcher, 'w) cg_env \<Rightarrow>
    (('k, 'addr, 'w) gen_engine, 'k gen_call, 'addr) denv" where
  "with_generator denv env = denv\<lparr>en_callback := processResponsePdu env\<rparr>"

lemma in_step_handles: "in_step s \<Longrightarrow> handles_kept s"
  by (auto simp: in_step_def handles_kept_def)

lemma sent_in_step':
  assumes "in_step s" and "sent_step s r s1" and "waiting t = waiting s1" and "known s \<union> {h. r = Inr h} \<subseteq> known t"
  shows "in_step t"
  unfolding in_step_def
proof (intro conjI ballI)
  show "distinct (map fst (waiting t))" using assms(2,3) by (simp add: sent_step_def handles_kept_def)
  fix x
  assume "x \<in> set (waiting t)"
  then have x: "x \<in> set (waiting s1)" using assms(3) by simp
  then have "rp_sendPduHandle (snd x) = fst x" using assms(2) by (auto simp: sent_step_def handles_kept_def)
  moreover have "fst ` set (waiting s) \<subseteq> known s" using assms(1) by (auto simp: in_step_def)
  then have "fst ` set (waiting s1) \<subseteq> known s \<union> {h. r = Inr h}" using assms(2) unfolding sent_step_def by blast
  from subsetD [OF this imageI [OF x]] have "fst x \<in> known t" using assms(4) by (rule subsetD [rotated])
  ultimately show "case x of (h, p) \<Rightarrow> rp_sendPduHandle p = h \<and> h \<in> known t" by (simp add: case_prod_beta)
qed

lemma sent_in_step:
  assumes "in_step s" and "sent_step s r s1" and "isl r"
  shows "in_step s1"
proof (rule sent_in_step' [OF assms(1,2) refl])
  have "fst (snd s1) = fst (snd s)" using assms(2) by (simp add: sent_step_def)
  with assms(3) show "known s \<union> {h. r = Inr h} \<subseteq> known s1" by auto
qed

lemma adds_gen_modify:
  assumes "\<And>g. cg_pendingReqs (f g) = cg_pendingReqs g"
  shows "adds (gen_modify f)"
  unfolding gen_modify_def by (rule adds_on_gen) (simp add: smodify_def assms)

lemma adds_dispatch_command:
  fixes env :: "('k, 'addr, ('k gen_call, 'addr) dispatcher, 'w) cg_env"
  assumes "on_dispatcher denv env"
  shows "adds (dispatch_command env p reqPDU c)"
  unfolding adds_def
proof (intro allI impI)
  fix s :: "('k, 'addr, 'w) gen_engine"
  assume J: "in_step s"
  obtain r s1 where snd_: "sendPdu denv (dispatched p reqPDU c) s = (r, s1)" by (meson surj_pair)
  have ok: "apart denv" "ge_sendPdu env = sendPdu denv" using assms by (simp_all add: on_dispatcher_def)
  have "sq_expectResponse (dispatched p reqPDU c)" by (simp add: dispatched_def)
  note st = sendPdu_step [OF ok(1) in_step_handles [OF J] this snd_]
  obtain d1 g1 w1 where s1: "s1 = (d1, g1, w1)" by (metis surj_pair)
  show "in_step (snd (dispatch_command env p reqPDU c s)) \<and> known s \<subseteq> known (snd (dispatch_command env p reqPDU c s))"
  proof (cases r)
    case (Inl e)
    then have "snd (dispatch_command env p reqPDU c s) = s1" using snd_ by (simp add: dispatch_command_def sbind_def ok(2))
    moreover have "in_step s1" by (rule sent_in_step [OF J st]) (simp add: Inl)
    ultimately show ?thesis using st by (simp add: sent_step_def)
  next
    case (Inr h)
    let ?t = "(d1, g1\<lparr>cg_jobs := cg_jobs g1 + 1, cg_pendingReqs := (cg_pendingReqs g1)(h \<mapsto> p)\<rparr>, w1)"
    have "snd (dispatch_command env p reqPDU c s) = ?t"
      using Inr snd_ by (simp add: dispatch_command_def sbind_def ok(2) s1)
    moreover have "known ?t = insert h (known s)" using st s1 by (simp add: sent_step_def)
    then have "in_step ?t" by (intro sent_in_step' [OF J st]) (simp_all add: s1 Inr)
    ultimately show ?thesis using st s1 by (auto simp: sent_step_def)
  qed
qed

lemma adds_draws [simp]: "adds getNextHandle" "adds (on_requestIDs m)"
  unfolding getNextHandle_def on_requestIDs_def
  by (rule adds_on_gen; simp add: draw_def split: prod.split)+

lemma adds_sendCommand:
  assumes "on_dispatcher denv env"
  shows "adds (sendCommand env t ce cn PDU cb)"
  unfolding sendCommand_def
  using assms by (intro adds_sbind adds_basic adds_draws adds_dispatch_command [OF assms] aside_adds) (simp add: on_dispatcher_def)

lemma adds_sends:
  assumes "on_dispatcher denv env"
  shows "adds (get_sendVarBinds env t ce cn vbs k)" and "adds (set_sendVarBinds env t ce cn vbs k)"
    and "adds (next_sendVarBinds env walk t ce cn vbs k)" and "adds (bulk_sendVarBinds env walk t ce cn n m vbs k)"
  unfolding get_sendVarBinds_def set_sendVarBinds_def next_sendVarBinds_def bulk_sendVarBinds_def Let_def
  by (intro adds_sbind adds_basic adds_draws adds_sendCommand [OF assms])+

lemma adds_processResponseVarBinds:
  assumes "on_dispatcher denv env"
  shows "adds (processResponseVarBinds env sh e PDU cb)"
proof -
  have app: "adds (ge_app env k a)" for k a using assms by (simp add: on_dispatcher_def)
  have tell: "adds (tell env sh e k)" and hand: "adds (hand_over env sh x p k)" for e k x p
    unfolding tell_def hand_over_def by (intro adds_sbind adds_basic app)+
  have walk: "adds (continue_walk env ctx c k sh p t nxt)" for ctx c k p t nxt
    unfolding continue_walk_def Let_def
    by (intro adds_sbind adds_scatch adds_basic app adds_draws adds_sendCommand [OF assms])
      (auto intro!: adds_sbind adds_scatch app adds_sendCommand [OF assms] tell split: prod.split exn.split option.split)
  show ?thesis
    unfolding processResponseVarBinds_def
    by (auto simp: no_PDU_def Let_def intro!: tell hand walk split: gen_cb.split option.split)
qed

section \<open>What the dispatcher does\<close>

text \<open>An operation that may use up the request under \<open>h\<close>, and only that.\<close>

definition settles :: "nat \<Rightarrow> (('k, 'addr, 'w) gen_engine, 'a) sm \<Rightarrow> bool" where
  "settles h m \<longleftrightarrow> (\<forall>s r s'. in_step s \<longrightarrow> h \<in> known s \<longrightarrow> m s = (r, s') \<longrightarrow>
     in_step s' \<and> known s - {h} \<subseteq> known s')"

lemma settlesD: "settles h m \<Longrightarrow> in_step s \<Longrightarrow> h \<in> known s \<Longrightarrow> m s = (r, s') \<Longrightarrow> in_step s' \<and> known s - {h} \<subseteq> known s'"
  unfolding settles_def by blast

lemma in_step_fewer:
  assumes "in_step s" and "set (waiting s') \<subseteq> set (waiting s)" and "distinct (map fst (waiting s'))" and "known s' = known s"
  shows "in_step s'"
  using assms unfolding in_step_def by blast

lemma adds_jobFinished: "adds jobFinished"
  unfolding jobFinished_def by (rule adds_on_gen) simp

lemma processResponsePdu_settles:
  assumes "on_dispatcher denv env" and "in_step s" and "h \<in> known s" and "h \<notin> fst ` set (waiting s)"
    and "processResponsePdu env c de st h s = (r, s')"
  shows "in_step s' \<and> known s - {h} \<subseteq> known s'"
proof -
  obtain d g w where s: "s = (d, g, w)" by (metis surj_pair)
  obtain p where p: "cg_pendingReqs g h = Some p" using assms(3) s by auto
  let ?s = "(d, g\<lparr>cg_pendingReqs := (cg_pendingReqs g)(h := None)\<rparr>, w)"
  have J: "in_step ?s" using assms(2,4) unfolding in_step_def s by (auto simp: image_iff)
  have V: "adds (processResponseVarBinds env sh e PDU cb)" for sh e PDU cb by (rule adds_processResponseVarBinds [OF assms(1)])
  have F: "adds (request_failed env p st c)" for st
    unfolding request_failed_def Let_def
    by (auto intro!: adds_sbind adds_scatch V adds_dispatch_command [OF assms(1)] split: option.split exn.split)
  have A: "adds (response_arrived env p de c)" for de
    unfolding response_arrived_def response_PDU_def
    by (auto intro!: adds_sbind V adds_draws split: v1_pdu.split)
  have "adds (sbind jobFinished (\<lambda>_. case (st, de) of
      (Some st, _) \<Rightarrow> request_failed env p st c | (None, Some de) \<Rightarrow> response_arrived env p de c | (None, None) \<Rightarrow> no_PDU))"
    by (intro adds_sbind adds_jobFinished) (auto simp: no_PDU_def intro: F A split: option.split)
  moreover have "sbind jobFinished (\<lambda>_. case (st, de) of
      (Some st, _) \<Rightarrow> request_failed env p st c | (None, Some de) \<Rightarrow> response_arrived env p de c | (None, None) \<Rightarrow> no_PDU) ?s = (r, s')"
    using assms(5) p unfolding s by (simp add: processResponsePdu_def sbind_def)
  ultimately have "in_step s' \<and> known ?s \<subseteq> known s'" using addsD J by blast
  moreover have "known ?s = known s - {h}" by (auto simp: s split: if_splits)
  ultimately show ?thesis by simp
qed

lemma release_with_generator [simp]:
  "releaseStateInformation (with_generator denv env) h m = releaseStateInformation denv h m"
  by (simp add: releaseStateInformation_def with_generator_def)

lemma expireRequest_settles:
  assumes "on_dispatcher denv env" and "rp_sendPduHandle p = h"
  shows "settles h (expireRequest (with_generator denv env) (Some p) st)"
  unfolding settles_def
proof (intro allI impI)
  fix s r s'
  assume J: "in_step s" and h: "h \<in> known s" and run: "expireRequest (with_generator denv env) (Some p) st s = (r, s')"
  have ok: "apart denv" using assms(1) by (simp add: on_dispatcher_def)
  let ?st = "case st of None \<Rightarrow> no_details\<lparr>si_errorIndication := Some requestTimedOut\<rparr> | Some s \<Rightarrow> s"
  obtain r1 s1 where rel: "releaseStateInformation denv h (rp_messageProcessingModel p) s = (r1, s1)" by (meson surj_pair)
  note st1 = release_step [OF ok rel]
  have J1: "in_step s1" and k1: "known s1 = known s"
    using in_step_fewer [OF J, of s1] st1 J by (simp_all add: in_step_def)
  have "s' = s \<or> (isl r1 \<and> s' = s1) \<or>
      (r1 = Inr () \<and> (\<exists>r2. processResponsePdu env (rp_cbFun p) None (Some ?st) h s1 = (r2, s')))"
    using run rel assms(2)
    by (cases r1; cases "processResponsePdu env (rp_cbFun p) None (Some ?st) h s1"; cases "fst (processResponsePdu env (rp_cbFun p) None (Some ?st) h s1)")
      (auto simp: expireRequest_def the_transport_def sbind_def sget_def sret_def sraise_def with_generator_def Let_def
        releaseStateInformation_def split: option.splits if_splits)
  then show "in_step s' \<and> known s - {h} \<subseteq> known s'"
  proof (elim disjE conjE exE)
    assume "s' = s"
    then show ?thesis using J by auto
  next
    assume "isl r1" "s' = s1"
    then show ?thesis using J1 k1 by auto
  next
    fix r2
    assume "r1 = Inr ()" and cb: "processResponsePdu env (rp_cbFun p) None (Some ?st) h s1 = (r2, s')"
    then have "h \<notin> fst ` set (waiting s1)" using st1 by simp
    from processResponsePdu_settles [OF assms(1) J1 _ this cb] h k1 show ?thesis by simp
  qed
qed

text \<open>Operations that keep the two in step.\<close>

definition keeps_step :: "(('k, 'addr, 'w) gen_engine, 'a) sm \<Rightarrow> bool" where
  "keeps_step m \<longleftrightarrow> (\<forall>s. in_step s \<longrightarrow> in_step (snd (m s)))"

lemma adds_keeps: "adds m \<Longrightarrow> keeps_step m"
  by (simp add: adds_def keeps_step_def)

lemma keeps_stepD: "keeps_step m \<Longrightarrow> in_step s \<Longrightarrow> m s = (r, s') \<Longrightarrow> in_step s'"
  by (metis keeps_step_def snd_conv)

lemma keeps_step_sbind:
  fixes m :: "(('k, 'addr, 'w) gen_engine, 'a) sm"
  assumes "keeps_step m" and "\<And>x. keeps_step (f x)"
  shows "keeps_step (sbind m f)"
  unfolding keeps_step_def
proof (intro allI impI)
  fix s :: "('k, 'addr, 'w) gen_engine"
  assume J: "in_step s"
  obtain r1 s1 where m: "m s = (r1, s1)" by (meson surj_pair)
  note 1 = keeps_stepD [OF assms(1) J m]
  show "in_step (snd (sbind m f s))"
  proof (cases r1)
    case (Inl e)
    with 1 m show ?thesis by (simp add: sbind_def)
  next
    case (Inr x)
    have "in_step (snd (f x s1))" using assms(2) 1 unfolding keeps_step_def by blast
    with Inr m show ?thesis by (simp add: sbind_def)
  qed
qed

lemma in_step_delete: "in_step s \<Longrightarrow> in_step ((fst s)\<lparr>ds_cache := AList.delete h (waiting s)\<rparr>, snd s)"
  by (rule in_step_fewer) (auto simp: set_delete distinct_delete in_step_def)

lemma delete_keeps: "adds (dmodify (\<lambda>d. d\<lparr>ds_cache := AList.delete h (ds_cache d)\<rparr>))"
  unfolding adds_def dmodify_def smodify_def using in_step_delete by fastforce

lemma sweep_in_step:
  assumes "\<And>p. settles (rp_sendPduHandle p) (f p)" and "in_step s" and "distinct (map fst xs)"
    and "\<forall>(h, p) \<in> set xs. rp_sendPduHandle p = h \<and> h \<in> known s"
  shows "in_step (snd (cache_expire f xs s))"
  using assms(2-)
proof (induction xs arbitrary: s)
  case Nil
  then show ?case by (simp add: sret_def)
next
  case (Cons x xs)
  obtain h p where x: "x = (h, p)" by fastforce
  have p: "rp_sendPduHandle p = h" "h \<in> known s" using Cons.prems(3) x by auto
  obtain r1 s1 where f: "f p s = (r1, s1)" by (meson surj_pair)
  have 1: "in_step s1" "known s - {h} \<subseteq> known s1"
    using settlesD [OF assms(1) Cons.prems(1) _ f] p by simp_all
  show ?case
  proof (cases r1)
    case (Inl e)
    with f 1 show ?thesis by (simp add: x sbind_def)
  next
    case (Inr b)
    let ?s2 = "if b then ((fst s1)\<lparr>ds_cache := AList.delete h (waiting s1)\<rparr>, snd s1) else s1"
    have "in_step ?s2" "known ?s2 = known s1" using 1(1) in_step_delete [of s1 h] by simp_all
    moreover have "snd (cache_expire f (x # xs) s) = snd (cache_expire f xs ?s2)"
      using f Inr by (simp add: x sbind_def dmodify_def smodify_def sret_def)
    moreover have "\<forall>(h', p') \<in> set xs. rp_sendPduHandle p' = h' \<and> h' \<in> known s1"
    proof (intro ballI)
      fix y
      assume y: "y \<in> set xs"
      then have "fst y \<noteq> h" using Cons.prems(2) x by (auto simp: image_iff)
      moreover have "rp_sendPduHandle (snd y) = fst y" "fst y \<in> known s" using y Cons.prems(3) by auto
      ultimately show "case y of (h', p') \<Rightarrow> rp_sendPduHandle p' = h' \<and> h' \<in> known s1"
        using 1(2) by (auto simp: case_prod_beta)
    qed
    ultimately show ?thesis using Cons.IH [of ?s2] Cons.prems(2) by simp
  qed
qed

lemma cache_sweep_keeps:
  fixes f :: "('k gen_call, 'addr) req_params \<Rightarrow> (('k, 'addr, 'w) gen_engine, bool) sm"
  assumes "\<And>p. settles (rp_sendPduHandle p) (f p)"
  shows "keeps_step (sbind (dget_state ds_cache) (cache_expire f))"
  unfolding keeps_step_def
proof (intro allI impI)
  fix s :: "('k, 'addr, 'w) gen_engine"
  assume J: "in_step s"
  then have "in_step (snd (cache_expire f (waiting s) s))"
    by (intro sweep_in_step [OF assms]) (auto simp: in_step_def)
  then show "in_step (snd (sbind (dget_state ds_cache) (cache_expire f) s))"
    by (simp add: sbind_def dget_state_def sget_def)
qed

lemma timer_keeps:
  assumes "on_dispatcher denv env"
  shows "keeps_step (receiveTimerTick (with_generator denv env))"
  unfolding receiveTimerTick_def by (rule cache_sweep_keeps) (rule expireRequest_settles [OF assms refl])

lemma settles_if: "settles h m \<Longrightarrow> settles h (if b then sret x else m)"
  by (auto simp: settles_def sret_def)

lemma transport_error_keeps:
  assumes "on_dispatcher denv env"
  shows "keeps_step (receiveTransportError (with_generator denv env) td a)"
  unfolding receiveTransportError_def Let_def
  by (rule cache_sweep_keeps) (intro settles_if expireRequest_settles [OF assms refl])

lemma pop_entry:
  assumes "in_step s" and "cache_pop h s = (r, s1)"
  shows "in_step s1" and "known s1 = known s" and "h \<notin> fst ` set (waiting s1)"
    and "r = Inr (map_of (waiting s) h)" and "map_of (waiting s) h = Some p \<Longrightarrow> rp_sendPduHandle p = h \<and> h \<in> known s"
  using assms in_step_delete [OF assms(1), of h] map_of_SomeD [of "waiting s" h p]
  by (auto simp: cache_pop_eq set_delete in_step_def)

lemma deliver_keeps:
  assumes "on_dispatcher denv env"
  shows "keeps_step (deliver_response (with_generator denv env) de h)"
  unfolding keeps_step_def
proof (intro allI impI)
  fix s :: "('a, 'b, 'c) gen_engine"
  assume J: "in_step s"
  obtain r s1 where pop: "cache_pop h s = (r, s1)" by (meson surj_pair)
  note e = pop_entry [OF J pop]
  show "in_step (snd (deliver_response (with_generator denv env) de h s))"
  proof (cases "map_of (waiting s) h")
    case None
    with e(1,4) pop show ?thesis
      by (simp add: deliver_response_def sbind_def dmodify_def smodify_def in_step_def)
  next
    case (Some p)
    obtain r2 s2 where cb: "processResponsePdu env (rp_cbFun p) (Some de) (de_statusInformation de) h s1 = (r2, s2)"
      by (meson surj_pair)
    have "in_step s2" using processResponsePdu_settles [OF assms e(1) _ e(3) cb] e(2) e(5) [OF Some] by simp
    with Some e(4,5) pop cb show ?thesis by (simp add: deliver_response_def sbind_def with_generator_def)
  qed
qed

lemma failure_keeps:
  assumes "on_dispatcher denv env"
  shows "keeps_step (mp_failure (with_generator denv env) e)"
proof (cases "\<exists>st h. e = StatusInformation st \<and> si_sendPduHandle st = Some h")
  case False
  then show ?thesis
    by (cases e) (auto simp: mp_failure_def intro!: adds_keeps adds_dmodify split: option.split)
next
  case True
  then obtain st h where e: "e = StatusInformation st" "si_sendPduHandle st = Some h" by blast
  show ?thesis
    unfolding keeps_step_def
  proof (intro allI impI)
    fix s :: "('a, 'b, 'c) gen_engine"
    assume J: "in_step s"
    obtain r s1 where pop: "cache_pop h s = (r, s1)" by (meson surj_pair)
    note en = pop_entry [OF J pop]
    obtain r2 s2 where ex: "expireRequest (with_generator denv env) (map_of (waiting s) h) (Some st) s1 = (r2, s2)"
      by (meson surj_pair)
    have "in_step s2"
    proof (cases "map_of (waiting s) h")
      case None
      with ex en(1) show ?thesis
        by (auto simp: expireRequest_def the_transport_def sbind_def sget_def sret_def sraise_def split: option.splits)
    next
      case (Some p)
      from settlesD [OF expireRequest_settles [OF assms refl] en(1) _ ex [unfolded Some]] en(2,5) Some
      show ?thesis by simp
    qed
    moreover have "snd (mp_failure (with_generator denv env) e s) = s2"
      using e pop en(4) ex by (cases r2) (simp_all add: mp_failure_def sbind_def sret_def)
    ultimately show "in_step (snd (mp_failure (with_generator denv env) e s))" by simp
  qed
qed

lemma with_generator_fields [simp]:
  "en_subsystems (with_generator denv env) = en_subsystems denv"
  "en_transport (with_generator denv env) = en_transport denv"
  "en_processPdu (with_generator denv env) = en_processPdu denv"
  "en_decodeMessageVersion (with_generator denv env) = en_decodeMessageVersion denv"
  by (simp_all add: with_generator_def)

lemma dispatch_keeps:
  assumes "on_dispatcher denv env" and "map_of (en_subsystems denv) m = Some mpHandler"
  shows "keeps_step (dispatch_pdu (with_generator denv env) mpHandler td a de)"
proof (cases "de_sendPduHandle de")
  case (Some h)
  then show ?thesis using deliver_keeps [OF assms(1)] by (simp add: dispatch_pdu_def)
next
  case None
  have ok: "apart denv" using assms(1) by (simp add: on_dispatcher_def)
  note sub = aside_adds [OF subsystem_apart(4) [OF ok assms(2)]]
  have tr: "adds (tr_sendMessage t msg td a)" "adds (tr_runDeferred t r)" if "en_transport denv = Some t" for t msg td a r
    using ok that by (auto simp: apart_def intro: aside_adds)
  have app: "adds (en_processPdu denv k de)" for k using ok unfolding apart_def by blast
  have the: "adds (sbind (the_transport (with_generator denv env)) (\<lambda>t. tr_sendMessage t msg td a))" for msg td a
    using tr(1) by (cases "en_transport denv") (simp_all add: the_transport_def sbind_def sraise_def adds_def sret_def)
  have info: "adds (set_transportInfo r td a)" "adds (del_transportInfo r)" "adds (abandonRequest r)" for r td a
    unfolding set_transportInfo_def del_transportInfo_def abandonRequest_def
    by (auto intro!: adds_sbind adds_dmodify split: option.split)
  have "adds (report_unknown_handler (with_generator denv env) mpHandler de)"
    unfolding report_unknown_handler_def
    by (intro adds_sbind adds_scatch adds_dmodify adds_dget sub) (auto intro!: adds_sbind the sub split: prod.split)
  moreover have "adds (serve_request (with_generator denv env) k td a de)" for k
    unfolding serve_request_def deferRequest_def
    by (auto intro!: adds_sbind adds_scatch info app tr(2) split: option.split)
  ultimately show ?thesis
    using None by (auto simp: dispatch_pdu_def intro!: adds_keeps adds_sbind split: option.split)
qed

lemma message_keeps:
  assumes "on_dispatcher denv env"
  shows "keeps_step (receiveMessage (with_generator denv env) td a wholeMsg)"
  unfolding receiveMessage_def
proof (intro keeps_step_sbind adds_keeps [OF adds_dmodify] adds_keeps [OF adds_basic(1)])
  show "keeps_step (case en_decodeMessageVersion (with_generator denv env) wholeMsg of
      Inl e \<Rightarrow> if is_ProtocolError e
        then dmodify (\<lambda>d. d\<lparr>ds_snmpInASNParseErrs := inc32 (ds_snmpInASNParseErrs d)\<rparr>) else sraise e
    | Inr msgVersion \<Rightarrow>
        (case map_of (en_subsystems (with_generator denv env)) msgVersion of
           None \<Rightarrow> dmodify (\<lambda>d. d\<lparr>ds_snmpInBadVersions := inc32 (ds_snmpInBadVersions d)\<rparr>)
         | Some mpHandler \<Rightarrow> (\<lambda>s.
             (case mh_prepareDataElements mpHandler td a wholeMsg s of
                (Inl e, s') \<Rightarrow> mp_failure (with_generator denv env) e s'
              | (Inr de, s') \<Rightarrow> dispatch_pdu (with_generator denv env) mpHandler td a de s'))))"
  proof (cases "en_decodeMessageVersion denv wholeMsg")
    case (Inl e)
    then show ?thesis by (auto intro!: adds_keeps adds_dmodify)
  next
    case (Inr v)
    show ?thesis
    proof (cases "map_of (en_subsystems denv) v")
      case None
      with Inr show ?thesis by (auto intro!: adds_keeps adds_dmodify)
    next
      case (Some h)
      have "apart denv" using assms by (simp add: on_dispatcher_def)
      note as = subsystem_apart(5) [OF this Some, of td a wholeMsg]
      have "in_step (snd (case mh_prepareDataElements h td a wholeMsg s of
                (Inl e, s') \<Rightarrow> mp_failure (with_generator denv env) e s'
              | (Inr de, s') \<Rightarrow> dispatch_pdu (with_generator denv env) h td a de s'))" if J: "in_step s" for s
      proof -
        obtain r1 s1 where m: "mh_prepareDataElements h td a wholeMsg s = (r1, s1)" by (meson surj_pair)
        have "in_step s1" using addsD [OF aside_adds [OF as] J m] by blast
        then have "in_step (snd (mp_failure (with_generator denv env) e s1))"
          "in_step (snd (dispatch_pdu (with_generator denv env) h td a de s1))" for e de
          using failure_keeps [OF assms] dispatch_keeps [OF assms Some] unfolding keeps_step_def by blast+
        with m show ?thesis by (cases r1) simp_all
      qed
      with Inr Some show ?thesis by (simp add: keeps_step_def)
    qed
  qed
qed simp

section \<open>The engine at work\<close>

text \<open>Everything the application and the network do to an engine that starts with nothing under way.\<close>

inductive gen_reach :: "(('k, 'addr, 'w) gen_engine, 'k gen_call, 'addr) denv \<Rightarrow>
    ('k, 'addr, ('k gen_call, 'addr) dispatcher, 'w) cg_env \<Rightarrow> ('k, 'addr, 'w) gen_engine \<Rightarrow> bool"
  for denv env where
  start: "waiting s = [] \<Longrightarrow> gen_reach denv env s"
| get: "gen_reach denv env s \<Longrightarrow> gen_reach denv env (snd (get_sendVarBinds env t ce cn vbs k s))"
| set: "gen_reach denv env s \<Longrightarrow> gen_reach denv env (snd (set_sendVarBinds env t ce cn vbs k s))"
| getnext: "gen_reach denv env s \<Longrightarrow> gen_reach denv env (snd (next_sendVarBinds env walk t ce cn vbs k s))"
| getbulk: "gen_reach denv env s \<Longrightarrow> gen_reach denv env (snd (bulk_sendVarBinds env walk t ce cn n m vbs k s))"
| tick: "gen_reach denv env s \<Longrightarrow> gen_reach denv env (snd (receiveTimerTick (with_generator denv env) s))"
| message: "gen_reach denv env s \<Longrightarrow> gen_reach denv env (snd (receiveMessage (with_generator denv env) td a msg s))"
| failed_peer: "gen_reach denv env s \<Longrightarrow> gen_reach denv env (snd (receiveTransportError (with_generator denv env) td a s))"

text \<open>
  The dispatcher and the command generator never lose track of each other. Whatever requests are
  made, whatever messages arrive, be they responses, reports, requests or garbage, and however
  the timer and the transports interfere, every request the dispatcher waits for is one that
  the generator has pending under the same handle. So no response, time-out or failure is ever
  refused as one of an unknown request; and this needs no assumption on the handles drawn.
\<close>

theorem generator_knows_requests:
  assumes "on_dispatcher denv env" and "gen_reach denv env s" and "(h, p) \<in> set (ds_cache (fst s))"
  shows "rp_sendPduHandle p = h \<and> (\<exists>c. cg_pendingReqs (fst (snd s)) h = Some c)"
proof -
  from assms(2) have "in_step s"
  proof induction
    case (start s)
    then show ?case by (simp add: in_step_def)
  next
    case (get s t ce cn vbs k)
    then show ?case using adds_sends(1) [OF assms(1)] unfolding adds_def by blast
  next
    case (set s t ce cn vbs k)
    then show ?case using adds_sends(2) [OF assms(1)] unfolding adds_def by blast
  next
    case (getnext s walk t ce cn vbs k)
    then show ?case using adds_sends(3) [OF assms(1)] unfolding adds_def by blast
  next
    case (getbulk s walk t ce cn n m vbs k)
    then show ?case using adds_sends(4) [OF assms(1)] unfolding adds_def by blast
  next
    case (tick s)
    then show ?case using timer_keeps [OF assms(1)] unfolding keeps_step_def by blast
  next
    case (message s td a msg)
    then show ?case using message_keeps [OF assms(1)] unfolding keeps_step_def by blast
  next
    case (failed_peer s td a)
    then show ?case using transport_error_keeps [OF assms(1)] unfolding keeps_step_def by blast
  qed
  with assms(3) show ?thesis by (auto simp: in_step_def)
qed

text \<open>The dispatcher's sample environment, with the generator on it.\<close>

definition sample_gen_env :: "(unit, nat, (unit gen_call, nat) dispatcher, answer list) cg_env" where
  "sample_gen_env = \<lparr>ge_getTargetInfo = (\<lambda>_. sret (sample_target\<lparr>ti_messageProcessingModel := 3\<rparr>)),
     ge_sendPdu = sendPdu sample_env, ge_app = (\<lambda>k a (d, g, w). (Inr True, d, g, w @ [a])),
     ge_discoveryRetries = 4, ge_ticks = id\<rparr>"

definition sample_gen_engine :: "(unit, nat, answer list) gen_engine" where
  "sample_gen_engine = (\<lparr>ds_cache = [], ds_appsRegistration = Map.empty,
     ds_sendPduHandle = \<lparr>ni_maximum = 10, ni_increment = 4, ni_threshold = 2, ni_bank = [1, 2, 3, 4]\<rparr>,
     ds_transportInfo = Map.empty, ds_snmpInPkts = 0, ds_snmpInASNParseErrs = 0,
     ds_snmpInBadVersions = 0, ds_snmpUnknownPDUHandlers = 0, ds_snmpSilentDrops = 0\<rparr>, sample_cmdgen, [])"

lemma sample_on_dispatcher: "on_dispatcher sample_env sample_gen_env"
  by (auto simp: on_dispatcher_def sample_gen_env_def sample_env_def sample_mp_def apart_def aside_def polite_def adds_def
      in_step_def sret_def sraise_def split: if_splits)

theorem generator_knows_requests_witness:
  "let s = snd (get_sendVarBinds sample_gen_env [116] None [] [([1, 3], None)] () sample_gen_engine) in
   map fst (ds_cache (fst s)) = [1] \<and> (\<exists>c. cg_pendingReqs (fst (snd s)) 1 = Some c)"
proof -
  let ?s = "snd (get_sendVarBinds sample_gen_env [116] None [] [([1, 3], None)] () sample_gen_engine)"
  have reach: "gen_reach sample_env sample_gen_env ?s"
    by (intro gen_reach.get gen_reach.start) (simp add: sample_gen_engine_def)
  have "map fst (ds_cache (fst ?s)) = [1]" by code_simp
  moreover from this obtain p where "(1, p) \<in> set (ds_cache (fst ?s))" by auto
  ultimately show ?thesis
    using generator_knows_requests [OF sample_on_dispatcher reach] by (metis (no_types, lifting))
qed

end
