(* ===== verification/Notify_Filter.thy ===== *)
theory Notify_Filter
  imports Vacm Pdu
begin

text \<open>
  The two computations a notification goes through before it is sent, of
  \<open>pysnmp/entity/rfc3413/ntforg.py\<close>: putting its bindings in order, and matching names against
  the filters of a target.

  The names of \<open>sysUpTime.0\<close> and \<open>snmpTrapOID.0\<close> are constants of \<open>Pdu\<close>; the present value of the
  former is an argument. What a mask leaves out is computed as by the access control model, so its
  definitions (\<open>Vacm\<close>) serve here, too.

  The lemmas show which order comes out, and that the filter that decides is the longest one that
  covers the name.
\<close>

section \<open>The order of the bindings\<close>

definition with_uptime :: "snmp_value \<Rightarrow> var_bind list \<Rightarrow> var_bind list" where
  "with_uptime uptime varBinds =
     (if varBinds = [] \<or> fst (hd varBinds) \<noteq> sysUpTime then (sysUpTime, uptime) # varBinds else varBinds)"

text \<open>The first binding of a name behind the first place, as the two loops find it.\<close>

definition find_behind :: "oid \<Rightarrow> var_bind list \<Rightarrow> (var_bind list \<times> var_bind \<times> var_bind list) option" where
  "find_behind name = List.extract (\<lambda>varBind. fst varBind = name)"

definition own_uptime :: "var_bind list \<Rightarrow> var_bind list" where
  "own_uptime ordered =
     (case ordered of
        [] \<Rightarrow> []
      | first # rest \<Rightarrow>
          (case find_behind sysUpTime rest of
             None \<Rightarrow> ordered
           | Some (before, varBind, after) \<Rightarrow> varBind # before @ after))"

definition trap_second :: "var_bind list \<Rightarrow> var_bind list res" where
  "trap_second ordered =
     (case ordered of
        [] \<Rightarrow> Inl PySnmpError
      | first # rest \<Rightarrow>
          (case find_behind snmpTrapOID rest of
             None \<Rightarrow> Inl PySnmpError
           | Some (before, varBind, after) \<Rightarrow> Inr (first # varBind # before @ after)))"

definition orderNotificationVarBinds :: "snmp_value \<Rightarrow> var_bind list \<Rightarrow> var_bind list res" where
  "orderNotificationVarBinds uptime varBinds = trap_second (own_uptime (with_uptime uptime varBinds))"

definition required_names :: "oid set" where
  "required_names = {sysUpTime, snmpTrapOID}"

lemma required_distinct: "sysUpTime \<noteq> snmpTrapOID"
  by (simp add: sysUpTime_def snmpTrapOID_def)

lemma find_behind_None: "find_behind name vbs = None \<longleftrightarrow> name \<notin> fst ` set vbs"
  by (auto simp: find_behind_def extract_None_iff)

lemma find_behind_Some:
  "find_behind name vbs = Some (xs, vb, ys) \<longleftrightarrow> vbs = xs @ vb # ys \<and> fst vb = name \<and> name \<notin> fst ` set xs"
  unfolding find_behind_def extract_Some_iff image_iff by auto

lemma filter_other_names: "name \<notin> fst ` set vbs \<Longrightarrow> filter (\<lambda>vb. fst vb \<noteq> name) vbs = vbs"
  by (induction vbs) auto

text \<open>One step of the ordering: the binding of a name comes to the front of the rest.\<close>

lemma find_behind_cases:
  assumes "distinct (map fst vbs)"
  obtains (none) "find_behind name vbs = None" "name \<notin> fst ` set vbs" "filter (\<lambda>vb. fst vb \<noteq> name) vbs = vbs"
      "map_of vbs name = None"
  | (some) xs v ys where "find_behind name vbs = Some (xs, (name, v), ys)" "map_of vbs name = Some v"
      "xs @ ys = filter (\<lambda>vb. fst vb \<noteq> name) vbs" "name \<in> fst ` set vbs"
proof (cases "find_behind name vbs")
  case None
  then have "name \<notin> fst ` set vbs" by (simp add: find_behind_None)
  then show ?thesis using none None by (auto simp: filter_other_names map_of_eq_None_iff)
next
  case (Some t)
  then obtain xs v ys where t: "find_behind name vbs = Some (xs, (name, v), ys)" and
    vbs: "vbs = xs @ (name, v) # ys" "name \<notin> fst ` set xs"
    by (cases t) (auto simp: find_behind_Some)
  with assms have "name \<notin> fst ` set ys" by auto
  with vbs have "xs @ ys = filter (\<lambda>vb. fst vb \<noteq> name) vbs" by (simp add: filter_other_names)
  moreover have "map_of vbs name = Some v" using vbs map_of_eq_None_iff [of xs name] by (simp add: map_add_def)
  moreover have "name \<in> fst ` set vbs" using vbs(1) by force
  ultimately show ?thesis using some t by blast
qed

lemma with_own_uptime:
  assumes "distinct (map fst vbs)"
  shows "own_uptime (with_uptime uptime vbs) =
    (sysUpTime, case map_of vbs sysUpTime of None \<Rightarrow> uptime | Some v \<Rightarrow> v) # filter (\<lambda>vb. fst vb \<noteq> sysUpTime) vbs"
proof (cases "vbs = [] \<or> fst (hd vbs) \<noteq> sysUpTime")
  case True
  then have w: "with_uptime uptime vbs = (sysUpTime, uptime) # vbs" by (simp add: with_uptime_def)
  show ?thesis
    by (rule find_behind_cases [OF assms, of sysUpTime]) (simp_all add: w own_uptime_def)
next
  case False
  then obtain v rest where vbs: "vbs = (sysUpTime, v) # rest" by (cases vbs) auto
  with assms have "sysUpTime \<notin> fst ` set rest" by auto
  then have "find_behind sysUpTime rest = None" "filter (\<lambda>vb. fst vb \<noteq> sysUpTime) rest = rest"
    by (simp_all add: find_behind_None filter_other_names)
  with vbs show ?thesis by (simp add: with_uptime_def own_uptime_def)
qed

text \<open>
  (C24) A notification whose names are all different is put into order as SNMPv2 wants it, or
  refused: without \<open>snmpTrapOID.0\<close> it is an error; otherwise \<open>sysUpTime.0\<close> comes first, with the
  caller's value if there is one and the present one if not, \<open>snmpTrapOID.0\<close> second with the caller's value,
  and then everything else, in the caller's order.
\<close>

theorem notification_order:
  assumes "distinct (map fst varBinds)"
  shows "orderNotificationVarBinds uptime varBinds =
    (case map_of varBinds snmpTrapOID of
       None \<Rightarrow> Inl PySnmpError
     | Some trap \<Rightarrow> Inr ((sysUpTime, case map_of varBinds sysUpTime of None \<Rightarrow> uptime | Some v \<Rightarrow> v) # (snmpTrapOID, trap) #
         filter (\<lambda>vb. fst vb \<notin> required_names) varBinds))"
proof -
  let ?rest = "filter (\<lambda>vb. fst vb \<noteq> sysUpTime) varBinds"
  have d: "distinct (map fst ?rest)" using assms by (simp add: distinct_map_filter)
  have m: "map_of ?rest snmpTrapOID = map_of varBinds snmpTrapOID"
    using required_distinct by (induction varBinds) auto
  have f: "filter (\<lambda>vb. fst vb \<noteq> snmpTrapOID) ?rest = filter (\<lambda>vb. fst vb \<notin> required_names) varBinds"
    unfolding filter_filter required_names_def by (rule filter_cong) auto
  let ?up = "case map_of varBinds sysUpTime of None \<Rightarrow> uptime | Some v \<Rightarrow> v"
  have o: "orderNotificationVarBinds uptime varBinds = trap_second ((sysUpTime, ?up) # ?rest)"
    by (simp only: orderNotificationVarBinds_def with_own_uptime [OF assms])
  show ?thesis
  proof (rule find_behind_cases [OF d, of snmpTrapOID])
    assume "find_behind snmpTrapOID ?rest = None" "map_of ?rest snmpTrapOID = None"
    then show ?thesis unfolding o m by (simp add: trap_second_def)
  next
    fix xs v ys
    assume "find_behind snmpTrapOID ?rest = Some (xs, (snmpTrapOID, v), ys)" "map_of ?rest snmpTrapOID = Some v"
      "xs @ ys = filter (\<lambda>vb. fst vb \<noteq> snmpTrapOID) ?rest"
    then show ?thesis unfolding o m f by (simp add: trap_second_def)
  qed
qed

lemma notification_order_witness:
  "orderNotificationVarBinds (VTimeTicks 7) [([1, 3], VNull), (snmpTrapOID, VObjectIdentifier [1, 3, 6]), ([1, 2], VInteger 1)] =
     Inr [(sysUpTime, VTimeTicks 7), (snmpTrapOID, VObjectIdentifier [1, 3, 6]), ([1, 3], VNull), ([1, 2], VInteger 1)]"
  using notification_order [of "[([1, 3], VNull), (snmpTrapOID, VObjectIdentifier [1, 3, 6]), ([1, 2], VInteger 1)]" "VTimeTicks 7"]
  by (simp add: snmpTrapOID_def sysUpTime_def required_names_def)

section \<open>Filters\<close>

type_synonym filter_entry = "oid \<times> octets \<times> int"

text \<open>The subtree as it was given, with zeros where the mask ignores it, those positions, and what a match means.\<close>

type_synonym prepared_entry = "oid \<times> oid \<times> nat list \<times> bool"

definition prepare_entry :: "filter_entry \<Rightarrow> prepared_entry res" where
  "prepare_entry e = (case e of (subtree, octs, filterType) \<Rightarrow>
     (let ign = ignored_subOids octs subtree in
      rbind (if ign \<noteq> [] then zero_at ign subtree else Inr subtree) (\<lambda>normalizedSubtree.
      Inr (subtree, normalizedSubtree, ign, filterType = 1))))"

fun prepare_entries :: "filter_entry list \<Rightarrow> prepared_entry list res" where
  "prepare_entries [] = Inr []"
| "prepare_entries (e # es) = rbind (prepare_entry e) (\<lambda>p. rbind (prepare_entries es) (\<lambda>ps. Inr (p # ps)))"

definition prepared_key :: "prepared_entry \<Rightarrow> nat \<times> oid" where
  "prepared_key e = (length (fst e), fst e)"

definition prepareFilterEntries :: "filter_entry list \<Rightarrow> prepared_entry list res" where
  "prepareFilterEntries filterEntries =
     rbind (prepare_entries filterEntries) (\<lambda>prepared. Inr (sort_key prepared_key prepared))"

fun match_walk :: "prepared_entry list \<Rightarrow> oid \<Rightarrow> bool option \<Rightarrow> bool option res" where
  "match_walk [] name result = Inr result"
| "match_walk ((originalSubtree, subtree, ign, included) # es) name result =
     (if length name < length originalSubtree then match_walk es name result
      else rbind (if ign \<noteq> [] then zero_at ign name else Inr name) (\<lambda>normalizedOid.
        match_walk es name (if is_prefix subtree normalizedOid then Some included else result)))"

definition matchPreparedFilter :: "prepared_entry list \<Rightarrow> oid \<Rightarrow> bool option res" where
  "matchPreparedFilter preparedEntries name = match_walk preparedEntries name None"

definition matchFilter :: "filter_entry list \<Rightarrow> oid \<Rightarrow> bool option res" where
  "matchFilter filterEntries name =
     rbind (prepareFilterEntries filterEntries) (\<lambda>preparedEntries. matchPreparedFilter preparedEntries name)"

text \<open>An entry once more as what it stands for, and what it covers.\<close>

definition as_prepared :: "filter_entry \<Rightarrow> prepared_entry" where
  "as_prepared e = (case e of (subtree, octs, filterType) \<Rightarrow>
     (subtree, zero_all (ignored_subOids octs subtree) subtree, ignored_subOids octs subtree, filterType = 1))"

definition filter_covers :: "oid \<Rightarrow> filter_entry \<Rightarrow> bool" where
  "filter_covers name e \<longleftrightarrow> in_family (fst e) (fst (snd e)) name"

definition entry_key :: "filter_entry \<Rightarrow> nat \<times> oid" where
  "entry_key e = (length (fst e), fst e)"

definition includes_name :: "filter_entry \<Rightarrow> bool" where
  "includes_name e \<longleftrightarrow> snd (snd e) = 1"

lemma prepare_entry_eq: "prepare_entry e = Inr (as_prepared e)"
  by (cases e) (simp add: prepare_entry_def as_prepared_def zero_at_if zero_at_eq ignored_iff Let_def)

lemma prepare_entries_eq: "prepare_entries es = Inr (map as_prepared es)"
  by (induction es) (simp_all add: prepare_entry_eq)

lemma prepareFilterEntries_eq: "prepareFilterEntries es = Inr (map as_prepared (sort_key entry_key es))"
proof -
  have "prepared_key (as_prepared e) = entry_key e" for e
    by (cases e) (simp add: prepared_key_def as_prepared_def entry_key_def)
  then show ?thesis by (simp add: prepareFilterEntries_def prepare_entries_eq sort_key_map)
qed

lemma as_prepared_matches:
  assumes "length (fst e) \<le> length name"
  shows "is_prefix (fst (snd (as_prepared e))) (zero_all (fst (snd (snd (as_prepared e)))) name) \<longleftrightarrow> filter_covers name e"
  using assms by (cases e) (auto simp: as_prepared_def filter_covers_def is_prefix_nth in_family_def ignored_iff)

lemma match_walk_prepared:
  "match_walk (map as_prepared es) name r =
     Inr (fold (\<lambda>e acc. if filter_covers name e then Some (includes_name e) else acc) es r)"
proof (induction es arbitrary: r)
  case (Cons e es)
  obtain subtree octs t where e: "e = (subtree, octs, t)" by (metis surj_pair)
  have "zero_at (ignored_subOids octs subtree) name = Inr (zero_all (ignored_subOids octs subtree) name)"
    if "length subtree \<le> length name" using that by (auto simp: zero_at_eq ignored_iff)
  moreover have "\<not> filter_covers name e" if "length name < length subtree"
    using that by (simp add: e filter_covers_def in_family_def)
  moreover have "as_prepared e = (subtree, zero_all (ignored_subOids octs subtree) subtree, ignored_subOids octs subtree, t = 1)"
    "includes_name e \<longleftrightarrow> t = 1" by (simp_all add: e as_prepared_def includes_name_def)
  ultimately show ?case using as_prepared_matches [of e name]
    by (auto simp: e zero_at_if Cons.IH)
qed simp

lemma last_match:
  "fold (\<lambda>e acc. if filter_covers name e then Some (includes_name e) else acc) es r =
     (case filter (filter_covers name) es of [] \<Rightarrow> r | x # xs \<Rightarrow> Some (includes_name (last (x # xs))))"
  by (induction es arbitrary: r) (auto split: list.splits)

text \<open>
  (C23) Matching a name against the filters of a target never raises, and decides as RFC 3413 wants:
  there is no answer exactly if no entry covers the name, an entry covering the names of at least its subtree's length
  that agree with it where its mask, continued with ones, has a one. Otherwise the answer is
  that of an entry that covers the name and than which none that covers it is longer, or
  as long and lexicographically larger.
\<close>

theorem filter_longest_match:
  "matchFilter es name = Inr None \<and> (\<forall>e. e \<in> set es \<longrightarrow> \<not> filter_covers name e) \<or>
   (\<exists>e. matchFilter es name = Inr (Some (includes_name e)) \<and> e \<in> set es \<and> filter_covers name e \<and>
     (\<forall>e'. e' \<in> set es \<longrightarrow> filter_covers name e' \<longrightarrow> entry_key e' \<le> entry_key e))"
proof -
  let ?s = "filter (filter_covers name) (sort_key entry_key es)"
  have m: "matchFilter es name = Inr (case ?s of [] \<Rightarrow> None | x # xs \<Rightarrow> Some (includes_name (last (x # xs))))"
    by (simp add: matchFilter_def prepareFilterEntries_eq matchPreparedFilter_def match_walk_prepared last_match)
  have s: "set ?s = {e \<in> set es. filter_covers name e}" by auto
  show ?thesis
  proof (cases "?s = []")
    case True
    with m have "matchFilter es name = Inr None" by simp
    moreover from True s have "\<forall>e. e \<in> set es \<longrightarrow> \<not> filter_covers name e" by (auto simp del: set_filter)
    ultimately show ?thesis by blast
  next
    case False
    then have "last ?s \<in> set ?s" by (rule last_in_set)
    moreover have "sorted (map entry_key ?s)" by (simp add: sorted_filter)
    then have "entry_key e' \<le> entry_key (last ?s)" if "e' \<in> set ?s" for e'
      using that by (rule sorted_map_last_max)
    moreover from False m have "matchFilter es name = Inr (Some (includes_name (last ?s)))"
      by (auto simp: neq_Nil_conv)
    ultimately show ?thesis unfolding s by blast
  qed
qed

lemma filter_longest_match_witness:
  "matchFilter [([1], [], 1), ([1, 2], [0x80], 2)] [1, 3, 9] = Inr (Some False)"
proof -
  have "filter_covers [1, 3, 9] ([1], [], 1)" "filter_covers [1, 3, 9] ([1, 2], [0x80], 2)"
    by (auto simp: filter_covers_def in_family_def mask_bit_def less_Suc_eq)
  moreover have "entry_key ([1], [], 1) < entry_key ([1, 2], [0x80], 2)" by (simp add: entry_key_def)
  ultimately show ?thesis
    using filter_longest_match [of "[([1], [], 1), ([1, 2], [0x80], 2)]" "[1, 3, 9]"]
    by (auto simp: includes_name_def)
qed

end
