(* ===== verification/Target_Config.thy ===== *)
theory Target_Config
  imports Community_Sm
begin

text \<open>
  What the applications read of the configuration, \<open>pysnmp/entity/rfc3413/config.py\<close>: targets and
  their parameters, notification targets, tags and filters, each read from its table of the MIB
  and remembered in the engine's user context until the table's version changes.

  The tables are an argument, as maps from their indices, or as lists in the order of the indices
  where the code goes through all of them; a row has a value in every column. The source
  addresses are a table of their own, which has no part in the version that is looked at.

  The lemmas show that every answer is what the tables gave at the versions they have now, so that
  remembering makes no difference where a version belongs to one content of all that is read, and
  that it does for the source addresses.
\<close>

section \<open>Tables\<close>

record addr_row =
  ta_tDomain :: oid
  ta_tAddress :: octets
  ta_timeout :: int
  ta_retryCount :: int
  ta_params :: octets
  ta_tagList :: octets

record params_row =
  pa_mpModel :: int
  pa_securityModel :: int
  pa_securityName :: octets
  pa_securityLevel :: int

record filter_row =
  fr_profileName :: octets
  fr_subtree :: oid
  fr_mask :: octets
  fr_type :: int
  fr_rowStatus :: int

record target_mib =
  tg_addrVersion :: int
  tg_addrs :: "(octets \<times> addr_row) list"
  tg_sources :: "octets \<rightharpoonup> octets"
  tg_transports :: "oid set"
  tg_paramsVersion :: int
  tg_params :: "octets \<rightharpoonup> params_row"
  tg_notifyVersion :: int
  tg_notify :: "octets \<rightharpoonup> octets \<times> int"
  tg_profileVersion :: int
  tg_profiles :: "octets \<rightharpoonup> octets \<times> int"
  tg_filterVersion :: int
  tg_filters :: "filter_row list"

section \<open>Remembering\<close>

text \<open>
  What the functions keep under their names in the user context: the version of the table and a
  map, which is not there before the first read.
\<close>

record ('k, 'v) memo =
  me_id :: int
  me_map :: "('k \<rightharpoonup> 'v) option"

definition no_memo :: "('k, 'v) memo" where
  "no_memo = \<lparr>me_id = -1, me_map = None\<rparr>"

text \<open>A single row is read when it is first asked for; a new version empties the map first.\<close>

definition memo_row :: "int \<Rightarrow> ('k \<Rightarrow> 'v res) \<Rightarrow> 'k \<Rightarrow> (('k, 'v) memo, 'v) sm" where
  "memo_row version read name m0 =
     (let m = (if me_id m0 \<noteq> version then m0\<lparr>me_map := Some Map.empty\<rparr> else m0) in
      case me_map m of
        None \<Rightarrow> (Inl KeyError, m)
      | Some f \<Rightarrow>
          (case f name of
             Some v \<Rightarrow> (Inr v, m)
           | None \<Rightarrow>
               (case read name of
                  Inl e \<Rightarrow> (Inl e, m)
                | Inr v \<Rightarrow> (Inr v, m\<lparr>me_map := Some (f(name \<mapsto> v)), me_id := version\<rparr>))))"

text \<open>A whole table is gone through when its version is new.\<close>

definition memo_table :: "int \<Rightarrow> ('k \<rightharpoonup> 'v) \<Rightarrow> (('k, 'v) memo, 'k \<rightharpoonup> 'v) sm" where
  "memo_table version table m0 =
     (let m = (if me_id m0 = version then m0 else \<lparr>me_id = version, me_map = Some table\<rparr>) in
      (of_option KeyError (me_map m), m))"

type_synonym target_addr = "oid \<times> (address \<times> address option) \<times> int \<times> int \<times> octets"

record config_memo =
  cf_addr :: "(octets, target_addr) memo"
  cf_params :: "(octets, params_row) memo"
  cf_notify :: "(octets, octets \<times> int) memo"
  cf_names :: "(octets, octets list) memo"
  cf_profile :: "(octets, octets option) memo"
  cf_filter :: "(octets, (oid \<times> octets \<times> int) list) memo"

definition config_memo_init :: config_memo where
  "config_memo_init = \<lparr>cf_addr = no_memo, cf_params = no_memo, cf_notify = no_memo, cf_names = no_memo,
     cf_profile = no_memo, cf_filter = no_memo\<rparr>"

definition on_memo :: "(config_memo \<Rightarrow> ('k, 'v) memo) \<Rightarrow> (('k, 'v) memo \<Rightarrow> config_memo \<Rightarrow> config_memo) \<Rightarrow>
    (('k, 'v) memo, 'a) sm \<Rightarrow> (config_memo, 'a) sm" where
  "on_memo get put m s = (case m (get s) of (r, x) \<Rightarrow> (r, put x s))"

section \<open>Targets\<close>

text \<open>
  A target's address as the transport of its domain takes it, with the local address to send from
  where the domain has one.
\<close>

definition with_source :: "(octets \<Rightarrow> address res) \<Rightarrow> octets \<Rightarrow> octets \<Rightarrow> (address \<times> address option) res" where
  "with_source mk tAddress source = rbind (mk tAddress) (\<lambda>a. rbind (mk source) (\<lambda>l. Inr (a, Some l)))"

definition target_address :: "oid \<Rightarrow> octets \<Rightarrow> octets \<Rightarrow> (address \<times> address option) res" where
  "target_address tDomain tAddress source =
     (if is_prefix snmpUDPDomain tDomain then with_source inet_address tAddress source
      else if is_prefix snmpUDP6Domain tDomain then with_source inet6_address tAddress source
      else if is_prefix snmpTCPDomain tDomain then with_source inet_address tAddress source
      else if is_prefix snmpTCP6Domain tDomain then with_source inet6_address tAddress source
      else if is_prefix snmpLocalDomain tDomain then Inr (LocalPath tAddress, None)
      else Inr (Uninterpreted tAddress, None))"

definition not_configured :: exn where
  "not_configured = SmiError SmiErr no_smi"

definition read_addr :: "target_mib \<Rightarrow> octets \<Rightarrow> target_addr res" where
  "read_addr mib name =
     (case (map_of (tg_addrs mib) name, tg_sources mib name) of
        (Some r, Some source) \<Rightarrow>
          if ta_tDomain r \<notin> tg_transports mib then Inl PySnmpError
          else rbind (target_address (ta_tDomain r) (ta_tAddress r) source) (\<lambda>a.
            Inr (ta_tDomain r, a, ta_timeout r, ta_retryCount r, ta_params r))
      | _ \<Rightarrow> Inl not_configured)"

definition getTargetAddr :: "target_mib \<Rightarrow> octets \<Rightarrow> (config_memo, target_addr) sm" where
  "getTargetAddr mib name =
     on_memo cf_addr (\<lambda>x s. s\<lparr>cf_addr := x\<rparr>) (memo_row (tg_addrVersion mib) (read_addr mib) name)"

definition read_params :: "target_mib \<Rightarrow> octets \<Rightarrow> params_row res" where
  "read_params mib name = of_option not_configured (tg_params mib name)"

definition getTargetParams :: "target_mib \<Rightarrow> octets \<Rightarrow> (config_memo, params_row) sm" where
  "getTargetParams mib name =
     on_memo cf_params (\<lambda>x s. s\<lparr>cf_params := x\<rparr>) (memo_row (tg_paramsVersion mib) (read_params mib) name)"

definition getTargetInfo :: "target_mib \<Rightarrow> octets \<Rightarrow> (config_memo, target_addr \<times> params_row) sm" where
  "getTargetInfo mib name =
     sbind (getTargetAddr mib name) (\<lambda>a.
     sbind (getTargetParams mib (snd (snd (snd (snd a))))) (\<lambda>p. sret (a, p)))"

section \<open>Notifications\<close>

definition read_notify :: "target_mib \<Rightarrow> octets \<Rightarrow> (octets \<times> int) res" where
  "read_notify mib name = of_option not_configured (tg_notify mib name)"

definition getNotificationInfo :: "target_mib \<Rightarrow> octets \<Rightarrow> (config_memo, octets \<times> int) sm" where
  "getNotificationInfo mib name =
     on_memo cf_notify (\<lambda>x s. s\<lparr>cf_notify := x\<rparr>) (memo_row (tg_notifyVersion mib) (read_notify mib) name)"

text \<open>The names under each tag, in the order of the table; a tag that is listed twice counts twice.\<close>

definition add_name :: "octets \<Rightarrow> (octets \<rightharpoonup> octets list) \<Rightarrow> octets \<Rightarrow> (octets \<rightharpoonup> octets list)" where
  "add_name name m tag = m(tag \<mapsto> (case m tag of None \<Rightarrow> [] | Some ns \<Rightarrow> ns) @ [name])"

definition tag_names :: "(octets \<times> addr_row) list \<Rightarrow> octets \<rightharpoonup> octets list" where
  "tag_names rows = foldl (\<lambda>m (name, r). foldl (add_name name) m (split_tags [] (ta_tagList r))) Map.empty rows"

definition getTargetNames :: "target_mib \<Rightarrow> octets \<Rightarrow> (config_memo, octets list) sm" where
  "getTargetNames mib tag =
     sbind (on_memo cf_names (\<lambda>x s. s\<lparr>cf_names := x\<rparr>) (memo_table (tg_addrVersion mib) (tag_names (tg_addrs mib)))) (\<lambda>m.
     sres (of_option not_configured (m tag)))"

definition read_profile :: "target_mib \<Rightarrow> octets \<Rightarrow> octets option res" where
  "read_profile mib name =
     Inr (case tg_profiles mib name of None \<Rightarrow> None | Some (profile, rowStatus) \<Rightarrow> if rowStatus \<noteq> 1 then None else Some profile)"

definition getNotifyFilterProfile :: "target_mib \<Rightarrow> octets \<Rightarrow> (config_memo, octets option) sm" where
  "getNotifyFilterProfile mib name =
     on_memo cf_profile (\<lambda>x s. s\<lparr>cf_profile := x\<rparr>) (memo_row (tg_profileVersion mib) (read_profile mib) name)"

definition add_filter :: "(octets \<rightharpoonup> (oid \<times> octets \<times> int) list) \<Rightarrow> filter_row \<Rightarrow> (octets \<rightharpoonup> (oid \<times> octets \<times> int) list)" where
  "add_filter m r =
     (if fr_rowStatus r \<noteq> 1 then m
      else m(fr_profileName r \<mapsto> (case m (fr_profileName r) of None \<Rightarrow> [] | Some fs \<Rightarrow> fs) @
               [(fr_subtree r, fr_mask r, fr_type r)]))"

definition profile_filters :: "filter_row list \<Rightarrow> octets \<rightharpoonup> (oid \<times> octets \<times> int) list" where
  "profile_filters rows = foldl add_filter Map.empty rows"

definition getNotifyFilter :: "target_mib \<Rightarrow> octets \<Rightarrow> (config_memo, (oid \<times> octets \<times> int) list) sm" where
  "getNotifyFilter mib profile =
     sbind (on_memo cf_filter (\<lambda>x s. s\<lparr>cf_filter := x\<rparr>)
              (memo_table (tg_filterVersion mib) (profile_filters (tg_filters mib)))) (\<lambda>m.
     sret (case m profile of None \<Rightarrow> [] | Some fs \<Rightarrow> fs))"

section \<open>What is remembered\<close>

text \<open>
  Nothing is known of a table but that a version number is read with it. What a memo holds was
  read from bases that were asked, \<open>H\<close>, at the version that the memo has: row by row, or as a whole.
\<close>

definition row_from :: "('m \<Rightarrow> int) \<Rightarrow> ('m \<Rightarrow> 'k \<Rightarrow> 'v res) \<Rightarrow> 'm set \<Rightarrow> ('k, 'v) memo \<Rightarrow> bool" where
  "row_from v read H m \<longleftrightarrow> (me_map m = None \<longrightarrow> me_id m = -1) \<and>
     (\<forall>f k x. me_map m = Some f \<longrightarrow> f k = Some x \<longrightarrow> (\<exists>c \<in> H. v c = me_id m \<and> read c k = Inr x))"

definition table_from :: "('m \<Rightarrow> int) \<Rightarrow> ('m \<Rightarrow> 'k \<rightharpoonup> 'v) \<Rightarrow> 'm set \<Rightarrow> ('k, 'v) memo \<Rightarrow> bool" where
  "table_from v table H m \<longleftrightarrow> me_id m = -1 \<or> (\<exists>c \<in> H. v c = me_id m \<and> me_map m = Some (table c))"

lemma row_from_mono: "row_from v read H m \<Longrightarrow> H \<subseteq> K \<Longrightarrow> row_from v read K m"
  unfolding row_from_def by blast

lemma table_from_mono: "table_from v table H m \<Longrightarrow> H \<subseteq> K \<Longrightarrow> table_from v table K m"
  by (auto simp: table_from_def)

lemma row_from_init: "row_from v read H no_memo"
  by (simp add: row_from_def no_memo_def)

lemma table_from_init: "table_from v table H no_memo"
  by (simp add: table_from_def no_memo_def)

lemma memo_row_from:
  assumes "v mib \<noteq> -1" and "row_from v read H m" and "memo_row (v mib) (read mib) k m = (r, m')"
  shows "(\<exists>c \<in> insert mib H. v c = v mib \<and> r = read c k) \<and> row_from v read (insert mib H) m'"
proof (cases "me_id m = v mib")
  case True
  with assms(1,2) obtain f where f: "me_map m = Some f" by (auto simp: row_from_def)
  have known: "\<exists>c \<in> H. v c = v mib \<and> read c j = Inr y" if "f j = Some y" for j y
    using assms(2) True f that by (simp add: row_from_def)
  show ?thesis
  proof (cases "f k")
    case (Some x)
    have "row_from v read (insert mib H) m" by (rule row_from_mono [OF assms(2)]) auto
    moreover have "r = Inr x" "m' = m" using assms(3) True f Some by (simp_all add: memo_row_def)
    ultimately show ?thesis using known [OF Some] by fastforce
  next
    case None
    have "row_from v read (insert mib H) (m\<lparr>me_map := Some (f(k \<mapsto> x)), me_id := v mib\<rparr>)"
      if "read mib k = Inr x" for x
      using that known unfolding row_from_def by (auto simp: map_upd_Some_unfold)
    moreover have "row_from v read (insert mib H) m" by (rule row_from_mono [OF assms(2)]) auto
    ultimately show ?thesis
      using assms(3) True f None by (cases "read mib k") (auto simp: memo_row_def)
  qed
next
  case False
  have "row_from v read (insert mib H) (m\<lparr>me_map := Some Map.empty\<rparr>)" by (simp add: row_from_def)
  moreover have "row_from v read (insert mib H) (m\<lparr>me_map := Some [k \<mapsto> x], me_id := v mib\<rparr>)"
    if "read mib k = Inr x" for x
    using that by (auto simp: row_from_def)
  ultimately show ?thesis
    using assms(3) False by (cases "read mib k") (auto simp: memo_row_def)
qed

lemma memo_table_from:
  assumes "v mib \<noteq> -1" and "table_from v table H m" and "memo_table (v mib) (table mib) m = (r, m')"
  shows "(\<exists>c \<in> insert mib H. v c = v mib \<and> r = Inr (table c)) \<and> table_from v table (insert mib H) m'"
  using assms by (cases "me_id m = v mib") (auto simp: memo_table_def table_from_def)

section \<open>Any sequence of questions\<close>

datatype config_query = TargetAddr octets | TargetParams octets | TargetInfo octets | NotificationInfo octets
  | TargetNames octets | NotifyFilterProfile octets | NotifyFilter octets

datatype config_answer = AAddr target_addr | AParams params_row | AInfo target_addr params_row | ANotify octets int
  | ANames "octets list" | AProfile "octets option" | AFilters "(oid \<times> octets \<times> int) list"

definition answered :: "('s, 'a) sm \<Rightarrow> ('a \<Rightarrow> 'b) \<Rightarrow> ('s, 'b) sm" where
  "answered m f = sbind m (\<lambda>x. sret (f x))"

fun ask_config :: "target_mib \<Rightarrow> config_query \<Rightarrow> (config_memo, config_answer) sm" where
  "ask_config mib (TargetAddr n) = answered (getTargetAddr mib n) AAddr"
| "ask_config mib (TargetParams n) = answered (getTargetParams mib n) AParams"
| "ask_config mib (TargetInfo n) = answered (getTargetInfo mib n) (\<lambda>(a, p). AInfo a p)"
| "ask_config mib (NotificationInfo n) = answered (getNotificationInfo mib n) (\<lambda>(t, k). ANotify t k)"
| "ask_config mib (TargetNames n) = answered (getTargetNames mib n) ANames"
| "ask_config mib (NotifyFilterProfile n) = answered (getNotifyFilterProfile mib n) AProfile"
| "ask_config mib (NotifyFilter n) = answered (getNotifyFilter mib n) AFilters"

text \<open>The same questions put to the tables themselves.\<close>

fun look_up :: "target_mib \<Rightarrow> config_query \<Rightarrow> config_answer res" where
  "look_up mib (TargetAddr n) = rbind (read_addr mib n) (\<lambda>a. Inr (AAddr a))"
| "look_up mib (TargetParams n) = rbind (read_params mib n) (\<lambda>p. Inr (AParams p))"
| "look_up mib (TargetInfo n) = rbind (read_addr mib n) (\<lambda>a.
     rbind (read_params mib (snd (snd (snd (snd a))))) (\<lambda>p. Inr (AInfo a p)))"
| "look_up mib (NotificationInfo n) = rbind (read_notify mib n) (\<lambda>(t, k). Inr (ANotify t k))"
| "look_up mib (TargetNames n) = rbind (of_option not_configured (tag_names (tg_addrs mib) n)) (\<lambda>ns. Inr (ANames ns))"
| "look_up mib (NotifyFilterProfile n) = rbind (read_profile mib n) (\<lambda>p. Inr (AProfile p))"
| "look_up mib (NotifyFilter n) =
     Inr (AFilters (case profile_filters (tg_filters mib) n of None \<Rightarrow> [] | Some fs \<Rightarrow> fs))"

fun ask_all_config :: "(target_mib \<times> config_query) list \<Rightarrow> config_memo \<Rightarrow> config_answer res list" where
  "ask_all_config [] c = []"
| "ask_all_config ((mib, q) # qs) c = (case ask_config mib q c of (r, c') \<Rightarrow> r # ask_all_config qs c')"

section \<open>Where the answers come from\<close>

definition config_used :: "target_mib \<Rightarrow> bool" where
  "config_used mib \<longleftrightarrow> tg_addrVersion mib \<noteq> -1 \<and> tg_paramsVersion mib \<noteq> -1 \<and> tg_notifyVersion mib \<noteq> -1 \<and>
     tg_profileVersion mib \<noteq> -1 \<and> tg_filterVersion mib \<noteq> -1"

definition config_from :: "target_mib set \<Rightarrow> config_memo \<Rightarrow> bool" where
  "config_from H c \<longleftrightarrow> row_from tg_addrVersion read_addr H (cf_addr c) \<and> row_from tg_paramsVersion read_params H (cf_params c) \<and>
     row_from tg_notifyVersion read_notify H (cf_notify c) \<and>
     table_from tg_addrVersion (\<lambda>m. tag_names (tg_addrs m)) H (cf_names c) \<and>
     row_from tg_profileVersion read_profile H (cf_profile c) \<and>
     table_from tg_filterVersion (\<lambda>m. profile_filters (tg_filters m)) H (cf_filter c)"

lemma config_from_init: "config_from H config_memo_init"
  by (simp add: config_from_def config_memo_init_def row_from_init table_from_init)

lemma config_from_mono: "config_from H c \<Longrightarrow> H \<subseteq> K \<Longrightarrow> config_from K c"
  by (auto simp: config_from_def elim!: row_from_mono table_from_mono)

lemma getTargetAddr_from:
  assumes "config_used mib" and "config_from H c" and "getTargetAddr mib n c = (r, c')"
  shows "(\<exists>d \<in> insert mib H. tg_addrVersion d = tg_addrVersion mib \<and> r = read_addr d n) \<and> config_from (insert mib H) c'"
  using assms memo_row_from [of tg_addrVersion mib read_addr H "cf_addr c" n]
    config_from_mono [OF assms(2) subset_insertI, of mib]
  by (auto simp: getTargetAddr_def on_memo_def config_from_def config_used_def split: prod.splits)

lemma getTargetParams_from:
  assumes "config_used mib" and "config_from H c" and "getTargetParams mib n c = (r, c')"
  shows "(\<exists>d \<in> insert mib H. tg_paramsVersion d = tg_paramsVersion mib \<and> r = read_params d n) \<and> config_from (insert mib H) c'"
  using assms memo_row_from [of tg_paramsVersion mib read_params H "cf_params c" n]
    config_from_mono [OF assms(2) subset_insertI, of mib]
  by (auto simp: getTargetParams_def on_memo_def config_from_def config_used_def split: prod.splits)

lemma getNotificationInfo_from:
  assumes "config_used mib" and "config_from H c" and "getNotificationInfo mib n c = (r, c')"
  shows "(\<exists>d \<in> insert mib H. tg_notifyVersion d = tg_notifyVersion mib \<and> r = read_notify d n) \<and> config_from (insert mib H) c'"
  using assms memo_row_from [of tg_notifyVersion mib read_notify H "cf_notify c" n]
    config_from_mono [OF assms(2) subset_insertI, of mib]
  by (auto simp: getNotificationInfo_def on_memo_def config_from_def config_used_def split: prod.splits)

lemma getNotifyFilterProfile_from:
  assumes "config_used mib" and "config_from H c" and "getNotifyFilterProfile mib n c = (r, c')"
  shows "(\<exists>d \<in> insert mib H. tg_profileVersion d = tg_profileVersion mib \<and> r = read_profile d n) \<and> config_from (insert mib H) c'"
  using assms memo_row_from [of tg_profileVersion mib read_profile H "cf_profile c" n]
    config_from_mono [OF assms(2) subset_insertI, of mib]
  by (auto simp: getNotifyFilterProfile_def on_memo_def config_from_def config_used_def split: prod.splits)

lemma getTargetNames_from:
  assumes "config_used mib" and "config_from H c" and "getTargetNames mib n c = (r, c')"
  shows "(\<exists>d \<in> insert mib H. tg_addrVersion d = tg_addrVersion mib \<and>
      r = of_option not_configured (tag_names (tg_addrs d) n)) \<and> config_from (insert mib H) c'"
  using assms memo_table_from [of tg_addrVersion mib "\<lambda>m. tag_names (tg_addrs m)" H "cf_names c"]
    config_from_mono [OF assms(2) subset_insertI, of mib]
  by (auto simp: getTargetNames_def on_memo_def config_from_def config_used_def sbind_def sres_def split: prod.splits)

lemma getNotifyFilter_from:
  assumes "config_used mib" and "config_from H c" and "getNotifyFilter mib n c = (r, c')"
  shows "(\<exists>d \<in> insert mib H. tg_filterVersion d = tg_filterVersion mib \<and>
      r = Inr (case profile_filters (tg_filters d) n of None \<Rightarrow> [] | Some fs \<Rightarrow> fs)) \<and> config_from (insert mib H) c'"
  using assms memo_table_from [of tg_filterVersion mib "\<lambda>m. profile_filters (tg_filters m)" H "cf_filter c"]
    config_from_mono [OF assms(2) subset_insertI, of mib]
  by (auto simp: getNotifyFilter_def on_memo_def config_from_def config_used_def sbind_def sret_def split: prod.splits)

text \<open>
  \<open>config_read H mib b\<close>: each table of \<open>b\<close>, with all that is read with it, is the one a base in \<open>H\<close>
  had at the version that \<open>mib\<close> has of it.
\<close>

definition config_read :: "target_mib set \<Rightarrow> target_mib \<Rightarrow> target_mib \<Rightarrow> bool" where
  "config_read H mib b \<longleftrightarrow>
     (\<exists>d \<in> H. tg_addrVersion d = tg_addrVersion mib \<and> tg_addrs b = tg_addrs d \<and> tg_sources b = tg_sources d \<and>
        tg_transports b = tg_transports d) \<and>
     (\<exists>d \<in> H. tg_paramsVersion d = tg_paramsVersion mib \<and> tg_params b = tg_params d) \<and>
     (\<exists>d \<in> H. tg_notifyVersion d = tg_notifyVersion mib \<and> tg_notify b = tg_notify d) \<and>
     (\<exists>d \<in> H. tg_profileVersion d = tg_profileVersion mib \<and> tg_profiles b = tg_profiles d) \<and>
     (\<exists>d \<in> H. tg_filterVersion d = tg_filterVersion mib \<and> tg_filters b = tg_filters d)"

text \<open>No table of \<open>c\<close> differs from \<open>mib\<close>'s at the same version, nor what is read with it.\<close>

definition config_version_tells :: "target_mib \<Rightarrow> target_mib \<Rightarrow> bool" where
  "config_version_tells mib c \<longleftrightarrow>
     (tg_addrVersion c = tg_addrVersion mib \<longrightarrow> tg_addrs c = tg_addrs mib \<and> tg_sources c = tg_sources mib \<and>
        tg_transports c = tg_transports mib) \<and>
     (tg_paramsVersion c = tg_paramsVersion mib \<longrightarrow> tg_params c = tg_params mib) \<and>
     (tg_notifyVersion c = tg_notifyVersion mib \<longrightarrow> tg_notify c = tg_notify mib) \<and>
     (tg_profileVersion c = tg_profileVersion mib \<longrightarrow> tg_profiles c = tg_profiles mib) \<and>
     (tg_filterVersion c = tg_filterVersion mib \<longrightarrow> tg_filters c = tg_filters mib)"

definition as_read :: "target_mib \<Rightarrow> target_mib \<Rightarrow> target_mib \<Rightarrow> target_mib" where
  "as_read a p o' = a\<lparr>tg_params := tg_params p, tg_notify := tg_notify o', tg_profiles := tg_profiles o', tg_filters := tg_filters o'\<rparr>"

lemma read_as_read:
  "read_addr (as_read a p o') = read_addr a" "read_params (as_read a p o') = read_params p"
  "read_notify (as_read a p o') = read_notify o'" "read_profile (as_read a p o') = read_profile o'"
  "tg_addrs (as_read a p o') = tg_addrs a" "tg_filters (as_read a p o') = tg_filters o'"
  by (auto simp: as_read_def read_addr_def read_params_def read_notify_def read_profile_def fun_eq_iff
      cong: option.case_cong if_cong)

lemma ask_config_from:
  assumes "config_used mib" and "config_from H c" and "ask_config mib q c = (r, c')"
  shows "(\<exists>b. config_read (insert mib H) mib b \<and> r = look_up b q) \<and> config_from (insert mib H) c'"
proof -
  let ?H = "insert mib H"
  have ans: "\<exists>r1. m c = (r1, c') \<and> r = rbind r1 (\<lambda>x. Inr (f x))" if "answered m f c = (r, c')"
    for m :: "(config_memo, 'a) sm" and f
    using that by (cases "m c"; cases "fst (m c)") (auto simp: answered_def sbind_def sret_def)
  have base: "config_read ?H mib (as_read a p mib)"
    if "a \<in> ?H" "tg_addrVersion a = tg_addrVersion mib" "p \<in> ?H" "tg_paramsVersion p = tg_paramsVersion mib" for a p
    unfolding config_read_def as_read_def using that by auto
  show ?thesis
  proof (cases q)
    case (TargetAddr n)
    with assms(3) obtain r1 where 1: "getTargetAddr mib n c = (r1, c')" "r = rbind r1 (\<lambda>x. Inr (AAddr x))" using ans by fastforce
    from getTargetAddr_from [OF assms(1,2) 1(1)] obtain d where "d \<in> ?H" "tg_addrVersion d = tg_addrVersion mib"
      "r1 = read_addr d n" "config_from ?H c'" by blast
    with base [of d mib] 1(2) TargetAddr show ?thesis
      by (intro conjI exI [of _ "as_read d mib mib"]) (simp_all add: read_as_read)
  next
    case (TargetParams n)
    with assms(3) obtain r1 where 1: "getTargetParams mib n c = (r1, c')" "r = rbind r1 (\<lambda>x. Inr (AParams x))" using ans by fastforce
    from getTargetParams_from [OF assms(1,2) 1(1)] obtain d where "d \<in> ?H" "tg_paramsVersion d = tg_paramsVersion mib"
      "r1 = read_params d n" "config_from ?H c'" by blast
    with base [of mib d] 1(2) TargetParams show ?thesis
      by (intro conjI exI [of _ "as_read mib d mib"]) (simp_all add: read_as_read)
  next
    case (TargetInfo n)
    with assms(3) obtain r1 where 1: "getTargetInfo mib n c = (r1, c')" "r = rbind r1 (\<lambda>x. Inr ((\<lambda>(a, p). AInfo a p) x))"
      using ans by fastforce
    obtain ra c1 where a: "getTargetAddr mib n c = (ra, c1)" by (meson surj_pair)
    from getTargetAddr_from [OF assms(1,2) a] obtain d where d: "d \<in> ?H" "tg_addrVersion d = tg_addrVersion mib"
      "ra = read_addr d n" and c1: "config_from ?H c1" by blast
    show ?thesis
    proof (cases ra)
      case (Inl e)
      with a 1 have "r = Inl e" "c' = c1" by (auto simp: getTargetInfo_def sbind_def)
      with c1 d Inl base [of d mib] TargetInfo show ?thesis
        by (intro conjI exI [of _ "as_read d mib mib"]) (simp_all add: read_as_read flip: d(3))
    next
      case (Inr x)
      obtain rp c2 where p: "getTargetParams mib (snd (snd (snd (snd x)))) c1 = (rp, c2)" by (meson surj_pair)
      from getTargetParams_from [OF assms(1) c1 p] obtain e where e: "e \<in> ?H" "tg_paramsVersion e = tg_paramsVersion mib"
        "rp = read_params e (snd (snd (snd (snd x))))" and c2: "config_from ?H c2" by auto
      have "c' = c2 \<and> r = rbind rp (\<lambda>p. Inr (AInfo x p))"
        using a p 1 Inr by (cases rp) (auto simp: getTargetInfo_def sbind_def sret_def)
      with c2 d e Inr base [of d e] TargetInfo show ?thesis
        by (intro conjI exI [of _ "as_read d e mib"]) (simp_all add: read_as_read flip: d(3))
    qed
  next
    case (NotificationInfo n)
    with assms(3) obtain r1 where 1: "getNotificationInfo mib n c = (r1, c')" "r = rbind r1 (\<lambda>x. Inr ((\<lambda>(t, k). ANotify t k) x))"
      using ans by fastforce
    from getNotificationInfo_from [OF assms(1,2) 1(1)] obtain d where d: "d \<in> ?H" "tg_notifyVersion d = tg_notifyVersion mib"
      "r1 = read_notify d n" "config_from ?H c'" by blast
    then have "config_read ?H mib (mib\<lparr>tg_notify := tg_notify d\<rparr>)" unfolding config_read_def by auto
    with d 1(2) NotificationInfo show ?thesis
      by (intro conjI exI [of _ "mib\<lparr>tg_notify := tg_notify d\<rparr>"]) (auto simp: read_notify_def of_option_def split: option.split)
  next
    case (TargetNames n)
    with assms(3) obtain r1 where 1: "getTargetNames mib n c = (r1, c')" "r = rbind r1 (\<lambda>x. Inr (ANames x))" using ans by fastforce
    from getTargetNames_from [OF assms(1,2) 1(1)] obtain d where "d \<in> ?H" "tg_addrVersion d = tg_addrVersion mib"
      "r1 = of_option not_configured (tag_names (tg_addrs d) n)" "config_from ?H c'" by blast
    with base [of d mib] 1(2) TargetNames show ?thesis
      by (intro conjI exI [of _ "as_read d mib mib"]) (simp_all add: read_as_read)
  next
    case (NotifyFilterProfile n)
    with assms(3) obtain r1 where 1: "getNotifyFilterProfile mib n c = (r1, c')" "r = rbind r1 (\<lambda>x. Inr (AProfile x))" using ans by fastforce
    from getNotifyFilterProfile_from [OF assms(1,2) 1(1)] obtain d where d: "d \<in> ?H" "tg_profileVersion d = tg_profileVersion mib"
      "r1 = read_profile d n" "config_from ?H c'" by blast
    then have "config_read ?H mib (mib\<lparr>tg_profiles := tg_profiles d\<rparr>)" unfolding config_read_def by auto
    with d 1(2) NotifyFilterProfile show ?thesis
      by (intro conjI exI [of _ "mib\<lparr>tg_profiles := tg_profiles d\<rparr>"]) (simp_all add: read_profile_def)
  next
    case (NotifyFilter n)
    with assms(3) obtain r1 where 1: "getNotifyFilter mib n c = (r1, c')" "r = rbind r1 (\<lambda>x. Inr (AFilters x))" using ans by fastforce
    from getNotifyFilter_from [OF assms(1,2) 1(1)] obtain d where d: "d \<in> ?H" "tg_filterVersion d = tg_filterVersion mib"
      "r1 = Inr (case profile_filters (tg_filters d) n of None \<Rightarrow> [] | Some fs \<Rightarrow> fs)" "config_from ?H c'" by blast
    then have "config_read ?H mib (mib\<lparr>tg_filters := tg_filters d\<rparr>)" unfolding config_read_def by auto
    with d 1(2) NotifyFilter show ?thesis
      by (intro conjI exI [of _ "mib\<lparr>tg_filters := tg_filters d\<rparr>"]) simp_all
  qed
qed

lemma ask_all_config_from:
  assumes "config_from H c" and "\<forall>mib \<in> fst ` set qs. config_used mib" and "i < length qs"
  shows "\<exists>b. config_read (H \<union> fst ` set (take (Suc i) qs)) (fst (qs ! i)) b \<and> ask_all_config qs c ! i = look_up b (snd (qs ! i))"
  using assms
proof (induction qs arbitrary: H c i)
  case (Cons p qs)
  obtain mib q r c' where p: "p = (mib, q)" and s: "ask_config mib q c = (r, c')" by (metis surj_pair)
  have "config_used mib" using Cons.prems(2) p by simp
  note step = ask_config_from [OF this Cons.prems(1) s]
  show ?case
  proof (cases i)
    case 0
    with step p s show ?thesis by auto
  next
    case (Suc j)
    from Cons.IH [OF conjunct2 [OF step], of j] Cons.prems Suc show ?thesis by (simp add: p s)
  qed
qed simp

lemma look_up_current:
  assumes "config_read H mib b" and "\<forall>c \<in> H. config_version_tells mib c"
  shows "look_up b q = look_up mib q"
proof -
  have eq: "tg_addrs b = tg_addrs mib" "tg_sources b = tg_sources mib" "tg_transports b = tg_transports mib"
      "tg_params b = tg_params mib" "tg_notify b = tg_notify mib" "tg_profiles b = tg_profiles mib" "tg_filters b = tg_filters mib"
    using assms unfolding config_read_def config_version_tells_def by metis+
  have "read_addr b = read_addr mib" "read_params b = read_params mib" "read_notify b = read_notify mib"
      "read_profile b = read_profile mib"
    by (intro ext; simp only: eq read_addr_def read_params_def read_notify_def read_profile_def)+
  then show ?thesis using eq by (cases q) (simp_all only: look_up.simps)
qed

text \<open>
  What is read of the configuration is as fresh as the version numbers of the tables. Whatever is
  asked about targets, notifications and filters, and in whatever order, with the tables
  changing in any way between the questions, the answer to each is what the tables give, each as it
  was at this or an earlier question at which it had the version number it has now. So whenever no earlier
  question met one of them at its present version with other contents, the answer is what the tables give at
  this moment. (A version number is never -1: it starts at 0 and is only ever incremented.) The source
  address of a target is read with the target's row and has no part in the version, and there
  the program does give an old answer, see \<open>source_address_stale\<close>.
\<close>

theorem config_memo_follows_versions:
  assumes "\<forall>mib \<in> fst ` set qs. config_used mib" and "i < length qs"
  shows "(\<exists>b. config_read (fst ` set (take (Suc i) qs)) (fst (qs ! i)) b \<and>
      ask_all_config qs config_memo_init ! i = look_up b (snd (qs ! i))) \<and>
    ((\<forall>c \<in> fst ` set (take i qs). config_version_tells (fst (qs ! i)) c) \<longrightarrow>
      ask_all_config qs config_memo_init ! i = look_up (fst (qs ! i)) (snd (qs ! i)))"
proof -
  obtain b where b: "config_read (fst ` set (take (Suc i) qs)) (fst (qs ! i)) b"
      "ask_all_config qs config_memo_init ! i = look_up b (snd (qs ! i))"
    using ask_all_config_from [OF config_from_init [of "{}"] assms] by auto
  have "config_version_tells (fst (qs ! i)) (fst (qs ! i))" by (simp add: config_version_tells_def)
  then have "\<forall>c \<in> fst ` set (take i qs). config_version_tells (fst (qs ! i)) c \<Longrightarrow>
      \<forall>c \<in> fst ` set (take (Suc i) qs). config_version_tells (fst (qs ! i)) c"
    using assms(2) by (auto simp: take_Suc_conv_app_nth)
  then show ?thesis using b look_up_current [OF b(1)] by auto
qed

definition some_target :: addr_row where
  "some_target = \<lparr>ta_tDomain = [1], ta_tAddress = [7], ta_timeout = 100, ta_retryCount = 3, ta_params = [80], ta_tagList = [116]\<rparr>"

definition a_target_mib :: "int \<Rightarrow> target_mib" where
  "a_target_mib v = \<lparr>tg_addrVersion = v, tg_addrs = [([65], some_target\<lparr>ta_retryCount := v\<rparr>)], tg_sources = [[65] \<mapsto> []],
     tg_transports = {[1]}, tg_paramsVersion = v, tg_params = [[80] \<mapsto> \<lparr>pa_mpModel = v, pa_securityModel = 3, pa_securityName = [117],
     pa_securityLevel = 1\<rparr>], tg_notifyVersion = v, tg_notify = Map.empty, tg_profileVersion = v, tg_profiles = Map.empty,
     tg_filterVersion = v, tg_filters = []\<rparr>"

theorem config_memo_follows_versions_witness:
  "let qs = [(a_target_mib 1, TargetInfo [65]), (a_target_mib 2, TargetParams [80]), (a_target_mib 2, TargetInfo [65])]
   in ask_all_config qs config_memo_init ! 2 = look_up (a_target_mib 2) (TargetInfo [65])"
proof -
  have "config_used (a_target_mib 1)" "config_used (a_target_mib 2)" by (simp_all add: config_used_def a_target_mib_def)
  moreover have "config_version_tells (a_target_mib 2) (a_target_mib 1)" "config_version_tells (a_target_mib 2) (a_target_mib 2)"
    by (simp_all add: config_version_tells_def a_target_mib_def)
  ultimately show ?thesis
    using config_memo_follows_versions [of "[(a_target_mib 1, TargetInfo [65]), (a_target_mib 2, TargetParams [80]),
      (a_target_mib 2, TargetInfo [65])]" 2]
    by (simp add: Let_def numeral_2_eq_2)
qed

text \<open>
  The address to send from is remembered with the target's row, but its table has no part in
  the version: after the source address of a target has been changed, the next question
  still gets the old one.
\<close>

theorem source_address_stale:
  "let row = some_target\<lparr>ta_tDomain := snmpTCPDomain, ta_tAddress := [10, 0, 0, 1, 0, 161]\<rparr>;
       one = (a_target_mib 1)\<lparr>tg_addrs := [([65], row)], tg_transports := {snmpTCPDomain}, tg_sources := [[65] \<mapsto> [10, 0, 0, 2, 0, 0]]\<rparr>;
       two = one\<lparr>tg_sources := [[65] \<mapsto> [10, 0, 0, 9, 0, 0]]\<rparr>;
       answers = ask_all_config [(one, TargetAddr [65]), (two, TargetAddr [65])] config_memo_init
   in answers = [look_up one (TargetAddr [65]), look_up one (TargetAddr [65])] \<and>
      look_up two (TargetAddr [65]) \<noteq> look_up one (TargetAddr [65]) \<and> \<not> isl (look_up two (TargetAddr [65]))"
  by code_simp

end
