(* ===== verification/Ntforg.thy ===== *)
theory Ntforg
  imports Cmdgen Notify_Filter Target_Config
begin

text \<open>
  The notification originator, \<open>pysnmp/entity/rfc3413/ntforg.py\<close>: sending a trap or an inform to
  every target its configuration names, that the filters of the target let through and access
  control allows; retrying informs; and telling the application once all targets have answered.

  The originator's state stands between that of the dispatcher and the rest of the engine, as that
  of the command generator does. What it asks of the engine is the record \<open>nt_env\<close>:
  the configuration (\<open>Target_Config\<close>), access control (\<open>Vacm\<close>), the dispatcher
  (\<open>Dispatcher\<close>), the present value of \<open>sysUpTime\<close> and the application.
  The name of a notification is an object identifier; \<open>TypeError\<close> stands for what filters and access
  control make of any other value.

  The lemmas show which targets a notification goes to, and when the application is told.
\<close>

section \<open>State\<close>

record 'addr pending_inform =
  np_transportDomain :: oid
  np_transportAddress :: 'addr
  np_messageProcessingModel :: int
  np_securityModel :: int
  np_securityName :: octets
  np_securityLevel :: int
  np_contextEngineId :: "octets option"
  np_contextName :: octets
  np_PDU :: pdu
  np_timeout :: int
  np_retryCount :: int
  np_retries :: int
  np_discoveryRetries :: int

record 'addr ntforg =
  nf_pendingReqs :: "nat \<rightharpoonup> 'addr pending_inform"
  nf_pendingNotifications :: "nat \<rightharpoonup> nat set"
  nf_jobs :: nat
  nf_handles :: nextid
  nf_requestIDs :: nextid

type_synonym ('d, 'addr, 'w) nt_state = "'d \<times> 'addr ntforg \<times> 'w"

text \<open>
  What a request is continued with: its handle, that of the notification, and the application's
  callback, which may be missing.
\<close>

type_synonym 'k notify_call = "nat \<times> nat \<times> 'k option"

record outcome =
  oc_handle :: nat
  oc_errorIndication :: "errind option"
  oc_errorStatus :: int
  oc_errorIndex :: int
  oc_varBinds :: "var_bind list"

record ('k, 'addr, 'd, 'w) nt_env =
  ne_getNotificationInfo :: "octets \<Rightarrow> (('d, 'addr, 'w) nt_state, octets \<times> int) sm"
  ne_getTargetNames :: "octets \<Rightarrow> (('d, 'addr, 'w) nt_state, octets list) sm"
  ne_getTargetAddr :: "octets \<Rightarrow> (('d, 'addr, 'w) nt_state, oid \<times> 'addr \<times> int \<times> int \<times> octets) sm"
  ne_getTargetParams :: "octets \<Rightarrow> (('d, 'addr, 'w) nt_state, params_row) sm"
  ne_getNotifyFilterProfile :: "octets \<Rightarrow> (('d, 'addr, 'w) nt_state, octets option) sm"
  ne_getNotifyFilter :: "octets \<Rightarrow> (('d, 'addr, 'w) nt_state, filter_entry list) sm"
  ne_isAccessAllowed :: "int \<Rightarrow> octets \<Rightarrow> int \<Rightarrow> view_type \<Rightarrow> octets \<Rightarrow> oid \<Rightarrow> (('d, 'addr, 'w) nt_state, unit) sm"
  ne_sendPdu :: "('k notify_call option, 'addr) send_request \<Rightarrow> (('d, 'addr, 'w) nt_state, nat) sm"
  ne_uptime :: "('d, 'addr, 'w) nt_state \<Rightarrow> snmp_value"
  ne_app :: "'k \<Rightarrow> outcome \<Rightarrow> (('d, 'addr, 'w) nt_state, unit) sm"
  ne_discoveryRetries :: int
  ne_ticks :: "int \<Rightarrow> int"

definition on_ntf :: "('addr ntforg, 'a) sm \<Rightarrow> (('d, 'addr, 'w) nt_state, 'a) sm" where
  "on_ntf m = on_snd (on_fst m)"

definition ntf_modify :: "('addr ntforg \<Rightarrow> 'addr ntforg) \<Rightarrow> (('d, 'addr, 'w) nt_state, unit) sm" where
  "ntf_modify f = on_ntf (smodify f)"

definition ntf_getNextHandle :: "(('d, 'addr, 'w) nt_state, nat) sm" where
  "ntf_getNextHandle = on_ntf (\<lambda>g. case nextid_call (nf_handles g) of (r, n) \<Rightarrow> (r, g\<lparr>nf_handles := n\<rparr>))"

definition ntf_requestIDs :: "(nextid, 'a) sm \<Rightarrow> (('d, 'addr, 'w) nt_state, 'a) sm" where
  "ntf_requestIDs m = on_ntf (\<lambda>g. case m (nf_requestIDs g) of (r, n) \<Rightarrow> (r, g\<lparr>nf_requestIDs := n\<rparr>))"

definition ntf_jobStarted :: "(('d, 'addr, 'w) nt_state, unit) sm" where
  "ntf_jobStarted = ntf_modify (\<lambda>g. g\<lparr>nf_jobs := nf_jobs g + 1\<rparr>)"

definition ntf_jobFinished :: "(('d, 'addr, 'w) nt_state, unit) sm" where
  "ntf_jobFinished = on_ntf (\<lambda>g. if nf_jobs g = 0 then (Inl KeyError, g) else (Inr (), g\<lparr>nf_jobs := nf_jobs g - 1\<rparr>))"

definition ntf_remember :: "nat \<Rightarrow> 'addr pending_inform \<Rightarrow> (('d, 'addr, 'w) nt_state, unit) sm" where
  "ntf_remember h p = ntf_modify (\<lambda>g. g\<lparr>nf_pendingReqs := (nf_pendingReqs g)(h \<mapsto> p)\<rparr>)"

section \<open>Sending to one target\<close>

text \<open>A target as both functions read it, the parameters by the name in its row.\<close>

type_synonym 'addr notify_target = "'addr target_info \<times> octets"

definition get_target :: "('k, 'addr, 'd, 'w) nt_env \<Rightarrow> octets \<Rightarrow> (('d, 'addr, 'w) nt_state, 'addr notify_target) sm" where
  "get_target env targetName =
     sbind (ne_getTargetAddr env targetName) (\<lambda>(transportDomain, transportAddress, timeout, retryCount, params).
     sbind (ne_getTargetParams env params) (\<lambda>p.
     sret (\<lparr>ti_transportDomain = transportDomain, ti_transportAddress = transportAddress, ti_timeout = timeout,
       ti_retryCount = retryCount, ti_messageProcessingModel = pa_mpModel p, ti_securityModel = pa_securityModel p,
       ti_securityName = pa_securityName p, ti_securityLevel = pa_securityLevel p\<rparr>, params)))"

fun is_confirmed :: "v1_pdu \<Rightarrow> bool" where
  "is_confirmed (V1Pdu p) = confirmedClass (p_type p)"
| "is_confirmed (V1Trap t) = False"

text \<open>The request as the dispatcher takes it; without a response to come there is no time-out and no callback.\<close>

definition notify_request :: "'addr target_info \<Rightarrow> octets option \<Rightarrow> octets \<Rightarrow> int \<Rightarrow> v1_pdu \<Rightarrow>
    (int \<times> 'k notify_call) option \<Rightarrow> ('k notify_call option, 'addr) send_request" where
  "notify_request ti contextEngineId contextName pduVersion reqPDU c =
     \<lparr>sq_transportDomain = ti_transportDomain ti, sq_transportAddress = ti_transportAddress ti,
      sq_messageProcessingModel = ti_messageProcessingModel ti, sq_securityModel = ti_securityModel ti,
      sq_securityName = ti_securityName ti, sq_securityLevel = ti_securityLevel ti,
      sq_contextEngineId = contextEngineId, sq_contextName = contextName, sq_pduVersion = pduVersion,
      sq_PDU = reqPDU, sq_expectResponse = (c \<noteq> None),
      sq_timeout = (case c of None \<Rightarrow> 0 | Some (t, _) \<Rightarrow> t), sq_cbFun = map_option snd c\<rparr>"

definition new_inform :: "'addr target_info \<Rightarrow> octets option \<Rightarrow> octets \<Rightarrow> pdu \<Rightarrow> 'addr pending_inform" where
  "new_inform ti contextEngineId contextName PDU =
     \<lparr>np_transportDomain = ti_transportDomain ti, np_transportAddress = ti_transportAddress ti,
      np_messageProcessingModel = ti_messageProcessingModel ti, np_securityModel = ti_securityModel ti,
      np_securityName = ti_securityName ti, np_securityLevel = ti_securityLevel ti,
      np_contextEngineId = contextEngineId, np_contextName = contextName, np_PDU = PDU,
      np_timeout = ti_timeout ti, np_retryCount = ti_retryCount ti, np_retries = 0, np_discoveryRetries = 0\<rparr>"

definition pdu_version :: "int \<Rightarrow> int" where
  "pdu_version messageProcessingModel = (if messageProcessingModel = 0 then 0 else 1)"

definition sendNotifyPdu :: "('k, 'addr, 'd, 'w) nt_env \<Rightarrow> octets \<Rightarrow> octets option \<Rightarrow> octets \<Rightarrow> pdu \<Rightarrow> nat \<Rightarrow> 'k option \<Rightarrow>
    (('d, 'addr, 'w) nt_state, nat option) sm" where
  "sendNotifyPdu env targetName contextEngineId contextName PDU notificationHandle k =
     sbind (get_target env targetName) (\<lambda>(ti, _).
     sbind (sres (versioned_PDU (ti_messageProcessingModel ti) PDU)) (\<lambda>reqPDU.
     let request = notify_request ti contextEngineId contextName (pdu_version (ti_messageProcessingModel ti)) reqPDU in
     if is_confirmed reqPDU
     then sbind ntf_getNextHandle (\<lambda>sendRequestHandle.
       sbind (ne_sendPdu env (request (Some (ne_ticks env (ti_timeout ti), sendRequestHandle, notificationHandle, k)))) (\<lambda>sendPduHandle.
       sbind (ntf_remember sendPduHandle (new_inform ti contextEngineId contextName PDU)) (\<lambda>_.
       sbind ntf_jobStarted (\<lambda>_. sret (Some sendRequestHandle)))))
     else sbind (ne_sendPdu env (request None)) (\<lambda>_. sret None)))"

section \<open>Sending to every target\<close>

definition notification_name :: "var_bind list \<Rightarrow> oid res" where
  "notification_name varBinds = (case snd (varBinds ! 1) of VObjectIdentifier x \<Rightarrow> Inr x | _ \<Rightarrow> Inl TypeError)"

definition object_names :: "var_bind list \<Rightarrow> oid list" where
  "object_names varBinds = filter (\<lambda>name. name \<notin> required_names) (map fst varBinds)"

fun object_excluded :: "prepared_entry list \<Rightarrow> oid list \<Rightarrow> bool res" where
  "object_excluded prepared [] = Inr False"
| "object_excluded prepared (name # names) =
     (if name \<in> required_names then object_excluded prepared names
      else rbind (matchPreparedFilter prepared name) (\<lambda>r.
        if r = Some False then Inr True else object_excluded prepared names))"

definition filtered_out :: "filter_entry list \<Rightarrow> var_bind list \<Rightarrow> bool res" where
  "filtered_out filterEntries varBinds =
     rbind (prepareFilterEntries filterEntries) (\<lambda>preparedFilter.
     rbind (notification_name varBinds) (\<lambda>trapOidVal.
     rbind (matchPreparedFilter preparedFilter trapOidVal) (\<lambda>r.
     if r \<noteq> Some True then Inr True else object_excluded preparedFilter (map fst varBinds))))"

definition filter_rejects :: "('k, 'addr, 'd, 'w) nt_env \<Rightarrow> octets \<Rightarrow> var_bind list \<Rightarrow> (('d, 'addr, 'w) nt_state, bool) sm" where
  "filter_rejects env params varBinds =
     sbind (ne_getNotifyFilterProfile env params) (\<lambda>filterProfileName.
     case filterProfileName of
       None \<Rightarrow> sret False
     | Some profile \<Rightarrow>
         sbind (ne_getNotifyFilter env profile) (\<lambda>filterEntries.
         if filterEntries = [] then sret False else sres (filtered_out filterEntries varBinds)))"

fun access_denied :: "('k, 'addr, 'd, 'w) nt_env \<Rightarrow> 'addr target_info \<Rightarrow> octets \<Rightarrow> oid list \<Rightarrow> (('d, 'addr, 'w) nt_state, bool) sm" where
  "access_denied env ti contextName [] = sret False"
| "access_denied env ti contextName (name # names) =
     sbind (scatch (sbind (ne_isAccessAllowed env (ti_securityModel ti) (ti_securityName ti) (ti_securityLevel ti)
              notify_view contextName name) (\<lambda>_. sret False))
         (\<lambda>e. case e of StatusInformation si \<Rightarrow> sret True | _ \<Rightarrow> sraise e)) (\<lambda>denied.
     if denied then sret True else access_denied env ti contextName names)"

definition notify_PDU :: "int \<Rightarrow> var_bind list \<Rightarrow> (('d, 'addr, 'w) nt_state, pdu) sm" where
  "notify_PDU notifyType varBinds =
     sbind (if notifyType = 1 then sret (pdu_clone SNMPv2Trap)
            else if notifyType = 2 then sret (pdu_clone InformRequest) else sraise ProtocolError) (\<lambda>PDU.
     sbind (ntf_requestIDs (setDefaults PDU)) (\<lambda>PDU.
     sret (setVarBinds (map (\<lambda>(n, v). (n, Some v)) varBinds) PDU)))"

text \<open>What the application is told where the originator itself has something to tell.\<close>

definition told :: "nat \<Rightarrow> errind option \<Rightarrow> outcome" where
  "told handle errorIndication = \<lparr>oc_handle = handle, oc_errorIndication = errorIndication, oc_errorStatus = 0,
     oc_errorIndex = 0, oc_varBinds = []\<rparr>"

definition call_if_any :: "('k, 'addr, 'd, 'w) nt_env \<Rightarrow> 'k option \<Rightarrow> outcome \<Rightarrow> (('d, 'addr, 'w) nt_state, unit) sm" where
  "call_if_any env cb oc = (case cb of None \<Rightarrow> sret () | Some k \<Rightarrow> ne_app env k oc)"

definition send_failed :: "('k, 'addr, 'd, 'w) nt_env \<Rightarrow> nat \<Rightarrow> 'k option \<Rightarrow> status_info \<Rightarrow> (('d, 'addr, 'w) nt_state, unit) sm" where
  "send_failed env notificationHandle cb si =
     sbind (sget (\<lambda>s. nf_pendingNotifications (fst (snd s)) notificationHandle)) (\<lambda>waiting.
     if waiting \<noteq> None \<and> waiting \<noteq> Some {} then sret ()
     else sbind (ntf_modify (\<lambda>g. g\<lparr>nf_pendingNotifications := (nf_pendingNotifications g)(notificationHandle := None)\<rparr>)) (\<lambda>_.
       case cb of
         None \<Rightarrow> sret ()
       | Some k \<Rightarrow> (case si_errorIndication si of None \<Rightarrow> sraise KeyError
           | Some e \<Rightarrow> ne_app env k (told notificationHandle (Some e)))))"

definition await :: "nat \<Rightarrow> nat option \<Rightarrow> 'addr ntforg \<Rightarrow> 'addr ntforg" where
  "await notificationHandle sendRequestHandle g =
     (case sendRequestHandle of
        None \<Rightarrow> g
      | Some h \<Rightarrow> g\<lparr>nf_pendingNotifications := (nf_pendingNotifications g)(notificationHandle \<mapsto>
          insert h (case nf_pendingNotifications g notificationHandle of None \<Rightarrow> {} | Some hs \<Rightarrow> hs))\<rparr>)"

text \<open>
  One round of the loop: the target is passed over, has been sent the notification, or has ended
  the loop.
\<close>

datatype round = Passed | Notified | Ended

definition send_target :: "('k, 'addr, 'd, 'w) nt_env \<Rightarrow> nat \<Rightarrow> int \<Rightarrow> octets option \<Rightarrow> octets \<Rightarrow> var_bind list \<Rightarrow>
    'k option \<Rightarrow> octets \<Rightarrow> (('d, 'addr, 'w) nt_state, round) sm" where
  "send_target env notificationHandle notifyType contextEngineId contextName varBinds cb targetName =
     sbind (get_target env targetName) (\<lambda>(ti, params).
     sbind (filter_rejects env params varBinds) (\<lambda>rejected.
     if rejected then sret Passed
     else sbind (sres (notification_name varBinds)) (\<lambda>trapOidVal.
     sbind (access_denied env ti contextName (object_names varBinds @ [trapOidVal])) (\<lambda>denied.
     if denied then sret Passed
     else sbind (notify_PDU notifyType varBinds) (\<lambda>PDU.
     scatch
       (sbind (sendNotifyPdu env targetName contextEngineId contextName PDU notificationHandle cb) (\<lambda>sendRequestHandle.
        sbind (if notifyType = 2 then ntf_modify (await notificationHandle sendRequestHandle) else sret ()) (\<lambda>_.
        sret Notified)))
       (\<lambda>e. case e of
          StatusInformation si \<Rightarrow> sbind (send_failed env notificationHandle cb si) (\<lambda>_. sret Ended)
        | _ \<Rightarrow> sraise e))))))"

fun send_targets :: "('k, 'addr, 'd, 'w) nt_env \<Rightarrow> nat \<Rightarrow> int \<Rightarrow> octets option \<Rightarrow> octets \<Rightarrow> var_bind list \<Rightarrow> 'k option \<Rightarrow>
    octets list \<Rightarrow> nat \<Rightarrow> (('d, 'addr, 'w) nt_state, unit) sm" where
  "send_targets env nh notifyType contextEngineId contextName varBinds cb [] notificationsSent =
     (if notifyType = 2 \<and> notificationsSent = 0 then call_if_any env cb (told nh None) else sret ())"
| "send_targets env nh notifyType contextEngineId contextName varBinds cb (name # names) notificationsSent =
     sbind (send_target env nh notifyType contextEngineId contextName varBinds cb name) (\<lambda>r.
     case r of
       Passed \<Rightarrow> send_targets env nh notifyType contextEngineId contextName varBinds cb names notificationsSent
     | Notified \<Rightarrow> send_targets env nh notifyType contextEngineId contextName varBinds cb names (notificationsSent + 1)
     | Ended \<Rightarrow> sret ())"

definition notify_sendVarBinds :: "('k, 'addr, 'd, 'w) nt_env \<Rightarrow> octets \<Rightarrow> octets option \<Rightarrow> octets \<Rightarrow> var_bind list \<Rightarrow>
    'k option \<Rightarrow> (('d, 'addr, 'w) nt_state, nat) sm" where
  "notify_sendVarBinds env notificationTarget contextEngineId contextName varBinds cb =
     sbind (sres (if contextName = [] then Inr contextName else SnmpAdminString contextName)) (\<lambda>contextName.
     sbind (ne_getNotificationInfo env notificationTarget) (\<lambda>(notifyTag, notifyType).
     sbind ntf_getNextHandle (\<lambda>notificationHandle.
     sbind (sget (ne_uptime env)) (\<lambda>uptime.
     sbind (sres (orderNotificationVarBinds uptime varBinds)) (\<lambda>varBinds.
     sbind (ne_getTargetNames env notifyTag) (\<lambda>names.
     sbind (send_targets env notificationHandle notifyType contextEngineId contextName varBinds cb names 0) (\<lambda>_.
     sret notificationHandle)))))))"

section \<open>Responses\<close>

definition notify_processResponseVarBinds :: "('k, 'addr, 'd, 'w) nt_env \<Rightarrow> 'k notify_call \<Rightarrow> errind option \<Rightarrow> pdu option \<Rightarrow>
    (('d, 'addr, 'w) nt_state, unit) sm" where
  "notify_processResponseVarBinds env c errorIndication PDU = (case c of (sendRequestHandle, notificationHandle, cb) \<Rightarrow>
     sbind (on_ntf (\<lambda>g. case nf_pendingNotifications g notificationHandle of
         None \<Rightarrow> (Inl KeyError, g)
       | Some hs \<Rightarrow> if sendRequestHandle \<notin> hs then (Inl KeyError, g)
           else (Inr (hs - {sendRequestHandle}),
             g\<lparr>nf_pendingNotifications := (nf_pendingNotifications g)(notificationHandle \<mapsto> hs - {sendRequestHandle})\<rparr>))) (\<lambda>waiting.
     if waiting \<noteq> {} then sret ()
     else sbind (ntf_modify (\<lambda>g. g\<lparr>nf_pendingNotifications := (nf_pendingNotifications g)(notificationHandle := None)\<rparr>)) (\<lambda>_.
       sbind (sres (case PDU of None \<Rightarrow> Inr 0 | Some p \<Rightarrow> getErrorIndex True p)) (\<lambda>errorIndex.
       case cb of
         None \<Rightarrow> sraise TypeError
       | Some k \<Rightarrow> ne_app env k \<lparr>oc_handle = sendRequestHandle, oc_errorIndication = errorIndication,
           oc_errorStatus = (case PDU of None \<Rightarrow> 0 | Some p \<Rightarrow> p_errorStatus p), oc_errorIndex = errorIndex,
           oc_varBinds = (case PDU of None \<Rightarrow> [] | Some p \<Rightarrow> p_varBinds p)\<rparr>))))"

definition take_inform :: "nat \<Rightarrow> (('d, 'addr, 'w) nt_state, 'addr pending_inform) sm" where
  "take_inform sendPduHandle = on_ntf (\<lambda>g.
     case nf_pendingReqs g sendPduHandle of
       None \<Rightarrow> (Inl ProtocolError, g)
     | Some p \<Rightarrow> (Inr p, g\<lparr>nf_pendingReqs := (nf_pendingReqs g)(sendPduHandle := None)\<rparr>))"

definition spend_notify_retry :: "errind \<Rightarrow> 'addr pending_inform \<Rightarrow> 'addr pending_inform" where
  "spend_notify_retry e p =
     (if is_discovery e then p\<lparr>np_discoveryRetries := np_discoveryRetries p + 1, np_retries := 0\<rparr>
      else p\<lparr>np_discoveryRetries := 0, np_retries := np_retries p + 1\<rparr>)"

definition gives_up :: "('k, 'addr, 'd, 'w) nt_env \<Rightarrow> 'addr pending_inform \<Rightarrow> bool" where
  "gives_up env p \<longleftrightarrow> np_retries p > np_retryCount p \<or> np_discoveryRetries p > ne_discoveryRetries env"

definition inform_target :: "'addr pending_inform \<Rightarrow> 'addr target_info" where
  "inform_target p = \<lparr>ti_transportDomain = np_transportDomain p, ti_transportAddress = np_transportAddress p,
     ti_timeout = np_timeout p, ti_retryCount = np_retryCount p, ti_messageProcessingModel = np_messageProcessingModel p,
     ti_securityModel = np_securityModel p, ti_securityName = np_securityName p, ti_securityLevel = np_securityLevel p\<rparr>"

text \<open>
  What is sent again depends on the message processing model the dispatcher reports the failure
  with, which is none after a time-out.
\<close>

definition resend :: "('k, 'addr, 'd, 'w) nt_env \<Rightarrow> int option \<Rightarrow> 'addr pending_inform \<Rightarrow> 'k notify_call \<Rightarrow>
    (('d, 'addr, 'w) nt_state, unit) sm" where
  "resend env messageProcessingModel p c =
     sbind (sres (if messageProcessingModel = Some 0 then v2ToV1 (np_PDU p) None else Inr (V1Pdu (np_PDU p)))) (\<lambda>reqPDU.
     scatch
       (sbind (ne_sendPdu env (notify_request (inform_target p) (np_contextEngineId p) (np_contextName p)
           (if messageProcessingModel = Some 0 then 0 else 1) reqPDU (Some (ne_ticks env (np_timeout p), c)))) (\<lambda>sendPduHandle.
        sbind ntf_jobStarted (\<lambda>_. ntf_remember sendPduHandle p)))
       (\<lambda>e. case e of
          StatusInformation si \<Rightarrow>
            (case si_errorIndication si of None \<Rightarrow> sraise KeyError
             | Some i \<Rightarrow> notify_processResponseVarBinds env c (Some i) None)
        | _ \<Rightarrow> sraise e))"

definition inform_failed :: "('k, 'addr, 'd, 'w) nt_env \<Rightarrow> int option \<Rightarrow> 'addr pending_inform \<Rightarrow> status_info \<Rightarrow> 'k notify_call \<Rightarrow>
    (('d, 'addr, 'w) nt_state, unit) sm" where
  "inform_failed env messageProcessingModel p si c =
     (case si_errorIndication si of
        None \<Rightarrow> sraise KeyError
      | Some e \<Rightarrow>
          let p = spend_notify_retry e p in
          if gives_up env p then notify_processResponseVarBinds env c (Some e) None
          else resend env messageProcessingModel p c)"

definition inform_answered :: "('k, 'addr, 'd, 'w) nt_env \<Rightarrow> int option \<Rightarrow> 'addr pending_inform \<Rightarrow> v1_pdu \<Rightarrow> 'k notify_call \<Rightarrow>
    (('d, 'addr, 'w) nt_state, unit) sm" where
  "inform_answered env messageProcessingModel p rsp c =
     sbind (if messageProcessingModel = Some 0 then ntf_requestIDs (v1ToV2 rsp (Some (np_PDU p)) [])
            else case rsp of V1Pdu q \<Rightarrow> sret q | V1Trap t \<Rightarrow> sraise PyAsn1Error) (\<lambda>PDU.
     notify_processResponseVarBinds env c None (Some PDU))"

text \<open>The dispatcher gives either a response or the status it failed with.\<close>

definition notify_processResponsePdu :: "('k, 'addr, 'd, 'w) nt_env \<Rightarrow> 'k notify_call \<Rightarrow> int option \<Rightarrow> status_info + v1_pdu \<Rightarrow>
    nat \<Rightarrow> (('d, 'addr, 'w) nt_state, unit) sm" where
  "notify_processResponsePdu env c messageProcessingModel response sendPduHandle =
     sbind (take_inform sendPduHandle) (\<lambda>p.
     sbind ntf_jobFinished (\<lambda>_.
     case response of
       Inl si \<Rightarrow> inform_failed env messageProcessingModel p si c
     | Inr rsp \<Rightarrow> inform_answered env messageProcessingModel p rsp c))"

end
