(* ===== verification/Ntforg_Send.thy ===== *)
theory Ntforg_Send
  imports Ntforg
begin

text \<open>
  What the notification originator sends, put together with the configuration and access
  control it asks: the locale \<open>notify_engine\<close> states what \<open>sendVarBinds\<close> relies on, and its
  interpretation puts in the tables of \<open>Target_Config\<close>, read through their memos, and the decisions
  of \<open>Vacm\<close>, taken through its caches.

  The property is that a notification goes to the targets under its tag that the filters and access
  control let through and to no others, in order and with the bindings in order, up to the first
  that the dispatcher does not take it for.
\<close>

section \<open>What the engine answers\<close>

text \<open>
  An operation that answers \<open>r\<close> whatever the state of the rest, and touches neither the
  dispatcher nor the originator.
\<close>

definition asks :: "('w \<Rightarrow> bool) \<Rightarrow> (('d, 'addr, 'w) nt_state, 'a) sm \<Rightarrow> 'a res \<Rightarrow> bool" where
  "asks good m r \<longleftrightarrow> (\<forall>d g w. good w \<longrightarrow> (\<exists>w'. m (d, g, w) = (r, d, g, w') \<and> good w'))"

lemma asks_sret: "asks good (sret x) (Inr x)"
  by (simp add: asks_def sret_def)

lemma asks_sres: "asks good (sres r) r"
  by (simp add: asks_def sres_def)

lemma asks_sbind:
  fixes m :: "(('d, 'addr, 'w) nt_state, 'a) sm" and f :: "'a \<Rightarrow> (('d, 'addr, 'w) nt_state, 'b) sm"
  assumes "asks good m r" and "\<And>x. r = Inr x \<Longrightarrow> asks good (f x) (q x)"
  shows "asks good (sbind m f) (rbind r q)"
  unfolding asks_def
proof (intro allI impI)
  fix d :: 'd and g :: "'addr ntforg" and w :: 'w
  assume "good w"
  with assms(1) obtain w1 where 1: "m (d, g, w) = (r, d, g, w1)" "good w1" unfolding asks_def by blast
  show "\<exists>w'. sbind m f (d, g, w) = (rbind r q, d, g, w') \<and> good w'"
  proof (cases r)
    case (Inl e)
    with 1 show ?thesis by (simp add: sbind_def)
  next
    case (Inr x)
    from assms(2) [OF Inr] 1(2) obtain w2 where "f x (d, g, w1) = (q x, d, g, w2)" "good w2" unfolding asks_def by blast
    with 1 Inr show ?thesis by (simp add: sbind_def)
  qed
qed

lemma asks_cases:
  assumes "asks good m r" and "good w"
  obtains w' where "m (d, g, w) = (r, d, g, w')" "good w'"
  using assms unfolding asks_def by blast

section \<open>The choice of targets\<close>

type_synonym 'addr address_row = "oid \<times> 'addr \<times> int \<times> int \<times> octets"
type_synonym access_fun = "int \<Rightarrow> octets \<Rightarrow> int \<Rightarrow> view_type \<Rightarrow> octets \<Rightarrow> oid \<Rightarrow> unit res"

definition target_of :: "(octets \<Rightarrow> 'addr address_row res) \<Rightarrow> (octets \<Rightarrow> params_row res) \<Rightarrow> octets \<Rightarrow> 'addr notify_target res" where
  "target_of addr_of params_of n =
     rbind (addr_of n) (\<lambda>(transportDomain, transportAddress, timeout, retryCount, params).
     rbind (params_of params) (\<lambda>p.
     Inr (\<lparr>ti_transportDomain = transportDomain, ti_transportAddress = transportAddress, ti_timeout = timeout,
       ti_retryCount = retryCount, ti_messageProcessingModel = pa_mpModel p, ti_securityModel = pa_securityModel p,
       ti_securityName = pa_securityName p, ti_securityLevel = pa_securityLevel p\<rparr>, params)))"

text \<open>A notification passes filters that include its name and exclude none of its objects.\<close>

definition let_through :: "filter_entry list \<Rightarrow> oid \<Rightarrow> oid list \<Rightarrow> bool" where
  "let_through es trap names \<longleftrightarrow> matchFilter es trap = Inr (Some True) \<and> (\<forall>name \<in> set names. matchFilter es name \<noteq> Inr (Some False))"

lemma object_excluded_eq:
  "object_excluded (map as_prepared (sort_key entry_key es)) names =
     Inr (\<exists>name \<in> set (filter (\<lambda>name. name \<notin> required_names) names). matchFilter es name = Inr (Some False))"
  by (induction names) (auto simp: matchFilter_def prepareFilterEntries_eq matchPreparedFilter_def match_walk_prepared)

lemma filtered_out_eq:
  "filtered_out es vbs = rbind (notification_name vbs) (\<lambda>trap. Inr (\<not> let_through es trap (object_names vbs)))"
  by (cases "notification_name vbs")
    (auto simp: filtered_out_def prepareFilterEntries_eq object_excluded_eq let_through_def object_names_def matchFilter_def
      matchPreparedFilter_def match_walk_prepared)

definition filter_says_no :: "(octets \<Rightarrow> octets option res) \<Rightarrow> (octets \<Rightarrow> filter_entry list res) \<Rightarrow> octets \<Rightarrow> var_bind list \<Rightarrow> bool res" where
  "filter_says_no profile_of filters_of params varBinds =
     rbind (profile_of params) (\<lambda>filterProfileName.
     case filterProfileName of
       None \<Rightarrow> Inr False
     | Some profile \<Rightarrow> rbind (filters_of profile) (\<lambda>es. if es = [] then Inr False
       else rbind (notification_name varBinds) (\<lambda>trap. Inr (\<not> let_through es trap (object_names varBinds)))))"

fun all_granted :: "access_fun \<Rightarrow> 'addr target_info \<Rightarrow> octets \<Rightarrow> oid list \<Rightarrow> bool res" where
  "all_granted acc ti contextName [] = Inr True"
| "all_granted acc ti contextName (name # names) =
     (case acc (ti_securityModel ti) (ti_securityName ti) (ti_securityLevel ti) notify_view contextName name of
        Inr _ \<Rightarrow> all_granted acc ti contextName names
      | Inl (StatusInformation _) \<Rightarrow> Inr False
      | Inl e \<Rightarrow> Inl e)"

definition chosen :: "(octets \<Rightarrow> 'addr address_row res) \<Rightarrow> (octets \<Rightarrow> params_row res) \<Rightarrow> (octets \<Rightarrow> octets option res) \<Rightarrow>
    (octets \<Rightarrow> filter_entry list res) \<Rightarrow> access_fun \<Rightarrow> octets \<Rightarrow> var_bind list \<Rightarrow> octets \<Rightarrow> 'addr target_info option res" where
  "chosen addr_of params_of profile_of filters_of acc contextName varBinds n =
     rbind (target_of addr_of params_of n) (\<lambda>(ti, params).
     rbind (filter_says_no profile_of filters_of params varBinds) (\<lambda>rejected.
     if rejected then Inr None
     else rbind (notification_name varBinds) (\<lambda>trap.
       rbind (all_granted acc ti contextName (object_names varBinds @ [trap])) (\<lambda>ok. Inr (if ok then Some ti else None)))))"

definition receivers :: "(octets \<Rightarrow> 'addr target_info option res) \<Rightarrow> octets list \<Rightarrow> 'addr target_info list" where
  "receivers choice ns = List.map_filter (\<lambda>n. case choice n of Inr c \<Rightarrow> c | Inl e \<Rightarrow> None) ns"

text \<open>The notification itself, and the request that carries it.\<close>

definition notification :: "int \<Rightarrow> int \<Rightarrow> var_bind list \<Rightarrow> pdu" where
  "notification notifyType requestID varBinds =
     \<lparr>p_type = (if notifyType = 1 then SNMPv2Trap else InformRequest), p_requestID = requestID, p_errorStatus = 0,
      p_errorIndex = 0, p_varBinds = varBinds\<rparr>"

definition carries :: "int \<Rightarrow> octets option \<Rightarrow> octets \<Rightarrow> var_bind list \<Rightarrow> nat \<Rightarrow> 'k option \<Rightarrow> 'addr target_info \<Rightarrow>
    ('k notify_call option, 'addr) send_request \<Rightarrow> bool" where
  "carries notifyType contextEngineId contextName varBinds nh cb ti rq \<longleftrightarrow>
     sq_transportDomain rq = ti_transportDomain ti \<and> sq_transportAddress rq = ti_transportAddress ti \<and>
     sq_messageProcessingModel rq = ti_messageProcessingModel ti \<and> sq_securityModel rq = ti_securityModel ti \<and>
     sq_securityName rq = ti_securityName ti \<and> sq_securityLevel rq = ti_securityLevel ti \<and>
     sq_contextEngineId rq = contextEngineId \<and> sq_contextName rq = contextName \<and>
     (\<exists>requestID. versioned_PDU (ti_messageProcessingModel ti) (notification notifyType requestID varBinds) = Inr (sq_PDU rq)) \<and>
     sq_expectResponse rq = (notifyType = 2) \<and>
     (if notifyType = 2 then \<exists>h. sq_cbFun rq = Some (h, nh, cb) else sq_cbFun rq = None)"

text \<open>
  An attempt to serve a target: the request that carries the notification to it, or the error of
  putting the notification in the form its version has, which an inform for SNMPv1 ends in.
\<close>

definition attempted :: "int \<Rightarrow> octets option \<Rightarrow> octets \<Rightarrow> var_bind list \<Rightarrow> nat \<Rightarrow> 'k option \<Rightarrow> 'addr target_info \<Rightarrow>
    exn + ('k notify_call option, 'addr) send_request \<Rightarrow> bool" where
  "attempted notifyType contextEngineId contextName varBinds nh cb ti a \<longleftrightarrow>
     (case a of
        Inl e \<Rightarrow> \<exists>requestID. versioned_PDU (ti_messageProcessingModel ti) (notification notifyType requestID varBinds) = Inl e
      | Inr rq \<Rightarrow> carries notifyType contextEngineId contextName varBinds nh cb ti rq)"

text \<open>
  Attempts put to the dispatcher one after the other, up to the first that fails: the error it
  fails with, and the requests that were taken.
\<close>

fun give_all :: "('r \<Rightarrow> ('d, nat) sm) \<Rightarrow> (exn + 'r) list \<Rightarrow> 'd \<Rightarrow> exn option \<times> 'r list \<times> 'd" where
  "give_all send [] d = (None, [], d)"
| "give_all send (Inl e # as) d = (Some e, [], d)"
| "give_all send (Inr rq # as) d =
     (case send rq d of
        (Inl e, d') \<Rightarrow> (Some e, [], d')
      | (Inr h, d') \<Rightarrow> (case give_all send as d' of (e, rqs, d'') \<Rightarrow> (e, rq # rqs, d'')))"

lemma give_all_Cons:
  assumes "give_all send [a] d = (e, rqs, d1)"
  shows "give_all send (a # as) d = (case e of Some x \<Rightarrow> (e, rqs, d1)
    | None \<Rightarrow> (case give_all send as d1 of (e', rqs', d2) \<Rightarrow> (e', rqs @ rqs', d2)))"
  using assms by (cases a) (auto split: prod.splits sum.splits)

lemma give_all_failed: "give_all send [a] d = (Some e, rqs, d1) \<Longrightarrow> rqs = []"
  by (cases a) (auto split: prod.splits sum.splits)

text \<open>
  What follows: going on when nothing failed; after a \<open>StatusInformation\<close> the end of the call, with
  the application told unless requests of this notification are still waited for; any other
  exception goes through to the caller.
\<close>

definition unless_failed :: "('k, 'addr, 'd, 'w) nt_env \<Rightarrow> nat \<Rightarrow> 'k option \<Rightarrow> 'x \<Rightarrow> exn option \<Rightarrow>
    (('d, 'addr, 'w) nt_state, 'x) sm \<Rightarrow> (('d, 'addr, 'w) nt_state, 'x) sm" where
  "unless_failed env nh cb x failure m =
     (case failure of
        None \<Rightarrow> m
      | Some (StatusInformation si) \<Rightarrow> sbind (send_failed env nh cb si) (\<lambda>_. sret x)
      | Some e \<Rightarrow> sraise e)"

lemma unless_failed_Ended:
  assumes "m (d, g, w) = unless_failed env nh cb Ended (Some e) m1 s1" and "f Ended = sret ()"
  shows "sbind m f (d, g, w) = unless_failed env nh cb () (Some e) m2 s1"
proof (cases e)
  case (StatusInformation si)
  obtain r s2 where "send_failed env nh cb si s1 = (r, s2)" by (meson surj_pair)
  with assms StatusInformation show ?thesis by (cases r) (simp_all add: unless_failed_def sbind_def sret_def)
qed (use assms in \<open>simp_all add: unless_failed_def sbind_def sraise_def\<close>)

definition handles_of :: "('k notify_call option, 'addr) send_request list \<Rightarrow> nat set" where
  "handles_of rqs = {h. \<exists>rq \<in> set rqs. \<exists>x. sq_cbFun rq = Some (h, x)}"

text \<open>What is waited for, with more handles added.\<close>

definition expects :: "nat \<Rightarrow> nat set \<Rightarrow> (nat \<rightharpoonup> nat set) \<Rightarrow> (nat \<rightharpoonup> nat set)" where
  "expects nh hs m = (if hs = {} then m else m(nh \<mapsto> hs \<union> (case m nh of None \<Rightarrow> {} | Some old \<Rightarrow> old)))"

lemma expects_expects: "expects nh A (expects nh B m) = expects nh (A \<union> B) m"
  by (auto simp: expects_def)

lemma handles_of_Nil [simp]: "handles_of [] = {}"
  by (simp add: handles_of_def)

lemma handles_of_append: "handles_of (xs @ ys) = handles_of xs \<union> handles_of ys"
  by (auto simp: handles_of_def)

text \<open>A trap becomes a trap in either version, and an inform is one only in SNMPv2.\<close>

lemma versioned_confirmed:
  assumes "versioned_PDU m (notification t rid vbs) = Inr q" and "t = 1 \<or> t = 2"
  shows "is_confirmed q \<longleftrightarrow> t = 2"
  using assms
  by (cases "m = 0") (auto simp: versioned_PDU_def v2ToV1_def notification_def rbind_eq_Inr_iff split: if_splits option.splits)

section \<open>One call\<close>

locale notify_engine =
  fixes env :: "('k, 'addr, 'd, 'w) nt_env" and good :: "'w \<Rightarrow> bool"
    and info_of :: "octets \<Rightarrow> (octets \<times> int) res" and names_of :: "octets \<Rightarrow> octets list res"
    and addr_of :: "octets \<Rightarrow> 'addr address_row res" and params_of :: "octets \<Rightarrow> params_row res"
    and profile_of :: "octets \<Rightarrow> octets option res" and filters_of :: "octets \<Rightarrow> filter_entry list res"
    and acc :: access_fun
    and send :: "('k notify_call option, 'addr) send_request \<Rightarrow> ('d, nat) sm"
  assumes info: "asks good (ne_getNotificationInfo env n) (info_of n)"
    and names: "asks good (ne_getTargetNames env n) (names_of n)"
    and addr: "asks good (ne_getTargetAddr env n) (addr_of n)"
    and params: "asks good (ne_getTargetParams env n) (params_of n)"
    and profile: "asks good (ne_getNotifyFilterProfile env n) (profile_of n)"
    and filters: "asks good (ne_getNotifyFilter env n) (filters_of n)"
    and access: "asks good (ne_isAccessAllowed env md sn lv vt cx name) (acc md sn lv vt cx name)"
    and sends: "ne_sendPdu env rq = on_fst (send rq)"
begin

abbreviation pick :: "octets \<Rightarrow> var_bind list \<Rightarrow> octets \<Rightarrow> 'addr target_info option res" where
  "pick \<equiv> chosen addr_of params_of profile_of filters_of acc"

lemma asks_target: "asks good (get_target env n) (target_of addr_of params_of n)"
  unfolding get_target_def target_of_def
  by (auto intro!: asks_sbind addr params asks_sret)

lemma asks_filter: "asks good (filter_rejects env p vbs) (filter_says_no profile_of filters_of p vbs)"
  unfolding filter_rejects_def filter_says_no_def filtered_out_eq
  by (auto intro!: asks_sbind profile filters asks_sret asks_sres split: option.split)

lemma asks_access:
  "asks good (access_denied env ti cx ns) (rbind (all_granted acc ti cx ns) (\<lambda>ok. Inr (\<not> ok)))"
proof (induction ns)
  case Nil
  then show ?case by (simp add: asks_sret)
next
  case (Cons n ns)
  let ?r = "acc (ti_securityModel ti) (ti_securityName ti) (ti_securityLevel ti) notify_view cx n"
  let ?m = "ne_isAccessAllowed env (ti_securityModel ti) (ti_securityName ti) (ti_securityLevel ti) notify_view cx n"
  show ?case unfolding asks_def
  proof (intro allI impI)
    fix d :: 'd and g :: "'addr ntforg" and w :: 'w
    assume "good w"
    with asks_cases [OF access] obtain w1 where w1: "?m (d, g, w) = (?r, d, g, w1)" "good w1" by metis
    with asks_cases [OF Cons.IH] obtain w2 where
      w2: "access_denied env ti cx ns (d, g, w1) = (rbind (all_granted acc ti cx ns) (\<lambda>ok. Inr (\<not> ok)), d, g, w2)" "good w2"
      by metis
    show "\<exists>w'. access_denied env ti cx (n # ns) (d, g, w) =
        (rbind (all_granted acc ti cx (n # ns)) (\<lambda>ok. Inr (\<not> ok)), d, g, w') \<and> good w'"
    proof (cases ?r)
      case (Inl e)
      with w1 show ?thesis by (cases e) (simp_all add: sbind_def scatch_def sret_def sraise_def)
    next
      case (Inr u)
      with w1 w2 show ?thesis by (simp add: sbind_def scatch_def sret_def)
    qed
  qed
qed

lemma notify_PDU_drawn:
  assumes "t = 1 \<or> t = 2" and "nextid_inv (nf_requestIDs g)"
  obtains rid n where "notify_PDU t vbs (d, g, w) = (Inr (notification t rid vbs), d, g\<lparr>nf_requestIDs := n\<rparr>, w)" "nextid_inv n"
proof -
  from nextid_call_ok [OF assms(2)] obtain v n where n: "nextid_call (nf_requestIDs g) = (Inr v, n)" "nextid_inv n" by blast
  have "map (\<lambda>(n, v). (n, case v of None \<Rightarrow> VNull | Some v \<Rightarrow> v)) (map (\<lambda>(n, v). (n, Some v)) vbs) = vbs"
    by (induction vbs) auto
  then have "notify_PDU t vbs (d, g, w) = (Inr (notification t (int v) vbs), d, g\<lparr>nf_requestIDs := n\<rparr>, w)"
    using assms(1) n(1)
    by (auto simp: notify_PDU_def sbind_def sret_def ntf_requestIDs_def on_ntf_def on_fst_def on_snd_def setDefaults_def
        setVarBinds_def notification_def pdu_clone_def)
  with n(2) show ?thesis using that by blast
qed

lemma served:
  assumes "target_of addr_of params_of n = Inr (ti, p)" and "t = 1 \<or> t = 2" and "good w" and "nextid_inv (nf_handles g)"
  shows "\<exists>a failure rqs d' g' w' h. attempted t ce cx vbs nh cb ti a \<and> give_all send [a] d = (failure, rqs, d') \<and>
    sendNotifyPdu env n ce cx (notification t rid vbs) nh cb (d, g, w) =
      ((case failure of None \<Rightarrow> Inr h | Some e \<Rightarrow> Inl e), d', g', w') \<and>
    good w' \<and> nextid_inv (nf_handles g') \<and> nf_requestIDs g' = nf_requestIDs g \<and>
    nf_pendingNotifications g' = nf_pendingNotifications g \<and>
    (failure = None \<longrightarrow> handles_of rqs = set_option h \<and> (h \<noteq> None \<longleftrightarrow> t = 2))"
proof -
  obtain w1 where w1: "get_target env n (d, g, w) = (Inr (ti, p), d, g, w1)" "good w1"
    using asks_cases [OF asks_target assms(3)] assms(1) by metis
  show ?thesis
  proof (cases "versioned_PDU (ti_messageProcessingModel ti) (notification t rid vbs)")
    case (Inl e)
    then have "attempted t ce cx vbs nh cb ti (Inl e)" by (auto simp: attempted_def)
    moreover have "sendNotifyPdu env n ce cx (notification t rid vbs) nh cb (d, g, w) = (Inl e, d, g, w1)"
      using w1(1) Inl by (simp add: sendNotifyPdu_def sbind_def sres_def)
    ultimately show ?thesis
      by (intro exI [of _ "Inl e"] exI [of _ "Some e"] exI [of _ "[]"] exI [of _ d] exI [of _ g] exI [of _ w1] exI [of _ None])
        (use w1(2) assms(4) in simp_all)
  next
    case (Inr q)
    note conf = versioned_confirmed [OF Inr assms(2)]
    show ?thesis
    proof (cases "t = 2")
      case False
      let ?rq = "notify_request ti ce cx (pdu_version (ti_messageProcessingModel ti)) q None"
      obtain r d' where r: "send ?rq d = (r, d')" by (meson surj_pair)
      let ?f = "case r of Inl e \<Rightarrow> Some e | Inr h \<Rightarrow> None" and ?rqs = "case r of Inl e \<Rightarrow> [] | Inr h \<Rightarrow> [?rq]"
      have "attempted t ce cx vbs nh cb ti (Inr ?rq)" using Inr False by (auto simp: attempted_def carries_def notify_request_def)
      moreover have "give_all send [Inr ?rq] d = (?f, ?rqs, d')" using r by (simp split: sum.split)
      moreover have "sendNotifyPdu env n ce cx (notification t rid vbs) nh cb (d, g, w) =
          ((case ?f of None \<Rightarrow> Inr None | Some e \<Rightarrow> Inl e), d', g, w1)"
        using w1 Inr conf False r
        by (cases r) (simp_all add: sendNotifyPdu_def sbind_def sres_def sends on_fst_def sret_def)
      moreover have "?f = None \<longrightarrow> handles_of ?rqs = set_option None \<and> (None \<noteq> (None :: nat option) \<longleftrightarrow> t = 2)"
        using False by (cases r) (simp_all add: handles_of_def notify_request_def)
      ultimately show ?thesis using w1(2) assms(4)
        by (intro exI [of _ "Inr ?rq"] exI [of _ ?f] exI [of _ ?rqs] exI [of _ d'] exI [of _ g] exI [of _ w1] exI [of _ None]) simp_all
    next
      case True
      obtain h m where h: "nextid_call (nf_handles g) = (Inr h, m)" "nextid_inv m"
        using nextid_call_ok [OF assms(4)] by blast
      let ?rq = "notify_request ti ce cx (pdu_version (ti_messageProcessingModel ti)) q
        (Some (ne_ticks env (ti_timeout ti), h, nh, cb))"
      obtain r d' where r: "send ?rq d = (r, d')" by (meson surj_pair)
      let ?f = "case r of Inl e \<Rightarrow> Some e | Inr h \<Rightarrow> None" and ?rqs = "case r of Inl e \<Rightarrow> [] | Inr h \<Rightarrow> [?rq]"
      have "\<exists>g'. sendNotifyPdu env n ce cx (notification t rid vbs) nh cb (d, g, w) =
          ((case ?f of None \<Rightarrow> Inr (Some h) | Some e \<Rightarrow> Inl e), d', g', w1) \<and>
          nf_handles g' = m \<and> nf_requestIDs g' = nf_requestIDs g \<and> nf_pendingNotifications g' = nf_pendingNotifications g"
        using w1 Inr conf True h(1) r
        by (cases r) (simp_all add: sendNotifyPdu_def sbind_def sres_def sends sret_def ntf_getNextHandle_def on_ntf_def on_fst_def
            on_snd_def ntf_remember_def ntf_jobStarted_def ntf_modify_def smodify_def)
      then obtain g' where g': "sendNotifyPdu env n ce cx (notification t rid vbs) nh cb (d, g, w) =
          ((case ?f of None \<Rightarrow> Inr (Some h) | Some e \<Rightarrow> Inl e), d', g', w1)"
        "nf_handles g' = m" "nf_requestIDs g' = nf_requestIDs g" "nf_pendingNotifications g' = nf_pendingNotifications g" by blast
      have "attempted t ce cx vbs nh cb ti (Inr ?rq)" using Inr True by (auto simp: attempted_def carries_def notify_request_def)
      moreover have "give_all send [Inr ?rq] d = (?f, ?rqs, d')" using r by (simp split: sum.split)
      moreover have "?f = None \<longrightarrow> handles_of ?rqs = set_option (Some h) \<and> (Some h \<noteq> None \<longleftrightarrow> t = 2)"
        using True by (cases r) (auto simp: handles_of_def notify_request_def)
      ultimately show ?thesis using w1(2) h(2) g'
        by (intro exI [of _ "Inr ?rq"] exI [of _ ?f] exI [of _ ?rqs] exI [of _ d'] exI [of _ g'] exI [of _ w1] exI [of _ "Some h"]) simp_all
    qed
  qed
qed

lemma passed_over:
  assumes "pick cx vbs n = Inr None" and "good w"
  obtains w' where "send_target env nh t ce cx vbs cb n (d, g, w) = (Inr Passed, d, g, w')" "good w'"
proof -
  from assms(1) obtain ti p rej where tp: "target_of addr_of params_of n = Inr (ti, p)"
    "filter_says_no profile_of filters_of p vbs = Inr rej"
    by (auto simp: chosen_def rbind_eq_Inr_iff)
  obtain w1 where w1: "get_target env n (d, g, w) = (Inr (ti, p), d, g, w1)" "good w1"
    using asks_cases [OF asks_target assms(2)] tp(1) by metis
  obtain w2 where w2: "filter_rejects env p vbs (d, g, w1) = (Inr rej, d, g, w2)" "good w2"
    using asks_cases [OF asks_filter w1(2)] tp(2) by metis
  show ?thesis
  proof (cases rej)
    case True
    then show ?thesis using that w1 w2 by (simp add: send_target_def sbind_def sret_def)
  next
    case False
    with assms(1) tp obtain trap where trap: "notification_name vbs = Inr trap"
      "all_granted acc ti cx (object_names vbs @ [trap]) = Inr False"
      by (auto simp: chosen_def rbind_eq_Inr_iff split: if_splits)
    have no: "rbind (all_granted acc ti cx (object_names vbs @ [trap])) (\<lambda>ok. Inr (\<not> ok)) = Inr True"
      using trap(2) by simp
    obtain w3 where "access_denied env ti cx (object_names vbs @ [trap]) (d, g, w2) = (Inr True, d, g, w3)" "good w3"
      using asks_cases [OF asks_access [of ti cx "object_names vbs @ [trap]", unfolded no] w2(2)] by metis
    then show ?thesis using that w1 w2 trap(1) False by (simp add: send_target_def sbind_def sret_def sres_def)
  qed
qed

lemma served_round:
  assumes "pick cx vbs n = Inr (Some ti)" and "good w" and "t = 1 \<or> t = 2"
    and "nextid_inv (nf_handles g)" and "nextid_inv (nf_requestIDs g)"
  obtains a failure rqs d' g' w' where "attempted t ce cx vbs nh cb ti a" "give_all send [a] d = (failure, rqs, d')"
    "send_target env nh t ce cx vbs cb n (d, g, w) = unless_failed env nh cb Ended failure (sret Notified) (d', g', w')"
    "good w'" "nextid_inv (nf_handles g')" "nextid_inv (nf_requestIDs g')"
    "nf_pendingNotifications g' = expects nh (handles_of rqs) (nf_pendingNotifications g)"
proof -
  from assms(1) obtain p trap where tp: "target_of addr_of params_of n = Inr (ti, p)"
    "filter_says_no profile_of filters_of p vbs = Inr False" "notification_name vbs = Inr trap"
    "all_granted acc ti cx (object_names vbs @ [trap]) = Inr True"
    by (auto simp: chosen_def rbind_eq_Inr_iff split: if_splits)
  obtain w1 where w1: "get_target env n (d, g, w) = (Inr (ti, p), d, g, w1)" "good w1"
    using asks_cases [OF asks_target assms(2)] tp(1) by metis
  obtain w2 where w2: "filter_rejects env p vbs (d, g, w1) = (Inr False, d, g, w2)" "good w2"
    using asks_cases [OF asks_filter w1(2)] tp(2) by metis
  have yes: "rbind (all_granted acc ti cx (object_names vbs @ [trap])) (\<lambda>ok. Inr (\<not> ok)) = Inr False"
    using tp(4) by simp
  obtain w3 where w3: "access_denied env ti cx (object_names vbs @ [trap]) (d, g, w2) = (Inr False, d, g, w3)" "good w3"
    using asks_cases [OF asks_access [of ti cx "object_names vbs @ [trap]", unfolded yes] w2(2)] by metis
  obtain rid n' where pdu: "notify_PDU t vbs (d, g, w3) = (Inr (notification t rid vbs), d, g\<lparr>nf_requestIDs := n'\<rparr>, w3)"
    "nextid_inv n'"
    using notify_PDU_drawn [OF assms(3,5)] by metis
  have "nextid_inv (nf_handles (g\<lparr>nf_requestIDs := n'\<rparr>))" using assms(4) by simp
  from served [OF tp(1) assms(3) w3(2) this, where d = d and ce = ce and cx = cx and vbs = vbs and nh = nh and cb = cb and rid = rid]
  obtain a failure rqs d' g' w' h where
    s: "sendNotifyPdu env n ce cx (notification t rid vbs) nh cb (d, g\<lparr>nf_requestIDs := n'\<rparr>, w3) =
        ((case failure of None \<Rightarrow> Inr h | Some e \<Rightarrow> Inl e), d', g', w')"
    and ok: "attempted t ce cx vbs nh cb ti a" "give_all send [a] d = (failure, rqs, d')" "good w'" "nextid_inv (nf_handles g')"
    and kept: "nf_requestIDs g' = nf_requestIDs (g\<lparr>nf_requestIDs := n'\<rparr>)"
      "nf_pendingNotifications g' = nf_pendingNotifications (g\<lparr>nf_requestIDs := n'\<rparr>)"
    and h: "failure = None \<longrightarrow> handles_of rqs = set_option h \<and> (h \<noteq> None \<longleftrightarrow> t = 2)"
    by blast
  have g': "nf_requestIDs g' = n'" "nf_pendingNotifications g' = nf_pendingNotifications g" using kept by simp_all
  show ?thesis
  proof (cases failure)
    case None
    let ?g = "if t = 2 then await nh h g' else g'"
    have "send_target env nh t ce cx vbs cb n (d, g, w) = unless_failed env nh cb Ended failure (sret Notified) (d', ?g, w')"
      using w1 w2 w3 pdu s tp(3) None
      by (simp add: send_target_def sbind_def sret_def sres_def scatch_def unless_failed_def ntf_modify_def on_ntf_def on_fst_def
          on_snd_def smodify_def)
    moreover have "nf_pendingNotifications ?g = expects nh (handles_of rqs) (nf_pendingNotifications g)"
      using g' h None by (cases h) (auto simp: await_def expects_def)
    moreover have "nextid_inv (nf_handles ?g)" "nextid_inv (nf_requestIDs ?g)"
      using ok(4) g' pdu(2) by (simp_all add: await_def split: option.split)
    ultimately show ?thesis using that ok by blast
  next
    case (Some e)
    have "send_target env nh t ce cx vbs cb n (d, g, w) = unless_failed env nh cb Ended failure (sret Notified) (d', g', w')"
      using w1 w2 w3 pdu s tp(3) Some
      by (cases e) (simp_all add: send_target_def sbind_def sret_def sres_def scatch_def sraise_def unless_failed_def)
    moreover have "rqs = []" by (rule give_all_failed [OF ok(2) [unfolded Some]])
    then have "nf_pendingNotifications g' = expects nh (handles_of rqs) (nf_pendingNotifications g)"
      using g' by (simp add: expects_def)
    ultimately show ?thesis using that ok g' pdu(2) by simp
  qed
qed

text \<open>The loop over the targets.\<close>

lemma loop_serves:
  assumes "\<forall>n \<in> set ns. \<exists>c. pick cx vbs n = Inr c"
    and "t = 1 \<or> t = 2" and "good w" and "nextid_inv (nf_handles g)" and "nextid_inv (nf_requestIDs g)"
  shows "\<exists>as failure rqs d' g' w'. list_all2 (attempted t ce cx vbs nh cb) (take (length as) (receivers (pick cx vbs) ns)) as \<and>
    give_all send as d = (failure, rqs, d') \<and> length as = length rqs + (if failure = None then 0 else 1) \<and>
    (failure = None \<longrightarrow> length as = length (receivers (pick cx vbs) ns)) \<and>
    send_targets env nh t ce cx vbs cb ns k (d, g, w) = unless_failed env nh cb () failure
      (if t = 2 \<and> k + length as = 0 then call_if_any env cb (told nh None) else sret ()) (d', g', w') \<and>
    good w' \<and> nf_pendingNotifications g' = expects nh (handles_of rqs) (nf_pendingNotifications g)"
  using assms
proof (induction ns arbitrary: k d g w)
  case Nil
  then show ?case
    by (intro exI [of _ "[]"] exI [of _ None] exI [of _ d] exI [of _ g] exI [of _ w])
      (simp add: unless_failed_def expects_def receivers_def map_filter_def)
next
  case (Cons n ns)
  from Cons.prems(1) obtain c where c: "pick cx vbs n = Inr c" by auto
  have rest: "\<forall>n \<in> set ns. \<exists>c. pick cx vbs n = Inr c" using Cons.prems(1) by simp
  show ?case
  proof (cases c)
    case None
    obtain w1 where w1: "send_target env nh t ce cx vbs cb n (d, g, w) = (Inr Passed, d, g, w1)" "good w1"
      using passed_over [OF _ Cons.prems(3)] c None by metis
    have "receivers (pick cx vbs) (n # ns) = receivers (pick cx vbs) ns" using c None by (simp add: receivers_def map_filter_def)
    with Cons.IH [OF rest Cons.prems(2) w1(2) Cons.prems(4,5), where k = k and d = d] w1(1) show ?thesis by (simp add: sbind_def)
  next
    case (Some ti)
    with c have take: "pick cx vbs n = Inr (Some ti)" by simp
    obtain a e1 rqs1 d1 g1 w1 where s: "attempted t ce cx vbs nh cb ti a" "give_all send [a] d = (e1, rqs1, d1)"
      "send_target env nh t ce cx vbs cb n (d, g, w) = unless_failed env nh cb Ended e1 (sret Notified) (d1, g1, w1)"
      "good w1" "nextid_inv (nf_handles g1)" "nextid_inv (nf_requestIDs g1)"
      "nf_pendingNotifications g1 = expects nh (handles_of rqs1) (nf_pendingNotifications g)"
      by (rule served_round [OF take Cons.prems(3,2,4,5)])
    have r: "receivers (pick cx vbs) (n # ns) = ti # receivers (pick cx vbs) ns" using take by (simp add: receivers_def map_filter_def)
    show ?thesis
    proof (cases e1)
      case e: (Some e)
      have "send_targets env nh t ce cx vbs cb (n # ns) k (d, g, w) = unless_failed env nh cb () e1
          (if t = 2 \<and> k + length [a] = 0 then call_if_any env cb (told nh None) else sret ()) (d1, g1, w1)"
        unfolding e send_targets.simps by (rule unless_failed_Ended, rule s(3) [unfolded e], simp)
      moreover have "rqs1 = []" by (rule give_all_failed [OF s(2) [unfolded e]])
      ultimately show ?thesis
        by (intro exI [of _ "[a]"] exI [of _ e1] exI [of _ rqs1] exI [of _ d1] exI [of _ g1] exI [of _ w1])
          (use r s e in simp)
    next
      case None
      from Cons.IH [OF rest Cons.prems(2) s(4,5,6), where k = "k + 1" and d = d1] obtain as failure rqs d' g' w' where
        ih: "list_all2 (attempted t ce cx vbs nh cb) (take (length as) (receivers (pick cx vbs) ns)) as"
          "give_all send as d1 = (failure, rqs, d')" "length as = length rqs + (if failure = None then 0 else 1)"
          "failure = None \<longrightarrow> length as = length (receivers (pick cx vbs) ns)"
          "send_targets env nh t ce cx vbs cb ns (k + 1) (d1, g1, w1) = unless_failed env nh cb () failure
            (if t = 2 \<and> k + 1 + length as = 0 then call_if_any env cb (told nh None) else sret ()) (d', g', w')"
          "good w'" "nf_pendingNotifications g' = expects nh (handles_of rqs) (nf_pendingNotifications g1)"
        by blast
      have one: "length rqs1 = 1" using s(2) None by (cases a) (auto split: prod.splits sum.splits)
      have "give_all send (a # as) d = (failure, rqs1 @ rqs, d')"
        using give_all_Cons [OF s(2), of as] None ih(2) by simp
      moreover have "send_targets env nh t ce cx vbs cb (n # ns) k (d, g, w) = unless_failed env nh cb () failure
          (if t = 2 \<and> k + length (a # as) = 0 then call_if_any env cb (told nh None) else sret ()) (d', g', w')"
        using s(3) ih(5) None by (simp add: sbind_def unless_failed_def sret_def)
      moreover have "nf_pendingNotifications g' = expects nh (handles_of (rqs1 @ rqs)) (nf_pendingNotifications g)"
        unfolding ih(7) s(7) expects_expects handles_of_append by (simp add: sup_commute)
      moreover have "list_all2 (attempted t ce cx vbs nh cb) (take (length (a # as)) (receivers (pick cx vbs) (n # ns))) (a # as)"
        using s(1) ih(1) r by simp
      ultimately show ?thesis using ih(3,4,6) one r
        by (intro exI [of _ "a # as"] exI [of _ failure] exI [of _ "rqs1 @ rqs"] exI [of _ d'] exI [of _ g'] exI [of _ w']) simp
    qed
  qed
qed

lemma call_serves:
  assumes "info_of target = Inr (tag, t)" and "t = 1 \<or> t = 2" and "length cx \<le> 255"
    and "ne_uptime env = (\<lambda>_. uptime)" and "orderNotificationVarBinds uptime varBinds = Inr vbs" and "names_of tag = Inr ns"
    and "\<forall>n \<in> set ns. \<exists>c. pick cx vbs n = Inr c"
    and "good w" and "nextid_inv (nf_handles g)" and "nextid_inv (nf_requestIDs g)"
  shows "\<exists>nh as failure rqs d' g' w'.
    list_all2 (attempted t ce cx vbs nh cb) (take (length as) (receivers (pick cx vbs) ns)) as \<and>
    give_all send as d = (failure, rqs, d') \<and> length as = length rqs + (if failure = None then 0 else 1) \<and>
    (failure = None \<longrightarrow> length as = length (receivers (pick cx vbs) ns)) \<and>
    notify_sendVarBinds env target ce cx varBinds cb (d, g, w) = unless_failed env nh cb nh failure
      (sbind (if t = 2 \<and> as = [] then call_if_any env cb (told nh None) else sret ()) (\<lambda>_. sret nh)) (d', g', w') \<and>
    good w' \<and> nf_pendingNotifications g' = expects nh (handles_of rqs) (nf_pendingNotifications g)"
proof -
  obtain w1 where w1: "ne_getNotificationInfo env target (d, g, w) = (Inr (tag, t), d, g, w1)" "good w1"
    using asks_cases [OF info assms(8)] assms(1) by metis
  obtain nh m where m: "nextid_call (nf_handles g) = (Inr nh, m)" "nextid_inv m"
    using nextid_call_ok [OF assms(9)] by blast
  let ?g = "g\<lparr>nf_handles := m\<rparr>"
  obtain w2 where w2: "ne_getTargetNames env tag (d, ?g, w1) = (Inr ns, d, ?g, w2)" "good w2"
    using asks_cases [OF names w1(2)] assms(6) by metis
  have inv: "nextid_inv (nf_handles ?g)" "nextid_inv (nf_requestIDs ?g)" using m(2) assms(10) by simp_all
  from loop_serves [OF assms(7,2) w2(2) inv, where ce = ce and nh = nh and cb = cb and d = d and k = 0] obtain as failure rqs d' g' w' where
    s: "list_all2 (attempted t ce cx vbs nh cb) (take (length as) (receivers (pick cx vbs) ns)) as"
      "give_all send as d = (failure, rqs, d')" "length as = length rqs + (if failure = None then 0 else 1)"
      "failure = None \<longrightarrow> length as = length (receivers (pick cx vbs) ns)"
      "send_targets env nh t ce cx vbs cb ns 0 (d, ?g, w2) = unless_failed env nh cb () failure
        (if t = 2 \<and> 0 + length as = 0 then call_if_any env cb (told nh None) else sret ()) (d', g', w')"
      "good w'" "nf_pendingNotifications g' = expects nh (handles_of rqs) (nf_pendingNotifications ?g)"
    by blast
  have "(if cx = [] then Inr cx else SnmpAdminString cx) = Inr cx" using assms(3) by (simp add: SnmpAdminString_def)
  moreover have "ntf_getNextHandle (d, g, w1) = (Inr nh, d, ?g, w1)"
    using m(1) by (simp add: ntf_getNextHandle_def on_ntf_def on_fst_def on_snd_def)
  ultimately have "notify_sendVarBinds env target ce cx varBinds cb (d, g, w) =
      sbind (send_targets env nh t ce cx vbs cb ns 0) (\<lambda>_. sret nh) (d, ?g, w2)"
    using w1(1) w2(1) assms(4,5)
    by (simp add: notify_sendVarBinds_def sbind_def [of "sres x" for x] sbind_def [of "ne_getNotificationInfo env target"]
        sbind_def [of ntf_getNextHandle] sbind_def [of "sget x" for x] sbind_def [of "ne_getTargetNames env tag"]
        sres_def sget_def)
  also have "\<dots> = unless_failed env nh cb nh failure
      (sbind (if t = 2 \<and> as = [] then call_if_any env cb (told nh None) else sret ()) (\<lambda>_. sret nh)) (d', g', w')"
    using s(5) by (auto simp: sbind_def unless_failed_def sret_def sraise_def split: option.split exn.split sum.split prod.split)
  finally show ?thesis using s(1-4,6,7)
    by (intro exI [of _ nh] exI [of _ as] exI [of _ failure] exI [of _ rqs] exI [of _ d'] exI [of _ g'] exI [of _ w'] conjI) simp_all
qed

end

section \<open>The configuration and access control of the engine\<close>

definition on_rest :: "('w, 'a) sm \<Rightarrow> (('d, 'addr, 'w) nt_state, 'a) sm" where
  "on_rest m = on_snd (on_snd m)"

type_synonym lcd = "config_memo \<times> vacm \<times> outcome list"
type_synonym lcd_addr = "address \<times> address option"

text \<open>
  The memos, the caches of access control and what the application was told make up the rest of
  the engine. What \<open>isAccessAllowed\<close> returns is ignored: only an exception denies. The dispatcher's
  \<open>sendPdu\<close> is any operation on its own state, that returns a handle or raises.
\<close>

definition lcd_env :: "target_mib \<Rightarrow> vacm_mib \<Rightarrow> snmp_value \<Rightarrow>
    ((unit notify_call option, lcd_addr) send_request \<Rightarrow> ('d, nat) sm) \<Rightarrow> (unit, lcd_addr, 'd, lcd) nt_env" where
  "lcd_env tm vm uptime send =
     \<lparr>ne_getNotificationInfo = (\<lambda>n. on_rest (on_fst (getNotificationInfo tm n))),
      ne_getTargetNames = (\<lambda>n. on_rest (on_fst (getTargetNames tm n))),
      ne_getTargetAddr = (\<lambda>n. on_rest (on_fst (getTargetAddr tm n))),
      ne_getTargetParams = (\<lambda>n. on_rest (on_fst (getTargetParams tm n))),
      ne_getNotifyFilterProfile = (\<lambda>n. on_rest (on_fst (getNotifyFilterProfile tm n))),
      ne_getNotifyFilter = (\<lambda>n. on_rest (on_fst (getNotifyFilter tm n))),
      ne_isAccessAllowed = (\<lambda>md sn lv vt cx name. on_rest (on_snd (on_fst
         (sbind (isAccessAllowed vm md sn lv vt cx name) (\<lambda>_. sret ()))))),
      ne_sendPdu = (\<lambda>rq. on_fst (send rq)),
      ne_uptime = (\<lambda>_. uptime),
      ne_app = (\<lambda>_ oc. on_rest (on_snd (on_snd (smodify (\<lambda>ocs. ocs @ [oc]))))),
      ne_discoveryRetries = 4, ne_ticks = id\<rparr>"

definition lcd_good :: "target_mib \<Rightarrow> vacm_mib \<Rightarrow> lcd \<Rightarrow> bool" where
  "lcd_good tm vm w \<longleftrightarrow> config_used tm \<and> config_from {tm} (fst w) \<and> synced vm (fst (snd w))"

text \<open>The same answered from the tables themselves.\<close>

definition names_under :: "target_mib \<Rightarrow> octets \<Rightarrow> octets list res" where
  "names_under tm tag = of_option not_configured (tag_names (tg_addrs tm) tag)"

definition read_filters :: "target_mib \<Rightarrow> octets \<Rightarrow> filter_entry list res" where
  "read_filters tm profile = Inr (case profile_filters (tg_filters tm) profile of None \<Rightarrow> [] | Some fs \<Rightarrow> fs)"

definition decides :: "vacm_mib \<Rightarrow> access_fun" where
  "decides vm md sn lv vt cx name = rbind (vacm_decide vm md sn lv vt cx name) (\<lambda>_. Inr ())"

definition lcd_choice :: "target_mib \<Rightarrow> vacm_mib \<Rightarrow> octets \<Rightarrow> var_bind list \<Rightarrow> octets \<Rightarrow> lcd_addr target_info option res" where
  "lcd_choice tm vm = chosen (read_addr tm) (read_params tm) (read_profile tm) (read_filters tm) (decides vm)"

lemma asks_config:
  fixes m :: "(config_memo, 'x) sm"
  assumes "\<And>c. config_used tm \<Longrightarrow> config_from {tm} c \<Longrightarrow> fst (m c) = r \<and> config_from {tm} (snd (m c))"
  shows "asks (lcd_good tm vm) (on_rest (on_fst m)) r"
  unfolding asks_def
proof (intro allI impI)
  fix d :: 'a and g :: "'b ntforg" and w :: lcd
  assume "lcd_good tm vm w"
  then show "\<exists>w'. on_rest (on_fst m) (d, g, w) = (r, d, g, w') \<and> lcd_good tm vm w'"
    using assms [of "fst w"] by (cases w) (auto simp: on_rest_def on_fst_def on_snd_def lcd_good_def split: prod.splits)
qed

lemma asks_access_control:
  "asks (lcd_good tm vm) (on_rest (on_snd (on_fst (sbind (isAccessAllowed vm md sn lv vt cx name) (\<lambda>_. sret ())))))
     (decides vm md sn lv vt cx name)"
  unfolding asks_def
proof (intro allI impI)
  fix d :: 'a and g :: "'b ntforg" and w :: lcd
  assume good: "lcd_good tm vm w"
  obtain c v l where w: "w = (c, v, l)" by (cases w) auto
  obtain r v' where r: "isAccessAllowed vm md sn lv vt cx name v = (r, v')" by (meson surj_pair)
  have "r = vacm_decide vm md sn lv vt cx name" "synced vm v'"
    using isAccessAllowed_decide(1,3) [of vm v md sn lv vt cx name] good r w by (simp_all add: lcd_good_def)
  then show "\<exists>w'. on_rest (on_snd (on_fst (sbind (isAccessAllowed vm md sn lv vt cx name) (\<lambda>_. sret ())))) (d, g, w) =
      (decides vm md sn lv vt cx name, d, g, w') \<and> lcd_good tm vm w'"
    using good r w
    by (cases "vacm_decide vm md sn lv vt cx name") (auto simp: on_rest_def on_snd_def on_fst_def sbind_def sret_def decides_def lcd_good_def)
qed

interpretation lcd: notify_engine "lcd_env tm vm uptime send" "lcd_good tm vm" "read_notify tm" "names_under tm"
    "read_addr tm" "read_params tm" "read_profile tm" "read_filters tm" "decides vm" send
  for tm vm uptime send
proof
  show "asks (lcd_good tm vm) (ne_getNotificationInfo (lcd_env tm vm uptime send) n) (read_notify tm n)" for n
    using getNotificationInfo_from [of tm "{tm}"]
    by (auto simp: lcd_env_def intro!: asks_config) (metis prod.collapse)+
  show "asks (lcd_good tm vm) (ne_getTargetNames (lcd_env tm vm uptime send) n) (names_under tm n)" for n
    using getTargetNames_from [of tm "{tm}"]
    by (auto simp: lcd_env_def names_under_def intro!: asks_config) (metis prod.collapse)+
  show "asks (lcd_good tm vm) (ne_getTargetAddr (lcd_env tm vm uptime send) n) (read_addr tm n)" for n
    using getTargetAddr_from [of tm "{tm}"]
    by (auto simp: lcd_env_def intro!: asks_config) (metis prod.collapse)+
  show "asks (lcd_good tm vm) (ne_getTargetParams (lcd_env tm vm uptime send) n) (read_params tm n)" for n
    using getTargetParams_from [of tm "{tm}"]
    by (auto simp: lcd_env_def intro!: asks_config) (metis prod.collapse)+
  show "asks (lcd_good tm vm) (ne_getNotifyFilterProfile (lcd_env tm vm uptime send) n) (read_profile tm n)" for n
    using getNotifyFilterProfile_from [of tm "{tm}"]
    by (auto simp: lcd_env_def intro!: asks_config) (metis prod.collapse)+
  show "asks (lcd_good tm vm) (ne_getNotifyFilter (lcd_env tm vm uptime send) n) (read_filters tm n)" for n
    using getNotifyFilter_from [of tm "{tm}"]
    by (auto simp: lcd_env_def read_filters_def intro!: asks_config) (metis prod.collapse)+
  show "asks (lcd_good tm vm) (ne_isAccessAllowed (lcd_env tm vm uptime send) md sn lv vt cx name)
      (decides vm md sn lv vt cx name)" for md sn lv vt cx name
    by (simp add: lcd_env_def asks_access_control)
  show "ne_sendPdu (lcd_env tm vm uptime send) rq = on_fst (send rq)" for rq
    by (simp add: lcd_env_def)
qed

text \<open>
  (C20) A notification goes to the targets it is for and no others, up to the first it cannot be
  handed over for. Let the notification target have a tag and the type of a trap or an inform, the
  bindings an order, and every target under the tag a row, parameters and no error in its filters
  and in access control. The targets served are those that their filters let through and for
  which access control allows every object name and the notification's name, in the order of the tag,
  one request each, with that target's address and security and the ordered bindings. The dispatcher takes a request or
  raises; the first exception, or the first target whose version has no such notification (an
  inform under SNMPv1), ends the call, and the targets after it get nothing: a
  \<open>StatusInformation\<close> is told to the application unless informs sent before are waited for, and any other
  exception reaches the caller. Each inform taken by the dispatcher is waited for. If nothing failed and no
  target was left for an inform, the application is told so at once. The tables are read through the
  memos and caches, which makes no difference.
\<close>

theorem notification_reaches_targets:
  assumes "read_notify tm target = Inr (tag, t)" and "t = 1 \<or> t = 2" and "length cx \<le> 255"
    and "orderNotificationVarBinds uptime varBinds = Inr vbs" and "names_under tm tag = Inr ns"
    and "\<forall>n \<in> set ns. \<exists>c. lcd_choice tm vm cx vbs n = Inr c"
    and "lcd_good tm vm w" and "nextid_inv (nf_handles g)" and "nextid_inv (nf_requestIDs g)"
  shows "\<exists>nh as failure rqs d' g' w'.
    list_all2 (attempted t ce cx vbs nh cb) (take (length as) (receivers (lcd_choice tm vm cx vbs) ns)) as \<and>
    give_all send as d = (failure, rqs, d') \<and> length as = length rqs + (if failure = None then 0 else 1) \<and>
    (failure = None \<longrightarrow> length as = length (receivers (lcd_choice tm vm cx vbs) ns)) \<and>
    notify_sendVarBinds (lcd_env tm vm uptime send) target ce cx varBinds cb (d, g, w) =
      unless_failed (lcd_env tm vm uptime send) nh cb nh failure
        (sbind (if t = 2 \<and> as = [] then call_if_any (lcd_env tm vm uptime send) cb (told nh None) else sret ())
          (\<lambda>_. sret nh)) (d', g', w') \<and>
    lcd_good tm vm w' \<and> nf_pendingNotifications g' = expects nh (handles_of rqs) (nf_pendingNotifications g)"
proof -
  have "ne_uptime (lcd_env tm vm uptime send) = (\<lambda>_. uptime)" by (simp add: lcd_env_def)
  from lcd.call_serves [OF assms(1-3) this assms(4,5) _ assms(7-9), where ce = ce and cb = cb and d = d] assms(6)
  show ?thesis unfolding lcd_choice_def by blast
qed

text \<open>Two targets, of which the filters of the second do not let the notification through.\<close>

definition notify_mib :: target_mib where
  "notify_mib = (a_target_mib 1)\<lparr>tg_addrs := [([65], some_target), ([66], some_target\<lparr>ta_params := [81]\<rparr>)],
     tg_sources := [[65] \<mapsto> [], [66] \<mapsto> []],
     tg_params := (\<lambda>_. Some \<lparr>pa_mpModel = 1, pa_securityModel = 2, pa_securityName = [117], pa_securityLevel = 1\<rparr>),
     tg_notify := [[78] \<mapsto> ([116], 1)], tg_profiles := [[81] \<mapsto> ([70], 1)],
     tg_filters := [\<lparr>fr_profileName = [70], fr_subtree = [1, 3, 6], fr_mask = [], fr_type = 2, fr_rowStatus = 1\<rparr>]\<rparr>"

definition open_vacm :: vacm_mib where
  "open_vacm = \<lparr>vm_contextVersion = 1, vm_contexts = [[]], vm_groupVersion = 1, vm_groups = [((2, [117]), [103])],
     vm_accessVersion = 1, vm_access = [\<lparr>ar_status = 1, ar_groupName = [103], ar_contextPrefix = [], ar_securityModel = 2, ar_securityLevel = 1,
       ar_contextMatch = 1, ar_readViewName = [], ar_writeViewName = [], ar_notifyViewName = [118]\<rparr>],
     vm_viewVersion = 1, vm_views = [\<lparr>vr_viewName = [118], vr_subtree = [1, 3], vr_mask = [], vr_type = 1\<rparr>]\<rparr>"

definition sample_ntforg :: "lcd_addr ntforg" where
  "sample_ntforg = \<lparr>nf_pendingReqs = Map.empty, nf_pendingNotifications = Map.empty, nf_jobs = 0,
     nf_handles = cg_handles sample_cmdgen, nf_requestIDs = cg_requestIDs sample_cmdgen\<rparr>"

definition cold_start :: "var_bind list" where
  "cold_start = [(snmpTrapOID, VObjectIdentifier [1, 3, 6, 1, 6, 3, 1, 1, 5, 1])]"

definition open_target :: "lcd_addr target_info" where
  "open_target = \<lparr>ti_transportDomain = [1], ti_transportAddress = (Uninterpreted [7], None), ti_timeout = 100, ti_retryCount = 3,
     ti_messageProcessingModel = 1, ti_securityModel = 2, ti_securityName = [117], ti_securityLevel = 1\<rparr>"

lemma sample_good: "lcd_good notify_mib open_vacm (config_memo_init, vacm_init, [])"
proof -
  have "config_used notify_mib" by (simp add: config_used_def notify_mib_def a_target_mib_def)
  moreover have "synced open_vacm vacm_init" by (rule synced_init) (simp add: versions_used_def open_vacm_def)
  ultimately show ?thesis by (simp add: lcd_good_def config_from_init)
qed

lemma open_vacm_grants: "decides open_vacm 2 [117] 1 notify_view [] [1, 3, 6, 1, 6, 3, 1, 1, 5, 1] = Inr ()"
proof -
  let ?row = "\<lparr>vr_viewName = [118], vr_subtree = [1, 3], vr_mask = [], vr_type = 1\<rparr> :: view_row"
  have "getFamilyViewName (build_access (vm_access open_vacm)) [103] [] 2 1 notify_view = Inr [118]" by code_simp
  moreover have "map_of (rev (vm_groups open_vacm)) (2, [117]) = Some [103]" "[] \<in> set (vm_contexts open_vacm)"
    by (simp_all add: open_vacm_def)
  moreover have "view_rows (vm_views open_vacm) [118] = [?row]" by (simp add: view_rows_def open_vacm_def)
  moreover have "covers [1, 3, 6, 1, 6, 3, 1, 1, 5, 1] ?row"
    by (auto simp: covers_def in_family_def less_Suc_eq numeral_2_eq_2)
  moreover have "reaches [1, 3, 6, 1, 6, 3, 1, 1, 5, 1] ?row" by (simp add: reaches_def mask_bit_def)
  ultimately show ?thesis by (simp add: decides_def vacm_decide_def)
qed

text \<open>A dispatcher that keeps the requests it takes.\<close>

definition keeps :: "'r \<Rightarrow> ('r list, nat) sm" where
  "keeps rq d = (Inr (length d), d @ [rq])"

lemma notification_reaches_targets_witness:
  "\<exists>nh rq g' w'. notify_sendVarBinds (lcd_env notify_mib open_vacm (VTimeTicks 0) keeps) [78] None [] cold_start None
      ([], sample_ntforg, config_memo_init, vacm_init, []) = (Inr nh, [rq], g', w') \<and>
    sq_transportAddress rq = (Uninterpreted [7], None)"
proof -
  let ?vbs = "(sysUpTime, VTimeTicks 0) # cold_start"
  have target: "target_of (read_addr notify_mib) (read_params notify_mib) [65] = Inr (open_target, [80])"
    "target_of (read_addr notify_mib) (read_params notify_mib) [66] = Inr (open_target, [81])" by code_simp+
  have rows: "filter_says_no (read_profile notify_mib) (read_filters notify_mib) [80] ?vbs = Inr False"
    "filter_says_no (read_profile notify_mib) (read_filters notify_mib) [81] ?vbs = Inr True" by code_simp+
  have name: "notification_name ?vbs = Inr [1, 3, 6, 1, 6, 3, 1, 1, 5, 1]" "object_names ?vbs = []"
    "ti_securityModel open_target = 2" "ti_securityName open_target = [117]" "ti_securityLevel open_target = 1" by code_simp+
  have c: "lcd_choice notify_mib open_vacm [] ?vbs [65] = Inr (Some open_target)"
    "lcd_choice notify_mib open_vacm [] ?vbs [66] = Inr None"
    by (simp_all add: lcd_choice_def chosen_def target open_vacm_grants [simplified] name rows)
  have ids: "nextid_inv (nf_handles sample_ntforg)" "nextid_inv (nf_requestIDs sample_ntforg)"
    using sample_ids by (simp_all add: sample_ntforg_def ids_ok_def)
  have order: "orderNotificationVarBinds (VTimeTicks 0) cold_start = Inr ?vbs" by code_simp
  have read: "read_notify notify_mib [78] = Inr ([116], 1)" "names_under notify_mib [116] = Inr [[65], [66]]" by code_simp+
  have each: "\<forall>n \<in> set [[65], [66]]. \<exists>c. lcd_choice notify_mib open_vacm [] ?vbs n = Inr c" using c by auto
  have "receivers (lcd_choice notify_mib open_vacm [] ?vbs) [[65], [66]] = [open_target]"
    by (simp add: receivers_def map_filter_def c)
  moreover have "(1 :: int) = 1 \<or> (1 :: int) = 2" "length ([] :: octets) \<le> 255" by simp_all
  note notification_reaches_targets [OF read(1) this order read(2) each sample_good ids,
      where send = keeps and ce = None and cb = None and d = "[]"]
  ultimately obtain nh as failure rqs d' g' w' where
    as: "list_all2 (attempted 1 None [] ?vbs nh None) (take (length as) [open_target]) as"
      "give_all keeps as [] = (failure, rqs, d')" "failure = None \<longrightarrow> length as = length [open_target]"
    and r: "notify_sendVarBinds (lcd_env notify_mib open_vacm (VTimeTicks 0) keeps) [78] None [] cold_start None
        ([], sample_ntforg, config_memo_init, vacm_init, []) =
      unless_failed (lcd_env notify_mib open_vacm (VTimeTicks 0) keeps) nh None nh failure
        (sbind (if (1 :: int) = 2 \<and> as = []
            then call_if_any (lcd_env notify_mib open_vacm (VTimeTicks 0) keeps) None (told nh None) else sret ())
          (\<lambda>_. sret nh)) (d', g', w')"
    by (simp only:) blast
  have "\<not> (\<exists>rid e. versioned_PDU 1 (notification 1 rid ?vbs) = Inl e)" by (simp add: versioned_PDU_def)
  then have "\<exists>rq. a = Inr rq \<and> carries 1 None [] ?vbs nh None open_target rq"
    if "attempted 1 None [] ?vbs nh None open_target a" for a
    using that by (cases a) (auto simp: attempted_def open_target_def)
  then have one: "as = [] \<or> (\<exists>rq. as = [Inr rq] \<and> carries 1 None [] ?vbs nh None open_target rq)"
    using as(1) by (cases as) (auto simp: list_all2_Cons2)
  then have "failure = None" using as(2) by (auto simp: keeps_def)
  with one as r show ?thesis
    by (cases w') (auto simp: keeps_def unless_failed_def sbind_def sret_def carries_def open_target_def)
qed

end
