(* ===== verification/Ntforg_Done.thy ===== *)
theory Ntforg_Done
  imports Ntforg
begin

text \<open>
  When the application is told that an inform is finished. The answers of the targets, or the
  failures after which the originator gives up on them, come in any order; \<open>settle_all\<close> is the
  dispatcher delivering them one after the other.
\<close>

section \<open>One target settled\<close>

type_synonym settling = "nat \<times> nat \<times> int option \<times> (status_info + v1_pdu)"

definition settles_inform :: "('k, 'addr, 'd, 'w) nt_env \<Rightarrow> 'addr ntforg \<Rightarrow> settling \<Rightarrow> bool" where
  "settles_inform env g ev = (case ev of (ph, srh, m, response) \<Rightarrow>
     (case nf_pendingReqs g ph of
        None \<Rightarrow> False
      | Some p \<Rightarrow>
          (case response of
             Inr (V1Pdu q) \<Rightarrow> m \<noteq> Some 0
           | Inr (V1Trap t) \<Rightarrow> False
           | Inl si \<Rightarrow> (case si_errorIndication si of None \<Rightarrow> False | Some e \<Rightarrow> gives_up env (spend_notify_retry e p)))))"

text \<open>What the application is told of it, should it be the last one.\<close>

definition outcome_of :: "settling \<Rightarrow> outcome" where
  "outcome_of ev = (case ev of (ph, srh, m, response) \<Rightarrow>
     (case response of
        Inr (V1Pdu q) \<Rightarrow> \<lparr>oc_handle = srh, oc_errorIndication = None, oc_errorStatus = p_errorStatus q,
          oc_errorIndex = min (p_errorIndex q) (int (length (p_varBinds q))), oc_varBinds = p_varBinds q\<rparr>
      | Inr (V1Trap t) \<Rightarrow> told srh None
      | Inl si \<Rightarrow> told srh (si_errorIndication si)))"

fun settle_all :: "('k, 'addr, 'd, 'w) nt_env \<Rightarrow> nat \<Rightarrow> 'k \<Rightarrow> settling list \<Rightarrow> (('d, 'addr, 'w) nt_state, unit) sm" where
  "settle_all env nh k [] = sret ()"
| "settle_all env nh k ((ph, srh, m, response) # evs) =
     sbind (notify_processResponsePdu env (srh, nh, Some k) m response ph) (\<lambda>_. settle_all env nh k evs)"

lemma on_ntf_simps [simp]:
  "ntf_modify f (d, g, w) = (Inr (), d, f g, w)"
  "on_ntf m (d, g, w) = (fst (m g), d, snd (m g), w)"
  by (simp_all add: ntf_modify_def on_ntf_def on_fst_def on_snd_def smodify_def split: prod.splits)

lemma getErrorIndex_muted: "getErrorIndex True p = Inr (min (p_errorIndex p) (int (length (p_varBinds p))))"
  by (simp add: getErrorIndex_def min_def)

definition inform_settled :: "nat \<Rightarrow> 'addr ntforg \<Rightarrow> 'addr ntforg" where
  "inform_settled ph g = g\<lparr>nf_pendingReqs := (nf_pendingReqs g)(ph := None), nf_jobs := nf_jobs g - 1\<rparr>"

lemma settled_simps [simp]:
  "nf_pendingReqs (inform_settled ph g) = (nf_pendingReqs g)(ph := None)" "nf_jobs (inform_settled ph g) = nf_jobs g - 1"
  "nf_pendingNotifications (inform_settled ph g) = nf_pendingNotifications g"
  by (simp_all add: inform_settled_def)

text \<open>A target that is not the last one leaves the application alone; the last one is reported.\<close>

lemma settle_step:
  assumes "settles_inform env g (ph, srh, m, response)" and "nf_jobs g \<noteq> 0" and "nf_pendingNotifications g nh = Some hs" and "srh \<in> hs"
  shows "notify_processResponsePdu env (srh, nh, Some k) m response ph (d, g, w) =
    (if hs \<noteq> {srh} then (Inr (), d, (inform_settled ph g)\<lparr>nf_pendingNotifications := (nf_pendingNotifications g)(nh \<mapsto> hs - {srh})\<rparr>, w)
     else ne_app env k (outcome_of (ph, srh, m, response))
       (d, (inform_settled ph g)\<lparr>nf_pendingNotifications := (nf_pendingNotifications g)(nh := None)\<rparr>, w))"
proof -
  obtain p where p: "nf_pendingReqs g ph = Some p" using assms(1) by (auto simp: settles_inform_def split: option.splits)
  have vb: "notify_processResponseVarBinds env (srh, nh, Some k) ei PDU (d, inform_settled ph g, w) =
    (if hs \<noteq> {srh} then (Inr (), d, (inform_settled ph g)\<lparr>nf_pendingNotifications := (nf_pendingNotifications g)(nh \<mapsto> hs - {srh})\<rparr>, w)
     else ne_app env k \<lparr>oc_handle = srh, oc_errorIndication = ei,
         oc_errorStatus = (case PDU of None \<Rightarrow> 0 | Some q \<Rightarrow> p_errorStatus q),
         oc_errorIndex = (case PDU of None \<Rightarrow> 0 | Some q \<Rightarrow> min (p_errorIndex q) (int (length (p_varBinds q)))),
         oc_varBinds = (case PDU of None \<Rightarrow> [] | Some q \<Rightarrow> p_varBinds q)\<rparr>
       (d, (inform_settled ph g)\<lparr>nf_pendingNotifications := (nf_pendingNotifications g)(nh := None)\<rparr>, w))" for ei PDU
    using assms(3,4)
    by (auto simp: notify_processResponseVarBinds_def sbind_def sret_def sres_def getErrorIndex_muted split: option.split)
  have first: "notify_processResponsePdu env (srh, nh, Some k) m response ph (d, g, w) =
    (case response of Inl si \<Rightarrow> inform_failed env m p si (srh, nh, Some k)
     | Inr rsp \<Rightarrow> inform_answered env m p rsp (srh, nh, Some k)) (d, inform_settled ph g, w)"
    using p assms(2)
    by (simp add: notify_processResponsePdu_def take_inform_def ntf_jobFinished_def sbind_def inform_settled_def split: sum.split)
  show ?thesis
  proof (cases response)
    case (Inl si)
    with assms(1) p obtain e where e: "si_errorIndication si = Some e" "gives_up env (spend_notify_retry e p)"
      by (auto simp: settles_inform_def split: option.splits)
    with Inl show ?thesis
      unfolding first by (simp add: inform_failed_def Let_def vb outcome_of_def told_def)
  next
    case (Inr rsp)
    with assms(1) p obtain q where "rsp = V1Pdu q" "m \<noteq> Some 0"
      by (cases rsp) (auto simp: settles_inform_def)
    with Inr show ?thesis
      unfolding first by (simp add: inform_answered_def sbind_def sret_def vb outcome_of_def)
  qed
qed

section \<open>All targets settled\<close>

lemma settles_settled:
  "settles_inform env (g'\<lparr>nf_pendingNotifications := n\<rparr>) ev \<longleftrightarrow> settles_inform env g' ev"
  "ph \<noteq> fst ev \<Longrightarrow> settles_inform env (inform_settled ph g) ev \<longleftrightarrow> settles_inform env g ev"
  by (cases ev; simp add: settles_inform_def)+

lemma settle_some:
  assumes "distinct (map fst evs)" and "distinct (map (fst \<circ> snd) evs)" and "\<forall>ev \<in> set evs. settles_inform env g ev"
    and "nf_pendingNotifications g nh = Some ((fst \<circ> snd) ` set evs \<union> R)" and "R \<noteq> {}" and "R \<inter> (fst \<circ> snd) ` set evs = {}"
    and "length evs \<le> nf_jobs g"
  shows "\<exists>g'. settle_all env nh k evs (d, g, w) = (Inr (), d, g', w) \<and>
    nf_pendingNotifications g' = (nf_pendingNotifications g)(nh \<mapsto> R) \<and>
    nf_pendingReqs g' = (nf_pendingReqs g) |` (- fst ` set evs) \<and> nf_jobs g' = nf_jobs g - length evs"
  using assms
proof (induction evs arbitrary: g)
  case Nil
  then show ?case by (auto simp: sret_def fun_upd_idem)
next
  case (Cons ev evs)
  obtain ph srh m response where ev: "ev = (ph, srh, m, response)" by (cases ev) auto
  let ?hs = "(fst \<circ> snd) ` set (ev # evs) \<union> R"
  define G where "G = (inform_settled ph g)\<lparr>nf_pendingNotifications := (nf_pendingNotifications g)(nh \<mapsto> ?hs - {srh})\<rparr>"
  have fresh: "srh \<notin> (fst \<circ> snd) ` set evs" "ph \<notin> fst ` set evs" "srh \<notin> R"
    using Cons.prems(1,2,6) by (auto simp: ev)
  have hs: "?hs - {srh} = (fst \<circ> snd) ` set evs \<union> R" using fresh by (auto simp: ev)
  have G: "nf_pendingNotifications G = (nf_pendingNotifications g)(nh \<mapsto> (fst \<circ> snd) ` set evs \<union> R)"
    "nf_pendingReqs G = (nf_pendingReqs g)(ph := None)" "nf_jobs G = nf_jobs g - 1"
    unfolding G_def hs by simp_all
  have "?hs \<noteq> {srh}" using Cons.prems(5) fresh(3) by auto
  then have step: "notify_processResponsePdu env (srh, nh, Some k) m response ph (d, g, w) = (Inr (), d, G, w)"
    using settle_step [of env g ph srh m response nh ?hs k d w] Cons.prems(3,4,7) by (auto simp: ev G_def)
  have each: "\<forall>e \<in> set evs. settles_inform env G e"
  proof
    fix e assume "e \<in> set evs"
    with fresh(2) have "ph \<noteq> fst e" by force
    with Cons.prems(3) \<open>e \<in> set evs\<close> show "settles_inform env G e" by (simp add: settles_settled G_def)
  qed
  have "\<exists>g'. settle_all env nh k evs (d, G, w) = (Inr (), d, g', w) \<and>
    nf_pendingNotifications g' = (nf_pendingNotifications G)(nh \<mapsto> R) \<and>
    nf_pendingReqs g' = (nf_pendingReqs G) |` (- fst ` set evs) \<and> nf_jobs g' = nf_jobs G - length evs"
  proof (rule Cons.IH)
    show "distinct (map fst evs)" "distinct (map (fst \<circ> snd) evs)" using Cons.prems(1,2) by (simp_all add: comp_def)
    show "R \<inter> (fst \<circ> snd) ` set evs = {}" using Cons.prems(6) by auto
    show "nf_pendingNotifications G nh = Some ((fst \<circ> snd) ` set evs \<union> R)" using G(1) by simp
    show "length evs \<le> nf_jobs G" using Cons.prems(7) G(3) by simp
  qed (fact each Cons.prems(5))+
  then obtain g' where g': "settle_all env nh k evs (d, G, w) = (Inr (), d, g', w)"
    "nf_pendingNotifications g' = (nf_pendingNotifications G)(nh \<mapsto> R)"
    "nf_pendingReqs g' = (nf_pendingReqs G) |` (- fst ` set evs)" "nf_jobs g' = nf_jobs G - length evs" by blast
  have "settle_all env nh k (ev # evs) (d, g, w) = (Inr (), d, g', w)"
    unfolding ev settle_all.simps using step g'(1) by (simp add: sbind_def)
  moreover have "nf_pendingReqs g' = (nf_pendingReqs g) |` (- fst ` set (ev # evs))"
    unfolding g'(3) G(2) by (auto simp: ev restrict_map_def fun_eq_iff)
  moreover have "nf_pendingNotifications g' = (nf_pendingNotifications g)(nh \<mapsto> R)" unfolding g'(2) G(1) by simp
  moreover have "nf_jobs g' = nf_jobs g - length (ev # evs)" unfolding g'(4) G(3) by simp
  ultimately show ?case by blast
qed

text \<open>
  (C21) The application is told once that an inform is finished, when the last of its targets
  has answered or has been given up, whatever the order. Let an inform wait for certain targets, let their
  requests be pending, and let each of them be settled in turn. Up to the last one the
  application is told nothing and the inform is still waited for; the last one makes the one call of the
  application, with that target's own outcome, and then neither the inform nor any of its requests
  is waited for any longer.
\<close>

theorem inform_completes_once:
  assumes "distinct (map fst (evs @ [ev]))" and "distinct (map (fst \<circ> snd) (evs @ [ev]))"
    and "\<forall>e \<in> set (evs @ [ev]). settles_inform env g e"
    and "nf_pendingNotifications g nh = Some ((fst \<circ> snd) ` set (evs @ [ev]))" and "length (evs @ [ev]) \<le> nf_jobs g"
  shows "\<exists>g' g''. settle_all env nh k evs (d, g, w) = (Inr (), d, g', w) \<and>
    nf_pendingNotifications g' nh = Some {fst (snd ev)} \<and>
    settle_all env nh k (evs @ [ev]) (d, g, w) = ne_app env k (outcome_of ev) (d, g'', w) \<and>
    nf_pendingNotifications g'' = (nf_pendingNotifications g)(nh := None) \<and>
    nf_pendingReqs g'' = (nf_pendingReqs g) |` (- fst ` set (evs @ [ev])) \<and>
    nf_jobs g'' = nf_jobs g - length (evs @ [ev])"
proof -
  obtain ph srh m response where ev: "ev = (ph, srh, m, response)" by (cases ev) auto
  have "\<exists>g'. settle_all env nh k evs (d, g, w) = (Inr (), d, g', w) \<and>
    nf_pendingNotifications g' = (nf_pendingNotifications g)(nh \<mapsto> {srh}) \<and>
    nf_pendingReqs g' = (nf_pendingReqs g) |` (- fst ` set evs) \<and> nf_jobs g' = nf_jobs g - length evs"
    by (rule settle_some) (use assms in \<open>auto simp: ev\<close>)
  then obtain g' where g': "settle_all env nh k evs (d, g, w) = (Inr (), d, g', w)"
    "nf_pendingNotifications g' = (nf_pendingNotifications g)(nh \<mapsto> {srh})"
    "nf_pendingReqs g' = (nf_pendingReqs g) |` (- fst ` set evs)" "nf_jobs g' = nf_jobs g - length evs" by blast
  have "nf_pendingReqs g' ph = nf_pendingReqs g ph" using assms(1) g'(3) by (auto simp: ev restrict_map_def)
  then have "settles_inform env g' ev" using assms(3) by (simp add: ev settles_inform_def)
  moreover have "nf_jobs g' \<noteq> 0" using g'(4) assms(5) by simp
  moreover have "nf_pendingNotifications g' nh = Some {srh}" using g'(2) by simp
  ultimately have last: "notify_processResponsePdu env (srh, nh, Some k) m response ph (d, g', w) =
      ne_app env k (outcome_of ev) (d, (inform_settled ph g')\<lparr>nf_pendingNotifications := (nf_pendingNotifications g')(nh := None)\<rparr>, w)"
    using settle_step [of env g' ph srh m response nh "{srh}" k d w] by (simp add: ev)
  let ?g = "(inform_settled ph g')\<lparr>nf_pendingNotifications := (nf_pendingNotifications g')(nh := None)\<rparr>"
  have app: "settle_all env nh k (xs @ ys) s = sbind (settle_all env nh k xs) (\<lambda>_. settle_all env nh k ys) s" for xs ys s
    by (induction xs arbitrary: s) (auto simp: sbind_def sret_def split: prod.splits sum.splits)
  have "settle_all env nh k (evs @ [ev]) (d, g, w) = ne_app env k (outcome_of ev) (d, ?g, w)"
    using g'(1) last by (simp add: app ev sbind_def sret_def split: prod.split sum.split)
  moreover have "nf_pendingReqs ?g = (nf_pendingReqs g) |` (- fst ` set (evs @ [ev]))"
    using g'(3) by (auto simp: ev restrict_map_def fun_eq_iff)
  moreover have "nf_pendingNotifications ?g = (nf_pendingNotifications g)(nh := None)" using g'(2) by simp
  moreover have "nf_jobs ?g = nf_jobs g - length (evs @ [ev])" using g'(4) by simp
  ultimately show ?thesis using g'(1,2) by (auto simp: ev)
qed

text \<open>An inform to two targets, of which the second answers first and the first never.\<close>

definition acking_env :: "(unit, nat, unit, outcome list) nt_env" where
  "acking_env = \<lparr>ne_getNotificationInfo = (\<lambda>_. sraise KeyError), ne_getTargetNames = (\<lambda>_. sraise KeyError),
     ne_getTargetAddr = (\<lambda>_. sraise KeyError), ne_getTargetParams = (\<lambda>_. sraise KeyError),
     ne_getNotifyFilterProfile = (\<lambda>_. sraise KeyError), ne_getNotifyFilter = (\<lambda>_. sraise KeyError),
     ne_isAccessAllowed = (\<lambda>_ _ _ _ _ _. sret ()), ne_sendPdu = (\<lambda>_. sraise KeyError), ne_uptime = (\<lambda>_. VTimeTicks 0),
     ne_app = (\<lambda>_ oc (d, g, w). (Inr (), d, g, w @ [oc])), ne_discoveryRetries = 4, ne_ticks = id\<rparr>"

definition sent_inform :: "nat pending_inform" where
  "sent_inform = \<lparr>np_transportDomain = [1], np_transportAddress = 9, np_messageProcessingModel = 1, np_securityModel = 2,
     np_securityName = [112], np_securityLevel = 1, np_contextEngineId = None, np_contextName = [],
     np_PDU = pdu_clone InformRequest, np_timeout = 100, np_retryCount = 1, np_retries = 1, np_discoveryRetries = 0\<rparr>"

definition waiting_ntforg :: "nat ntforg" where
  "waiting_ntforg = \<lparr>nf_pendingReqs = [31 \<mapsto> sent_inform, 32 \<mapsto> sent_inform], nf_pendingNotifications = [5 \<mapsto> {11, 12}],
     nf_jobs = 2, nf_handles = cg_handles sample_cmdgen, nf_requestIDs = cg_requestIDs sample_cmdgen\<rparr>"

lemma inform_completes_once_witness:
  "\<exists>g''. settle_all acking_env 5 () [(32, 12, Some 1, Inr (V1Pdu (pdu_clone Response))), (31, 11, None, Inl timed_out)]
      ((), waiting_ntforg, []) = (Inr (), (), g'', [told 11 (Some requestTimedOut)]) \<and>
    nf_pendingNotifications g'' 5 = None"
proof -
  let ?a = "(32, 12, Some 1, Inr (V1Pdu (pdu_clone Response))) :: settling"
    and ?b = "(31, 11, None, Inl timed_out) :: settling"
  have "\<exists>g' g''. settle_all acking_env 5 () [?a] ((), waiting_ntforg, []) = (Inr (), (), g', []) \<and>
    nf_pendingNotifications g' 5 = Some {fst (snd ?b)} \<and>
    settle_all acking_env 5 () ([?a] @ [?b]) ((), waiting_ntforg, []) = ne_app acking_env () (outcome_of ?b) ((), g'', []) \<and>
    nf_pendingNotifications g'' = (nf_pendingNotifications waiting_ntforg)(5 := None) \<and>
    nf_pendingReqs g'' = (nf_pendingReqs waiting_ntforg) |` (- fst ` set ([?a] @ [?b])) \<and>
    nf_jobs g'' = nf_jobs waiting_ntforg - length ([?a] @ [?b])"
    by (rule inform_completes_once)
      (auto simp: waiting_ntforg_def settles_inform_def timed_out_def no_details_def gives_up_def spend_notify_retry_def
        sent_inform_def acking_env_def is_discovery_def)
  then show ?thesis by (auto simp: acking_env_def outcome_of_def timed_out_def no_details_def)
qed

end
