(* ===== verification/Ntfrcv.thy ===== *)
theory Ntfrcv
  imports Proxy Dispatcher
begin

text \<open>
  The notification receiver, \<open>pysnmp/entity/rfc3413/ntfrcv.py\<close>: traps and informs are handed to a
  callback, and an inform is acknowledged before.

  A callback takes five arguments or six; a call with the wrong number is a \<open>TypeError\<close>, and so
  is one the callback raises itself. The two ways to call it, the dispatcher's operations and
  the rest of the engine are the record \<open>nv_env\<close> and the type \<open>'w\<close>. The receiver's observer has the
  community of the message that is being processed; the receiver is closed when its
  callback is gone.

  The lemmas show what is answered and in which order, and what becomes of the two ways to call.
\<close>

section \<open>State\<close>

record ntfrcv =
  nr_snmpTrapCommunity :: octets
  nr_cbFunVer :: bool
  nr_closed :: bool
  nr_requestIDs :: nextid
  nr_snmpSilentDrops :: int

type_synonym 'w nv_state = "ntfrcv \<times> 'w"

record 'w nv_env =
  nv_registerContextEngineId :: "octets \<Rightarrow> pdu_type list \<Rightarrow> ('w, unit) sm"
  nv_unregisterContextEngineId :: "octets \<Rightarrow> pdu_type list \<Rightarrow> ('w, unit) sm"
  nv_returnResponsePdu :: "data_elements \<Rightarrow> status_info option \<Rightarrow> ('w, unit) sm"
  nv_cbFun5 :: "octets \<Rightarrow> octets \<Rightarrow> var_bind list \<Rightarrow> ('w, unit) sm"
  nv_cbFun6 :: "nat option \<Rightarrow> octets \<Rightarrow> octets \<Rightarrow> var_bind list \<Rightarrow> ('w, unit) sm"

definition pduTypes :: "pdu_type list" where
  "pduTypes = [Trap, SNMPv2Trap, InformRequest]"

definition ntfrcv_init :: "'w nv_env \<Rightarrow> nextid \<Rightarrow> int \<Rightarrow> ('w, ntfrcv) sm" where
  "ntfrcv_init env requestIDs drops =
     sbind (nv_registerContextEngineId env [] pduTypes) (\<lambda>_.
     sret \<lparr>nr_snmpTrapCommunity = [], nr_cbFunVer = False, nr_closed = False, nr_requestIDs = requestIDs,
       nr_snmpSilentDrops = drops\<rparr>)"

definition storeSnmpTrapCommunity :: "octets option \<Rightarrow> ('w nv_state, unit) sm" where
  "storeSnmpTrapCommunity communityName =
     on_fst (smodify (\<lambda>r. r\<lparr>nr_snmpTrapCommunity := case communityName of None \<Rightarrow> [] | Some c \<Rightarrow> c\<rparr>))"

definition ntfrcv_close :: "'w nv_env \<Rightarrow> ('w nv_state, unit) sm" where
  "ntfrcv_close env =
     sbind (on_snd (nv_unregisterContextEngineId env [] pduTypes)) (\<lambda>_.
     on_fst (smodify (\<lambda>r. r\<lparr>nr_closed := True\<rparr>)))"

section \<open>Notifications\<close>

text \<open>The notification as an SNMPv2 PDU; a trap of SNMPv1 only comes in a message of SNMPv1.\<close>

definition received_PDU :: "data_elements \<Rightarrow> ('w nv_state, pdu) sm" where
  "received_PDU de =
     (if de_messageProcessingModel de = 0
      then sbind (sget (\<lambda>s. nr_snmpTrapCommunity (fst s))) (\<lambda>community.
        on_fst (\<lambda>r. case v1ToV2 (de_PDU de) None community (nr_requestIDs r) of (x, n) \<Rightarrow> (x, r\<lparr>nr_requestIDs := n\<rparr>)))
      else case de_PDU de of V1Pdu p \<Rightarrow> sret p | V1Trap t \<Rightarrow> sraise PyAsn1Error)"

definition confirmation :: "data_elements \<Rightarrow> pdu \<Rightarrow> ('w nv_state, v1_pdu) sm" where
  "confirmation de PDU =
     sbind (on_fst (\<lambda>r. case v2_getResponse PDU (nr_requestIDs r) of (x, n) \<Rightarrow> (x, r\<lparr>nr_requestIDs := n\<rparr>))) (\<lambda>rspPDU.
     sbind (sres (v2_setErrorIndex 0 (setErrorStatus 0 rspPDU))) (\<lambda>rspPDU.
     let rspPDU = setVarBinds (map (\<lambda>(n, v). (n, Some v)) (p_varBinds PDU)) rspPDU in
     sres (if de_messageProcessingModel de = 0 then v2ToV1 rspPDU (Some (de_PDU de)) else Inr (V1Pdu rspPDU))))"

definition confirm :: "'w nv_env \<Rightarrow> data_elements \<Rightarrow> pdu \<Rightarrow> ('w nv_state, unit) sm" where
  "confirm env de PDU =
     sbind (confirmation de PDU) (\<lambda>rspPDU.
     scatch (on_snd (nv_returnResponsePdu env (de\<lparr>de_PDU := rspPDU\<rparr>) None))
       (\<lambda>e. if is_StatusInformation e
            then on_fst (smodify (\<lambda>r. r\<lparr>nr_snmpSilentDrops := inc32 (nr_snmpSilentDrops r)\<rparr>))
            else sraise e))"

definition cbFun5 :: "'w nv_env \<Rightarrow> data_elements \<Rightarrow> var_bind list \<Rightarrow> ('w nv_state, unit) sm" where
  "cbFun5 env de varBinds =
     sbind (sget (\<lambda>s. nr_closed (fst s))) (\<lambda>closed.
     if closed then sraise TypeError
     else on_snd (nv_cbFun5 env (de_contextEngineId de) (de_contextName de) varBinds))"

definition cbFun6 :: "'w nv_env \<Rightarrow> data_elements \<Rightarrow> var_bind list \<Rightarrow> ('w nv_state, unit) sm" where
  "cbFun6 env de varBinds =
     sbind (sget (\<lambda>s. nr_closed (fst s))) (\<lambda>closed.
     if closed then sraise TypeError
     else on_snd (nv_cbFun6 env (de_stateReference de) (de_contextEngineId de) (de_contextName de) varBinds))"

definition call_user :: "'w nv_env \<Rightarrow> data_elements \<Rightarrow> var_bind list \<Rightarrow> ('w nv_state, unit) sm" where
  "call_user env de varBinds =
     sbind (sget (\<lambda>s. nr_cbFunVer (fst s))) (\<lambda>ver.
     if ver then cbFun6 env de varBinds
     else scatch (cbFun5 env de varBinds)
       (\<lambda>e. if e = TypeError
            then sbind (on_fst (smodify (\<lambda>r. r\<lparr>nr_cbFunVer := True\<rparr>))) (\<lambda>_. cbFun6 env de varBinds)
            else sraise e))"

definition ntfrcv_processPdu :: "'w nv_env \<Rightarrow> data_elements \<Rightarrow> ('w nv_state, unit) sm" where
  "ntfrcv_processPdu env de =
     sbind (received_PDU de) (\<lambda>PDU.
     sbind (if confirmedClass (p_type PDU) then confirm env de PDU
            else if unconfirmedClass (p_type PDU) then sret ()
            else sraise ProtocolError) (\<lambda>_.
     call_user env de (p_varBinds PDU)))"

section \<open>Answers\<close>

definition acknowledgement :: "pdu \<Rightarrow> pdu" where
  "acknowledgement PDU = \<lparr>p_type = Response, p_requestID = p_requestID PDU, p_errorStatus = 0, p_errorIndex = 0,
     p_varBinds = p_varBinds PDU\<rparr>"

lemma confirmation_echoes:
  assumes "de_messageProcessingModel de \<noteq> 0" and "in_range (-2147483648) 2147483647 (p_requestID PDU)"
    and "nextid_inv (nr_requestIDs r)"
  obtains n where "nextid_inv n"
    "confirmation de PDU (r, w) = (Inr (V1Pdu (acknowledgement PDU)), r\<lparr>nr_requestIDs := n\<rparr>, w)"
proof -
  from nextid_call_ok [OF assms(3)] obtain v n where n: "nextid_call (nr_requestIDs r) = (Inr v, n)" "nextid_inv n" by blast
  have "map (\<lambda>(n, v). (n, case v of None \<Rightarrow> VNull | Some v \<Rightarrow> v)) (map (\<lambda>(n, v). (n, Some v)) vbs) = vbs" for vbs :: "var_bind list"
    by (induction vbs) auto
  then have "confirmation de PDU (r, w) = (Inr (V1Pdu (acknowledgement PDU)), r\<lparr>nr_requestIDs := n\<rparr>, w)"
    using assms(1,2) n(1)
    by (simp add: confirmation_def v2_getResponse_def setDefaults_def sbind_def sret_def sres_def on_fst_def pdu_clone_def
        v2_setRequestID_def v2_setErrorIndex_def setErrorStatus_def setVarBinds_def acknowledgement_def in_range_def
        max_bindings_def)
  with n(2) show ?thesis using that by blast
qed

text \<open>
  (C22) An inform is acknowledged before the application sees it, and a trap never is. A notification
  that comes over SNMPv2c or SNMPv3 is handed to the application with its own bindings. Before,
  and only for an inform, the dispatcher is given the response: the inform's request ID, no error and
  the inform's bindings, with the same state reference. If sending that fails with a status, the
  failure is counted and the application told nevertheless.
\<close>

theorem inform_acknowledged:
  assumes "de_messageProcessingModel de \<noteq> 0" and "de_PDU de = V1Pdu PDU" and "p_type PDU \<in> {SNMPv2Trap, InformRequest}"
    and "in_range (-2147483648) 2147483647 (p_requestID PDU)" and "nextid_inv (nr_requestIDs r)"
    and "nv_returnResponsePdu env (de\<lparr>de_PDU := V1Pdu (acknowledgement PDU)\<rparr>) None w = (answer, w')"
    and "\<forall>e. answer = Inl e \<longrightarrow> is_StatusInformation e"
  shows "\<exists>n. nextid_inv n \<and> ntfrcv_processPdu env de (r, w) =
    (if p_type PDU = InformRequest
     then call_user env de (p_varBinds PDU) (r\<lparr>nr_requestIDs := n,
       nr_snmpSilentDrops := (if isl answer then inc32 (nr_snmpSilentDrops r) else nr_snmpSilentDrops r)\<rparr>, w')
     else call_user env de (p_varBinds PDU) (r, w))"
proof -
  have r: "received_PDU de (r, w) = (Inr PDU, r, w)" using assms(1,2) by (simp add: received_PDU_def sret_def)
  obtain n where n: "nextid_inv n"
    "confirmation de PDU (r, w) = (Inr (V1Pdu (acknowledgement PDU)), r\<lparr>nr_requestIDs := n\<rparr>, w)"
    by (rule confirmation_echoes [OF assms(1,4,5)])
  have "confirm env de PDU (r, w) = (Inr (), r\<lparr>nr_requestIDs := n,
      nr_snmpSilentDrops := (if isl answer then inc32 (nr_snmpSilentDrops r) else nr_snmpSilentDrops r)\<rparr>, w')"
    using n(2) assms(6,7)
    by (cases answer) (auto simp: confirm_def sbind_def scatch_def on_snd_def on_fst_def smodify_def)
  then have "ntfrcv_processPdu env de (r, w) =
    (if p_type PDU = InformRequest
     then call_user env de (p_varBinds PDU) (r\<lparr>nr_requestIDs := n,
       nr_snmpSilentDrops := (if isl answer then inc32 (nr_snmpSilentDrops r) else nr_snmpSilentDrops r)\<rparr>, w')
     else call_user env de (p_varBinds PDU) (r, w))"
    using assms(3) r by (auto simp: ntfrcv_processPdu_def sbind_def sret_def)
  with n(1) show ?thesis by blast
qed

text \<open>A dispatcher and an application that keep what they are given.\<close>

definition keeping_env :: "((data_elements + var_bind list) list) nv_env" where
  "keeping_env = \<lparr>nv_registerContextEngineId = (\<lambda>_ _. sret ()), nv_unregisterContextEngineId = (\<lambda>_ _. sret ()),
     nv_returnResponsePdu = (\<lambda>de _. smodify (\<lambda>w. w @ [Inl de])), nv_cbFun5 = (\<lambda>_ _ _. sraise TypeError),
     nv_cbFun6 = (\<lambda>_ _ _ vbs. smodify (\<lambda>w. w @ [Inr vbs]))\<rparr>"

definition fresh_ids :: nextid where
  "fresh_ids = \<lparr>ni_maximum = 100, ni_increment = 10, ni_threshold = 5, ni_bank = [10..<20]\<rparr>"

definition sample_inform :: data_elements where
  "sample_inform = \<lparr>de_messageProcessingModel = 1, de_securityModel = 2, de_securityName = [112], de_securityLevel = 1,
     de_contextEngineId = [], de_contextName = [], de_pduVersion = 1,
     de_PDU = V1Pdu \<lparr>p_type = InformRequest, p_requestID = 7, p_errorStatus = 0, p_errorIndex = 0,
       p_varBinds = [([1, 3], VInteger 5)]\<rparr>,
     de_pduType = InformRequest, de_sendPduHandle = None, de_maxSizeResponseScopedPDU = 1500,
     de_statusInformation = None, de_stateReference = Some 3\<rparr>"

definition fresh_ntfrcv :: ntfrcv where
  "fresh_ntfrcv = \<lparr>nr_snmpTrapCommunity = [], nr_cbFunVer = False, nr_closed = False, nr_requestIDs = fresh_ids,
     nr_snmpSilentDrops = 0\<rparr>"

lemma inform_acknowledged_witness:
  "\<exists>r'. ntfrcv_processPdu keeping_env sample_inform (fresh_ntfrcv, []) =
    (Inr (), r', [Inl (sample_inform\<lparr>de_PDU := V1Pdu \<lparr>p_type = Response, p_requestID = 7, p_errorStatus = 0,
       p_errorIndex = 0, p_varBinds = [([1, 3], VInteger 5)]\<rparr>\<rparr>), Inr [([1, 3], VInteger 5)]])"
proof -
  let ?p = "\<lparr>p_type = InformRequest, p_requestID = 7, p_errorStatus = 0, p_errorIndex = 0, p_varBinds = [([1, 3], VInteger 5)]\<rparr>"
  let ?w = "[Inl (sample_inform\<lparr>de_PDU := V1Pdu (acknowledgement ?p)\<rparr>)]"
  have "nextid_inv fresh_ids"
    by (auto simp: fresh_ids_def nextid_inv_def next_after_def intro!: exI [of _ 0])
  then have "\<exists>n. nextid_inv n \<and> ntfrcv_processPdu keeping_env sample_inform (fresh_ntfrcv, []) =
    (if p_type ?p = InformRequest
     then call_user keeping_env sample_inform (p_varBinds ?p) (fresh_ntfrcv\<lparr>nr_requestIDs := n,
       nr_snmpSilentDrops := (if isl (Inr () :: unit res) then inc32 (nr_snmpSilentDrops fresh_ntfrcv) else nr_snmpSilentDrops fresh_ntfrcv)\<rparr>, ?w)
     else call_user keeping_env sample_inform (p_varBinds ?p) (fresh_ntfrcv, []))"
    by (intro inform_acknowledged) (simp_all add: sample_inform_def in_range_def fresh_ntfrcv_def keeping_env_def smodify_def)
  then show ?thesis
    by (auto simp: call_user_def cbFun5_def cbFun6_def fresh_ntfrcv_def keeping_env_def sbind_def sget_def scatch_def on_snd_def
        on_fst_def sraise_def smodify_def acknowledgement_def)
qed

text \<open>
  The first \<open>TypeError\<close> of a call with five arguments, wherever it was raised, decides for the call
  with six for good.
\<close>

lemma cbFun_version_sticks:
  assumes "\<not> nr_cbFunVer r" and "\<not> nr_closed r"
    and "nv_cbFun5 env (de_contextEngineId de) (de_contextName de) varBinds w = (Inl TypeError, w')"
  shows "call_user env de varBinds (r, w) = cbFun6 env de varBinds (r\<lparr>nr_cbFunVer := True\<rparr>, w')"
    and "nr_cbFunVer r' \<Longrightarrow> call_user env de' varBinds' (r', v) = cbFun6 env de' varBinds' (r', v)"
  using assms by (simp_all add: call_user_def cbFun5_def sbind_def sget_def scatch_def on_snd_def on_fst_def smodify_def)

end
