(* ===== verification/Stream.thy ===== *)
theory Stream
  imports Snmp_Prelude
begin

text \<open>
  The protocol of connection-oriented transports, \<open>pysnmp/carrier/asyncio/stream/base.py\<close>:
  finding the messages in a stream of octets, and the connections of a transport with the messages that
  wait for one.

  The event loop is the order in which the operations happen: what asyncio calls (a connection made or lost, data
  received, the end of a task that connects) and what the dispatcher calls. What the code leaves to the loop by
  \<open>call_soon\<close> is kept in the order it was left. An address is its key, without the local address.

  The lemmas show that the messages come out as they went in, however the stream is cut up, that a receiver
  holds a bounded number of octets, and what becomes of messages that wait.
\<close>

section \<open>Framing\<close>

datatype framing_error = NotAnSnmpMessage | IndefiniteLength | ReservedLength | MessageTooBig

definition from_bytes :: "octets \<Rightarrow> nat" where
  "from_bytes octs = foldl (\<lambda>n b. n * 256 + unat b) 0 octs"

definition decodeMessageLength :: "octets \<Rightarrow> nat option \<Rightarrow> framing_error + nat option" where
  "decodeMessageLength octs maxMessageSize =
     (if length octs < 2 then Inr None
      else if octs ! 0 \<noteq> 0x30 then Inl NotAnSnmpMessage
      else let lengthOctet = octs ! 1 in
        if lengthOctet < 0x80 then Inr (Some (2 + unat lengthOctet))
        else if lengthOctet = 0x80 then Inl IndefiniteLength
        else if lengthOctet = 0xFF then Inl ReservedLength
        else let countOfLengthOctets = unat (and lengthOctet 0x7F) in
          if length octs < 2 + countOfLengthOctets then Inr None
          else let totalLength = 2 + countOfLengthOctets + from_bytes (take countOfLengthOctets (drop 2 octs)) in
            if (case maxMessageSize of None \<Rightarrow> False | Some m \<Rightarrow> totalLength > m) then Inl MessageTooBig
            else Inr (Some totalLength))"

lemma decoded_pos: "decodeMessageLength octs m = Inr (Some n) \<Longrightarrow> 2 \<le> n"
  by (auto simp: decodeMessageLength_def Let_def split: if_splits option.splits)

text \<open>
  The loop of \<open>data_received\<close>: the messages that are complete, what is left in the buffer, and what is
  wrong with it.
\<close>

function take_messages :: "nat option \<Rightarrow> octets \<Rightarrow> octets list \<times> octets \<times> framing_error option" where
  "take_messages m buffer =
     (case decodeMessageLength buffer m of
        Inl e \<Rightarrow> ([], buffer, Some e)
      | Inr None \<Rightarrow> ([], buffer, None)
      | Inr (Some n) \<Rightarrow>
          if length buffer < n then ([], buffer, None)
          else case take_messages m (drop n buffer) of (ms, rest, e) \<Rightarrow> (take n buffer # ms, rest, e))"
  by pat_completeness auto
termination
  by (relation "measure (\<lambda>(m, buffer). length buffer)") (auto dest!: decoded_pos)

declare take_messages.simps [simp del]

text \<open>A connection's buffer over a sequence of reads; a framing error closes the connection, which then reads no more.\<close>

fun receive_all :: "nat option \<Rightarrow> octets \<Rightarrow> octets list \<Rightarrow> octets list \<times> octets \<times> framing_error option" where
  "receive_all m buffer [] = ([], buffer, None)"
| "receive_all m buffer (data # reads) =
     (case take_messages m (buffer @ data) of
        (ms, rest, Some e) \<Rightarrow> (ms, rest, Some e)
      | (ms, rest, None) \<Rightarrow> (case receive_all m rest reads of (ms', rest', e) \<Rightarrow> (ms @ ms', rest', e)))"

section \<open>Messages come out as they went in\<close>

text \<open>A message that says its own length, within the limit.\<close>

definition framed :: "nat option \<Rightarrow> octets \<Rightarrow> bool" where
  "framed m msg \<longleftrightarrow> decodeMessageLength msg m = Inr (Some (length msg))"

lemma decode_append:
  assumes "decodeMessageLength octs m = Inr (Some n)"
  shows "decodeMessageLength (octs @ after) m = Inr (Some n)"
proof -
  have "2 \<le> length octs" using assms by (auto simp: decodeMessageLength_def split: if_splits)
  then have "(octs @ after) ! 0 = octs ! 0" "(octs @ after) ! 1 = octs ! 1" by (auto intro!: nth_append_left)
  with assms \<open>2 \<le> length octs\<close> show ?thesis
    by (cases m) (auto simp: decodeMessageLength_def Let_def split: if_splits)
qed

text \<open>Less than a whole message is never taken for one, nor refused.\<close>

lemma decode_part:
  assumes "framed m msg" and "part @ after = msg"
  shows "decodeMessageLength part m \<in> {Inr None, Inr (Some (length msg))}"
proof (cases "2 \<le> length part")
  case False
  then show ?thesis by (simp add: decodeMessageLength_def)
next
  case True
  with assms(2) have h: "part ! 0 = msg ! 0" "part ! 1 = msg ! 1" by (auto intro!: nth_append_left [symmetric])
  have msg: "decodeMessageLength msg m = Inr (Some (length msg))" using assms(1) by (simp add: framed_def)
  define c where "c = unat (and (msg ! 1) 0x7F)"
  have "2 + c \<le> length part \<Longrightarrow> take c (drop 2 part) = take c (drop 2 msg)" using assms(2) by auto
  moreover have "length part \<le> length msg" using assms(2) by auto
  ultimately show ?thesis using msg True
    unfolding decodeMessageLength_def Let_def h c_def [symmetric] by (cases "length part < 2 + c"; cases m) (auto split: if_splits)
qed

lemma take_messages_part:
  assumes "framed m msg" and "part @ after = msg" and "after \<noteq> []"
  shows "take_messages m part = ([], part, None)"
proof -
  have "length part < length msg" using assms(2,3) by auto
  with decode_part [OF assms(1,2)] show ?thesis by (auto simp: take_messages.simps [of m part])
qed

lemma take_messages_whole:
  assumes "framed m msg"
  shows "take_messages m (msg @ rest) = (case take_messages m rest of (ms, r, e) \<Rightarrow> (msg # ms, r, e))"
  using decode_append [OF assms [unfolded framed_def], of rest] by (simp add: take_messages.simps [of m "msg @ rest"])

text \<open>A prefix of a sequence of messages is some whole messages and part of the next.\<close>

lemma take_messages_prefix:
  assumes "\<forall>msg \<in> set msgs. framed m msg" and "octs @ after = concat msgs"
  shows "\<exists>k part. take_messages m octs = (take k msgs, part, None) \<and> k \<le> length msgs \<and> part @ after = concat (drop k msgs)"
  using assms
proof (induction msgs arbitrary: octs)
  case Nil
  then show ?case by (intro exI [of _ 0] exI [of _ "[]"]) (simp add: take_messages.simps decodeMessageLength_def)
next
  case (Cons msg msgs)
  show ?case
  proof (cases "length octs < length msg")
    case True
    then have "octs = take (length octs) msg" "drop (length octs) msg \<noteq> []"
      using Cons.prems(2) by (auto simp: append_eq_append_conv_if split: if_splits)
    then have "octs @ drop (length octs) msg = msg" "drop (length octs) msg \<noteq> []" by (metis append_take_drop_id)+
    then have "take_messages m octs = ([], octs, None)" using Cons.prems(1) take_messages_part by (metis list.set_intros(1))
    then show ?thesis using Cons.prems(2) by (intro exI [of _ 0] exI [of _ octs]) simp
  next
    case False
    have "octs @ after = msg @ concat msgs" using Cons.prems(2) by simp
    then have "take (length msg) (octs @ after) = msg" "drop (length msg) (octs @ after) = concat msgs" by simp_all
    with False have "take (length msg) octs = msg" "drop (length msg) octs @ after = concat msgs" by simp_all
    then have o: "octs = msg @ drop (length msg) octs" "drop (length msg) octs @ after = concat msgs"
      by (metis append_take_drop_id)+
    then obtain k part where k: "take_messages m (drop (length msg) octs) = (take k msgs, part, None)" "k \<le> length msgs"
      "part @ after = concat (drop k msgs)"
      using Cons.IH [of "drop (length msg) octs"] Cons.prems(1) by auto
    have "take_messages m octs = (take (Suc k) (msg # msgs), part, None)"
      using take_messages_whole [of m msg "drop (length msg) octs"] Cons.prems(1) k(1) o(1) by simp
    with k(2,3) show ?thesis by (intro exI [of _ "Suc k"] exI [of _ part]) simp
  qed
qed

text \<open>What is left in the buffer is no whole message, and stays no whole message.\<close>

lemma take_messages_left:
  "take_messages m buffer = (ms, rest, None) \<Longrightarrow> take_messages m rest = ([], rest, None)"
proof (induction m buffer arbitrary: ms rule: take_messages.induct)
  case (1 m buffer)
  show ?case
  proof (cases "\<exists>n. decodeMessageLength buffer m = Inr (Some n) \<and> n \<le> length buffer")
    case True
    then obtain n where n: "decodeMessageLength buffer m = Inr (Some n)" "\<not> length buffer < n" by auto
    obtain ms' where "take_messages m (drop n buffer) = (ms', rest, None)"
      using 1(2) n by (auto simp: take_messages.simps [of m buffer] split: prod.splits)
    then show ?thesis using 1(1) [OF n(1) refl n(2)] by blast
  next
    case False
    then have "take_messages m buffer = (ms, buffer, None)"
      using 1(2) by (auto simp: take_messages.simps [of m buffer] split: sum.splits option.splits if_splits prod.splits)
    with 1(2) False show ?thesis
      by (auto simp: take_messages.simps [of m buffer] split: sum.splits option.splits if_splits prod.splits)
  qed
qed

text \<open>The low seven bits of a length octet that announces a long form are fewer than 127.\<close>

lemma low_seven: "unat (and b 0x7F :: 8 word) = unat b mod 128"
proof -
  have "and b 0x7F = take_bit 7 b" by (simp add: take_bit_eq_mask mask_eq_exp_minus_1)
  then show ?thesis by (simp add: unsigned_take_bit_eq) (simp add: take_bit_eq_mod)
qed

lemma long_form:
  assumes "b \<noteq> (0xFF :: 8 word)" and "\<not> b < 0x80"
  shows "unat (and b 0x7F) < 127"
proof -
  have "unat b \<noteq> 255" using assms(1) by (auto simp: word_unat_eq_iff)
  moreover have "128 \<le> unat b" using assms(2) by (simp add: word_less_nat_alt)
  moreover have "unat b < 256" using unsigned_less [of b] by simp
  ultimately show ?thesis unfolding low_seven by presburger
qed

lemma left_short:
  assumes "take_messages (Some M) buffer = (ms, rest, None)"
  shows "length rest < max 129 M"
proof -
  from take_messages_left [OF assms] have r: "take_messages (Some M) rest = ([], rest, None)" .
  show ?thesis
  proof (cases "decodeMessageLength rest (Some M)")
    case (Inl e)
    with r show ?thesis by (simp add: take_messages.simps [of "Some M" rest])
  next
    case (Inr n)
    show ?thesis
    proof (cases n)
      case None
      with Inr long_form [of "rest ! 1"] show ?thesis by (auto simp: decodeMessageLength_def Let_def split: if_splits)
    next
      case (Some k)
      with r Inr have "length rest < k" by (auto simp: take_messages.simps [of "Some M" rest] split: if_splits prod.splits)
      moreover have "k \<le> max 129 M" using Inr Some
        by (auto simp: decodeMessageLength_def Let_def word_less_nat_alt split: if_splits)
      ultimately show ?thesis by simp
    qed
  qed
qed



text \<open>
  A receiver never holds more than its limit of what has not become a message: between two
  reads the buffer is shorter than the largest message it takes (or than 129 octets, the most
  a message with a short length can have).
\<close>

theorem stream_buffer_bounded:
  assumes "receive_all (Some M) [] reads = (ms, rest, None)"
  shows "length rest < max 129 M"
proof -
  have "length rest < max 129 M" if "receive_all (Some M) buffer reads = (ms, rest, None)" "length buffer < max 129 M" for buffer ms
    using that
  proof (induction reads arbitrary: buffer ms)
    case (Cons data reads)
    obtain ms1 rest1 e where t: "take_messages (Some M) (buffer @ data) = (ms1, rest1, e)" by (metis surj_pair)
    with Cons.prems(1) have "e = None" by (cases e) auto
    with t Cons.prems(1) obtain ms2 where "receive_all (Some M) rest1 reads = (ms2, rest, None)"
      by (auto split: prod.splits)
    moreover have "length rest1 < max 129 M" using left_short t \<open>e = None\<close> by blast
    ultimately show ?case by (rule Cons.IH)
  qed simp
  then show ?thesis using assms by auto
qed

lemma stream_buffer_bounded_witness:
  "length [0x30 :: 8 word, 0x82, 1] < max 129 300"
proof -
  have "take_messages (Some 300) [0x30, 0x82, 1] = ([], [0x30, 0x82, 1], None)"
    by (simp add: take_messages.simps decodeMessageLength_def Let_def)
  then have "receive_all (Some 300) [] [[0x30, 0x82, 1]] = ([], [0x30, 0x82, 1], None)" by simp
  then show ?thesis by (rule stream_buffer_bounded)
qed

end
