(* ===== verification/Stream_Carrier.thy ===== *)
theory Stream_Carrier
  imports Stream
begin

text \<open>
  The connections of a stream transport, \<open>StreamAsyncioTransport\<close> of
  \<open>pysnmp/carrier/asyncio/stream/base.py\<close>, over the framing of \<open>Stream\<close>.

  The protocols are numbered; one that exists has been connected. \<open>sc_calls\<close> has the calls left to the
  event loop, in order. The tasks that connect are known by their address, since the code keeps one for each.
  The step relation has what the event loop and the dispatcher may do next.

  The lemmas show that nothing waits for a peer that is connected, and that a message can be left
  waiting for ever.
\<close>

section \<open>State\<close>

record 'a stream_protocol =
  pr_transportAddress :: 'a
  pr_buffer :: octets
  pr_isOpen :: bool
  pr_sent :: "octets list"

datatype 'a stream_call = CbFun 'a octets | ErrorCbFun 'a

record 'a stream_carrier =
  sc_writeQ :: "(octets \<times> 'a) list"
  sc_connections :: "'a \<rightharpoonup> nat"
  sc_connectTasks :: "'a set"
  sc_protocols :: "nat \<rightharpoonup> 'a stream_protocol"
  sc_clientMode :: bool
  sc_cbFun :: bool
  sc_errorCbFun :: bool
  sc_maxMessageSize :: "nat option"
  sc_calls :: "'a stream_call list"

definition carrier_init :: "bool \<Rightarrow> 'a stream_carrier" where
  "carrier_init clientMode = \<lparr>sc_writeQ = [], sc_connections = Map.empty, sc_connectTasks = {}, sc_protocols = Map.empty,
     sc_clientMode = clientMode, sc_cbFun = True, sc_errorCbFun = True, sc_maxMessageSize = Some (2 * 1024 * 1024),
     sc_calls = []\<rparr>"

definition update_protocol :: "nat \<Rightarrow> ('a stream_protocol \<Rightarrow> 'a stream_protocol) \<Rightarrow> 'a stream_carrier \<Rightarrow> 'a stream_carrier" where
  "update_protocol pid f s = s\<lparr>sc_protocols := (sc_protocols s)(pid := map_option f (sc_protocols s pid))\<rparr>"

definition the_protocol :: "nat \<Rightarrow> ('a stream_carrier, 'a stream_protocol) sm" where
  "the_protocol pid = sbind (sget (\<lambda>s. sc_protocols s pid)) (\<lambda>p. sres (of_option KeyError p))"

section \<open>Operations\<close>

definition reportError :: "'a \<Rightarrow> ('a stream_carrier, unit) sm" where
  "reportError a = smodify (\<lambda>s. if sc_errorCbFun s then s\<lparr>sc_calls := sc_calls s @ [ErrorCbFun a]\<rparr> else s)"

text \<open>It returns how many messages it dropped.\<close>

definition discardQueuedMessages :: "'a \<Rightarrow> ('a stream_carrier, nat) sm" where
  "discardQueuedMessages a s =
     (let stillWaiting = filter (\<lambda>(msg, b). b \<noteq> a) (sc_writeQ s) in
      (Inr (length (sc_writeQ s) - length stillWaiting), s\<lparr>sc_writeQ := stillWaiting\<rparr>))"

definition failQueuedMessages :: "'a \<Rightarrow> ('a stream_carrier, unit) sm" where
  "failQueuedMessages a = sbind (discardQueuedMessages a) (\<lambda>n. if n = 0 then sret () else reportError a)"

text \<open>\<open>connection_made\<close> of a new protocol, and the carrier's part of it.\<close>

definition connectionMade :: "nat \<Rightarrow> 'a \<Rightarrow> ('a stream_carrier, unit) sm" where
  "connectionMade pid a = smodify (\<lambda>s. s\<lparr>
     sc_protocols := (sc_protocols s)(pid \<mapsto> \<lparr>pr_transportAddress = a, pr_buffer = [], pr_isOpen = True,
       pr_sent = map fst (filter (\<lambda>(msg, b). b = a) (sc_writeQ s))\<rparr>),
     sc_connections := (sc_connections s)(a \<mapsto> pid),
     sc_writeQ := filter (\<lambda>(msg, b). b \<noteq> a) (sc_writeQ s)\<rparr>)"

definition connectionLost :: "nat \<Rightarrow> ('a stream_carrier, unit) sm" where
  "connectionLost pid =
     sbind (the_protocol pid) (\<lambda>p.
     let a = pr_transportAddress p in
     sbind (smodify (update_protocol pid (\<lambda>p. p\<lparr>pr_isOpen := False\<rparr>))) (\<lambda>_.
     sbind (smodify (\<lambda>s. if sc_connections s a = Some pid then s\<lparr>sc_connections := (sc_connections s)(a := None)\<rparr> else s)) (\<lambda>_.
     sbind (discardQueuedMessages a) (\<lambda>_. reportError a))))"

definition connectionFailed :: "nat \<Rightarrow> 'a \<Rightarrow> ('a stream_carrier, unit) sm" where
  "connectionFailed pid a = sbind (smodify (update_protocol pid (\<lambda>p. p\<lparr>pr_isOpen := False\<rparr>))) (\<lambda>_. reportError a)"

text \<open>\<open>eof_received\<close> returns false: the event loop closes the transport, which is lost later.\<close>

definition eofReceived :: "nat \<Rightarrow> ('a stream_carrier, unit) sm" where
  "eofReceived pid = smodify (update_protocol pid (\<lambda>p. p\<lparr>pr_isOpen := False\<rparr>))"

text \<open>
  The messages a read completes are handed over one by one. Without a callback the first one raises, after it
  has been taken out of the buffer.
\<close>

definition dataReceived :: "nat \<Rightarrow> octets \<Rightarrow> ('a stream_carrier, unit) sm" where
  "dataReceived pid data =
     sbind (the_protocol pid) (\<lambda>p.
     sbind (sget (\<lambda>s. (sc_maxMessageSize s, sc_cbFun s))) (\<lambda>(m, cb).
     let buffer = pr_buffer p @ data; a = pr_transportAddress p in
     case take_messages m buffer of
       (msgs, rest, e) \<Rightarrow>
         if msgs \<noteq> [] \<and> \<not> cb
         then sbind (smodify (update_protocol pid (\<lambda>p. p\<lparr>pr_buffer := drop (length (hd msgs)) buffer\<rparr>))) (\<lambda>_. sraise PySnmpError)
         else sbind (smodify (update_protocol pid (\<lambda>p. p\<lparr>pr_buffer := rest\<rparr>))) (\<lambda>_.
           sbind (smodify (\<lambda>s. s\<lparr>sc_calls := sc_calls s @ map (CbFun a) msgs\<rparr>)) (\<lambda>_.
           if e = None then sret () else connectionFailed pid a))))"

definition is_connected :: "'a stream_carrier \<Rightarrow> 'a \<Rightarrow> nat option" where
  "is_connected s a =
     (case sc_connections s a of
        None \<Rightarrow> None
      | Some pid \<Rightarrow> (case sc_protocols s pid of None \<Rightarrow> None | Some p \<Rightarrow> if pr_isOpen p then Some pid else None))"

definition stream_sendMessage :: "octets \<Rightarrow> 'a \<Rightarrow> ('a stream_carrier, unit) sm" where
  "stream_sendMessage msg a =
     sbind (sget (\<lambda>s. (is_connected s a, sc_clientMode s))) (\<lambda>(conn, clientMode).
     case conn of
       Some pid \<Rightarrow> smodify (update_protocol pid (\<lambda>p. p\<lparr>pr_sent := pr_sent p @ [msg]\<rparr>))
     | None \<Rightarrow>
         if \<not> clientMode then sraise PySnmpError
         else smodify (\<lambda>s. s\<lparr>sc_writeQ := sc_writeQ s @ [(msg, a)], sc_connectTasks := insert a (sc_connectTasks s)\<rparr>))"

text \<open>The end of \<open>_connectAndFlush\<close>, after its connection was made, or with the error it failed with.\<close>

definition connectEnded :: "'a \<Rightarrow> bool \<Rightarrow> ('a stream_carrier, unit) sm" where
  "connectEnded a failed =
     sbind (if failed then failQueuedMessages a else sret ()) (\<lambda>_.
     smodify (\<lambda>s. s\<lparr>sc_connectTasks := sc_connectTasks s - {a}\<rparr>))"

definition stream_closeTransport :: "('a stream_carrier, unit) sm" where
  "stream_closeTransport = smodify (\<lambda>s. s\<lparr>
     sc_connectTasks := {},
     sc_protocols := (\<lambda>pid. map_option (\<lambda>p. if pid \<in> ran (sc_connections s) then p\<lparr>pr_isOpen := False\<rparr> else p) (sc_protocols s pid)),
     sc_connections := Map.empty, sc_writeQ := [], sc_cbFun := False, sc_errorCbFun := False\<rparr>)"

section \<open>What can happen\<close>

datatype 'a stream_event = Made nat 'a | Lost nat | Eof nat | Data nat octets | Send octets 'a | ConnectEnded 'a bool | CloseTransport

fun stream_exec :: "'a stream_event \<Rightarrow> ('a stream_carrier, unit) sm" where
  "stream_exec (Made pid a) = connectionMade pid a"
| "stream_exec (Lost pid) = connectionLost pid"
| "stream_exec (Eof pid) = eofReceived pid"
| "stream_exec (Data pid octs) = dataReceived pid octs"
| "stream_exec (Send msg a) = stream_sendMessage msg a"
| "stream_exec (ConnectEnded a failed) = connectEnded a failed"
| "stream_exec CloseTransport = stream_closeTransport"

fun stream_enabled :: "'a stream_carrier \<Rightarrow> 'a stream_event \<Rightarrow> bool" where
  "stream_enabled s (Made pid a) \<longleftrightarrow> sc_protocols s pid = None"
| "stream_enabled s (Lost pid) \<longleftrightarrow> sc_protocols s pid \<noteq> None"
| "stream_enabled s (Eof pid) \<longleftrightarrow> sc_protocols s pid \<noteq> None"
| "stream_enabled s (Data pid octs) \<longleftrightarrow> (\<exists>p. sc_protocols s pid = Some p \<and> pr_isOpen p)"
| "stream_enabled s (Send msg a) \<longleftrightarrow> True"
| "stream_enabled s (ConnectEnded a failed) \<longleftrightarrow> a \<in> sc_connectTasks s"
| "stream_enabled s CloseTransport \<longleftrightarrow> True"

inductive stream_reach :: "'a stream_carrier \<Rightarrow> bool" where
  start: "stream_reach (carrier_init clientMode)"
| step: "stream_reach s \<Longrightarrow> stream_enabled s ev \<Longrightarrow> stream_reach (snd (stream_exec ev s))"

inductive_cases stream_reachE: "stream_reach s"

section \<open>Nothing waits for a connected peer\<close>

definition carrier_ok :: "'a stream_carrier \<Rightarrow> bool" where
  "carrier_ok s \<longleftrightarrow>
     (\<forall>a pid. sc_connections s a = Some pid \<longrightarrow> (\<exists>p. sc_protocols s pid = Some p \<and> pr_transportAddress p = a)) \<and>
     (\<forall>a. is_connected s a \<noteq> None \<longrightarrow> a \<notin> snd ` set (sc_writeQ s))"

lemma update_protocol_simps [simp]:
  "sc_writeQ (update_protocol pid f s) = sc_writeQ s" "sc_connections (update_protocol pid f s) = sc_connections s"
  "sc_connectTasks (update_protocol pid f s) = sc_connectTasks s" "sc_clientMode (update_protocol pid f s) = sc_clientMode s"
  "sc_protocols (update_protocol pid f s) = (sc_protocols s)(pid := map_option f (sc_protocols s pid))"
  by (simp_all add: update_protocol_def)

lemma is_connected_upd [simp]:
  "is_connected (s\<lparr>sc_writeQ := q\<rparr>) = is_connected s" "is_connected (s\<lparr>sc_calls := cs\<rparr>) = is_connected s"
  "is_connected (s\<lparr>sc_connectTasks := ts\<rparr>) = is_connected s"
  by (rule ext, simp add: is_connected_def cong: option.case_cong)+

lemma carrier_okD:
  assumes "carrier_ok s" and "sc_connections s a = Some pid"
  obtains p where "sc_protocols s pid = Some p" "pr_transportAddress p = a"
  using assms unfolding carrier_ok_def by blast

lemma carrier_okQ: "carrier_ok s \<Longrightarrow> is_connected s a = Some pid \<Longrightarrow> a \<notin> snd ` set (sc_writeQ s)"
  unfolding carrier_ok_def by fastforce

lemma ok_update:
  assumes "carrier_ok s" and "\<And>p. pr_transportAddress (f p) = pr_transportAddress p" and "\<And>p. pr_isOpen (f p) \<Longrightarrow> pr_isOpen p"
  shows "carrier_ok (update_protocol pid f s)"
proof -
  have "is_connected (update_protocol pid f s) a \<noteq> None \<Longrightarrow> is_connected s a \<noteq> None" for a
    using assms(3) by (auto simp: is_connected_def split: option.splits if_splits)
  then show ?thesis using assms(1,2) unfolding carrier_ok_def by (auto split: option.splits) (metis option.simps(9))+
qed

lemma ok_calls: "carrier_ok (s\<lparr>sc_calls := cs\<rparr>) = carrier_ok s"
  by (simp add: carrier_ok_def)

lemma ok_tasks: "carrier_ok (s\<lparr>sc_connectTasks := ts\<rparr>) = carrier_ok s"
  by (simp add: carrier_ok_def)

lemma ok_report: "carrier_ok s \<Longrightarrow> carrier_ok (snd (reportError a s))"
  by (simp add: reportError_def smodify_def ok_calls)

lemma ok_fewer:
  assumes "carrier_ok s" and "set q \<subseteq> set (sc_writeQ s)"
  shows "carrier_ok (s\<lparr>sc_writeQ := q\<rparr>)"
proof -
  have "snd ` set q \<subseteq> snd ` set (sc_writeQ s)" using assms(2) by (rule image_mono)
  with assms(1) show ?thesis by (simp add: carrier_ok_def) blast
qed

lemma ok_closing: "carrier_ok s \<Longrightarrow> carrier_ok (update_protocol pid (\<lambda>p. p\<lparr>pr_isOpen := False\<rparr>) s)"
  by (rule ok_update) simp_all

lemma ok_made:
  assumes "carrier_ok s" and "sc_protocols s pid = None"
  shows "carrier_ok (snd (connectionMade pid a s))"
proof -
  let ?s = "snd (connectionMade pid a s)"
  have other: "pid' \<noteq> pid" if "sc_connections s b = Some pid'" for b pid'
    using carrier_okD [OF assms(1) that] assms(2) by (metis option.distinct(1))
  have "\<exists>p. sc_protocols ?s pid' = Some p \<and> pr_transportAddress p = b" if "sc_connections ?s b = Some pid'" for b pid'
    using that other [of b pid'] assms(1) by (auto simp: connectionMade_def smodify_def carrier_ok_def split: if_splits)
  moreover have "b \<notin> snd ` set (sc_writeQ ?s)" if "is_connected ?s b \<noteq> None" for b
  proof (cases "b = a")
    case True
    then show ?thesis by (auto simp: connectionMade_def smodify_def)
  next
    case False
    with that have "is_connected s b \<noteq> None"
      using other [of b] by (auto simp: connectionMade_def smodify_def is_connected_def split: option.splits if_splits)
    then show ?thesis using assms(1) by (auto simp: connectionMade_def smodify_def carrier_ok_def)
  qed
  ultimately show ?thesis unfolding carrier_ok_def by blast
qed

lemma ok_drop_connection:
  assumes "carrier_ok s"
  shows "carrier_ok (s\<lparr>sc_connections := (sc_connections s)(a := None)\<rparr>)"
  using assms by (auto simp: carrier_ok_def is_connected_def cong: option.case_cong split: if_splits)

lemma ok_discard: "carrier_ok s \<Longrightarrow> carrier_ok (snd (discardQueuedMessages a s))"
  by (simp add: discardQueuedMessages_def Let_def ok_fewer)

lemma ok_lost:
  assumes "carrier_ok s"
  shows "carrier_ok (snd (connectionLost pid s))"
proof (cases "sc_protocols s pid")
  case None
  with assms show ?thesis by (simp add: connectionLost_def the_protocol_def sbind_def sget_def sres_def)
next
  case (Some p)
  let ?a = "pr_transportAddress p"
  define s1 where "s1 = update_protocol pid (\<lambda>p. p\<lparr>pr_isOpen := False\<rparr>) s"
  define s2 where "s2 = (if sc_connections s1 ?a = Some pid then s1\<lparr>sc_connections := (sc_connections s1)(?a := None)\<rparr> else s1)"
  have "carrier_ok s1" unfolding s1_def by (rule ok_closing [OF assms])
  then have "carrier_ok s2" unfolding s2_def by (simp add: ok_drop_connection)
  then have "carrier_ok (snd (reportError ?a (snd (discardQueuedMessages ?a s2))))" by (intro ok_report ok_discard)
  moreover have "snd (connectionLost pid s) = snd (reportError ?a (snd (discardQueuedMessages ?a s2)))"
    using Some
    by (simp add: connectionLost_def the_protocol_def sbind_def sget_def sres_def Let_def smodify_def s1_def
        s2_def discardQueuedMessages_def)
  ultimately show ?thesis by simp
qed

text \<open>What the loss of a connection does to the carrier.\<close>

lemma lost_effect:
  assumes "sc_protocols s pid = Some p"
  shows "\<exists>s2. connectionLost pid s = (Inr (), s2) \<and>
    sc_writeQ s2 = filter (\<lambda>(m, b). b \<noteq> pr_transportAddress p) (sc_writeQ s) \<and> sc_connectTasks s2 = sc_connectTasks s \<and>
    sc_protocols s2 = (sc_protocols s)(pid \<mapsto> p\<lparr>pr_isOpen := False\<rparr>) \<and>
    sc_calls s2 = sc_calls s @ (if sc_errorCbFun s then [ErrorCbFun (pr_transportAddress p)] else [])"
  using assms
  by (simp add: connectionLost_def the_protocol_def sbind_def sget_def sres_def Let_def smodify_def discardQueuedMessages_def
      reportError_def update_protocol_def)

lemma ok_data:
  fixes s :: "'a stream_carrier"
  assumes "carrier_ok s"
  shows "carrier_ok (snd (dataReceived pid octs s))"
proof (cases "sc_protocols s pid")
  case None
  with assms show ?thesis by (simp add: dataReceived_def the_protocol_def sbind_def sget_def sres_def)
next
  case (Some p)
  obtain msgs rest e where t: "take_messages (sc_maxMessageSize s) (pr_buffer p @ octs) = (msgs, rest, e)" by (metis surj_pair)
  have buf: "carrier_ok (update_protocol pid (\<lambda>p. p\<lparr>pr_buffer := b\<rparr>) s)" for b
    by (rule ok_update [OF assms]) simp_all
  have closed: "carrier_ok (snd (connectionFailed pid a s'))" if "carrier_ok s'" for a and s' :: "'a stream_carrier"
    using ok_report [OF ok_closing [OF that]]
    by (simp add: connectionFailed_def sbind_def smodify_def)
  show ?thesis
    using Some t buf closed
    by (auto simp: dataReceived_def the_protocol_def sbind_def sget_def sres_def Let_def smodify_def sraise_def sret_def ok_calls)
qed

lemma ok_send:
  assumes "carrier_ok s"
  shows "carrier_ok (snd (stream_sendMessage msg a s))"
proof (cases "is_connected s a")
  case None
  then have "carrier_ok (s\<lparr>sc_writeQ := sc_writeQ s @ [(msg, a)]\<rparr>)"
    using assms unfolding carrier_ok_def by auto
  then have "carrier_ok (s\<lparr>sc_writeQ := sc_writeQ s @ [(msg, a)], sc_connectTasks := insert a (sc_connectTasks s)\<rparr>)"
    by (simp add: ok_tasks)
  with None assms show ?thesis by (simp add: stream_sendMessage_def sbind_def sget_def smodify_def sraise_def)
next
  case (Some pid)
  have "carrier_ok (update_protocol pid (\<lambda>p. p\<lparr>pr_sent := pr_sent p @ [msg]\<rparr>) s)"
    by (rule ok_update [OF assms]) simp_all
  with Some show ?thesis by (simp add: stream_sendMessage_def sbind_def sget_def smodify_def)
qed

lemma ok_ended:
  assumes "carrier_ok s"
  shows "carrier_ok (snd (connectEnded a failed s))"
proof -
  have "carrier_ok (snd (failQueuedMessages a s))"
    using ok_discard [OF assms, of a] ok_report [OF ok_discard [OF assms, of a], of a]
    by (simp add: failQueuedMessages_def sbind_def discardQueuedMessages_def Let_def sret_def)
  moreover have "fst (failQueuedMessages a s) = Inr ()"
    by (simp add: failQueuedMessages_def sbind_def discardQueuedMessages_def Let_def sret_def reportError_def smodify_def)
  ultimately show ?thesis using assms
    by (cases "failQueuedMessages a s") (simp add: connectEnded_def sbind_def sret_def smodify_def ok_tasks)
qed

lemma ok_closed_eof: "carrier_ok s \<Longrightarrow> carrier_ok (snd (eofReceived pid s))"
  by (simp add: eofReceived_def smodify_def ok_closing)

lemma ok_close: "carrier_ok (snd (stream_closeTransport s))"
  by (simp add: stream_closeTransport_def smodify_def carrier_ok_def is_connected_def)

lemma reach_ok:
  assumes "stream_reach s"
  shows "carrier_ok s"
  using assms
proof induction
  case (start clientMode)
  then show ?case by (simp add: carrier_init_def carrier_ok_def is_connected_def)
next
  case (step s ev)
  then show ?case by (cases ev) (auto simp: ok_made ok_lost ok_closed_eof ok_data ok_send ok_ended ok_close)
qed

text \<open>
  (C25) A message never waits for a peer there is a connection to. In every state the transport can
  reach, whatever connections are made, lost and dropped, whatever arrives and is sent and
  however attempts to connect end, the queue has no message for an address that is connected;
  a message sent then goes out behind all that were written to that connection.
\<close>

theorem connected_peer_not_queued:
  assumes "stream_reach s" and "is_connected s a = Some pid"
  shows "a \<notin> snd ` set (sc_writeQ s) \<and>
    (\<exists>p p'. sc_protocols s pid = Some p \<and> pr_transportAddress p = a \<and>
       stream_sendMessage msg a s = (Inr (), update_protocol pid (\<lambda>_. p') s) \<and> pr_sent p' = pr_sent p @ [msg] \<and>
       pr_transportAddress p' = a)"
proof -
  have ok: "carrier_ok s" by (rule reach_ok [OF assms(1)])
  from assms(2) obtain p where p: "sc_connections s a = Some pid" "sc_protocols s pid = Some p"
    by (auto simp: is_connected_def split: option.splits if_splits)
  have "pr_transportAddress p = a" using carrier_okD [OF ok p(1)] p(2) by auto
  moreover have "stream_sendMessage msg a s = (Inr (), update_protocol pid (\<lambda>_. p\<lparr>pr_sent := pr_sent p @ [msg]\<rparr>) s)"
    using assms(2) p(2) by (simp add: stream_sendMessage_def sbind_def sget_def smodify_def update_protocol_def)
  ultimately show ?thesis using carrier_okQ [OF ok assms(2)] p(2)
    by (intro conjI exI [of _ p] exI [of _ "p\<lparr>pr_sent := pr_sent p @ [msg]\<rparr>"]) simp_all
qed

text \<open>The state after a sequence of events.\<close>

definition run_stream :: "'a stream_event list \<Rightarrow> 'a stream_carrier" where
  "run_stream evs = foldl (\<lambda>s ev. snd (stream_exec ev s)) (carrier_init True) evs"

fun all_enabled :: "'a stream_carrier \<Rightarrow> 'a stream_event list \<Rightarrow> bool" where
  "all_enabled s [] \<longleftrightarrow> True"
| "all_enabled s (ev # evs) \<longleftrightarrow> stream_enabled s ev \<and> all_enabled (snd (stream_exec ev s)) evs"

lemma run_reach: "all_enabled (carrier_init True) evs \<Longrightarrow> stream_reach (run_stream evs)"
proof -
  have "all_enabled s evs \<Longrightarrow> stream_reach s \<Longrightarrow> stream_reach (foldl (\<lambda>s ev. snd (stream_exec ev s)) s evs)" for s :: "'a stream_carrier"
    by (induction evs arbitrary: s) (auto intro: stream_reach.step)
  then show "all_enabled (carrier_init True) evs \<Longrightarrow> stream_reach (run_stream evs)"
    by (simp add: run_stream_def stream_reach.start)
qed

lemmas stream_ops = connectionMade_def connectionLost_def stream_sendMessage_def connectEnded_def discardQueuedMessages_def
  reportError_def the_protocol_def is_connected_def update_protocol_def carrier_init_def sm_defs

definition one_message :: "nat stream_event list" where
  "one_message = [Send [1] 7, Made 0 7, ConnectEnded 7 False]"

lemma connected_peer_not_queued_witness:
  "\<exists>p'. stream_sendMessage [2] 7 (run_stream one_message) = (Inr (), update_protocol 0 (\<lambda>_. p') (run_stream one_message)) \<and>
    pr_sent p' = [[1], [2]]"
proof -
  have r: "stream_reach (run_stream one_message)"
    by (rule run_reach) (simp add: one_message_def stream_ops)
  have c: "is_connected (run_stream one_message) 7 = Some 0"
    and p: "\<And>p. sc_protocols (run_stream one_message) 0 = Some p \<Longrightarrow> pr_sent p = [[1]]"
    by (auto simp: run_stream_def one_message_def stream_ops)
  from connected_peer_not_queued [OF r c, of "[2]"] p show ?thesis by auto
qed

text \<open>
  A message sent while a connection closes is given up with it. Between the end of a
  connection and its loss a message to its peer is queued and a new connection is started for it, but
  the loss of the old connection takes it from the queue: it is written to no connection, not
  to the new one either, which is still being made, and all the application gets is one more
  report of a failure, if it asked for reports.
\<close>

theorem closing_connection_takes_message:
  assumes "sc_protocols s pid = Some p" and "pr_transportAddress p = a" and "is_connected s a = None"
    and "sc_clientMode s" and "sc_protocols s pid' = None"
  shows "\<exists>s1 s2 s3. stream_sendMessage msg a s = (Inr (), s1) \<and> (msg, a) \<in> set (sc_writeQ s1) \<and> a \<in> sc_connectTasks s1 \<and>
    connectionLost pid s1 = (Inr (), s2) \<and> a \<notin> snd ` set (sc_writeQ s2) \<and> a \<in> sc_connectTasks s2 \<and>
    sc_protocols s2 = (sc_protocols s)(pid \<mapsto> p\<lparr>pr_isOpen := False\<rparr>) \<and>
    sc_calls s2 = sc_calls s @ (if sc_errorCbFun s then [ErrorCbFun a] else []) \<and>
    connectionMade pid' a s2 = (Inr (), s3) \<and> map_option pr_sent (sc_protocols s3 pid') = Some []"
proof -
  have send: "stream_sendMessage msg a s =
    (Inr (), s\<lparr>sc_writeQ := sc_writeQ s @ [(msg, a)], sc_connectTasks := insert a (sc_connectTasks s)\<rparr>)"
    using assms(3,4) by (simp add: stream_sendMessage_def sbind_def sget_def smodify_def)
  obtain s1 where s1: "s1 = s\<lparr>sc_writeQ := sc_writeQ s @ [(msg, a)], sc_connectTasks := insert a (sc_connectTasks s)\<rparr>" by simp
  obtain s2 where s2: "connectionLost pid s1 = (Inr (), s2)" "sc_writeQ s2 = filter (\<lambda>(m, b). b \<noteq> a) (sc_writeQ s1)"
    "sc_connectTasks s2 = sc_connectTasks s1" "sc_protocols s2 = (sc_protocols s)(pid \<mapsto> p\<lparr>pr_isOpen := False\<rparr>)"
    "sc_calls s2 = sc_calls s @ (if sc_errorCbFun s then [ErrorCbFun a] else [])"
    using lost_effect [of s1 pid p] assms(1,2) s1 by auto
  have "map_option pr_sent (sc_protocols (snd (connectionMade pid' a s2)) pid') = Some []"
    using s2(2) by (auto simp: connectionMade_def smodify_def filter_empty_conv)
  then show ?thesis using send s1 s2
    by (intro exI [of _ s1] exI [of _ s2] exI [of _ "snd (connectionMade pid' a s2)"]) (auto simp: connectionMade_def smodify_def)
qed

lemma closing_connection_takes_message_witness:
  "\<exists>s s2. stream_reach (s :: nat stream_carrier) \<and>
     connectionLost 0 (snd (stream_sendMessage [2] 7 s)) = (Inr (), s2) \<and> sc_calls s2 = sc_calls s @ [ErrorCbFun 7] \<and>
     map_option pr_sent (sc_protocols (snd (connectionMade 1 7 s2)) 1) = Some []"
proof -
  let ?evs = "[Send [1] 7, Made 0 7, ConnectEnded 7 False, Eof 0] :: nat stream_event list"
  have r: "stream_reach (run_stream ?evs)" by (rule run_reach) (simp add: stream_ops eofReceived_def)
  obtain p where p: "sc_protocols (run_stream ?evs) 0 = Some p" "pr_transportAddress p = 7"
    by (simp add: run_stream_def stream_ops eofReceived_def)
  have n: "is_connected (run_stream ?evs) 7 = None" "sc_clientMode (run_stream ?evs)" "sc_errorCbFun (run_stream ?evs)"
    "sc_protocols (run_stream ?evs) 1 = None"
    by (simp_all add: run_stream_def stream_ops eofReceived_def)
  from closing_connection_takes_message [OF p n(1,2,4), of "[2]"] r n(3) show ?thesis by fastforce
qed

text \<open>
  A message can be left waiting for ever. When a connection is lost before the task
  that made it has ended, a message sent in between is queued, but no other attempt to connect is
  started because the task is still known; when it ends, nothing is left that would send the
  message or report it: there is no connection, no task, and the only call to the error
  callback was made before the message was sent.
\<close>

lemma waiting_message_stranded:
  "let before = run_stream [Send [1] 7, Made 0 7, Lost 0 :: nat stream_event];
       after = run_stream [Send [1] 7, Made 0 7, Lost 0, Send [2] 7, ConnectEnded 7 False]
   in stream_reach after \<and> sc_writeQ after = [([2], 7)] \<and> sc_connections after 7 = None \<and> sc_connectTasks after = {} \<and>
      sc_calls before = [ErrorCbFun 7] \<and> sc_calls after = sc_calls before"
proof -
  have "stream_reach (run_stream [Send [1] 7, Made 0 7, Lost 0, Send [2] 7, ConnectEnded 7 False :: nat stream_event])"
    by (rule run_reach) (simp add: stream_ops)
  then show ?thesis by (simp add: run_stream_def stream_ops Let_def)
qed

end
