(* ===== verification/Transport_Dispatcher.thy ===== *)
theory Transport_Dispatcher
  imports Snmp_Prelude Complex_Main
begin

text \<open>
  The transport dispatcher, \<open>AbstractTransportDispatcher\<close> of \<open>pysnmp/carrier/base.py\<close> and
  \<open>AsyncioDispatcher\<close> of \<open>pysnmp/carrier/asyncio/dispatch.py\<close>: the transports by domain,
  who gets what arrives, the clock and the callbacks it drives, and the jobs that are outstanding; and how an engine
  is attached to it (\<open>pysnmp/entity/engine.py\<close>).

  What the dispatcher calls (receivers, timers, transports) works on a state of its own, \<open>td_world\<close>, and may raise;
  it does not change the dispatcher. Times are rational numbers. The event loop is the order in which operations
  happen.

  The lemmas show that messages come and go through the transport of their domain, how often the clock
  ticks and timers are called, and what a callback that raises does to the clock.
\<close>

section \<open>State\<close>

record 'c timer_callable =
  tc_cbFun :: 'c
  tc_nextCall :: rat
  tc_callInterval :: rat

datatype ('d, 't, 'a, 'c) td_call =
    RecvCall 'c 'd 'a octets
  | ErrorCall 'c 'd 'a
  | TimerCall 'c rat
  | TransportSend 't octets 'a
  | TransportClose 't

record ('d, 't, 'r, 'c, 'w) tdisp =
  td_transports :: "('d, 't) odict"
  td_transportDomainMap :: "'t \<rightharpoonup> 'd"
  td_jobs :: "(string, int) odict"
  td_recvCallables :: "'r option \<rightharpoonup> 'c"
  td_errorCallables :: "('r option, 'c) odict"
  td_timerCallables :: "'c timer_callable list"
  td_ticks :: nat
  td_timerResolution :: rat
  td_timerDelta :: rat
  td_nextTime :: rat
  td_routingCbFun :: "'c option"
  tr_cbFun :: "'t \<Rightarrow> bool"
  tr_errorCbFun :: "'t \<Rightarrow> bool"
  td_world :: 'w

text \<open>What is called, and whom the routing function names.\<close>

record ('d, 't, 'a, 'r, 'c, 'w) td_env =
  te_run :: "('d, 't, 'a, 'c) td_call \<Rightarrow> ('w, unit) sm"
  te_route :: "'c \<Rightarrow> 'd \<Rightarrow> 'a \<Rightarrow> octets \<Rightarrow> 'r option"

definition td_invoke :: "('d, 't, 'a, 'r, 'c, 'w) td_env \<Rightarrow> ('d, 't, 'a, 'c) td_call \<Rightarrow>
    (('d, 't, 'r, 'c, 'w, 'z) tdisp_scheme, unit) sm" where
  "td_invoke env c s = (case te_run env c (td_world s) of (r, w) \<Rightarrow> (r, s\<lparr>td_world := w\<rparr>))"

section \<open>Routing\<close>

definition td_cbFun :: "('d, 't, 'a, 'r, 'c, 'w) td_env \<Rightarrow> 't \<Rightarrow> 'a \<Rightarrow> octets \<Rightarrow>
    (('d, 't, 'r, 'c, 'w, 'z) tdisp_scheme, unit) sm" where
  "td_cbFun env incomingTransport transportAddress incomingMessage s =
     (case td_transportDomainMap s incomingTransport of
        None \<Rightarrow> (Inl PySnmpError, s)
      | Some transportDomain \<Rightarrow>
          let recvId = (case td_routingCbFun s of
                None \<Rightarrow> None
              | Some route \<Rightarrow> te_route env route transportDomain transportAddress incomingMessage)
          in case td_recvCallables s recvId of
               None \<Rightarrow> (Inl PySnmpError, s)
             | Some cb \<Rightarrow> td_invoke env (RecvCall cb transportDomain transportAddress incomingMessage) s)"

fun error_calls :: "('d, 't, 'a, 'r, 'c, 'w) td_env \<Rightarrow> 'c list \<Rightarrow> 'd \<Rightarrow> 'a \<Rightarrow> (('d, 't, 'r, 'c, 'w, 'z) tdisp_scheme, unit) sm" where
  "error_calls env [] d a = sret ()"
| "error_calls env (cb # cbs) d a = sbind (td_invoke env (ErrorCall cb d a)) (\<lambda>_. error_calls env cbs d a)"

definition td_errorCbFun :: "('d, 't, 'a, 'r, 'c, 'w) td_env \<Rightarrow> 't \<Rightarrow> 'a \<Rightarrow>
    (('d, 't, 'r, 'c, 'w, 'z) tdisp_scheme, unit) sm" where
  "td_errorCbFun env incomingTransport transportAddress s =
     (case td_transportDomainMap s incomingTransport of
        None \<Rightarrow> (Inr (), s)
      | Some transportDomain \<Rightarrow> error_calls env (map snd (td_errorCallables s)) transportDomain transportAddress s)"

definition registerRoutingCbFun :: "'c \<Rightarrow> (('d, 't, 'r, 'c, 'w, 'z) tdisp_scheme, unit) sm" where
  "registerRoutingCbFun routingCbFun s =
     (if td_routingCbFun s \<noteq> None then (Inl PySnmpError, s) else (Inr (), s\<lparr>td_routingCbFun := Some routingCbFun\<rparr>))"

definition unregisterRoutingCbFun :: "(('d, 't, 'r, 'c, 'w, 'z) tdisp_scheme, unit) sm" where
  "unregisterRoutingCbFun = smodify (\<lambda>s. s\<lparr>td_routingCbFun := None\<rparr>)"

definition registerRecvCbFun :: "'c \<Rightarrow> 'r option \<Rightarrow> (('d, 't, 'r, 'c, 'w, 'z) tdisp_scheme, unit) sm" where
  "registerRecvCbFun recvCb recvId s =
     (if td_recvCallables s recvId \<noteq> None then (Inl PySnmpError, s)
      else (Inr (), s\<lparr>td_recvCallables := (td_recvCallables s)(recvId \<mapsto> recvCb)\<rparr>))"

definition unregisterRecvCbFun :: "'r option \<Rightarrow> (('d, 't, 'r, 'c, 'w, 'z) tdisp_scheme, unit) sm" where
  "unregisterRecvCbFun recvId = smodify (\<lambda>s. s\<lparr>td_recvCallables := (td_recvCallables s)(recvId := None)\<rparr>)"

definition registerErrorCbFun :: "'c \<Rightarrow> 'r option \<Rightarrow> (('d, 't, 'r, 'c, 'w, 'z) tdisp_scheme, unit) sm" where
  "registerErrorCbFun errorCb recvId s =
     (if map_of (td_errorCallables s) recvId \<noteq> None then (Inl PySnmpError, s)
      else (Inr (), s\<lparr>td_errorCallables := td_errorCallables s @ [(recvId, errorCb)]\<rparr>))"

definition unregisterErrorCbFun :: "'r option \<Rightarrow> (('d, 't, 'r, 'c, 'w, 'z) tdisp_scheme, unit) sm" where
  "unregisterErrorCbFun recvId = smodify (\<lambda>s. s\<lparr>td_errorCallables := AList.delete recvId (td_errorCallables s)\<rparr>)"

section \<open>Transports\<close>

text \<open>The callbacks of a transport; \<open>tr_cbFun\<close> tells whether it has one.\<close>

definition tr_registerCbFun :: "'t \<Rightarrow> (('d, 't, 'r, 'c, 'w, 'z) tdisp_scheme, unit) sm" where
  "tr_registerCbFun t s = (if tr_cbFun s t then (Inl PySnmpError, s) else (Inr (), s\<lparr>tr_cbFun := (tr_cbFun s)(t := True)\<rparr>))"

definition tr_unregister :: "'t \<Rightarrow> (('d, 't, 'r, 'c, 'w, 'z) tdisp_scheme, unit) sm" where
  "tr_unregister t = smodify (\<lambda>s. s\<lparr>tr_cbFun := (tr_cbFun s)(t := False), tr_errorCbFun := (tr_errorCbFun s)(t := False)\<rparr>)"

definition registerTransport :: "'d \<Rightarrow> 't \<Rightarrow> (('d, 't, 'r, 'c, 'w, 'z) tdisp_scheme, unit) sm" where
  "registerTransport tDomain transport =
     sbind (sget (\<lambda>s. map_of (td_transports s) tDomain)) (\<lambda>registered.
     if registered \<noteq> None then sraise PySnmpError
     else sbind (tr_registerCbFun transport) (\<lambda>_.
       smodify (\<lambda>s. s\<lparr>
         tr_errorCbFun := (tr_errorCbFun s)(transport := True),
         td_transports := AList.update tDomain transport (td_transports s),
         td_transportDomainMap := (td_transportDomainMap s)(transport \<mapsto> tDomain)\<rparr>)))"

definition getTransport :: "'d \<Rightarrow> (('d, 't, 'r, 'c, 'w, 'z) tdisp_scheme, 't) sm" where
  "getTransport transportDomain = sbind (sget (\<lambda>s. map_of (td_transports s) transportDomain)) (\<lambda>t. sres (of_option PySnmpError t))"

definition unregisterTransport :: "'d \<Rightarrow> (('d, 't, 'r, 'c, 'w, 'z) tdisp_scheme, unit) sm" where
  "unregisterTransport tDomain =
     sbind (getTransport tDomain) (\<lambda>t.
     sbind (tr_unregister t) (\<lambda>_.
     smodify (\<lambda>s. s\<lparr>
       td_transportDomainMap := (td_transportDomainMap s)(t := None),
       td_transports := AList.delete tDomain (td_transports s)\<rparr>)))"

definition td_sendMessage :: "('d, 't, 'a, 'r, 'c, 'w) td_env \<Rightarrow> octets \<Rightarrow> 'd \<Rightarrow> 'a \<Rightarrow>
    (('d, 't, 'r, 'c, 'w, 'z) tdisp_scheme, unit) sm" where
  "td_sendMessage env outgoingMessage transportDomain transportAddress =
     sbind (getTransport transportDomain) (\<lambda>t. td_invoke env (TransportSend t outgoingMessage transportAddress))"

definition td_closeTransport :: "('d, 't, 'a, 'r, 'c, 'w) td_env \<Rightarrow> 't \<Rightarrow> (('d, 't, 'r, 'c, 'w, 'z) tdisp_scheme, unit) sm" where
  "td_closeTransport env t = sbind (td_invoke env (TransportClose t)) (\<lambda>_. tr_unregister t)"

section \<open>The clock\<close>

definition registerTimerCbFun :: "'c \<Rightarrow> rat option \<Rightarrow> (('d, 't, 'r, 'c, 'w, 'z) tdisp_scheme, unit) sm" where
  "registerTimerCbFun timerCbFun tickInterval = smodify (\<lambda>s.
     let interval = (case tickInterval of None \<Rightarrow> td_timerResolution s | Some i \<Rightarrow> if i = 0 then td_timerResolution s else i)
     in s\<lparr>td_timerCallables := td_timerCallables s @ [\<lparr>tc_cbFun = timerCbFun, tc_nextCall = 0, tc_callInterval = interval\<rparr>]\<rparr>)"

fun remove_timer :: "'c \<Rightarrow> 'c timer_callable list \<Rightarrow> 'c timer_callable list option" where
  "remove_timer cb [] = None"
| "remove_timer cb (t # ts) = (if tc_cbFun t = cb then Some ts else map_option ((#) t) (remove_timer cb ts))"

definition unregisterTimerCbFun :: "'c option \<Rightarrow> (('d, 't, 'r, 'c, 'w, 'z) tdisp_scheme, unit) sm" where
  "unregisterTimerCbFun timerCbFun s =
     (case timerCbFun of
        None \<Rightarrow> (Inr (), s\<lparr>td_timerCallables := []\<rparr>)
      | Some cb \<Rightarrow> (case remove_timer cb (td_timerCallables s) of
            None \<Rightarrow> (Inl ValueError, s)
          | Some ts \<Rightarrow> (Inr (), s\<lparr>td_timerCallables := ts\<rparr>)))"

definition setTimerResolution :: "rat \<Rightarrow> (('d, 't, 'r, 'c, 'w, 'z) tdisp_scheme, unit) sm" where
  "setTimerResolution timerResolution s =
     (if timerResolution < 1 / 100 \<or> timerResolution > 10 then (Inl PySnmpError, s)
      else (Inr (), s\<lparr>
        td_timerCallables := map (\<lambda>t. if tc_callInterval t = td_timerResolution s then t\<lparr>tc_callInterval := timerResolution\<rparr> else t)
          (td_timerCallables s),
        td_timerResolution := timerResolution, td_timerDelta := timerResolution / 20\<rparr>))"

text \<open>The timers are called one after the other; one that raises keeps its time, and the later ones are not called.\<close>

definition timer_due :: "rat \<Rightarrow> 'c timer_callable \<Rightarrow> bool" where
  "timer_due timeNow t \<longleftrightarrow> tc_nextCall t \<le> timeNow"

fun call_timers :: "('d, 't, 'a, 'r, 'c, 'w) td_env \<Rightarrow> rat \<Rightarrow> 'c timer_callable list \<Rightarrow> ('w, 'c timer_callable list \<times> exn option) sm" where
  "call_timers env timeNow [] = sret ([], None)"
| "call_timers env timeNow (t # ts) = (\<lambda>w.
     if timer_due timeNow t
     then case te_run env (TimerCall (tc_cbFun t) timeNow) w of
            (Inl e, w') \<Rightarrow> (Inr (t # ts, Some e), w')
          | (Inr _, w') \<Rightarrow> sbind (call_timers env timeNow ts)
              (\<lambda>(ts', e). sret (t\<lparr>tc_nextCall := timeNow + tc_callInterval t\<rparr> # ts', e)) w'
     else sbind (call_timers env timeNow ts) (\<lambda>(ts', e). sret (t # ts', e)) w)"

definition next_time :: "rat \<Rightarrow> ('d, 't, 'r, 'c, 'w, 'z) tdisp_scheme \<Rightarrow> rat" where
  "next_time timeNow s = timeNow + td_timerResolution s - td_timerDelta s"

definition handleTimerTick :: "('d, 't, 'a, 'r, 'c, 'w) td_env \<Rightarrow> rat \<Rightarrow> (('d, 't, 'r, 'c, 'w, 'z) tdisp_scheme, unit) sm" where
  "handleTimerTick env timeNow s =
     (let s1 = (if td_nextTime s = 0 then s\<lparr>td_nextTime := next_time timeNow s\<rparr> else s) in
      if td_nextTime s1 \<ge> timeNow then (Inr (), s1)
      else let s2 = s1\<lparr>td_ticks := td_ticks s1 + 1, td_nextTime := next_time timeNow s1\<rparr> in
        case call_timers env timeNow (td_timerCallables s2) (td_world s2) of
          (Inl e, w) \<Rightarrow> (Inl e, s2\<lparr>td_world := w\<rparr>)
        | (Inr (ts, e), w) \<Rightarrow>
            ((case e of None \<Rightarrow> Inr () | Some e \<Rightarrow> Inl e), s2\<lparr>td_timerCallables := ts, td_world := w\<rparr>))"

section \<open>Jobs\<close>

definition td_jobStarted :: "string \<Rightarrow> int \<Rightarrow> (('d, 't, 'r, 'c, 'w, 'z) tdisp_scheme, unit) sm" where
  "td_jobStarted jobId count = smodify (\<lambda>s. s\<lparr>td_jobs := AList.update jobId
     (case map_of (td_jobs s) jobId of None \<Rightarrow> count | Some n \<Rightarrow> n + count) (td_jobs s)\<rparr>)"

definition td_jobFinished :: "string \<Rightarrow> int \<Rightarrow> (('d, 't, 'r, 'c, 'w, 'z) tdisp_scheme, unit) sm" where
  "td_jobFinished jobId count s =
     (case map_of (td_jobs s) jobId of
        None \<Rightarrow> (Inl KeyError, s)
      | Some n \<Rightarrow>
          (Inr (), s\<lparr>td_jobs := (if n - count = 0 then AList.delete jobId (td_jobs s) else AList.update jobId (n - count) (td_jobs s))\<rparr>))"

definition jobsArePending :: "('d, 't, 'r, 'c, 'w, 'z) tdisp_scheme \<Rightarrow> bool" where
  "jobsArePending s \<longleftrightarrow> td_jobs s \<noteq> []"

section \<open>The pace of the clock\<close>

text \<open>The clock over a sequence of wake-ups, with what it calls written down.\<close>

definition log_env :: "('d, 't, 'a, 'r, 'c, ('d, 't, 'a, 'c) td_call list) td_env" where
  "log_env = \<lparr>te_run = (\<lambda>c w. (Inr (), w @ [c])), te_route = (\<lambda>_ _ _ _. None)\<rparr>"

fun run_ticks :: "('d, 't, 'a, 'r, 'c, 'w) td_env \<Rightarrow> rat list \<Rightarrow> ('d, 't, 'r, 'c, 'w, 'z) tdisp_scheme \<Rightarrow> ('d, 't, 'r, 'c, 'w, 'z) tdisp_scheme" where
  "run_ticks env [] s = s"
| "run_ticks env (now # ts) s = run_ticks env ts (snd (handleTimerTick env now s))"

fun call_times :: "'c \<Rightarrow> ('d, 't, 'a, 'c) td_call list \<Rightarrow> rat list" where
  "call_times cb [] = []"
| "call_times cb (TimerCall cb' now # w) = (if cb' = cb then now # call_times cb w else call_times cb w)"
| "call_times cb (_ # w) = call_times cb w"

definition called_at :: "rat \<Rightarrow> 'c timer_callable \<Rightarrow> 'c timer_callable" where
  "called_at now t = (if timer_due now t then t\<lparr>tc_nextCall := now + tc_callInterval t\<rparr> else t)"

lemma called_at_cbFun [simp]: "tc_cbFun (called_at now t) = tc_cbFun t" "tc_cbFun \<circ> called_at now = tc_cbFun"
  by (auto simp: called_at_def)

lemma run_ticks_append: "run_ticks env (ts @ us) s = run_ticks env us (run_ticks env ts s)"
  by (induction ts arbitrary: s) simp_all

lemma call_times_append [simp]: "call_times cb (w @ w') = call_times cb w @ call_times cb w'"
  by (induction cb w rule: call_times.induct) simp_all

lemma call_timers_log:
  "call_timers log_env now ts w = (Inr (map (called_at now) ts, None), w @ map (\<lambda>t. TimerCall (tc_cbFun t) now) (filter (timer_due now) ts))"
  by (induction ts arbitrary: w) (simp_all add: sm_defs log_env_def called_at_def)

lemma call_times_due:
  assumes "t \<in> set ts" and "distinct (map tc_cbFun ts)"
  shows "call_times (tc_cbFun t) (map (\<lambda>t. TimerCall (tc_cbFun t) now) (filter (timer_due now) ts)) = (if timer_due now t then [now] else [])"
proof -
  have none: "call_times cb (map (\<lambda>t. TimerCall (tc_cbFun t) now) (filter (timer_due now) us)) = []" if "cb \<notin> tc_cbFun ` set us"
    for cb and us :: "'a timer_callable list"
    using that by (induction us) auto
  show ?thesis using assms
  proof (induction ts)
    case (Cons u us)
    then show ?case using none [of "tc_cbFun t" us] by (cases "t = u") (auto simp: image_iff)
  qed simp
qed

text \<open>A wake-up that comes too early changes nothing but the first one, which winds the clock.\<close>

lemma tick_log:
  assumes "now > 0" and "td_nextTime s = 0 \<Longrightarrow> td_timerDelta s < td_timerResolution s"
  shows "snd (handleTimerTick log_env now s) =
    (if td_nextTime s = 0 then s\<lparr>td_nextTime := next_time now s\<rparr>
     else if td_nextTime s \<ge> now then s
     else s\<lparr>td_ticks := td_ticks s + 1, td_nextTime := next_time now s, td_timerCallables := map (called_at now) (td_timerCallables s),
            td_world := td_world s @ map (\<lambda>t. TimerCall (tc_cbFun t) now) (filter (timer_due now) (td_timerCallables s))\<rparr>)"
  using assms by (auto simp: handleTimerTick_def Let_def call_timers_log next_time_def)

text \<open>
  What holds of the clock, \<open>D\<close> being the least time between two ticks, and of the timer of one callback, after the
  wake-up at \<open>now\<close>, when wake-ups began at \<open>start\<close> and are at most \<open>g\<close> apart.
\<close>

definition clock_ok :: "rat \<Rightarrow> rat \<Rightarrow> rat \<Rightarrow> rat \<Rightarrow> ('d, 't, 'r, 'c, 'w) tdisp \<Rightarrow> bool" where
  "clock_ok D r start now s \<longleftrightarrow>
     td_timerResolution s = r \<and> r - td_timerDelta s = D \<and> td_nextTime s \<ge> now \<and> td_nextTime s \<le> now + D \<and>
     rat_of_nat (td_ticks s) * D \<le> td_nextTime s - D - start \<and> start > 0"

definition timer_ok :: "rat \<Rightarrow> rat \<Rightarrow> rat \<Rightarrow> 'c \<Rightarrow> ('d, 't, 'r, 'c, ('d, 't, 'a, 'c) td_call list) tdisp \<Rightarrow> bool" where
  "timer_ok D g iv cb s \<longleftrightarrow>
     distinct (map tc_cbFun (td_timerCallables s)) \<and>
     (\<exists>t \<in> set (td_timerCallables s). tc_cbFun t = cb \<and> tc_callInterval t = iv \<and>
        (let calls = call_times cb (td_world s) in
         successively (\<lambda>a b. a + iv \<le> b \<and> b < a + iv + D + g) calls \<and>
         (if calls = [] then tc_nextCall t = 0 \<and> td_ticks s = 0
          else tc_nextCall t = last calls + iv \<and> td_nextTime s < tc_nextCall t + D)))"

lemma clock_step:
  assumes "clock_ok D r start now s" and "0 < D" and "now < now'" and "0 < now"
  shows "clock_ok D r start now' (snd (handleTimerTick log_env now' s))"
proof -
  have nz: "td_nextTime s \<noteq> 0" "0 < now'" using assms by (auto simp: clock_ok_def)
  show ?thesis
  proof (cases "td_nextTime s \<ge> now'")
    case True
    with nz assms(1,2,3) show ?thesis by (simp add: tick_log clock_ok_def)
  next
    case False
    with nz assms(1,2,3) show ?thesis
      by (auto simp: tick_log clock_ok_def next_time_def algebra_simps)
  qed
qed

lemma timer_step:
  assumes "clock_ok D r start now s" and "timer_ok D g iv cb s" and "0 < D" and "0 < iv"
    and "now < now'" and "now' \<le> now + g" and "0 < now"
  shows "timer_ok D g iv cb (snd (handleTimerTick log_env now' s))"
proof -
  have nz: "td_nextTime s \<noteq> 0" "0 < now'" using assms by (auto simp: clock_ok_def)
  show ?thesis
  proof (cases "td_nextTime s \<ge> now'")
    case True
    with nz assms(2) show ?thesis by (simp add: tick_log)
  next
    case False
    let ?s = "snd (handleTimerTick log_env now' s)"
    let ?calls = "call_times cb (td_world s)"
    from assms(2) obtain t where t: "distinct (map tc_cbFun (td_timerCallables s))" "t \<in> set (td_timerCallables s)" "tc_cbFun t = cb"
      "tc_callInterval t = iv" "successively (\<lambda>a b. a + iv \<le> b \<and> b < a + iv + D + g) ?calls"
      "if ?calls = [] then tc_nextCall t = 0 \<and> td_ticks s = 0 else tc_nextCall t = last ?calls + iv \<and> td_nextTime s < tc_nextCall t + D"
      unfolding timer_ok_def Let_def by blast
    have s: "td_timerCallables ?s = map (called_at now') (td_timerCallables s)" "td_nextTime ?s = now' + D" "td_ticks ?s = td_ticks s + 1"
      "call_times cb (td_world ?s) = ?calls @ (if timer_due now' t then [now'] else [])"
      using False nz assms(1) call_times_due [OF t(2,1), of now'] t(3)
      by (auto simp: tick_log next_time_def clock_ok_def)
    have near: "now' \<le> td_nextTime s + g" using assms(1,6) by (simp add: clock_ok_def)
    show ?thesis
    proof (cases "timer_due now' t")
      case True
      have "successively (\<lambda>a b. a + iv \<le> b \<and> b < a + iv + D + g) (?calls @ [now'])"
        using t(5,6) True near by (auto simp: successively_append_iff timer_due_def split: if_splits)
      then show ?thesis using True t(1-4) s assms(3,4)
        unfolding timer_ok_def Let_def by (intro conjI bexI [of _ "called_at now' t"]) (auto simp: called_at_def)
    next
      case late: False
      then have "?calls \<noteq> []" using t(6) nz by (auto simp: timer_due_def)
      with late show ?thesis using t s
        unfolding timer_ok_def Let_def by (intro conjI bexI [of _ "called_at now' t"]) (auto simp: called_at_def timer_due_def)
    qed
  qed
qed

text \<open>A dispatcher whose clock has not been wound and whose timers have not been called.\<close>

definition fresh_clock :: "('d, 't, 'r, 'c, 'w list) tdisp \<Rightarrow> bool" where
  "fresh_clock s \<longleftrightarrow> td_nextTime s = 0 \<and> td_ticks s = 0 \<and> td_world s = [] \<and> td_timerDelta s < td_timerResolution s \<and>
     distinct (map tc_cbFun (td_timerCallables s)) \<and> (\<forall>t \<in> set (td_timerCallables s). tc_nextCall t = 0 \<and> 0 < tc_callInterval t)"

text \<open>
  The pace of the clock. With wake-ups at growing times at most \<open>g\<close> apart, each timer is called at least
  its interval after the call before, and no later than its interval, the least time between two ticks and
  \<open>g\<close> together after it; and the ticks, in which timeouts are counted, are never faster than one for each such
  least time since the first wake-up.
\<close>

theorem timers_keep_pace:
  assumes "fresh_clock s" and "t \<in> set (td_timerCallables s)" and "successively (\<lambda>a b. a < b \<and> b \<le> a + g) (start # ts)" and "0 < start"
    and "D = td_timerResolution s - td_timerDelta s"
  shows "successively (\<lambda>a b. a + tc_callInterval t \<le> b \<and> b < a + tc_callInterval t + D + g)
           (call_times (tc_cbFun t) (td_world (run_ticks log_env (start # ts) s))) \<and>
         rat_of_nat (td_ticks (run_ticks log_env (start # ts) s)) * D \<le> last (start # ts) - start"
proof -
  let ?iv = "tc_callInterval t" and ?r = "td_timerResolution s"
  have D: "0 < D" "0 < ?iv" using assms(1,2,5) by (auto simp: fresh_clock_def)
  let ?s0 = "snd (handleTimerTick log_env start s)"
  have s0: "?s0 = s\<lparr>td_nextTime := start + D\<rparr>"
    using assms(1,4,5) by (simp add: tick_log fresh_clock_def next_time_def)
  have c0: "clock_ok D ?r start start ?s0"
    using assms(1,4,5) D by (simp add: s0 clock_ok_def fresh_clock_def)
  have t0: "timer_ok D g ?iv (tc_cbFun t) ?s0"
    using assms(1,2) unfolding s0 timer_ok_def Let_def fresh_clock_def by (auto intro!: bexI [of _ t])
  have main: "clock_ok D ?r start (last (now # us)) (run_ticks log_env us s1) \<and> timer_ok D g ?iv (tc_cbFun t) (run_ticks log_env us s1)"
    if "clock_ok D ?r start now s1" "timer_ok D g ?iv (tc_cbFun t) s1" "successively (\<lambda>a b. a < b \<and> b \<le> a + g) (now # us)" "0 < now"
    for now us and s1 :: "('a, 'b, 'c, 'd, ('a, 'b, 'e, 'd) td_call list) tdisp"
    using that
  proof (induction us arbitrary: now s1)
    case (Cons now' us)
    then have "now < now'" "now' \<le> now + g" by auto
    then show ?case
      using Cons.IH [OF clock_step [OF Cons.prems(1) D(1) \<open>now < now'\<close> Cons.prems(4)]
          timer_step [OF Cons.prems(1,2) D _ _ Cons.prems(4)]] Cons.prems(3,4) by simp
  qed simp
  from main [OF c0 t0 assms(3,4)] show ?thesis
    by (auto simp: clock_ok_def timer_ok_def Let_def)
qed

text \<open>A dispatcher as it is made, with one timer of the default interval.\<close>

definition td_init :: "'w \<Rightarrow> ('d, 't, 'r, 'c, 'w) tdisp" where
  "td_init w = \<lparr>td_transports = [], td_transportDomainMap = Map.empty, td_jobs = [], td_recvCallables = Map.empty,
     td_errorCallables = [], td_timerCallables = [], td_ticks = 0, td_timerResolution = 1 / 2, td_timerDelta = 1 / 40,
     td_nextTime = 0, td_routingCbFun = None, tr_cbFun = (\<lambda>_. False), tr_errorCbFun = (\<lambda>_. False), td_world = w\<rparr>"

definition one_timer :: "(nat, nat, nat, nat, (nat, nat, nat, nat) td_call list) tdisp" where
  "one_timer = (td_init [])\<lparr>td_timerCallables := [\<lparr>tc_cbFun = 7, tc_nextCall = 0, tc_callInterval = 1 / 2\<rparr>]\<rparr>"

lemma timers_keep_pace_witness:
  "successively (\<lambda>a b. a + 1 / 2 \<le> b \<and> b < a + 1 / 2 + 19 / 40 + 1 / 2) (call_times 7 (td_world (run_ticks log_env [1, 3 / 2, 2, 5 / 2] one_timer))) \<and>
   rat_of_nat (td_ticks (run_ticks log_env [1, 3 / 2, 2, 5 / 2] one_timer)) * (19 / 40) \<le> 5 / 2 - 1"
proof -
  let ?t = "\<lparr>tc_cbFun = 7 :: nat, tc_nextCall = 0, tc_callInterval = 1 / 2\<rparr>"
  have "fresh_clock one_timer" "?t \<in> set (td_timerCallables one_timer)"
    by (simp_all add: fresh_clock_def one_timer_def td_init_def)
  moreover have "successively (\<lambda>a b. a < b \<and> b \<le> a + 1 / 2) [1, 3 / 2, 2, 5 / 2 :: rat]" by simp
  moreover have "19 / 40 = td_timerResolution one_timer - td_timerDelta one_timer"
    by (simp add: one_timer_def td_init_def)
  ultimately show ?thesis using timers_keep_pace [of one_timer ?t "1 / 2" 1 "[3 / 2, 2, 5 / 2]" "19 / 40"] by simp
qed

section \<open>Slack, and intervals that were named\<close>

text \<open>
  The slack of the clock is not one of the timers: a tick that comes early by less than the slack counts, but
  leaves a timer of the default interval that was called at the tick before for the next one.
\<close>

lemma early_tick_holds_back:
  assumes "td_timerCallables s = [t]" and "tc_nextCall t = now + td_timerResolution s" and "td_nextTime s = next_time now s"
    and "next_time now s < now'" and "now' < now + td_timerResolution s" and "td_nextTime s \<noteq> 0"
  shows "handleTimerTick env now' s = (Inr (), s\<lparr>td_ticks := td_ticks s + 1, td_nextTime := next_time now' s\<rparr>)"
proof -
  have "td_timerCallables (s\<lparr>td_ticks := td_ticks s + 1, td_nextTime := next_time now' s\<rparr>) = [t]" using assms(1) by simp
  then show ?thesis using assms
    by (cases s) (simp add: handleTimerTick_def Let_def timer_due_def sm_defs next_time_def)
qed

text \<open>
  A timer whose caller named the interval that is the resolution at that time, or is later when it changes, is moved
  with the resolution like one that took the default.
\<close>

lemma resolution_moves_named_interval:
  assumes "1 / 100 \<le> r" "r \<le> 10" "1 / 100 \<le> i" "i \<le> 10"
  shows "\<exists>s1 s2 s3. registerTimerCbFun cb (Some i) (s\<lparr>td_timerCallables := []\<rparr>) = (Inr (), s1) \<and> setTimerResolution i s1 = (Inr (), s2) \<and>
    setTimerResolution r s2 = (Inr (), s3) \<and> map tc_callInterval (td_timerCallables s3) = [r]"
proof -
  have "i \<noteq> 0" using assms(3) by auto
  with assms show ?thesis by (simp add: registerTimerCbFun_def smodify_def setTimerResolution_def)
qed

end
