(* ===== verification/Asyncio_Dispatcher.thy ===== *)
theory Asyncio_Dispatcher
  imports Transport_Dispatcher
begin

text \<open>
  The dispatcher on an asyncio event loop, \<open>AsyncioDispatcher\<close> of \<open>pysnmp/carrier/asyncio/dispatch.py\<close>: the task
  that ticks, the loop that is adopted from a transport, and deferred work; and the engine's side of it,
  \<open>registerTransportDispatcher\<close> and \<open>unregisterTransportDispatcher\<close> of \<open>pysnmp/entity/engine.py\<close>.

  Loops and tasks are numbered; \<open>ad_isRunning\<close> tells which loop runs. The step relation has what callers and
  the event loop may do next.

  The lemmas show that what is registered is wired up in every reachable state, and how the clock can be lost.
\<close>

section \<open>State\<close>

datatype ticker = Ticking | TickerEnded exn

record ('d, 't, 'r, 'c, 'w) adisp = "('d, 't, 'r, 'c, 'w) tdisp" +
  ad_transportCount :: int
  ad_loopingcall :: "ticker option"
  ad_timerStartHandle :: bool
  ad_deferred :: "(nat \<times> string) list"
  ad_loop :: nat
  ad_isRunning :: "nat \<Rightarrow> bool"

definition loop_is_running :: "('d, 't, 'r, 'c, 'w) adisp \<Rightarrow> bool" where
  "loop_is_running s = ad_isRunning s (ad_loop s)"

definition asyncio_init :: "nat \<Rightarrow> (nat \<Rightarrow> bool) \<Rightarrow> 'w \<Rightarrow> ('d, 't, 'r, 'c, 'w) adisp" where
  "asyncio_init loop running w = tdisp.extend (td_init w)
     (adisp.fields 0 None False [] loop running)"

section \<open>The ticking task\<close>

definition start_timer :: "(('d, 't, 'r, 'c, 'w) adisp, unit) sm" where
  "start_timer = smodify (\<lambda>s. s\<lparr>ad_timerStartHandle := False,
     ad_loopingcall := (case ad_loopingcall s of None \<Rightarrow> Some Ticking | Some t \<Rightarrow> Some t)\<rparr>)"

text \<open>The task wakes up from its sleep; an exception from a timer ends it.\<close>

definition handle_timeout :: "('d, 't, 'a, 'r, 'c, 'w) td_env \<Rightarrow> rat \<Rightarrow> (('d, 't, 'r, 'c, 'w) adisp, unit) sm" where
  "handle_timeout env now s =
     (if ad_loopingcall s \<noteq> Some Ticking then (Inr (), s)
      else case handleTimerTick env now s of
        (Inr _, s') \<Rightarrow> (Inr (), s')
      | (Inl e, s') \<Rightarrow> (Inr (), s'\<lparr>ad_loopingcall := Some (TickerEnded e)\<rparr>))"

definition cancel_timer :: "(('d, 't, 'r, 'c, 'w) adisp, unit) sm" where
  "cancel_timer = smodify (\<lambda>s. s\<lparr>ad_timerStartHandle := False, ad_loopingcall := None\<rparr>)"

section \<open>Transports\<close>

definition adopt_loop :: "nat option \<Rightarrow> (('d, 't, 'r, 'c, 'w) adisp, unit) sm" where
  "adopt_loop transportLoop s =
     (case transportLoop of
        None \<Rightarrow> (Inr (), s)
      | Some l \<Rightarrow>
          if l = ad_loop s then (Inr (), s)
          else if ad_transportCount s \<noteq> 0 \<or> loop_is_running s then (Inl PySnmpError, s)
          else (Inr (), s\<lparr>ad_loop := l\<rparr>))"

definition ensure_timer :: "(('d, 't, 'r, 'c, 'w) adisp, unit) sm" where
  "ensure_timer s =
     (if ad_loopingcall s = None \<and> \<not> ad_timerStartHandle s \<and> td_timerResolution s > 0
      then if loop_is_running s then start_timer s else (Inr (), s\<lparr>ad_timerStartHandle := True\<rparr>)
      else (Inr (), s))"

definition asyncio_registerTransport :: "nat option \<Rightarrow> 'd \<Rightarrow> 't \<Rightarrow> (('d, 't, 'r, 'c, 'w) adisp, unit) sm" where
  "asyncio_registerTransport transportLoop tDomain transport =
     sbind (adopt_loop transportLoop) (\<lambda>_.
     sbind ensure_timer (\<lambda>_.
     sbind (registerTransport tDomain transport) (\<lambda>_.
     smodify (\<lambda>s. s\<lparr>ad_transportCount := ad_transportCount s + 1\<rparr>))))"

definition asyncio_unregisterTransport :: "'d \<Rightarrow> (('d, 't, 'r, 'c, 'w) adisp, unit) sm" where
  "asyncio_unregisterTransport tDomain =
     sbind (getTransport tDomain) (\<lambda>_.
     sbind (unregisterTransport tDomain) (\<lambda>_.
     sbind (smodify (\<lambda>s. s\<lparr>ad_transportCount := ad_transportCount s - 1\<rparr>)) (\<lambda>_.
     sbind (sget (\<lambda>s. ad_transportCount s = 0 \<and> (ad_loopingcall s \<noteq> None \<or> ad_timerStartHandle s))) (\<lambda>idle.
     if idle then cancel_timer else sret ()))))"

definition transportsAreWorking :: "('t \<Rightarrow> bool) \<Rightarrow> ('d, 't, 'r, 'c, 'w, 'z) tdisp_scheme \<Rightarrow> bool" where
  "transportsAreWorking writeQ s \<longleftrightarrow> list_ex writeQ (map snd (td_transports s))"

text \<open>The condition on which \<open>runDispatcher\<close> keeps the loop running for its outstanding work.\<close>

definition work_pending :: "('t \<Rightarrow> bool) \<Rightarrow> ('d, 't, 'r, 'c, 'w, 'z) tdisp_scheme \<Rightarrow> bool" where
  "work_pending writeQ s \<longleftrightarrow> jobsArePending s \<or> transportsAreWorking writeQ s"

section \<open>Deferred work\<close>

definition deferred_job :: string where
  "deferred_job = ''pysnmp.carrier.asyncio.deferred''"

definition runDeferred :: "nat \<Rightarrow> string option \<Rightarrow> (('d, 't, 'r, 'c, 'w) adisp, unit) sm" where
  "runDeferred task jobId =
     (let j = (case jobId of None \<Rightarrow> deferred_job | Some j \<Rightarrow> j) in
      sbind (smodify (\<lambda>s. s\<lparr>ad_deferred := ad_deferred s @ [(task, j)]\<rparr>)) (\<lambda>_. td_jobStarted j 1))"

text \<open>The task is done, by its end, its exception or its cancellation.\<close>

definition deferred_done :: "nat \<Rightarrow> string \<Rightarrow> (('d, 't, 'r, 'c, 'w) adisp, unit) sm" where
  "deferred_done task j =
     sbind (smodify (\<lambda>s. s\<lparr>ad_deferred := filter (\<lambda>(t, _). t \<noteq> task) (ad_deferred s)\<rparr>)) (\<lambda>_. td_jobFinished j 1)"

section \<open>Closing\<close>

fun close_transports :: "('d, 't, 'a, 'r, 'c, 'w) td_env \<Rightarrow> 'd list \<Rightarrow> (('d, 't, 'r, 'c, 'w) adisp, unit) sm" where
  "close_transports env [] = sret ()"
| "close_transports env (d # ds) =
     sbind (getTransport d) (\<lambda>t.
     sbind (td_closeTransport env t) (\<lambda>_.
     sbind (asyncio_unregisterTransport d) (\<lambda>_.
     close_transports env ds)))"

definition abstract_closeDispatcher :: "('d, 't, 'a, 'r, 'c, 'w) td_env \<Rightarrow> (('d, 't, 'r, 'c, 'w) adisp, unit) sm" where
  "abstract_closeDispatcher env =
     sbind (sget (\<lambda>s. map fst (td_transports s))) (\<lambda>ds.
     sbind (close_transports env ds) (\<lambda>_.
     sbind (smodify (\<lambda>s. s\<lparr>td_transports := []\<rparr>)) (\<lambda>_.
     sbind (unregisterRecvCbFun None) (\<lambda>_.
     sbind (unregisterErrorCbFun None) (\<lambda>_.
     unregisterTimerCbFun None)))))"

text \<open>The deferred tasks are cancelled; each is done when the loop runs again.\<close>

definition closeDispatcher :: "('d, 't, 'a, 'r, 'c, 'w) td_env \<Rightarrow> (('d, 't, 'r, 'c, 'w) adisp, unit) sm" where
  "closeDispatcher env =
     sbind (abstract_closeDispatcher env) (\<lambda>_.
     sbind cancel_timer (\<lambda>_.
     smodify (\<lambda>s. s\<lparr>ad_transportCount := 0\<rparr>)))"

section \<open>The engine's dispatcher\<close>

text \<open>An engine with the dispatcher it may be attached to, and its three callbacks.\<close>

record 'c engine_callbacks =
  ec_receiveMessage :: 'c
  ec_receiveTransportError :: 'c
  ec_receiveTimerTick :: 'c

definition registerTransportDispatcher :: "'c engine_callbacks \<Rightarrow> 'r option \<Rightarrow> bool \<Rightarrow> (('d, 't, 'r, 'c, 'w, 'z) tdisp_scheme, bool) sm" where
  "registerTransportDispatcher cbs recvId attached =
     sbind (registerRecvCbFun (ec_receiveMessage cbs) recvId) (\<lambda>_.
     sbind (registerErrorCbFun (ec_receiveTransportError cbs) recvId) (\<lambda>_.
     sbind (if attached then sret () else registerTimerCbFun (ec_receiveTimerTick cbs) None) (\<lambda>_. sret True)))"

definition unregisterTransportDispatcher :: "'r option \<Rightarrow> bool \<Rightarrow> (('d, 't, 'r, 'c, 'w, 'z) tdisp_scheme, bool) sm" where
  "unregisterTransportDispatcher recvId attached =
     (if \<not> attached then sraise PySnmpError
      else sbind (unregisterRecvCbFun recvId) (\<lambda>_.
        sbind (unregisterErrorCbFun recvId) (\<lambda>_.
        sbind (unregisterTimerCbFun None) (\<lambda>_. sret False))))"

section \<open>What can happen\<close>

datatype ('d, 't, 'a, 'r, 'c) ad_event =
    RegTransport "nat option" 'd 't
  | UnregTransport 'd
  | CloseDispatcher
  | SetResolution rat
  | AddTimer 'c "rat option"
  | DropTimer "'c option"
  | AddReceiver 'c "'r option"
  | DropReceiver "'r option"
  | AddRoute 'c
  | Wake rat
  | StartTimer
  | Arrival 't 'a octets
  | SendTo octets 'd 'a
  | Failure 't 'a
  | LoopRuns nat bool
  | Defer nat "string option"
  | DeferredDone nat string

fun ad_exec :: "('d, 't, 'a, 'r, 'c, 'w) td_env \<Rightarrow> ('d, 't, 'a, 'r, 'c) ad_event \<Rightarrow> (('d, 't, 'r, 'c, 'w) adisp, unit) sm" where
  "ad_exec env (RegTransport l d t) = asyncio_registerTransport l d t"
| "ad_exec env (UnregTransport d) = asyncio_unregisterTransport d"
| "ad_exec env CloseDispatcher = closeDispatcher env"
| "ad_exec env (SetResolution r) = setTimerResolution r"
| "ad_exec env (AddTimer cb i) = registerTimerCbFun cb i"
| "ad_exec env (DropTimer cb) = unregisterTimerCbFun cb"
| "ad_exec env (AddReceiver cb r) = sbind (registerRecvCbFun cb r) (\<lambda>_. registerErrorCbFun cb r)"
| "ad_exec env (DropReceiver r) = sbind (unregisterRecvCbFun r) (\<lambda>_. unregisterErrorCbFun r)"
| "ad_exec env (AddRoute cb) = registerRoutingCbFun cb"
| "ad_exec env (Wake now) = handle_timeout env now"
| "ad_exec env StartTimer = start_timer"
| "ad_exec env (Arrival t a m) = td_cbFun env t a m"
| "ad_exec env (SendTo m d a) = td_sendMessage env m d a"
| "ad_exec env (Failure t a) = td_errorCbFun env t a"
| "ad_exec env (LoopRuns l b) = smodify (\<lambda>s. s\<lparr>ad_isRunning := (ad_isRunning s)(l := b)\<rparr>)"
| "ad_exec env (Defer task j) = runDeferred task j"
| "ad_exec env (DeferredDone task j) = deferred_done task j"

text \<open>The event loop starts the timer when it was asked to, and ends a deferred task it has.\<close>

fun ad_enabled :: "('d, 't, 'r, 'c, 'w) adisp \<Rightarrow> ('d, 't, 'a, 'r, 'c) ad_event \<Rightarrow> bool" where
  "ad_enabled s StartTimer \<longleftrightarrow> ad_timerStartHandle s"
| "ad_enabled s (DeferredDone task j) \<longleftrightarrow> (task, j) \<in> set (ad_deferred s)"
| "ad_enabled s _ \<longleftrightarrow> True"

inductive ad_reach :: "('d, 't, 'a, 'r, 'c, 'w) td_env \<Rightarrow> ('d, 't, 'r, 'c, 'w) adisp \<Rightarrow> bool" for env where
  start: "ad_reach env (asyncio_init loop running w)"
| step: "ad_reach env s \<Longrightarrow> ad_enabled s ev \<Longrightarrow> ad_reach env (snd (ad_exec env ev s))"

section \<open>What is registered is wired up\<close>

text \<open>The fields the invariant speaks of.\<close>

definition wiring :: "('d, 't, 'r, 'c, 'w) adisp \<Rightarrow> _" where
  "wiring s = (td_transports s, td_transportDomainMap s, tr_cbFun s, tr_errorCbFun s, ad_transportCount s,
     ad_loopingcall s \<noteq> None \<or> ad_timerStartHandle s)"

definition wired :: "('d, 't, 'r, 'c, 'w) adisp \<Rightarrow> bool" where
  "wired s \<longleftrightarrow> distinct (map fst (td_transports s)) \<and>
     (\<forall>d t. map_of (td_transports s) d = Some t \<longleftrightarrow> td_transportDomainMap s t = Some d) \<and>
     (\<forall>t. td_transportDomainMap s t \<noteq> None \<longrightarrow> tr_cbFun s t \<and> tr_errorCbFun s t) \<and>
     ad_transportCount s = int (length (td_transports s)) \<and>
     (td_transports s \<noteq> [] \<longrightarrow> ad_loopingcall s \<noteq> None \<or> ad_timerStartHandle s) \<and>
     0 < td_timerResolution s"

lemma wired_cong: "wiring s' = wiring s \<Longrightarrow> td_timerResolution s' = td_timerResolution s \<Longrightarrow> wired s' = wired s"
  unfolding wired_def wiring_def by (simp only: prod.inject)

lemma wiring_td_invoke: "wiring (snd (td_invoke env c s)) = wiring s"
  "td_timerResolution (snd (td_invoke env c s)) = td_timerResolution s"
  by (simp_all add: td_invoke_def wiring_def split: prod.splits)

lemma wiring_error_calls:
  "wiring (snd (error_calls env cbs d a s)) = wiring s \<and> td_timerResolution (snd (error_calls env cbs d a s)) = td_timerResolution s"
proof (induction cbs arbitrary: s)
  case (Cons cb cbs)
  then show ?case using wiring_td_invoke [of env "ErrorCall cb d a" s] by (auto simp: sbind_def split: prod.splits sum.splits)
qed (simp add: sret_def)

lemma wiring_handleTimerTick:
  "wiring (snd (handleTimerTick env now s)) = wiring s" "td_timerResolution (snd (handleTimerTick env now s)) = td_timerResolution s"
  "ad_loopingcall (snd (handleTimerTick env now s)) = ad_loopingcall s"
  by (auto simp: handleTimerTick_def Let_def wiring_def split: prod.splits sum.splits)

lemma wired_handle_timeout: "wired s \<Longrightarrow> wired (snd (handle_timeout env now s))"
proof (cases "handleTimerTick env now s")
  case (Pair r s')
  moreover assume "wired s"
  ultimately have "wired s'" "ad_loopingcall s' = ad_loopingcall s"
    using wired_cong [of s' s] wiring_handleTimerTick [of env now s] by auto
  then show ?thesis using Pair \<open>wired s\<close> by (auto simp: handle_timeout_def wired_def split: sum.splits)
qed

lemma wired_register:
  assumes "wired s"
  shows "wired (snd (asyncio_registerTransport l d t s))"
proof -
  obtain r1 s1 where 1: "adopt_loop l s = (r1, s1)" by fastforce
  have w1: "wired s1" using wired_cong [of s1 s] 1 assms
    by (auto simp: adopt_loop_def wiring_def split: option.splits if_splits)
  obtain r2 s2 where 2: "ensure_timer s1 = (r2, s2)" by fastforce
  have w2: "wired s2" and armed: "ad_loopingcall s2 \<noteq> None \<or> ad_timerStartHandle s2" and r2: "r2 = Inr ()"
    using 2 w1 by (auto simp: ensure_timer_def start_timer_def smodify_def wired_def split: if_splits)
  have reg: "wired (s2\<lparr>tr_cbFun := (tr_cbFun s2)(t := True), tr_errorCbFun := (tr_errorCbFun s2)(t := True),
      td_transports := AList.update d t (td_transports s2), td_transportDomainMap := (td_transportDomainMap s2)(t \<mapsto> d),
      ad_transportCount := ad_transportCount s2 + 1\<rparr>)"
    if "map_of (td_transports s2) d = None" "\<not> tr_cbFun s2 t"
  proof -
    have "td_transportDomainMap s2 t = None" using w2 that(2) by (auto simp: wired_def)
    moreover have "AList.update d t (td_transports s2) = td_transports s2 @ [(d, t)]" 
      using that(1) by (simp add: odict_update_fresh map_of_eq_None_iff)
    moreover have "d \<notin> fst ` set (td_transports s2)" using that(1) by (simp add: map_of_eq_None_iff)
    moreover have "map_of (td_transports s2 @ [(d, t)]) = (map_of (td_transports s2))(d \<mapsto> t)"
      using that(1) by (auto simp: map_add_def fun_eq_iff split: option.splits)
    moreover have "\<And>t'. td_transportDomainMap s2 t' \<noteq> Some d" using w2 that(1) unfolding wired_def by (metis option.distinct(1))
    ultimately show ?thesis using w2 armed that(1)
      by (auto simp: wired_def simp del: map_of_eq_Some_iff split: if_splits)
  qed
  show ?thesis
    using 1 2 w1 w2 r2 reg
    by (cases r1) (auto simp: asyncio_registerTransport_def sbind_def registerTransport_def tr_registerCbFun_def sget_def sraise_def
        smodify_def)
qed

lemma length_delete_one:
  "distinct (map fst al) \<Longrightarrow> map_of al k = Some v \<Longrightarrow> length (AList.delete k al) + 1 = length al"
  by (induction al) (auto split: if_splits dest: map_of_SomeD)

lemma unregisterTransport_known:
  assumes "map_of (td_transports s) d = Some t"
  shows "unregisterTransport d s = (Inr (), s\<lparr>tr_cbFun := (tr_cbFun s)(t := False), tr_errorCbFun := (tr_errorCbFun s)(t := False),
    td_transportDomainMap := (td_transportDomainMap s)(t := None), td_transports := AList.delete d (td_transports s)\<rparr>)"
  using assms by (simp add: unregisterTransport_def getTransport_def tr_unregister_def sm_defs)

lemma asyncio_unregister_known:
  assumes "map_of (td_transports s) d = Some t" and "unregisterTransport d s = (Inr (), s1)"
  shows "asyncio_unregisterTransport d s = (Inr (),
    if ad_transportCount s1 - 1 = 0 \<and> (ad_loopingcall s1 \<noteq> None \<or> ad_timerStartHandle s1)
    then s1\<lparr>ad_transportCount := ad_transportCount s1 - 1, ad_timerStartHandle := False, ad_loopingcall := None\<rparr>
    else s1\<lparr>ad_transportCount := ad_transportCount s1 - 1\<rparr>)"
  using assms by (simp add: asyncio_unregisterTransport_def getTransport_def sm_defs cancel_timer_def)

lemma wired_unregister_any:
  assumes "wired s" and "map_of (td_transports s) d = Some t"
    and "s' = s\<lparr>td_world := w, tr_cbFun := (tr_cbFun s)(t := False), tr_errorCbFun := (tr_errorCbFun s)(t := False)\<rparr>"
  shows "wired (snd (asyncio_unregisterTransport d s')) \<and> fst (asyncio_unregisterTransport d s') = Inr () \<and>
    td_transports (snd (asyncio_unregisterTransport d s')) = AList.delete d (td_transports s)"
proof -
  have len: "length (AList.delete d (td_transports s)) + 1 = length (td_transports s)"
    by (rule length_delete_one [OF _ assms(2)]) (use assms(1) in \<open>simp add: wired_def\<close>)
  define s1 where "s1 = s\<lparr>td_world := w, tr_cbFun := (tr_cbFun s)(t := False), tr_errorCbFun := (tr_errorCbFun s)(t := False),
    td_transportDomainMap := (td_transportDomainMap s)(t := None), td_transports := AList.delete d (td_transports s),
    ad_transportCount := ad_transportCount s - 1\<rparr>"
  define s2 where "s2 = (if ad_transportCount s1 = 0 \<and> (ad_loopingcall s1 \<noteq> None \<or> ad_timerStartHandle s1)
    then s1\<lparr>ad_timerStartHandle := False, ad_loopingcall := None\<rparr> else s1)"
  have known: "map_of (td_transports s') d = Some t" using assms(2,3) by simp
  have eq: "asyncio_unregisterTransport d s' = (Inr (), s2)"
    using asyncio_unregister_known [OF known unregisterTransport_known [OF known]]
    unfolding s2_def s1_def assms(3) by (simp cong: if_cong)
  have t: "td_transportDomainMap s t = Some d" "\<And>t'. td_transportDomainMap s t' = Some d \<Longrightarrow> t' = t"
    using assms(1,2) unfolding wired_def by (blast, metis option.inject)
  have both: "(map_of (td_transports s) d' = Some t') = (td_transportDomainMap s t' = Some d')" for d' t'
    using assms(1) unfolding wired_def by (elim conjE) (erule allE [of _ d'], erule allE [of _ t'], assumption)
  have map1: "(map_of (AList.delete d (td_transports s)) d' = Some t') = (((td_transportDomainMap s)(t := None)) t' = Some d')" for d' t'
  proof -
    have "(map_of (AList.delete d (td_transports s)) d' = Some t') = (d' \<noteq> d \<and> map_of (td_transports s) d' = Some t')"
      by (simp add: map_of_odict_delete)
    also have "\<dots> = (d' \<noteq> d \<and> td_transportDomainMap s t' = Some d')" by (simp only: both)
    also have "\<dots> = (((td_transportDomainMap s)(t := None)) t' = Some d')" 
    proof (cases "t' = t")
      case True
      with t(1) show ?thesis by auto
    next
      case False
      with t(2) have "td_transportDomainMap s t' \<noteq> Some d" by blast
      with False show ?thesis by auto
    qed
    finally show ?thesis .
  qed
  have "wired s1"
    using assms(1) len map1 unfolding s1_def wired_def by (auto simp: distinct_delete simp del: map_of_eq_Some_iff)
  moreover have "wired s2" if "td_transports s1 = []"
    using \<open>wired s1\<close> that unfolding s2_def wired_def by (auto simp del: map_of_eq_Some_iff)
  ultimately have "wired s2" by (cases "td_transports s1 = []") (auto simp: s2_def wired_def)
  then show ?thesis by (simp add: eq s2_def s1_def)
qed

lemma wired_unregister: "wired s \<Longrightarrow> wired (snd (asyncio_unregisterTransport d s))"
proof (cases "map_of (td_transports s) d")
  case None
  then show "wired s \<Longrightarrow> ?thesis" by (simp add: asyncio_unregisterTransport_def getTransport_def sm_defs)
next
  case (Some t)
  assume w: "wired s"
  let ?s = "s\<lparr>td_world := td_world s, tr_cbFun := (tr_cbFun s)(t := False), tr_errorCbFun := (tr_errorCbFun s)(t := False)\<rparr>"
  have "asyncio_unregisterTransport d s = asyncio_unregisterTransport d ?s"
    using Some by (simp add: asyncio_unregisterTransport_def unregisterTransport_def getTransport_def tr_unregister_def sm_defs)
  with wired_unregister_any [OF w Some refl] show ?thesis by metis
qed

lemma close_transports_ok:
  assumes "wired s" and "distinct ds" and "set ds \<subseteq> fst ` set (td_transports s)"
  shows "wired (snd (close_transports env ds s)) \<and>
    (fst (close_transports env ds s) = Inr () \<longrightarrow> fst ` set (td_transports (snd (close_transports env ds s))) = fst ` set (td_transports s) - set ds)"
  using assms
proof (induction ds arbitrary: s)
  case (Cons d ds)
  then obtain t where t: "map_of (td_transports s) d = Some t" by (metis insert_subset list.simps(15) map_of_eq_None_iff not_None_eq)
  obtain r w where run: "te_run env (TransportClose t) (td_world s) = (r, w)" by fastforce
  show ?case
  proof (cases r)
    case (Inl e)
    have "wired (s\<lparr>td_world := w\<rparr>)" using Cons.prems(1) wired_cong [of "s\<lparr>td_world := w\<rparr>" s] by (simp add: wiring_def)
    with Inl t run show ?thesis by (simp add: getTransport_def td_closeTransport_def td_invoke_def sm_defs)
  next
    case (Inr u)
    let ?s = "s\<lparr>td_world := w, tr_cbFun := (tr_cbFun s)(t := False), tr_errorCbFun := (tr_errorCbFun s)(t := False)\<rparr>"
    let ?s' = "snd (asyncio_unregisterTransport d ?s)"
    have u: "wired ?s'" "fst (asyncio_unregisterTransport d ?s) = Inr ()" "td_transports ?s' = AList.delete d (td_transports s)"
      using wired_unregister_any [OF Cons.prems(1) t refl] by blast+
    have "close_transports env (d # ds) s = close_transports env ds ?s'"
      using Inr t run u(2) by (cases "asyncio_unregisterTransport d ?s")
        (simp add: getTransport_def td_closeTransport_def td_invoke_def tr_unregister_def sm_defs)
    moreover have keys: "fst ` set (td_transports ?s') = fst ` set (td_transports s) - {d}" by (simp add: u(3) keys_odict_delete)
    moreover have "wired (snd (close_transports env ds ?s')) \<and>
      (fst (close_transports env ds ?s') = Inr () \<longrightarrow>
        fst ` set (td_transports (snd (close_transports env ds ?s'))) = fst ` set (td_transports ?s') - set ds)"
      by (rule Cons.IH [OF u(1)]) (use Cons.prems(2,3) in \<open>auto simp: keys\<close>)
    ultimately show ?thesis by (metis Diff_insert2 keys list.set(2))
  qed
qed (simp add: sret_def)

lemma wired_close: 
  assumes "wired s"
  shows "wired (snd (closeDispatcher env s))"
proof -
  obtain r s1 where c: "close_transports env (map fst (td_transports s)) s = (r, s1)" by fastforce
  have w: "wired s1" "r = Inr () \<Longrightarrow> td_transports s1 = []"
    using close_transports_ok [OF assms, of "map fst (td_transports s)" env] assms c by (auto simp: wired_def)
  show ?thesis
  proof (cases r)
    case (Inl e)
    with c w show ?thesis by (simp add: closeDispatcher_def abstract_closeDispatcher_def sm_defs)
  next
    case (Inr u)
    with c w show ?thesis
      by (simp add: closeDispatcher_def abstract_closeDispatcher_def sm_defs unregisterRecvCbFun_def unregisterErrorCbFun_def
          unregisterTimerCbFun_def cancel_timer_def wired_def)
  qed
qed

lemma wired_resolution: "wired s \<Longrightarrow> wired (snd (setTimerResolution r s))"
  by (auto simp: setTimerResolution_def wired_def)

lemma wired_others:
  assumes "wired s"
  shows "wired (snd (registerTimerCbFun cb i s))" "wired (snd (unregisterTimerCbFun c s))" "wired (snd (registerRoutingCbFun cb s))"
    "wired (snd (start_timer s))" "wired (snd (td_cbFun env t a m s))" "wired (snd (td_sendMessage env m d a s))"
    "wired (snd (td_errorCbFun env t a s))" "wired (s\<lparr>ad_isRunning := ru\<rparr>)" "wired (snd (runDeferred task j s))"
    "wired (snd (deferred_done task j' s))" "wired (snd (registerRecvCbFun cb rc s))" "wired (snd (registerErrorCbFun cb rc s))"
    "wired (snd (unregisterRecvCbFun rc s))" "wired (snd (unregisterErrorCbFun rc s))"
proof -
  note c = wired_cong [THEN iffD2, OF _ _ assms]
  show "wired (snd (registerTimerCbFun cb i s))" "wired (snd (registerRoutingCbFun cb s))"
    "wired (s\<lparr>ad_isRunning := ru\<rparr>)" "wired (snd (runDeferred task j s))" "wired (snd (registerRecvCbFun cb rc s))"
    "wired (snd (registerErrorCbFun cb rc s))" "wired (snd (unregisterRecvCbFun rc s))" "wired (snd (unregisterErrorCbFun rc s))"
    by (rule c; simp add: registerTimerCbFun_def registerRoutingCbFun_def runDeferred_def td_jobStarted_def registerRecvCbFun_def
        registerErrorCbFun_def unregisterRecvCbFun_def unregisterErrorCbFun_def Let_def sm_defs wiring_def)+
  show "wired (snd (unregisterTimerCbFun c s))"
    by (rule c) (auto simp: unregisterTimerCbFun_def wiring_def split: option.splits)
  show "wired (snd (start_timer s))" using assms by (auto simp: start_timer_def smodify_def wired_def split: option.splits)
  show "wired (snd (td_cbFun env t a m s))"
    by (rule c) (auto simp: td_cbFun_def Let_def wiring_td_invoke split: option.splits)
  show "wired (snd (td_sendMessage env m d a s))"
    by (rule c) (auto simp: td_sendMessage_def getTransport_def sm_defs of_option_def wiring_td_invoke split: option.splits)
  show "wired (snd (td_errorCbFun env t a s))"
    by (rule c) (auto simp: td_errorCbFun_def wiring_error_calls split: option.splits)
  show "wired (snd (deferred_done task j' s))"
    by (rule c) (auto simp: deferred_done_def td_jobFinished_def sm_defs wiring_def split: option.splits)
qed

lemma wired_exec:
  assumes "wired s"
  shows "wired (snd (ad_exec env ev s))"
proof (cases ev)
  case (AddReceiver cb r)
  obtain x s1 where "registerRecvCbFun cb r s = (x, s1)" by fastforce
  moreover from this have "wired s1" using wired_others(11) [OF assms, of cb r] by simp
  ultimately show ?thesis using wired_others(12) [of s1 cb r] AddReceiver by (cases x) (simp_all add: sbind_def)
next
  case (DropReceiver r)
  obtain x s1 where "unregisterRecvCbFun r s = (x, s1)" by fastforce
  moreover from this have "wired s1" using wired_others(13) [OF assms, of r] by simp
  ultimately show ?thesis using wired_others(14) [of s1 r] DropReceiver by (cases x) (simp_all add: sbind_def)
qed (use assms in \<open>simp_all add: wired_register wired_unregister wired_close wired_resolution wired_handle_timeout wired_others smodify_def\<close>)

lemma reach_wired: "ad_reach env s \<Longrightarrow> wired s"
proof (induction rule: ad_reach.induct)
  case (start loop running w)
  then show ?case by (simp add: wired_def asyncio_init_def td_init_def tdisp.defs adisp.defs)
next
  case (step s ev)
  then show ?case by (simp add: wired_exec)
qed

text \<open>
  Messages come and go through the transport of their domain. Whatever was registered and
  unregistered, with or without success, and whatever arrived, was sent or ended since: what is sent to a domain that is registered goes to
  its transport, what arrives on this transport goes to the receiver the routing function names, with this domain, or is
  refused when there is none, no other domain has the transport, and the timer was started.
\<close>

theorem messages_follow_domains:
  assumes "ad_reach env s" and "map_of (td_transports s) d = Some t"
  shows "td_sendMessage env m d a s = td_invoke env (TransportSend t m a) s \<and>
    td_cbFun env t a m s =
      (case td_recvCallables s (case td_routingCbFun s of None \<Rightarrow> None | Some route \<Rightarrow> te_route env route d a m) of
         None \<Rightarrow> (Inl PySnmpError, s)
       | Some cb \<Rightarrow> td_invoke env (RecvCall cb d a m) s) \<and>
    (\<forall>d'. map_of (td_transports s) d' = Some t \<longrightarrow> d' = d) \<and> tr_cbFun s t \<and>
    (ad_loopingcall s \<noteq> None \<or> ad_timerStartHandle s)"
proof -
  have w: "wired s" by (rule reach_wired [OF assms(1)])
  have dm: "td_transportDomainMap s t = Some d" "\<And>d'. map_of (td_transports s) d' = Some t \<Longrightarrow> d' = d"
    using w assms(2) unfolding wired_def by (blast, metis option.inject)
  have cb: "tr_cbFun s t" using w dm(1) unfolding wired_def by (metis option.distinct(1))
  have armed: "ad_loopingcall s \<noteq> None \<or> ad_timerStartHandle s" using w assms(2) unfolding wired_def by fastforce
  have send: "td_sendMessage env m d a s = td_invoke env (TransportSend t m a) s"
    using assms(2) by (simp add: td_sendMessage_def getTransport_def sm_defs)
  have arrive: "td_cbFun env t a m s =
      (case td_recvCallables s (case td_routingCbFun s of None \<Rightarrow> None | Some route \<Rightarrow> te_route env route d a m) of
         None \<Rightarrow> (Inl PySnmpError, s)
       | Some cb \<Rightarrow> td_invoke env (RecvCall cb d a m) s)"
    by (simp add: td_cbFun_def dm(1))
  show ?thesis using dm(2) cb armed send arrive by blast
qed

text \<open>An engine's dispatcher with a transport, that has received its first message.\<close>

definition listening :: "(nat, nat, nat, nat, (nat, nat, nat, nat) td_call list) adisp" where
  "listening = snd (ad_exec (log_env :: (nat, nat, nat, nat, nat, _) td_env) (RegTransport (Some 1) 5 6)
     (snd (ad_exec (log_env :: (nat, nat, nat, nat, nat, _) td_env) (AddReceiver 9 None) (asyncio_init 0 (\<lambda>_. False) []))))"

lemmas ad_ops = asyncio_registerTransport_def adopt_loop_def ensure_timer_def registerTransport_def tr_registerCbFun_def
  registerRecvCbFun_def registerErrorCbFun_def start_timer_def loop_is_running_def asyncio_init_def td_init_def tdisp.defs adisp.defs
  sm_defs

lemma messages_follow_domains_witness:
  "td_sendMessage log_env [1] 5 3 listening = td_invoke (log_env :: (nat, nat, nat, nat, nat, _) td_env) (TransportSend 6 [1] 3) listening \<and>
   td_cbFun log_env 6 3 [2] listening = td_invoke (log_env :: (nat, nat, nat, nat, nat, _) td_env) (RecvCall 9 5 3 [2]) listening"
proof -
  have r: "ad_reach (log_env :: (nat, nat, nat, nat, nat, _) td_env) listening"
    unfolding listening_def by (intro ad_reach.step ad_reach.start) simp_all
  have t: "map_of (td_transports listening) 5 = Some 6" "td_recvCallables listening None = Some 9" "td_routingCbFun listening = None"
    by (simp_all add: listening_def ad_ops)
  show ?thesis
    using messages_follow_domains [OF r t(1), of "[1]" 3] messages_follow_domains [OF r t(1), of "[2]" 3] t(2,3) by simp
qed

section \<open>A timer that raises\<close>

text \<open>What takes the ticking task away from the dispatcher.\<close>

fun stops_timer :: "('d, 't, 'a, 'r, 'c) ad_event \<Rightarrow> bool" where
  "stops_timer (UnregTransport d) = True"
| "stops_timer CloseDispatcher = True"
| "stops_timer _ = False"

definition run_events :: "('d, 't, 'a, 'r, 'c, 'w) td_env \<Rightarrow> ('d, 't, 'a, 'r, 'c) ad_event list \<Rightarrow> ('d, 't, 'r, 'c, 'w) adisp \<Rightarrow> ('d, 't, 'r, 'c, 'w) adisp" where
  "run_events env evs s = foldl (\<lambda>s ev. snd (ad_exec env ev s)) s evs"

definition clock_stands :: "exn \<Rightarrow> nat \<Rightarrow> ('d, 't, 'r, 'c, 'w) adisp \<Rightarrow> bool" where
  "clock_stands e n s \<longleftrightarrow> ad_loopingcall s = Some (TickerEnded e) \<and> td_ticks s = n"

lemma error_calls_stand: "clock_stands e n s \<Longrightarrow> clock_stands e n (snd (error_calls env cbs d a s))"
proof (induction cbs arbitrary: s)
  case (Cons cb cbs)
  then show ?case by (auto simp: sbind_def td_invoke_def clock_stands_def split: prod.splits sum.splits)
qed (simp add: sret_def)

lemma clock_stands_exec:
  assumes "clock_stands e n s" and "\<not> stops_timer ev"
  shows "clock_stands e n (snd (ad_exec env ev s))"
  using assms
proof (cases ev)
  case (RegTransport l d t)
  show ?thesis using assms unfolding RegTransport
    by (auto simp: ad_ops clock_stands_def sget_def split: option.splits if_splits prod.splits sum.splits)
next
  case (Failure t a)
  then show ?thesis using assms error_calls_stand [of e n s env] by (auto simp: td_errorCbFun_def split: option.splits)
next
  case (Arrival t a m)
  then show ?thesis using assms
    by (auto simp: td_cbFun_def Let_def td_invoke_def clock_stands_def split: option.splits prod.splits)
next
  case (SendTo m d a)
  then show ?thesis using assms
    by (auto simp: td_sendMessage_def getTransport_def of_option_def sm_defs td_invoke_def clock_stands_def split: option.splits prod.splits)
qed (auto simp: clock_stands_def handle_timeout_def setTimerResolution_def registerTimerCbFun_def unregisterTimerCbFun_def Let_def
    registerRecvCbFun_def registerErrorCbFun_def unregisterRecvCbFun_def unregisterErrorCbFun_def registerRoutingCbFun_def start_timer_def
    runDeferred_def td_jobStarted_def deferred_done_def td_jobFinished_def sm_defs split: option.splits)

lemma clock_stands_run:
  "clock_stands e n s \<Longrightarrow> \<not> list_ex stops_timer evs \<Longrightarrow> clock_stands e n (run_events env evs s)"
  by (induction evs arbitrary: s) (auto simp: run_events_def clock_stands_exec)

lemma stands_idle: "ad_loopingcall s = Some (TickerEnded e) \<Longrightarrow> handle_timeout env later s = (Inr (), s)"
  by (simp add: handle_timeout_def)

text \<open>
  A timer that raises stops the clock. The exception of one callback ends the task
  that ticks, which keeps it to itself. Whatever happens after it, short of a transport being
  unregistered or the dispatcher closed, registering another transport included, no tick is ever counted again and
  waking up does nothing: no timer is called, and what is outstanding never times out.
\<close>

theorem raising_timer_stops_clock:
  assumes "ad_loopingcall s = Some Ticking" and "handleTimerTick env now s = (Inl e, s1)" and "\<not> list_ex stops_timer evs"
  shows "fst (handle_timeout env now s) = Inr () \<and>
    (let s' = run_events env evs (snd (handle_timeout env now s)) in
     td_ticks s' = td_ticks s1 \<and> (\<forall>later. handle_timeout env later s' = (Inr (), s')))"
proof -
  have t: "handle_timeout env now s = (Inr (), s1\<lparr>ad_loopingcall := Some (TickerEnded e)\<rparr>)"
    using assms(1,2) by (simp add: handle_timeout_def)
  have "clock_stands e (td_ticks s1) (run_events env evs (s1\<lparr>ad_loopingcall := Some (TickerEnded e)\<rparr>))"
    by (rule clock_stands_run [OF _ assms(3)]) (simp add: clock_stands_def)
  then show ?thesis using stands_idle by (auto simp: t Let_def clock_stands_def)
qed

text \<open>A receiver's exception, with a timer that would be called on every tick after it.\<close>

definition raising_env :: "(nat, nat, nat, nat, nat, nat list) td_env" where
  "raising_env = \<lparr>te_run = (\<lambda>c w. case c of TimerCall cb now \<Rightarrow> if cb = 1 then (Inl ValueError, w @ [1]) else (Inr (), w @ [cb]) | _ \<Rightarrow> (Inr (), w)),
     te_route = (\<lambda>_ _ _ _. None)\<rparr>"

definition ticking :: "(nat, nat, nat, nat, nat list) adisp" where
  "ticking = run_events raising_env [AddTimer 1 None, AddTimer 2 None, RegTransport None 5 6, StartTimer, Wake 1] (asyncio_init 0 (\<lambda>_. False) [])"

lemma raising_timer_stops_clock_witness:
  "let s' = run_events raising_env [RegTransport None 7 8, StartTimer, Wake 3, Wake 4] (snd (handle_timeout raising_env 2 ticking)) in
     td_ticks s' = 1 \<and> (\<forall>later. handle_timeout raising_env later s' = (Inr (), s'))"
proof -
  have s: "ad_loopingcall ticking = Some Ticking"
    by (simp add: ticking_def run_events_def ad_ops registerTimerCbFun_def handle_timeout_def handleTimerTick_def Let_def next_time_def)
  have h: "fst (handleTimerTick raising_env 2 ticking) = Inl ValueError" "td_ticks (snd (handleTimerTick raising_env 2 ticking)) = 1"
    by (simp_all add: ticking_def run_events_def ad_ops registerTimerCbFun_def handle_timeout_def handleTimerTick_def Let_def next_time_def
        timer_due_def raising_env_def)
  then obtain s1 where "handleTimerTick raising_env 2 ticking = (Inl ValueError, s1)" "td_ticks s1 = 1" by (metis prod.collapse)
  from raising_timer_stops_clock [OF s this(1), of "[RegTransport None 7 8, StartTimer, Wake 3, Wake 4]"] this(2)
  show ?thesis by (simp add: Let_def)
qed

section \<open>Receivers that are left behind\<close>

text \<open>
  Detaching the engine from one of two receivers it registered takes all timers from the dispatcher: the other
  receiver still gets its messages, but no tick calls anything any more.
\<close>

lemma detach_takes_all_timers:
  assumes "registerTransportDispatcher cbs r1 False s = (Inr True, s1)" and "registerTransportDispatcher cbs r2 True s1 = (Inr True, s2)"
    and "unregisterTransportDispatcher r1 True s2 = (Inr b, s3)"
  shows "\<not> b \<and> td_recvCallables s3 r2 = Some (ec_receiveMessage cbs) \<and>
    td_world (snd (handleTimerTick env now s3)) = td_world s3"
proof -
  have "td_recvCallables s1 r1 \<noteq> None"
    using assms(1) by (auto simp: registerTransportDispatcher_def registerRecvCbFun_def registerErrorCbFun_def registerTimerCbFun_def Let_def
        sm_defs split: if_splits)
  then have "r1 \<noteq> r2" "td_recvCallables s2 r2 = Some (ec_receiveMessage cbs)"
    using assms(2) by (auto simp: registerTransportDispatcher_def registerRecvCbFun_def registerErrorCbFun_def sm_defs split: if_splits)
  with assms(3) show ?thesis
    by (auto simp: unregisterTransportDispatcher_def unregisterRecvCbFun_def unregisterErrorCbFun_def unregisterTimerCbFun_def sm_defs
        handleTimerTick_def Let_def)
qed

text \<open>Closing the dispatcher drops the default receiver only; one that has a name is still registered, and so is the routing function.\<close>

lemma receivers_unregister: "td_recvCallables (snd (asyncio_unregisterTransport d s)) = td_recvCallables s \<and>
    td_routingCbFun (snd (asyncio_unregisterTransport d s)) = td_routingCbFun s"
  by (auto simp: asyncio_unregisterTransport_def unregisterTransport_def getTransport_def tr_unregister_def sm_defs cancel_timer_def of_option_def
      split: option.splits)

lemma receivers_close_transports:
  "td_recvCallables (snd (close_transports env ds s)) = td_recvCallables s \<and> td_routingCbFun (snd (close_transports env ds s)) = td_routingCbFun s"
proof (induction ds arbitrary: s)
  case (Cons d ds)
  show ?case
  proof (cases "map_of (td_transports s) d")
    case (Some t)
    obtain r s1 where c: "td_closeTransport env t s = (r, s1)" by fastforce
    then have s1: "td_recvCallables s1 = td_recvCallables s" "td_routingCbFun s1 = td_routingCbFun s"
      by (auto simp: td_closeTransport_def td_invoke_def tr_unregister_def sm_defs split: prod.splits sum.splits)
    obtain r2 s2 where u: "asyncio_unregisterTransport d s1 = (r2, s2)" by fastforce
    show ?thesis using Some c s1 u receivers_unregister [of d s1] Cons.IH [of s2]
      by (cases r; cases r2) (auto simp: getTransport_def sm_defs)
  qed (simp add: getTransport_def sm_defs)
qed (simp add: sret_def)

lemma close_keeps_named_receivers:
  "td_recvCallables (snd (closeDispatcher env s)) (Some r) = td_recvCallables s (Some r) \<and>
   td_routingCbFun (snd (closeDispatcher env s)) = td_routingCbFun s"
proof -
  obtain x s1 where c: "close_transports env (map fst (td_transports s)) s = (x, s1)" by fastforce
  with receivers_close_transports [of env "map fst (td_transports s)" s] show ?thesis
    by (cases x) (auto simp: closeDispatcher_def abstract_closeDispatcher_def sm_defs unregisterRecvCbFun_def unregisterErrorCbFun_def
        unregisterTimerCbFun_def cancel_timer_def)
qed

end
