(* ===== verification/Datagram.thy ===== *)
theory Datagram
  imports Snmp_Prelude
begin

text \<open>
  Datagram transports, \<open>DgramAsyncioTransport\<close> of \<open>pysnmp/carrier/asyncio/dgram/base.py\<close>: what waits for a
  socket, datagrams and socket options, and what is done when there is one.

  What may fail is a parameter: sending a datagram to an address, which includes making the address one of the
  transport's, and setting an option. The lemmas show that datagrams go out once and in order when nothing fails, and
  what a failure while the queue is flushed leaves behind.
\<close>

record ('a, 'o) dgram =
  dg_writeQ :: "(octets \<times> 'a) list"
  dg_pendingSocketOptions :: "'o list"
  dg_transport :: bool
  dg_cbFun :: bool
  dg_sent :: "(octets \<times> 'a) list"
  dg_options :: "'o list"
  dg_delivered :: "(octets \<times> 'a) list"

record ('a, 'o) dgram_env =
  de_sendto :: "octets \<Rightarrow> 'a \<Rightarrow> exn option"
  de_setsockopt :: "'o \<Rightarrow> exn option"

definition dgram_init :: "('a, 'o) dgram" where
  "dgram_init = \<lparr>dg_writeQ = [], dg_pendingSocketOptions = [], dg_transport = False, dg_cbFun = True,
     dg_sent = [], dg_options = [], dg_delivered = []\<rparr>"

section \<open>Operations\<close>

definition dg_sendto :: "('a, 'o) dgram_env \<Rightarrow> octets \<Rightarrow> 'a \<Rightarrow> (('a, 'o) dgram, unit) sm" where
  "dg_sendto env m a s =
     (case de_sendto env m a of
        None \<Rightarrow> (Inr (), s\<lparr>dg_sent := dg_sent s @ [(m, a)]\<rparr>)
      | Some e \<Rightarrow> (Inl PySnmpError, s))"

text \<open>An option goes to the socket; an exception of the call is the caller's.\<close>

definition apply_option :: "('a, 'o) dgram_env \<Rightarrow> 'o \<Rightarrow> (('a, 'o) dgram, unit) sm" where
  "apply_option env o1 s =
     (case de_setsockopt env o1 of
        None \<Rightarrow> (Inr (), s\<lparr>dg_options := dg_options s @ [o1]\<rparr>)
      | Some e \<Rightarrow> (Inl e, s))"

fun apply_options :: "('a, 'o) dgram_env \<Rightarrow> 'o list \<Rightarrow> (('a, 'o) dgram, unit) sm" where
  "apply_options env [] = sret ()"
| "apply_options env (o1 # os) = sbind (apply_option env o1) (\<lambda>_. apply_options env os)"

text \<open>Each datagram is taken out of the queue before it is sent.\<close>

fun flush :: "('a, 'o) dgram_env \<Rightarrow> (octets \<times> 'a) list \<Rightarrow> (('a, 'o) dgram, unit) sm" where
  "flush env [] = smodify (\<lambda>s. s\<lparr>dg_writeQ := []\<rparr>)"
| "flush env ((m, a) # q) = sbind (smodify (\<lambda>s. s\<lparr>dg_writeQ := q\<rparr>)) (\<lambda>_. sbind (dg_sendto env m a) (\<lambda>_. flush env q))"

definition connection_made :: "('a, 'o) dgram_env \<Rightarrow> (('a, 'o) dgram, unit) sm" where
  "connection_made env =
     sbind (smodify (\<lambda>s. s\<lparr>dg_transport := True\<rparr>)) (\<lambda>_.
     sbind (sget dg_pendingSocketOptions) (\<lambda>os.
     sbind (apply_options env os) (\<lambda>_.
     sbind (smodify (\<lambda>s. s\<lparr>dg_pendingSocketOptions := []\<rparr>)) (\<lambda>_.
     sbind (sget dg_writeQ) (\<lambda>q. flush env q)))))"

definition connection_lost :: "(('a, 'o) dgram, unit) sm" where
  "connection_lost = smodify (\<lambda>s. s\<lparr>dg_transport := False\<rparr>)"

definition dgram_sendMessage :: "('a, 'o) dgram_env \<Rightarrow> octets \<Rightarrow> 'a \<Rightarrow> (('a, 'o) dgram, unit) sm" where
  "dgram_sendMessage env m a s =
     (if \<not> dg_transport s then (Inr (), s\<lparr>dg_writeQ := dg_writeQ s @ [(m, a)]\<rparr>) else dg_sendto env m a s)"

definition datagram_received :: "octets \<Rightarrow> 'a \<Rightarrow> (('a, 'o) dgram, unit) sm" where
  "datagram_received m a s =
     (if \<not> dg_cbFun s then (Inl PySnmpError, s) else (Inr (), s\<lparr>dg_delivered := dg_delivered s @ [(m, a)]\<rparr>))"

definition configureSocket :: "('a, 'o) dgram_env \<Rightarrow> 'o \<Rightarrow> (('a, 'o) dgram, unit) sm" where
  "configureSocket env o1 s =
     (if \<not> dg_transport s then (Inr (), s\<lparr>dg_pendingSocketOptions := dg_pendingSocketOptions s @ [o1]\<rparr>) else apply_option env o1 s)"

text \<open>The transport is closed later by the loop; the queue is kept.\<close>

definition dgram_closeTransport :: "(('a, 'o) dgram, unit) sm" where
  "dgram_closeTransport = smodify (\<lambda>s. s\<lparr>dg_cbFun := False\<rparr>)"

section \<open>Datagrams go out once and in order\<close>

datatype ('a, 'o) dgram_event = DgMade | DgLost | DgSend octets 'a | DgReceived octets 'a | DgOption 'o | DgClose

fun dgram_exec :: "('a, 'o) dgram_env \<Rightarrow> ('a, 'o) dgram_event \<Rightarrow> (('a, 'o) dgram, unit) sm" where
  "dgram_exec env DgMade = connection_made env"
| "dgram_exec env DgLost = connection_lost"
| "dgram_exec env (DgSend m a) = dgram_sendMessage env m a"
| "dgram_exec env (DgReceived m a) = datagram_received m a"
| "dgram_exec env (DgOption o1) = configureSocket env o1"
| "dgram_exec env DgClose = dgram_closeTransport"

definition run_dgram :: "('a, 'o) dgram_env \<Rightarrow> ('a, 'o) dgram_event list \<Rightarrow> ('a, 'o) dgram" where
  "run_dgram env evs = foldl (\<lambda>s ev. snd (dgram_exec env ev s)) dgram_init evs"

fun asked :: "('a, 'o) dgram_event list \<Rightarrow> (octets \<times> 'a) list" where
  "asked [] = []"
| "asked (DgSend m a # evs) = (m, a) # asked evs"
| "asked (_ # evs) = asked evs"

lemma asked_append [simp]: "asked (evs @ evs') = asked evs @ asked evs'"
  by (induction evs rule: asked.induct) simp_all

lemma flush_ok:
  assumes "\<And>m a. (m, a) \<in> set q \<Longrightarrow> de_sendto env m a = None"
  shows "flush env q s = (Inr (), s\<lparr>dg_writeQ := [], dg_sent := dg_sent s @ q\<rparr>)"
  using assms
proof (induction q arbitrary: s)
  case (Cons ma q)
  obtain m a where "ma = (m, a)" by fastforce
  with Cons show ?case by (simp add: sm_defs dg_sendto_def)
qed (simp add: sm_defs)

lemma apply_options_ok:
  assumes "\<And>o1. de_setsockopt env o1 = None"
  shows "apply_options env os s = (Inr (), s\<lparr>dg_options := dg_options s @ os\<rparr>)"
  using assms by (induction os arbitrary: s) (simp_all add: sm_defs apply_option_def)

text \<open>
  Datagrams go out once and in order. When sending and setting options do not fail, then after any
  sequence of sockets made and lost, messages sent and received and options set, what
  has been sent and what waits for a socket are together what the transport was asked to send, in order, and
  nothing waits while there is a socket.
\<close>

theorem datagrams_in_order:
  assumes "\<And>m a. de_sendto env m a = None" and "\<And>o1. de_setsockopt env o1 = None"
  shows "dg_sent (run_dgram env evs) @ dg_writeQ (run_dgram env evs) = asked evs \<and>
    (dg_transport (run_dgram env evs) \<longrightarrow> dg_writeQ (run_dgram env evs) = [] \<and> dg_pendingSocketOptions (run_dgram env evs) = [])"
proof (induction evs rule: rev_induct)
  case Nil
  then show ?case by (simp add: run_dgram_def dgram_init_def)
next
  case (snoc ev evs)
  have step: "run_dgram env (evs @ [ev]) = snd (dgram_exec env ev (run_dgram env evs))" by (simp add: run_dgram_def)
  show ?case using snoc assms unfolding step
    by (cases ev) (auto simp: connection_made_def connection_lost_def dgram_sendMessage_def datagram_received_def configureSocket_def
        dgram_closeTransport_def dg_sendto_def apply_option_def apply_options_ok flush_ok sm_defs)
qed

lemma datagrams_in_order_witness:
  fixes env :: "(nat, nat) dgram_env"
  defines "env \<equiv> \<lparr>de_sendto = (\<lambda>_ _. None), de_setsockopt = (\<lambda>_. None)\<rparr>"
  shows "dg_sent (run_dgram env [DgSend [1] 7, DgOption 3, DgMade, DgSend [2] 8, DgLost, DgSend [3] 7]) @ [([3], 7)] = [([1], 7), ([2], 8), ([3], 7)]"
proof -
  have "de_sendto env m a = None" "de_setsockopt env o1 = None" for m a o1 by (simp_all add: env_def)
  from datagrams_in_order [OF this, of "[DgSend [1] 7, DgOption 3, DgMade, DgSend [2] 8, DgLost, DgSend [3] 7]"]
  show ?thesis by (simp add: env_def run_dgram_def dgram_init_def dgram_sendMessage_def configureSocket_def connection_made_def connection_lost_def
        apply_option_def dg_sendto_def sm_defs)
qed

section \<open>A datagram that cannot be sent\<close>

text \<open>
  The first datagram that fails while the queue is flushed ends the flush: those behind it stay in the queue,
  while what is sent from then on goes out past them.
\<close>

lemma failed_flush_strands:
  assumes "\<And>m a. (m, a) \<in> set q1 \<Longrightarrow> de_sendto env m a = None" and "de_sendto env m a = Some e"
    and "dg_writeQ s = q1 @ (m, a) # q2" and "dg_pendingSocketOptions s = []" and "de_sendto env m' a' = None"
  shows "\<exists>s'. connection_made env s = (Inl PySnmpError, s') \<and> dg_writeQ s' = q2 \<and> dg_transport s' \<and>
    dgram_sendMessage env m' a' s' = (Inr (), s'\<lparr>dg_sent := dg_sent s @ q1 @ [(m', a')]\<rparr>)"
proof -
  have flush: "flush env (q1 @ (m, a) # q2) t = (Inl PySnmpError, t\<lparr>dg_writeQ := q2, dg_sent := dg_sent t @ q1\<rparr>)" for t
    using assms(1)
  proof (induction q1 arbitrary: t)
    case Nil
    then show ?case using assms(2) by (simp add: sm_defs dg_sendto_def)
  next
    case (Cons x q1)
    obtain m a where "x = (m, a)" by fastforce
    with Cons show ?case by (simp add: sm_defs dg_sendto_def)
  qed
  show ?thesis using assms(3-5) by (simp add: connection_made_def sm_defs flush dgram_sendMessage_def dg_sendto_def)
qed

end
