(* ===== verification/Spec2Isabelle.thy ===== *)
theory Spec2Isabelle
  imports Usage_Cache Engine_Caches Vacm Proxy Dispatcher V3_Usm Mp_Community Cmdrsp
    Cmdgen_Walk Cmdgen_Dispatch Ntforg_Send Ntforg_Done Ntfrcv
    Stream_Carrier Asyncio_Dispatcher Datagram
begin

text \<open>
  \<^bold>\<open>A verification library for the SNMP engine of pysnmp.\<close>

  pysnmp is an SNMP engine in Python. An application hands a protocol data unit (PDU) to the
  message and PDU dispatcher (\<open>pysnmp/proto/rfc3412.py\<close>), which has a message processing model
  (\<open>pysnmp/proto/mpmod/\<close>) turn it into a message with the help of a security model
  (\<open>pysnmp/proto/secmod/\<close>), and gives the message to a transport. On the way in, the same
  components run in the opposite order, and what a request asks for is checked by an access
  control model (\<open>pysnmp/proto/acmod/\<close>) before the managed objects are read or written. All of
  them keep state between the two halves of an exchange, in caches of their own. The three
  protocol versions are bridged by a proxy that translates PDUs
  (\<open>pysnmp/proto/proxy/rfc2576.py\<close>).

  \<^bold>\<open>Theories.\<close> Each models one component, in the order its code has, followed by what is
  proved about it.

  \<^item> \<open>Snmp_Prelude\<close>: octets, object identifiers and Python's containers; the error indications
    of \<open>proto/errind.py\<close>, \<open>StatusInformation\<close> of \<open>proto/error.py\<close> and the exceptions the code
    raises, as values; the error monad \<open>res\<close> and the state and error monad \<open>sm\<close> in which an
    exception leaves the changes made before it in place, as in Python.

  \<^item> \<open>Next_Id\<close>: the identifier generator \<open>pysnmp/nextid.py\<close>. Values drawn close together differ;
    how far above the maximum they can go.

  \<^item> \<open>Usage_Cache\<close>: the bounded cache \<open>pysnmp/cache.py\<close>: its invariant, its bound, and which
    entries make room for a new one.

  \<^item> \<open>State_Store\<close>: the interface \<open>one_shot_store\<close> of the caches that hold an entry until it is
    asked for once, with what follows for any sequence of look-ups.

  \<^item> \<open>MP_Cache\<close>: the message processing model's cache \<open>proto/mpmod/cache.py\<close> with its expiry queue,
    two instances of that interface; a step relation over its operations, its invariant by
    rule induction, absence of key errors, lifetime of entries.

  \<^item> \<open>Engine_Caches\<close>: the security model's cache \<open>proto/secmod/cache.py\<close>, the third instance, and
    the dispatcher's cache of pending requests \<open>proto/cache.py\<close>.

  \<^item> \<open>Vacm\<close>: view-based access control, \<open>proto/acmod/rfc3415.py\<close> and \<open>void.py\<close>: the four tables
    it caches, the search for the best row, the compiled view trees and the walk over them.
    The search is shown to refine RFC 3415's order on rows, the walk to refine the
    most-specific-family rule, and every cached decision to be the one of a stateless model on tables
    that are as fresh as their version numbers, which a write does not always change.

  \<^item> \<open>Pdu\<close>: SNMP values with their constraints and wrap-around (\<open>proto/rfc1155.py\<close>,
    \<open>rfc1902.py\<close>), PDUs (\<open>rfc1157.py\<close>, \<open>rfc1905.py\<close>, \<open>rfc3411.py\<close>), and the functions of \<open>proto/api/v1.py\<close>
    and \<open>v2c.py\<close> that read and fill them.

  \<^item> \<open>Proxy\<close>: the PDU translation of \<open>proto/proxy/rfc2576.py\<close> with all of its tables; round trips
    of traps and requests, and the exact SNMPv1 answer made from an SNMPv2c response.

  \<^item> \<open>Dispatcher\<close>: the dispatcher \<open>proto/rfc3412.py\<close> and the timer callback of \<open>entity/engine.py\<close>:
    registration, sending, receiving, replying, time-outs and transport errors. The message
    processing models, the transports and the application callbacks are fields of a record
    \<open>denv\<close> of operations on the engine's state. The locale \<open>timer_env\<close> names what the timer
    needs of them, and is interpreted on an environment built from \<open>MP_Cache\<close>.

  \<^item> \<open>Usm_Auth\<close>: the keys of \<open>secmod/rfc3414/localkey.py\<close> and the digests of
    \<open>rfc3414/auth/hmacmd5.py\<close>, \<open>hmacsha.py\<close>, \<open>noauth.py\<close> and \<open>rfc7860/auth/hmacsha2.py\<close>; the locale
    \<open>message_auth\<close> is what the services have in common, interpreted on each of them. The hash
    functions and \<open>hmac\<close> are parameters, in the record \<open>crypto\<close>.

  \<^item> \<open>Usm\<close>: the receiving side of the user-based security model \<open>secmod/rfc3414/service.py\<close>:
    \<open>processIncomingMsg\<close> whole, with discovery, user look-up, security level, digest, time
    window, decryption, the security state cache and the statistics counters, and the expiry
    of the engines' clocks. BER decoding, the user table's look-up, the ciphers and the clock
    are fields of the record \<open>usm_env\<close>.

  \<^item> \<open>Usm_Priv\<close>: the privacy services \<open>rfc3414/priv/\<close>, \<open>rfc3826/priv/aes.py\<close> and \<open>eso/priv/\<close>: keys,
    salts, initialization vectors and padding, and the two ways to stretch a key. The block
    ciphers are parameters, in the record \<open>ciphers\<close>.

  \<^item> \<open>Usm_Send\<close>: the sending side of \<open>secmod/rfc3414/service.py\<close>: which user a message is sent for,
    discovery, encryption and authentication; that what is sent is protected at its level, and
    that the receiving side accepts it.

  \<^item> \<open>Mp_V3\<close>: SNMPv3 message processing, \<open>proto/mpmod/rfc3412.py\<close>, with the security models as a
    record \<open>sec_model\<close> of operations on the rest of the engine's state: which responses are
    accepted, when reports are sent, what is kept of requests and peers.

  \<^item> \<open>V3_Usm\<close>: the two together. The locale \<open>secure_link\<close> is what message processing needs of the
    security models at both ends, and is interpreted on the USM.

  \<^item> \<open>Community_Sm\<close>: the community string as a security model, \<open>proto/secmod/rfc2576.py\<close>, with the
    socket addresses of \<open>smi/mibs/behavior/SNMPv2-TM.py\<close> and \<open>TRANSPORT-ADDRESS-MIB.py\<close>: the maps
    it caches, and which security name a community stands for, over any sequence of messages that
    come in and go out. The order in which Python goes through a set is a parameter.

  \<^item> \<open>Mp_Community\<close>: SNMPv1 and SNMPv2c message processing, \<open>proto/mpmod/rfc2576.py\<close>, over a record of
    operations for the security models, for which the community model is put in: a request and
    its response, with the request IDs that are exchanged on the way and put back.

  \<^item> \<open>Oid_Dict\<close>: the dictionaries ordered by object identifier of \<open>smi/indices.py\<close>, with the
    binary search for the next key; the locale \<open>oid_index\<close> is what the search for a branch of
    the tree needs of such a dictionary.

  \<^item> \<open>Mib_Syntax\<close>: what setting a value does, with the conventions \<open>RowStatus\<close> and \<open>TestAndIncr\<close> of
    \<open>smi/mibs/SNMPv2-TC.py\<close>.

  \<^item> \<open>Mib_Tree\<close>, \<open>Mib_Walk\<close>, \<open>Mib_Index\<close>, \<open>Mib_Write\<close>: the classes of managed objects of
    \<open>smi/mibs/SNMPv2-SMI.py\<close>. \<open>Mib_Tree\<close> has the objects, the search and the reading operations;
    \<open>Mib_Walk\<close> shows that GETNEXT finds the successor, by a locale \<open>walked\<close> for one level of the
    tree that is interpreted on scalars, columns, rows and the root; \<open>Mib_Index\<close> has the
    conversion between index values and names, \<open>Mib_Write\<close> the phases of a write and the
    creation and destruction of rows.

  \<^item> \<open>Instrum\<close>: the state machine of \<open>smi/instrum.py\<close> that runs a request over all bindings. It ends
    for each of its tables; the locale \<open>instance_store\<close> has the laws under which a SET is done as
    a whole or not at all.

  \<^item> \<open>Set_Scalars\<close>: the interpretation of that locale on the tree of managed objects, and what a SET
    does with scalars and with rows that are created.

  \<^item> \<open>Instrum_Read\<close>: what the reading requests come to, and that what is read has been granted.

  \<^item> \<open>Cmdrsp\<close>: the command responder \<open>entity/rfc3413/cmdrsp.py\<close> with \<open>context.py\<close>, on top of the
    instrumentation, access control and the translation between versions: what a GET can
    disclose, what a GETBULK is answered with, and what is kept of a request.

  \<^item> \<open>Target_Config\<close>: what the other applications read of the configuration,
    \<open>entity/rfc3413/config.py\<close>, and remember of it: every answer is what the tables gave at the
    versions they have now, and where the program changes what is read without a new version.

  \<^item> \<open>Cmdgen\<close>: the command generator \<open>entity/rfc3413/cmdgen.py\<close>: requests, the matching of responses,
    retries, and the walks with GETNEXT and GETBULK; the engine is the record \<open>cg_env\<close> of operations.
    \<open>Cmdgen_Walk\<close> joins a walk with an agent, through the locale \<open>getnext_agent\<close>, interpreted on the tree
    of managed objects; \<open>Cmdgen_Dispatch\<close> puts the generator on the dispatcher, with a step relation over
    requests, responses and timer ticks whose invariant is that the generator knows every request the
    dispatcher waits for.

  \<^item> \<open>Notify_Filter\<close>, \<open>Ntforg\<close>: the notification originator \<open>entity/rfc3413/ntforg.py\<close>: the order of
    bindings and the matching of filters, then sending, retrying and completing traps and informs, over
    the record \<open>nt_env\<close>. \<open>Ntforg_Send\<close> has the locale \<open>notify_engine\<close> of what sending relies on, its
    interpretation on \<open>Target_Config\<close> and \<open>Vacm\<close>, and which targets a notification reaches, whatever
    becomes of sending to each;
    \<open>Ntforg_Done\<close> shows when the application is told that an inform is finished.

  \<^item> \<open>Ntfrcv\<close>: the notification receiver \<open>entity/rfc3413/ntfrcv.py\<close>: what is acknowledged, and how the
    application is called.

  \<^item> \<open>Stream\<close>, \<open>Stream_Carrier\<close>: stream transports, \<open>carrier/asyncio/stream/base.py\<close>: the framing of
    messages by their BER length, and the connections with the queue of what waits for them, as a step
    relation over what the event loop does.

  \<^item> \<open>Datagram\<close>: datagram transports, \<open>carrier/asyncio/dgram/base.py\<close>: what waits for a socket, and in
    which order it goes out.

  \<^item> \<open>Transport_Dispatcher\<close>, \<open>Asyncio_Dispatcher\<close>: the transport dispatcher \<open>carrier/base.py\<close> with its routing,
    its clock and its jobs; the task that ticks, \<open>carrier/asyncio/dispatch.py\<close>, the registration of
    transports, and an engine's attachment (\<open>entity/engine.py\<close>). The pace of the timers, which transport a message goes through, and
    what a timer that raises does to the clock.

  \<^bold>\<open>Conventions.\<close> A class is a record, prefixed field by field. A method that changes its object
  is a function in \<open>sm\<close>. An exception is the left value of \<open>res\<close>. Loops over lists are
  structural recursions or library functions, and no fuel is used anywhere: the ring buffer of
  \<open>hashPassphrase\<close> recurses on the number of blocks; the binary search of the dictionaries and the
  walk over the branches of the tree are functions with a termination proof; the state machine
  of the instrumentation and the stretching of privacy keys are partial functions, and that they
  return is a theorem. Octets
  are \<open>8 word\<close>; the integers of PDUs are Python's unbounded ones, with the constraint or the
  wrap-around of their type written out. Dictionaries whose order or iteration matters are
  association lists, all others maps. Times of the event loop are rational numbers.

  \<^bold>\<open>Parameters.\<close> Code outside the repository (the BER codec, \<open>hashlib\<close>, the ciphers) and the
  components a theory only calls are arguments. Theorems about them name what they need: that
  a digest has its length, that a random number is below its bound, that a release of state
  returns. Each such theorem has a concrete instance after it.

  \<^bold>\<open>Not modelled.\<close> Debug logging and the observer hooks of \<open>entity/observer.py\<close>, which do not
  change the result of an operation; sockets and the event loop themselves, whose calls are the steps
  of the transports' models, and the addresses of each transport (\<open>carrier/asyncio/*/udp.py\<close> and the like); the MIB compiler,
  loader and views (\<open>smi/\<close>), whose tables and trees are arguments here; the applications' front ends
  (\<open>hlapi/\<close>) and the configuration of the engine (\<open>entity/config.py\<close>).

  The obsolete interfaces of the applications and the assembly of the tree of managed objects in \<open>smi/instrum.py\<close>
  are left out, too.
\<close>

end
